(* ===== verification/Prelude.thy ===== *)
theory Prelude
  imports Main "HOL-Library.AList" "HOL-Library.Char_ord" "HOL-Library.List_Lexorder"
begin

text \<open>
  Shared vocabulary of the development: the error monad in which every fallible Python
  function is written (\<open>Inl\<close> is the raised exception, \<open>Inr\<close> the returned value), its
  congruence rules for recursive definitions, traversals of lists that stop at the first
  exception, and the generic lemmas on association lists, prefixes and sorted keys that the
  component theories use.
\<close>

named_theorems result_simps \<open>equations that decide the outcome of a monadic term\<close>

section \<open>The error monad\<close>

definition rbind :: "'e + 'a \<Rightarrow> ('a \<Rightarrow> 'e + 'b) \<Rightarrow> 'e + 'b" where
  "rbind m f = (case m of Inl e \<Rightarrow> Inl e | Inr x \<Rightarrow> f x)"

definition require :: "bool \<Rightarrow> 'e \<Rightarrow> 'e + unit" where
  "require b e = (if b then Inr () else Inl e)"

lemma rbind_simps [simp, code]:
  "rbind (Inl e) f = Inl e"
  "rbind (Inr x) f = f x"
  by (simp_all add: rbind_def)

lemma require_simps [simp]:
  "require True e = Inr ()"
  "require False e = Inl e"
  by (simp_all add: require_def)

lemma rbind_cong [fundef_cong]:
  "m = m' \<Longrightarrow> (\<And>x. m' = Inr x \<Longrightarrow> f x = g x) \<Longrightarrow> rbind m f = rbind m' g"
  by (cases m') (auto simp: rbind_def)

lemma rbind_Inr_iff [result_simps]:
  "rbind m f = Inr y \<longleftrightarrow> (\<exists>x. m = Inr x \<and> f x = Inr y)"
  by (cases m) (auto simp: rbind_def)

lemma rbind_Inl_iff [result_simps]:
  "rbind m f = Inl e \<longleftrightarrow> m = Inl e \<or> (\<exists>x. m = Inr x \<and> f x = Inl e)"
  by (cases m) (auto simp: rbind_def)

lemma require_iff [result_simps]:
  "require b e = Inr u \<longleftrightarrow> b"
  "require b e = Inl e' \<longleftrightarrow> \<not> b \<and> e' = e"
  by (auto simp: require_def)

lemma option_case_Inr [result_simps]:
  "(case m of None \<Rightarrow> Inl e | Some x \<Rightarrow> f x) = Inr y \<longleftrightarrow> (\<exists>x. m = Some x \<and> f x = Inr y)"
  by (cases m) auto

lemma rbind_assoc: "rbind (rbind m f) g = rbind m (\<lambda>x. rbind (f x) g)"
  by (cases m) auto

text \<open>Traversal of a list, left to right, that stops at the first exception.\<close>

fun map_r :: "('a \<Rightarrow> 'e + 'b) \<Rightarrow> 'a list \<Rightarrow> 'e + 'b list" where
  "map_r f [] = Inr []"
| "map_r f (x # xs) = rbind (f x) (\<lambda>y. rbind (map_r f xs) (\<lambda>ys. Inr (y # ys)))"

fun fold_r :: "('a \<Rightarrow> 's \<Rightarrow> 'e + 's) \<Rightarrow> 'a list \<Rightarrow> 's \<Rightarrow> 'e + 's" where
  "fold_r f [] s = Inr s"
| "fold_r f (x # xs) s = rbind (f x s) (\<lambda>s'. fold_r f xs s')"

lemma map_r_cong [fundef_cong]:
  "xs = ys \<Longrightarrow> (\<And>x. x \<in> set ys \<Longrightarrow> f x = g x) \<Longrightarrow> map_r f xs = map_r g ys"
  by (induction ys arbitrary: xs) auto

lemma fold_r_cong [fundef_cong]:
  "xs = ys \<Longrightarrow> s = t \<Longrightarrow> (\<And>x u. x \<in> set ys \<Longrightarrow> f x u = g x u) \<Longrightarrow> fold_r f xs s = fold_r g ys t"
  by (induction ys arbitrary: xs s t) (auto simp: rbind_def split: sum.splits)

lemma map_r_Inr_iff:
  "map_r f xs = Inr ys \<longleftrightarrow> list_all2 (\<lambda>x y. f x = Inr y) xs ys"
proof (induction xs arbitrary: ys)
  case Nil
  then show ?case by auto
next
  case (Cons x xs)
  then show ?case by (cases ys) (auto simp: result_simps list_all2_Cons1)
qed

lemma map_r_InlD:
  "map_r f xs = Inl e \<Longrightarrow> \<exists>x \<in> set xs. f x = Inl e"
  by (induction xs) (auto simp: result_simps)

lemma map_r_length: "map_r f xs = Inr ys \<Longrightarrow> length ys = length xs"
  by (simp add: map_r_Inr_iff list_all2_lengthD)

lemma map_r_Inr_memD:
  "map_r f xs = Inr ys \<Longrightarrow> x \<in> set xs \<Longrightarrow> \<exists>y \<in> set ys. f x = Inr y"
  by (fastforce simp: map_r_Inr_iff list_all2_conv_all_nth in_set_conv_nth)

lemma map_r_Inr_mem2D:
  "map_r f xs = Inr ys \<Longrightarrow> y \<in> set ys \<Longrightarrow> \<exists>x \<in> set xs. f x = Inr y"
  by (fastforce simp: map_r_Inr_iff list_all2_conv_all_nth in_set_conv_nth)

lemma map_r_id: "(\<And>x. x \<in> set xs \<Longrightarrow> f x = Inr x) \<Longrightarrow> map_r f xs = Inr xs"
  by (induction xs) auto

lemma map_r_append:
  "map_r f (xs @ ys) = rbind (map_r f xs) (\<lambda>us. rbind (map_r f ys) (\<lambda>vs. Inr (us @ vs)))"
  by (induction xs) (auto simp: rbind_assoc intro!: rbind_cong, simp add: rbind_def split: sum.splits)

lemma fold_r_InlD:
  "fold_r f xs s = Inl e \<Longrightarrow> \<exists>x \<in> set xs. \<exists>t. f x t = Inl e"
  by (induction xs arbitrary: s) (auto simp: result_simps)

lemma fold_r_unit_iff:
  "fold_r (\<lambda>x (_::unit). f x) xs () = Inr () \<longleftrightarrow> (\<forall>x \<in> set xs. f x = Inr ())"
  by (induction xs) (auto simp: result_simps)

lemma fold_r_append:
  "fold_r f (xs @ ys) s = rbind (fold_r f xs s) (fold_r f ys)"
  by (induction xs arbitrary: s) (auto simp: rbind_assoc intro: rbind_cong)

section \<open>Association lists with stable key order\<close>

lemma filter_map_of:
  "map_of kvs k = (case filter (\<lambda>p. fst p = k) kvs of [] \<Rightarrow> None | p # _ \<Rightarrow> Some (snd p))"
  by (induction kvs) auto

lemma map_of_sort_key [simp]: "map_of (sort_key fst kvs) = map_of kvs"
proof
  fix k
  show "map_of (sort_key fst kvs) k = map_of kvs k"
    by (simp add: filter_map_of [of _ k] sort_key_stable)
qed

lemma map_of_map_snd: "map_of (map (\<lambda>(k, v). (k, f v)) kvs) k = map_option f (map_of kvs k)"
  by (induction kvs) auto

lemma sort_key_map_snd:
  "map (\<lambda>(k, v). (k, f v)) (sort_key fst kvs) = sort_key fst (map (\<lambda>(k, v). (k, f v)) kvs)"
  for kvs :: "('k::linorder \<times> 'v) list"
proof -
  have step: "map (\<lambda>(k, v). (k, f v)) (insort_key fst p xs)
      = insort_key fst ((\<lambda>(k, v). (k, f v)) p) (map (\<lambda>(k, v). (k, f v)) xs)"
    for p and xs :: "('k \<times> 'v) list"
    by (induction xs) (auto split: prod.splits)
  show ?thesis
    by (induction kvs) (auto simp: step split: prod.splits)
qed

end
