(* ===== verification/PyValue.thy ===== *)
theory PyValue
  imports Prelude "HOL-Library.Sublist"
begin

text \<open>
  The Python values the modelled modules exchange: JSON-like data (None, bool, int, float,
  str, list, tuple, dict) together with the operations of the language the sources use on
  them (\<open>.get\<close>, subscription, iteration, truth value, \<open>==\<close>, ordering) and the exceptions
  they raise.

  Representation. A \<open>str\<close> is the list of its UTF-8 bytes: equality, concatenation, splitting
  at ASCII separators and the code point order of sorted keys are the same on both. A
  \<open>dict\<close> is the list of its items in insertion order; mappings in this code base are JSON
  objects, so keys are strings. A finite \<open>float\<close> is its sign and the shortest decimal
  \<open>d * 10 ^ x\<close> that round-trips, which determines it and orders floats as their values do.
\<close>

section \<open>Exceptions\<close>

datatype exc =
    PureExprEvaluationError string
  | TransitionContractError string
  | TransitionExecutionError string
  | ReferenceResolutionError
  | PredicateEvaluationError
  | RuntimeError string
  | ValueError
  | KeyError
  | TypeError
  | AttributeError
  | IndexError
  | OSError
  | TimeoutError

section \<open>Values\<close>

datatype pyfloat = FNaN | FInf bool | FFin bool nat int

datatype pyval =
    PNone
  | PBool bool
  | PInt int
  | PFloat pyfloat
  | PStr string
  | PList "pyval list"
  | PTuple "pyval list"
  | PDict "(string \<times> pyval) list"

type_synonym pydict = "(string \<times> pyval) list"

lemma size_list_mem [termination_simp]: "x \<in> set xs \<Longrightarrow> size x < size (PList xs)"
  by (induction xs) auto

lemma size_tuple_mem [termination_simp]: "x \<in> set xs \<Longrightarrow> size x < size (PTuple xs)"
  by (induction xs) auto

lemma size_dict_mem [termination_simp]: "(k, v) \<in> set kvs \<Longrightarrow> size v < size (PDict kvs)"
  by (induction kvs) auto

section \<open>Mappings and sequences\<close>

definition dget :: "pydict \<Rightarrow> string \<Rightarrow> pyval" where
  "dget kvs k = (case map_of kvs k of None \<Rightarrow> PNone | Some v \<Rightarrow> v)"

definition is_mapping :: "pyval \<Rightarrow> bool" where
  "is_mapping v = (case v of PDict _ \<Rightarrow> True | _ \<Rightarrow> False)"

definition py_get :: "pyval \<Rightarrow> string \<Rightarrow> exc + pyval" where
  "py_get v k = (case v of PDict kvs \<Rightarrow> Inr (dget kvs k) | _ \<Rightarrow> Inl AttributeError)"

definition py_item :: "pyval \<Rightarrow> string \<Rightarrow> exc + pyval" where
  "py_item v k = (case v of
      PDict kvs \<Rightarrow> (case map_of kvs k of None \<Rightarrow> Inl KeyError | Some w \<Rightarrow> Inr w)
    | _ \<Rightarrow> Inl TypeError)"

definition py_iter :: "pyval \<Rightarrow> exc + pyval list" where
  "py_iter v = (case v of
      PList xs \<Rightarrow> Inr xs
    | PTuple xs \<Rightarrow> Inr xs
    | PDict kvs \<Rightarrow> Inr (map (\<lambda>p. PStr (fst p)) kvs)
    | PStr s \<Rightarrow> Inr (map (\<lambda>c. PStr [c]) s)
    | _ \<Rightarrow> Inl TypeError)"

definition seq_items :: "pyval \<Rightarrow> pyval list" where
  "seq_items v = (case v of PList xs \<Rightarrow> xs | PTuple xs \<Rightarrow> xs | _ \<Rightarrow> [])"

definition is_str :: "pyval \<Rightarrow> bool" where
  "is_str v = (case v of PStr _ \<Rightarrow> True | _ \<Rightarrow> False)"

definition nonempty_str :: "pyval \<Rightarrow> bool" where
  "nonempty_str v = (case v of PStr s \<Rightarrow> s \<noteq> [] | _ \<Rightarrow> False)"

definition str_of :: "pyval \<Rightarrow> string" where
  "str_of v = (case v of PStr s \<Rightarrow> s | _ \<Rightarrow> [])"

lemma dget_eq [simp]: "map_of kvs k = Some v \<Longrightarrow> dget kvs k = v"
  by (simp add: dget_def)

lemma dget_none [simp]: "map_of kvs k = None \<Longrightarrow> dget kvs k = PNone"
  by (simp add: dget_def)

lemma dget_present: "dget kvs k = v \<Longrightarrow> v \<noteq> PNone \<Longrightarrow> map_of kvs k = Some v"
  by (auto simp: dget_def split: option.splits)

lemma dget_simps [simp]:
  "dget [] k = PNone"
  "dget ((k', v) # kvs) k = (if k = k' then v else dget kvs k)"
  by (auto simp: dget_def)

lemma size_dget [termination_simp]: "size (dget kvs k) < size (PDict kvs)"
  by (auto simp: dget_def dest!: map_of_SomeD size_dict_mem split: option.splits)

lemma size_seq_items: "x \<in> set (seq_items v) \<Longrightarrow> size x < size v"
  by (cases v) (auto simp: seq_items_def dest: size_list_mem size_tuple_mem)

lemma size_seq_dget [termination_simp]:
  "x \<in> set (seq_items (dget kvs k)) \<Longrightarrow> size x < size (PDict kvs)"
  using size_seq_items [of x "dget kvs k"] size_dget [of kvs k] by simp

lemma size_py_get: "py_get v k = Inr w \<Longrightarrow> size w < size v"
  by (cases v) (auto simp: py_get_def size_dget simp del: pyval.size)

lemma size_py_item: "py_item v k = Inr w \<Longrightarrow> size w < size v"
  by (cases v) (auto simp: py_item_def dest!: map_of_SomeD size_dict_mem split: option.splits)

lemma mapping_simps [simp]:
  "is_mapping (PDict kvs)" "\<not> is_mapping PNone" "\<not> is_mapping (PBool b)"
  "\<not> is_mapping (PInt i)" "\<not> is_mapping (PFloat f)" "\<not> is_mapping (PStr s)"
  "\<not> is_mapping (PList xs)" "\<not> is_mapping (PTuple xs)"
  by (simp_all add: is_mapping_def)

lemma is_mappingE: "is_mapping v \<Longrightarrow> (\<And>kvs. v = PDict kvs \<Longrightarrow> P) \<Longrightarrow> P"
  by (cases v) auto

lemma seq_items_simps [simp]:
  "seq_items (PList xs) = xs" "seq_items (PTuple xs) = xs" "seq_items PNone = []"
  "seq_items (PDict kvs) = []" "seq_items (PStr s) = []"
  by (simp_all add: seq_items_def)

lemma str_simps [simp]:
  "is_str (PStr s)" "\<not> is_str PNone" "\<not> is_str (PBool b)" "\<not> is_str (PInt i)"
  "\<not> is_str (PFloat f)" "\<not> is_str (PList xs)" "\<not> is_str (PTuple xs)" "\<not> is_str (PDict kvs)"
  "nonempty_str (PStr s) = (s \<noteq> [])" "\<not> nonempty_str PNone" "\<not> nonempty_str (PBool b)"
  "\<not> nonempty_str (PInt i)" "\<not> nonempty_str (PFloat f)" "\<not> nonempty_str (PList xs)"
  "\<not> nonempty_str (PTuple xs)" "\<not> nonempty_str (PDict kvs)" "str_of (PStr s) = s"
  by (simp_all add: is_str_def nonempty_str_def str_of_def)

lemma is_strE: "is_str v \<Longrightarrow> (\<And>s. v = PStr s \<Longrightarrow> P) \<Longrightarrow> P"
  by (cases v) auto

lemma nonempty_strE: "nonempty_str v \<Longrightarrow> (\<And>s. v = PStr s \<Longrightarrow> s \<noteq> [] \<Longrightarrow> P) \<Longrightarrow> P"
  by (cases v) auto

lemma get_item_simps [simp]:
  "py_get (PDict kvs) k = Inr (dget kvs k)"
  "map_of kvs k = Some w \<Longrightarrow> py_item (PDict kvs) k = Inr w"
  "map_of kvs k = None \<Longrightarrow> py_item (PDict kvs) k = Inl KeyError"
  by (simp_all add: py_get_def py_item_def)

lemma py_item_dget: "dget kvs k \<noteq> PNone \<Longrightarrow> py_item (PDict kvs) k = Inr (dget kvs k)"
  by (auto simp: dget_def split: option.splits)

lemma py_iter_simps [simp]:
  "py_iter (PList xs) = Inr xs" "py_iter (PTuple xs) = Inr xs"
  by (simp_all add: py_iter_def)

section \<open>Truth value, equality, ordering\<close>

fun py_bool :: "pyval \<Rightarrow> bool" where
  "py_bool PNone = False"
| "py_bool (PBool b) = b"
| "py_bool (PInt i) = (i \<noteq> 0)"
| "py_bool (PFloat f) = (case f of FFin _ d _ \<Rightarrow> d \<noteq> 0 | _ \<Rightarrow> True)"
| "py_bool (PStr s) = (s \<noteq> [])"
| "py_bool (PList xs) = (xs \<noteq> [])"
| "py_bool (PTuple xs) = (xs \<noteq> [])"
| "py_bool (PDict kvs) = (kvs \<noteq> [])"

definition fin_scaled :: "int \<Rightarrow> bool \<Rightarrow> nat \<Rightarrow> int \<Rightarrow> int" where
  "fin_scaled e0 s d x = (if s then - 1 else 1) * int d * 10 ^ nat (x - e0)"

fun float_less :: "pyfloat \<Rightarrow> pyfloat \<Rightarrow> bool" where
  "float_less FNaN _ = False"
| "float_less _ FNaN = False"
| "float_less (FInf s) (FInf t) = (s \<and> \<not> t)"
| "float_less (FInf s) (FFin _ _ _) = s"
| "float_less (FFin _ _ _) (FInf t) = (\<not> t)"
| "float_less (FFin s d x) (FFin t d' y) =
     (fin_scaled (min x y) s d x < fin_scaled (min x y) t d' y)"

fun float_eq :: "pyfloat \<Rightarrow> pyfloat \<Rightarrow> bool" where
  "float_eq (FInf s) (FInf t) = (s = t)"
| "float_eq (FFin s d x) (FFin t d' y) =
     (fin_scaled (min x y) s d x = fin_scaled (min x y) t d' y)"
| "float_eq _ _ = False"

definition float_le :: "pyfloat \<Rightarrow> pyfloat \<Rightarrow> bool" where
  "float_le a b = (float_less a b \<or> float_eq a b)"

text \<open>
  The exact value of a double from its shortest decimal: below \<open>2 ^ 53\<close> the decimal lies on the
  same side of every integer as the double, from there on the double is the integer that the
  decimal rounds to in 53 bits (half to even). So integers and floats compare as in Python,
  by their exact values.
\<close>

fun bit_length :: "nat \<Rightarrow> nat" where
  "bit_length n = (if n = 0 then 0 else Suc (bit_length (n div 2)))"

declare bit_length.simps [simp del]

definition round_53 :: "nat \<Rightarrow> nat \<Rightarrow> nat" where
  "round_53 num den =
     (let k = bit_length (num div den) - 53; unit = den * 2 ^ k; q = num div unit; r = num mod unit in
      (if 2 * r > unit \<or> 2 * r = unit \<and> odd q then q + 1 else q) * 2 ^ k)"

fun float_exact :: "pyfloat \<Rightarrow> pyfloat" where
  "float_exact (FFin s d x) =
     (let num = d * 10 ^ nat x; den = 10 ^ nat (- x) in
      if 2 ^ 53 \<le> num div den then FFin s (round_53 num den) 0 else FFin s d x)"
| "float_exact f = f"

text \<open>Numbers, with \<open>bool\<close> a subtype of \<open>int\<close>; two integers are compared exactly.\<close>

fun py_num :: "pyval \<Rightarrow> pyfloat option" where
  "py_num (PBool b) = Some (FFin False (if b then 1 else 0) 0)"
| "py_num (PInt i) = Some (FFin (i < 0) (nat \<bar>i\<bar>) 0)"
| "py_num (PFloat f) = Some (float_exact f)"
| "py_num _ = None"

function py_eq :: "pyval \<Rightarrow> pyval \<Rightarrow> bool" where
  "py_eq v w =
     (case (v, w) of
        (PNone, PNone) \<Rightarrow> True
      | (PStr s, PStr t) \<Rightarrow> s = t
      | (PList xs, PList ys) \<Rightarrow>
          length xs = length ys \<and> list_all (\<lambda>(x, y). py_eq x y) (zip xs ys)
      | (PTuple xs, PTuple ys) \<Rightarrow>
          length xs = length ys \<and> list_all (\<lambda>(x, y). py_eq x y) (zip xs ys)
      | (PDict kvs, PDict kws) \<Rightarrow>
          length kvs = length kws \<and>
          list_all (\<lambda>(k, x). (case map_of kws k of None \<Rightarrow> False | Some y \<Rightarrow> py_eq x y)) kvs
      | _ \<Rightarrow> (case (py_num v, py_num w) of
                (Some a, Some b) \<Rightarrow> float_eq a b
              | _ \<Rightarrow> False))"
  by pat_completeness auto
termination
  by (relation "measure (\<lambda>(v, w). size v)")
    (auto dest!: set_zip_leftD size_list_mem size_tuple_mem size_dict_mem)

declare py_eq.simps [simp del]

text \<open>
  \<open><\<close> and \<open><=\<close> on numbers; other operands raise TypeError (the modelled code orders
  numbers only).
\<close>

definition py_less :: "pyval \<Rightarrow> pyval \<Rightarrow> exc + bool" where
  "py_less v w = (case (py_num v, py_num w) of
      (Some a, Some b) \<Rightarrow> Inr (float_less a b) | _ \<Rightarrow> Inl TypeError)"

definition py_le :: "pyval \<Rightarrow> pyval \<Rightarrow> exc + bool" where
  "py_le v w = (case (py_num v, py_num w) of
      (Some a, Some b) \<Rightarrow> Inr (float_le a b) | _ \<Rightarrow> Inl TypeError)"

lemma py_eq_simps [simp]:
  "py_eq (PStr s) (PStr t) = (s = t)"
  "py_eq (PBool a) (PBool b) = (a = b)"
  "py_eq (PInt i) (PInt j) = (i = j)"
  by (auto simp: py_eq.simps fin_scaled_def)

lemma py_less_int [simp]: "py_less (PInt i) (PInt j) = Inr (i < j)"
  by (auto simp: py_less_def fin_scaled_def)

lemma py_le_int [simp]: "py_le (PInt i) (PInt j) = Inr (i \<le> j)"
  by (auto simp: py_le_def float_le_def fin_scaled_def)

section \<open>Properties of all parts of a value\<close>

fun all_sub :: "(pyval \<Rightarrow> bool) \<Rightarrow> pyval \<Rightarrow> bool" where
  "all_sub P (PList xs) = (P (PList xs) \<and> list_all (all_sub P) xs)"
| "all_sub P (PTuple xs) = (P (PTuple xs) \<and> list_all (all_sub P) xs)"
| "all_sub P (PDict kvs) = (P (PDict kvs) \<and> list_all (\<lambda>(k, v). all_sub P v) kvs)"
| "all_sub P v = P v"

lemma all_subD: "all_sub P v \<Longrightarrow> P v"
  by (cases v) auto

lemma all_sub_dget: "all_sub P (PDict kvs) \<Longrightarrow> P PNone \<Longrightarrow> all_sub P (dget kvs k)"
  by (auto simp: dget_def list_all_iff dest!: map_of_SomeD split: option.splits)

lemma all_sub_map_of: "all_sub P (PDict kvs) \<Longrightarrow> map_of kvs k = Some v \<Longrightarrow> all_sub P v"
  by (auto simp: list_all_iff dest!: map_of_SomeD)

lemma all_sub_seq: "all_sub P v \<Longrightarrow> x \<in> set (seq_items v) \<Longrightarrow> all_sub P x"
  by (cases v) (auto simp: list_all_iff seq_items_def)

lemma all_sub_mono: "all_sub P v \<Longrightarrow> (\<And>w. P w \<Longrightarrow> Q w) \<Longrightarrow> all_sub Q v"
  by (induction v) (auto simp: list_all_iff snds.simps)

text \<open>\<open>x.get(k)\<close> on an element known to be a mapping; \<open>None\<close> otherwise.\<close>

definition dfield :: "pyval \<Rightarrow> string \<Rightarrow> pyval" where
  "dfield v k = (case v of PDict kv \<Rightarrow> dget kv k | _ \<Rightarrow> PNone)"

lemma dfield_dict [simp]: "dfield (PDict kv) k = dget kv k"
  by (simp add: dfield_def)

text \<open>\<open>value in container\<close>: substring test on a string, membership elsewhere.\<close>

definition py_in :: "pyval \<Rightarrow> pyval \<Rightarrow> exc + bool" where
  "py_in v w = (case w of
      PStr t \<Rightarrow> (case v of PStr s \<Rightarrow> Inr (sublist s t) | _ \<Rightarrow> Inl TypeError)
    | _ \<Rightarrow> rbind (py_iter w) (\<lambda>xs. Inr (list_ex (py_eq v) xs)))"

end
