(* ===== verification/CanonicalJson.thy ===== *)
theory CanonicalJson
  imports PyValue
begin

text \<open>
  Canonical JSON (\<open>canonical_json_for_pure_value\<close> of \<open>workflow/pure_expr.py\<close>,
  \<open>canonical_transition_json\<close> of \<open>workflow/transition_contract.py\<close>): the text
  \<open>json.dumps(value, sort_keys=True, separators=(",", ":"), ensure_ascii=False,
  allow_nan=False)\<close>. The encoder is written in two stages, the tree of what is printed
  (\<open>canon\<close>: keys sorted, tuples as arrays, numbers as their literals) and its text
  (\<open>json_text\<close>). The main fact is that the text determines the tree, so comparing
  canonical texts, as the code does for type descriptors and digests, compares values up to
  the order of keys and the tuple/list distinction and nothing else.
\<close>

section \<open>Numbers and strings\<close>

definition digit_char :: "nat \<Rightarrow> char" where
  "digit_char n = ''0123456789'' ! n"

fun nat_repr :: "nat \<Rightarrow> string" where
  "nat_repr n = (if n < 10 then [digit_char n] else nat_repr (n div 10) @ [digit_char (n mod 10)])"

declare nat_repr.simps [simp del]

definition int_repr :: "int \<Rightarrow> string" where
  "int_repr i = (if i < 0 then ''-'' @ nat_repr (nat (- i)) else nat_repr (nat i))"

text \<open>\<open>float.__repr__\<close> from the shortest decimal: fixed point when the decimal point falls
  in \<open>(-4, 16]\<close>, otherwise scientific with at least two exponent digits.\<close>

definition float_body :: "nat \<Rightarrow> int \<Rightarrow> string" where
  "float_body d x =
     (let ds = nat_repr d; n = int (length ds); p = n + x in
      if - 4 < p \<and> p \<le> 16 then
        (if p \<le> 0 then ''0.'' @ replicate (nat (- p)) (CHR ''0'') @ ds
         else if n \<le> p then ds @ replicate (nat (p - n)) (CHR ''0'') @ ''.0''
         else take (nat p) ds @ ''.'' @ drop (nat p) ds)
      else
        take 1 ds @ (if n = 1 then [] else ''.'' @ drop 1 ds) @ ''e'' @
        (if p - 1 < 0 then ''-'' else ''+'') @
        (if \<bar>p - 1\<bar> < 10 then ''0'' else []) @ nat_repr (nat \<bar>p - 1\<bar>))"

fun float_repr :: "pyfloat \<Rightarrow> string" where
  "float_repr FNaN = ''nan''"
| "float_repr (FInf s) = (if s then ''-inf'' else ''inf'')"
| "float_repr (FFin s d x) = (if s then ''-'' else []) @ float_body d x"

definition hex_char :: "nat \<Rightarrow> char" where
  "hex_char n = ''0123456789abcdef'' ! n"

definition esc_char :: "char \<Rightarrow> string" where
  "esc_char c =
     (if c = CHR 0x22 then [CHR 0x5C, CHR 0x22]
      else if c = CHR 0x5C then [CHR 0x5C, CHR 0x5C]
      else if c = CHR 0x0A then [CHR 0x5C, CHR ''n'']
      else if c = CHR 0x0D then [CHR 0x5C, CHR ''r'']
      else if c = CHR 0x09 then [CHR 0x5C, CHR ''t'']
      else if c = CHR 0x0C then [CHR 0x5C, CHR ''f'']
      else if c = CHR 0x08 then [CHR 0x5C, CHR ''b'']
      else if (of_char c :: nat) < 32
        then CHR 0x5C # ''u00'' @ [hex_char (of_char c div 16), hex_char (of_char c mod 16)]
      else [c])"

definition json_str :: "string \<Rightarrow> string" where
  "json_str s = CHR 0x22 # concat (map esc_char s) @ [CHR 0x22]"

section \<open>The encoder\<close>

datatype jtree =
    JNull
  | JBool bool
  | JNum string
  | JStr string
  | JArr "jtree list"
  | JObj "(string \<times> jtree) list"

fun canon :: "pyval \<Rightarrow> jtree" where
  "canon PNone = JNull"
| "canon (PBool b) = JBool b"
| "canon (PInt i) = JNum (int_repr i)"
| "canon (PFloat f) = JNum (float_repr f)"
| "canon (PStr s) = JStr s"
| "canon (PList xs) = JArr (map canon xs)"
| "canon (PTuple xs) = JArr (map canon xs)"
| "canon (PDict kvs) = JObj (sort_key fst (map (\<lambda>(k, v). (k, canon v)) kvs))"

fun join :: "string \<Rightarrow> string list \<Rightarrow> string" where
  "join sep [] = []"
| "join sep (x # xs) = x @ concat (map (\<lambda>y. sep @ y) xs)"

fun json_text :: "jtree \<Rightarrow> string" where
  "json_text JNull = ''null''"
| "json_text (JBool b) = (if b then ''true'' else ''false'')"
| "json_text (JNum s) = s"
| "json_text (JStr s) = json_str s"
| "json_text (JArr ts) = CHR ''['' # join '','' (map json_text ts) @ '']''"
| "json_text (JObj kvs) =
     CHR ''{'' # join '','' (map (\<lambda>(k, t). json_str k @ '':'' @ json_text t) kvs) @ ''}''"

definition finite_float :: "pyval \<Rightarrow> bool" where
  "finite_float v = (case v of PFloat (FFin _ _ _) \<Rightarrow> True | PFloat _ \<Rightarrow> False | _ \<Rightarrow> True)"

definition json_dumps :: "pyval \<Rightarrow> exc + string" where
  "json_dumps v = (if all_sub finite_float v then Inr (json_text (canon v)) else Inl ValueError)"

fun jsonable :: "pyval \<Rightarrow> pyval" where
  "jsonable (PDict kvs) = PDict (map (\<lambda>(k, v). (k, jsonable v)) kvs)"
| "jsonable (PTuple xs) = PList (map jsonable xs)"
| "jsonable (PList xs) = PList (map jsonable xs)"
| "jsonable v = v"

definition canonical_json_for_pure_value :: "pyval \<Rightarrow> exc + string" where
  "canonical_json_for_pure_value v = json_dumps (jsonable v)"

definition canonical_json_for_pure_payload :: "pyval \<Rightarrow> exc + string" where
  "canonical_json_for_pure_payload payload = canonical_json_for_pure_value payload"

text \<open>SHA-256 in hexadecimal is the argument \<open>sha\<close> of every digest.\<close>

definition pure_expr_payload_digest :: "(string \<Rightarrow> string) \<Rightarrow> pyval \<Rightarrow> exc + string" where
  "pure_expr_payload_digest sha payload =
     rbind (canonical_json_for_pure_payload payload) (\<lambda>t. Inr (''sha256:'' @ sha t))"

section \<open>Normalisation facts\<close>

lemma canon_jsonable [simp]: "canon (jsonable v) = canon v"
  by (induction v rule: jsonable.induct)
    (auto simp: comp_def intro!: arg_cong [where f = "sort_key fst"] split: prod.splits)

lemma jsonable_idem [simp]: "jsonable (jsonable v) = jsonable v"
  by (induction v rule: jsonable.induct) (auto simp: comp_def split: prod.splits)

lemma all_sub_finite_jsonable [simp]:
  "all_sub finite_float (jsonable v) = all_sub finite_float v"
  by (induction v rule: jsonable.induct)
    (auto simp: list_all_iff finite_float_def comp_def split: prod.splits)

lemma canonical_json_jsonable [simp]:
  "canonical_json_for_pure_value (jsonable v) = canonical_json_for_pure_value v"
  by (simp add: canonical_json_for_pure_value_def json_dumps_def)

section \<open>The text determines the tree\<close>

definition num_char :: "char \<Rightarrow> bool" where
  "num_char c = (c \<in> set ''0123456789.e+-'')"

lemma digit_char_num: "n < 10 \<Longrightarrow> num_char (digit_char n)"
  using nth_mem [of n "''0123456789''"] by (auto simp: digit_char_def num_char_def)

lemma nat_repr_nonempty [simp]: "nat_repr n \<noteq> []"
  by (subst nat_repr.simps) simp

lemma nat_repr_num: "\<forall>c \<in> set (nat_repr n). num_char c"
proof (induction n rule: nat_repr.induct)
  case (1 n)
  then show ?case
    by (subst nat_repr.simps) (auto simp: digit_char_num)
qed

lemma num_char_simps [simp]:
  "num_char CHR ''0''" "num_char CHR ''.''" "num_char CHR ''e''" "num_char CHR ''+''"
  "num_char CHR ''-''" "\<not> num_char CHR '',''" "\<not> num_char CHR '']''" "\<not> num_char CHR ''}''"
  "\<not> num_char CHR ''n''" "\<not> num_char CHR ''t''" "\<not> num_char CHR ''f''" "\<not> num_char CHR 0x22"
  "\<not> num_char CHR ''[''" "\<not> num_char CHR ''{''"
  by (simp_all add: num_char_def)

lemma int_repr_num: "int_repr i \<noteq> [] \<and> (\<forall>c \<in> set (int_repr i). num_char c)"
  using nat_repr_num by (auto simp: int_repr_def)

lemma float_body_num: "float_body d x \<noteq> [] \<and> (\<forall>c \<in> set (float_body d x). num_char c)"
  using nat_repr_num [of d] nat_repr_num [of "nat \<bar>int (length (nat_repr d)) + x - 1\<bar>"]
  by (auto simp: float_body_def Let_def dest: in_set_takeD in_set_dropD)

fun jtree_ok :: "jtree \<Rightarrow> bool" where
  "jtree_ok (JNum s) = (s \<noteq> [] \<and> list_all num_char s)"
| "jtree_ok (JArr ts) = list_all jtree_ok ts"
| "jtree_ok (JObj kvs) = list_all (\<lambda>(k, t). jtree_ok t) kvs"
| "jtree_ok _ = True"

lemma canon_ok: "all_sub finite_float v \<Longrightarrow> jtree_ok (canon v)"
proof (induction v rule: canon.induct)
  case (3 i)
  then show ?case using int_repr_num [of i] by (simp add: list_all_iff)
next
  case (4 f)
  then show ?case using float_body_num
    by (cases f) (auto simp: list_all_iff finite_float_def)
qed (auto simp: list_all_iff split: prod.splits)

text \<open>The escape code of strings is prefix free, so a quoted string ends where it says.\<close>

lemma hex_char_inj: "n < 16 \<Longrightarrow> m < 16 \<Longrightarrow> hex_char n = hex_char m \<Longrightarrow> n = m"
proof -
  assume "n < 16" "m < 16" "hex_char n = hex_char m"
  then show "n = m"
    using nth_eq_iff_index_eq [of "''0123456789abcdef''" n m] by (simp add: hex_char_def)
qed

lemma control_char_inj:
  assumes "(of_char c :: nat) < 32" "(of_char d :: nat) < 32"
    and "hex_char (of_char c div 16) = hex_char (of_char d div 16)"
    and "hex_char (of_char c mod 16) = hex_char (of_char d mod 16)"
  shows "c = d"
proof -
  have "(of_char c :: nat) div 16 = of_char d div 16"
    using assms by (intro hex_char_inj) auto
  moreover have "(of_char c :: nat) mod 16 = of_char d mod 16"
    using assms by (intro hex_char_inj) auto
  ultimately have "(of_char c :: nat) = of_char d"
    by (metis div_mult_mod_eq)
  then show ?thesis by simp
qed

lemma esc_char_inj:
  "esc_char c @ r = esc_char d @ r' \<Longrightarrow> c = d \<and> r = r'"
  by (auto simp: esc_char_def split: if_splits dest: control_char_inj)

lemma esc_char_no_quote: "esc_char c @ r \<noteq> CHR 0x22 # r'"
  by (auto simp: esc_char_def)

lemma esc_str_inj:
  "concat (map esc_char s) @ CHR 0x22 # r = concat (map esc_char t) @ CHR 0x22 # r' \<Longrightarrow>
     s = t \<and> r = r'"
proof (induction s arbitrary: t)
  case Nil
  then show ?case
    using esc_char_no_quote by (cases t) (auto, metis)
next
  case (Cons c s)
  show ?case
  proof (cases t)
    case Nil
    with Cons.prems show ?thesis
      using esc_char_no_quote by auto
  next
    case (Cons d t')
    with Cons.prems have "esc_char c @ concat (map esc_char s) @ CHR 0x22 # r
        = esc_char d @ concat (map esc_char t') @ CHR 0x22 # r'"
      by simp
    then have "c = d" and "concat (map esc_char s) @ CHR 0x22 # r
        = concat (map esc_char t') @ CHR 0x22 # r'"
      by (blast dest: esc_char_inj)+
    with Cons Cons.IH show ?thesis by auto
  qed
qed

lemma json_str_inj: "json_str s @ r = json_str t @ r' \<Longrightarrow> s = t \<and> r = r'"
  by (auto simp: json_str_def dest: esc_str_inj)

definition stops :: "string \<Rightarrow> bool" where
  "stops r = (r = [] \<or> \<not> num_char (hd r))"

lemma number_end:
  "list_all num_char s \<Longrightarrow> list_all num_char t \<Longrightarrow> stops r \<Longrightarrow> stops r' \<Longrightarrow>
     s @ r = t @ r' \<Longrightarrow> s = t \<and> r = r'"
proof (induction s arbitrary: t)
  case Nil
  then show ?case by (cases t) (auto simp: stops_def)
next
  case (Cons c s)
  then show ?case by (cases t) (auto simp: stops_def)
qed

text \<open>The first character tells the form of a text apart.\<close>

fun lead :: "jtree \<Rightarrow> char" where
  "lead JNull = CHR ''n''"
| "lead (JBool b) = (if b then CHR ''t'' else CHR ''f'')"
| "lead (JNum s) = hd s"
| "lead (JStr s) = CHR 0x22"
| "lead (JArr ts) = CHR ''[''"
| "lead (JObj kvs) = CHR ''{''"

lemma json_text_lead: "jtree_ok t \<Longrightarrow> \<exists>r. json_text t = lead t # r"
  by (cases t) (auto simp: json_str_def neq_Nil_conv)

lemma lead_num: "jtree_ok t \<Longrightarrow> num_char (lead t) = (\<exists>s. t = JNum s)"
  by (cases t) (auto simp: neq_Nil_conv)

lemma same_lead:
  "json_text t @ r = json_text u @ r' \<Longrightarrow> jtree_ok t \<Longrightarrow> jtree_ok u \<Longrightarrow> lead t = lead u"
  using json_text_lead [of t] json_text_lead [of u] by auto

lemma lead_form:
  assumes "jtree_ok t"
  shows "lead t = CHR ''['' \<longleftrightarrow> (\<exists>ts. t = JArr ts)"
    and "lead t = CHR ''{'' \<longleftrightarrow> (\<exists>kvs. t = JObj kvs)"
    and "lead t = CHR 0x22 \<longleftrightarrow> (\<exists>s. t = JStr s)"
    and "lead t = CHR ''n'' \<longleftrightarrow> t = JNull"
    and "lead t = CHR ''t'' \<longleftrightarrow> t = JBool True"
    and "lead t = CHR ''f'' \<longleftrightarrow> t = JBool False"
  using assms by (cases t; auto simp: neq_Nil_conv)+

lemma lead_not_close: "jtree_ok t \<Longrightarrow> lead t \<noteq> CHR '']'' \<and> lead t \<noteq> CHR '',''"
  by (cases t) (auto simp: neq_Nil_conv num_char_def)

definition text_inj :: "jtree \<Rightarrow> bool" where
  "text_inj t = (\<forall>u r r'. jtree_ok t \<longrightarrow> jtree_ok u \<longrightarrow> stops r \<longrightarrow> stops r' \<longrightarrow>
     json_text t @ r = json_text u @ r' \<longrightarrow> t = u \<and> r = r')"

lemma text_injD:
  "text_inj t \<Longrightarrow> json_text t @ r = json_text u @ r' \<Longrightarrow> jtree_ok t \<Longrightarrow> jtree_ok u \<Longrightarrow>
     stops r \<Longrightarrow> stops r' \<Longrightarrow> t = u \<and> r = r'"
  by (auto simp: text_inj_def)

lemma stops_tail [simp]:
  "stops (concat (map (\<lambda>y. CHR '','' # f y) xs) @ CHR '']'' # r)"
  "stops (concat (map (\<lambda>y. CHR '','' # f y) xs) @ CHR ''}'' # r)"
  by (cases xs; simp add: stops_def)+

lemma array_tail_inj:
  assumes "concat (map (\<lambda>t. CHR '','' # json_text t) ts) @ CHR '']'' # r
         = concat (map (\<lambda>t. CHR '','' # json_text t) us) @ CHR '']'' # r'"
    and "\<forall>t \<in> set ts. text_inj t" "list_all jtree_ok ts" "list_all jtree_ok us"
  shows "ts = us \<and> r = r'"
  using assms
proof (induction ts arbitrary: us)
  case Nil
  then show ?case by (cases us) auto
next
  case (Cons t ts)
  then obtain u us' where us: "us = u # us'" by (cases us) auto
  from Cons.prems us have "json_text t @ (concat (map (\<lambda>t. CHR '','' # json_text t) ts) @ CHR '']'' # r)
      = json_text u @ (concat (map (\<lambda>t. CHR '','' # json_text t) us') @ CHR '']'' # r')"
    by simp
  from text_injD [OF _ this] Cons.prems us
  have "t = u \<and> concat (map (\<lambda>t. CHR '','' # json_text t) ts) @ CHR '']'' # r
      = concat (map (\<lambda>t. CHR '','' # json_text t) us') @ CHR '']'' # r'"
    by (auto simp: append_Cons [symmetric] simp del: append_Cons)
  with Cons us show ?case by auto
qed

lemma member_inj:
  assumes "json_str k @ CHR '':'' # json_text t @ s = json_str k' @ CHR '':'' # json_text u @ s'"
    and "text_inj t" "jtree_ok t" "jtree_ok u" "stops s" "stops s'"
  shows "k = k' \<and> t = u \<and> s = s'"
proof -
  from json_str_inj [OF assms(1)] have "k = k'" "json_text t @ s = json_text u @ s'" by auto
  with text_injD [OF assms(2)] assms show ?thesis by blast
qed

lemma object_tail_inj:
  assumes "concat (map (\<lambda>p. CHR '','' # json_str (fst p) @ CHR '':'' # json_text (snd p)) kvs) @ CHR ''}'' # r
         = concat (map (\<lambda>p. CHR '','' # json_str (fst p) @ CHR '':'' # json_text (snd p)) kws) @ CHR ''}'' # r'"
    and "\<forall>p \<in> set kvs. text_inj (snd p)"
    and "list_all (\<lambda>(k, t). jtree_ok t) kvs" "list_all (\<lambda>(k, t). jtree_ok t) kws"
  shows "kvs = kws \<and> r = r'"
  using assms
proof (induction kvs arbitrary: kws)
  case Nil
  then show ?case by (cases kws) auto
next
  case (Cons p kvs)
  then obtain q kws' where kws: "kws = q # kws'" by (cases kws) auto
  from Cons.prems kws
  have "json_str (fst p) @ CHR '':'' # json_text (snd p) @
        (concat (map (\<lambda>p. CHR '','' # json_str (fst p) @ CHR '':'' # json_text (snd p)) kvs) @ CHR ''}'' # r)
      = json_str (fst q) @ CHR '':'' # json_text (snd q) @
        (concat (map (\<lambda>p. CHR '','' # json_str (fst p) @ CHR '':'' # json_text (snd p)) kws') @ CHR ''}'' # r')"
    by simp
  from member_inj [OF this] Cons.prems kws
  have "p = q" and "concat (map (\<lambda>p. CHR '','' # json_str (fst p) @ CHR '':'' # json_text (snd p)) kvs) @ CHR ''}'' # r
      = concat (map (\<lambda>p. CHR '','' # json_str (fst p) @ CHR '':'' # json_text (snd p)) kws') @ CHR ''}'' # r'"
    by (auto simp: prod_eq_iff case_prod_beta)
  with Cons kws show ?case by auto
qed

text \<open>A whole array or object: its first element, then the tail that starts with commas.\<close>

lemma array_inj:
  assumes "join '','' (map json_text ts) @ CHR '']'' # r = join '','' (map json_text us) @ CHR '']'' # r'"
    and "\<forall>t \<in> set ts. text_inj t" "list_all jtree_ok ts" "list_all jtree_ok us"
  shows "ts = us \<and> r = r'"
proof (cases ts; cases us)
  fix t ts' u us'
  assume eqs: "ts = t # ts'" "us = u # us'"
  with assms have "concat (map (\<lambda>t. CHR '','' # json_text t) (t # ts')) @ CHR '']'' # r
      = concat (map (\<lambda>t. CHR '','' # json_text t) (u # us')) @ CHR '']'' # r'"
    by (simp add: comp_def)
  from array_tail_inj [OF this] assms eqs show ?thesis by auto
next
  fix u us'
  assume "ts = []" "us = u # us'"
  then show ?thesis using assms json_text_lead [of u] lead_not_close [of u] by auto
next
  fix t ts'
  assume "ts = t # ts'" "us = []"
  then show ?thesis using assms json_text_lead [of t] lead_not_close [of t] by auto
qed (use assms in auto)

lemma object_inj:
  assumes "join '','' (map (\<lambda>(k, t). json_str k @ '':'' @ json_text t) kvs) @ CHR ''}'' # r
         = join '','' (map (\<lambda>(k, t). json_str k @ '':'' @ json_text t) kws) @ CHR ''}'' # r'"
    and "\<forall>p \<in> set kvs. text_inj (snd p)"
    and "list_all (\<lambda>(k, t). jtree_ok t) kvs" "list_all (\<lambda>(k, t). jtree_ok t) kws"
  shows "kvs = kws \<and> r = r'"
proof (cases kvs; cases kws)
  fix p kvs' q kws'
  assume eqs: "kvs = p # kvs'" "kws = q # kws'"
  with assms
  have "concat (map (\<lambda>p. CHR '','' # json_str (fst p) @ CHR '':'' # json_text (snd p)) (p # kvs')) @ CHR ''}'' # r
      = concat (map (\<lambda>p. CHR '','' # json_str (fst p) @ CHR '':'' # json_text (snd p)) (q # kws')) @ CHR ''}'' # r'"
    by (simp add: comp_def case_prod_beta)
  from object_tail_inj [OF this] assms eqs show ?thesis by auto
qed (use assms in \<open>auto simp: json_str_def split: prod.splits\<close>)

lemma text_injI:
  assumes "\<And>u r r'. jtree_ok t \<Longrightarrow> jtree_ok u \<Longrightarrow> stops r \<Longrightarrow> stops r' \<Longrightarrow> lead t = lead u \<Longrightarrow>
    json_text t @ r = json_text u @ r' \<Longrightarrow> t = u \<and> r = r'"
  shows "text_inj t"
  unfolding text_inj_def using assms same_lead by blast

lemma text_inj_arr: "(\<And>t. t \<in> set ts \<Longrightarrow> text_inj t) \<Longrightarrow> text_inj (JArr ts)"
proof (rule text_injI)
  fix u r r'
  assume IH: "\<And>t. t \<in> set ts \<Longrightarrow> text_inj t"
    and ok: "jtree_ok (JArr ts)" "jtree_ok u" and lead: "lead (JArr ts) = lead u"
    and eq: "json_text (JArr ts) @ r = json_text u @ r'"
  from lead lead_form(1) [OF ok(2)] obtain us where u: "u = JArr us" by fastforce
  from eq u have "join '','' (map json_text ts) @ CHR '']'' # r = join '','' (map json_text us) @ CHR '']'' # r'"
    by simp
  from array_inj [OF this] IH ok u show "JArr ts = u \<and> r = r'" by simp
qed

lemma text_inj_obj: "(\<And>p. p \<in> set kvs \<Longrightarrow> text_inj (snd p)) \<Longrightarrow> text_inj (JObj kvs)"
proof (rule text_injI)
  fix u r r'
  assume IH: "\<And>p. p \<in> set kvs \<Longrightarrow> text_inj (snd p)"
    and ok: "jtree_ok (JObj kvs)" "jtree_ok u" and lead: "lead (JObj kvs) = lead u"
    and eq: "json_text (JObj kvs) @ r = json_text u @ r'"
  from lead lead_form(2) [OF ok(2)] obtain kws where u: "u = JObj kws" by fastforce
  from eq u have "join '','' (map (\<lambda>(k, t). json_str k @ '':'' @ json_text t) kvs) @ CHR ''}'' # r
       = join '','' (map (\<lambda>(k, t). json_str k @ '':'' @ json_text t) kws) @ CHR ''}'' # r'"
    by simp
  from object_inj [OF this] IH ok u show "JObj kvs = u \<and> r = r'" by simp
qed

lemma text_inj_num: "text_inj (JNum s)"
proof (rule text_injI)
  fix u r r'
  assume *: "jtree_ok (JNum s)" "jtree_ok u" "stops r" "stops r'" "lead (JNum s) = lead u"
    "json_text (JNum s) @ r = json_text u @ r'"
  then obtain v where "u = JNum v"
    using lead_num [of u] lead_num [of "JNum s"] by auto
  with * show "JNum s = u \<and> r = r'"
    using number_end [of s v r r'] by simp
qed

lemma text_inj_str: "text_inj (JStr s)"
proof (rule text_injI)
  fix u r r'
  assume *: "jtree_ok u" "lead (JStr s) = lead u" "json_text (JStr s) @ r = json_text u @ r'"
  then obtain v where "u = JStr v"
    using lead_form(3) [OF *(1)] by fastforce
  with * show "JStr s = u \<and> r = r'"
    using json_str_inj [of s r v r'] by simp
qed

lemma text_inj_all: "text_inj t"
proof (induction t)
  case JNull
  show ?case using lead_form(4) by (intro text_injI) fastforce
next
  case (JBool b)
  show ?case using lead_form(5,6) by (intro text_injI) (cases b; fastforce)
qed (simp_all add: text_inj_num text_inj_str text_inj_arr text_inj_obj snds.simps)

theorem json_text_inj:
  assumes "jtree_ok t" "jtree_ok u" "json_text t = json_text u"
  shows "t = u"
  using text_injD [OF text_inj_all, of t "[]" u "[]"] assms by (simp add: stops_def)

section \<open>The interface of a canonical encoding\<close>

text \<open>
  What the rest of the code relies on: two encodings agree exactly when the values have the
  same canonical tree, and the only failure is a non-finite float.
\<close>

locale canonical_encoding =
  fixes encode :: "pyval \<Rightarrow> exc + string"
  assumes encode_eq_iff:
      "encode v = Inr s \<Longrightarrow> encode w = Inr s' \<Longrightarrow> s = s' \<longleftrightarrow> canon v = canon w"
    and encode_total: "all_sub finite_float v \<Longrightarrow> \<exists>s. encode v = Inr s"
    and encode_error: "encode v = Inl e \<Longrightarrow> e = ValueError"
begin

lemma encode_cong_canon:
  "canon v = canon w \<Longrightarrow> encode v = Inr s \<Longrightarrow> encode w = Inr s' \<Longrightarrow> s = s'"
  using encode_eq_iff by blast

text \<open>Equal digests come from the same canonical tree or exhibit a collision of the hash.\<close>

lemma digest_eq:
  assumes "rbind (encode v) (\<lambda>t. Inr (pre @ sha t)) = Inr d"
    and "rbind (encode w) (\<lambda>t. Inr (pre @ sha t)) = Inr d"
  shows "canon v = canon w \<or> (\<exists>s t. s \<noteq> t \<and> encode v = Inr s \<and> encode w = Inr t \<and> sha s = sha t)"
proof -
  from assms obtain s t where "encode v = Inr s" "encode w = Inr t" "sha s = sha t"
    by (auto simp: result_simps)
  then show ?thesis using encode_eq_iff [of v s w t] by blast
qed

end

lemma canonical_json_Inr_iff:
  "canonical_json_for_pure_value v = Inr s \<longleftrightarrow>
     all_sub finite_float v \<and> s = json_text (canon v)"
  by (auto simp: canonical_json_for_pure_value_def json_dumps_def)

interpretation pure_json: canonical_encoding canonical_json_for_pure_value
proof unfold_locales
  fix v w s s'
  assume "canonical_json_for_pure_value v = Inr s" "canonical_json_for_pure_value w = Inr s'"
  then show "s = s' \<longleftrightarrow> canon v = canon w"
    by (auto simp: canonical_json_Inr_iff dest: canon_ok intro: json_text_inj)
qed (auto simp: canonical_json_for_pure_value_def json_dumps_def split: if_splits)

section \<open>Properties\<close>

text \<open>
  Two payloads with the same digest are the same JSON value up to key order and the
  list/tuple distinction, unless the two canonical texts are a collision of the hash function.
\<close>

theorem payload_digest_determines_payload:
  assumes "pure_expr_payload_digest sha p = Inr d" "pure_expr_payload_digest sha q = Inr d"
  shows "canon p = canon q \<or>
    (\<exists>s t. s \<noteq> t \<and> canonical_json_for_pure_payload p = Inr s
       \<and> canonical_json_for_pure_payload q = Inr t \<and> sha s = sha t)"
  using assms
  unfolding pure_expr_payload_digest_def canonical_json_for_pure_payload_def
  by (rule pure_json.digest_eq)

theorem payload_digest_determines_payload_witness:
  "canon (PDict [(''b'', PList [PInt 1]), (''a'', PNone)])
     = canon (PDict [(''a'', PNone), (''b'', PTuple [PInt 1])]) \<or>
   (\<exists>s t. s \<noteq> t
      \<and> canonical_json_for_pure_payload (PDict [(''b'', PList [PInt 1]), (''a'', PNone)]) = Inr s
      \<and> canonical_json_for_pure_payload (PDict [(''a'', PNone), (''b'', PTuple [PInt 1])]) = Inr t
      \<and> rev s = rev t)"
  by (rule payload_digest_determines_payload [where sha = rev and
        d = "''sha256:}]1[:'' @ [CHR 0x22, CHR ''b'', CHR 0x22] @ '',llun:'' @ [CHR 0x22, CHR ''a'', CHR 0x22, CHR ''{'']"])
    (simp_all add: pure_expr_payload_digest_def canonical_json_for_pure_payload_def
      canonical_json_for_pure_value_def json_dumps_def finite_float_def json_str_def esc_char_def
      int_repr_def digit_char_def nat_repr.simps [of "Suc 0"])

end
