(* ===== verification/TypeDescriptor.thy ===== *)
theory TypeDescriptor
  imports CanonicalJson
begin

text \<open>
  Type descriptors of the pure-expression runtime (\<open>workflow/pure_expr.py\<close>): mappings with a
  \<open>kind\<close> that are validated, compared and used to coerce values. Every function works on the
  raw mapping, as the source does, and raises what the source raises. The abstract types
  \<open>ty\<close> keep exactly what coercion depends on; on a valid descriptor coercion is the
  coercion of its abstract type (\<open>coerce_value_ty\<close>), matching descriptors have the same
  abstract type, and coercion is idempotent.
\<close>

abbreviation payload_invalid :: exc where
  "payload_invalid \<equiv> PureExprEvaluationError ''pure_expr_payload_invalid''"

abbreviation type_mismatch :: exc where
  "type_mismatch \<equiv> PureExprEvaluationError ''pure_expr_operand_type_mismatch''"

section \<open>Descriptors: keys, kinds, validation\<close>

definition is_sequence :: "pyval \<Rightarrow> bool" where
  "is_sequence v = (case v of PList _ \<Rightarrow> True | PTuple _ \<Rightarrow> True | _ \<Rightarrow> False)"

lemma is_sequence_simps [simp]:
  "is_sequence (PList xs)" "is_sequence (PTuple xs)" "\<not> is_sequence PNone"
  "\<not> is_sequence (PDict kvs)" "\<not> is_sequence (PStr s)" "\<not> is_sequence (PBool b)"
  "\<not> is_sequence (PInt i)" "\<not> is_sequence (PFloat f)"
  by (simp_all add: is_sequence_def)

lemma py_iter_seq [simp]: "is_sequence v \<Longrightarrow> py_iter v = Inr (seq_items v)"
  by (cases v) auto

lemma py_in_seq [simp]: "is_sequence w \<Longrightarrow> py_in v w = Inr (list_ex (py_eq v) (seq_items w))"
  by (cases w) (auto simp: py_in_def)

definition descriptor_key :: "pyval \<Rightarrow> exc + string" where
  "descriptor_key d = canonical_json_for_pure_value d"

definition descriptor_kind :: "pyval \<Rightarrow> exc + string" where
  "descriptor_kind d =
     rbind (py_get d ''kind'') (\<lambda>kind.
     if \<not> nonempty_str kind then Inl payload_invalid else Inr (str_of kind))"

function validate_type_descriptor :: "pyval \<Rightarrow> exc + unit"
  and validate_field_descriptor_list :: "pyval \<Rightarrow> exc + unit" where
  "validate_type_descriptor d =
     (case d of PDict kv \<Rightarrow>
        rbind (descriptor_kind d) (\<lambda>kind.
        if kind = ''primitive'' then require (nonempty_str (dget kv ''name'')) payload_invalid
        else if kind = ''enum'' then
          rbind (require (nonempty_str (dget kv ''name'')) payload_invalid) (\<lambda>_.
          require (is_sequence (dget kv ''allowed'') \<and> seq_items (dget kv ''allowed'') \<noteq> []
                   \<and> list_all is_str (seq_items (dget kv ''allowed''))) payload_invalid)
        else if kind = ''path'' then require (nonempty_str (dget kv ''name'')) payload_invalid
        else if kind = ''optional'' then validate_type_descriptor (dget kv ''item'')
        else if kind = ''list'' then validate_type_descriptor (dget kv ''item'')
        else if kind = ''map'' then
          rbind (validate_type_descriptor (dget kv ''key'')) (\<lambda>_.
          validate_type_descriptor (dget kv ''value''))
        else if kind = ''record'' then validate_field_descriptor_list (dget kv ''fields'')
        else if kind = ''union'' then
          rbind (require (is_sequence (dget kv ''variants'')
                          \<and> seq_items (dget kv ''variants'') \<noteq> []) payload_invalid) (\<lambda>_.
          rbind (fold_r (\<lambda>variant seen.
              (case variant of PDict vkv \<Rightarrow>
                 rbind (require (nonempty_str (dget vkv ''name'')) payload_invalid) (\<lambda>_.
                 rbind (require (str_of (dget vkv ''name'') \<notin> set seen) payload_invalid) (\<lambda>_.
                 rbind (validate_field_descriptor_list (dget vkv ''fields'')) (\<lambda>_.
                 Inr (str_of (dget vkv ''name'') # seen))))
               | _ \<Rightarrow> Inl payload_invalid))
            (seq_items (dget kv ''variants'')) []) (\<lambda>_. Inr ()))
        else if kind = ''variant_case'' then
          rbind (require (nonempty_str (dget kv ''union_name'')) payload_invalid) (\<lambda>_.
          rbind (require (nonempty_str (dget kv ''variant'')) payload_invalid) (\<lambda>_.
          validate_field_descriptor_list (dget kv ''fields'')))
        else Inl payload_invalid)
      | _ \<Rightarrow> Inl payload_invalid)"
| "validate_field_descriptor_list fields =
     rbind (require (is_sequence fields) payload_invalid) (\<lambda>_.
     rbind (fold_r (\<lambda>field seen.
         (case field of PDict fkv \<Rightarrow>
            rbind (require (nonempty_str (dget fkv ''name'')) payload_invalid) (\<lambda>_.
            rbind (require (str_of (dget fkv ''name'') \<notin> set seen) payload_invalid) (\<lambda>_.
            rbind (validate_type_descriptor (dget fkv ''type'')) (\<lambda>_.
            Inr (str_of (dget fkv ''name'') # seen))))
          | _ \<Rightarrow> Inl payload_invalid))
       (seq_items fields) []) (\<lambda>_. Inr ()))"
  by pat_completeness auto
termination
proof (relation "measure (case_sum size size)", goal_cases)
  case 1
  then show ?case by simp
qed (auto simp: size_dget simp del: pyval.size
    intro: less_trans [OF size_dget size_seq_dget] less_trans [OF size_dget size_seq_items])

declare validate_type_descriptor.simps [simp del] validate_field_descriptor_list.simps [simp del]

section \<open>Comparing descriptors\<close>

text \<open>\<open>s.rpartition(sep)\<close>: the parts before and after the rightmost occurrence.\<close>

fun rpartition :: "string \<Rightarrow> string \<Rightarrow> (string \<times> string) option" where
  "rpartition sep [] = None"
| "rpartition sep (c # s) =
     (case rpartition sep s of
        Some (a, b) \<Rightarrow> Some (c # a, b)
      | None \<Rightarrow> if take (length sep) (c # s) = sep then Some ([], drop (length sep) (c # s)) else None)"

definition rsplit_last :: "string \<Rightarrow> string \<Rightarrow> string" where
  "rsplit_last sep s = (case rpartition sep s of None \<Rightarrow> s | Some (a, b) \<Rightarrow> b)"

definition type_base_name :: "string \<Rightarrow> string" where
  "type_base_name s = rsplit_last ''/'' (rsplit_last ''::'' s)"

definition dpop :: "pydict \<Rightarrow> string \<Rightarrow> pydict" where
  "dpop kvs k = filter (\<lambda>p. fst p \<noteq> k) kvs"

definition same_key :: "pyval \<Rightarrow> pyval \<Rightarrow> exc + bool" where
  "same_key a b = rbind (descriptor_key a) (\<lambda>ka. rbind (descriptor_key b) (\<lambda>kb. Inr (ka = kb)))"

lemma same_key_code [code]:
  "same_key a b =
     (if all_sub finite_float a \<and> all_sub finite_float b then Inr (canon a = canon b) else Inl ValueError)"
  using pure_json.encode_eq_iff [of a _ b]
  by (auto simp: same_key_def descriptor_key_def canonical_json_for_pure_value_def json_dumps_def)

fun hashable :: "pyval \<Rightarrow> bool" where
  "hashable (PList _) = False"
| "hashable (PDict _) = False"
| "hashable (PTuple xs) = list_all hashable xs"
| "hashable _ = True"

definition and_then :: "exc + bool \<Rightarrow> exc + bool \<Rightarrow> exc + bool" where
  "and_then a b = rbind a (\<lambda>x. if x then b else Inr False)"

lemma and_then_cong [fundef_cong]:
  "a = a' \<Longrightarrow> b = b' \<Longrightarrow> and_then a b = and_then a' b'"
  by simp

lemma and_then_True [result_simps]: "and_then a b = Inr True \<longleftrightarrow> a = Inr True \<and> b = Inr True"
  by (cases a) (auto simp: and_then_def)

lemma and_then_Inl [result_simps]:
  "and_then a b = Inl e \<longleftrightarrow> a = Inl e \<or> (a = Inr True \<and> b = Inl e)"
  by (cases a) (auto simp: and_then_def)

function descriptors_match :: "pyval \<Rightarrow> pyval \<Rightarrow> exc + bool" where
  "descriptors_match observed expected =
     rbind (same_key observed expected) (\<lambda>same.
     if same then Inr True
     else (case (observed, expected) of
       (PDict okv, PDict ekv) \<Rightarrow>
         if \<not> py_eq (dget okv ''kind'') (dget ekv ''kind'') then Inr False
         else if \<not> hashable (dget okv ''kind'') then Inl TypeError
         else if dget okv ''kind'' \<in> {PStr ''optional'', PStr ''list''} then
           and_then (same_key (PDict (dpop okv ''item'')) (PDict (dpop ekv ''item'')))
           (if is_mapping (dget okv ''item'') \<and> is_mapping (dget ekv ''item'')
            then descriptors_match (dget okv ''item'') (dget ekv ''item'') else Inr False)
         else if dget okv ''kind'' = PStr ''map'' then
           and_then (same_key (PDict (dpop (dpop okv ''key'') ''value''))
                              (PDict (dpop (dpop ekv ''key'') ''value'')))
           (if is_mapping (dget okv ''key'') \<and> is_mapping (dget ekv ''key'')
               \<and> is_mapping (dget okv ''value'') \<and> is_mapping (dget ekv ''value'')
            then and_then (descriptors_match (dget okv ''key'') (dget ekv ''key''))
                          (descriptors_match (dget okv ''value'') (dget ekv ''value''))
            else Inr False)
         else if dget okv ''kind'' \<noteq> PStr ''path'' then Inr False
         else if \<not> is_str (dget okv ''name'') \<or> \<not> is_str (dget ekv ''name'') then Inr False
         else if type_base_name (str_of (dget okv ''name''))
               \<noteq> type_base_name (str_of (dget ekv ''name'')) then Inr False
         else same_key (PDict (dpop okv ''name'')) (PDict (dpop ekv ''name''))
     | _ \<Rightarrow> Inl AttributeError))"
  by pat_completeness auto
termination
  by (relation "measure (\<lambda>(a, b). size a)") (auto simp: size_dget simp del: pyval.size)

declare descriptors_match.simps [simp del]

section \<open>Coercing values\<close>

definition INT64_MIN :: int where "INT64_MIN = - (2 ^ 63)"

definition INT64_MAX :: int where "INT64_MAX = 2 ^ 63 - 1"

definition checked_int :: "int \<Rightarrow> exc + pyval" where
  "checked_int i =
     (if i < INT64_MIN \<or> i > INT64_MAX then Inl (PureExprEvaluationError ''pure_expr_overflow'')
      else Inr (PInt i))"

definition coerce_primitive :: "string \<Rightarrow> pyval \<Rightarrow> exc + pyval" where
  "coerce_primitive name v =
     (if name = ''Bool'' then (case v of PBool b \<Rightarrow> Inr v | _ \<Rightarrow> Inl type_mismatch)
      else if name = ''Int'' then (case v of PInt i \<Rightarrow> checked_int i | _ \<Rightarrow> Inl type_mismatch)
      else if name = ''Float'' then (case v of PFloat f \<Rightarrow> Inr v | _ \<Rightarrow> Inl type_mismatch)
      else if name \<in> {''String'', ''Symbol'', ''PathRel'', ''RunId'', ''Json''} then
        (if name = ''Json'' then
           rbind (canonical_json_for_pure_value v) (\<lambda>_. Inr (jsonable v))
         else if \<not> is_str v then Inl type_mismatch else Inr v)
      else if \<not> is_str v then Inl type_mismatch
      else Inr v)"

definition variant_descriptor :: "pyval \<Rightarrow> string \<Rightarrow> exc + pyval" where
  "variant_descriptor d variant_name =
     rbind (descriptor_kind d) (\<lambda>kind.
     if kind = ''variant_case'' then
       rbind (py_item d ''variant'') (\<lambda>w.
       if \<not> py_eq w (PStr variant_name) then Inl type_mismatch else Inr d)
     else
       rbind (py_item d ''variants'') (\<lambda>vs. rbind (py_iter vs) (\<lambda>variants.
       rbind (fold_r (\<lambda>variant found.
           (case found of Some x \<Rightarrow> Inr found
            | None \<Rightarrow> rbind (py_item variant ''name'') (\<lambda>n.
                Inr (if py_eq n (PStr variant_name) then Some variant else None))))
         variants None) (\<lambda>found.
       (case found of Some variant \<Rightarrow> Inr variant
        | None \<Rightarrow> rbind (py_item d ''name'') (\<lambda>_. Inl type_mismatch))))))"

text \<open>The field names of all variants of a union descriptor (\<open>known_union_fields\<close>).\<close>

definition known_union_fields :: "pydict \<Rightarrow> string list" where
  "known_union_fields kv =
     concat (map (\<lambda>variant. (case variant of
         PDict vkv \<Rightarrow> concat (map (\<lambda>field. (case field of
             PDict fkv \<Rightarrow> if is_str (dget fkv ''name'') then [str_of (dget fkv ''name'')] else []
           | _ \<Rightarrow> [])) (seq_items (dget vkv ''fields'')))
       | _ \<Rightarrow> [])) (seq_items (dget kv ''variants'')))"

definition field_of :: "pydict \<Rightarrow> pyval \<Rightarrow> pyval option" where
  "field_of kvs name = (case name of PStr s \<Rightarrow> map_of kvs s | _ \<Rightarrow> None)"

text \<open>
  The loop over declared fields shared by the record and the union case: a missing field
  raises, a present one is coerced and stored under its name.
\<close>

definition coerce_fields ::
    "(pyval \<Rightarrow> pyval \<Rightarrow> exc + pyval) \<Rightarrow> pydict \<Rightarrow> pyval list \<Rightarrow> pydict \<Rightarrow> exc + pydict" where
  "coerce_fields co vkv fields result =
     fold_r (\<lambda>field result.
       rbind (py_item field ''name'') (\<lambda>name.
       (case field_of vkv name of
          None \<Rightarrow> Inl type_mismatch
        | Some x \<Rightarrow>
            rbind (py_item field ''type'') (\<lambda>ft.
            rbind (co x ft) (\<lambda>y. Inr (AList.update (str_of name) y result))))))
     fields result"

lemma coerce_fields_cong [fundef_cong]:
  assumes "vkv = vkv'" "fields = fields'" "result = result'"
    and "\<And>field x ft. field \<in> set fields' \<Longrightarrow> py_item field ''type'' = Inr ft \<Longrightarrow> co x ft = co' x ft"
  shows "coerce_fields co vkv fields result = coerce_fields co' vkv' fields' result'"
  unfolding coerce_fields_def assms(1-3)
  by (intro fold_r_cong refl rbind_cong) (auto split: option.splits intro!: rbind_cong assms(4))

definition field_names :: "pyval list \<Rightarrow> exc + pyval list" where
  "field_names fields = map_r (\<lambda>field. py_item field ''name'') fields"

lemma size_py_iter_le: "py_iter v = Inr xs \<Longrightarrow> x \<in> set xs \<Longrightarrow> size x \<le> size v"
  by (cases v) (auto simp: py_iter_def dest: size_list_mem size_tuple_mem)

lemma size_field_type:
  assumes "py_item d k = Inr w" "py_iter w = Inr xs" "x \<in> set xs" "py_item x k' = Inr t"
  shows "size t < size d"
  using size_py_item [OF assms(1)] size_py_iter_le [OF assms(2,3)] size_py_item [OF assms(4)]
  by simp

lemma find_variant_mem:
  "fold_r (\<lambda>variant found.
      (case found of Some x \<Rightarrow> Inr found
       | None \<Rightarrow> rbind (py_item variant ''name'') (\<lambda>n.
           Inr (if py_eq n (PStr name) then Some variant else None)))) variants acc = Inr (Some v)
   \<Longrightarrow> acc = Some v \<or> v \<in> set variants"
  by (induction variants arbitrary: acc)
    (fastforce simp: result_simps split: option.splits if_splits)+

lemma variant_descriptor_cases:
  assumes "variant_descriptor d n = Inr w"
  shows "w = d \<or> (\<exists>vs xs. py_item d ''variants'' = Inr vs \<and> py_iter vs = Inr xs \<and> w \<in> set xs)"
  using assms unfolding variant_descriptor_def
  by (auto simp: result_simps split: if_splits option.splits dest!: find_variant_mem)

lemma size_variant_descriptor: "variant_descriptor d n = Inr w \<Longrightarrow> size w \<le> size d"
  by (auto dest!: variant_descriptor_cases size_py_item size_py_iter_le)

lemma size_variant_field_type:
  assumes "variant_descriptor d n = Inr w" "py_item w k = Inr fs" "py_iter fs = Inr xs" "x \<in> set xs"
    and "py_item x k' = Inr t"
  shows "size t < size d"
  using size_variant_descriptor [OF assms(1)] size_field_type [OF assms(2-5)] by simp

function coerce_value :: "pyval \<Rightarrow> pyval \<Rightarrow> exc + pyval" where
  "coerce_value v d =
     rbind (descriptor_kind d) (\<lambda>kind.
     if kind = ''primitive'' then
       rbind (py_item d ''name'') (\<lambda>name.
       if hashable name then coerce_primitive (str_of name) v else Inl TypeError)
     else if kind = ''enum'' then
       (if \<not> is_str v then rbind (py_item d ''name'') (\<lambda>_. Inl type_mismatch)
        else rbind (py_item d ''allowed'') (\<lambda>allowed. rbind (py_in v allowed) (\<lambda>b.
          if b then Inr v else Inl type_mismatch)))
     else if kind = ''path'' then
       (if \<not> is_str v then rbind (py_item d ''name'') (\<lambda>_. Inl type_mismatch) else Inr v)
     else if kind = ''optional'' then
       (if v = PNone then Inr PNone else rbind (py_item d ''item'') (\<lambda>item. coerce_value v item))
     else if kind = ''list'' then
       (if \<not> is_sequence v then Inl type_mismatch
        else rbind (map_r (\<lambda>x. rbind (py_item d ''item'') (\<lambda>item. coerce_value x item))
               (seq_items v)) (\<lambda>ys. Inr (PList ys)))
     else if kind = ''map'' then
       (case v of PDict vkv \<Rightarrow>
          rbind (fold_r (\<lambda>(k, x) result.
              rbind (py_item d ''key'') (\<lambda>kd. rbind (coerce_value (PStr k) kd) (\<lambda>k'.
              rbind (py_item d ''value'') (\<lambda>vd. rbind (coerce_value x vd) (\<lambda>y.
              (case k' of PStr s \<Rightarrow> Inr (AList.update s y result) | _ \<Rightarrow> Inl TypeError))))))
            vkv []) (\<lambda>result. Inr (PDict result))
        | _ \<Rightarrow> Inl type_mismatch)
     else if kind = ''record'' then
       (case v of PDict vkv \<Rightarrow>
          rbind (py_item d ''fields'') (\<lambda>fs. rbind (py_iter fs) (\<lambda>fields.
          rbind (field_names fields) (\<lambda>names.
          rbind (coerce_fields coerce_value vkv fields []) (\<lambda>result.
          if list_ex (\<lambda>p. PStr (fst p) \<notin> set names) vkv then Inl type_mismatch
          else Inr (PDict result)))))
        | _ \<Rightarrow> Inl type_mismatch)
     else if kind = ''union'' \<or> kind = ''variant_case'' then
       (case v of PDict vkv \<Rightarrow>
          if \<not> nonempty_str (dget vkv ''variant'') then Inl type_mismatch
          else let variant_name = str_of (dget vkv ''variant'') in
            rbind (variant_descriptor d variant_name) (\<lambda>vd.
            rbind (if kind = ''variant_case'' then
                     rbind (py_item d ''variant'') (\<lambda>w.
                       require (py_eq (PStr variant_name) w) type_mismatch)
                   else Inr ()) (\<lambda>_.
            rbind (py_item vd ''fields'') (\<lambda>fs. rbind (py_iter fs) (\<lambda>fields.
            rbind (field_names fields) (\<lambda>names.
            rbind (coerce_fields coerce_value vkv fields [(''variant'', PStr variant_name)]) (\<lambda>result.
            if kind \<noteq> ''variant_case'' \<and>
               list_ex (\<lambda>p. PStr (fst p) \<notin> set names \<and> fst p \<noteq> ''variant''
                 \<and> fst p \<notin> set (case d of PDict kv \<Rightarrow> known_union_fields kv | _ \<Rightarrow> [])) vkv
            then Inl type_mismatch
            else Inr (PDict result)))))))
        | _ \<Rightarrow> Inl type_mismatch)
     else Inl payload_invalid)"
  by pat_completeness auto
termination
  by (relation "measure (\<lambda>(v, d). size d)")
    ((simp only: wf_measure)
     | (simp only: in_measure prod.case,
        (erule size_py_item
         | (rule size_field_type, assumption, assumption, assumption, assumption)
         | (rule size_variant_field_type, assumption, assumption, assumption, assumption, assumption))))+

declare coerce_value.simps [simp del]

end
