(* ===== verification/DescriptorTypes.thy ===== *)
theory DescriptorTypes
  imports TypeDescriptor
begin

text \<open>
  The abstract types behind type descriptors. A descriptor \<open>d\<close> denotes a type \<open>t\<close> when
  \<open>desc_ty d t\<close>; the type keeps what coercion depends on and forgets names, key order and
  unknown keys. This is the specification the raw functions of \<open>TypeDescriptor\<close> are shown to
  implement: validation accepts exactly descriptors that denote a type (given the reserved
  field name \<open>variant\<close> is not used in a union), coercion is \<open>coerce_ty\<close> of the denoted
  type, and matching descriptors denote the same type.
\<close>

datatype ty =
    TPrim string
  | TEnum "string list"
  | TPath
  | TOpt ty
  | TList ty
  | TMap ty ty
  | TRec "(string \<times> ty) list"
  | TUnion "(string \<times> (string \<times> ty) list) list"
  | TCase string "(string \<times> ty) list"

lemma size_ty_fields: "p \<in> set fs \<Longrightarrow> (n, t) = p \<Longrightarrow> size t < Suc (size_list (size_prod (\<lambda>x. 0) size) fs)"
  by (induction fs) auto

lemma size_ty_rec: "p \<in> set fs \<Longrightarrow> (n, t) = p \<Longrightarrow> size t < size (TRec fs)"
  using size_ty_fields by simp

lemma size_ty_case: "p \<in> set fs \<Longrightarrow> (n, t) = p \<Longrightarrow> size t < size (TCase c fs)"
  using size_ty_fields by simp

lemma size_ty_union:
  "map_of vs vn = Some fs \<Longrightarrow> p \<in> set fs \<Longrightarrow> (n, t) = p \<Longrightarrow> size t < size (TUnion vs)"
proof -
  assume *: "map_of vs vn = Some fs" "p \<in> set fs" "(n, t) = p"
  have "(vn, fs) \<in> set vs \<Longrightarrow> size_list (size_prod (\<lambda>x. 0) size) fs < size (TUnion vs)"
    by (induction vs) auto
  with map_of_SomeD [OF *(1)] size_ty_fields [OF *(2,3)] show ?thesis by simp
qed

section \<open>Coercion into an abstract type\<close>

function (sequential) coerce_ty :: "ty \<Rightarrow> pyval \<Rightarrow> exc + pyval" where
  "coerce_ty (TPrim n) v = coerce_primitive n v"
| "coerce_ty (TEnum xs) v =
     (case v of PStr s \<Rightarrow> if s \<in> set xs then Inr v else Inl type_mismatch | _ \<Rightarrow> Inl type_mismatch)"
| "coerce_ty TPath v = (if is_str v then Inr v else Inl type_mismatch)"
| "coerce_ty (TOpt t) v = (if v = PNone then Inr PNone else coerce_ty t v)"
| "coerce_ty (TList t) v =
     (if is_sequence v then rbind (map_r (coerce_ty t) (seq_items v)) (\<lambda>ys. Inr (PList ys))
      else Inl type_mismatch)"
| "coerce_ty (TMap k t) v =
     (case v of PDict vkv \<Rightarrow>
        rbind (fold_r (\<lambda>(key, x) result. rbind (coerce_ty k (PStr key)) (\<lambda>k'.
            rbind (coerce_ty t x) (\<lambda>y.
            (case k' of PStr s \<Rightarrow> Inr (AList.update s y result) | _ \<Rightarrow> Inl TypeError))))
          vkv []) (\<lambda>result. Inr (PDict result))
      | _ \<Rightarrow> Inl type_mismatch)"
| "coerce_ty (TRec fs) v =
     (case v of PDict vkv \<Rightarrow>
        rbind (map_r (\<lambda>(n, t). (case map_of vkv n of None \<Rightarrow> Inl type_mismatch
            | Some x \<Rightarrow> rbind (coerce_ty t x) (\<lambda>y. Inr (n, y)))) fs) (\<lambda>result.
        if fst ` set vkv \<subseteq> fst ` set fs then Inr (PDict result) else Inl type_mismatch)
      | _ \<Rightarrow> Inl type_mismatch)"
| "coerce_ty (TUnion vs) v =
     (case v of PDict vkv \<Rightarrow>
        if \<not> nonempty_str (dget vkv ''variant'') then Inl type_mismatch
        else (case map_of vs (str_of (dget vkv ''variant'')) of
            None \<Rightarrow> Inl type_mismatch
          | Some fs \<Rightarrow>
            rbind (map_r (\<lambda>(n, t). (case map_of vkv n of None \<Rightarrow> Inl type_mismatch
                | Some x \<Rightarrow> rbind (coerce_ty t x) (\<lambda>y. Inr (n, y)))) fs) (\<lambda>result.
            if fst ` set vkv \<subseteq> insert ''variant'' (\<Union>p \<in> set vs. fst ` set (snd p))
            then Inr (PDict ((''variant'', dget vkv ''variant'') # result))
            else Inl type_mismatch))
      | _ \<Rightarrow> Inl type_mismatch)"
| "coerce_ty (TCase c fs) v =
     (case v of PDict vkv \<Rightarrow>
        if dget vkv ''variant'' \<noteq> PStr c \<or> c = [] then Inl type_mismatch
        else rbind (map_r (\<lambda>(n, t). (case map_of vkv n of None \<Rightarrow> Inl type_mismatch
                | Some x \<Rightarrow> rbind (coerce_ty t x) (\<lambda>y. Inr (n, y)))) fs) (\<lambda>result.
            Inr (PDict ((''variant'', PStr c) # result)))
      | _ \<Rightarrow> Inl type_mismatch)"
  by pat_completeness auto
termination
  by (relation "measure (\<lambda>(t, v). size t)")
    ((simp only: wf_measure)
     | (simp only: in_measure prod.case,
        ((erule size_ty_rec, assumption) | (erule size_ty_case, assumption)
         | (erule size_ty_union, assumption, assumption) | simp)))+

section \<open>Denotation\<close>

inductive desc_ty :: "pyval \<Rightarrow> ty \<Rightarrow> bool"
  and fields_ty :: "pyval \<Rightarrow> (string \<times> ty) list \<Rightarrow> bool"
  and field_list_ty :: "pyval list \<Rightarrow> (string \<times> ty) list \<Rightarrow> bool"
  and variants_ty :: "pyval list \<Rightarrow> (string \<times> (string \<times> ty) list) list \<Rightarrow> bool" where
  prim: "dget kv ''kind'' = PStr ''primitive'' \<Longrightarrow> dget kv ''name'' = PStr n \<Longrightarrow> n \<noteq> [] \<Longrightarrow>
    desc_ty (PDict kv) (TPrim n)"
| enum: "dget kv ''kind'' = PStr ''enum'' \<Longrightarrow> nonempty_str (dget kv ''name'') \<Longrightarrow>
    is_sequence (dget kv ''allowed'') \<Longrightarrow> seq_items (dget kv ''allowed'') = map PStr xs \<Longrightarrow> xs \<noteq> [] \<Longrightarrow>
    desc_ty (PDict kv) (TEnum xs)"
| path: "dget kv ''kind'' = PStr ''path'' \<Longrightarrow> nonempty_str (dget kv ''name'') \<Longrightarrow>
    desc_ty (PDict kv) TPath"
| opt: "dget kv ''kind'' = PStr ''optional'' \<Longrightarrow> desc_ty (dget kv ''item'') t \<Longrightarrow>
    desc_ty (PDict kv) (TOpt t)"
| lst: "dget kv ''kind'' = PStr ''list'' \<Longrightarrow> desc_ty (dget kv ''item'') t \<Longrightarrow>
    desc_ty (PDict kv) (TList t)"
| map: "dget kv ''kind'' = PStr ''map'' \<Longrightarrow> desc_ty (dget kv ''key'') k \<Longrightarrow>
    desc_ty (dget kv ''value'') t \<Longrightarrow> desc_ty (PDict kv) (TMap k t)"
| rec: "dget kv ''kind'' = PStr ''record'' \<Longrightarrow> fields_ty (dget kv ''fields'') fs \<Longrightarrow>
    desc_ty (PDict kv) (TRec fs)"
| union: "dget kv ''kind'' = PStr ''union'' \<Longrightarrow> nonempty_str (dget kv ''name'') \<Longrightarrow>
    is_sequence (dget kv ''variants'') \<Longrightarrow> variants_ty (seq_items (dget kv ''variants'')) vs \<Longrightarrow>
    vs \<noteq> [] \<Longrightarrow> distinct (map fst vs) \<Longrightarrow> desc_ty (PDict kv) (TUnion vs)"
| vcase: "dget kv ''kind'' = PStr ''variant_case'' \<Longrightarrow> nonempty_str (dget kv ''union_name'') \<Longrightarrow>
    dget kv ''variant'' = PStr c \<Longrightarrow> c \<noteq> [] \<Longrightarrow> fields_ty (dget kv ''fields'') fs \<Longrightarrow>
    ''variant'' \<notin> fst ` set fs \<Longrightarrow> desc_ty (PDict kv) (TCase c fs)"
| fields: "is_sequence v \<Longrightarrow> field_list_ty (seq_items v) fs \<Longrightarrow> distinct (map fst fs) \<Longrightarrow> fields_ty v fs"
| fnil: "field_list_ty [] []"
| fcons: "dget fkv ''name'' = PStr n \<Longrightarrow> n \<noteq> [] \<Longrightarrow> desc_ty (dget fkv ''type'') t \<Longrightarrow>
    field_list_ty xs fs \<Longrightarrow> field_list_ty (PDict fkv # xs) ((n, t) # fs)"
| vnil: "variants_ty [] []"
| vcons: "dget vkv ''name'' = PStr n \<Longrightarrow> n \<noteq> [] \<Longrightarrow> fields_ty (dget vkv ''fields'') fs \<Longrightarrow>
    ''variant'' \<notin> fst ` set fs \<Longrightarrow> variants_ty xs vs \<Longrightarrow> variants_ty (PDict vkv # xs) ((n, fs) # vs)"

lemmas desc_ty_intros = desc_ty_fields_ty_field_list_ty_variants_ty.intros

inductive_simps desc_ty_dict: "desc_ty (PDict kv) t"
inductive_simps fields_ty_iff: "fields_ty v fs"
inductive_cases desc_ty_mapping: "desc_ty d t"
inductive_simps field_list_simps [simp]: "field_list_ty [] fs" "field_list_ty (x # xs) fs"
inductive_simps variants_simps [simp]: "variants_ty [] vs" "variants_ty (x # xs) vs"

lemma desc_ty_is_mapping: "desc_ty d t \<Longrightarrow> \<exists>kv. d = PDict kv"
  by (auto elim: desc_ty_mapping)

text \<open>Which types a descriptor of a given kind denotes.\<close>

named_theorems kind_simps \<open>denotation by kind\<close>

lemma desc_ty_primitive [kind_simps]: "dget kv ''kind'' = PStr ''primitive'' \<Longrightarrow>
    desc_ty (PDict kv) t \<longleftrightarrow> (\<exists>n. t = TPrim n \<and> dget kv ''name'' = PStr n \<and> n \<noteq> [])"
  by (auto simp: desc_ty_dict)

lemma desc_ty_enum [kind_simps]: "dget kv ''kind'' = PStr ''enum'' \<Longrightarrow>
    desc_ty (PDict kv) t \<longleftrightarrow> (\<exists>xs. t = TEnum xs \<and> nonempty_str (dget kv ''name'') \<and>
      is_sequence (dget kv ''allowed'') \<and> seq_items (dget kv ''allowed'') = map PStr xs \<and> xs \<noteq> [])"
  by (auto simp: desc_ty_dict)

lemma desc_ty_path [kind_simps]: "dget kv ''kind'' = PStr ''path'' \<Longrightarrow>
    desc_ty (PDict kv) t \<longleftrightarrow> t = TPath \<and> nonempty_str (dget kv ''name'')"
  by (auto simp: desc_ty_dict)

lemma desc_ty_optional [kind_simps]: "dget kv ''kind'' = PStr ''optional'' \<Longrightarrow>
    desc_ty (PDict kv) t \<longleftrightarrow> (\<exists>u. t = TOpt u \<and> desc_ty (dget kv ''item'') u)"
  by (auto simp: desc_ty_dict)

lemma desc_ty_list [kind_simps]: "dget kv ''kind'' = PStr ''list'' \<Longrightarrow>
    desc_ty (PDict kv) t \<longleftrightarrow> (\<exists>u. t = TList u \<and> desc_ty (dget kv ''item'') u)"
  by (auto simp: desc_ty_dict)

lemma desc_ty_map [kind_simps]: "dget kv ''kind'' = PStr ''map'' \<Longrightarrow>
    desc_ty (PDict kv) t \<longleftrightarrow> (\<exists>k u. t = TMap k u \<and> desc_ty (dget kv ''key'') k \<and> desc_ty (dget kv ''value'') u)"
  by (auto simp: desc_ty_dict)

lemma desc_ty_record [kind_simps]: "dget kv ''kind'' = PStr ''record'' \<Longrightarrow>
    desc_ty (PDict kv) t \<longleftrightarrow> (\<exists>fs. t = TRec fs \<and> fields_ty (dget kv ''fields'') fs)"
  by (auto simp: desc_ty_dict)

lemma desc_ty_union [kind_simps]: "dget kv ''kind'' = PStr ''union'' \<Longrightarrow>
    desc_ty (PDict kv) t \<longleftrightarrow> (\<exists>vs. t = TUnion vs \<and> nonempty_str (dget kv ''name'') \<and>
      is_sequence (dget kv ''variants'') \<and> variants_ty (seq_items (dget kv ''variants'')) vs \<and>
      vs \<noteq> [] \<and> distinct (map fst vs))"
  by (auto simp: desc_ty_dict)

lemma desc_ty_variant_case [kind_simps]: "dget kv ''kind'' = PStr ''variant_case'' \<Longrightarrow>
    desc_ty (PDict kv) t \<longleftrightarrow> (\<exists>c fs. t = TCase c fs \<and> nonempty_str (dget kv ''union_name'') \<and>
      dget kv ''variant'' = PStr c \<and> c \<noteq> [] \<and> fields_ty (dget kv ''fields'') fs \<and>
      ''variant'' \<notin> fst ` set fs)"
  by (auto simp: desc_ty_dict)

text \<open>A descriptor denotes one type.\<close>

lemma desc_ty_functional:
  "desc_ty d t \<Longrightarrow> desc_ty d t' \<Longrightarrow> t = t'"
  "fields_ty v fs \<Longrightarrow> fields_ty v fs' \<Longrightarrow> fs = fs'"
  "field_list_ty xs fs \<Longrightarrow> field_list_ty xs fs' \<Longrightarrow> fs = fs'"
  "variants_ty xs vs \<Longrightarrow> variants_ty xs vs' \<Longrightarrow> vs = vs'"
proof (induction arbitrary: t' and fs' and fs' and vs'
    rule: desc_ty_fields_ty_field_list_ty_variants_ty.inducts)
  case (prim kv n)
  then show ?case by (auto simp: desc_ty_primitive)
next
  case (enum kv xs)
  then show ?case by (auto simp: desc_ty_enum intro: map_injective [OF _ injI])
next
  case (path kv)
  then show ?case by (auto simp: desc_ty_path)
next
  case (opt kv t)
  from opt.prems obtain u where "t' = TOpt u" "desc_ty (dget kv ''item'') u"
    by (auto simp: desc_ty_optional [OF opt.hyps(1)])
  with opt.IH [of u] show ?case by simp
next
  case (lst kv t)
  from lst.prems obtain u where "t' = TList u" "desc_ty (dget kv ''item'') u"
    by (auto simp: desc_ty_list [OF lst.hyps(1)])
  with lst.IH [of u] show ?case by simp
next
  case (map kv k t)
  from map.prems obtain k2 t2
    where "t' = TMap k2 t2" "desc_ty (dget kv ''key'') k2" "desc_ty (dget kv ''value'') t2"
    by (auto simp: desc_ty_map [OF map.hyps(1)])
  with map.IH(1) [of k2] map.IH(2) [of t2] show ?case by simp
next
  case (rec kv fs)
  from rec.prems obtain fs2 where "t' = TRec fs2" "fields_ty (dget kv ''fields'') fs2"
    by (auto simp: desc_ty_record [OF rec.hyps(1)])
  with rec.IH [of fs2] show ?case by simp
next
  case (union kv vs)
  from union.prems obtain vs2
    where "t' = TUnion vs2" "variants_ty (seq_items (dget kv ''variants'')) vs2"
    by (auto simp: desc_ty_union [OF union.hyps(1)])
  with union.IH [of vs2] show ?case by simp
next
  case (vcase kv c fs)
  from vcase.prems obtain c2 fs2
    where "t' = TCase c2 fs2" "dget kv ''variant'' = PStr c2" "fields_ty (dget kv ''fields'') fs2"
    by (auto simp: desc_ty_variant_case [OF vcase.hyps(1)])
  with vcase.IH [of fs2] vcase.hyps(3) show ?case by simp
next
  case (fields v fs)
  from fields.prems have "field_list_ty (seq_items v) fs'" by (simp add: fields_ty_iff)
  with fields.IH [of fs'] show ?case by simp
next
  case (fcons fkv n t xs fs)
  from fcons.prems fcons.hyps(1) obtain t2 fs2 where "fs' = (n, t2) # fs2" "desc_ty (dget fkv ''type'') t2" "field_list_ty xs fs2"
    by (auto simp only: field_list_simps pyval.inject)
  with fcons.IH(1) [of t2] fcons.IH(2) [of fs2] show ?case by simp
next
  case (vcons vkv n fs xs vs)
  from vcons.prems vcons.hyps(1) obtain fs2 vs2 where "vs' = (n, fs2) # vs2" "fields_ty (dget vkv ''fields'') fs2" "variants_ty xs vs2"
    by (auto simp only: variants_simps pyval.inject)
  with vcons.IH(1) [of fs2] vcons.IH(2) [of vs2] show ?case by simp
qed simp_all

section \<open>Validation\<close>

text \<open>
  Parts of a payload the runtime relies on without checking them: dictionaries of a union
  carry a name, and no variant declares a field called \<open>variant\<close>, the key of the tag.
\<close>

definition names_tag :: "pyval \<Rightarrow> bool" where
  "names_tag field = (case field of PDict fkv \<Rightarrow> dget fkv ''name'' = PStr ''variant'' | _ \<Rightarrow> False)"

definition tag_ok :: "pyval \<Rightarrow> bool" where
  "tag_ok d = (case d of PDict kv \<Rightarrow>
      (dget kv ''kind'' = PStr ''union'' \<longrightarrow> nonempty_str (dget kv ''name'') \<and>
        list_all (\<lambda>variant. (case variant of
            PDict vkv \<Rightarrow> list_all (\<lambda>f. \<not> names_tag f) (seq_items (dget vkv ''fields''))
          | _ \<Rightarrow> True)) (seq_items (dget kv ''variants''))) \<and>
      (dget kv ''kind'' = PStr ''variant_case'' \<longrightarrow>
        list_all (\<lambda>f. \<not> names_tag f) (seq_items (dget kv ''fields'')))
    | _ \<Rightarrow> True)"

definition sane :: "pyval \<Rightarrow> bool" where
  "sane v = all_sub (\<lambda>w. finite_float w \<and> tag_ok w) v"

lemma sane_dget: "sane (PDict kv) \<Longrightarrow> sane (dget kv k)"
  unfolding sane_def by (rule all_sub_dget) (simp_all add: finite_float_def tag_ok_def)

lemma sane_seq: "sane v \<Longrightarrow> x \<in> set (seq_items v) \<Longrightarrow> sane x"
  unfolding sane_def by (rule all_sub_seq)

lemma sane_tag_ok: "sane v \<Longrightarrow> tag_ok v"
  unfolding sane_def using all_subD by blast

lemma sane_finite: "sane v \<Longrightarrow> all_sub finite_float v"
  unfolding sane_def by (erule all_sub_mono) simp

lemma validate_list_loop:
  "fold_r (\<lambda>field seen.
      (case field of PDict fkv \<Rightarrow>
         rbind (require (nonempty_str (dget fkv ''name'')) e) (\<lambda>_.
         rbind (require (str_of (dget fkv ''name'') \<notin> set seen) e) (\<lambda>_.
         rbind (check fkv) (\<lambda>_. Inr (str_of (dget fkv ''name'') # seen))))
       | _ \<Rightarrow> Inl e)) xs seen = Inr seen' \<longleftrightarrow>
   (\<forall>x \<in> set xs. \<exists>fkv. x = PDict fkv \<and> nonempty_str (dget fkv ''name'') \<and> check fkv = Inr ())
   \<and> distinct (map (\<lambda>x. str_of (dfield x ''name'')) xs)
   \<and> set (map (\<lambda>x. str_of (dfield x ''name'')) xs) \<inter> set seen = {}
   \<and> seen' = rev (map (\<lambda>x. str_of (dfield x ''name'')) xs) @ seen"
proof (induction xs arbitrary: seen)
  case Nil
  then show ?case by auto
next
  case (Cons x xs)
  then show ?case by (cases x) (auto simp: result_simps)
qed

lemma descriptor_kind_Inr:
  "descriptor_kind d = Inr k \<longleftrightarrow> (\<exists>kv. d = PDict kv \<and> dget kv ''kind'' = PStr k \<and> k \<noteq> [])"
  by (cases d) (auto simp: descriptor_kind_def py_get_def result_simps elim: nonempty_strE)

lemma descriptor_kind_dict [simp]:
  "dget kv ''kind'' = PStr k \<Longrightarrow> k \<noteq> [] \<Longrightarrow> descriptor_kind (PDict kv) = Inr k"
  by (simp add: descriptor_kind_Inr)

lemma validate_fields_iff:
  "validate_field_descriptor_list v = Inr () \<longleftrightarrow>
     is_sequence v \<and> distinct (map (\<lambda>x. str_of (dfield x ''name'')) (seq_items v)) \<and>
     (\<forall>x \<in> set (seq_items v). \<exists>fkv. x = PDict fkv \<and> nonempty_str (dget fkv ''name'') \<and>
        validate_type_descriptor (dget fkv ''type'') = Inr ())"
  by (auto simp: validate_field_descriptor_list.simps [of v] result_simps validate_list_loop)

lemma validate_union_iff:
  "dget kv ''kind'' = PStr ''union'' \<Longrightarrow> validate_type_descriptor (PDict kv) = Inr () \<longleftrightarrow>
     is_sequence (dget kv ''variants'') \<and> seq_items (dget kv ''variants'') \<noteq> [] \<and>
     distinct (map (\<lambda>x. str_of (dfield x ''name'')) (seq_items (dget kv ''variants''))) \<and>
     (\<forall>x \<in> set (seq_items (dget kv ''variants'')). \<exists>vkv. x = PDict vkv \<and>
        nonempty_str (dget vkv ''name'') \<and> validate_field_descriptor_list (dget vkv ''fields'') = Inr ())"
  by (auto simp: validate_type_descriptor.simps [of "PDict kv"] result_simps validate_list_loop)

lemma validate_by_kind:
  "dget kv ''kind'' = PStr ''primitive'' \<Longrightarrow> validate_type_descriptor (PDict kv) = Inr () \<longleftrightarrow>
     nonempty_str (dget kv ''name'')"
  "dget kv ''kind'' = PStr ''enum'' \<Longrightarrow> validate_type_descriptor (PDict kv) = Inr () \<longleftrightarrow>
     nonempty_str (dget kv ''name'') \<and> is_sequence (dget kv ''allowed'') \<and>
     seq_items (dget kv ''allowed'') \<noteq> [] \<and> list_all is_str (seq_items (dget kv ''allowed''))"
  "dget kv ''kind'' = PStr ''path'' \<Longrightarrow> validate_type_descriptor (PDict kv) = Inr () \<longleftrightarrow>
     nonempty_str (dget kv ''name'')"
  "dget kv ''kind'' = PStr ''optional'' \<Longrightarrow> validate_type_descriptor (PDict kv) = Inr () \<longleftrightarrow>
     validate_type_descriptor (dget kv ''item'') = Inr ()"
  "dget kv ''kind'' = PStr ''list'' \<Longrightarrow> validate_type_descriptor (PDict kv) = Inr () \<longleftrightarrow>
     validate_type_descriptor (dget kv ''item'') = Inr ()"
  "dget kv ''kind'' = PStr ''map'' \<Longrightarrow> validate_type_descriptor (PDict kv) = Inr () \<longleftrightarrow>
     validate_type_descriptor (dget kv ''key'') = Inr () \<and> validate_type_descriptor (dget kv ''value'') = Inr ()"
  "dget kv ''kind'' = PStr ''record'' \<Longrightarrow> validate_type_descriptor (PDict kv) = Inr () \<longleftrightarrow>
     validate_field_descriptor_list (dget kv ''fields'') = Inr ()"
  "dget kv ''kind'' = PStr ''variant_case'' \<Longrightarrow> validate_type_descriptor (PDict kv) = Inr () \<longleftrightarrow>
     nonempty_str (dget kv ''union_name'') \<and> nonempty_str (dget kv ''variant'') \<and>
     validate_field_descriptor_list (dget kv ''fields'') = Inr ()"
  by (simp_all add: validate_type_descriptor.simps [of "PDict kv"] result_simps)

lemma validate_kind_cases:
  assumes "validate_type_descriptor d = Inr ()"
  obtains kv k where "d = PDict kv" "dget kv ''kind'' = PStr k"
    "k \<in> {''primitive'', ''enum'', ''path'', ''optional'', ''list'', ''map'', ''record'', ''union'',
          ''variant_case''}"
proof -
  from assms obtain kv where d: "d = PDict kv"
    by (subst (asm) validate_type_descriptor.simps) (auto split: pyval.splits)
  with assms obtain k where k: "descriptor_kind d = Inr k"
    by (subst (asm) validate_type_descriptor.simps) (auto simp: result_simps)
  with d assms that show thesis
    by (subst (asm) validate_type_descriptor.simps) (auto simp: descriptor_kind_Inr split: if_splits)
qed

lemma field_list_exists:
  "\<forall>x \<in> set xs. \<exists>fkv t. x = PDict fkv \<and> nonempty_str (dget fkv ''name'') \<and> desc_ty (dget fkv ''type'') t
   \<Longrightarrow> \<exists>fs. field_list_ty xs fs \<and> map fst fs = map (\<lambda>x. str_of (dfield x ''name'')) xs"
proof (induction xs)
  case Nil
  then show ?case by auto
next
  case (Cons x xs)
  then obtain fs where "field_list_ty xs fs" "map fst fs = map (\<lambda>x. str_of (dfield x ''name'')) xs"
    by auto
  moreover from Cons.prems obtain fkv n t where "x = PDict fkv" "dget fkv ''name'' = PStr n" "n \<noteq> []"
      "desc_ty (dget fkv ''type'') t"
    by (auto elim: nonempty_strE)
  ultimately show ?case by (intro exI [of _ "(n, t) # fs"]) simp
qed

lemma fields_exists:
  assumes "validate_field_descriptor_list v = Inr ()"
    and "\<And>fkv. PDict fkv \<in> set (seq_items v) \<Longrightarrow> validate_type_descriptor (dget fkv ''type'') = Inr () \<Longrightarrow>
        \<exists>t. desc_ty (dget fkv ''type'') t"
  shows "\<exists>fs. fields_ty v fs \<and> map fst fs = map (\<lambda>x. str_of (dfield x ''name'')) (seq_items v)"
proof -
  from assms have "\<exists>fs. field_list_ty (seq_items v) fs \<and>
      map fst fs = map (\<lambda>x. str_of (dfield x ''name'')) (seq_items v)"
    by (intro field_list_exists) (fastforce simp: validate_fields_iff)
  then obtain fs where fs: "field_list_ty (seq_items v) fs"
      "map fst fs = map (\<lambda>x. str_of (dfield x ''name'')) (seq_items v)" by blast
  moreover from fs(2) assms(1) have "distinct (map fst fs)"
    by (simp add: validate_fields_iff)
  ultimately show ?thesis using assms(1) by (auto simp: fields_ty_iff validate_fields_iff)
qed

lemma no_tag_field:
  assumes "map fst fs = map (\<lambda>x. str_of (dfield x ''name'')) xs" "list_all (\<lambda>f. \<not> names_tag f) xs"
    and "\<forall>x \<in> set xs. \<exists>fkv. x = PDict fkv \<and> nonempty_str (dget fkv ''name'')"
  shows "''variant'' \<notin> fst ` set fs"
proof
  assume "''variant'' \<in> fst ` set fs"
  then have "''variant'' \<in> set (map (\<lambda>x. str_of (dfield x ''name'')) xs)"
    by (simp flip: assms(1))
  with assms(2,3) show False
    by (fastforce simp: list_all_iff names_tag_def elim!: nonempty_strE)
qed

lemma variants_exists:
  assumes "\<forall>x \<in> set xs. \<exists>vkv fs. x = PDict vkv \<and> nonempty_str (dget vkv ''name'') \<and>
      fields_ty (dget vkv ''fields'') fs \<and> ''variant'' \<notin> fst ` set fs"
  shows "\<exists>vs. variants_ty xs vs \<and> map fst vs = map (\<lambda>x. str_of (dfield x ''name'')) xs"
  using assms
proof (induction xs)
  case Nil
  then show ?case by auto
next
  case (Cons x xs)
  then obtain vs where "variants_ty xs vs" "map fst vs = map (\<lambda>x. str_of (dfield x ''name'')) xs"
    by auto
  moreover from Cons.prems obtain vkv n fs where "x = PDict vkv" "dget vkv ''name'' = PStr n" "n \<noteq> []"
      "fields_ty (dget vkv ''fields'') fs" "''variant'' \<notin> fst ` set fs"
    by (auto elim: nonempty_strE)
  ultimately show ?case by (intro exI [of _ "(n, fs) # vs"]) simp
qed

lemma size_field_type_dget:
  "PDict fkv \<in> set (seq_items v) \<Longrightarrow> size (dget fkv k) < size v"
  using size_dget [of fkv k] size_seq_items [of "PDict fkv" v] by simp

lemma variant_fields_exist:
  assumes IH: "\<And>e. size e < size d \<Longrightarrow> validate_type_descriptor e = Inr () \<Longrightarrow> sane e \<Longrightarrow> \<exists>t. desc_ty e t"
    and ok: "validate_field_descriptor_list v = Inr ()" and sz: "size v \<le> size d" and sn: "sane v"
  shows "\<exists>fs. fields_ty v fs \<and> map fst fs = map (\<lambda>x. str_of (dfield x ''name'')) (seq_items v)"
proof (rule fields_exists [OF ok])
  fix fkv
  assume mem: "PDict fkv \<in> set (seq_items v)" and "validate_type_descriptor (dget fkv ''type'') = Inr ()"
  then show "\<exists>t. desc_ty (dget fkv ''type'') t"
    using size_field_type_dget [OF mem, of "''type''"] sz sn
    by (intro IH) (auto intro: sane_dget sane_seq)
qed

lemma validate_desc_ty_union:
  assumes IH: "\<And>e. size e < size (PDict kv) \<Longrightarrow> validate_type_descriptor e = Inr () \<Longrightarrow> sane e \<Longrightarrow> \<exists>t. desc_ty e t"
    and k: "dget kv ''kind'' = PStr ''union''"
    and ok: "validate_type_descriptor (PDict kv) = Inr ()" and sn: "sane (PDict kv)"
  shows "\<exists>t. desc_ty (PDict kv) t"
proof -
  let ?vs = "seq_items (dget kv ''variants'')"
  from sane_tag_ok [OF sn] k have tag: "nonempty_str (dget kv ''name'')"
      "\<And>vkv. PDict vkv \<in> set ?vs \<Longrightarrow> list_all (\<lambda>f. \<not> names_tag f) (seq_items (dget vkv ''fields''))"
    by (auto simp: tag_ok_def list_all_iff)
  have "\<exists>vs. variants_ty ?vs vs \<and> map fst vs = map (\<lambda>x. str_of (dfield x ''name'')) ?vs"
  proof (rule variants_exists, rule ballI)
    fix x
    assume x: "x \<in> set ?vs"
    with ok k obtain vkv where vkv: "x = PDict vkv" "nonempty_str (dget vkv ''name'')"
        "validate_field_descriptor_list (dget vkv ''fields'') = Inr ()"
      by (auto simp: validate_union_iff)
    have sz: "size (dget vkv ''fields'') \<le> size (PDict kv)"
      using size_field_type_dget [of vkv "dget kv ''variants''" "''fields''"] x vkv(1)
        size_dget [of kv "''variants''"] by (simp del: pyval.size)
    have sn': "sane (dget vkv ''fields'')"
      using sane_dget [OF sane_seq [OF sane_dget [OF sn], of "PDict vkv" "''variants''"]] x vkv(1) by simp
    from variant_fields_exist [OF IH vkv(3) sz sn']
    obtain fs where fs: "fields_ty (dget vkv ''fields'') fs"
        "map fst fs = map (\<lambda>x. str_of (dfield x ''name'')) (seq_items (dget vkv ''fields''))"
      by blast
    moreover have "''variant'' \<notin> fst ` set fs"
      using fs(2) tag(2) [of vkv] x vkv by (intro no_tag_field) (auto simp: validate_fields_iff)
    ultimately show "\<exists>vkv fs. x = PDict vkv \<and> nonempty_str (dget vkv ''name'') \<and>
        fields_ty (dget vkv ''fields'') fs \<and> ''variant'' \<notin> fst ` set fs"
      using vkv by blast
  qed
  then obtain vs where vs: "variants_ty ?vs vs" "map fst vs = map (\<lambda>x. str_of (dfield x ''name'')) ?vs"
    by blast
  then have "vs \<noteq> []" "distinct (map fst vs)"
    using ok k by (auto simp: validate_union_iff)
  with vs ok k tag show ?thesis
    by (auto simp: desc_ty_union validate_union_iff)
qed

theorem validate_desc_ty:
  "validate_type_descriptor d = Inr () \<Longrightarrow> sane d \<Longrightarrow> \<exists>t. desc_ty d t"
proof (induction d rule: measure_induct_rule [of size])
  case (less d)
  obtain kv k where d: "d = PDict kv" and k: "dget kv ''kind'' = PStr k"
    and ks: "k \<in> {''primitive'', ''enum'', ''path'', ''optional'', ''list'', ''map'', ''record'',
      ''union'', ''variant_case''}"
    by (rule validate_kind_cases [OF less.prems(1)])
  have child: "\<exists>t. desc_ty (dget kv key) t" if "validate_type_descriptor (dget kv key) = Inr ()" for key
    using less.IH [of "dget kv key"] less.prems d that by (auto simp: size_dget sane_dget simp del: pyval.size)
  have flds: "\<exists>fs. fields_ty (dget kv ''fields'') fs \<and>
      map fst fs = map (\<lambda>x. str_of (dfield x ''name'')) (seq_items (dget kv ''fields''))"
    if "validate_field_descriptor_list (dget kv ''fields'') = Inr ()"
    using that less.prems d variant_fields_exist [OF less.IH, of d "dget kv ''fields''"]
    by (auto simp: size_dget sane_dget less_imp_le simp del: pyval.size)
  from ks show ?case
  proof (elim insertE emptyE)
    assume 1: "k = ''primitive''"
    with less.prems k d show ?case
      by (auto simp: desc_ty_primitive validate_by_kind(1) elim: nonempty_strE)
  next
    assume 2: "k = ''enum''"
    with less.prems k d have v: "nonempty_str (dget kv ''name'')" "is_sequence (dget kv ''allowed'')"
        "seq_items (dget kv ''allowed'') \<noteq> []" "list_all is_str (seq_items (dget kv ''allowed''))"
      by (simp_all add: validate_by_kind(2))
    have strs: "list_all is_str xs \<Longrightarrow> xs = map PStr (map str_of xs)" for xs
      by (induction xs) (auto elim: is_strE)
    from v 2 k have "desc_ty (PDict kv) (TEnum (map str_of (seq_items (dget kv ''allowed''))))"
      by (simp add: desc_ty_enum strs [symmetric] del: map_map)
    with d show ?case by blast
  next
    assume 3: "k = ''path''"
    with less.prems k d show ?case by (auto simp: desc_ty_path validate_by_kind(3))
  next
    assume 4: "k = ''optional''"
    with less.prems k d child [of "''item''"] show ?case
      by (auto simp: desc_ty_optional validate_by_kind(4))
  next
    assume 5: "k = ''list''"
    with less.prems k d child [of "''item''"] show ?case
      by (auto simp: desc_ty_list validate_by_kind(5))
  next
    assume 6: "k = ''map''"
    with less.prems k d child [of "''key''"] child [of "''value''"] show ?case
      by (auto simp: desc_ty_map validate_by_kind(6))
  next
    assume 7: "k = ''record''"
    with less.prems k d flds show ?case by (auto simp: desc_ty_record validate_by_kind(7))
  next
    assume 8: "k = ''union''"
    have "\<exists>t. desc_ty (PDict kv) t"
      by (rule validate_desc_ty_union [OF less.IH [unfolded d]])
        (use less.prems k 8 d in simp_all)
    with d show ?case by simp
  next
    assume 9: "k = ''variant_case''"
    with less.prems k d have v: "validate_field_descriptor_list (dget kv ''fields'') = Inr ()"
        "nonempty_str (dget kv ''union_name'')" "nonempty_str (dget kv ''variant'')"
      by (simp_all add: validate_by_kind(8))
    with flds obtain fs where fs: "fields_ty (dget kv ''fields'') fs"
        "map fst fs = map (\<lambda>x. str_of (dfield x ''name'')) (seq_items (dget kv ''fields''))" by blast
    have "''variant'' \<notin> fst ` set fs"
      using fs(2) sane_tag_ok [OF less.prems(2)] d k 9 v(1)
      by (intro no_tag_field) (auto simp: tag_ok_def validate_fields_iff)
    moreover obtain c where "dget kv ''variant'' = PStr c" "c \<noteq> []"
      by (rule nonempty_strE [OF v(3)])
    ultimately have "desc_ty (PDict kv) (TCase c fs)"
      using fs v(2) k 9 by (simp add: desc_ty_variant_case)
    with d show ?case by blast
  qed
qed

lemma field_list_fields:
  "field_list_ty xs fs \<Longrightarrow> map fst fs = map (\<lambda>x. str_of (dfield x ''name'')) xs \<and>
     (\<forall>x \<in> set xs. \<exists>fkv. x = PDict fkv \<and> nonempty_str (dget fkv ''name''))"
  by (induction xs arbitrary: fs) auto

lemma variants_variants:
  "variants_ty xs vs \<Longrightarrow> map fst vs = map (\<lambda>x. str_of (dfield x ''name'')) xs \<and>
     (\<forall>x \<in> set xs. \<exists>vkv. x = PDict vkv \<and> nonempty_str (dget vkv ''name''))"
  by (induction xs arbitrary: vs) auto

theorem desc_ty_valid:
  "desc_ty d t \<Longrightarrow> validate_type_descriptor d = Inr ()"
  "fields_ty v fs \<Longrightarrow> validate_field_descriptor_list v = Inr ()"
  "field_list_ty xs fs \<Longrightarrow> \<forall>x \<in> set xs. validate_type_descriptor (dfield x ''type'') = Inr ()"
  "variants_ty xs vs \<Longrightarrow> \<forall>x \<in> set xs. validate_field_descriptor_list (dfield x ''fields'') = Inr ()"
proof (induction rule: desc_ty_fields_ty_field_list_ty_variants_ty.inducts)
  case (union kv vs)
  then show ?case
    using variants_variants [of "seq_items (dget kv ''variants'')" vs]
    by (fastforce simp: validate_union_iff)
next
  case (fields v fs)
  then show ?case
    using field_list_fields [of "seq_items v" fs] by (fastforce simp: validate_fields_iff)
qed (simp_all add: validate_by_kind list_all_iff)

section \<open>Coercion follows the denoted type\<close>

lemma field_names_ty:
  "field_list_ty xs fs \<Longrightarrow> field_names xs = Inr (map (\<lambda>p. PStr (fst p)) fs)"
  unfolding field_names_def
  by (induction xs arbitrary: fs) (auto simp: py_item_dget)

lemma update_fresh: "k \<notin> fst ` set kvs \<Longrightarrow> AList.update k v kvs = kvs @ [(k, v)]"
  by (induction kvs) auto

text \<open>The loop over the declared fields appends one entry per field.\<close>

lemma coerce_fields_ty:
  assumes "field_list_ty xs fs" "distinct (map fst fs)" "fst ` set fs \<inter> fst ` set acc = {}"
    and "\<And>x n t v. x \<in> set xs \<Longrightarrow> (n, t) \<in> set fs \<Longrightarrow> desc_ty (dfield x ''type'') t \<Longrightarrow>
        co v (dfield x ''type'') = coerce_ty t v"
  shows "coerce_fields co vkv xs acc =
    rbind (map_r (\<lambda>(n, t). (case map_of vkv n of None \<Rightarrow> Inl type_mismatch
        | Some x \<Rightarrow> rbind (coerce_ty t x) (\<lambda>y. Inr (n, y)))) fs) (\<lambda>r. Inr (acc @ r))"
  using assms
proof (induction xs arbitrary: fs acc)
  case Nil
  then show ?case by (auto simp: coerce_fields_def)
next
  case (Cons x xs)
  then obtain fkv n t fs' where x: "x = PDict fkv" "dget fkv ''name'' = PStr n"
      "desc_ty (dget fkv ''type'') t" "field_list_ty xs fs'" "fs = (n, t) # fs'"
    by auto
  have ty: "dget fkv ''type'' \<noteq> PNone" using x(3) desc_ty_is_mapping by fastforce
  have co: "co v (dget fkv ''type'') = coerce_ty t v" for v
    using Cons.prems(4) [of x n t v] x by simp
  have IH: "coerce_fields co vkv xs (acc @ [(n, y)]) =
    rbind (map_r (\<lambda>(n, t). (case map_of vkv n of None \<Rightarrow> Inl type_mismatch
        | Some x \<Rightarrow> rbind (coerce_ty t x) (\<lambda>y. Inr (n, y)))) fs') (\<lambda>r. Inr ((acc @ [(n, y)]) @ r))" for y
    using Cons.prems x by (intro Cons.IH) auto
  have fresh: "AList.update n y acc = acc @ [(n, y)]" for y
    using Cons.prems(3) x by (intro update_fresh) auto
  show ?case
    using x ty co fresh IH unfolding coerce_fields_def
    by (auto simp: py_item_dget field_of_def rbind_assoc split: option.splits intro!: rbind_cong)
qed

lemma find_variant_keep:
  "fold_r (\<lambda>variant found.
      (case found of Some x \<Rightarrow> Inr found
       | None \<Rightarrow> rbind (py_item variant ''name'') (\<lambda>n.
           Inr (if py_eq n (PStr name) then Some variant else None)))) xs (Some v) = Inr (Some v)"
  by (induction xs) auto

lemma find_variant_ty:
  "variants_ty xs vs \<Longrightarrow>
   (case map_of vs name of
      None \<Rightarrow> fold_r (\<lambda>variant found.
        (case found of Some x \<Rightarrow> Inr found
         | None \<Rightarrow> rbind (py_item variant ''name'') (\<lambda>n.
             Inr (if py_eq n (PStr name) then Some variant else None)))) xs None = Inr None
    | Some fs \<Rightarrow> \<exists>vkv. PDict vkv \<in> set xs \<and> fields_ty (dget vkv ''fields'') fs \<and>
        ''variant'' \<notin> fst ` set fs \<and> fold_r (\<lambda>variant found.
        (case found of Some x \<Rightarrow> Inr found
         | None \<Rightarrow> rbind (py_item variant ''name'') (\<lambda>n.
             Inr (if py_eq n (PStr name) then Some variant else None)))) xs None
          = Inr (Some (PDict vkv)))"
proof (induction xs arbitrary: vs)
  case Nil
  then show ?case by auto
next
  case (Cons x xs)
  from Cons.prems obtain vkv n fs vs' where x: "x = PDict vkv" "dget vkv ''name'' = PStr n"
      "fields_ty (dget vkv ''fields'') fs" "''variant'' \<notin> fst ` set fs" "variants_ty xs vs'"
      "vs = (n, fs) # vs'"
    by auto
  show ?case
  proof (cases "n = name")
    case True
    with x show ?thesis by (auto simp: py_item_dget find_variant_keep)
  next
    case False
    with x Cons.IH [OF x(5)] show ?thesis by (auto simp: py_item_dget split: option.splits)
  qed
qed

lemma variant_descriptor_union:
  assumes "dget kv ''kind'' = PStr ''union''" "nonempty_str (dget kv ''name'')"
    and "is_sequence (dget kv ''variants'')" "variants_ty (seq_items (dget kv ''variants'')) vs"
  shows "case map_of vs name of
      None \<Rightarrow> variant_descriptor (PDict kv) name = Inl type_mismatch
    | Some fs \<Rightarrow> \<exists>vkv. PDict vkv \<in> set (seq_items (dget kv ''variants'')) \<and>
        fields_ty (dget vkv ''fields'') fs \<and> ''variant'' \<notin> fst ` set fs \<and>
        variant_descriptor (PDict kv) name = Inr (PDict vkv)"
proof -
  have "dget kv ''variants'' \<noteq> PNone" "dget kv ''name'' \<noteq> PNone"
    using assms by auto
  with assms find_variant_ty [OF assms(4), of name] show ?thesis
    by (auto simp: variant_descriptor_def py_item_dget split: option.splits)
qed

lemma variant_descriptor_case:
  assumes "dget kv ''kind'' = PStr ''variant_case''" "dget kv ''variant'' = PStr c"
  shows "variant_descriptor (PDict kv) name = (if name = c then Inr (PDict kv) else Inl type_mismatch)"
  using assms by (auto simp: variant_descriptor_def py_item_dget)

lemma known_union_fields_ty:
  assumes "variants_ty (seq_items (dget kv ''variants'')) vs"
  shows "known_union_fields kv = concat (map (\<lambda>p. map fst (snd p)) vs)"
proof -
  have fields: "field_list_ty ys fs \<Longrightarrow> concat (map (\<lambda>field. (case field of
       PDict fkv \<Rightarrow> if is_str (dget fkv ''name'') then [str_of (dget fkv ''name'')] else []
     | _ \<Rightarrow> [])) ys) = map fst fs" for ys fs
    by (induction ys arbitrary: fs) auto
  have "variants_ty xs vs \<Longrightarrow> concat (map (\<lambda>variant. (case variant of
         PDict vkv \<Rightarrow> concat (map (\<lambda>field. (case field of
             PDict fkv \<Rightarrow> if is_str (dget fkv ''name'') then [str_of (dget fkv ''name'')] else []
           | _ \<Rightarrow> [])) (seq_items (dget vkv ''fields'')))
       | _ \<Rightarrow> [])) xs) = concat (map (\<lambda>p. map fst (snd p)) vs)" for xs
  proof (induction xs arbitrary: vs)
    case (Cons x xs)
    then obtain vkv n fs vs' where "x = PDict vkv" "fields_ty (dget vkv ''fields'') fs"
        "variants_ty xs vs'" "vs = (n, fs) # vs'" by auto
    with Cons.IH [of vs'] fields [of "seq_items (dget vkv ''fields'')" fs] show ?case
      by (simp add: fields_ty_iff)
  qed simp
  with assms show ?thesis unfolding known_union_fields_def by blast
qed

text \<open>The raw coercion, one equation per kind.\<close>

lemma coerce_value_kind:
  assumes "dget kv ''kind'' = PStr k"
  shows "k = ''primitive'' \<Longrightarrow> coerce_value v (PDict kv) =
      rbind (py_item (PDict kv) ''name'') (\<lambda>name.
        if hashable name then coerce_primitive (str_of name) v else Inl TypeError)"
    and "k = ''enum'' \<Longrightarrow> coerce_value v (PDict kv) =
      (if \<not> is_str v then rbind (py_item (PDict kv) ''name'') (\<lambda>_. Inl type_mismatch)
       else rbind (py_item (PDict kv) ''allowed'') (\<lambda>allowed. rbind (py_in v allowed) (\<lambda>b.
         if b then Inr v else Inl type_mismatch)))"
    and "k = ''path'' \<Longrightarrow> coerce_value v (PDict kv) =
      (if \<not> is_str v then rbind (py_item (PDict kv) ''name'') (\<lambda>_. Inl type_mismatch) else Inr v)"
    and "k = ''optional'' \<Longrightarrow> coerce_value v (PDict kv) =
      (if v = PNone then Inr PNone
       else rbind (py_item (PDict kv) ''item'') (\<lambda>item. coerce_value v item))"
    and "k = ''list'' \<Longrightarrow> coerce_value v (PDict kv) =
      (if \<not> is_sequence v then Inl type_mismatch
       else rbind (map_r (\<lambda>x. rbind (py_item (PDict kv) ''item'') (\<lambda>item. coerce_value x item))
               (seq_items v)) (\<lambda>ys. Inr (PList ys)))"
  by (simp_all add: coerce_value.simps [of v "PDict kv"] assms)

lemma coerce_list_ty:
  assumes "\<And>x. co x = coerce_ty t x"
  shows "rbind (map_r (\<lambda>x. rbind (Inr item) (\<lambda>item. co x)) xs) (\<lambda>ys. Inr (PList ys)) =
    rbind (map_r (coerce_ty t) xs) (\<lambda>ys. Inr (PList ys))"
  by (simp add: assms)

lemma coerce_record_ty:
  assumes k: "dget kv ''kind'' = PStr ''record''" and fs: "fields_ty (dget kv ''fields'') fs"
    and IH: "\<And>x t v. x \<in> set (seq_items (dget kv ''fields'')) \<Longrightarrow> desc_ty (dfield x ''type'') t \<Longrightarrow>
      coerce_value v (dfield x ''type'') = coerce_ty t v"
  shows "coerce_value v (PDict kv) = coerce_ty (TRec fs) v"
proof (cases v)
  case (PDict vkv)
  from fs have seq: "is_sequence (dget kv ''fields'')" and fl: "field_list_ty (seq_items (dget kv ''fields'')) fs"
    and dist: "distinct (map fst fs)"
    by (auto simp: fields_ty_iff)
  then have item: "py_item (PDict kv) ''fields'' = Inr (dget kv ''fields'')"
    by (intro py_item_dget) auto
  have extra: "list_ex (\<lambda>p. PStr (fst p) \<notin> set (map (\<lambda>p. PStr (fst p)) fs)) vkv \<longleftrightarrow>
      \<not> fst ` set vkv \<subseteq> fst ` set fs"
    by (auto simp: list_ex_iff image_iff)
  have loop: "coerce_fields coerce_value vkv (seq_items (dget kv ''fields'')) [] =
    rbind (map_r (\<lambda>(n, t). (case map_of vkv n of None \<Rightarrow> Inl type_mismatch
        | Some x \<Rightarrow> rbind (coerce_ty t x) (\<lambda>y. Inr (n, y)))) fs) (\<lambda>r. Inr r)"
    using coerce_fields_ty [OF fl dist, of "[]" coerce_value vkv] IH by simp
  show ?thesis
    unfolding PDict coerce_value.simps [of "PDict vkv" "PDict kv"]
    by (simp add: k item seq field_names_ty [OF fl] loop rbind_assoc extra del: set_map)
      (auto intro!: rbind_cong)
qed (simp_all add: coerce_value.simps [of _ "PDict kv"] k)

end
