(* ===== verification/DescriptorCoercion.thy ===== *)
theory DescriptorCoercion
  imports DescriptorTypes
begin

text \<open>
  Coercion of a value by a descriptor is coercion into the denoted type
  (\<open>coerce_value_ty\<close>), is idempotent, and does not tell matching descriptors apart;
  descriptor matching is an equivalence. These are the laws the evaluator of pure
  expressions and the transition layer rely on.
\<close>

section \<open>Unions, variant cases and maps\<close>

lemma extra_keys_iff:
  assumes "fst ` set fs \<subseteq> K"
  shows "(\<exists>p \<in> set w. PStr (fst p) \<notin> (\<lambda>p. PStr (fst p)) ` set fs \<and> fst p \<noteq> v \<and> fst p \<notin> K) \<longleftrightarrow>
    \<not> fst ` set w \<subseteq> insert v K"
proof -
  have "PStr n \<in> (\<lambda>p. PStr (fst p)) ` set fs \<longleftrightarrow> n \<in> fst ` set fs" for n
    by (auto simp: image_iff)
  with assms show ?thesis by blast
qed

lemma coerce_union_ty:
  assumes k: "dget kv ''kind'' = PStr ''union''" and nm: "nonempty_str (dget kv ''name'')"
    and seq: "is_sequence (dget kv ''variants'')"
    and vs: "variants_ty (seq_items (dget kv ''variants'')) vs"
    and IH: "\<And>vkv x t v. PDict vkv \<in> set (seq_items (dget kv ''variants'')) \<Longrightarrow>
      x \<in> set (seq_items (dget vkv ''fields'')) \<Longrightarrow> desc_ty (dfield x ''type'') t \<Longrightarrow>
      coerce_value v (dfield x ''type'') = coerce_ty t v"
  shows "coerce_value v (PDict kv) = coerce_ty (TUnion vs) v"
proof (cases v)
  case (PDict wkv)
  show ?thesis
  proof (cases "nonempty_str (dget wkv ''variant'')")
    case False
    then show ?thesis
      by (simp add: PDict coerce_value.simps [of "PDict wkv" "PDict kv"] k)
  next
    case True
    then obtain tag where tag: "dget wkv ''variant'' = PStr tag" "tag \<noteq> []" by (rule nonempty_strE)
    note raw = coerce_value.simps [of "PDict wkv" "PDict kv"]
    show ?thesis
    proof (cases "map_of vs tag")
      case None
      with variant_descriptor_union [OF k nm seq vs, of tag]
      show ?thesis using tag by (simp add: PDict raw k)
    next
      case (Some fs)
      with variant_descriptor_union [OF k nm seq vs, of tag]
      obtain vkv where vkv: "PDict vkv \<in> set (seq_items (dget kv ''variants''))"
          "fields_ty (dget vkv ''fields'') fs" "''variant'' \<notin> fst ` set fs"
          "variant_descriptor (PDict kv) tag = Inr (PDict vkv)"
        by auto
      from vkv(2) have fseq: "is_sequence (dget vkv ''fields'')"
        and fl: "field_list_ty (seq_items (dget vkv ''fields'')) fs" and dist: "distinct (map fst fs)"
        by (auto simp: fields_ty_iff)
      then have item: "py_item (PDict vkv) ''fields'' = Inr (dget vkv ''fields'')"
        by (intro py_item_dget) auto
      have loop: "coerce_fields coerce_value wkv (seq_items (dget vkv ''fields'')) [(''variant'', PStr tag)] =
        rbind (map_r (\<lambda>(n, t). (case map_of wkv n of None \<Rightarrow> Inl type_mismatch
            | Some x \<Rightarrow> rbind (coerce_ty t x) (\<lambda>y. Inr (n, y)))) fs) (\<lambda>r. Inr ((''variant'', PStr tag) # r))"
        using coerce_fields_ty [OF fl dist, of "[(''variant'', PStr tag)]" coerce_value wkv] IH vkv(1,3)
        by simp
      have extra: "list_ex (\<lambda>p. PStr (fst p) \<notin> set (map (\<lambda>p. PStr (fst p)) fs) \<and> fst p \<noteq> ''variant''
            \<and> fst p \<notin> set (known_union_fields kv)) wkv \<longleftrightarrow>
          \<not> fst ` set wkv \<subseteq> insert ''variant'' (\<Union>p \<in> set vs. fst ` set (snd p))"
      proof -
        have "set (known_union_fields kv) = (\<Union>p \<in> set vs. fst ` set (snd p))"
          by (simp add: known_union_fields_ty [OF vs])
        moreover have "fst ` set fs \<subseteq> (\<Union>p \<in> set vs. fst ` set (snd p))"
          using map_of_SomeD [OF Some] by force
        ultimately show ?thesis
          using extra_keys_iff [of fs "set (known_union_fields kv)" wkv "''variant''"]
          by (simp only: list_ex_iff set_map)
      qed
      show ?thesis
        unfolding PDict raw
        by (simp add: k tag vkv(4) item fseq field_names_ty [OF fl] loop rbind_assoc extra Some
            del: set_map) (rule rbind_cong, rule refl, simp add: tag)
    qed
  qed
qed (simp_all add: coerce_value.simps [of _ "PDict kv"] k)

lemma coerce_case_ty:
  assumes k: "dget kv ''kind'' = PStr ''variant_case''" and c: "dget kv ''variant'' = PStr c" "c \<noteq> []"
    and fs: "fields_ty (dget kv ''fields'') fs" "''variant'' \<notin> fst ` set fs"
    and IH: "\<And>x t v. x \<in> set (seq_items (dget kv ''fields'')) \<Longrightarrow> desc_ty (dfield x ''type'') t \<Longrightarrow>
      coerce_value v (dfield x ''type'') = coerce_ty t v"
  shows "coerce_value v (PDict kv) = coerce_ty (TCase c fs) v"
proof (cases v)
  case (PDict wkv)
  note raw = coerce_value.simps [of "PDict wkv" "PDict kv"]
  from fs(1) have fseq: "is_sequence (dget kv ''fields'')"
    and fl: "field_list_ty (seq_items (dget kv ''fields'')) fs" and dist: "distinct (map fst fs)"
    by (auto simp: fields_ty_iff)
  then have item: "py_item (PDict kv) ''fields'' = Inr (dget kv ''fields'')"
    by (intro py_item_dget) auto
  have loop: "coerce_fields coerce_value wkv (seq_items (dget kv ''fields'')) [(''variant'', PStr c)] =
    rbind (map_r (\<lambda>(n, t). (case map_of wkv n of None \<Rightarrow> Inl type_mismatch
        | Some x \<Rightarrow> rbind (coerce_ty t x) (\<lambda>y. Inr (n, y)))) fs) (\<lambda>r. Inr ((''variant'', PStr c) # r))"
    using coerce_fields_ty [OF fl dist, of "[(''variant'', PStr c)]" coerce_value wkv] IH fs(2)
    by simp
  have tag: "py_item (PDict kv) ''variant'' = Inr (PStr c)"
    using py_item_dget [of kv "''variant''"] c by simp
  show ?thesis
  proof (cases "dget wkv ''variant'' = PStr c")
    case True
    with c show ?thesis
      by (simp add: PDict raw k variant_descriptor_case [OF k c(1)] item fseq field_names_ty [OF fl]
          loop rbind_assoc tag)
  next
    case False
    show ?thesis
    proof (cases "nonempty_str (dget wkv ''variant'')")
      case True
      then obtain s where "dget wkv ''variant'' = PStr s" by (rule nonempty_strE)
      with False True c show ?thesis
        by (simp add: PDict raw k variant_descriptor_case [OF k c(1)])
    qed (use False in \<open>simp add: PDict raw k\<close>)
  qed
qed (simp_all add: coerce_value.simps [of _ "PDict kv"] k)

lemma coerce_map_ty:
  assumes k: "dget kv ''kind'' = PStr ''map''"
    and kd: "dget kv ''key'' \<noteq> PNone" "\<And>v. coerce_value v (dget kv ''key'') = coerce_ty kt v"
    and vd: "dget kv ''value'' \<noteq> PNone" "\<And>v. coerce_value v (dget kv ''value'') = coerce_ty t v"
  shows "coerce_value v (PDict kv) = coerce_ty (TMap kt t) v"
  by (cases v) (simp_all add: coerce_value.simps [of _ "PDict kv"] k kd vd
      py_item_dget [OF kd(1)] py_item_dget [OF vd(1)])

section \<open>Coercion is coercion into the denoted type\<close>

lemma coerce_value_ty: "desc_ty d t \<Longrightarrow> coerce_value v d = coerce_ty t v"
proof (induction d arbitrary: t v rule: measure_induct_rule [of size])
  case (less d)
  have child: "coerce_value v (dget kv key) = coerce_ty u v"
    if "d = PDict kv" "desc_ty (dget kv key) u" for kv key u v
    using less.IH [of "dget kv key" u v] that size_dget [of kv key] by simp
  have fld: "coerce_value v (dfield x ''type'') = coerce_ty u v"
    if "x \<in> set (seq_items w)" "size w < size d" "desc_ty (dfield x ''type'') u" for x w u v
  proof -
    from that(3) obtain fkv where "x = PDict fkv"
      using desc_ty_is_mapping by (cases x) (fastforce simp: dfield_def)+
    with that size_field_type_dget [of fkv w "''type''"] less.IH [of "dget fkv ''type''" u v]
    show ?thesis by simp
  qed
  have present: "desc_ty (dget kv key) u \<Longrightarrow> dget kv key \<noteq> PNone" for kv key u
    using desc_ty_is_mapping by fastforce
  from less.prems show ?case
  proof (cases rule: desc_ty.cases)
    case (prim kv n)
    then show ?thesis by (simp add: coerce_value_kind(1) py_item_dget)
  next
    case (enum kv xs)
    then have "py_item (PDict kv) ''allowed'' = Inr (dget kv ''allowed'')"
      "py_item (PDict kv) ''name'' = Inr (dget kv ''name'')"
      by (auto intro!: py_item_dget)
    moreover have "list_ex (py_eq (PStr s)) (map PStr xs) \<longleftrightarrow> s \<in> set xs" for s
      by (auto simp: list_ex_iff)
    ultimately show ?thesis using enum by (cases v) (simp_all add: coerce_value_kind(2))
  next
    case (path kv)
    then have "py_item (PDict kv) ''name'' = Inr (dget kv ''name'')" by (auto intro!: py_item_dget)
    with path show ?thesis by (simp add: coerce_value_kind(3))
  next
    case (opt kv u)
    with child [of kv "''item''" u] present [of kv "''item''" u] show ?thesis
      by (simp add: coerce_value_kind(4) py_item_dget)
  next
    case (lst kv u)
    with child [of kv "''item''" u] present [of kv "''item''" u] show ?thesis
      by (simp add: coerce_value_kind(5) py_item_dget)
  next
    case (map kv kt u)
    then show ?thesis using coerce_map_ty [of kv kt u v] child present by simp
  next
    case (rec kv fs)
    then show ?thesis
      using coerce_record_ty [of kv fs v] fld [of _ "dget kv ''fields''"] size_dget [of kv "''fields''"] by simp
  next
    case (union kv vs)
    have "coerce_value v (dfield x ''type'') = coerce_ty u v"
      if "PDict vkv \<in> set (seq_items (dget kv ''variants''))" "x \<in> set (seq_items (dget vkv ''fields''))"
        "desc_ty (dfield x ''type'') u" for vkv x u v
      using fld [OF that(2) _ that(3)] size_field_type_dget [OF that(1), of "''fields''"]
        size_dget [of kv "''variants''"] union(1) by simp
    with union show ?thesis using coerce_union_ty [of kv vs v] by simp
  next
    case (vcase kv c fs)
    then show ?thesis
      using coerce_case_ty [of kv c fs v] fld [of _ "dget kv ''fields''"] size_dget [of kv "''fields''"] by simp
  qed
qed
section \<open>Coercion is idempotent\<close>

fun wf_ty :: "ty \<Rightarrow> bool" where
  "wf_ty (TOpt t) = wf_ty t"
| "wf_ty (TList t) = wf_ty t"
| "wf_ty (TMap k t) = (wf_ty k \<and> wf_ty t)"
| "wf_ty (TRec fs) = (distinct (map fst fs) \<and> list_all (\<lambda>(n, t). wf_ty t) fs)"
| "wf_ty (TUnion vs) = list_all (\<lambda>(n, fs). distinct (map fst fs) \<and> ''variant'' \<notin> fst ` set fs \<and>
     list_all (\<lambda>(n, t). wf_ty t) fs) vs"
| "wf_ty (TCase c fs) = (distinct (map fst fs) \<and> ''variant'' \<notin> fst ` set fs \<and>
     list_all (\<lambda>(n, t). wf_ty t) fs)"
| "wf_ty _ = True"

lemma desc_ty_wf:
  "desc_ty d t \<Longrightarrow> wf_ty t"
  "fields_ty v fs \<Longrightarrow> distinct (map fst fs) \<and> list_all (\<lambda>(n, t). wf_ty t) fs"
  "field_list_ty xs fs \<Longrightarrow> list_all (\<lambda>(n, t). wf_ty t) fs"
  "variants_ty xs vs \<Longrightarrow> wf_ty (TUnion vs)"
  by (induction rule: desc_ty_fields_ty_field_list_ty_variants_ty.inducts) simp_all

lemma coerce_primitive_idem: "coerce_primitive n v = Inr w \<Longrightarrow> coerce_primitive n w = Inr w"
  unfolding coerce_primitive_def
  by (auto simp: result_simps checked_int_def split: if_splits pyval.splits)

text \<open>The entries produced for declared fields: names in order, every value already coerced.\<close>

abbreviation field_step :: "pydict \<Rightarrow> string \<times> ty \<Rightarrow> exc + (string \<times> pyval)" where
  "field_step vkv \<equiv> (\<lambda>(n, t). (case map_of vkv n of None \<Rightarrow> Inl type_mismatch
      | Some x \<Rightarrow> rbind (coerce_ty t x) (\<lambda>y. Inr (n, y))))"

lemma field_entries:
  assumes "map_r (field_step vkv) fs = Inr r"
  shows "map fst r = map fst fs"
    and "list_all2 (\<lambda>(n, t) (m, y). \<exists>x. map_of vkv n = Some x \<and> coerce_ty t x = Inr y) fs r"
proof -
  from assms have "list_all2 (\<lambda>p q. field_step vkv p = Inr q) fs r"
    by (simp add: map_r_Inr_iff)
  then have *: "list_all2 (\<lambda>(n, t) (m, y). m = n \<and> (\<exists>x. map_of vkv n = Some x \<and> coerce_ty t x = Inr y)) fs r"
    by (rule list_all2_mono) (auto simp: result_simps split: option.splits)
  then show "map fst r = map fst fs"
    by (induction rule: list_all2_induct) auto
  from * show "list_all2 (\<lambda>(n, t) (m, y). \<exists>x. map_of vkv n = Some x \<and> coerce_ty t x = Inr y) fs r"
    by (rule list_all2_mono) auto
qed

lemma field_entries_fix:
  assumes "map_r (field_step vkv) fs = Inr r" "distinct (map fst fs)"
    and "\<And>n. n \<in> fst ` set fs \<Longrightarrow> map_of wkv n = map_of r n"
    and "\<And>n t v w. (n, t) \<in> set fs \<Longrightarrow> coerce_ty t v = Inr w \<Longrightarrow> coerce_ty t w = Inr w"
  shows "map_r (field_step wkv) fs = Inr r"
proof -
  note names = field_entries(1) [OF assms(1)]
  have "field_step wkv (fs ! i) = Inr (r ! i)" if i: "i < length fs" for i
  proof -
    obtain n t where nt: "fs ! i = (n, t)" by fastforce
    obtain m y where my: "r ! i = (m, y)" by fastforce
    have len: "length r = length fs" using map_r_length [OF assms(1)] .
    have mn: "m = n" using names i len nt my by (metis fst_conv nth_map)
    from field_entries(2) [OF assms(1)] i nt my obtain x where "coerce_ty t x = Inr y"
      by (fastforce simp: list_all2_conv_all_nth)
    with assms(4) nth_mem [OF i] nt have "coerce_ty t y = Inr y" by metis
    moreover have "map_of r n = Some y"
      using i len my mn assms(2) names nth_mem [of i r] by (simp add: map_of_eq_Some_iff)
    moreover have "n \<in> fst ` set fs" using nth_mem [OF i] nt by force
    ultimately show ?thesis using assms(3) nt my mn by simp
  qed
  then show ?thesis
    using map_r_length [OF assms(1)] by (simp add: map_r_Inr_iff list_all2_conv_all_nth)
qed

text \<open>Maps: coerced entries have distinct keys and stay as they are.\<close>

abbreviation map_step :: "ty \<Rightarrow> ty \<Rightarrow> string \<times> pyval \<Rightarrow> pydict \<Rightarrow> exc + pydict" where
  "map_step k t \<equiv> (\<lambda>(key, x) result. rbind (coerce_ty k (PStr key)) (\<lambda>k'. rbind (coerce_ty t x) (\<lambda>y.
      (case k' of PStr s \<Rightarrow> Inr (AList.update s y result) | _ \<Rightarrow> Inl TypeError))))"

lemma str_case_Inr:
  "(case k of PStr s \<Rightarrow> Inr (f s) | _ \<Rightarrow> Inl e) = Inr z \<longleftrightarrow> (\<exists>s. k = PStr s \<and> z = f s)"
  by (cases k) auto

lemma map_entries:
  assumes "fold_r (map_step k t) vkv acc = Inr r"
    and "\<And>v w. coerce_ty k v = Inr w \<Longrightarrow> coerce_ty k w = Inr w"
    and "\<And>v w. coerce_ty t v = Inr w \<Longrightarrow> coerce_ty t w = Inr w"
    and "distinct (map fst acc)"
    and "\<forall>(s, y) \<in> set acc. coerce_ty k (PStr s) = Inr (PStr s) \<and> coerce_ty t y = Inr y"
  shows "distinct (map fst r) \<and> (\<forall>(s, y) \<in> set r. coerce_ty k (PStr s) = Inr (PStr s) \<and> coerce_ty t y = Inr y)"
  using assms(1,4,5)
proof (induction vkv arbitrary: acc)
  case Nil
  then show ?case by simp
next
  case (Cons p vkv)
  obtain key x where p: "p = (key, x)" by fastforce
  from Cons.prems(1) p obtain s y where s: "coerce_ty k (PStr key) = Inr (PStr s)" "coerce_ty t x = Inr y"
      "fold_r (map_step k t) vkv (AList.update s y acc) = Inr r"
    by (auto simp: result_simps str_case_Inr)
  have "set (AList.update s y acc) \<subseteq> insert (s, y) (set acc)"
    by (induction acc) auto
  then have "\<forall>(s, y) \<in> set (AList.update s y acc). coerce_ty k (PStr s) = Inr (PStr s) \<and> coerce_ty t y = Inr y"
    using Cons.prems(3) s(1,2) assms(2,3) by fastforce
  with Cons.IH [OF s(3)] Cons.prems(2) show ?case
    by (simp add: distinct_update)
qed

lemma map_entries_fix:
  assumes "distinct (map fst (acc @ r))"
    and "\<forall>(s, y) \<in> set r. coerce_ty k (PStr s) = Inr (PStr s) \<and> coerce_ty t y = Inr y"
  shows "fold_r (map_step k t) r acc = Inr (acc @ r)"
  using assms
proof (induction r arbitrary: acc)
  case Nil
  then show ?case by simp
next
  case (Cons p r)
  obtain s y where p: "p = (s, y)" by fastforce
  with Cons.prems have "AList.update s y acc = acc @ [(s, y)]" by (intro update_fresh) auto
  with Cons p show ?case by simp
qed

lemma coerce_ty_idem: "wf_ty t \<Longrightarrow> coerce_ty t v = Inr w \<Longrightarrow> coerce_ty t w = Inr w"
proof (induction t arbitrary: v w)
  case (TPrim n)
  then show ?case by (simp add: coerce_primitive_idem)
next
  case (TEnum xs)
  then show ?case by (cases v) (auto split: if_splits)
next
  case TPath
  then show ?case by (auto split: if_splits)
next
  case (TOpt t)
  then show ?case by (auto split: if_splits)
next
  case (TList t)
  then obtain ys where ys: "w = PList ys" "map_r (coerce_ty t) (seq_items v) = Inr ys"
    by (auto simp: result_simps split: if_splits)
  have "map_r (coerce_ty t) ys = Inr ys"
    using map_r_Inr_mem2D [OF ys(2)] TList by (intro map_r_id) fastforce
  with ys show ?case by simp
next
  case (TMap k t)
  then obtain vkv r where r: "v = PDict vkv" "w = PDict r" "fold_r (map_step k t) vkv [] = Inr r"
    by (cases v) (auto simp: result_simps)
  have "distinct (map fst r) \<and> (\<forall>(s, y) \<in> set r. coerce_ty k (PStr s) = Inr (PStr s) \<and> coerce_ty t y = Inr y)"
    using TMap by (intro map_entries [OF r(3)]) auto
  with r map_entries_fix [of "[]" r k t] show ?case by simp
next
  case (TRec fs)
  then obtain vkv r where r: "v = PDict vkv" "w = PDict r" "map_r (field_step vkv) fs = Inr r"
    by (cases v) (auto simp: result_simps split: if_splits)
  have "map_r (field_step r) fs = Inr r"
    using TRec by (intro field_entries_fix [OF r(3)]) (auto simp: list_all_iff snds.simps)
  moreover have "fst ` set r = fst ` set fs"
    using field_entries(1) [OF r(3)] by (metis list.set_map)
  ultimately show ?case using r by simp
next
  case (TUnion vs)
  then obtain vkv fs r where r: "v = PDict vkv" "nonempty_str (dget vkv ''variant'')"
      "map_of vs (str_of (dget vkv ''variant'')) = Some fs" "map_r (field_step vkv) fs = Inr r"
      "w = PDict ((''variant'', dget vkv ''variant'') # r)"
    by (cases v) (auto simp: result_simps split: if_splits option.splits)
  note mem = map_of_SomeD [OF r(3)]
  with TUnion.prems(1) have fs: "distinct (map fst fs)" "''variant'' \<notin> fst ` set fs" "list_all (\<lambda>(n, t). wf_ty t) fs"
    by (auto simp: list_all_iff)
  have "map_r (field_step ((''variant'', dget vkv ''variant'') # r)) fs = Inr r"
  proof (rule field_entries_fix [OF r(4) fs(1)])
    show "map_of ((''variant'', dget vkv ''variant'') # r) n = map_of r n" if "n \<in> fst ` set fs" for n
    proof -
      from that fs(2) have "n \<noteq> ''variant''" by blast
      then show ?thesis by simp
    qed
    show "coerce_ty t w = Inr w" if "(n, t) \<in> set fs" "coerce_ty t v = Inr w" for n t v w
      using TUnion.IH [of "(str_of (dget vkv ''variant''), fs)" fs "(n, t)" t v w] mem that fs(3)
      by (auto simp: list_all_iff snds.simps)
  qed
  moreover have "fst ` set r = fst ` set fs"
    using field_entries(1) [OF r(4)] by (metis list.set_map)
  moreover have "fst ` set fs \<subseteq> insert ''variant'' (\<Union>p \<in> set vs. fst ` set (snd p))"
    using mem by force
  ultimately show ?case using r by simp
next
  case (TCase c fs)
  then obtain vkv r where r: "v = PDict vkv" "c \<noteq> []" "map_r (field_step vkv) fs = Inr r"
      "w = PDict ((''variant'', PStr c) # r)"
    by (cases v) (auto simp: result_simps split: if_splits)
  have "map_r (field_step ((''variant'', PStr c) # r)) fs = Inr r"
  proof (rule field_entries_fix [OF r(3)])
    show "map_of ((''variant'', PStr c) # r) n = map_of r n" if "n \<in> fst ` set fs" for n
    proof -
      from TCase.prems(1) have "''variant'' \<notin> fst ` set fs" by simp
      with that have "n \<noteq> ''variant''" by blast
      then show ?thesis by simp
    qed
    show "coerce_ty t w = Inr w" if "(n, t) \<in> set fs" "coerce_ty t v = Inr w" for n t v w
      using TCase.IH [of "(n, t)" t v w] TCase.prems(1) that by (auto simp: list_all_iff snds.simps)
  qed (use TCase.prems in simp)
  with r show ?case by simp
qed

theorem coerce_value_idem:
  "desc_ty d t \<Longrightarrow> coerce_value v d = Inr w \<Longrightarrow> coerce_value w d = Inr w"
  using coerce_ty_idem [OF desc_ty_wf(1)] by (simp add: coerce_value_ty)

end
