(* ===== verification/DescriptorMatch.thy ===== *)
theory DescriptorMatch
  imports DescriptorCoercion
begin

text \<open>
  Descriptor matching (\<open>_descriptors_match\<close>) identifies descriptors up to key order, the
  list/tuple distinction and the qualifier of path type names. On descriptors that denote a
  type it decides equality of the normal forms \<open>desc_norm\<close>, hence is an equivalence, and
  matching descriptors denote the same type and coerce alike.
\<close>

section \<open>Values with the same canonical tree\<close>

lemma canon_JStr [simp]: "canon v = JStr s \<longleftrightarrow> v = PStr s"
  by (cases v) auto

lemma canon_str_cong: "canon v = canon w \<Longrightarrow> v = PStr s \<Longrightarrow> w = PStr s"
  by (metis canon.simps(5) canon_JStr)

lemma canon_nonempty_str: "canon v = canon w \<Longrightarrow> nonempty_str v = nonempty_str w"
  by (metis canon_str_cong nonempty_strE)

lemma canon_is_str: "canon v = canon w \<Longrightarrow> is_str v = is_str w"
  by (metis canon_str_cong is_strE)

lemma canon_is_mapping: "canon v = canon w \<Longrightarrow> is_mapping v = is_mapping w"
  by (cases v; cases w) auto

lemma canon_sequence:
  "canon v = canon w \<Longrightarrow> is_sequence v = is_sequence w \<and> map canon (seq_items v) = map canon (seq_items w)"
  by (cases v; cases w) (auto simp: seq_items_def)

lemma canon_dictE:
  "canon (PDict kv) = canon w \<Longrightarrow> (\<And>kw. w = PDict kw \<Longrightarrow> canon (PDict kv) = canon (PDict kw) \<Longrightarrow> P) \<Longrightarrow> P"
  by (cases w) auto

lemma canon_dget_eq:
  "canon (dget kv k) =
     (case map_of (sort_key fst (map (\<lambda>(k, v). (k, canon v)) kv)) k of None \<Rightarrow> JNull | Some t \<Rightarrow> t)"
  by (simp add: map_of_map_snd dget_def split: option.splits)

lemma canon_dget: "canon (PDict kv) = canon (PDict kw) \<Longrightarrow> canon (dget kv k) = canon (dget kw k)"
  by (simp only: canon_dget_eq canon.simps jtree.inject)

lemma canon_dpop: "canon (PDict kv) = canon (PDict kw) \<Longrightarrow> canon (PDict (dpop kv k)) = canon (PDict (dpop kw k))"
proof -
  have step: "sort_key fst (map (\<lambda>(k, v). (k, canon v)) (dpop kv k))
      = filter (\<lambda>p. fst p \<noteq> k) (sort_key fst (map (\<lambda>(k, v). (k, canon v)) kv))" for kv
    by (simp add: dpop_def filter_sort filter_map comp_def case_prod_beta)
  assume "canon (PDict kv) = canon (PDict kw)"
  then show ?thesis by (simp only: canon.simps step jtree.inject)
qed

lemma canon_seq_Cons:
  "map canon (x # xs) = map canon ys \<Longrightarrow> (\<And>y zs. ys = y # zs \<Longrightarrow> canon x = canon y \<Longrightarrow>
     map canon xs = map canon zs \<Longrightarrow> P) \<Longrightarrow> P"
  by (cases ys) auto

lemma canon_strs: "map canon xs = map canon ys \<Longrightarrow> xs = map PStr ss \<Longrightarrow> ys = map PStr ss"
  by (induction ss arbitrary: xs ys) (auto dest: sym)

lemma desc_ty_canon:
  "desc_ty d t \<Longrightarrow> (\<And>e. canon d = canon e \<Longrightarrow> desc_ty e t)"
  "fields_ty v fs \<Longrightarrow> (\<And>w. canon v = canon w \<Longrightarrow> fields_ty w fs)"
  "field_list_ty xs fs \<Longrightarrow> (\<And>ys. map canon xs = map canon ys \<Longrightarrow> field_list_ty ys fs)"
  "variants_ty xs vs \<Longrightarrow> (\<And>ys. map canon xs = map canon ys \<Longrightarrow> variants_ty ys vs)"
proof (induction rule: desc_ty_fields_ty_field_list_ty_variants_ty.inducts)
  case (prim kv n)
  from prim.prems obtain kw where e: "e = PDict kw" and c: "canon (PDict kv) = canon (PDict kw)"
    by (rule canon_dictE)
  have "dget kw ''kind'' = PStr ''primitive''" "dget kw ''name'' = PStr n"
    using canon_str_cong [OF canon_dget [OF c]] prim.hyps by blast+
  with prim.hyps show ?case unfolding e by (intro desc_ty_intros)
next
  case (enum kv xs)
  from enum.prems obtain kw where e: "e = PDict kw" and c: "canon (PDict kv) = canon (PDict kw)"
    by (rule canon_dictE)
  have k: "dget kw ''kind'' = PStr ''enum''"
    using canon_str_cong [OF canon_dget [OF c]] enum.hyps by blast
  moreover have "nonempty_str (dget kw ''name'')"
    using canon_nonempty_str [OF canon_dget [OF c]] enum.hyps by blast
  moreover have "is_sequence (dget kw ''allowed'')" "seq_items (dget kw ''allowed'') = map PStr xs"
    using canon_sequence [OF canon_dget [OF c, of "''allowed''"]] canon_strs enum.hyps by blast+
  ultimately show ?case unfolding e using enum.hyps by (intro desc_ty_intros)
next
  case (path kv)
  from path.prems obtain kw where e: "e = PDict kw" and c: "canon (PDict kv) = canon (PDict kw)"
    by (rule canon_dictE)
  have "dget kw ''kind'' = PStr ''path''"
    using canon_str_cong [OF canon_dget [OF c]] path.hyps by blast
  moreover have "nonempty_str (dget kw ''name'')"
    using canon_nonempty_str [OF canon_dget [OF c]] path.hyps by blast
  ultimately show ?case unfolding e by (intro desc_ty_intros)
next
  case (opt kv t)
  from opt.prems obtain kw where e: "e = PDict kw" and c: "canon (PDict kv) = canon (PDict kw)"
    by (rule canon_dictE)
  have "dget kw ''kind'' = PStr ''optional''"
    using canon_str_cong [OF canon_dget [OF c]] opt.hyps by blast
  with opt.IH [OF canon_dget [OF c]] show ?case unfolding e by (intro desc_ty_intros)
next
  case (lst kv t)
  from lst.prems obtain kw where e: "e = PDict kw" and c: "canon (PDict kv) = canon (PDict kw)"
    by (rule canon_dictE)
  have "dget kw ''kind'' = PStr ''list''"
    using canon_str_cong [OF canon_dget [OF c]] lst.hyps by blast
  with lst.IH [OF canon_dget [OF c]] show ?case unfolding e by (intro desc_ty_intros)
next
  case (map kv k t)
  from map.prems obtain kw where e: "e = PDict kw" and c: "canon (PDict kv) = canon (PDict kw)"
    by (rule canon_dictE)
  have "dget kw ''kind'' = PStr ''map''"
    using canon_str_cong [OF canon_dget [OF c]] map.hyps by blast
  with map.IH(1) [OF canon_dget [OF c]] map.IH(2) [OF canon_dget [OF c]] show ?case
    unfolding e by (intro desc_ty_intros)
next
  case (rec kv fs)
  from rec.prems obtain kw where e: "e = PDict kw" and c: "canon (PDict kv) = canon (PDict kw)"
    by (rule canon_dictE)
  have "dget kw ''kind'' = PStr ''record''"
    using canon_str_cong [OF canon_dget [OF c]] rec.hyps by blast
  with rec.IH [OF canon_dget [OF c]] show ?case unfolding e by - (rule desc_ty_intros(7); assumption)
next
  case (union kv vs)
  from union.prems obtain kw where e: "e = PDict kw" and c: "canon (PDict kv) = canon (PDict kw)"
    by (rule canon_dictE)
  have "dget kw ''kind'' = PStr ''union''"
    using canon_str_cong [OF canon_dget [OF c]] union.hyps by blast
  moreover have "nonempty_str (dget kw ''name'')"
    using canon_nonempty_str [OF canon_dget [OF c]] union.hyps by blast
  moreover have "is_sequence (dget kw ''variants'')"
    using canon_sequence [OF canon_dget [OF c, of "''variants''"]] union.hyps by blast
  moreover have "variants_ty (seq_items (dget kw ''variants'')) vs"
    using canon_sequence [OF canon_dget [OF c, of "''variants''"]] union.IH by blast
  ultimately show ?case unfolding e using union.hyps by - (rule desc_ty_intros(8); assumption)
next
  case (vcase kv c' fs)
  from vcase.prems obtain kw where e: "e = PDict kw" and c: "canon (PDict kv) = canon (PDict kw)"
    by (rule canon_dictE)
  have "dget kw ''kind'' = PStr ''variant_case''" "dget kw ''variant'' = PStr c'"
    using canon_str_cong [OF canon_dget [OF c]] vcase.hyps by blast+
  moreover have "nonempty_str (dget kw ''union_name'')"
    using canon_nonempty_str [OF canon_dget [OF c]] vcase.hyps by blast
  ultimately show ?case unfolding e using vcase.hyps vcase.IH [OF canon_dget [OF c]]
    by - (rule desc_ty_intros(9); assumption)
next
  case (fields v fs)
  then show ?case using canon_sequence [OF fields.prems] by (intro desc_ty_intros) auto
next
  case fnil
  then show ?case by simp
next
  case (fcons fkv n t xs fs)
  from fcons.prems obtain y zs where ys: "ys = y # zs" "canon (PDict fkv) = canon y"
      "List.map canon xs = List.map canon zs" by (rule canon_seq_Cons)
  from ys(2) obtain kw where y: "y = PDict kw" and c: "canon (PDict fkv) = canon (PDict kw)"
    by (rule canon_dictE)
  have "dget kw ''name'' = PStr n"
    using canon_str_cong [OF canon_dget [OF c]] fcons.hyps by blast
  with fcons.hyps fcons.IH(1) [OF canon_dget [OF c]] fcons.IH(2) [OF ys(3)] show ?case
    unfolding ys(1) y by - (rule desc_ty_intros(12); assumption)
next
  case vnil
  then show ?case by simp
next
  case (vcons vkv n fs xs vs)
  from vcons.prems obtain y zs where ys: "ys = y # zs" "canon (PDict vkv) = canon y"
      "List.map canon xs = List.map canon zs" by (rule canon_seq_Cons)
  from ys(2) obtain kw where y: "y = PDict kw" and c: "canon (PDict vkv) = canon (PDict kw)"
    by (rule canon_dictE)
  have "dget kw ''name'' = PStr n"
    using canon_str_cong [OF canon_dget [OF c]] vcons.hyps by blast
  with vcons.hyps vcons.IH(1) [OF canon_dget [OF c]] vcons.IH(2) [OF ys(3)] show ?case
    unfolding ys(1) y by - (rule desc_ty_intros(14); assumption)
qed

section \<open>Normal forms\<close>

function desc_norm :: "pyval \<Rightarrow> jtree" where
  "desc_norm d =
     (case d of PDict kv \<Rightarrow>
        if dget kv ''kind'' \<in> {PStr ''optional'', PStr ''list''} \<and> is_mapping (dget kv ''item'') then
          JArr [canon (PDict (dpop kv ''item'')), desc_norm (dget kv ''item'')]
        else if dget kv ''kind'' = PStr ''map'' \<and> is_mapping (dget kv ''key'') \<and> is_mapping (dget kv ''value'') then
          JArr [canon (PDict (dpop (dpop kv ''key'') ''value'')),
                desc_norm (dget kv ''key''), desc_norm (dget kv ''value'')]
        else if dget kv ''kind'' = PStr ''path'' \<and> is_str (dget kv ''name'') then
          JArr [JStr (type_base_name (str_of (dget kv ''name''))), canon (PDict (dpop kv ''name''))]
        else canon d
      | _ \<Rightarrow> canon d)"
  by pat_completeness auto
termination
  by (relation "measure size") (auto simp: size_dget simp del: pyval.size)

declare desc_norm.simps [simp del]

lemma dget_dpop [simp]: "dget (dpop kv k) k' = (if k = k' then PNone else dget kv k')"
  by (induction kv) (auto simp: dpop_def)

lemma desc_norm_wrap:
  "dget kv ''kind'' \<in> {PStr ''optional'', PStr ''list''} \<Longrightarrow> is_mapping (dget kv ''item'') \<Longrightarrow>
   desc_norm (PDict kv) = JArr [canon (PDict (dpop kv ''item'')), desc_norm (dget kv ''item'')]"
  by (subst desc_norm.simps) simp

lemma desc_norm_map:
  "dget kv ''kind'' = PStr ''map'' \<Longrightarrow> is_mapping (dget kv ''key'') \<Longrightarrow> is_mapping (dget kv ''value'') \<Longrightarrow>
   desc_norm (PDict kv) = JArr [canon (PDict (dpop (dpop kv ''key'') ''value'')),
     desc_norm (dget kv ''key''), desc_norm (dget kv ''value'')]"
  by (subst desc_norm.simps) simp

lemma desc_norm_path:
  "dget kv ''kind'' = PStr ''path'' \<Longrightarrow> is_str (dget kv ''name'') \<Longrightarrow>
   desc_norm (PDict kv) = JArr [JStr (type_base_name (str_of (dget kv ''name''))), canon (PDict (dpop kv ''name''))]"
  by (subst desc_norm.simps) simp

lemma desc_norm_other:
  "dget kv ''kind'' \<notin> {PStr ''optional'', PStr ''list'', PStr ''map'', PStr ''path''} \<Longrightarrow>
   desc_norm (PDict kv) = canon (PDict kv)"
  by (subst desc_norm.simps) simp

lemma desc_norm_canon: "canon d = canon e \<Longrightarrow> desc_norm d = desc_norm e"
proof (induction d arbitrary: e rule: measure_induct_rule [of size])
  case (less d)
  show ?case
  proof (cases "\<exists>kv. d = PDict kv")
    case False
    then have "is_mapping d = False" by (cases d) auto
    then have "desc_norm d = canon d" "is_mapping e = False"
      using canon_is_mapping [OF less.prems] by (cases d; simp add: desc_norm.simps)+
    moreover from this have "desc_norm e = canon e" by (cases e) (simp_all add: desc_norm.simps)
    ultimately show ?thesis using less.prems by simp
  next
    case True
    then obtain kv where d: "d = PDict kv" ..
    with less.prems obtain kw where e: "e = PDict kw" and c: "canon (PDict kv) = canon (PDict kw)"
      by (metis canon_dictE)
    have IH: "desc_norm (dget kv k) = desc_norm (dget kw k)" for k
      using less.IH [of "dget kv k"] canon_dget [OF c] size_dget [of kv k] d by blast
    have k: "(dget kv k = PStr s) = (dget kw k = PStr s)" for k s
      using canon_str_cong [OF canon_dget [OF c]] canon_str_cong [OF canon_dget [OF c [symmetric]]] by blast
    have m: "is_mapping (dget kv k) = is_mapping (dget kw k)" "is_str (dget kv k) = is_str (dget kw k)" for k
      using canon_is_mapping [OF canon_dget [OF c]] canon_is_str [OF canon_dget [OF c]] by blast+
    have str: "is_str (dget kw k) \<Longrightarrow> str_of (dget kv k) = str_of (dget kw k)" for k
      using k by (metis is_strE)
    show ?thesis
      unfolding d e desc_norm.simps [of "PDict kv"] desc_norm.simps [of "PDict kw"]
      using canon_dpop [OF c] canon_dpop [OF canon_dpop [OF c]]
      by (simp only: pyval.case k m str IH c insert_iff empty_iff cong: if_cong conj_cong)
  qed
qed

section \<open>Matching decides equality of normal forms\<close>

lemma same_key_finite:
  "all_sub finite_float a \<Longrightarrow> all_sub finite_float b \<Longrightarrow> same_key a b = Inr (canon a = canon b)"
  using pure_json.encode_eq_iff [of a "json_text (canon a)" b "json_text (canon b)"]
  by (simp add: same_key_def descriptor_key_def canonical_json_Inr_iff [THEN iffD2])

lemma same_key_True:
  "same_key a b = Inr c \<Longrightarrow> all_sub finite_float a \<and> all_sub finite_float b \<and> c = (canon a = canon b)"
  using pure_json.encode_eq_iff
  by (fastforce simp: same_key_def descriptor_key_def canonical_json_Inr_iff result_simps)

lemma all_sub_dpop: "all_sub finite_float (PDict kv) \<Longrightarrow> all_sub finite_float (PDict (dpop kv k))"
  by (auto simp: dpop_def list_all_iff finite_float_def)

lemma finite_dget: "all_sub finite_float (PDict kv) \<Longrightarrow> all_sub finite_float (dget kv k)"
  by (rule all_sub_dget) (simp_all add: finite_float_def)

lemma canon_JArr_dict [simp]: "JArr ts \<noteq> canon (PDict kv)" "canon (PDict kv) \<noteq> JArr ts"
  "JStr s \<noteq> canon (PDict kv)"
  by auto

lemma desc_norm_cases:
  obtains (wrap) "dget kv ''kind'' \<in> {PStr ''optional'', PStr ''list''}"
      "desc_norm (PDict kv) = JArr [canon (PDict (dpop kv ''item'')), desc_norm (dget kv ''item'')]"
  | (map) "dget kv ''kind'' = PStr ''map''"
      "desc_norm (PDict kv) = JArr [canon (PDict (dpop (dpop kv ''key'') ''value'')),
         desc_norm (dget kv ''key''), desc_norm (dget kv ''value'')]"
  | (path) "dget kv ''kind'' = PStr ''path''" "is_str (dget kv ''name'')"
      "desc_norm (PDict kv) = JArr [JStr (type_base_name (str_of (dget kv ''name''))), canon (PDict (dpop kv ''name''))]"
  | (other) "desc_norm (PDict kv) = canon (PDict kv)"
  using desc_norm.simps [of "PDict kv"] unfolding pyval.case by (metis (no_types, lifting))

lemma desc_norm_kind:
  assumes "desc_norm (PDict kv) = desc_norm (PDict kw)"
  shows "canon (dget kv ''kind'') = canon (dget kw ''kind'')"
proof -
  have pop: "canon (PDict (dpop kv k)) = canon (PDict (dpop kw k)) \<Longrightarrow> k \<noteq> ''kind'' \<Longrightarrow>
      canon (dget kv ''kind'') = canon (dget kw ''kind'')" for k kv kw
    using canon_dget [of "dpop kv k" "dpop kw k" "''kind''"] by simp
  have pop2: "canon (PDict (dpop (dpop kv ''key'') ''value'')) = canon (PDict (dpop (dpop kw ''key'') ''value'')) \<Longrightarrow>
      canon (dget kv ''kind'') = canon (dget kw ''kind'')"
    using pop [of "dpop kv ''key''" "''value''" "dpop kw ''key''"] by simp
  have "canon (PDict (dpop kv ''item'')) = canon (PDict (dpop kw ''item''))
      \<or> canon (PDict (dpop kv ''name'')) = canon (PDict (dpop kw ''name''))
      \<or> canon (PDict (dpop (dpop kv ''key'') ''value'')) = canon (PDict (dpop (dpop kw ''key'') ''value''))
      \<or> canon (PDict kv) = canon (PDict kw)"
    by (rule desc_norm_cases [of kv]; rule desc_norm_cases [of kw])
      (use assms in \<open>simp_all del: canon.simps\<close>)
  then show ?thesis
  proof (elim disjE)
    assume "canon (PDict kv) = canon (PDict kw)"
    then show ?thesis by (rule canon_dget)
  qed ((rule pop, assumption, simp) | (rule pop2, assumption))+
qed

lemma desc_ty_kind: "desc_ty (PDict kv) t \<Longrightarrow> \<exists>s. dget kv ''kind'' = PStr s"
  by (auto simp: desc_ty_dict)

lemma desc_ty_mapping_dget: "desc_ty (dget kv k) t \<Longrightarrow> is_mapping (dget kv k)"
  by (auto dest: desc_ty_is_mapping)

lemma match_by_kind:
  assumes fin: "all_sub finite_float (PDict kv)" "all_sub finite_float (PDict kw)"
    and ne: "canon (PDict kv) \<noteq> canon (PDict kw)"
    and k: "dget kv ''kind'' = PStr s" "dget kw ''kind'' = PStr s"
  shows "s \<in> {''optional'', ''list''} \<Longrightarrow> is_mapping (dget kv ''item'') \<Longrightarrow> is_mapping (dget kw ''item'') \<Longrightarrow>
      descriptors_match (PDict kv) (PDict kw) =
        and_then (Inr (canon (PDict (dpop kv ''item'')) = canon (PDict (dpop kw ''item''))))
          (descriptors_match (dget kv ''item'') (dget kw ''item''))" (is "_ \<Longrightarrow> _ \<Longrightarrow> _ \<Longrightarrow> ?wrap")
    and "s = ''map'' \<Longrightarrow> is_mapping (dget kv ''key'') \<Longrightarrow> is_mapping (dget kw ''key'') \<Longrightarrow>
      is_mapping (dget kv ''value'') \<Longrightarrow> is_mapping (dget kw ''value'') \<Longrightarrow>
      descriptors_match (PDict kv) (PDict kw) =
        and_then (Inr (canon (PDict (dpop (dpop kv ''key'') ''value'')) = canon (PDict (dpop (dpop kw ''key'') ''value''))))
          (and_then (descriptors_match (dget kv ''key'') (dget kw ''key''))
             (descriptors_match (dget kv ''value'') (dget kw ''value'')))"
    and "s = ''path'' \<Longrightarrow> is_str (dget kv ''name'') \<Longrightarrow> is_str (dget kw ''name'') \<Longrightarrow>
      descriptors_match (PDict kv) (PDict kw) =
        Inr (type_base_name (str_of (dget kv ''name'')) = type_base_name (str_of (dget kw ''name''))
             \<and> canon (PDict (dpop kv ''name'')) = canon (PDict (dpop kw ''name'')))"
    and "s \<notin> {''optional'', ''list'', ''map'', ''path''} \<Longrightarrow>
      descriptors_match (PDict kv) (PDict kw) = Inr False"
proof -
  note key = same_key_finite [OF fin] same_key_finite [OF fin [THEN all_sub_dpop]]
    same_key_finite [OF fin [THEN all_sub_dpop, THEN all_sub_dpop]]
  note eq = descriptors_match.simps [of "PDict kv" "PDict kw"]
  show ?wrap if "s \<in> {''optional'', ''list''}" "is_mapping (dget kv ''item'')" "is_mapping (dget kw ''item'')"
    using that unfolding eq key rbind_simps
    by (simp only: ne k prod.case pyval.case if_False if_True hashable.simps py_eq_simps pyval.inject insert_iff
        empty_iff simp_thms key)
  show "descriptors_match (PDict kv) (PDict kw) =
        and_then (Inr (canon (PDict (dpop (dpop kv ''key'') ''value'')) = canon (PDict (dpop (dpop kw ''key'') ''value''))))
          (and_then (descriptors_match (dget kv ''key'') (dget kw ''key''))
             (descriptors_match (dget kv ''value'') (dget kw ''value'')))"
    if "s = ''map''" "is_mapping (dget kv ''key'')" "is_mapping (dget kw ''key'')"
      "is_mapping (dget kv ''value'')" "is_mapping (dget kw ''value'')"
    using that ne k unfolding eq key by (simp add: hashable.simps key del: canon.simps)
  show "descriptors_match (PDict kv) (PDict kw) =
        Inr (type_base_name (str_of (dget kv ''name'')) = type_base_name (str_of (dget kw ''name''))
             \<and> canon (PDict (dpop kv ''name'')) = canon (PDict (dpop kw ''name'')))"
    if "s = ''path''" "is_str (dget kv ''name'')" "is_str (dget kw ''name'')"
    using that ne k unfolding eq key by (simp add: hashable.simps key del: canon.simps)
  show "descriptors_match (PDict kv) (PDict kw) = Inr False"
    if "s \<notin> {''optional'', ''list'', ''map'', ''path''}"
    using that ne k unfolding eq key by (simp add: hashable.simps key del: canon.simps)
qed

lemma match_kind_differs:
  assumes "all_sub finite_float (PDict kv)" "all_sub finite_float (PDict kw)"
    and k: "dget kv ''kind'' = PStr s" "dget kw ''kind'' = PStr s'" "s \<noteq> s'"
  shows "descriptors_match (PDict kv) (PDict kw) = Inr False"
proof -
  have "canon (PDict kv) \<noteq> canon (PDict kw)"
    using canon_str_cong [OF canon_dget k(1)] k(2,3) by fastforce
  with k show ?thesis
    by (simp add: descriptors_match.simps [of "PDict kv"] same_key_finite [OF assms(1,2)] del: canon.simps)
qed

theorem match_norm:
  assumes "desc_ty a t" "desc_ty b u" "all_sub finite_float a" "all_sub finite_float b"
  shows "descriptors_match a b = Inr (desc_norm a = desc_norm b)"
  using assms
proof (induction a arbitrary: b t u rule: measure_induct_rule [of size])
  case (less a)
  from less.prems obtain kv kw where d: "a = PDict kv" "b = PDict kw"
    using desc_ty_is_mapping by blast
  note ty = less.prems(1,2) [unfolded d] and fin = less.prems(3,4) [unfolded d]
  note IH = less.IH [unfolded d, OF size_dget _ _ finite_dget [OF fin(1)] finite_dget [OF fin(2)]]
  obtain s s' where k: "dget kv ''kind'' = PStr s" "dget kw ''kind'' = PStr s'"
    using ty desc_ty_kind by blast
  consider (same) "canon (PDict kv) = canon (PDict kw)" | (kind) "s \<noteq> s'"
    | (deep) "canon (PDict kv) \<noteq> canon (PDict kw)" "s = s'" by blast
  then show ?case
  proof cases
    case same
    then show ?thesis unfolding d
      by (simp add: descriptors_match.simps [of "PDict kv"] same_key_finite [OF fin] desc_norm_canon [OF same] del: canon.simps)
  next
    case kind
    with k have "desc_norm (PDict kv) \<noteq> desc_norm (PDict kw)" using desc_norm_kind by fastforce
    with match_kind_differs [OF fin k kind] show ?thesis unfolding d by simp
  next
    case deep
    note k' = k(1) k(2) [folded deep(2)]
    note m = match_by_kind [OF fin deep(1) k']
    consider (wrap) "s = ''optional'' \<or> s = ''list''" | (map) "s = ''map''" | (path) "s = ''path''"
      | (other) "s \<notin> {''optional'', ''list'', ''map'', ''path''}" by blast
    then show ?thesis
    proof cases
      case wrap
      then obtain t' u' where i: "desc_ty (dget kv ''item'') t'" "desc_ty (dget kw ''item'') u'"
        using ty k' by (auto simp: desc_ty_optional desc_ty_list)
      note mp = i [THEN desc_ty_mapping_dget]
      have w: "dget kv ''kind'' \<in> {PStr ''optional'', PStr ''list''}" "dget kw ''kind'' \<in> {PStr ''optional'', PStr ''list''}"
        using wrap k' by auto
      show ?thesis unfolding d m(1) [OF _ mp, unfolded insert_iff empty_iff, simplified, OF wrap]
          desc_norm_wrap [OF w(1) mp(1)] desc_norm_wrap [OF w(2) mp(2)] IH [OF i]
        by (auto simp: and_then_def)
    next
      case map
      then obtain t1 t2 u1 u2 where i: "desc_ty (dget kv ''key'') t1" "desc_ty (dget kw ''key'') u1"
          "desc_ty (dget kv ''value'') t2" "desc_ty (dget kw ''value'') u2"
        using ty k' by (auto simp: desc_ty_map)
      note mp = i [THEN desc_ty_mapping_dget]
      show ?thesis unfolding d m(2) [OF map mp] desc_norm_map [OF k'(1) [unfolded map] mp(1,3)]
          desc_norm_map [OF k'(2) [unfolded map] mp(2,4)] IH [OF i(1,2)] IH [OF i(3,4)]
        by (auto simp: and_then_def)
    next
      case path
      then have n: "is_str (dget kv ''name'')" "is_str (dget kw ''name'')"
        using ty k' by (auto simp: desc_ty_path elim!: nonempty_strE)
      show ?thesis unfolding d m(3) [OF path n] desc_norm_path [OF k'(1) [unfolded path] n(1)]
          desc_norm_path [OF k'(2) [unfolded path] n(2)]
        by (simp del: canon.simps)
    next
      case other
      then have "desc_norm (PDict kv) = canon (PDict kv)" "desc_norm (PDict kw) = canon (PDict kw)"
        using k' by (simp_all add: desc_norm_other del: canon.simps)
      with m(4) [OF other] deep(1) show ?thesis unfolding d by simp
    qed
  qed
qed

theorem norm_same_type:
  assumes "desc_ty a t" "desc_ty b u" "desc_norm a = desc_norm b"
  shows "t = u"
  using assms
proof (induction a arbitrary: b t u rule: measure_induct_rule [of size])
  case (less a)
  from less.prems obtain kv kw where d: "a = PDict kv" "b = PDict kw"
    using desc_ty_is_mapping by blast
  note ty = less.prems(1,2) [unfolded d] and norm = less.prems(3) [unfolded d]
  note IH = less.IH [unfolded d, OF size_dget]
  obtain s where k: "dget kv ''kind'' = PStr s" "dget kw ''kind'' = PStr s"
    using ty(1) desc_ty_kind canon_str_cong [OF desc_norm_kind [OF norm]] by blast
  consider (wrap) "s = ''optional'' \<or> s = ''list''" | (map) "s = ''map''" | (path) "s = ''path''"
    | (other) "s \<notin> {''optional'', ''list'', ''map'', ''path''}" by blast
  then show ?case
  proof cases
    case wrap
    then obtain t' u' where i: "desc_ty (dget kv ''item'') t'" "desc_ty (dget kw ''item'') u'"
        "t = (if s = ''list'' then TList t' else TOpt t')" "u = (if s = ''list'' then TList u' else TOpt u')"
      using ty k by (auto simp: desc_ty_optional desc_ty_list)
    note mp = i(1,2) [THEN desc_ty_mapping_dget]
    have w: "dget kv ''kind'' \<in> {PStr ''optional'', PStr ''list''}" "dget kw ''kind'' \<in> {PStr ''optional'', PStr ''list''}"
      using wrap k by auto
    have "desc_norm (dget kv ''item'') = desc_norm (dget kw ''item'')"
      using norm unfolding desc_norm_wrap [OF w(1) mp(1)] desc_norm_wrap [OF w(2) mp(2)] by simp
    with IH [OF i(1,2)] i show ?thesis by simp
  next
    case map
    then obtain t1 t2 u1 u2 where i: "desc_ty (dget kv ''key'') t1" "desc_ty (dget kw ''key'') u1"
        "desc_ty (dget kv ''value'') t2" "desc_ty (dget kw ''value'') u2" "t = TMap t1 t2" "u = TMap u1 u2"
      using ty k by (auto simp: desc_ty_map)
    note mp = i(1-4) [THEN desc_ty_mapping_dget]
    have "desc_norm (dget kv ''key'') = desc_norm (dget kw ''key'')"
        "desc_norm (dget kv ''value'') = desc_norm (dget kw ''value'')"
      using norm unfolding desc_norm_map [OF k(1) [unfolded map] mp(1,3)]
        desc_norm_map [OF k(2) [unfolded map] mp(2,4)] by simp_all
    with IH [OF i(1,2)] IH [OF i(3,4)] i show ?thesis by simp
  next
    case path
    with ty k show ?thesis by (simp add: desc_ty_path)
  next
    case other
    then have "desc_norm (PDict kv) = canon (PDict kv)" "desc_norm (PDict kw) = canon (PDict kw)"
      using k by (simp_all add: desc_norm_other del: canon.simps)
    with norm have "desc_ty (PDict kw) t" using desc_ty_canon(1) [OF ty(1)] by simp
    with ty(2) show ?thesis using desc_ty_functional(1) by blast
  qed
qed

lemma match_same_type:
  assumes "desc_ty a t" "desc_ty b u" "descriptors_match a b = Inr True"
  shows "t = u"
proof -
  have "all_sub finite_float a" "all_sub finite_float b"
    using assms(3) same_key_True by (auto simp: descriptors_match.simps [of a] result_simps)
  with assms show ?thesis using match_norm norm_same_type by fastforce
qed

section \<open>Properties\<close>

text \<open>
  C4. Descriptor validation and types. Every descriptor that denotes a type passes
  \<open>_validate_type_descriptor\<close>; and a descriptor that passes denotes a type, provided its unions are
  named, none of their variants declares a field called \<open>variant\<close>, and its floats are finite
  (\<open>sane\<close>), so that on these descriptors validation accepts exactly the ones that denote a type.
\<close>

theorem validation_characterises_types:
  "((\<exists>t. desc_ty d t) \<longrightarrow> validate_type_descriptor d = Inr ())
   \<and> (sane d \<longrightarrow> (validate_type_descriptor d = Inr () \<longleftrightarrow> (\<exists>t. desc_ty d t)))"
  using validate_desc_ty [of d] desc_ty_valid(1) by blast

text \<open>
  Without the proviso the second half fails: the validator does not ask for the name of a union, which the
  evaluator reads.
\<close>

lemma nameless_union_accepted:
  "validate_type_descriptor (PDict [(''kind'', PStr ''union''), (''variants'', PList [
      PDict [(''name'', PStr ''OK''), (''fields'', PList [])]])]) = Inr ()"
  "\<not> desc_ty (PDict [(''kind'', PStr ''union''), (''variants'', PList [
      PDict [(''name'', PStr ''OK''), (''fields'', PList [])]])]) t"
  by (code_simp, auto simp: desc_ty_dict dget_def nonempty_str_def)

text \<open>
  On validated descriptors matching is total and an equivalence relation.
\<close>

theorem descriptors_match_equivalence:
  assumes "validate_type_descriptor a = Inr ()" "sane a" "validate_type_descriptor b = Inr ()" "sane b"
    and "validate_type_descriptor c = Inr ()" "sane c"
  shows "descriptors_match a a = Inr True
    \<and> (\<exists>r. descriptors_match a b = Inr r \<and> descriptors_match b a = Inr r)
    \<and> (descriptors_match a b = Inr True \<and> descriptors_match b c = Inr True
        \<longrightarrow> descriptors_match a c = Inr True)"
proof -
  obtain t u v where ty: "desc_ty a t" "desc_ty b u" "desc_ty c v"
    using validate_desc_ty [OF assms(1,2)] validate_desc_ty [OF assms(3,4)] validate_desc_ty [OF assms(5,6)]
    by blast
  note fin = assms(2,4,6) [THEN sane_finite]
  have "descriptors_match a a = Inr True"
      "descriptors_match a b = Inr (desc_norm a = desc_norm b)"
      "descriptors_match b a = Inr (desc_norm a = desc_norm b)"
      "descriptors_match b c = Inr (desc_norm b = desc_norm c)"
      "descriptors_match a c = Inr (desc_norm a = desc_norm c)"
    by (simp_all add: match_norm [OF ty(1) ty(1) fin(1) fin(1)] match_norm [OF ty(1) ty(2) fin(1) fin(2)]
        match_norm [OF ty(2) ty(1) fin(2) fin(1)] match_norm [OF ty(2) ty(3) fin(2) fin(3)]
        match_norm [OF ty(1) ty(3) fin(1) fin(3)] eq_commute)
  then show ?thesis by simp
qed

text \<open>
  C5. Matching descriptors coerce every value alike: the same result and the same exception.
\<close>

theorem matching_descriptors_coerce_alike:
  assumes "validate_type_descriptor a = Inr ()" "sane a" "validate_type_descriptor b = Inr ()" "sane b"
    and "descriptors_match a b = Inr True"
  shows "coerce_value v a = coerce_value v b"
proof -
  obtain t u where ty: "desc_ty a t" "desc_ty b u"
    using validate_desc_ty [OF assms(1,2)] validate_desc_ty [OF assms(3,4)] by blast
  with match_same_type [OF ty assms(5)] show ?thesis by (simp add: coerce_value_ty)
qed

text \<open>
  Coercion is idempotent: what \<open>_coerce_value\<close> returns is accepted unchanged by the same
  validated descriptor.
\<close>

theorem coerce_value_idempotent:
  assumes "validate_type_descriptor d = Inr ()" "sane d" "coerce_value v d = Inr w"
  shows "coerce_value w d = Inr w"
  using validate_desc_ty [OF assms(1,2)] coerce_value_idem assms(3) by blast

section \<open>Witnesses\<close>

text \<open>Two spellings of the same list-of-paths type and a union type.\<close>

definition demo_paths :: "string \<Rightarrow> pyval" where
  "demo_paths n = PDict [(''kind'', PStr ''list''), (''item'', PDict [(''kind'', PStr ''path''), (''name'', PStr n)])]"

definition demo_union :: pyval where
  "demo_union = PDict [(''kind'', PStr ''union''), (''name'', PStr ''Outcome''),
     (''variants'', PList [
       PDict [(''name'', PStr ''OK''), (''fields'', PList [
          PDict [(''name'', PStr ''count''), (''type'', PDict [(''kind'', PStr ''primitive''), (''name'', PStr ''Int'')])]])],
       PDict [(''name'', PStr ''FAIL''), (''fields'', PList [])]])]"

lemma demo_facts:
  "validate_type_descriptor (demo_paths ''Report'') = Inr ()" "sane (demo_paths ''Report'')"
  "validate_type_descriptor (demo_paths ''std::io/Report'') = Inr ()" "sane (demo_paths ''std::io/Report'')"
  "validate_type_descriptor demo_union = Inr ()" "sane demo_union"
  "descriptors_match (demo_paths ''Report'') (demo_paths ''std::io/Report'') = Inr True"
  "coerce_value (PTuple [PStr ''a'', PStr ''b'']) (demo_paths ''Report'') = Inr (PList [PStr ''a'', PStr ''b''])"
  "coerce_value (PDict [(''count'', PInt 3), (''variant'', PStr ''OK'')]) demo_union =
     Inr (PDict [(''variant'', PStr ''OK''), (''count'', PInt 3)])"
  by code_simp+

theorem validation_characterises_types_witness:
  "(\<exists>t. desc_ty demo_union t) \<and> validate_type_descriptor (PDict [(''kind'', PStr ''path''), (''name'', PStr ''Report'')]) = Inr ()"
proof
  show "\<exists>t. desc_ty demo_union t" using validation_characterises_types [of demo_union] demo_facts(5,6) by blast
  have "desc_ty (PDict [(''kind'', PStr ''path''), (''name'', PStr ''Report'')]) TPath" by (simp add: desc_ty_dict dget_def nonempty_str_def)
  then show "validate_type_descriptor (PDict [(''kind'', PStr ''path''), (''name'', PStr ''Report'')]) = Inr ()"
    using validation_characterises_types by blast
qed

theorem descriptors_match_equivalence_witness:
  "descriptors_match (demo_paths ''std::io/Report'') (demo_paths ''Report'') = Inr True
   \<and> descriptors_match demo_union demo_union = Inr True"
  using descriptors_match_equivalence [OF demo_facts(1,2) demo_facts(3,4) demo_facts(5,6)]
    descriptors_match_equivalence [OF demo_facts(5,6) demo_facts(1,2) demo_facts(3,4)] demo_facts(7)
  by auto

theorem matching_descriptors_coerce_alike_witness:
  "coerce_value (PTuple [PStr ''a'', PStr ''b'']) (demo_paths ''std::io/Report'') = Inr (PList [PStr ''a'', PStr ''b''])"
  using matching_descriptors_coerce_alike [OF demo_facts(1-4,7)] demo_facts(8) by simp

theorem coerce_value_idempotent_witness:
  "coerce_value (PDict [(''variant'', PStr ''OK''), (''count'', PInt 3)]) demo_union =
     Inr (PDict [(''variant'', PStr ''OK''), (''count'', PInt 3)])"
  by (rule coerce_value_idempotent [OF demo_facts(5,6,9)])

end
