(* ===== verification/PathJoin.thy ===== *)
theory PathJoin
  imports DescriptorMatch
begin

text \<open>
  Joining a child path under a fixed root (\<open>path_join_under\<close> of \<open>workflow/pure_expr.py\<close>),
  over a model of the parts of \<open>pathlib.PurePosixPath\<close> the source uses: parsing drops empty
  and \<open>.\<close> segments, \<open>str\<close> prints the segments back, \<open>joinpath\<close> appends them and
  \<open>relative_to\<close> compares prefixes. The main fact is containment: an accepted child yields
  exactly the root's segments followed by the child's, none of them empty, \<open>.\<close> or \<open>..\<close>.
\<close>

section \<open>PurePosixPath\<close>

fun split_on :: "char \<Rightarrow> string \<Rightarrow> string list" where
  "split_on c [] = [[]]"
| "split_on c (x # xs) =
     (if x = c then [] # split_on c xs
      else (case split_on c xs of [] \<Rightarrow> [[x]] | s # ss \<Rightarrow> (x # s) # ss))"

record posix_path =
  path_root :: string
  path_parts :: "string list"

definition PurePosixPath :: "string \<Rightarrow> posix_path" where
  "PurePosixPath s =
     \<lparr>path_root = (if take 1 s \<noteq> ''/'' then ''''
                   else if take 2 s = ''//'' \<and> take 3 s \<noteq> ''///'' then ''//'' else ''/''),
      path_parts = filter (\<lambda>p. p \<noteq> '''' \<and> p \<noteq> ''.'') (split_on CHR ''/'' s)\<rparr>"

definition path_str :: "posix_path \<Rightarrow> string" where
  "path_str p =
     (if path_root p = '''' \<and> path_parts p = [] then ''.''
      else path_root p @ join ''/'' (path_parts p))"

definition is_absolute :: "posix_path \<Rightarrow> bool" where
  "is_absolute p = (path_root p \<noteq> '''')"

definition joinpath :: "posix_path \<Rightarrow> posix_path \<Rightarrow> posix_path" where
  "joinpath p q = (if is_absolute q then q else p\<lparr>path_parts := path_parts p @ path_parts q\<rparr>)"

definition relative_to :: "posix_path \<Rightarrow> posix_path \<Rightarrow> exc + posix_path" where
  "relative_to p q =
     (if path_root p = path_root q \<and> take (length (path_parts q)) (path_parts p) = path_parts q
      then Inr \<lparr>path_root = '''', path_parts = drop (length (path_parts q)) (path_parts p)\<rparr>
      else Inl ValueError)"

section \<open>Validated roots and joins\<close>

abbreviation root_invalid :: exc where
  "root_invalid \<equiv> PureExprEvaluationError ''path_join_under_root_invalid''"

abbreviation child_invalid :: exc where
  "child_invalid \<equiv> PureExprEvaluationError ''path_join_under_child_invalid''"

abbreviation join_escape :: exc where
  "join_escape \<equiv> PureExprEvaluationError ''path_join_under_escape''"

abbreviation join_type_invalid :: exc where
  "join_type_invalid \<equiv> PureExprEvaluationError ''path_join_under_type_invalid''"

definition validated_join_root :: "pyval \<Rightarrow> exc + posix_path" where
  "validated_join_root root =
     (case root of PStr s \<Rightarrow>
        if s = '''' \<or> s = ''.'' then Inl root_invalid
        else let path = PurePosixPath s in
          if is_absolute path \<or> path_str path \<noteq> s
             \<or> list_ex (\<lambda>segment. segment \<in> {'''', ''.'', ''..''}) (split_on CHR ''/'' s)
          then Inl root_invalid
          else Inr path
      | _ \<Rightarrow> Inl root_invalid)"

definition join_relative_child_under_root :: "posix_path \<Rightarrow> string \<Rightarrow> exc + string" where
  "join_relative_child_under_root root child =
     (if child = '''' \<or> child = ''.'' then Inl child_invalid
      else let path = PurePosixPath child; raw_segments = split_on CHR ''/'' child in
        if is_absolute path \<or> ''..'' \<in> set raw_segments then Inl join_escape
        else if path_str path \<noteq> child \<or> list_ex (\<lambda>segment. segment \<in> {'''', ''.''}) raw_segments
        then Inl child_invalid
        else let result = joinpath root path in
          (case relative_to result root of
             Inl _ \<Rightarrow> Inl join_escape
           | Inr _ \<Rightarrow> Inr (path_str result)))"

definition validate_path_join_descriptor :: "pyval \<Rightarrow> exc + unit" where
  "validate_path_join_descriptor d =
     (case d of PDict kv \<Rightarrow>
        if dget kv ''kind'' \<noteq> PStr ''path'' \<or> \<not> nonempty_str (dget kv ''name'')
        then Inl join_type_invalid
        else rbind (validate_type_descriptor d) (\<lambda>_.
          rbind (require (case dget kv ''must_exist_target'' of PBool _ \<Rightarrow> True | _ \<Rightarrow> False) join_type_invalid) (\<lambda>_.
          rbind (validated_join_root (dget kv ''under'')) (\<lambda>_. Inr ())))
      | _ \<Rightarrow> Inl join_type_invalid)"

section \<open>Segments\<close>

lemma split_on_nonempty [simp]: "split_on c s \<noteq> []"
  by (cases s) (auto split: list.splits)

lemma split_on_hd: "take 1 s = [c] \<Longrightarrow> [] \<in> set (split_on c s)"
  by (cases s) auto

lemma join_split_on [simp]: "join [c] (split_on c s) = s"
proof (induction s)
  case Nil
  then show ?case by simp
next
  case (Cons x xs)
  then show ?case
    by (cases "split_on c xs") (auto split: list.splits)
qed

lemma split_on_no_sep: "c \<notin> set s \<Longrightarrow> split_on c s = [s]"
  by (induction s) auto

lemma split_on_append: "split_on c (s @ c # t) = split_on c s @ split_on c t"
proof (induction s)
  case (Cons x s)
  then show ?case by (cases "split_on c s") (auto split: list.splits)
qed simp

lemma join_append:
  "xs \<noteq> [] \<Longrightarrow> ys \<noteq> [] \<Longrightarrow> join sep (xs @ ys) = join sep xs @ sep @ join sep ys"
  by (cases xs; cases ys) auto

definition plain_segments :: "string list \<Rightarrow> bool" where
  "plain_segments ss = (ss \<noteq> [] \<and> list_all (\<lambda>s. s \<notin> {'''', ''.'', ''..''}) ss)"

lemma segment_in_iff:
  "list_ex (\<lambda>s. s \<in> {a, b}) ss \<longleftrightarrow> a \<in> set ss \<or> b \<in> set ss"
  "list_ex (\<lambda>s. s \<in> {a, b, c}) ss \<longleftrightarrow> a \<in> set ss \<or> b \<in> set ss \<or> c \<in> set ss"
  "list_all (\<lambda>s. s \<notin> {a, b, c}) ss \<longleftrightarrow> a \<notin> set ss \<and> b \<notin> set ss \<and> c \<notin> set ss"
  unfolding list_ex_iff list_all_iff by blast+

lemma plain_segments_iff:
  "plain_segments (split_on c s) \<longleftrightarrow> '''' \<notin> set (split_on c s) \<and> ''.'' \<notin> set (split_on c s) \<and> ''..'' \<notin> set (split_on c s)"
  by (simp only: plain_segments_def segment_in_iff split_on_nonempty simp_thms)

lemma plain_child:
  assumes "plain_segments (split_on CHR ''/'' child)"
  shows "child \<noteq> ''''" "child \<noteq> ''.''" "take 1 child \<noteq> ''/''"
proof -
  show "child \<noteq> ''''" "child \<noteq> ''.''" using assms by (auto simp: plain_segments_def)
  show "take 1 child \<noteq> ''/''" using assms split_on_hd unfolding plain_segments_iff by blast
qed

lemma is_absolute_parse: "is_absolute (PurePosixPath s) \<longleftrightarrow> take 1 s = ''/''"
  by (simp add: is_absolute_def PurePosixPath_def)

lemma PurePosixPath_plain:
  assumes "plain_segments (split_on CHR ''/'' s)"
  shows "PurePosixPath s = \<lparr>path_root = '''', path_parts = split_on CHR ''/'' s\<rparr>"
proof -
  have "filter (\<lambda>p. p \<noteq> '''' \<and> p \<noteq> ''.'') (split_on CHR ''/'' s) = split_on CHR ''/'' s"
    using assms unfolding plain_segments_def by (intro filter_True) (auto simp: list_all_iff)
  moreover have "take 1 s \<noteq> ''/''"
    using assms split_on_hd [of s "CHR ''/''"] unfolding plain_segments_def by (auto simp: list_all_iff)
  ultimately show ?thesis by (simp add: PurePosixPath_def)
qed

lemma path_str_plain:
  "plain_segments (split_on CHR ''/'' s) \<Longrightarrow> path_str (PurePosixPath s) = s"
  by (simp add: PurePosixPath_plain path_str_def)

lemma validated_join_root_iff:
  "validated_join_root root = Inr p \<longleftrightarrow>
     (\<exists>s. root = PStr s \<and> plain_segments (split_on CHR ''/'' s)
        \<and> p = \<lparr>path_root = '''', path_parts = split_on CHR ''/'' s\<rparr>)" (is "?L \<longleftrightarrow> ?R")
proof
  assume ?L
  then obtain s where s: "root = PStr s" "p = PurePosixPath s"
      "\<not> list_ex (\<lambda>segment. segment \<in> {'''', ''.'', ''..''}) (split_on CHR ''/'' s)"
    by (cases root) (auto simp: validated_join_root_def Let_def split: if_splits)
  then have "plain_segments (split_on CHR ''/'' s)"
    by (simp add: plain_segments_def list_all_iff list_ex_iff)
  with s PurePosixPath_plain show ?R by blast
next
  assume ?R
  then obtain s where s: "root = PStr s" "plain_segments (split_on CHR ''/'' s)"
      "p = \<lparr>path_root = '''', path_parts = split_on CHR ''/'' s\<rparr>" by blast
  then have "s \<noteq> ''''" "s \<noteq> ''.''" by (auto simp: plain_segments_def)
  moreover have "\<not> list_ex (\<lambda>segment. segment \<in> {'''', ''.'', ''..''}) (split_on CHR ''/'' s)"
    using s(2) by (simp add: plain_segments_def list_all_iff list_ex_iff)
  ultimately show ?L
    using s path_str_plain [OF s(2)] PurePosixPath_plain [OF s(2)]
    by (simp add: validated_join_root_def is_absolute_def)
qed

lemma join_child_Inr_iff:
  assumes "validated_join_root root = Inr p"
  shows "join_relative_child_under_root p child = Inr r \<longleftrightarrow>
    plain_segments (split_on CHR ''/'' child) \<and> r = str_of root @ ''/'' @ child" (is "?L \<longleftrightarrow> ?R")
proof -
  obtain s where s: "root = PStr s" "plain_segments (split_on CHR ''/'' s)"
      "p = \<lparr>path_root = '''', path_parts = split_on CHR ''/'' s\<rparr>"
    using assms validated_join_root_iff by blast
  have out: "path_str (joinpath p (PurePosixPath child)) = s @ ''/'' @ child"
    if "plain_segments (split_on CHR ''/'' child)"
    using s that join_append [of "split_on CHR ''/'' s" "split_on CHR ''/'' child" "''/''"]
    by (simp add: PurePosixPath_plain joinpath_def is_absolute_def path_str_def)
  have rel: "\<exists>q. relative_to (joinpath p (PurePosixPath child)) p = Inr q"
    if "plain_segments (split_on CHR ''/'' child)"
    using s that by (simp add: PurePosixPath_plain joinpath_def is_absolute_def relative_to_def)
  show ?thesis
  proof
    assume L: ?L
    then have plain: "plain_segments (split_on CHR ''/'' child)"
      by (auto simp: join_relative_child_under_root_def Let_def plain_segments_def list_all_iff list_ex_iff
          split: if_splits)
    with L out [OF plain] rel [OF plain] s show ?R
      by (auto simp: join_relative_child_under_root_def Let_def split: if_splits)
  next
    assume R: ?R
    then have "child \<noteq> ''''" "child \<noteq> ''.''" "''..'' \<notin> set (split_on CHR ''/'' child)"
        "\<not> list_ex (\<lambda>segment. segment \<in> {'''', ''.''}) (split_on CHR ''/'' child)"
      using plain_child [of child] unfolding plain_segments_iff segment_in_iff by blast+
    moreover have "\<not> is_absolute (PurePosixPath child)" "path_str (PurePosixPath child) = child"
      using R plain_child(3) path_str_plain unfolding is_absolute_parse by blast+
    moreover obtain q where "relative_to (joinpath p (PurePosixPath child)) p = Inr q" using R rel by blast
    ultimately show ?L using R s(1) out
      by (simp only: join_relative_child_under_root_def Let_def if_False simp_thms sum.case str_simps)
  qed
qed

lemma join_child_Inl:
  "join_relative_child_under_root p child = Inl e \<Longrightarrow> e = child_invalid \<or> e = join_escape"
  by (auto simp: join_relative_child_under_root_def Let_def split: if_splits sum.splits)

section \<open>Properties\<close>

text \<open>
  C2. Containment of \<open>path_join_under\<close>: below a validated root, a child is accepted exactly when
  all of its \<open>/\<close>-separated segments are proper names (not empty, \<open>.\<close> or \<open>..\<close>), and then the
  result is the root's segments followed by the child's, again all proper names.
\<close>

theorem path_join_under_contained:
  assumes "validated_join_root root = Inr p" "join_relative_child_under_root p child = Inr r"
  shows "split_on CHR ''/'' r = split_on CHR ''/'' (str_of root) @ split_on CHR ''/'' child
    \<and> list_all (\<lambda>s. s \<notin> {'''', ''.'', ''..''}) (split_on CHR ''/'' r)"
proof -
  from assms have r: "plain_segments (split_on CHR ''/'' child)" "r = str_of root @ ''/'' @ child"
    by (simp_all add: join_child_Inr_iff)
  moreover have "plain_segments (split_on CHR ''/'' (str_of root))"
    using assms(1) by (auto simp: validated_join_root_iff)
  moreover have "split_on CHR ''/'' r = split_on CHR ''/'' (str_of root) @ split_on CHR ''/'' child"
    using split_on_append [of "CHR ''/''"] r(2) by simp
  ultimately show ?thesis by (simp add: plain_segments_def)
qed

theorem path_join_under_contained_witness:
  "split_on CHR ''/'' ''artifacts/work/a/b.md''
     = split_on CHR ''/'' (str_of (PStr ''artifacts/work'')) @ split_on CHR ''/'' ''a/b.md''
   \<and> list_all (\<lambda>s. s \<notin> {'''', ''.'', ''..''}) (split_on CHR ''/'' ''artifacts/work/a/b.md'')"
  by (rule path_join_under_contained [of _ "PurePosixPath ''artifacts/work''"]) code_simp+

text \<open>
  Which exception an unacceptable child raises: \<open>path_join_under_escape\<close> exactly for absolute
  children and children with a \<open>..\<close> segment, \<open>path_join_under_child_invalid\<close> for every other
  child with an empty or \<open>.\<close> segment; the later \<open>relative_to\<close> guard never fires.
\<close>

theorem path_join_under_errors:
  assumes "validated_join_root root = Inr p"
  shows "join_relative_child_under_root p child =
    (if child = '''' \<or> child = ''.'' then Inl child_invalid
     else if take 1 child = ''/'' \<or> ''..'' \<in> set (split_on CHR ''/'' child) then Inl join_escape
     else if list_ex (\<lambda>s. s \<in> {'''', ''.''}) (split_on CHR ''/'' child) then Inl child_invalid
     else Inr (str_of root @ ''/'' @ child))"
proof (cases "plain_segments (split_on CHR ''/'' child)")
  case True
  with join_child_Inr_iff [OF assms] have "join_relative_child_under_root p child = Inr (str_of root @ ''/'' @ child)"
    by blast
  with True plain_child [OF True] show ?thesis
    unfolding plain_segments_iff segment_in_iff by (simp only: if_False simp_thms)
next
  case False
  then show ?thesis
    unfolding plain_segments_iff join_relative_child_under_root_def Let_def is_absolute_parse segment_in_iff
    by - (rule if_cong [OF refl refl], rule if_cong [OF refl refl], metis)
qed

theorem path_join_under_errors_witness:
  "join_relative_child_under_root (PurePosixPath ''out'') ''a/../b'' = Inl join_escape"
proof -
  have "validated_join_root (PStr ''out'') = Inr (PurePosixPath ''out'')" by code_simp
  from path_join_under_errors [OF this, of "''a/../b''"] show ?thesis by simp
qed

end
