(* ===== verification/PureExpr.thy ===== *)
theory PureExpr
  imports PathJoin
begin

text \<open>
  Validation of pure-expression payloads (\<open>workflow/pure_expr.py\<close>): the operator catalog, the
  structural check of every node (\<open>_validate_expr_node\<close>), static typing
  (\<open>_derive_static_expr_type\<close> with its record and operator helpers) and the payload check
  \<open>validate_pure_expr_payload\<close>. A node is a raw mapping; the branch of each node kind is a
  definition of its own that takes the recursive call as an argument, and the recursive
  function dispatches on \<open>kind\<close> as the source does.
\<close>

section \<open>Catalog\<close>

record PureOperatorSpec =
  op_name :: string
  op_group :: string
  min_arity :: nat
  max_arity :: "nat option"
  min_schema_version :: int

definition operator_spec ::
    "string \<Rightarrow> string \<Rightarrow> nat \<Rightarrow> nat option \<Rightarrow> int \<Rightarrow> string \<times> PureOperatorSpec" where
  "operator_spec n g lo hi sv =
     (n, \<lparr>op_name = n, op_group = g, min_arity = lo, max_arity = hi, min_schema_version = sv\<rparr>)"

definition PURE_EXPR_OPERATOR_CATALOG :: "(string \<times> PureOperatorSpec) list" where
  "PURE_EXPR_OPERATOR_CATALOG =
     [operator_spec ''='' ''equality'' 2 (Some 2) 1,
      operator_spec ''!='' ''equality'' 2 (Some 2) 1,
      operator_spec ''<'' ''ordering'' 2 (Some 2) 1,
      operator_spec ''<='' ''ordering'' 2 (Some 2) 1,
      operator_spec ''>'' ''ordering'' 2 (Some 2) 1,
      operator_spec ''>='' ''ordering'' 2 (Some 2) 1,
      operator_spec ''and'' ''boolean'' 2 None 1,
      operator_spec ''or'' ''boolean'' 2 None 1,
      operator_spec ''not'' ''boolean'' 1 (Some 1) 1,
      operator_spec ''+'' ''arithmetic'' 2 None 1,
      operator_spec ''-'' ''arithmetic'' 2 (Some 2) 1,
      operator_spec ''*'' ''arithmetic'' 2 None 1,
      operator_spec ''min'' ''arithmetic'' 2 None 1,
      operator_spec ''max'' ''arithmetic'' 2 None 1,
      operator_spec ''string/concat'' ''string'' 2 None 1,
      operator_spec ''string/empty?'' ''string'' 1 (Some 1) 1,
      operator_spec ''symbol/name'' ''string'' 1 (Some 1) 1,
      operator_spec ''some?'' ''option'' 1 (Some 1) 1,
      operator_spec ''or-else'' ''option'' 2 (Some 2) 1,
      operator_spec ''record-update'' ''record'' 2 None 1,
      operator_spec ''list/empty?'' ''list'' 1 (Some 1) 2,
      operator_spec ''list/head'' ''list'' 1 (Some 1) 2,
      operator_spec ''list/rest'' ''list'' 1 (Some 1) 2,
      operator_spec ''list/append'' ''list'' 2 (Some 2) 2,
      operator_spec ''list/length'' ''list'' 1 (Some 1) 2]"

definition LIST_OPERATOR_NAMES :: "string list" where
  "LIST_OPERATOR_NAMES = [''list/empty?'', ''list/head'', ''list/rest'', ''list/append'', ''list/length'']"

definition SCHEMA_1_NODE_KINDS :: "string list" where
  "SCHEMA_1_NODE_KINDS =
     [''literal'', ''binding'', ''field_access'', ''if'', ''record'', ''union'', ''record_update'', ''op'']"

definition SCHEMA_2_NODE_KINDS :: "string list" where
  "SCHEMA_2_NODE_KINDS =
     SCHEMA_1_NODE_KINDS @ [''list'', ''list_map'', ''path_join_under'', ''list_nonempty_head'']"

definition PURE_EXPR_NODE_KINDS_BY_SCHEMA :: "int \<Rightarrow> exc + string list" where
  "PURE_EXPR_NODE_KINDS_BY_SCHEMA v =
     (if v = 1 then Inr SCHEMA_1_NODE_KINDS
      else if v = 2 then Inr SCHEMA_2_NODE_KINDS else Inl KeyError)"

abbreviation schema_mismatch :: exc where
  "schema_mismatch \<equiv> PureExprEvaluationError ''pure_expr_schema_mismatch''"

abbreviation binder_invalid :: exc where
  "binder_invalid \<equiv> PureExprEvaluationError ''list_map_binder_invalid''"

abbreviation operator_unsupported :: exc where
  "operator_unsupported \<equiv> PureExprEvaluationError ''pure_expr_operator_unsupported''"

section \<open>Structural validation of nodes\<close>

text \<open>The running count of the loops over children; \<open>sel\<close> checks an element and yields its child.\<close>

definition count_children ::
    "(pyval \<Rightarrow> exc + int) \<Rightarrow> (pyval \<Rightarrow> exc + pyval) \<Rightarrow> pyval list \<Rightarrow> int \<Rightarrow> exc + int" where
  "count_children vc sel items count =
     fold_r (\<lambda>x c. rbind (sel x) (\<lambda>child. rbind (vc child) (\<lambda>n. Inr (c + n)))) items count"

definition field_value :: "pyval \<Rightarrow> exc + pyval" where
  "field_value x = (case x of PDict fkv \<Rightarrow> Inr (dget fkv ''value'') | _ \<Rightarrow> Inl payload_invalid)"

definition update_field_value :: "pyval \<Rightarrow> exc + pyval" where
  "update_field_value x =
     (case x of PDict fkv \<Rightarrow>
        if \<not> nonempty_str (dget fkv ''name'') then Inl payload_invalid else Inr (dget fkv ''value'')
      | _ \<Rightarrow> Inl payload_invalid)"

definition validate_literal_node :: "pydict \<Rightarrow> exc + int" where
  "validate_literal_node kv =
     rbind (validate_type_descriptor (dget kv ''type'')) (\<lambda>_.
     rbind (coerce_value (dget kv ''value'') (dget kv ''type'')) (\<lambda>_. Inr 1))"

definition validate_binding_node :: "pydict \<Rightarrow> pydict \<Rightarrow> pydict \<Rightarrow> exc + int" where
  "validate_binding_node bindings locals kv =
     (if \<not> nonempty_str (dget kv ''name'') then Inl payload_invalid
      else if map_of bindings (str_of (dget kv ''name'')) = None
            \<and> map_of locals (str_of (dget kv ''name'')) = None then Inl payload_invalid
      else Inr 1)"

definition validate_field_access_node :: "(pyval \<Rightarrow> exc + int) \<Rightarrow> pydict \<Rightarrow> exc + int" where
  "validate_field_access_node vc kv =
     (if \<not> nonempty_str (dget kv ''field'') then Inl payload_invalid
      else rbind (vc (dget kv ''base'')) (\<lambda>n. Inr (1 + n)))"

definition validate_if_node :: "(pyval \<Rightarrow> exc + int) \<Rightarrow> pydict \<Rightarrow> exc + int" where
  "validate_if_node vc kv =
     rbind (vc (dget kv ''condition'')) (\<lambda>a. rbind (vc (dget kv ''then'')) (\<lambda>b.
     rbind (vc (dget kv ''else'')) (\<lambda>c. Inr (1 + a + b + c))))"

definition validate_record_node :: "(pyval \<Rightarrow> exc + int) \<Rightarrow> pydict \<Rightarrow> exc + int" where
  "validate_record_node vc kv =
     rbind (validate_type_descriptor (dget kv ''type'')) (\<lambda>_.
     rbind (descriptor_kind (dget kv ''type'')) (\<lambda>k.
     rbind (require (k = ''record'') payload_invalid) (\<lambda>_.
     rbind (require (is_sequence (dget kv ''fields'')) payload_invalid) (\<lambda>_.
     count_children vc field_value (seq_items (dget kv ''fields'')) 1))))"

definition validate_union_node :: "(pyval \<Rightarrow> exc + int) \<Rightarrow> pydict \<Rightarrow> exc + int" where
  "validate_union_node vc kv =
     rbind (validate_type_descriptor (dget kv ''type'')) (\<lambda>_.
     rbind (descriptor_kind (dget kv ''type'')) (\<lambda>k.
     rbind (require (k \<in> {''union'', ''variant_case''}) payload_invalid) (\<lambda>_.
     rbind (require (nonempty_str (dget kv ''variant'')) payload_invalid) (\<lambda>_.
     rbind (require (is_sequence (dget kv ''fields'')) payload_invalid) (\<lambda>_.
     count_children vc field_value (seq_items (dget kv ''fields'')) 1)))))"

definition validate_record_update_node :: "(pyval \<Rightarrow> exc + int) \<Rightarrow> pydict \<Rightarrow> exc + int" where
  "validate_record_update_node vc kv =
     rbind (validate_type_descriptor (dget kv ''record_type'')) (\<lambda>_.
     rbind (descriptor_kind (dget kv ''record_type'')) (\<lambda>k.
     rbind (require (k = ''record'') payload_invalid) (\<lambda>_.
     rbind (vc (dget kv ''base'')) (\<lambda>n.
     rbind (require (is_sequence (dget kv ''fields'') \<and> seq_items (dget kv ''fields'') \<noteq> []) payload_invalid) (\<lambda>_.
     count_children vc update_field_value (seq_items (dget kv ''fields'')) (1 + n))))))"

definition validate_list_node :: "(pyval \<Rightarrow> exc + int) \<Rightarrow> pydict \<Rightarrow> exc + int" where
  "validate_list_node vc kv =
     rbind (validate_type_descriptor (dget kv ''element_type'')) (\<lambda>_.
     rbind (require (is_sequence (dget kv ''items'')) payload_invalid) (\<lambda>_.
     count_children vc Inr (seq_items (dget kv ''items'')) 1))"

definition validate_list_map_node ::
    "(pydict \<Rightarrow> pyval \<Rightarrow> exc + int) \<Rightarrow> pydict \<Rightarrow> pydict \<Rightarrow> pydict \<Rightarrow> exc + int" where
  "validate_list_map_node vc bindings locals kv =
     (case dget kv ''binder'' of PDict bkv \<Rightarrow>
        if fst ` set bkv \<noteq> {''name'', ''type''} then Inl binder_invalid
        else if \<not> nonempty_str (dget bkv ''name'')
             \<or> take 2 (str_of (dget bkv ''name'')) = ''__''
             \<or> map_of bindings (str_of (dget bkv ''name'')) \<noteq> None
             \<or> map_of locals (str_of (dget bkv ''name'')) \<noteq> None then Inl binder_invalid
        else
          rbind (validate_type_descriptor (dget bkv ''type'')) (\<lambda>_.
          rbind (validate_type_descriptor (dget kv ''result_element_type'')) (\<lambda>_.
          rbind (vc locals (dget kv ''source'')) (\<lambda>a.
          rbind (vc (AList.update (str_of (dget bkv ''name'')) (dget bkv ''type'') locals) (dget kv ''body'')) (\<lambda>b.
          Inr (1 + a + b)))))
      | _ \<Rightarrow> Inl binder_invalid)"

definition validate_path_join_node :: "(pyval \<Rightarrow> exc + int) \<Rightarrow> pydict \<Rightarrow> exc + int" where
  "validate_path_join_node vc kv =
     rbind (validate_path_join_descriptor (dget kv ''path_type'')) (\<lambda>_.
     rbind (vc (dget kv ''child'')) (\<lambda>n. Inr (1 + n)))"

definition validate_nonempty_head_node :: "(pyval \<Rightarrow> exc + int) \<Rightarrow> pydict \<Rightarrow> exc + int" where
  "validate_nonempty_head_node vc kv =
     (if dget kv ''compiler_owned'' \<noteq> PBool True
         \<or> dget kv ''invariant_diagnostic'' \<noteq> PStr ''list_nonempty_invariant_broken''
      then Inl payload_invalid
      else rbind (validate_type_descriptor (dget kv ''element_type'')) (\<lambda>_.
        rbind (vc (dget kv ''source'')) (\<lambda>n. Inr (1 + n))))"

definition validate_op_node :: "(pyval \<Rightarrow> exc + int) \<Rightarrow> int \<Rightarrow> pydict \<Rightarrow> exc + int" where
  "validate_op_node vc schema kv =
     (if \<not> nonempty_str (dget kv ''operator'') then Inl payload_invalid
      else (case map_of PURE_EXPR_OPERATOR_CATALOG (str_of (dget kv ''operator'')) of
          None \<Rightarrow> Inl operator_unsupported
        | Some spec \<Rightarrow>
            if schema < min_schema_version spec then Inl schema_mismatch
            else if \<not> is_sequence (dget kv ''args'') then Inl payload_invalid
            else let arity = length (seq_items (dget kv ''args'')) in
              if arity < min_arity spec
                 \<or> (case max_arity spec of None \<Rightarrow> False | Some hi \<Rightarrow> arity > hi)
              then Inl payload_invalid
              else count_children vc Inr (seq_items (dget kv ''args'')) 1))"

text \<open>Each branch calls itself on proper parts of the node only.\<close>

lemma count_children_cong [fundef_cong]:
  assumes "items = items'" "count = count'" "sel = sel'"
    and "\<And>x child. x \<in> set items' \<Longrightarrow> sel' x = Inr child \<Longrightarrow> vc child = vc' child"
  shows "count_children vc sel items count = count_children vc' sel' items' count'"
  unfolding count_children_def assms(1-3)
  by (intro fold_r_cong refl rbind_cong) (simp add: assms(4))

lemma field_value_size: "field_value x = Inr w \<Longrightarrow> size w < size x"
  by (cases x) (auto simp: field_value_def size_dget simp del: pyval.size)

lemma update_field_value_size: "update_field_value x = Inr w \<Longrightarrow> size w < size x"
  by (cases x) (auto simp: update_field_value_def size_dget simp del: pyval.size split: if_splits)

lemma children_size:
  "x \<in> set (seq_items (dget kv k)) \<Longrightarrow> size x < size (PDict kv)"
  "x \<in> set (seq_items (dget kv k)) \<Longrightarrow> field_value x = Inr w \<Longrightarrow> size w < size (PDict kv)"
  "x \<in> set (seq_items (dget kv k)) \<Longrightarrow> update_field_value x = Inr w \<Longrightarrow> size w < size (PDict kv)"
  using size_seq_dget [of x kv k] field_value_size [of x w] update_field_value_size [of x w] by linarith+

lemma node_cong:
  assumes "kv = kv'" and vc: "\<And>x. size x < size (PDict kv') \<Longrightarrow> vc x = vc' x"
  shows validate_field_access_cong [fundef_cong]: "validate_field_access_node vc kv = validate_field_access_node vc' kv'"
    and validate_if_cong [fundef_cong]: "validate_if_node vc kv = validate_if_node vc' kv'"
    and validate_record_cong [fundef_cong]: "validate_record_node vc kv = validate_record_node vc' kv'"
    and validate_union_cong [fundef_cong]: "validate_union_node vc kv = validate_union_node vc' kv'"
    and validate_record_update_cong [fundef_cong]: "validate_record_update_node vc kv = validate_record_update_node vc' kv'"
    and validate_list_cong [fundef_cong]: "validate_list_node vc kv = validate_list_node vc' kv'"
    and validate_path_join_cong [fundef_cong]: "validate_path_join_node vc kv = validate_path_join_node vc' kv'"
    and validate_nonempty_head_cong [fundef_cong]: "validate_nonempty_head_node vc kv = validate_nonempty_head_node vc' kv'"
    and validate_op_cong [fundef_cong]: "validate_op_node vc schema kv = validate_op_node vc' schema kv'"
proof -
  have d: "vc (dget kv' k) = vc' (dget kv' k)" for k using vc size_dget by blast
  have c: "count_children vc Inr (seq_items (dget kv' k)) n = count_children vc' Inr (seq_items (dget kv' k)) n"
    "count_children vc field_value (seq_items (dget kv' k)) n = count_children vc' field_value (seq_items (dget kv' k)) n"
    "count_children vc update_field_value (seq_items (dget kv' k)) n = count_children vc' update_field_value (seq_items (dget kv' k)) n"
    for k n
    by (rule count_children_cong [OF refl refl refl]; insert children_size [of _ kv' k]; simp add: vc del: pyval.size)+
  show "validate_field_access_node vc kv = validate_field_access_node vc' kv'"
    by (simp only: validate_field_access_node_def assms(1) d)
  show "validate_if_node vc kv = validate_if_node vc' kv'"
    by (simp only: validate_if_node_def assms(1) d)
  show "validate_record_node vc kv = validate_record_node vc' kv'"
    by (simp only: validate_record_node_def assms(1) c)
  show "validate_union_node vc kv = validate_union_node vc' kv'"
    by (simp only: validate_union_node_def assms(1) c)
  show "validate_record_update_node vc kv = validate_record_update_node vc' kv'"
    by (simp only: validate_record_update_node_def assms(1) c d)
  show "validate_list_node vc kv = validate_list_node vc' kv'"
    by (simp only: validate_list_node_def assms(1) c)
  show "validate_path_join_node vc kv = validate_path_join_node vc' kv'"
    by (simp only: validate_path_join_node_def assms(1) d)
  show "validate_nonempty_head_node vc kv = validate_nonempty_head_node vc' kv'"
    by (simp only: validate_nonempty_head_node_def assms(1) d)
  show "validate_op_node vc schema kv = validate_op_node vc' schema kv'"
    by (simp only: validate_op_node_def assms(1) c)
qed

lemma validate_list_map_cong [fundef_cong]:
  assumes "bindings = bindings'" "locals = locals'" "kv = kv'"
    and vc: "\<And>l x. size x < size (PDict kv') \<Longrightarrow> vc l x = vc' l x"
  shows "validate_list_map_node vc bindings locals kv = validate_list_map_node vc' bindings' locals' kv'"
proof -
  have "vc l (dget kv' k) = vc' l (dget kv' k)" for k l using vc size_dget by blast
  then show ?thesis by (simp only: validate_list_map_node_def assms(1-3))
qed

function validate_expr_node :: "pydict \<Rightarrow> int \<Rightarrow> pydict \<Rightarrow> pyval \<Rightarrow> exc + int" where
  "validate_expr_node bindings schema locals node =
     (case node of PDict kv \<Rightarrow>
        if \<not> nonempty_str (dget kv ''kind'') then Inl payload_invalid
        else let kind = str_of (dget kv ''kind'') in
          rbind (PURE_EXPR_NODE_KINDS_BY_SCHEMA schema) (\<lambda>kinds.
          if kind \<notin> set kinds then Inl schema_mismatch
          else if kind = ''literal'' then validate_literal_node kv
          else if kind = ''binding'' then validate_binding_node bindings locals kv
          else if kind = ''field_access'' then
            validate_field_access_node (\<lambda>x. validate_expr_node bindings schema locals x) kv
          else if kind = ''if'' then validate_if_node (\<lambda>x. validate_expr_node bindings schema locals x) kv
          else if kind = ''record'' then validate_record_node (\<lambda>x. validate_expr_node bindings schema locals x) kv
          else if kind = ''union'' then validate_union_node (\<lambda>x. validate_expr_node bindings schema locals x) kv
          else if kind = ''record_update'' then
            validate_record_update_node (\<lambda>x. validate_expr_node bindings schema locals x) kv
          else if kind = ''list'' then validate_list_node (\<lambda>x. validate_expr_node bindings schema locals x) kv
          else if kind = ''list_map'' then
            validate_list_map_node (\<lambda>l x. validate_expr_node bindings schema l x) bindings locals kv
          else if kind = ''path_join_under'' then
            validate_path_join_node (\<lambda>x. validate_expr_node bindings schema locals x) kv
          else if kind = ''list_nonempty_head'' then
            validate_nonempty_head_node (\<lambda>x. validate_expr_node bindings schema locals x) kv
          else if kind = ''op'' then validate_op_node (\<lambda>x. validate_expr_node bindings schema locals x) schema kv
          else Inl payload_invalid)
      | _ \<Rightarrow> Inl payload_invalid)"
  by pat_completeness auto
termination
  by (relation "measure (\<lambda>(b, s, l, x). size x)") (simp_all del: pyval.size)

declare validate_expr_node.simps [simp del]

section \<open>Descriptor predicates\<close>

definition is_primitive_type :: "pyval \<Rightarrow> string \<Rightarrow> exc + bool" where
  "is_primitive_type d n =
     rbind (descriptor_kind d) (\<lambda>k.
     if k = ''primitive'' then rbind (py_get d ''name'') (\<lambda>m. Inr (m = PStr n)) else Inr False)"

definition is_float_type :: "pyval \<Rightarrow> exc + bool" where
  "is_float_type d = is_primitive_type d ''Float''"

definition is_path_type :: "pyval \<Rightarrow> exc + bool" where
  "is_path_type d = rbind (descriptor_kind d) (\<lambda>k. Inr (k = ''path''))"

definition is_union_like :: "pyval \<Rightarrow> exc + bool" where
  "is_union_like d = rbind (descriptor_kind d) (\<lambda>k. Inr (k \<in> {''union'', ''variant_case''}))"

definition or_else_r :: "exc + bool \<Rightarrow> exc + bool \<Rightarrow> exc + bool" where
  "or_else_r a b = rbind a (\<lambda>x. if x then Inr True else b)"

definition type_supports_equality :: "pyval \<Rightarrow> exc + bool" where
  "type_supports_equality d =
     or_else_r (rbind (descriptor_kind d) (\<lambda>k. Inr (k = ''enum'')))
       (or_else_r (is_primitive_type d ''String'')
       (or_else_r (is_primitive_type d ''Int'')
       (or_else_r (is_primitive_type d ''Bool'') (is_primitive_type d ''Symbol''))))"

definition require_primitive :: "pyval \<Rightarrow> string \<Rightarrow> exc + unit" where
  "require_primitive d n = rbind (is_primitive_type d n) (\<lambda>b. require b type_mismatch)"

definition require_matching_descriptor :: "pyval \<Rightarrow> pyval \<Rightarrow> exc + unit" where
  "require_matching_descriptor observed expected =
     rbind (descriptors_match observed expected) (\<lambda>b. require b type_mismatch)"

definition bool_type :: pyval where
  "bool_type = PDict [(''kind'', PStr ''primitive''), (''name'', PStr ''Bool'')]"

definition int_type :: pyval where
  "int_type = PDict [(''kind'', PStr ''primitive''), (''name'', PStr ''Int'')]"

definition string_type :: pyval where
  "string_type = PDict [(''kind'', PStr ''primitive''), (''name'', PStr ''String'')]"

definition list_of :: "pyval \<Rightarrow> pyval" where
  "list_of t = PDict [(''kind'', PStr ''list''), (''item'', t)]"

definition optional_of :: "pyval \<Rightarrow> pyval" where
  "optional_of t = PDict [(''kind'', PStr ''optional''), (''item'', t)]"

definition enum_of :: "pyval \<Rightarrow> pyval list \<Rightarrow> pyval" where
  "enum_of n xs = PDict [(''kind'', PStr ''enum''), (''name'', n), (''allowed'', PList xs)]"

fun first_field_type :: "pyval list \<Rightarrow> string \<Rightarrow> exc + pyval option" where
  "first_field_type [] f = Inr None"
| "first_field_type (x # xs) f =
     rbind (py_item x ''name'') (\<lambda>n.
     if py_eq n (PStr f) then rbind (py_item x ''type'') (\<lambda>t. Inr (Some t))
     else first_field_type xs f)"

definition field_type :: "pyval \<Rightarrow> string \<Rightarrow> exc + pyval" where
  "field_type d f =
     rbind (descriptor_kind d) (\<lambda>kind.
     if kind = ''record'' then
       rbind (py_item d ''fields'') (\<lambda>fs. rbind (py_iter fs) (\<lambda>fields.
       rbind (first_field_type fields f) (\<lambda>r.
       (case r of Some t \<Rightarrow> Inr t | None \<Rightarrow> Inl (PureExprEvaluationError ''record_field_unknown'')))))
     else if kind = ''variant_case'' then
       (if f = ''variant'' then
          rbind (py_item d ''union_name'') (\<lambda>n. rbind (py_item d ''variant'') (\<lambda>c. Inr (enum_of n [c])))
        else
          rbind (py_item d ''fields'') (\<lambda>fs. rbind (py_iter fs) (\<lambda>fields.
          rbind (first_field_type fields f) (\<lambda>r.
          (case r of Some t \<Rightarrow> Inr t | None \<Rightarrow> rbind (py_item d ''variant'') (\<lambda>_. Inl type_mismatch))))))
     else if kind = ''union'' then
       (if f = ''variant'' then
          rbind (py_item d ''name'') (\<lambda>n. rbind (py_item d ''variants'') (\<lambda>vs. rbind (py_iter vs) (\<lambda>variants.
          rbind (map_r (\<lambda>variant. py_item variant ''name'') variants) (\<lambda>names.
          Inr (enum_of n names)))))
        else Inl type_mismatch)
     else if kind = ''optional'' then Inl (PureExprEvaluationError ''pure_expr_optional_access_unproved'')
     else Inl type_mismatch)"

text \<open>\<open>{field["name"]: field["type"] for field in fields}\<close>; the last entry of a key counts.\<close>

definition field_lookup :: "pyval list \<Rightarrow> exc + (pyval \<times> pyval) list" where
  "field_lookup fds =
     map_r (\<lambda>field. rbind (py_item field ''name'') (\<lambda>n. rbind (py_item field ''type'') (\<lambda>t.
       rbind (require (hashable n) TypeError) (\<lambda>_. Inr (n, t))))) fds"

definition lookup_field :: "(pyval \<times> pyval) list \<Rightarrow> pyval \<Rightarrow> pyval option" where
  "lookup_field table n = map_of (rev table) n"

section \<open>Static types of operators\<close>

definition two_args :: "'a list \<Rightarrow> ('a \<Rightarrow> 'a \<Rightarrow> exc + 'b) \<Rightarrow> exc + 'b" where
  "two_args xs f = (case xs of [a, b] \<Rightarrow> f a b | _ \<Rightarrow> Inl ValueError)"

definition arg_at :: "'a list \<Rightarrow> nat \<Rightarrow> exc + 'a" where
  "arg_at xs i = (if i < length xs then Inr (xs ! i) else Inl IndexError)"

definition require_all :: "pyval list \<Rightarrow> string \<Rightarrow> exc + unit" where
  "require_all ts n = fold_r (\<lambda>t _. require_primitive t n) ts ()"

definition require_equality_types :: "pyval \<Rightarrow> pyval \<Rightarrow> exc + unit" where
  "require_equality_types l r =
     rbind (or_else_r (is_float_type l) (is_float_type r)) (\<lambda>b.
     if b then Inl (PureExprEvaluationError ''pure_expr_float_equality_forbidden'')
     else rbind (or_else_r (is_union_like l) (is_union_like r)) (\<lambda>b.
       if b then Inl (PureExprEvaluationError ''pure_expr_union_equality_forbidden'')
       else rbind (and_then (descriptors_match l r) (type_supports_equality l)) (\<lambda>b.
         require b type_mismatch)))"

definition require_ordering_types :: "pyval \<Rightarrow> pyval \<Rightarrow> exc + unit" where
  "require_ordering_types l r =
     rbind (require_matching_descriptor l r) (\<lambda>_.
     rbind (or_else_r (is_primitive_type l ''Int'') (is_primitive_type l ''Float'')) (\<lambda>b.
     require b type_mismatch))"

definition require_concat_types :: "pyval list \<Rightarrow> exc + unit" where
  "require_concat_types ts =
     fold_r (\<lambda>t _. rbind (is_path_type t) (\<lambda>b.
       if b then Inl (PureExprEvaluationError ''pure_expr_path_string_concat_forbidden'')
       else require_primitive t ''String'')) ts ()"

definition derive_list_operator_type :: "string \<Rightarrow> pyval list \<Rightarrow> exc + pyval" where
  "derive_list_operator_type operator ts =
     rbind (arg_at ts 0) (\<lambda>lt. rbind (descriptor_kind lt) (\<lambda>k.
     if k \<noteq> ''list'' then Inl type_mismatch
     else rbind (py_item lt ''item'') (\<lambda>it.
       if operator = ''list/append'' then
         rbind (arg_at ts 1) (\<lambda>a. rbind (require_matching_descriptor a it) (\<lambda>_. Inr lt))
       else if operator = ''list/head'' then Inr (optional_of it)
       else if operator = ''list/rest'' then Inr lt
       else if operator = ''list/empty?'' then Inr bool_type
       else Inr int_type)))"

definition derive_static_operator_type :: "string \<Rightarrow> pyval list \<Rightarrow> exc + pyval" where
  "derive_static_operator_type operator ts =
     (if operator \<in> {''='', ''!=''} then
        two_args ts (\<lambda>l r. rbind (require_equality_types l r) (\<lambda>_. Inr bool_type))
      else if operator \<in> {''<'', ''<='', ''>'', ''>=''} then
        two_args ts (\<lambda>l r. rbind (require_ordering_types l r) (\<lambda>_. Inr bool_type))
      else if operator \<in> {''and'', ''or''} then rbind (require_all ts ''Bool'') (\<lambda>_. Inr bool_type)
      else if operator = ''not'' then
        rbind (arg_at ts 0) (\<lambda>t. rbind (require_primitive t ''Bool'') (\<lambda>_. Inr bool_type))
      else if operator \<in> {''+'', ''-'', ''*'', ''min'', ''max''} then
        rbind (require_all ts ''Int'') (\<lambda>_. Inr int_type)
      else if operator = ''string/concat'' then rbind (require_concat_types ts) (\<lambda>_. Inr string_type)
      else if operator = ''string/empty?'' then
        rbind (arg_at ts 0) (\<lambda>t. rbind (require_primitive t ''String'') (\<lambda>_. Inr bool_type))
      else if operator = ''symbol/name'' then
        rbind (arg_at ts 0) (\<lambda>t. rbind (require_primitive t ''Symbol'') (\<lambda>_. Inr string_type))
      else if operator = ''some?'' then
        rbind (arg_at ts 0) (\<lambda>t. rbind (descriptor_kind t) (\<lambda>k.
        rbind (require (k = ''optional'') type_mismatch) (\<lambda>_. Inr bool_type)))
      else if operator = ''or-else'' then
        two_args ts (\<lambda>ot ft. rbind (descriptor_kind ot) (\<lambda>k.
        rbind (require (k = ''optional'') type_mismatch) (\<lambda>_.
        rbind (py_item ot ''item'') (\<lambda>it.
        rbind (require_matching_descriptor ft it) (\<lambda>_. Inr it)))))
      else if operator \<in> set LIST_OPERATOR_NAMES then derive_list_operator_type operator ts
      else Inl operator_unsupported)"

section \<open>Static types of nodes\<close>

text \<open>The table of authored fields by name; \<open>get\<close> reads an element's \<open>name\<close>.\<close>

definition authored_lookup :: "(pyval \<Rightarrow> exc + pyval) \<Rightarrow> pyval list \<Rightarrow> exc + pydict" where
  "authored_lookup get fds =
     fold_r (\<lambda>field table.
       rbind (get field) (\<lambda>n.
       if \<not> nonempty_str n then Inl payload_invalid
       else if map_of table (str_of n) \<noteq> None then Inl payload_invalid
       else Inr (table @ [(str_of n, field)]))) fds []"

definition extra_fields :: "pydict \<Rightarrow> pyval list \<Rightarrow> bool" where
  "extra_fields table names = list_ex (\<lambda>p. PStr (fst p) \<notin> set names) table"

definition derive_static_record_fields ::
    "(pyval \<Rightarrow> exc + pyval) \<Rightarrow> pyval \<Rightarrow> pyval list \<Rightarrow> exc + unit" where
  "derive_static_record_fields dc d authored_fields =
     rbind (authored_lookup (\<lambda>field. py_get field ''name'') authored_fields) (\<lambda>table.
     rbind (py_item d ''fields'') (\<lambda>fs. rbind (py_iter fs) (\<lambda>fields.
     rbind (fold_r (\<lambda>field names.
         rbind (py_item field ''name'') (\<lambda>n.
         (case field_of table n of
            None \<Rightarrow> Inl payload_invalid
          | Some authored \<Rightarrow>
              rbind (py_item authored ''value'') (\<lambda>e. rbind (dc e) (\<lambda>observed.
              rbind (py_item field ''type'') (\<lambda>expected.
              rbind (require_matching_descriptor observed expected) (\<lambda>_. Inr (n # names))))))))
       fields []) (\<lambda>names.
     if extra_fields table names then Inl payload_invalid else Inr ()))))"

definition record_payload_descriptor :: "string \<Rightarrow> pyval \<Rightarrow> pyval" where
  "record_payload_descriptor variant vf =
     PDict [(''kind'', PStr ''record''), (''name'', PStr (variant @ ''Payload'')), (''fields'', vf)]"

definition derive_binding_node :: "pydict \<Rightarrow> pydict \<Rightarrow> pyval \<Rightarrow> exc + pyval" where
  "derive_binding_node bindings locals node =
     rbind (py_item node ''name'') (\<lambda>n.
     (case field_of locals n of
        Some t \<Rightarrow> Inr t
      | None \<Rightarrow> (case field_of bindings n of
          None \<Rightarrow> Inl KeyError
        | Some spec \<Rightarrow> py_item spec ''type'')))"

definition derive_if_node :: "(pyval \<Rightarrow> exc + pyval) \<Rightarrow> pyval \<Rightarrow> exc + pyval" where
  "derive_if_node dc node =
     rbind (py_item node ''condition'') (\<lambda>c. rbind (dc c) (\<lambda>ct.
     rbind (require_primitive ct ''Bool'') (\<lambda>_.
     rbind (py_item node ''then'') (\<lambda>t. rbind (dc t) (\<lambda>tt.
     rbind (py_item node ''else'') (\<lambda>e. rbind (dc e) (\<lambda>et.
     rbind (require_matching_descriptor tt et) (\<lambda>_. Inr tt))))))))"

definition derive_record_node :: "(pyval \<Rightarrow> exc + pyval) \<Rightarrow> pyval \<Rightarrow> exc + pyval" where
  "derive_record_node dc node =
     rbind (py_item node ''type'') (\<lambda>d. rbind (py_item node ''fields'') (\<lambda>fs. rbind (py_iter fs) (\<lambda>authored.
     rbind (derive_static_record_fields dc d authored) (\<lambda>_. Inr d))))"

definition derive_union_node :: "(pyval \<Rightarrow> exc + pyval) \<Rightarrow> pyval \<Rightarrow> exc + pyval" where
  "derive_union_node dc node =
     rbind (py_item node ''type'') (\<lambda>d. rbind (py_item node ''variant'') (\<lambda>w.
     rbind (variant_descriptor d (str_of w)) (\<lambda>v. rbind (py_item v ''fields'') (\<lambda>vf.
     rbind (py_item node ''fields'') (\<lambda>fs. rbind (py_iter fs) (\<lambda>authored.
     rbind (derive_static_record_fields dc (record_payload_descriptor (str_of w) vf) authored) (\<lambda>_.
     Inr d)))))))"

definition derive_record_update_node :: "(pyval \<Rightarrow> exc + pyval) \<Rightarrow> pyval \<Rightarrow> exc + pyval" where
  "derive_record_update_node dc node =
     rbind (py_item node ''record_type'') (\<lambda>d.
     rbind (py_item node ''base'') (\<lambda>b. rbind (dc b) (\<lambda>bt.
     rbind (require_matching_descriptor bt d) (\<lambda>_.
     rbind (py_item d ''fields'') (\<lambda>dfs. rbind (py_iter dfs) (\<lambda>dfields. rbind (field_lookup dfields) (\<lambda>table.
     rbind (py_item node ''fields'') (\<lambda>ufs. rbind (py_iter ufs) (\<lambda>updates.
     rbind (fold_r (\<lambda>update seen.
         rbind (py_item update ''name'') (\<lambda>n.
         if n \<in> set seen then Inl payload_invalid
         else (case lookup_field table n of
             None \<Rightarrow> Inl (PureExprEvaluationError ''record_field_unknown'')
           | Some ft \<Rightarrow>
               rbind (py_item update ''value'') (\<lambda>e. rbind (dc e) (\<lambda>ut.
               rbind (require_matching_descriptor ut ft) (\<lambda>_. Inr (n # seen)))))))
       updates []) (\<lambda>_. Inr d))))))))))"

definition derive_list_node :: "(pyval \<Rightarrow> exc + pyval) \<Rightarrow> pyval \<Rightarrow> exc + pyval" where
  "derive_list_node dc node =
     rbind (py_item node ''element_type'') (\<lambda>et.
     rbind (py_item node ''items'') (\<lambda>w. rbind (py_iter w) (\<lambda>items.
     rbind (fold_r (\<lambda>x _. rbind (dc x) (\<lambda>t. require_matching_descriptor t et)) items ()) (\<lambda>_.
     Inr (list_of et)))))"

definition derive_list_map_node ::
    "(pydict \<Rightarrow> pyval \<Rightarrow> exc + pyval) \<Rightarrow> pydict \<Rightarrow> pyval \<Rightarrow> exc + pyval" where
  "derive_list_map_node dc locals node =
     rbind (py_item node ''source'') (\<lambda>s. rbind (dc locals s) (\<lambda>st.
     rbind (descriptor_kind st) (\<lambda>k. rbind (require (k = ''list'') type_mismatch) (\<lambda>_.
     rbind (py_item node ''binder'') (\<lambda>binder. rbind (py_item binder ''type'') (\<lambda>bt.
     rbind (py_item st ''item'') (\<lambda>it. rbind (require_matching_descriptor it bt) (\<lambda>_.
     rbind (py_item binder ''name'') (\<lambda>bn. rbind (py_item node ''body'') (\<lambda>body.
     rbind (dc (AList.update (str_of bn) bt locals) body) (\<lambda>bodyt.
     rbind (py_item node ''result_element_type'') (\<lambda>rt.
     rbind (require_matching_descriptor bodyt rt) (\<lambda>_. Inr (list_of rt))))))))))))))"

definition derive_path_join_node :: "(pyval \<Rightarrow> exc + pyval) \<Rightarrow> pyval \<Rightarrow> exc + pyval" where
  "derive_path_join_node dc node =
     rbind (py_item node ''child'') (\<lambda>c. rbind (dc c) (\<lambda>ct.
     rbind (require_primitive ct ''String'') (\<lambda>_. py_item node ''path_type'')))"

definition derive_nonempty_head_node :: "(pyval \<Rightarrow> exc + pyval) \<Rightarrow> pyval \<Rightarrow> exc + pyval" where
  "derive_nonempty_head_node dc node =
     rbind (py_item node ''source'') (\<lambda>s. rbind (dc s) (\<lambda>st.
     rbind (py_item node ''element_type'') (\<lambda>et.
     rbind (descriptor_kind st) (\<lambda>k. rbind (require (k = ''list'') type_mismatch) (\<lambda>_.
     rbind (py_item st ''item'') (\<lambda>it. rbind (require_matching_descriptor it et) (\<lambda>_.
     Inr et)))))))"

definition derive_op_node :: "(pyval \<Rightarrow> exc + pyval) \<Rightarrow> pyval \<Rightarrow> exc + pyval" where
  "derive_op_node dc node =
     rbind (py_item node ''operator'') (\<lambda>operator.
     rbind (py_item node ''args'') (\<lambda>w. rbind (py_iter w) (\<lambda>args.
     rbind (map_r dc args) (\<lambda>ts. derive_static_operator_type (str_of operator) ts))))"

definition derive_field_access_node :: "(pyval \<Rightarrow> exc + pyval) \<Rightarrow> pyval \<Rightarrow> exc + pyval" where
  "derive_field_access_node dc node =
     rbind (py_item node ''base'') (\<lambda>b. rbind (dc b) (\<lambda>bt.
     rbind (py_item node ''field'') (\<lambda>f. field_type bt (str_of f))))"

text \<open>The authored fields of a table come from the authored list.\<close>

lemma authored_lookup_mem:
  assumes "fold_r (\<lambda>field table.
       rbind (get field) (\<lambda>n.
       if \<not> nonempty_str n then Inl payload_invalid
       else if map_of table (str_of n) \<noteq> None then Inl payload_invalid
       else Inr (table @ [(str_of n, field)]))) fs acc = Inr table" "(k, x) \<in> set table"
  shows "(k, x) \<in> set acc \<or> x \<in> set fs"
  using assms
proof (induction fs arbitrary: acc)
  case (Cons f fs)
  then show ?case by (fastforce simp: result_simps split: if_splits)
qed simp

lemma field_of_mem: "field_of kvs n = Some x \<Longrightarrow> \<exists>k. (k, x) \<in> set kvs"
  by (auto simp: field_of_def split: pyval.splits dest: map_of_SomeD)

lemma authored_field_mem:
  "authored_lookup get fs = Inr table \<Longrightarrow> field_of table n = Some x \<Longrightarrow> x \<in> set fs"
  unfolding authored_lookup_def using authored_lookup_mem [of get fs "[]"] field_of_mem by fastforce

lemma derive_static_record_fields_cong [fundef_cong]:
  assumes "d = d'" "fs = fs'"
    and dc: "\<And>x e. x \<in> set fs' \<Longrightarrow> py_item x ''value'' = Inr e \<Longrightarrow> dc e = dc' e"
  shows "derive_static_record_fields dc d fs = derive_static_record_fields dc' d' fs'"
  unfolding derive_static_record_fields_def assms(1,2)
  by ((rule dc, (rule authored_field_mem, assumption, assumption), assumption)
      | rule refl rbind_cong fold_r_cong option.case_cong)+

lemma item_size: "py_item d k = Inr w \<Longrightarrow> py_iter w = Inr xs \<Longrightarrow> x \<in> set xs \<Longrightarrow> size x < size d"
  using size_py_item [of d k w] size_py_iter_le [of w xs x] by simp

lemma derive_cong:
  assumes "node = node'" and dc: "\<And>x. size x < size node' \<Longrightarrow> dc x = dc' x"
  shows derive_field_access_cong [fundef_cong]: "derive_field_access_node dc node = derive_field_access_node dc' node'"
    and derive_if_cong [fundef_cong]: "derive_if_node dc node = derive_if_node dc' node'"
    and derive_record_cong [fundef_cong]: "derive_record_node dc node = derive_record_node dc' node'"
    and derive_union_cong [fundef_cong]: "derive_union_node dc node = derive_union_node dc' node'"
    and derive_record_update_cong [fundef_cong]: "derive_record_update_node dc node = derive_record_update_node dc' node'"
    and derive_list_cong [fundef_cong]: "derive_list_node dc node = derive_list_node dc' node'"
    and derive_path_join_cong [fundef_cong]: "derive_path_join_node dc node = derive_path_join_node dc' node'"
    and derive_nonempty_head_cong [fundef_cong]: "derive_nonempty_head_node dc node = derive_nonempty_head_node dc' node'"
    and derive_op_cong [fundef_cong]: "derive_op_node dc node = derive_op_node dc' node'"
  unfolding derive_field_access_node_def derive_if_node_def derive_record_node_def derive_union_node_def
    derive_record_update_node_def derive_list_node_def derive_path_join_node_def
    derive_nonempty_head_node_def derive_op_node_def assms(1)
  by ((rule dc, ((erule size_py_item) | (rule item_size, assumption, assumption, assumption)
         | (rule size_field_type, assumption, assumption, assumption, assumption)))
      | rule refl rbind_cong fold_r_cong map_r_cong derive_static_record_fields_cong if_cong option.case_cong)+

lemma derive_list_map_cong [fundef_cong]:
  assumes "locals = locals'" "node = node'" and dc: "\<And>l x. size x < size node' \<Longrightarrow> dc l x = dc' l x"
  shows "derive_list_map_node dc locals node = derive_list_map_node dc' locals' node'"
  unfolding derive_list_map_node_def assms(1,2)
  by ((rule dc, erule size_py_item) | rule refl rbind_cong)+

function derive_static_expr_type :: "pydict \<Rightarrow> pydict \<Rightarrow> pyval \<Rightarrow> exc + pyval" where
  "derive_static_expr_type bindings locals node =
     rbind (py_item node ''kind'') (\<lambda>kind.
     if kind = PStr ''literal'' then py_item node ''type''
     else if kind = PStr ''binding'' then derive_binding_node bindings locals node
     else if kind = PStr ''field_access'' then
       derive_field_access_node (\<lambda>x. derive_static_expr_type bindings locals x) node
     else if kind = PStr ''if'' then derive_if_node (\<lambda>x. derive_static_expr_type bindings locals x) node
     else if kind = PStr ''record'' then derive_record_node (\<lambda>x. derive_static_expr_type bindings locals x) node
     else if kind = PStr ''union'' then derive_union_node (\<lambda>x. derive_static_expr_type bindings locals x) node
     else if kind = PStr ''record_update'' then
       derive_record_update_node (\<lambda>x. derive_static_expr_type bindings locals x) node
     else if kind = PStr ''list'' then derive_list_node (\<lambda>x. derive_static_expr_type bindings locals x) node
     else if kind = PStr ''list_map'' then
       derive_list_map_node (\<lambda>l x. derive_static_expr_type bindings l x) locals node
     else if kind = PStr ''path_join_under'' then
       derive_path_join_node (\<lambda>x. derive_static_expr_type bindings locals x) node
     else if kind = PStr ''list_nonempty_head'' then
       derive_nonempty_head_node (\<lambda>x. derive_static_expr_type bindings locals x) node
     else if kind = PStr ''op'' then derive_op_node (\<lambda>x. derive_static_expr_type bindings locals x) node
     else Inl payload_invalid)"
  by pat_completeness auto
termination
  by (relation "measure (\<lambda>(b, l, x). size x)") simp_all

declare derive_static_expr_type.simps [simp del]

section \<open>Payloads\<close>

definition DEFAULT_PURE_EXPR_MAX_NODES :: int where
  "DEFAULT_PURE_EXPR_MAX_NODES = 256"

definition supported_schema :: "pyval \<Rightarrow> exc + int" where
  "supported_schema v =
     (case v of PInt i \<Rightarrow> if i \<in> {1, 2} then Inr i else Inl schema_mismatch | _ \<Rightarrow> Inl schema_mismatch)"

definition validate_bindings :: "pydict \<Rightarrow> exc + unit" where
  "validate_bindings bindings =
     fold_r (\<lambda>(n, spec) _.
       if n = [] then Inl payload_invalid
       else (case spec of PDict skv \<Rightarrow>
           rbind (validate_type_descriptor (dget skv ''type'')) (\<lambda>_.
           (case map_of skv ''value'' of
              None \<Rightarrow> Inr ()
            | Some v \<Rightarrow> rbind (coerce_value v (dget skv ''type'')) (\<lambda>_. Inr ())))
         | _ \<Rightarrow> Inl payload_invalid)) bindings ()"

definition validate_pure_expr_payload :: "int \<Rightarrow> pyval \<Rightarrow> exc + pyval" where
  "validate_pure_expr_payload max_nodes payload =
     (case payload of PDict kv \<Rightarrow>
        rbind (supported_schema (dget kv ''pure_expr_schema_version'')) (\<lambda>schema.
        rbind (validate_type_descriptor (dget kv ''result_type'')) (\<lambda>_.
        (case dget kv ''bindings'' of PDict bindings \<Rightarrow>
           rbind (validate_bindings bindings) (\<lambda>_.
           rbind (validate_expr_node bindings schema [] (dget kv ''expr'')) (\<lambda>node_count.
           if node_count > max_nodes then Inl (PureExprEvaluationError ''pure_expr_payload_too_large'')
           else rbind (derive_static_expr_type bindings [] (dget kv ''expr'')) (\<lambda>derived.
             rbind (descriptors_match derived (dget kv ''result_type'')) (\<lambda>b.
             if \<not> b then Inl payload_invalid else Inr payload))))
         | _ \<Rightarrow> Inl payload_invalid)))
      | _ \<Rightarrow> Inl payload_invalid)"

end
