(* ===== verification/PureExprEval.thy ===== *)
theory PureExprEval
  imports PureExpr
begin

text \<open>
  Evaluation of pure expressions (\<open>_evaluate_expr\<close>, \<open>_evaluate_record_fields\<close>,
  \<open>_evaluate_operator\<close> and \<open>evaluate_pure_expr\<close> of \<open>workflow/pure_expr.py\<close>). An evaluated
  node is a pair of a type descriptor and a value; both branches of an \<open>if\<close> are evaluated, the
  branch taken first, as in the source.
\<close>

type_synonym typed_value = "pyval \<times> pyval"

type_synonym local_env = "(string \<times> typed_value) list"

section \<open>Operators\<close>

definition int_operand :: "pyval \<Rightarrow> exc + int" where
  "int_operand v = (case v of PInt i \<Rightarrow> Inr i | PBool b \<Rightarrow> Inr (if b then 1 else 0) | _ \<Rightarrow> Inl TypeError)"

definition str_operand :: "pyval \<Rightarrow> exc + string" where
  "str_operand v = (case v of PStr s \<Rightarrow> Inr s | _ \<Rightarrow> Inl TypeError)"

definition fold_checked :: "(int \<Rightarrow> int \<Rightarrow> int) \<Rightarrow> int \<Rightarrow> pyval list \<Rightarrow> exc + int" where
  "fold_checked f init vs =
     fold_r (\<lambda>v total. rbind (int_operand v) (\<lambda>i.
       rbind (checked_int (f total i)) (\<lambda>_. Inr (f total i)))) vs init"

definition least_arg :: "(int \<Rightarrow> int \<Rightarrow> int) \<Rightarrow> pyval list \<Rightarrow> exc + pyval" where
  "least_arg f vs =
     rbind (map_r int_operand vs) (\<lambda>is.
     (case is of [] \<Rightarrow> Inl ValueError | i # js \<Rightarrow> Inr (PInt (fold (\<lambda>j m. f m j) js i))))"

definition evaluate_arithmetic :: "string \<Rightarrow> pyval list \<Rightarrow> exc + pyval" where
  "evaluate_arithmetic operator vs =
     (if operator = ''+'' then rbind (fold_checked (+) 0 vs) (\<lambda>i. Inr (PInt i))
      else if operator = ''-'' then
        rbind (arg_at vs 0) (\<lambda>a. rbind (arg_at vs 1) (\<lambda>b.
        rbind (int_operand a) (\<lambda>i. rbind (int_operand b) (\<lambda>j. checked_int (i - j)))))
      else if operator = ''*'' then rbind (fold_checked (*) 1 vs) (\<lambda>i. Inr (PInt i))
      else if operator = ''min'' then least_arg min vs
      else least_arg max vs)"

definition evaluate_ordering :: "string \<Rightarrow> pyval \<Rightarrow> pyval \<Rightarrow> exc + bool" where
  "evaluate_ordering operator a b =
     rbind (py_less a b) (\<lambda>lt. rbind (py_le a b) (\<lambda>le. rbind (py_less b a) (\<lambda>gt. rbind (py_le b a) (\<lambda>ge.
     if operator = ''<'' then Inr lt
     else if operator = ''<='' then Inr le
     else if operator = ''>'' then Inr gt
     else if operator = ''>='' then Inr ge
     else Inl KeyError))))"

definition evaluate_list_operator :: "string \<Rightarrow> pyval list \<Rightarrow> pyval list \<Rightarrow> exc + typed_value" where
  "evaluate_list_operator operator ts vs =
     rbind (arg_at ts 0) (\<lambda>lt. rbind (descriptor_kind lt) (\<lambda>k.
     if k \<noteq> ''list'' then Inl type_mismatch
     else rbind (py_item lt ''item'') (\<lambda>it. rbind (arg_at vs 0) (\<lambda>source.
       if operator = ''list/empty?'' then Inr (bool_type, PBool (\<not> py_bool source))
       else if operator = ''list/head'' then
         (if \<not> py_bool source then Inr (optional_of it, PNone)
          else rbind (py_iter source) (\<lambda>xs. rbind (arg_at xs 0) (\<lambda>x.
            rbind (coerce_value x it) (\<lambda>y. Inr (optional_of it, y)))))
       else if operator = ''list/rest'' then
         rbind (py_iter source) (\<lambda>xs. rbind (map_r (\<lambda>x. coerce_value x it) (drop 1 xs)) (\<lambda>ys.
         Inr (lt, PList ys)))
       else if operator = ''list/append'' then
         rbind (arg_at ts 1) (\<lambda>at. rbind (require_matching_descriptor at it) (\<lambda>_.
         rbind (py_iter source) (\<lambda>xs. rbind (map_r (\<lambda>x. coerce_value x it) xs) (\<lambda>ys.
         rbind (arg_at vs 1) (\<lambda>a. rbind (coerce_value a it) (\<lambda>y.
         Inr (lt, PList (ys @ [y]))))))))
       else rbind (py_iter source) (\<lambda>xs. rbind (checked_int (int (length xs))) (\<lambda>n. Inr (int_type, n)))))))"

definition evaluate_operator :: "string \<Rightarrow> typed_value list \<Rightarrow> exc + typed_value" where
  "evaluate_operator operator args =
     (let ts = map fst args; vs = map snd args in
      if operator \<in> {''='', ''!=''} then
        two_args args (\<lambda>(l, a) (r, b). rbind (require_equality_types l r) (\<lambda>_.
        Inr (bool_type, PBool (if operator = ''='' then py_eq a b else \<not> py_eq a b))))
      else if operator \<in> {''<'', ''<='', ''>'', ''>=''} then
        two_args args (\<lambda>(l, a) (r, b). rbind (require_ordering_types l r) (\<lambda>_.
        rbind (evaluate_ordering operator a b) (\<lambda>c. Inr (bool_type, PBool c))))
      else if operator = ''and'' then
        rbind (require_all ts ''Bool'') (\<lambda>_. Inr (bool_type, PBool (list_all py_bool vs)))
      else if operator = ''or'' then
        rbind (require_all ts ''Bool'') (\<lambda>_. Inr (bool_type, PBool (list_ex py_bool vs)))
      else if operator = ''not'' then
        rbind (arg_at ts 0) (\<lambda>t. rbind (require_primitive t ''Bool'') (\<lambda>_. rbind (arg_at vs 0) (\<lambda>v.
        Inr (bool_type, PBool (\<not> py_bool v)))))
      else if operator \<in> {''+'', ''-'', ''*'', ''min'', ''max''} then
        rbind (require_all ts ''Int'') (\<lambda>_. rbind (evaluate_arithmetic operator vs) (\<lambda>v. Inr (int_type, v)))
      else if operator = ''string/concat'' then
        rbind (require_concat_types ts) (\<lambda>_. rbind (map_r str_operand vs) (\<lambda>ss.
        Inr (string_type, PStr (concat ss))))
      else if operator = ''string/empty?'' then
        rbind (arg_at ts 0) (\<lambda>t. rbind (require_primitive t ''String'') (\<lambda>_. rbind (arg_at vs 0) (\<lambda>v.
        Inr (bool_type, PBool (v = PStr [])))))
      else if operator = ''symbol/name'' then
        rbind (arg_at ts 0) (\<lambda>t. rbind (require_primitive t ''Symbol'') (\<lambda>_. rbind (arg_at vs 0) (\<lambda>v.
        Inr (string_type, v))))
      else if operator = ''some?'' then
        rbind (arg_at ts 0) (\<lambda>t. rbind (descriptor_kind t) (\<lambda>k.
        rbind (require (k = ''optional'') type_mismatch) (\<lambda>_. rbind (arg_at vs 0) (\<lambda>v.
        Inr (bool_type, PBool (v \<noteq> PNone))))))
      else if operator = ''or-else'' then
        rbind (arg_at ts 0) (\<lambda>ot. rbind (arg_at ts 1) (\<lambda>ft. rbind (descriptor_kind ot) (\<lambda>k.
        rbind (require (k = ''optional'') type_mismatch) (\<lambda>_. rbind (py_item ot ''item'') (\<lambda>it.
        rbind (require_matching_descriptor it ft) (\<lambda>_. rbind (arg_at vs 0) (\<lambda>a. rbind (arg_at vs 1) (\<lambda>b.
        Inr (it, if a \<noteq> PNone then a else b)))))))))
      else if operator \<in> set LIST_OPERATOR_NAMES then evaluate_list_operator operator ts vs
      else Inl operator_unsupported)"

section \<open>Nodes\<close>

definition evaluate_record_fields ::
    "(pyval \<Rightarrow> exc + typed_value) \<Rightarrow> pyval \<Rightarrow> pyval \<Rightarrow> exc + pydict" where
  "evaluate_record_fields ev d authored =
     rbind (require (is_sequence authored) payload_invalid) (\<lambda>_.
     rbind (authored_lookup (\<lambda>field. (case field of PDict fkv \<Rightarrow> Inr (dget fkv ''name'') | _ \<Rightarrow> Inl payload_invalid))
       (seq_items authored)) (\<lambda>table.
     rbind (py_item d ''fields'') (\<lambda>fs. rbind (py_iter fs) (\<lambda>fields.
     rbind (fold_r (\<lambda>field (result, names).
         rbind (py_item field ''name'') (\<lambda>n.
         (case field_of table n of
            None \<Rightarrow> Inl payload_invalid
          | Some field_node \<Rightarrow>
              rbind (py_item field_node ''value'') (\<lambda>e. rbind (ev e) (\<lambda>tv.
              rbind (py_item field ''type'') (\<lambda>t. rbind (coerce_value (snd tv) t) (\<lambda>y.
              Inr (AList.update (str_of n) y result, n # names))))))))
       fields ([], [])) (\<lambda>(result, names).
     if extra_fields table names then Inl payload_invalid else Inr result)))))"

definition authored_fields :: "pyval \<Rightarrow> exc + pyval" where
  "authored_fields node =
     (case node of
        PDict kv \<Rightarrow> Inr (case map_of kv ''fields'' of None \<Rightarrow> PList [] | Some fs \<Rightarrow> fs)
      | _ \<Rightarrow> Inl AttributeError)"

definition evaluate_literal_node :: "pyval \<Rightarrow> exc + typed_value" where
  "evaluate_literal_node node =
     rbind (py_item node ''type'') (\<lambda>d. rbind (py_get node ''value'') (\<lambda>v.
     rbind (coerce_value v d) (\<lambda>w. Inr (d, w))))"

definition evaluate_binding_node ::
    "pydict \<Rightarrow> pydict \<Rightarrow> local_env \<Rightarrow> pyval \<Rightarrow> exc + typed_value" where
  "evaluate_binding_node bindings resolved locals node =
     rbind (py_item node ''name'') (\<lambda>n.
     (case map_of locals (str_of n) of
        Some (d, raw) \<Rightarrow> rbind (coerce_value raw d) (\<lambda>w. Inr (d, w))
      | None \<Rightarrow>
         (case field_of bindings n of
            None \<Rightarrow> Inl KeyError
          | Some spec \<Rightarrow>
              rbind (case field_of resolved n of
                  Some raw \<Rightarrow> Inr raw
                | None \<Rightarrow> (case spec of
                    PDict skv \<Rightarrow> (case map_of skv ''value'' of
                        Some raw \<Rightarrow> Inr raw
                      | None \<Rightarrow> Inl (PureExprEvaluationError ''pure_expr_binding_missing''))
                  | _ \<Rightarrow> Inl TypeError)) (\<lambda>raw.
              rbind (py_item spec ''type'') (\<lambda>d. rbind (coerce_value raw d) (\<lambda>w. Inr (d, w)))))))"

definition evaluate_field_access_node :: "(pyval \<Rightarrow> exc + typed_value) \<Rightarrow> pyval \<Rightarrow> exc + typed_value" where
  "evaluate_field_access_node ev node =
     rbind (py_item node ''base'') (\<lambda>b. rbind (ev b) (\<lambda>(bt, bv).
     rbind (py_item node ''field'') (\<lambda>f. rbind (field_type bt (str_of f)) (\<lambda>ft.
     if bv = PNone then Inl (PureExprEvaluationError ''pure_expr_optional_access_unproved'')
     else (case bv of
         PDict vkv \<Rightarrow> (case map_of vkv (str_of f) of
             None \<Rightarrow> Inl type_mismatch
           | Some x \<Rightarrow> rbind (coerce_value x ft) (\<lambda>w. Inr (ft, w)))
       | _ \<Rightarrow> Inl type_mismatch)))))"

definition evaluate_if_node :: "(pyval \<Rightarrow> exc + typed_value) \<Rightarrow> pyval \<Rightarrow> exc + typed_value" where
  "evaluate_if_node ev node =
     rbind (py_item node ''condition'') (\<lambda>c. rbind (ev c) (\<lambda>(ct, cv).
     rbind (require_primitive ct ''Bool'') (\<lambda>_.
     let branch_key = (if py_bool cv then ''then'' else ''else'');
         other_key = (if py_bool cv then ''else'' else ''then'') in
     rbind (py_item node branch_key) (\<lambda>b. rbind (ev b) (\<lambda>(bt, bv).
     rbind (py_item node other_key) (\<lambda>x. rbind (ev x) (\<lambda>(xt, _).
     rbind (require_matching_descriptor bt xt) (\<lambda>_. Inr (bt, bv)))))))))"

definition evaluate_record_node :: "(pyval \<Rightarrow> exc + typed_value) \<Rightarrow> pyval \<Rightarrow> exc + typed_value" where
  "evaluate_record_node ev node =
     rbind (py_item node ''type'') (\<lambda>d. rbind (authored_fields node) (\<lambda>fs.
     rbind (evaluate_record_fields ev d fs) (\<lambda>r. Inr (d, PDict r))))"

definition evaluate_union_node :: "(pyval \<Rightarrow> exc + typed_value) \<Rightarrow> pyval \<Rightarrow> exc + typed_value" where
  "evaluate_union_node ev node =
     rbind (py_item node ''type'') (\<lambda>d. rbind (py_item node ''variant'') (\<lambda>w.
     rbind (variant_descriptor d (str_of w)) (\<lambda>v. rbind (py_item v ''fields'') (\<lambda>vf.
     rbind (authored_fields node) (\<lambda>fs.
     rbind (evaluate_record_fields ev (record_payload_descriptor (str_of w) vf) fs) (\<lambda>field_values.
     let value = PDict (AList.updates (map fst field_values) (map snd field_values) [(''variant'', w)]) in
     rbind (descriptor_kind d) (\<lambda>k.
     if k = ''variant_case'' then Inr (d, value)
     else rbind (coerce_value value d) (\<lambda>y. Inr (d, y)))))))))"

definition evaluate_record_update_node :: "(pyval \<Rightarrow> exc + typed_value) \<Rightarrow> pyval \<Rightarrow> exc + typed_value" where
  "evaluate_record_update_node ev node =
     rbind (py_item node ''record_type'') (\<lambda>d.
     rbind (py_item node ''base'') (\<lambda>b. rbind (ev b) (\<lambda>(bt, bv).
     rbind (require_matching_descriptor bt d) (\<lambda>_.
     rbind (coerce_value bv d) (\<lambda>rv.
     rbind (py_item d ''fields'') (\<lambda>dfs. rbind (py_iter dfs) (\<lambda>dfields. rbind (field_lookup dfields) (\<lambda>table.
     (case rv of PDict record_value \<Rightarrow>
        rbind (py_item node ''fields'') (\<lambda>ufs. rbind (py_iter ufs) (\<lambda>updates.
        rbind (fold_r (\<lambda>update result.
            rbind (py_item update ''name'') (\<lambda>n.
            (case lookup_field table n of
               None \<Rightarrow> Inl (PureExprEvaluationError ''record_field_unknown'')
             | Some ft \<Rightarrow>
                 rbind (py_item update ''value'') (\<lambda>e. rbind (ev e) (\<lambda>tv.
                 rbind (coerce_value (snd tv) ft) (\<lambda>y. Inr (AList.update (str_of n) y result)))))))
          updates record_value) (\<lambda>result. Inr (d, PDict result))))
      | _ \<Rightarrow> Inl TypeError)))))))))"

definition evaluate_list_node :: "(pyval \<Rightarrow> exc + typed_value) \<Rightarrow> pyval \<Rightarrow> exc + typed_value" where
  "evaluate_list_node ev node =
     rbind (py_item node ''element_type'') (\<lambda>et.
     rbind (py_item node ''items'') (\<lambda>w. rbind (py_iter w) (\<lambda>items.
     rbind (map_r (\<lambda>x. rbind (ev x) (\<lambda>(t, v).
         rbind (require_matching_descriptor t et) (\<lambda>_. coerce_value v et))) items) (\<lambda>ys.
     Inr (list_of et, PList ys)))))"

definition evaluate_list_map_node ::
    "(local_env \<Rightarrow> pyval \<Rightarrow> exc + typed_value) \<Rightarrow> local_env \<Rightarrow> pyval \<Rightarrow> exc + typed_value" where
  "evaluate_list_map_node ev locals node =
     rbind (py_item node ''source'') (\<lambda>s. rbind (ev locals s) (\<lambda>(st, sv).
     rbind (descriptor_kind st) (\<lambda>k. rbind (require (k = ''list'') type_mismatch) (\<lambda>_.
     rbind (py_item node ''binder'') (\<lambda>binder. rbind (py_item binder ''type'') (\<lambda>bt.
     rbind (py_item st ''item'') (\<lambda>it. rbind (require_matching_descriptor it bt) (\<lambda>_.
     rbind (py_item node ''result_element_type'') (\<lambda>rt.
     rbind (py_iter sv) (\<lambda>items.
     rbind (map_r (\<lambda>item.
         rbind (py_item binder ''name'') (\<lambda>bn. rbind (coerce_value item bt) (\<lambda>bv.
         rbind (py_item node ''body'') (\<lambda>body.
         rbind (ev (AList.update (str_of bn) (bt, bv) locals) body) (\<lambda>(t, v).
         rbind (require_matching_descriptor t rt) (\<lambda>_. coerce_value v rt)))))) items) (\<lambda>ys.
     Inr (list_of rt, PList ys))))))))))))"

definition evaluate_path_join_node :: "(pyval \<Rightarrow> exc + typed_value) \<Rightarrow> pyval \<Rightarrow> exc + typed_value" where
  "evaluate_path_join_node ev node =
     rbind (py_item node ''path_type'') (\<lambda>pt. rbind (py_item node ''child'') (\<lambda>c. rbind (ev c) (\<lambda>(ct, cv).
     rbind (require_primitive ct ''String'') (\<lambda>_. rbind (py_item pt ''under'') (\<lambda>under.
     rbind (validated_join_root under) (\<lambda>root.
     rbind (join_relative_child_under_root root (str_of cv)) (\<lambda>joined.
     Inr (pt, PStr joined))))))))"

definition evaluate_nonempty_head_node :: "(pyval \<Rightarrow> exc + typed_value) \<Rightarrow> pyval \<Rightarrow> exc + typed_value" where
  "evaluate_nonempty_head_node ev node =
     rbind (py_item node ''source'') (\<lambda>s. rbind (ev s) (\<lambda>(st, sv).
     rbind (py_item node ''element_type'') (\<lambda>et.
     rbind (descriptor_kind st) (\<lambda>k. rbind (require (k = ''list'') type_mismatch) (\<lambda>_.
     rbind (py_item st ''item'') (\<lambda>it. rbind (require_matching_descriptor it et) (\<lambda>_.
     if \<not> py_bool sv then Inl (PureExprEvaluationError ''list_nonempty_invariant_broken'')
     else rbind (py_iter sv) (\<lambda>xs. rbind (arg_at xs 0) (\<lambda>x.
       rbind (coerce_value x et) (\<lambda>y. Inr (et, y)))))))))))"

definition evaluate_op_node :: "(pyval \<Rightarrow> exc + typed_value) \<Rightarrow> pyval \<Rightarrow> exc + typed_value" where
  "evaluate_op_node ev node =
     rbind (py_item node ''args'') (\<lambda>w. rbind (py_iter w) (\<lambda>args.
     rbind (map_r ev args) (\<lambda>evaluated. rbind (py_item node ''operator'') (\<lambda>operator.
     evaluate_operator (str_of operator) evaluated))))"

lemma evaluate_record_fields_cong [fundef_cong]:
  assumes "d = d'" "fs = fs'"
    and ev: "\<And>x e. x \<in> set (seq_items fs') \<Longrightarrow> py_item x ''value'' = Inr e \<Longrightarrow> ev e = ev' e"
  shows "evaluate_record_fields ev d fs = evaluate_record_fields ev' d' fs'"
  unfolding evaluate_record_fields_def assms(1,2)
  by ((rule ev, (rule authored_field_mem, assumption, assumption), assumption)
      | rule refl rbind_cong fold_r_cong option.case_cong prod.case_cong)+

lemma size_seq_field:
  assumes "authored_fields d = Inr fs" "x \<in> set (seq_items fs)" "py_item x k' = Inr e"
  shows "size e < size d"
proof -
  from assms(1) have "size fs < size d \<or> fs = PList []"
    by (cases d) (auto simp: authored_fields_def dest!: map_of_SomeD size_dict_mem
        simp del: pyval.size split: option.splits)
  with size_seq_items [OF assms(2)] assms(2) have "size x < size d" by auto
  with size_py_item [OF assms(3)] show ?thesis by simp
qed

lemma evaluate_cong:
  assumes "node = node'" and ev: "\<And>x. size x < size node' \<Longrightarrow> ev x = ev' x"
  shows evaluate_field_access_cong [fundef_cong]: "evaluate_field_access_node ev node = evaluate_field_access_node ev' node'"
    and evaluate_if_cong [fundef_cong]: "evaluate_if_node ev node = evaluate_if_node ev' node'"
    and evaluate_record_cong [fundef_cong]: "evaluate_record_node ev node = evaluate_record_node ev' node'"
    and evaluate_union_cong [fundef_cong]: "evaluate_union_node ev node = evaluate_union_node ev' node'"
    and evaluate_record_update_cong [fundef_cong]: "evaluate_record_update_node ev node = evaluate_record_update_node ev' node'"
    and evaluate_list_cong [fundef_cong]: "evaluate_list_node ev node = evaluate_list_node ev' node'"
    and evaluate_path_join_cong [fundef_cong]: "evaluate_path_join_node ev node = evaluate_path_join_node ev' node'"
    and evaluate_nonempty_head_cong [fundef_cong]: "evaluate_nonempty_head_node ev node = evaluate_nonempty_head_node ev' node'"
    and evaluate_op_cong [fundef_cong]: "evaluate_op_node ev node = evaluate_op_node ev' node'"
  unfolding evaluate_field_access_node_def evaluate_if_node_def evaluate_record_node_def evaluate_union_node_def
    evaluate_record_update_node_def evaluate_list_node_def evaluate_path_join_node_def
    evaluate_nonempty_head_node_def evaluate_op_node_def assms(1) Let_def
  by ((rule ev, ((erule size_py_item) | (rule item_size, assumption, assumption, assumption)
         | (rule size_seq_field, assumption, assumption, assumption)
         | (rule size_field_type, assumption, assumption, assumption, assumption)))
      | rule refl rbind_cong fold_r_cong map_r_cong evaluate_record_fields_cong prod.case_cong
          pyval.case_cong if_cong option.case_cong)+

lemma evaluate_list_map_cong [fundef_cong]:
  assumes "locals = locals'" "node = node'" and ev: "\<And>l x. size x < size node' \<Longrightarrow> ev l x = ev' l x"
  shows "evaluate_list_map_node ev locals node = evaluate_list_map_node ev' locals' node'"
  unfolding evaluate_list_map_node_def assms(1,2)
  by ((rule ev, erule size_py_item) | rule refl rbind_cong map_r_cong prod.case_cong)+

function evaluate_expr :: "pydict \<Rightarrow> pydict \<Rightarrow> local_env \<Rightarrow> pyval \<Rightarrow> exc + typed_value" where
  "evaluate_expr bindings resolved locals node =
     rbind (py_item node ''kind'') (\<lambda>kind.
     if kind = PStr ''literal'' then evaluate_literal_node node
     else if kind = PStr ''binding'' then evaluate_binding_node bindings resolved locals node
     else if kind = PStr ''field_access'' then
       evaluate_field_access_node (\<lambda>x. evaluate_expr bindings resolved locals x) node
     else if kind = PStr ''if'' then evaluate_if_node (\<lambda>x. evaluate_expr bindings resolved locals x) node
     else if kind = PStr ''record'' then evaluate_record_node (\<lambda>x. evaluate_expr bindings resolved locals x) node
     else if kind = PStr ''union'' then evaluate_union_node (\<lambda>x. evaluate_expr bindings resolved locals x) node
     else if kind = PStr ''record_update'' then
       evaluate_record_update_node (\<lambda>x. evaluate_expr bindings resolved locals x) node
     else if kind = PStr ''list'' then evaluate_list_node (\<lambda>x. evaluate_expr bindings resolved locals x) node
     else if kind = PStr ''list_map'' then
       evaluate_list_map_node (\<lambda>l x. evaluate_expr bindings resolved l x) locals node
     else if kind = PStr ''path_join_under'' then
       evaluate_path_join_node (\<lambda>x. evaluate_expr bindings resolved locals x) node
     else if kind = PStr ''list_nonempty_head'' then
       evaluate_nonempty_head_node (\<lambda>x. evaluate_expr bindings resolved locals x) node
     else if kind = PStr ''op'' then evaluate_op_node (\<lambda>x. evaluate_expr bindings resolved locals x) node
     else Inl payload_invalid)"
  by pat_completeness auto
termination
  by (relation "measure (\<lambda>(b, r, l, x). size x)") simp_all

declare evaluate_expr.simps [simp del]

section \<open>Payloads\<close>

definition evaluate_pure_expr :: "int \<Rightarrow> pyval \<Rightarrow> pydict \<Rightarrow> exc + pyval" where
  "evaluate_pure_expr max_nodes payload resolved =
     rbind (validate_pure_expr_payload max_nodes payload) (\<lambda>_.
     rbind (py_item payload ''bindings'') (\<lambda>bs.
     (case bs of PDict bindings \<Rightarrow>
        rbind (require (list_all (\<lambda>p. map_of bindings (fst p) \<noteq> None) resolved)
          (PureExprEvaluationError ''pure_expr_binding_unexpected'')) (\<lambda>_.
        rbind (py_item payload ''expr'') (\<lambda>expr.
        rbind (evaluate_expr bindings resolved [] expr) (\<lambda>(result_type, result_value).
        rbind (py_item payload ''result_type'') (\<lambda>expected.
        rbind (descriptors_match result_type expected) (\<lambda>b.
        if \<not> b then Inl payload_invalid else coerce_value result_value expected)))))
      | _ \<Rightarrow> Inl TypeError)))"

end
