(* ===== verification/PureExprTypes.thy ===== *)
theory PureExprTypes
  imports PureExprEval
begin

text \<open>
  What static typing and evaluation decide from a descriptor depends on its normal form only:
  the descriptor predicates of the source in terms of the denoted type, and the parts
  (list items, record fields, union tags) of descriptors with the same normal form.
\<close>

section \<open>Well-formed descriptors\<close>

definition good :: "pyval \<Rightarrow> bool" where
  "good d = ((\<exists>t. desc_ty d t) \<and> all_sub finite_float d)"

definition same :: "pyval \<Rightarrow> pyval \<Rightarrow> bool" where
  "same d e = (good d \<and> good e \<and> desc_norm d = desc_norm e)"

lemma good_validate: "validate_type_descriptor d = Inr () \<Longrightarrow> sane d \<Longrightarrow> good d"
  unfolding good_def by (rule conjI [OF validate_desc_ty sane_finite])

lemma goodD: "good d \<Longrightarrow> \<exists>t. desc_ty d t"
  by (simp add: good_def)

lemma good_finite: "good d \<Longrightarrow> all_sub finite_float d"
  by (simp add: good_def)

lemma same_refl: "good d \<Longrightarrow> same d d"
  by (simp add: same_def)

lemma same_sym: "same d e \<Longrightarrow> same e d"
  by (simp add: same_def)

lemma same_trans [trans]: "same d e \<Longrightarrow> same e f \<Longrightarrow> same d f"
  by (simp add: same_def)

lemma same_good: "same d e \<Longrightarrow> good d" "same d e \<Longrightarrow> good e"
  by (simp_all add: same_def)

lemma same_type: "same d e \<Longrightarrow> desc_ty d t \<Longrightarrow> desc_ty e t"
  unfolding same_def using goodD norm_same_type by blast

lemma match_good: "good d \<Longrightarrow> good e \<Longrightarrow> descriptors_match d e = Inr (desc_norm d = desc_norm e)"
  using goodD match_norm good_finite by blast

lemma require_matching_good:
  "good d \<Longrightarrow> good e \<Longrightarrow> require_matching_descriptor d e = require (desc_norm d = desc_norm e) type_mismatch"
  by (simp add: require_matching_descriptor_def match_good)

lemma require_matching_same:
  "good d \<Longrightarrow> good e \<Longrightarrow> require_matching_descriptor d e = Inr u \<longleftrightarrow> same d e"
  by (simp add: require_matching_good same_def result_simps)

lemma same_coerce: "same d e \<Longrightarrow> coerce_value v d = coerce_value v e"
  using same_type goodD same_good(1) coerce_value_ty by metis

section \<open>Predicates by denoted type\<close>

fun kind_of :: "ty \<Rightarrow> string" where
  "kind_of (TPrim n) = ''primitive''"
| "kind_of (TEnum xs) = ''enum''"
| "kind_of TPath = ''path''"
| "kind_of (TOpt t) = ''optional''"
| "kind_of (TList t) = ''list''"
| "kind_of (TMap k t) = ''map''"
| "kind_of (TRec fs) = ''record''"
| "kind_of (TUnion vs) = ''union''"
| "kind_of (TCase c fs) = ''variant_case''"

lemma desc_ty_kind_of: "desc_ty d t \<Longrightarrow> \<exists>kv. d = PDict kv \<and> dget kv ''kind'' = PStr (kind_of t)"
  by (erule desc_ty_mapping) auto

lemma kind_of_nonempty [simp]: "kind_of t \<noteq> []"
  by (cases t) auto

lemma descriptor_kind_ty: "desc_ty d t \<Longrightarrow> descriptor_kind d = Inr (kind_of t)"
  by (auto dest!: desc_ty_kind_of simp: descriptor_kind_def)

lemma is_primitive_type_ty: "desc_ty d t \<Longrightarrow> is_primitive_type d n = Inr (t = TPrim n)"
proof -
  assume ty: "desc_ty d t"
  then obtain kv where d: "d = PDict kv" "dget kv ''kind'' = PStr (kind_of t)"
    using desc_ty_kind_of by blast
  show ?thesis
  proof (cases "\<exists>m. t = TPrim m")
    case True
    then obtain m where t: "t = TPrim m" ..
    with d ty have "dget kv ''name'' = PStr m" by (simp add: desc_ty_primitive)
    with d t show ?thesis by (simp add: is_primitive_type_def descriptor_kind_def)
  next
    case False
    then have "kind_of t \<noteq> ''primitive''" "t \<noteq> TPrim n" by (cases t; simp)+
    with descriptor_kind_ty [OF ty] show ?thesis by (simp add: is_primitive_type_def)
  qed
qed

lemma is_path_type_ty: "desc_ty d t \<Longrightarrow> is_path_type d = Inr (kind_of t = ''path'')"
  by (simp add: is_path_type_def descriptor_kind_ty)

lemma is_union_like_ty: "desc_ty d t \<Longrightarrow> is_union_like d = Inr (kind_of t \<in> {''union'', ''variant_case''})"
  by (simp add: is_union_like_def descriptor_kind_ty)

lemma or_else_r_Inr [simp]: "or_else_r (Inr a) (Inr b) = Inr (a \<or> b)"
  by (simp add: or_else_r_def)

lemma type_supports_equality_ty:
  "desc_ty d t \<Longrightarrow> type_supports_equality d =
     Inr (kind_of t = ''enum'' \<or> t \<in> {TPrim ''String'', TPrim ''Int'', TPrim ''Bool'', TPrim ''Symbol''})"
  by (simp add: type_supports_equality_def descriptor_kind_ty is_primitive_type_ty)

lemma require_primitive_ty: "desc_ty d t \<Longrightarrow> require_primitive d n = require (t = TPrim n) type_mismatch"
  by (simp add: require_primitive_def is_primitive_type_ty)

lemma desc_ty_iff: "desc_ty d t \<Longrightarrow> desc_ty d u \<longleftrightarrow> u = t"
  using desc_ty_functional(1) by blast

lemma require_primitive_iff: "good d \<Longrightarrow> require_primitive d n = Inr u \<longleftrightarrow> desc_ty d (TPrim n)"
  by (auto dest!: goodD simp: require_primitive_ty desc_ty_iff result_simps)

lemma require_all_iff:
  "\<forall>d \<in> set ts. good d \<Longrightarrow> require_all ts n = Inr () \<longleftrightarrow> (\<forall>d \<in> set ts. desc_ty d (TPrim n))"
  unfolding require_all_def by (simp add: fold_r_unit_iff require_primitive_iff)

lemma require_concat_iff:
  assumes "\<forall>d \<in> set ts. good d"
  shows "require_concat_types ts = Inr () \<longleftrightarrow> (\<forall>d \<in> set ts. desc_ty d (TPrim ''String''))"
proof -
  have "rbind (is_path_type d) (\<lambda>b. if b then Inl (PureExprEvaluationError ''pure_expr_path_string_concat_forbidden'')
       else require_primitive d ''String'') = Inr () \<longleftrightarrow> desc_ty d (TPrim ''String'')" if "d \<in> set ts" for d
  proof -
    from that assms obtain t where t: "desc_ty d t" using goodD by blast
    show ?thesis
      by (cases "t = TPrim ''String''")
        (simp_all add: is_path_type_ty [OF t] require_primitive_ty [OF t] desc_ty_iff [OF t])
  qed
  then show ?thesis unfolding require_concat_types_def by (simp add: fold_r_unit_iff)
qed

lemma good_kind: "good d \<Longrightarrow> \<exists>t. desc_ty d t \<and> descriptor_kind d = Inr (kind_of t)"
  using goodD descriptor_kind_ty by blast

lemma kind_list: "kind_of t = ''list'' \<longleftrightarrow> (\<exists>u. t = TList u)"
  by (cases t) auto

lemma kind_optional: "kind_of t = ''optional'' \<longleftrightarrow> (\<exists>u. t = TOpt u)"
  by (cases t) auto

section \<open>Built-in descriptors\<close>

lemma built_in_types:
  "desc_ty bool_type (TPrim ''Bool'')" "desc_ty int_type (TPrim ''Int'')" "desc_ty string_type (TPrim ''String'')"
  by (simp_all add: bool_type_def int_type_def string_type_def desc_ty_primitive)

lemma good_built_in [simp, intro]: "good bool_type" "good int_type" "good string_type"
  unfolding good_def using built_in_types
  by (auto simp: bool_type_def int_type_def string_type_def finite_float_def)

lemma list_of_ty: "desc_ty d t \<Longrightarrow> desc_ty (list_of d) (TList t)"
  by (simp add: list_of_def desc_ty_list)

lemma optional_of_ty: "desc_ty d t \<Longrightarrow> desc_ty (optional_of d) (TOpt t)"
  by (simp add: optional_of_def desc_ty_optional)

lemma good_list_of: "good d \<Longrightarrow> good (list_of d)"
  unfolding good_def using list_of_ty by (auto simp: list_of_def finite_float_def)

lemma good_optional_of: "good d \<Longrightarrow> good (optional_of d)"
  unfolding good_def using optional_of_ty by (auto simp: optional_of_def finite_float_def)

lemma good_mapping: "good d \<Longrightarrow> is_mapping d"
  using goodD desc_ty_is_mapping by fastforce

lemma norm_optional_of: "good d \<Longrightarrow> desc_norm (optional_of d) =
    JArr [canon (PDict [(''kind'', PStr ''optional'')]), desc_norm d]"
  unfolding optional_of_def by (subst desc_norm_wrap) (simp_all add: good_mapping dpop_def)

lemma same_optional_of: "same d e \<Longrightarrow> same (optional_of d) (optional_of e)"
  by (simp add: same_def good_optional_of norm_optional_of)

section \<open>Items of lists and optionals\<close>

lemma wrapped_item:
  assumes "good d" "desc_ty d t" "t = TList u \<or> t = TOpt u"
  obtains kv where "d = PDict kv" "py_item d ''item'' = Inr (dget kv ''item'')"
    "desc_ty (dget kv ''item'') u" "good (dget kv ''item'')"
    "desc_norm d = JArr [canon (PDict (dpop kv ''item'')), desc_norm (dget kv ''item'')]"
proof -
  obtain kv where d: "d = PDict kv" "dget kv ''kind'' = PStr (kind_of t)"
    using desc_ty_kind_of [OF assms(2)] by blast
  then have i: "desc_ty (dget kv ''item'') u"
    using assms(2,3) by (auto simp: desc_ty_list desc_ty_optional)
  then have m: "is_mapping (dget kv ''item'')" by (rule desc_ty_mapping_dget)
  then have "dget kv ''item'' \<noteq> PNone" by auto
  then have 1: "py_item d ''item'' = Inr (dget kv ''item'')" using d by (simp add: py_item_dget)
  have 2: "good (dget kv ''item'')"
    using i good_finite [OF assms(1)] d finite_dget by (auto simp: good_def)
  have "dget kv ''kind'' \<in> {PStr ''optional'', PStr ''list''}" using d(2) assms(3) by auto
  from desc_norm_wrap [OF this m] d show thesis using that [OF d(1) 1 i 2] by simp
qed

lemma same_item:
  assumes "same d e" "desc_ty e t" "t = TList u \<or> t = TOpt u" "py_item e ''item'' = Inr b"
  obtains a where "py_item d ''item'' = Inr a" "same a b" "desc_ty a u" "desc_ty b u"
proof -
  have td: "desc_ty d t" using same_type [OF same_sym [OF assms(1)] assms(2)] .
  obtain kv where d: "d = PDict kv" "py_item d ''item'' = Inr (dget kv ''item'')"
    "desc_ty (dget kv ''item'') u" "good (dget kv ''item'')"
    "desc_norm d = JArr [canon (PDict (dpop kv ''item'')), desc_norm (dget kv ''item'')]"
    using wrapped_item [OF same_good(1) [OF assms(1)] td assms(3)] by metis
  obtain kw where e: "e = PDict kw" "py_item e ''item'' = Inr (dget kw ''item'')"
    "desc_ty (dget kw ''item'') u" "good (dget kw ''item'')"
    "desc_norm e = JArr [canon (PDict (dpop kw ''item'')), desc_norm (dget kw ''item'')]"
    using wrapped_item [OF same_good(2) [OF assms(1)] assms(2,3)] by metis
  have "same (dget kv ''item'') (dget kw ''item'')"
    using assms(1) d e by (simp add: same_def)
  with d e assms(4) show thesis using that by simp
qed

section \<open>Fields of records, variants and union tags\<close>

lemma canon_same: "good d \<Longrightarrow> good e \<Longrightarrow> canon d = canon e \<Longrightarrow> same d e"
  unfolding same_def using desc_norm_canon by blast

lemma structured_canon:
  assumes "same d e" "desc_ty e t" "kind_of t \<in> {''record'', ''union'', ''variant_case''}"
  obtains kv kw where "d = PDict kv" "e = PDict kw" "canon (PDict kv) = canon (PDict kw)"
    "dget kv ''kind'' = PStr (kind_of t)" "dget kw ''kind'' = PStr (kind_of t)"
proof -
  have td: "desc_ty d t" using same_type [OF same_sym [OF assms(1)] assms(2)] .
  obtain kv where d: "d = PDict kv" "dget kv ''kind'' = PStr (kind_of t)"
    using desc_ty_kind_of [OF td] by blast
  obtain kw where e: "e = PDict kw" "dget kw ''kind'' = PStr (kind_of t)"
    using desc_ty_kind_of [OF assms(2)] by blast
  have "PStr (kind_of t) \<notin> {PStr ''optional'', PStr ''list'', PStr ''map'', PStr ''path''}"
    using assms(3) by (cases t) simp_all
  then have "desc_norm d = canon d" "desc_norm e = canon e"
    unfolding d(1) e(1) d(2) [symmetric] using desc_norm_other d(2) e(2) by metis+
  with assms(1) d e show thesis using that by (simp add: same_def)
qed

lemma first_field_ty:
  "field_list_ty xs fs \<Longrightarrow>
   (case map_of fs f of
      None \<Rightarrow> first_field_type xs f = Inr None
    | Some t \<Rightarrow> \<exists>fkv. PDict fkv \<in> set xs \<and> first_field_type xs f = Inr (Some (dget fkv ''type''))
        \<and> desc_ty (dget fkv ''type'') t)"
proof (induction xs arbitrary: fs)
  case Nil
  then show ?case by simp
next
  case (Cons x xs)
  then obtain fkv n t fs' where x: "x = PDict fkv" "dget fkv ''name'' = PStr n"
      "desc_ty (dget fkv ''type'') t" "field_list_ty xs fs'" "fs = (n, t) # fs'"
    by auto
  have "dget fkv ''type'' \<noteq> PNone" using x(3) desc_ty_is_mapping by fastforce
  then have i: "py_item x ''name'' = Inr (PStr n)" "py_item x ''type'' = Inr (dget fkv ''type'')"
    using x(1,2) by (simp_all add: py_item_dget)
  show ?case
  proof (cases "n = f")
    case True
    with x i show ?thesis by auto
  next
    case False
    with Cons.IH [OF x(4)] x i show ?thesis by (auto split: option.splits)
  qed
qed

lemma first_field_canon:
  assumes "field_list_ty xs fs" "map canon xs = map canon ys" "first_field_type ys f = Inr (Some b)"
  shows "\<exists>a. first_field_type xs f = Inr (Some a) \<and> canon a = canon b"
  using assms
proof (induction xs arbitrary: fs ys)
  case Nil
  then show ?case by simp
next
  case (Cons x xs)
  from Cons.prems(2) obtain y zs where ys: "ys = y # zs" "canon x = canon y" "map canon xs = map canon zs"
    by (rule canon_seq_Cons)
  from Cons.prems(1) obtain fkv n t fs' where x: "x = PDict fkv" "dget fkv ''name'' = PStr n"
      "desc_ty (dget fkv ''type'') t" "field_list_ty xs fs'" by auto
  with ys(2) obtain kw where y: "y = PDict kw" and c: "canon (PDict fkv) = canon (PDict kw)"
    by (metis canon_dictE)
  have n: "dget kw ''name'' = PStr n" using canon_str_cong [OF canon_dget [OF c]] x(2) by blast
  have "desc_ty (dget kw ''type'') t" using desc_ty_canon(1) [OF x(3)] canon_dget [OF c] by blast
  then have "dget kw ''type'' \<noteq> PNone" "dget fkv ''type'' \<noteq> PNone"
    using x(3) desc_ty_is_mapping by fastforce+
  then have i: "py_item x ''name'' = Inr (PStr n)" "py_item x ''type'' = Inr (dget fkv ''type'')"
      "py_item y ''name'' = Inr (PStr n)" "py_item y ''type'' = Inr (dget kw ''type'')"
    using x(1,2) y n by (simp_all add: py_item_dget)
  show ?case
  proof (cases "n = f")
    case True
    with Cons.prems(3) ys i canon_dget [OF c] show ?thesis by auto
  next
    case False
    with Cons.IH [OF x(4) ys(3)] Cons.prems(3) ys i show ?thesis by auto
  qed
qed

lemma finite_field:
  "all_sub finite_float (PDict kv) \<Longrightarrow> PDict fkv \<in> set (seq_items (dget kv k)) \<Longrightarrow>
   all_sub finite_float (dget fkv k')"
  by (rule finite_dget, rule all_sub_seq, erule finite_dget)

lemma fields_item:
  assumes "fields_ty (dget kv k) fs"
  shows "py_item (PDict kv) k = Inr (dget kv k)" "py_iter (dget kv k) = Inr (seq_items (dget kv k))"
    "field_list_ty (seq_items (dget kv k)) fs"
proof -
  from assms have "is_sequence (dget kv k)" and l: "field_list_ty (seq_items (dget kv k)) fs"
    by (simp_all add: fields_ty_iff)
  moreover from this have "dget kv k \<noteq> PNone" by auto
  ultimately show "py_item (PDict kv) k = Inr (dget kv k)" "py_iter (dget kv k) = Inr (seq_items (dget kv k))"
      "field_list_ty (seq_items (dget kv k)) fs"
    by (simp_all add: py_item_dget)
qed

text \<open>A declared field has the same type in descriptors with the same canonical tree.\<close>

lemma declared_field:
  assumes c: "canon (PDict kv) = canon (PDict kw)"
    and fin: "all_sub finite_float (PDict kv)" "all_sub finite_float (PDict kw)"
    and fs: "fields_ty (dget kv ''fields'') fs"
    and b: "first_field_type (seq_items (dget kw ''fields'')) f = Inr (Some b)"
  obtains a t where "first_field_type (seq_items (dget kv ''fields'')) f = Inr (Some a)" "same a b"
    "map_of fs f = Some t" "desc_ty a t"
proof -
  note fv = fields_item [OF fs]
  have "fields_ty (dget kw ''fields'') fs" using desc_ty_canon(2) [OF fs canon_dget [OF c]] .
  note fw = fields_item [OF this]
  obtain a where a: "first_field_type (seq_items (dget kv ''fields'')) f = Inr (Some a)" "canon a = canon b"
    using first_field_canon [OF fv(3) _ b] canon_sequence [OF canon_dget [OF c, of "''fields''"]] by blast
  obtain t where t: "map_of fs f = Some t" using first_field_ty [OF fv(3), of f] a(1)
    by (auto split: option.splits)
  have "good a" "desc_ty a t"
    using first_field_ty [OF fv(3), of f] a(1) t finite_field [OF fin(1)] by (auto simp: good_def)
  moreover have "good b"
    using first_field_ty [OF fw(3), of f] b t finite_field [OF fin(2)] by (auto simp: good_def)
  ultimately show thesis using that a t canon_same by blast
qed

text \<open>A value that coercion leaves unchanged has every declared field, each unchanged in turn.\<close>

lemma fixed_fields:
  assumes r: "map_r (field_step vkv) fs = Inr r" and "distinct (map fst fs)"
    and f: "map_of fs f = Some t" and eq: "map_of vkv f = map_of r f"
  shows "\<exists>x. map_of vkv f = Some x \<and> coerce_ty t x = Inr x"
proof -
  obtain q where q: "q \<in> set r" "field_step vkv (f, t) = Inr q"
    using map_r_Inr_memD [OF r map_of_SomeD [OF f]] by blast
  then obtain x y where x: "map_of vkv f = Some x" "coerce_ty t x = Inr y" "q = (f, y)"
    by (auto simp: result_simps split: option.splits)
  have "map_of r f = Some y"
    using q(1) x(3) field_entries(1) [OF r] assms(2) by (simp add: map_of_eq_Some_iff)
  with x eq show ?thesis by simp
qed

lemma fixed_record:
  assumes "coerce_ty (TRec fs) v = Inr v" "distinct (map fst fs)" "map_of fs f = Some t"
  shows "\<exists>vkv x. v = PDict vkv \<and> map_of vkv f = Some x \<and> coerce_ty t x = Inr x"
proof -
  from assms(1) obtain vkv where "v = PDict vkv" "map_r (field_step vkv) fs = Inr vkv"
    by (cases v) (auto simp: result_simps split: if_splits)
  with fixed_fields [OF _ assms(2,3)] show ?thesis by blast
qed

lemma fixed_case:
  assumes "coerce_ty (TCase c fs) v = Inr v"
  obtains r where "v = PDict ((''variant'', PStr c) # r)"
    "map_r (field_step ((''variant'', PStr c) # r)) fs = Inr r"
  using assms by (cases v) (auto simp: result_simps split: if_splits)

lemma fixed_union:
  assumes "coerce_ty (TUnion vs) v = Inr v"
  obtains r n where "v = PDict ((''variant'', PStr n) # r)" "n \<in> fst ` set vs"
proof -
  from assms obtain vkv fs r where "v = PDict vkv" "nonempty_str (dget vkv ''variant'')"
      "map_of vs (str_of (dget vkv ''variant'')) = Some fs" "(''variant'', dget vkv ''variant'') # r = vkv"
    by (cases v) (auto simp: result_simps split: if_splits option.splits)
  then show thesis using that by (metis image_eqI fst_conv map_of_SomeD nonempty_strE str_simps(17))
qed

lemma enum_of_ty: "nonempty_str n \<Longrightarrow> xs \<noteq> [] \<Longrightarrow> desc_ty (enum_of n (map PStr xs)) (TEnum xs)"
  by (auto simp: enum_of_def desc_ty_enum)

lemma same_enum_of:
  assumes "canon n = canon m" "nonempty_str n" "xs \<noteq> []"
  shows "same (enum_of n (map PStr xs)) (enum_of m (map PStr xs))"
proof -
  have m: "nonempty_str m" using assms canon_nonempty_str by blast
  have fin: "nonempty_str k \<Longrightarrow> all_sub finite_float (enum_of k (map PStr xs))" for k
    by (auto simp: enum_of_def finite_float_def list_all_iff elim: nonempty_strE)
  show ?thesis
    using assms m fin enum_of_ty by (intro canon_same) (auto simp: good_def enum_of_def)
qed

lemma field_type_kind:
  assumes "desc_ty (PDict kv) t"
  shows "t = TRec fs \<Longrightarrow> field_type (PDict kv) f =
      rbind (first_field_type (seq_items (dget kv ''fields'')) f) (\<lambda>r.
       (case r of Some t \<Rightarrow> Inr t | None \<Rightarrow> Inl (PureExprEvaluationError ''record_field_unknown'')))"
    and "t = TCase c fs \<Longrightarrow> field_type (PDict kv) f =
      (if f = ''variant'' then Inr (enum_of (dget kv ''union_name'') (map PStr [c]))
       else rbind (first_field_type (seq_items (dget kv ''fields'')) f) (\<lambda>r.
       (case r of Some t \<Rightarrow> Inr t | None \<Rightarrow> Inl type_mismatch)))"
    and "t = TUnion vs \<Longrightarrow> field_type (PDict kv) f =
      (if f = ''variant'' then Inr (enum_of (dget kv ''name'') (map PStr (map fst vs))) else Inl type_mismatch)"
    and "kind_of t \<notin> {''record'', ''union'', ''variant_case''} \<Longrightarrow> field_type (PDict kv) f \<noteq> Inr x"
proof -
  note k = descriptor_kind_ty [OF assms]
  obtain k' where kd: "dget kv ''kind'' = PStr (kind_of t)" using desc_ty_kind_of [OF assms] by auto
  {
    assume t: "t = TRec fs"
    with assms kd have "fields_ty (dget kv ''fields'') fs" by (simp add: desc_ty_record)
    note fi = fields_item [OF this]
    show "field_type (PDict kv) f = rbind (first_field_type (seq_items (dget kv ''fields'')) f) (\<lambda>r.
       (case r of Some t \<Rightarrow> Inr t | None \<Rightarrow> Inl (PureExprEvaluationError ''record_field_unknown'')))"
      by (simp add: field_type_def k t fi)
  next
    assume t: "t = TCase c fs"
    with assms kd have c: "fields_ty (dget kv ''fields'') fs" "nonempty_str (dget kv ''union_name'')"
        "dget kv ''variant'' = PStr c" by (simp_all add: desc_ty_variant_case)
    note fi = fields_item [OF c(1)]
    have "py_item (PDict kv) ''union_name'' = Inr (dget kv ''union_name'')"
        "py_item (PDict kv) ''variant'' = Inr (PStr c)"
      using c by (auto simp: py_item_dget elim: nonempty_strE)
    then show "field_type (PDict kv) f =
      (if f = ''variant'' then Inr (enum_of (dget kv ''union_name'') (map PStr [c]))
       else rbind (first_field_type (seq_items (dget kv ''fields'')) f) (\<lambda>r.
       (case r of Some t \<Rightarrow> Inr t | None \<Rightarrow> Inl type_mismatch)))"
      by (simp add: field_type_def k t fi)
  next
    assume t: "t = TUnion vs"
    with assms kd have c: "variants_ty (seq_items (dget kv ''variants'')) vs" "is_sequence (dget kv ''variants'')"
        "nonempty_str (dget kv ''name'')" by (simp_all add: desc_ty_union)
    have names: "variants_ty xs vs \<Longrightarrow> map_r (\<lambda>variant. py_item variant ''name'') xs = Inr (map PStr (map fst vs))" for xs
      by (induction xs arbitrary: vs) (auto simp: py_item_dget)
    have "py_item (PDict kv) ''name'' = Inr (dget kv ''name'')"
        "py_item (PDict kv) ''variants'' = Inr (dget kv ''variants'')"
      using c(2,3) by (intro py_item_dget; fastforce)+
    with c(2) names [OF c(1)] show "field_type (PDict kv) f =
      (if f = ''variant'' then Inr (enum_of (dget kv ''name'') (map PStr (map fst vs))) else Inl type_mismatch)"
      by (simp add: field_type_def k t)
  next
    assume "kind_of t \<notin> {''record'', ''union'', ''variant_case''}"
    then show "field_type (PDict kv) f \<noteq> Inr x" by (simp add: field_type_def k)
  }
qed

lemma enum_member: "n \<in> set xs \<Longrightarrow> nonempty_str m \<Longrightarrow> coerce_value (PStr n) (enum_of m (map PStr xs)) = Inr (PStr n)"
proof -
  assume *: "n \<in> set xs" "nonempty_str m"
  then have "desc_ty (enum_of m (map PStr xs)) (TEnum xs)" by (intro enum_of_ty) auto
  with * show ?thesis by (simp add: coerce_value_ty)
qed

theorem same_field_type:
  assumes "same d e" "field_type e f = Inr b"
  shows "\<exists>a. field_type d f = Inr a \<and> same a b \<and>
    (\<forall>v. coerce_value v d = Inr v \<longrightarrow>
      (\<exists>vkv x. v = PDict vkv \<and> map_of vkv f = Some x \<and> coerce_value x a = Inr x))"
proof -
  obtain t where te: "desc_ty e t" using assms(1) same_good(2) goodD by blast
  then have td: "desc_ty d t" using same_type [OF same_sym [OF assms(1)]] by blast
  have wf: "wf_ty t" using desc_ty_wf(1) [OF td] .
  obtain kw' where e': "e = PDict kw'" using desc_ty_is_mapping [OF te] by blast
  have kind: "kind_of t \<in> {''record'', ''union'', ''variant_case''}"
    using field_type_kind(4) [of kw' t f b] te assms(2) e' by blast
  obtain kv kw where d: "d = PDict kv" and e: "e = PDict kw" and c: "canon (PDict kv) = canon (PDict kw)"
      and k: "dget kv ''kind'' = PStr (kind_of t)" "dget kw ''kind'' = PStr (kind_of t)"
    by (rule structured_canon [OF assms(1) te kind])
  have fin: "all_sub finite_float (PDict kv)" "all_sub finite_float (PDict kw)"
    using assms(1) same_good good_finite d e by blast+
  note ft = field_type_kind [OF td [unfolded d]] field_type_kind [OF te [unfolded e]]
  show ?thesis
  proof (cases t)
    case (TRec fs)
    with td k d have fs: "fields_ty (dget kv ''fields'') fs" by (simp add: desc_ty_record)
    from assms(2) have "first_field_type (seq_items (dget kw ''fields'')) f = Inr (Some b)"
      unfolding e ft(5) [OF TRec] by (auto simp: result_simps split: option.splits)
    then obtain a u where a: "first_field_type (seq_items (dget kv ''fields'')) f = Inr (Some a)" "same a b"
        "map_of fs f = Some u" "desc_ty a u"
      by (rule declared_field [OF c fin fs])
    have "field_type d f = Inr a" unfolding d ft(1) [OF TRec] by (simp add: a)
    moreover have "\<exists>vkv x. v = PDict vkv \<and> map_of vkv f = Some x \<and> coerce_value x a = Inr x"
      if "coerce_value v d = Inr v" for v
      using fixed_record [of fs v f u] that td wf TRec a by (auto simp: coerce_value_ty)
    ultimately show ?thesis using a(2) by blast
  next
    case (TCase n fs)
    with td k d have fs: "fields_ty (dget kv ''fields'') fs" "nonempty_str (dget kv ''union_name'')"
      by (simp_all add: desc_ty_variant_case)
    show ?thesis
    proof (cases "f = ''variant''")
      case True
      have "same (enum_of (dget kv ''union_name'') (map PStr [n])) (enum_of (dget kw ''union_name'') (map PStr [n]))"
        using same_enum_of [OF canon_dget [OF c] fs(2)] by blast
      moreover have "field_type d f = Inr (enum_of (dget kv ''union_name'') (map PStr [n]))"
          "b = enum_of (dget kw ''union_name'') (map PStr [n])"
        using assms(2) unfolding d e ft(2) [OF TCase] ft(6) [OF TCase] by (simp_all add: True)
      moreover have "\<exists>vkv x. v = PDict vkv \<and> map_of vkv f = Some x
          \<and> coerce_value x (enum_of (dget kv ''union_name'') (map PStr [n])) = Inr x"
        if "coerce_value v d = Inr v" for v
      proof -
        from that td TCase obtain r where "v = PDict ((''variant'', PStr n) # r)"
          by (auto simp: coerce_value_ty [OF td] simp del: coerce_ty.simps elim: fixed_case)
        with enum_member [of n "[n]", OF _ fs(2)] True show ?thesis by auto
      qed
      ultimately show ?thesis by blast
    next
      case False
      from assms(2) have "first_field_type (seq_items (dget kw ''fields'')) f = Inr (Some b)"
        unfolding e ft(6) [OF TCase] using False by (auto simp: result_simps split: option.splits)
      then obtain a u where a: "first_field_type (seq_items (dget kv ''fields'')) f = Inr (Some a)" "same a b"
          "map_of fs f = Some u" "desc_ty a u"
        by (rule declared_field [OF c fin fs(1)])
      have "field_type d f = Inr a" unfolding d ft(2) [OF TCase] by (simp add: a False)
      moreover have "\<exists>vkv x. v = PDict vkv \<and> map_of vkv f = Some x \<and> coerce_value x a = Inr x"
        if "coerce_value v d = Inr v" for v
      proof -
        from that td TCase obtain r where r: "v = PDict ((''variant'', PStr n) # r)"
            "map_r (field_step ((''variant'', PStr n) # r)) fs = Inr r"
          by (auto simp: coerce_value_ty [OF td] simp del: coerce_ty.simps elim: fixed_case)
        from wf TCase have "distinct (map fst fs)" by simp
        from fixed_fields [OF r(2) this a(3)] False r(1) a(4) show ?thesis
          by (auto simp: coerce_value_ty)
      qed
      ultimately show ?thesis using a(2) by blast
    qed
  next
    case (TUnion vs)
    with td k d have vs: "nonempty_str (dget kv ''name'')" "map fst vs \<noteq> []"
      by (simp_all add: desc_ty_union)
    from assms(2) have f: "f = ''variant''" and b: "b = enum_of (dget kw ''name'') (map PStr (map fst vs))"
      unfolding e ft(7) [OF TUnion] by (auto split: if_splits)
    have "same (enum_of (dget kv ''name'') (map PStr (map fst vs))) b"
      unfolding b using same_enum_of [OF canon_dget [OF c] vs] by blast
    moreover have "field_type d f = Inr (enum_of (dget kv ''name'') (map PStr (map fst vs)))"
      unfolding d ft(3) [OF TUnion] by (simp add: f)
    moreover have "\<exists>vkv x. v = PDict vkv \<and> map_of vkv f = Some x
        \<and> coerce_value x (enum_of (dget kv ''name'') (map PStr (map fst vs))) = Inr x"
      if "coerce_value v d = Inr v" for v
    proof -
      from that have "coerce_ty (TUnion vs) v = Inr v"
        unfolding coerce_value_ty [OF td] TUnion .
      then obtain r n where r: "v = PDict ((''variant'', PStr n) # r)" "n \<in> fst ` set vs"
        by (rule fixed_union)
      from enum_member [of n "map fst vs", OF _ vs(1)] r f show ?thesis by auto
    qed
    ultimately show ?thesis by blast
  qed (use kind in simp_all)
qed

end
