(* ===== verification/OperatorSound.thy ===== *)
theory OperatorSound
  imports PureExprTypes
begin

text \<open>
  Type soundness of the operators: arguments that inhabit the statically derived types never
  raise anything but a run-time error (64-bit overflow), and the result inhabits the derived
  result type. The predicate \<open>safe\<close> is the contract all soundness lemmas share.
\<close>

section \<open>Safe outcomes\<close>

definition runtime_errors :: "exc list" where
  "runtime_errors = map PureExprEvaluationError
     [''pure_expr_overflow'', ''pure_expr_binding_missing'', ''list_nonempty_invariant_broken'',
      ''path_join_under_child_invalid'', ''path_join_under_escape'']"

definition safe :: "('a \<Rightarrow> bool) \<Rightarrow> exc + 'a \<Rightarrow> bool" where
  "safe P m = (case m of Inl e \<Rightarrow> e \<in> set runtime_errors | Inr x \<Rightarrow> P x)"

definition typed :: "pyval \<Rightarrow> typed_value \<Rightarrow> bool" where
  "typed S tv = (same (fst tv) S \<and> coerce_value (snd tv) (fst tv) = Inr (snd tv))"

lemma safe_Inr [simp]: "safe P (Inr x) = P x"
  by (simp add: safe_def)

lemma safe_bind: "safe P m \<Longrightarrow> (\<And>x. m = Inr x \<Longrightarrow> P x \<Longrightarrow> safe Q (f x)) \<Longrightarrow> safe Q (rbind m f)"
  by (cases m) (auto simp: safe_def)

lemma safe_mono: "safe P m \<Longrightarrow> (\<And>x. m = Inr x \<Longrightarrow> P x \<Longrightarrow> Q x) \<Longrightarrow> safe Q m"
  by (cases m) (auto simp: safe_def)

lemma safe_map_r:
  "(\<And>x. x \<in> set xs \<Longrightarrow> safe (P x) (f x)) \<Longrightarrow> safe (list_all2 P xs) (map_r f xs)"
proof (induction xs)
  case (Cons x xs)
  have "safe (P x) (f x)" "safe (list_all2 P xs) (map_r f xs)" using Cons by simp_all
  then show ?case by (auto intro!: safe_bind [where P = "P x"] safe_bind [where P = "list_all2 P xs"])
qed simp

lemma checked_int_safe: "safe (\<lambda>v. v = PInt i \<and> INT64_MIN \<le> i \<and> i \<le> INT64_MAX) (checked_int i)"
  by (simp add: safe_def checked_int_def runtime_errors_def)

lemma typed_good: "typed S tv \<Longrightarrow> good S" "typed S tv \<Longrightarrow> good (fst tv)"
  by (simp_all add: typed_def same_def)

lemma typed_coerce: "typed S tv \<Longrightarrow> same S T \<Longrightarrow> coerce_value (snd tv) T = Inr (snd tv)"
  unfolding typed_def using same_coerce same_trans by metis

lemma typedI: "good S \<Longrightarrow> desc_ty S t \<Longrightarrow> coerce_ty t v = Inr v \<Longrightarrow> typed S (S, v)"
  by (simp add: typed_def same_refl coerce_value_ty)

lemma typed_ty: "typed S tv \<Longrightarrow> desc_ty S t \<Longrightarrow> desc_ty (fst tv) t \<and> coerce_ty t (snd tv) = Inr (snd tv)"
  unfolding typed_def using same_type same_sym coerce_value_ty by metis

section \<open>Values of primitive types\<close>

lemma int_value: "coerce_ty (TPrim ''Int'') v = Inr w \<longleftrightarrow> (\<exists>i. v = PInt i \<and> w = v \<and> INT64_MIN \<le> i \<and> i \<le> INT64_MAX)"
  by (cases v) (auto simp: coerce_primitive_def checked_int_def)

lemma bool_value: "coerce_ty (TPrim ''Bool'') v = Inr w \<longleftrightarrow> (\<exists>b. v = PBool b \<and> w = v)"
  by (cases v) (auto simp: coerce_primitive_def)

lemma float_value: "coerce_ty (TPrim ''Float'') v = Inr w \<longleftrightarrow> (\<exists>f. v = PFloat f \<and> w = v)"
  by (cases v) (auto simp: coerce_primitive_def)

lemma string_value:
  "n \<in> {''String'', ''Symbol''} \<Longrightarrow> coerce_ty (TPrim n) v = Inr w \<longleftrightarrow> (\<exists>s. v = PStr s \<and> w = v)"
  by (cases v) (auto simp: coerce_primitive_def)

lemma list_value:
  "coerce_ty (TList t) v = Inr v \<longleftrightarrow> (\<exists>xs. v = PList xs \<and> (\<forall>x \<in> set xs. coerce_ty t x = Inr x))" (is "?L \<longleftrightarrow> ?R")
proof
  assume ?L
  then obtain ys where "v = PList ys" "map_r (coerce_ty t) ys = Inr ys"
    by (auto simp: result_simps split: if_splits)
  then show ?R by (auto simp: map_r_Inr_iff list_all2_conv_all_nth in_set_conv_nth)
next
  assume ?R
  then obtain xs where "v = PList xs" "map_r (coerce_ty t) xs = Inr xs"
    using map_r_id [of _ "coerce_ty t"] by blast
  then show ?L by simp
qed

lemma bool_typed: "typed bool_type (bool_type, PBool b)"
  by (rule typedI [OF _ built_in_types(1)]) (simp_all only: good_built_in bool_value, simp)

lemma int_typed: "INT64_MIN \<le> i \<Longrightarrow> i \<le> INT64_MAX \<Longrightarrow> typed int_type (int_type, PInt i)"
  by (rule typedI [OF _ built_in_types(2)]) (simp_all only: good_built_in int_value, simp)

lemma string_typed: "typed string_type (string_type, PStr s)"
  by (rule typedI [OF _ built_in_types(3)]) (simp_all add: coerce_primitive_def)

section \<open>Argument types\<close>

lemma require_equality_same:
  assumes "same l' l" "same r' r"
  shows "require_equality_types l' r' = require_equality_types l r"
proof -
  obtain t u where ty: "desc_ty l t" "desc_ty r u" using assms same_good(2) goodD by blast
  then have ty': "desc_ty l' t" "desc_ty r' u" using assms same_type same_sym by blast+
  have "desc_norm l' = desc_norm l" "desc_norm r' = desc_norm r" using assms by (simp_all add: same_def)
  then have m: "descriptors_match l' r' = descriptors_match l r"
    using assms match_good same_good by metis
  show ?thesis
    unfolding require_equality_types_def is_float_type_def m
    by (simp only: is_primitive_type_ty [OF ty(1)] is_primitive_type_ty [OF ty(2)]
        is_primitive_type_ty [OF ty'(1)] is_primitive_type_ty [OF ty'(2)]
        is_union_like_ty [OF ty(1)] is_union_like_ty [OF ty(2)] is_union_like_ty [OF ty'(1)] is_union_like_ty [OF ty'(2)]
        type_supports_equality_ty [OF ty(1)] type_supports_equality_ty [OF ty'(1)])
qed

lemma require_ordering_same:
  assumes "same l' l" "same r' r" "require_ordering_types l r = Inr ()"
  shows "require_ordering_types l' r' = Inr ()"
    and "desc_ty l (TPrim ''Int'') \<and> desc_ty r (TPrim ''Int'') \<or> desc_ty l (TPrim ''Float'') \<and> desc_ty r (TPrim ''Float'')"
proof -
  obtain t where t: "desc_ty l t" using assms(1) same_good(2) goodD by blast
  then have t': "desc_ty l' t" using assms(1) same_type same_sym by blast
  note g = assms(1,2) [THEN same_good(1)] assms(1,2) [THEN same_good(2)]
  from assms(3) have lr: "same l r" and k: "t = TPrim ''Int'' \<or> t = TPrim ''Float''"
    by (auto simp: require_ordering_types_def result_simps is_primitive_type_ty [OF t] require_matching_same [OF g(3,4)])
  have "same l' r'" using same_trans [OF assms(1) same_trans [OF lr same_sym [OF assms(2)]]] .
  then show "require_ordering_types l' r' = Inr ()"
    using k by (auto simp: require_ordering_types_def is_primitive_type_ty [OF t'] require_matching_good [OF g(1,2)] same_def)
  show "desc_ty l (TPrim ''Int'') \<and> desc_ty r (TPrim ''Int'') \<or> desc_ty l (TPrim ''Float'') \<and> desc_ty r (TPrim ''Float'')"
    using k t same_type [OF lr t] by auto
qed

lemma two_args_Inr: "two_args xs f = Inr y \<longleftrightarrow> (\<exists>a b. xs = [a, b] \<and> f a b = Inr y)"
  by (auto simp: two_args_def split: list.splits)

lemma arg_at_Inr [result_simps]: "arg_at xs i = Inr x \<longleftrightarrow> i < length xs \<and> x = xs ! i"
  by (auto simp: arg_at_def)

lemma guard_Inr: "(if b then Inl e else m) = Inr x \<longleftrightarrow> \<not> b \<and> m = Inr x"
  by simp

lemma args_at:
  assumes "list_all2 (\<lambda>tv S. typed S tv) args Ss" "i < length Ss"
  shows "arg_at (map fst args) i = Inr (fst (args ! i))" "arg_at (map snd args) i = Inr (snd (args ! i))"
    "typed (Ss ! i) (args ! i)"
  using assms by (simp_all add: arg_at_def list_all2_conv_all_nth)

lemma args_same: "list_all2 (\<lambda>tv S. typed S tv) args Ss \<Longrightarrow> \<forall>d \<in> set Ss. good d"
  "list_all2 (\<lambda>tv S. typed S tv) args Ss \<Longrightarrow> \<forall>d \<in> set (map fst args). good d"
  by (induction rule: list_all2_induct) (auto dest: typed_good)

lemma args_primitive:
  assumes "list_all2 (\<lambda>tv S. typed S tv) args Ss" "\<forall>d \<in> set Ss. desc_ty d (TPrim n)"
  shows "\<forall>d \<in> set (map fst args). desc_ty d (TPrim n)"
    and "\<forall>v \<in> set (map snd args). coerce_ty (TPrim n) v = Inr v"
  using assms by (induction rule: list_all2_induct) (auto simp del: coerce_ty.simps dest: typed_ty)

section \<open>Arithmetic\<close>

lemma fold_checked_safe:
  assumes "\<forall>v \<in> set vs. coerce_ty (TPrim ''Int'') v = Inr v" "INT64_MIN \<le> init" "init \<le> INT64_MAX"
  shows "safe (\<lambda>i. INT64_MIN \<le> i \<and> i \<le> INT64_MAX) (fold_checked f init vs)"
  using assms
proof (induction vs arbitrary: init)
  case Nil
  then show ?case by (simp add: fold_checked_def)
next
  case (Cons v vs)
  then obtain i where v: "v = PInt i" by (auto simp: int_value simp del: coerce_ty.simps)
  have "safe (\<lambda>i. INT64_MIN \<le> i \<and> i \<le> INT64_MAX) (fold_checked f (f init i) vs)"
    if "INT64_MIN \<le> f init i" "f init i \<le> INT64_MAX"
    using Cons.IH Cons.prems(1) that by simp
  then show ?case
    by (auto simp: fold_checked_def v int_operand_def rbind_assoc intro!: safe_bind [OF checked_int_safe])
qed

lemma int_bounds_fold:
  fixes f :: "int \<Rightarrow> int \<Rightarrow> int"
  assumes "\<And>a b. P a \<Longrightarrow> P b \<Longrightarrow> P (f a b)" "P i" "\<forall>j \<in> set js. P j"
  shows "P (fold (\<lambda>j m. f m j) js i)"
  using assms(2,3) by (induction js arbitrary: i) (auto intro: assms(1))

lemma int_operands:
  "\<forall>v \<in> set vs. coerce_ty (TPrim ''Int'') v = Inr v \<Longrightarrow>
   \<exists>is. map_r int_operand vs = Inr is \<and> (\<forall>i \<in> set is. INT64_MIN \<le> i \<and> i \<le> INT64_MAX) \<and> length is = length vs"
  by (induction vs) (auto simp: int_value int_operand_def simp del: coerce_ty.simps)

lemma least_arg_safe:
  assumes "\<forall>v \<in> set vs. coerce_ty (TPrim ''Int'') v = Inr v" "vs \<noteq> []"
    and "\<And>a b. f a b = a \<or> f a b = b"
  shows "safe (\<lambda>v. \<exists>i. v = PInt i \<and> INT64_MIN \<le> i \<and> i \<le> INT64_MAX) (least_arg f vs)"
proof -
  obtain "is" where i: "map_r int_operand vs = Inr is" "\<forall>i \<in> set is. INT64_MIN \<le> i \<and> i \<le> INT64_MAX" "is \<noteq> []"
    using int_operands [OF assms(1)] assms(2) by fastforce
  then obtain j js where js: "is = j # js" by (cases "is") auto
  have "INT64_MIN \<le> fold (\<lambda>j m. f m j) js j \<and> fold (\<lambda>j m. f m j) js j \<le> INT64_MAX"
    by (rule int_bounds_fold [where P = "\<lambda>i. INT64_MIN \<le> i \<and> i \<le> INT64_MAX"])
      (use i js assms(3) in \<open>auto; metis\<close>)+
  with i(1) js show ?thesis by (simp add: least_arg_def)
qed

lemma evaluate_arithmetic_safe:
  assumes "\<forall>v \<in> set vs. coerce_ty (TPrim ''Int'') v = Inr v" "2 \<le> length vs"
  shows "safe (\<lambda>v. \<exists>i. v = PInt i \<and> INT64_MIN \<le> i \<and> i \<le> INT64_MAX) (evaluate_arithmetic op vs)"
proof -
  have b: "INT64_MIN \<le> 0" "0 \<le> INT64_MAX" "INT64_MIN \<le> 1" "1 \<le> INT64_MAX"
    by (simp_all add: INT64_MIN_def INT64_MAX_def)
  have sub: "safe (\<lambda>v. \<exists>i. v = PInt i \<and> INT64_MIN \<le> i \<and> i \<le> INT64_MAX)
      (rbind (arg_at vs 0) (\<lambda>a. rbind (arg_at vs 1) (\<lambda>b.
        rbind (int_operand a) (\<lambda>i. rbind (int_operand b) (\<lambda>j. checked_int (i - j))))))"
  proof -
    have len: "0 < length vs" "1 < length vs" using assms(2) by linarith+
    then have "vs ! 0 \<in> set vs" "vs ! 1 \<in> set vs" by (auto intro: nth_mem)
    then obtain i j where "vs ! 0 = PInt i" "vs ! 1 = PInt j"
      using assms(1) unfolding int_value by metis
    with len show ?thesis
      by (auto simp: arg_at_def int_operand_def intro: safe_mono [OF checked_int_safe])
  qed
  have mm: "min a b = a \<or> min a b = b" "max a b = a \<or> max a b = b" for a b :: int by linarith+
  have ne: "vs \<noteq> []" using assms(2) by auto
  show ?thesis
    unfolding evaluate_arithmetic_def
    using sub least_arg_safe [OF assms(1) ne mm(1)] least_arg_safe [OF assms(1) ne mm(2)]
      safe_bind [OF fold_checked_safe [OF assms(1) b(1,2)], where f = "\<lambda>i. Inr (PInt i)"]
      safe_bind [OF fold_checked_safe [OF assms(1) b(3,4)], where f = "\<lambda>i. Inr (PInt i)"]
    by (simp only: if_split safe_Inr) simp
qed

section \<open>Operators by group\<close>

lemma equality_sound:
  assumes "list_all2 (\<lambda>tv S. typed S tv) args Ss"
    and "two_args Ss (\<lambda>l r. rbind (require_equality_types l r) (\<lambda>_. Inr bool_type)) = Inr S"
  shows "safe (typed S) (two_args args (\<lambda>(l, a) (r, b). rbind (require_equality_types l r) (\<lambda>_.
        Inr (bool_type, PBool (f a b)))))"
proof -
  from assms(2) obtain l r where ss: "Ss = [l, r]" "require_equality_types l r = Inr ()" "S = bool_type"
    by (auto simp: two_args_Inr result_simps)
  from assms(1) ss(1) obtain l' a r' b where args: "args = [(l', a), (r', b)]" "typed l (l', a)" "typed r (r', b)"
    by (auto simp: list_all2_Cons2)
  have "require_equality_types l' r' = Inr ()"
    using require_equality_same [of l' l r' r] args(2,3) ss(2) by (simp add: typed_def)
  then show ?thesis using args(1) ss(3) bool_typed by (simp add: two_args_def)
qed

lemma evaluate_ordering_total:
  assumes "op \<in> {''<'', ''<='', ''>'', ''>=''}" "py_num a = Some x" "py_num b = Some y"
  shows "\<exists>c. evaluate_ordering op a b = Inr c"
  using assms by (auto simp: evaluate_ordering_def py_less_def py_le_def)

lemma ordering_sound:
  assumes "list_all2 (\<lambda>tv S. typed S tv) args Ss" and op: "op \<in> {''<'', ''<='', ''>'', ''>=''}"
    and "two_args Ss (\<lambda>l r. rbind (require_ordering_types l r) (\<lambda>_. Inr bool_type)) = Inr S"
  shows "safe (typed S) (two_args args (\<lambda>(l, a) (r, b). rbind (require_ordering_types l r) (\<lambda>_.
        rbind (evaluate_ordering op a b) (\<lambda>c. Inr (bool_type, PBool c)))))"
proof -
  from assms(3) obtain l r where ss: "Ss = [l, r]" "require_ordering_types l r = Inr ()" "S = bool_type"
    by (auto simp: two_args_Inr result_simps)
  from assms(1) ss(1) obtain l' a r' b where args: "args = [(l', a), (r', b)]" "typed l (l', a)" "typed r (r', b)"
    by (auto simp: list_all2_Cons2)
  then have same: "same l' l" "same r' r" by (simp_all add: typed_def)
  note ro = require_ordering_same [OF same ss(2)]
  have "(\<exists>i j. a = PInt i \<and> b = PInt j) \<or> (\<exists>x y. a = PFloat x \<and> b = PFloat y)"
    using ro(2) typed_ty [OF args(2), of "TPrim ''Int''"] typed_ty [OF args(2), of "TPrim ''Float''"]
      typed_ty [OF args(3), of "TPrim ''Int''"] typed_ty [OF args(3), of "TPrim ''Float''"]
    unfolding int_value float_value by fastforce
  then obtain x y where "py_num a = Some x" "py_num b = Some y" by auto
  then obtain c where "evaluate_ordering op a b = Inr c" using evaluate_ordering_total [OF op] by blast
  with ro(1) args(1) ss(3) bool_typed show ?thesis by (simp add: two_args_def)
qed

lemma boolean_sound:
  assumes "list_all2 (\<lambda>tv S. typed S tv) args Ss" "rbind (require_all Ss ''Bool'') (\<lambda>_. Inr bool_type) = Inr S"
  shows "safe (typed S) (rbind (require_all (map fst args) ''Bool'') (\<lambda>_. Inr (bool_type, PBool b)))"
proof -
  from assms(2) have S: "S = bool_type" "\<forall>d \<in> set Ss. desc_ty d (TPrim ''Bool'')"
    using require_all_iff [OF args_same(1) [OF assms(1)]] by (auto simp: result_simps)
  then have "require_all (map fst args) ''Bool'' = Inr ()"
    using require_all_iff [OF args_same(2) [OF assms(1)]] args_primitive(1) [OF assms(1)] by blast
  with S(1) bool_typed show ?thesis by simp
qed

lemma arithmetic_sound:
  assumes "list_all2 (\<lambda>tv S. typed S tv) args Ss" "rbind (require_all Ss ''Int'') (\<lambda>_. Inr int_type) = Inr S"
    and "2 \<le> length Ss"
  shows "safe (typed S) (rbind (require_all (map fst args) ''Int'') (\<lambda>_.
    rbind (evaluate_arithmetic op (map snd args)) (\<lambda>v. Inr (int_type, v))))"
proof -
  from assms(2) have S: "S = int_type" "\<forall>d \<in> set Ss. desc_ty d (TPrim ''Int'')"
    using require_all_iff [OF args_same(1) [OF assms(1)]] by (auto simp: result_simps)
  note prim = args_primitive [OF assms(1) S(2)]
  then have "require_all (map fst args) ''Int'' = Inr ()"
    using require_all_iff [OF args_same(2) [OF assms(1)]] by blast
  moreover have "2 \<le> length (map snd args)" using assms(1,3) by (simp add: list_all2_lengthD)
  ultimately show ?thesis
    using S(1) by (auto intro!: safe_bind [OF evaluate_arithmetic_safe [OF prim(2)]] int_typed)
qed

lemma concat_sound:
  assumes "list_all2 (\<lambda>tv S. typed S tv) args Ss" "rbind (require_concat_types Ss) (\<lambda>_. Inr string_type) = Inr S"
  shows "safe (typed S) (rbind (require_concat_types (map fst args)) (\<lambda>_.
    rbind (map_r str_operand (map snd args)) (\<lambda>ss. Inr (string_type, PStr (concat ss)))))"
proof -
  from assms(2) have S: "S = string_type" "\<forall>d \<in> set Ss. desc_ty d (TPrim ''String'')"
    using require_concat_iff [OF args_same(1) [OF assms(1)]] by (auto simp: result_simps)
  note prim = args_primitive [OF assms(1) S(2)]
  then have "require_concat_types (map fst args) = Inr ()"
    using require_concat_iff [OF args_same(2) [OF assms(1)]] by blast
  moreover have "\<forall>v \<in> set vs. coerce_ty (TPrim ''String'') v = Inr v \<Longrightarrow> \<exists>ss. map_r str_operand vs = Inr ss" for vs
    by (induction vs) (auto simp: string_value str_operand_def simp del: coerce_ty.simps)
  ultimately show ?thesis using S(1) prim(2) string_typed by fastforce
qed

lemma unary_sound:
  assumes "list_all2 (\<lambda>tv S. typed S tv) args Ss"
    and "rbind (arg_at Ss 0) (\<lambda>t. rbind (require_primitive t n) (\<lambda>_. Inr T)) = Inr S"
    and "\<And>v. coerce_ty (TPrim n) v = Inr v \<Longrightarrow> typed T (T, f v)"
  shows "safe (typed S) (rbind (arg_at (map fst args) 0) (\<lambda>t. rbind (require_primitive t n) (\<lambda>_.
    rbind (arg_at (map snd args) 0) (\<lambda>v. Inr (T, f v)))))"
proof -
  from assms(2) have S: "S = T" "0 < length Ss" "require_primitive (Ss ! 0) n = Inr ()"
    by (auto simp: result_simps)
  note at = args_at [OF assms(1) S(2)]
  have "desc_ty (Ss ! 0) (TPrim n)" using S(3) require_primitive_iff typed_good(1) [OF at(3)] by blast
  from typed_ty [OF at(3) this] have p: "desc_ty (fst (args ! 0)) (TPrim n)"
      "coerce_ty (TPrim n) (snd (args ! 0)) = Inr (snd (args ! 0))" by blast+
  from require_primitive_ty [OF p(1), of n] assms(3) [OF p(2)] at(1,2) S(1) show ?thesis by simp
qed

lemma is_some_sound:
  assumes "list_all2 (\<lambda>tv S. typed S tv) args Ss"
    and "rbind (arg_at Ss 0) (\<lambda>t. rbind (descriptor_kind t) (\<lambda>k.
        rbind (require (k = ''optional'') type_mismatch) (\<lambda>_. Inr bool_type))) = Inr S"
  shows "safe (typed S) (rbind (arg_at (map fst args) 0) (\<lambda>t. rbind (descriptor_kind t) (\<lambda>k.
        rbind (require (k = ''optional'') type_mismatch) (\<lambda>_. rbind (arg_at (map snd args) 0) (\<lambda>v.
        Inr (bool_type, PBool (v \<noteq> PNone)))))))"
proof -
  from assms(2) have S: "S = bool_type" "0 < length Ss" "descriptor_kind (Ss ! 0) = Inr ''optional''"
    by (auto simp: result_simps)
  note at = args_at [OF assms(1) S(2)]
  obtain t where t: "desc_ty (Ss ! 0) t" using typed_good(1) [OF at(3)] goodD by blast
  have "descriptor_kind (fst (args ! 0)) = Inr ''optional''"
    using descriptor_kind_ty [OF t] descriptor_kind_ty [OF conjunct1 [OF typed_ty [OF at(3) t]]] S(3) by simp
  with at(1,2) S(1) bool_typed show ?thesis by simp
qed

lemma wrapped_arg:
  assumes "typed S tv" "descriptor_kind S = Inr k" "k = ''list'' \<or> k = ''optional''"
  obtains t u where "desc_ty S t" "t = (if k = ''list'' then TList u else TOpt u)"
    "desc_ty (fst tv) t" "coerce_ty t (snd tv) = Inr (snd tv)" "descriptor_kind (fst tv) = Inr k"
    "\<And>b. py_item S ''item'' = Inr b \<Longrightarrow> \<exists>a. py_item (fst tv) ''item'' = Inr a \<and> same a b \<and> desc_ty a u \<and> desc_ty b u"
proof -
  obtain t where t: "desc_ty S t" using typed_good(1) [OF assms(1)] goodD by blast
  have k: "kind_of t = k" using descriptor_kind_ty [OF t] assms(2) by simp
  obtain u where u: "t = (if k = ''list'' then TList u else TOpt u)"
    using k assms(3) kind_list [of t] kind_optional [of t] by auto
  have w: "t = TList u \<or> t = TOpt u" using u by (simp split: if_splits)
  note ty = typed_ty [OF assms(1) t]
  have item: "\<exists>a. py_item (fst tv) ''item'' = Inr a \<and> same a b \<and> desc_ty a u \<and> desc_ty b u"
    if "py_item S ''item'' = Inr b" for b
    using same_item [OF _ t w that, of "fst tv"] assms(1) unfolding typed_def by metis
  show thesis
    by (rule that [OF t u conjunct1 [OF ty] conjunct2 [OF ty] _ item])
      (simp_all add: descriptor_kind_ty [OF conjunct1 [OF ty]] k)
qed

lemma or_else_sound:
  assumes "list_all2 (\<lambda>tv S. typed S tv) args Ss"
    and "two_args Ss (\<lambda>ot ft. rbind (descriptor_kind ot) (\<lambda>k.
        rbind (require (k = ''optional'') type_mismatch) (\<lambda>_.
        rbind (py_item ot ''item'') (\<lambda>it.
        rbind (require_matching_descriptor ft it) (\<lambda>_. Inr it))))) = Inr S"
  shows "safe (typed S) (rbind (arg_at (map fst args) 0) (\<lambda>ot. rbind (arg_at (map fst args) 1) (\<lambda>ft.
        rbind (descriptor_kind ot) (\<lambda>k.
        rbind (require (k = ''optional'') type_mismatch) (\<lambda>_. rbind (py_item ot ''item'') (\<lambda>it.
        rbind (require_matching_descriptor it ft) (\<lambda>_. rbind (arg_at (map snd args) 0) (\<lambda>a.
        rbind (arg_at (map snd args) 1) (\<lambda>b.
        Inr (it, if a \<noteq> PNone then a else b))))))))))"
proof -
  from assms(2) obtain ot ft where ss: "Ss = [ot, ft]" "descriptor_kind ot = Inr ''optional''"
      "py_item ot ''item'' = Inr S" "require_matching_descriptor ft S = Inr ()"
    by (auto simp: two_args_Inr result_simps)
  from assms(1) ss(1) obtain x y where args: "args = [x, y]" "typed ot x" "typed ft y"
    by (auto simp: list_all2_Cons2)
  obtain t u where t: "desc_ty ot t" "t = (if ''optional'' = ''list'' then TList u else TOpt u)"
      "desc_ty (fst x) t" "coerce_ty t (snd x) = Inr (snd x)" "descriptor_kind (fst x) = Inr ''optional''"
      "\<And>b. py_item ot ''item'' = Inr b \<Longrightarrow> \<exists>a. py_item (fst x) ''item'' = Inr a \<and> same a b \<and> desc_ty a u \<and> desc_ty b u"
    by (rule wrapped_arg [OF args(2) ss(2)]) auto
  from t(6) [OF ss(3)] obtain a where a: "py_item (fst x) ''item'' = Inr a" "same a S" "desc_ty a u" by blast
  have "same ft S" using ss(4) require_matching_same [OF typed_good(1) [OF args(3)] same_good(2) [OF a(2)]] by blast
  then have m: "same a (fst y)" "same (fst y) S"
    using a(2) args(3) same_trans same_sym unfolding typed_def by metis+
  have "coerce_value (if snd x \<noteq> PNone then snd x else snd y) a = Inr (if snd x \<noteq> PNone then snd x else snd y)"
  proof (cases "snd x = PNone")
    case True
    with args(3) same_coerce [OF m(1), of "snd y"] show ?thesis by (simp add: typed_def)
  next
    case False
    with t(2,4) coerce_value_ty [OF a(3)] show ?thesis by simp
  qed
  with a(2) have "typed S (a, if snd x \<noteq> PNone then snd x else snd y)" by (simp add: typed_def)
  moreover have "require_matching_descriptor a (fst y) = Inr ()"
    using require_matching_same [OF same_good [OF m(1)]] m(1) by blast
  ultimately show ?thesis using a(1) t(5) args(1) by (simp add: arg_at_def)
qed

section \<open>List operators\<close>

lemma list_argument:
  assumes "typed S tv" "descriptor_kind S = Inr ''list''" "py_item S ''item'' = Inr it"
  obtains u a xs where "desc_ty S (TList u)" "desc_ty (fst tv) (TList u)" "descriptor_kind (fst tv) = Inr ''list''"
    "py_item (fst tv) ''item'' = Inr a" "same a it" "desc_ty a u" "desc_ty it u"
    "snd tv = PList xs" "\<forall>x \<in> set xs. coerce_value x a = Inr x \<and> coerce_ty u x = Inr x"
proof -
  obtain t u where t: "desc_ty S t" "t = (if ''list'' = ''list'' then TList u else TOpt u)"
      "desc_ty (fst tv) t" "coerce_ty t (snd tv) = Inr (snd tv)" "descriptor_kind (fst tv) = Inr ''list''"
      "\<And>b. py_item S ''item'' = Inr b \<Longrightarrow> \<exists>a. py_item (fst tv) ''item'' = Inr a \<and> same a b \<and> desc_ty a u \<and> desc_ty b u"
    by (rule wrapped_arg [OF assms(1,2)]) auto
  from t(2) have tl: "t = TList u" by simp
  from t(6) [OF assms(3)] obtain a where a: "py_item (fst tv) ''item'' = Inr a" "same a it" "desc_ty a u" "desc_ty it u"
    by blast
  from t(4) obtain xs where xs: "snd tv = PList xs" "\<forall>x \<in> set xs. coerce_ty u x = Inr x"
    unfolding tl list_value by blast
  show thesis
    by (rule that [OF t(1) [unfolded tl] t(3) [unfolded tl] t(5) a xs(1)]) (simp add: coerce_value_ty [OF a(3)] xs(2))
qed

lemma list_typed:
  "typed S tv \<Longrightarrow> desc_ty (fst tv) (TList u) \<Longrightarrow> \<forall>y \<in> set ys. coerce_ty u y = Inr y \<Longrightarrow> typed S (fst tv, PList ys)"
  by (simp add: typed_def coerce_value_ty [of "fst tv" "TList u"] list_value del: coerce_ty.simps)

lemma list_head_sound:
  assumes "same a it" "desc_ty a u" "\<forall>x \<in> set xs. coerce_value x a = Inr x \<and> coerce_ty u x = Inr x"
  shows "safe (typed (optional_of it)) (if \<not> py_bool (PList xs) then Inr (optional_of a, PNone)
     else rbind (py_iter (PList xs)) (\<lambda>xs. rbind (arg_at xs 0) (\<lambda>x.
       rbind (coerce_value x a) (\<lambda>y. Inr (optional_of a, y)))))"
proof -
  have "typed (optional_of it) (optional_of a, y)" if "y = PNone \<or> coerce_ty u y = Inr y" for y
    using that same_optional_of [OF assms(1)] coerce_value_ty [OF optional_of_ty [OF assms(2)]]
    by (auto simp: typed_def)
  with assms(3) show ?thesis by (cases xs) (simp_all add: arg_at_def)
qed

lemma list_append_sound:
  assumes "typed S tv" "desc_ty (fst tv) (TList u)" "same a it" "desc_ty a u" "snd tv = PList xs"
    and xs: "\<forall>x \<in> set xs. coerce_value x a = Inr x \<and> coerce_ty u x = Inr x"
    and y: "typed T y" "require_matching_descriptor T it = Inr ()"
  shows "safe (typed S) (rbind (require_matching_descriptor (fst y) a) (\<lambda>_.
         rbind (py_iter (snd tv)) (\<lambda>xs. rbind (map_r (\<lambda>x. coerce_value x a) xs) (\<lambda>ys.
         rbind (coerce_value (snd y) a) (\<lambda>z. Inr (fst tv, PList (ys @ [z])))))))"
proof -
  have "same T it" using y(2) require_matching_same [OF typed_good(1) [OF y(1)] same_good(2) [OF assms(3)]] by blast
  then have m: "same (fst y) a" "same T a"
    using y(1) assms(3) same_trans same_sym unfolding typed_def by metis+
  then have req: "require_matching_descriptor (fst y) a = Inr ()"
    using require_matching_same same_good by blast
  have z: "coerce_value (snd y) a = Inr (snd y)" using typed_coerce [OF y(1) m(2)] .
  have ys: "map_r (\<lambda>x. coerce_value x a) xs = Inr xs" using xs by (intro map_r_id) blast
  have "\<forall>v \<in> set (xs @ [snd y]). coerce_ty u v = Inr v"
    using xs z coerce_value_ty [OF assms(4)] by auto
  from list_typed [OF assms(1,2) this] show ?thesis by (simp add: req z ys assms(5))
qed

lemma list_operator_sound:
  assumes "list_all2 (\<lambda>tv S. typed S tv) args Ss" "derive_list_operator_type op Ss = Inr S"
  shows "safe (typed S) (evaluate_list_operator op (map fst args) (map snd args))"
proof -
  from assms(2) obtain it where d: "0 < length Ss" "descriptor_kind (Ss ! 0) = Inr ''list''"
      "py_item (Ss ! 0) ''item'' = Inr it"
    by (auto simp: derive_list_operator_type_def guard_Inr rbind_Inr_iff arg_at_Inr)
  note at = args_at [OF assms(1) d(1)]
  let ?x = "args ! 0"
  obtain u a xs where u: "desc_ty (Ss ! 0) (TList u)" "desc_ty (fst ?x) (TList u)"
      "descriptor_kind (fst ?x) = Inr ''list''" "py_item (fst ?x) ''item'' = Inr a" "same a it" "desc_ty a u"
      "desc_ty it u" "snd ?x = PList xs" "\<forall>x \<in> set xs. coerce_value x a = Inr x \<and> coerce_ty u x = Inr x"
    by (rule list_argument [OF at(3) d(2,3)])
  consider (empty) "op = ''list/empty?''" | (head) "op = ''list/head''" | (rest) "op = ''list/rest''"
    | (append) "op = ''list/append''"
    | (len) "op \<noteq> ''list/empty?''" "op \<noteq> ''list/head''" "op \<noteq> ''list/rest''" "op \<noteq> ''list/append''" by blast
  then show ?thesis
  proof cases
    case empty
    with assms(2) d u at(1,2) show ?thesis
      by (simp add: derive_list_operator_type_def evaluate_list_operator_def arg_at_def [of Ss] bool_typed)
  next
    case head
    with assms(2) d have "S = optional_of it" by (simp add: derive_list_operator_type_def arg_at_def)
    with list_head_sound [OF u(5,6,9)] head u at(1,2) show ?thesis
      by (simp add: evaluate_list_operator_def)
  next
    case rest
    with assms(2) d have S: "S = Ss ! 0" by (simp add: derive_list_operator_type_def arg_at_def)
    have "map_r (\<lambda>x. coerce_value x a) (drop 1 xs) = Inr (drop 1 xs)"
      using u(9) by (intro map_r_id) (auto dest: in_set_dropD)
    moreover have "typed S (fst ?x, PList (drop 1 xs))"
      using list_typed [OF at(3) u(2), of "drop 1 xs"] u(9) S by (auto dest: in_set_dropD)
    ultimately show ?thesis using rest u at(1,2) by (simp add: evaluate_list_operator_def)
  next
    case append
    with assms(2) d have S: "S = Ss ! 0" "1 < length Ss" "require_matching_descriptor (Ss ! 1) it = Inr ()"
      by (auto simp: derive_list_operator_type_def arg_at_def result_simps split: if_splits)
    note at1 = args_at [OF assms(1) S(2)]
    show ?thesis
      using list_append_sound [OF at(3) u(2,5,6,8,9) at1(3) S(3)] append u at(1,2) at1(1,2) S(1)
      by (simp add: evaluate_list_operator_def)
  next
    case len
    with assms(2) d have "S = int_type" by (simp add: derive_list_operator_type_def arg_at_def)
    with len u at(1,2) show ?thesis
      by (auto simp: evaluate_list_operator_def intro!: safe_bind [OF checked_int_safe] int_typed)
  qed
qed

section \<open>All operators\<close>

theorem operator_sound:
  assumes "list_all2 (\<lambda>tv S. typed S tv) args Ss" "derive_static_operator_type op Ss = Inr S"
    and arity: "op \<in> {''+'', ''-'', ''*'', ''min'', ''max''} \<Longrightarrow> 2 \<le> length Ss"
  shows "safe (typed S) (evaluate_operator op args)"
proof -
  note a = assms(1) and d = assms(2) [unfolded derive_static_operator_type_def]
  have str: "typed bool_type (bool_type, PBool b)" "coerce_ty (TPrim ''Symbol'') v = Inr v \<Longrightarrow> typed string_type (string_type, v)"
    for b v using bool_typed string_typed string_value [of "''Symbol''" v v] by auto
  note u = unary_sound [OF a, where T = bool_type, OF _ str(1)] unary_sound [OF a, where T = string_type and n = "''Symbol''", OF _ str(2)]
  consider (eq) "op \<in> {''='', ''!=''}" | (ord) "op \<in> {''<'', ''<='', ''>'', ''>=''}" | (land) "op = ''and''" | (lor) "op = ''or''"
    | (lnot) "op = ''not''" | (arith) "op \<in> {''+'', ''-'', ''*'', ''min'', ''max''}" | (cat) "op = ''string/concat''"
    | (emp) "op = ''string/empty?''" | (sym) "op = ''symbol/name''" | (some) "op = ''some?''" | (orelse) "op = ''or-else''"
    | (lst) "op \<in> set LIST_OPERATOR_NAMES"
    using d by (simp split: if_splits) metis
  then show ?thesis
  proof cases
    case eq
    have "safe (typed S) (two_args args (\<lambda>(l, a) (r, b). rbind (require_equality_types l r) (\<lambda>_.
        Inr (bool_type, PBool (if op = ''='' then py_eq a b else \<not> py_eq a b)))))"
      using d eq by (intro equality_sound [OF a]) (simp del: insert_iff)
    then show ?thesis using eq by (simp add: evaluate_operator_def del: insert_iff)
  next
    case ord
    then have "op \<notin> {''='', ''!=''}" by auto
    then show ?thesis using ordering_sound [OF a ord] d ord by (simp add: evaluate_operator_def del: insert_iff)
  next
    case land
    then show ?thesis using boolean_sound [OF a] d by (simp add: evaluate_operator_def)
  next
    case lor
    then show ?thesis using boolean_sound [OF a] d by (simp add: evaluate_operator_def)
  next
    case lnot
    then show ?thesis using u(1) d by (simp add: evaluate_operator_def)
  next
    case arith
    then have "op \<notin> {''='', ''!=''}" "op \<notin> {''<'', ''<='', ''>'', ''>=''}" "op \<notin> {''and'', ''or''}" "op \<noteq> ''and''" "op \<noteq> ''or''" "op \<noteq> ''not''" by auto
    then show ?thesis using arithmetic_sound [OF a _ arity [OF arith], of S op] d arith
      by (simp add: evaluate_operator_def del: insert_iff)
  next
    case cat
    then show ?thesis using concat_sound [OF a] d by (simp add: evaluate_operator_def)
  next
    case emp
    then show ?thesis using u(1) d by (simp add: evaluate_operator_def)
  next
    case sym
    then show ?thesis using u(2) d by (simp add: evaluate_operator_def)
  next
    case some
    then show ?thesis using is_some_sound [OF a] d by (simp add: evaluate_operator_def)
  next
    case orelse
    then show ?thesis using or_else_sound [OF a] d by (simp add: evaluate_operator_def Let_def)
  next
    case lst
    then show ?thesis using list_operator_sound [OF a] d by (auto simp: evaluate_operator_def LIST_OPERATOR_NAMES_def)
  qed
qed

end
