(* ===== verification/PureExprSound.thy ===== *)
theory PureExprSound
  imports OperatorSound
begin

text \<open>
  Type soundness of pure expressions. A node that passed structural validation and static typing
  evaluates, in an environment that fits, to a value of the derived type or stops with one of
  the run-time errors; no other exception is possible. One lemma per node kind, each over an
  arbitrary recursive call that is already known to be sound on the parts of the node.
\<close>

section \<open>Parts of a node\<close>

definition parts_sound ::
    "(pyval \<Rightarrow> exc + int) \<Rightarrow> (pyval \<Rightarrow> exc + pyval) \<Rightarrow> (pyval \<Rightarrow> exc + typed_value) \<Rightarrow> pydict \<Rightarrow> bool" where
  "parts_sound vc dc ev kv \<longleftrightarrow> sane (PDict kv) \<and>
     (\<forall>x n S. size x < size (PDict kv) \<longrightarrow> sane x \<longrightarrow> vc x = Inr n \<longrightarrow> dc x = Inr S \<longrightarrow> safe (typed S) (ev x))"

lemma parts_sane: "parts_sound vc dc ev kv \<Longrightarrow> sane (PDict kv)"
  by (simp add: parts_sound_def)

lemma item_dget: "py_item (PDict kv) k = Inr x \<longleftrightarrow> map_of kv k = Some x"
  by (cases "map_of kv k") auto

lemma item_dget_eq: "py_item (PDict kv) k = Inr x \<Longrightarrow> dget kv k = x"
  by (simp add: item_dget)

lemma part_child:
  assumes "parts_sound vc dc ev kv" "vc (dget kv k) = Inr n" "py_item (PDict kv) k = Inr x" "dc x = Inr S"
  shows "safe (typed S) (ev x)"
proof -
  have x: "x = dget kv k" using item_dget_eq [OF assms(3)] by simp
  have "size (dget kv k) < size (PDict kv)" "sane (dget kv k)"
    using size_dget sane_dget [OF parts_sane [OF assms(1)]] by blast+
  with assms x show ?thesis unfolding parts_sound_def by blast
qed

lemma part_item:
  assumes "parts_sound vc dc ev kv" "x \<in> set (seq_items (dget kv k))" "vc x = Inr n" "dc x = Inr S"
  shows "safe (typed S) (ev x)"
  using assms size_seq_dget [OF assms(2)] sane_seq [OF sane_dget [OF parts_sane [OF assms(1)]] assms(2)]
  unfolding parts_sound_def by blast

lemma part_field:
  assumes "parts_sound vc dc ev kv" "PDict fkv \<in> set (seq_items (dget kv k))" "vc (dget fkv k') = Inr n"
    "dc (dget fkv k') = Inr S"
  shows "safe (typed S) (ev (dget fkv k'))"
proof -
  have "size (dget fkv k') < size (PDict kv)"
    using size_dget [of fkv k'] size_seq_dget [OF assms(2)] by linarith
  moreover have "sane (dget fkv k')"
    using sane_dget [OF sane_seq [OF sane_dget [OF parts_sane [OF assms(1)]] assms(2)]] .
  ultimately show ?thesis using assms unfolding parts_sound_def by blast
qed

lemma counted_children:
  "count_children vc sel xs c = Inr n \<Longrightarrow> x \<in> set xs \<Longrightarrow> \<exists>w m. sel x = Inr w \<and> vc w = Inr m"
  unfolding count_children_def by (induction xs arbitrary: c) (auto simp: result_simps)

lemma good_part:
  "parts_sound vc dc ev kv \<Longrightarrow> validate_type_descriptor (dget kv k) = Inr () \<Longrightarrow> good (dget kv k)"
  using good_validate sane_dget parts_sane by blast

lemma safe_typed_bind:
  "safe (typed T) m \<Longrightarrow> (\<And>D v. m = Inr (D, v) \<Longrightarrow> typed T (D, v) \<Longrightarrow> safe Q (f (D, v))) \<Longrightarrow> safe Q (rbind m f)"
  by (erule safe_bind) auto

lemma typed_primitive:
  assumes "typed C tv" "require_primitive C n = Inr ()"
  shows "require_primitive (fst tv) n = Inr () \<and> coerce_ty (TPrim n) (snd tv) = Inr (snd tv)"
proof -
  have "desc_ty C (TPrim n)" using assms(2) require_primitive_iff typed_good(1) [OF assms(1)] by blast
  from typed_ty [OF assms(1) this] have p: "desc_ty (fst tv) (TPrim n)" "coerce_ty (TPrim n) (snd tv) = Inr (snd tv)"
    by blast+
  with require_primitive_ty [OF p(1), of n] show ?thesis by simp
qed

section \<open>Literals, fields and conditionals\<close>

lemma literal_sound:
  assumes "sane (PDict kv)" "validate_literal_node kv = Inr n" "py_item (PDict kv) ''type'' = Inr S"
  shows "safe (typed S) (evaluate_literal_node (PDict kv))"
proof -
  from assms(2,3) obtain w where w: "validate_type_descriptor S = Inr ()" "coerce_value (dget kv ''value'') S = Inr w"
    by (auto simp: validate_literal_node_def result_simps item_dget)
  have g: "good S" using good_validate w(1) sane_dget [OF assms(1), of "''type''"] assms(3) by (simp add: item_dget)
  then have "coerce_value w S = Inr w" using goodD coerce_value_idem w(2) by blast
  with g w assms(3) show ?thesis by (simp add: evaluate_literal_node_def typed_def same_refl)
qed

lemma field_access_sound:
  assumes P: "parts_sound vc dc ev kv" and v: "validate_field_access_node vc kv = Inr n"
    and d: "derive_field_access_node dc (PDict kv) = Inr S"
  shows "safe (typed S) (evaluate_field_access_node ev (PDict kv))"
proof -
  from d obtain b B f where b: "py_item (PDict kv) ''base'' = Inr b" "dc b = Inr B"
      "py_item (PDict kv) ''field'' = Inr f" "field_type B (str_of f) = Inr S"
    by (auto simp: derive_field_access_node_def result_simps)
  from v obtain m where "vc (dget kv ''base'') = Inr m"
    by (auto simp: validate_field_access_node_def result_simps split: if_splits)
  from part_child [OF P this b(1,2)] show ?thesis
    unfolding evaluate_field_access_node_def b(1) rbind_simps
  proof (rule safe_typed_bind)
    fix D v
    assume t: "typed B (D, v)"
    then obtain a where a: "field_type D (str_of f) = Inr a" "same a S"
        "\<exists>vkv x. v = PDict vkv \<and> map_of vkv (str_of f) = Some x \<and> coerce_value x a = Inr x"
      using same_field_type [OF _ b(4), of D] unfolding typed_def by auto
    then show "safe (typed S) (case (D, v) of (bt, bv) \<Rightarrow>
       rbind (py_item (PDict kv) ''field'') (\<lambda>f. rbind (field_type bt (str_of f)) (\<lambda>ft.
       if bv = PNone then Inl (PureExprEvaluationError ''pure_expr_optional_access_unproved'')
       else (case bv of
         PDict vkv \<Rightarrow> (case map_of vkv (str_of f) of
             None \<Rightarrow> Inl type_mismatch
           | Some x \<Rightarrow> rbind (coerce_value x ft) (\<lambda>w. Inr (ft, w)))
       | _ \<Rightarrow> Inl type_mismatch))))"
      using b(3) by (auto simp: typed_def)
  qed
qed

lemma if_sound:
  assumes P: "parts_sound vc dc ev kv" and v: "validate_if_node vc kv = Inr n"
    and d: "derive_if_node dc (PDict kv) = Inr S"
  shows "safe (typed S) (evaluate_if_node ev (PDict kv))"
proof -
  from d obtain c C t e E where s: "py_item (PDict kv) ''condition'' = Inr c" "dc c = Inr C"
      "require_primitive C ''Bool'' = Inr ()" "py_item (PDict kv) ''then'' = Inr t" "dc t = Inr S"
      "py_item (PDict kv) ''else'' = Inr e" "dc e = Inr E" "require_matching_descriptor S E = Inr ()"
    by (auto simp: derive_if_node_def result_simps)
  from v obtain i j k where "vc (dget kv ''condition'') = Inr i" "vc (dget kv ''then'') = Inr j" "vc (dget kv ''else'') = Inr k"
    by (auto simp: validate_if_node_def result_simps)
  note sub = part_child [OF P this(1) s(1,2)] part_child [OF P this(2) s(4,5)] part_child [OF P this(3) s(6,7)]
  have branches: "safe (typed S) (rbind (ev x) (\<lambda>(bt, bv). rbind (ev y) (\<lambda>(xt, _).
      rbind (require_matching_descriptor bt xt) (\<lambda>_. Inr (bt, bv)))))"
    if xy: "x = t \<and> y = e \<or> x = e \<and> y = t" for x y
  proof -
    obtain X Y where X: "safe (typed X) (ev x)" "safe (typed Y) (ev y)" "X = S \<and> Y = E \<or> X = E \<and> Y = S"
      using xy sub(2,3) by blast
    show ?thesis
    proof (rule safe_typed_bind [OF X(1)], unfold prod.case, rule safe_typed_bind [OF X(2)], unfold prod.case)
      fix D v D' v'
      assume t: "typed X (D, v)" "typed Y (D', v')"
      then have "good S" "good E" using X(3) typed_good(1) by blast+
      then have "same S E" using require_matching_same s(8) by blast
      then have "same X Y" "same X S" using X(3) same_refl same_sym \<open>good S\<close> by blast+
      moreover have "same D X" "same D' Y" using t by (simp_all add: typed_def)
      ultimately have "same D D'" "same D S"
        using same_trans [OF same_trans [of D X Y] same_sym [of D' Y]] same_trans [of D X S] by blast+
      then show "safe (typed S) (rbind (require_matching_descriptor D D') (\<lambda>_. Inr (D, v)))"
        using require_matching_good [OF same_good [OF \<open>same D D'\<close>]] t(1) by (simp add: typed_def same_def)
    qed
  qed
  show ?thesis
    unfolding evaluate_if_node_def s(1) rbind_simps
  proof (rule safe_typed_bind [OF sub(1)], unfold prod.case)
    fix D v
    assume "typed C (D, v)"
    from typed_primitive [OF this s(3)] have "require_primitive D ''Bool'' = Inr ()" by simp
    then show "safe (typed S) (rbind (require_primitive D ''Bool'') (\<lambda>_.
       let branch_key = (if py_bool v then ''then'' else ''else''); other_key = (if py_bool v then ''else'' else ''then'') in
       rbind (py_item (PDict kv) branch_key) (\<lambda>b. rbind (ev b) (\<lambda>(bt, bv).
       rbind (py_item (PDict kv) other_key) (\<lambda>x. rbind (ev x) (\<lambda>(xt, _).
       rbind (require_matching_descriptor bt xt) (\<lambda>_. Inr (bt, bv))))))))"
      using branches [of t e] branches [of e t] s(4,6) by (cases "py_bool v") simp_all
  qed
qed

section \<open>Records and unions\<close>

abbreviation entries_fit :: "(string \<times> ty) list \<Rightarrow> pydict \<Rightarrow> bool" where
  "entries_fit \<equiv> list_all2 (\<lambda>(n, t) (m, y). m = n \<and> coerce_ty t y = Inr y)"

lemma entries_fit_names: "entries_fit fs r \<Longrightarrow> map fst r = map fst fs"
  by (induction rule: list_all2_induct) auto

lemma entries_fit_fix:
  assumes "entries_fit fs r" "distinct (map fst fs)" "\<And>n. n \<in> fst ` set fs \<Longrightarrow> map_of vkv n = map_of r n"
  shows "map_r (field_step vkv) fs = Inr r"
proof -
  have "field_step vkv (fs ! i) = Inr (r ! i)" if i: "i < length fs" for i
  proof -
    obtain n t where nt: "fs ! i = (n, t)" by fastforce
    obtain m y where my: "r ! i = (m, y)" by fastforce
    have len: "length r = length fs" using assms(1) list_all2_lengthD by fastforce
    have y: "m = n" "coerce_ty t y = Inr y"
      using assms(1) i nt my by (auto simp: list_all2_conv_all_nth)
    have "map_of r n = Some y"
      using i len my y(1) assms(2) entries_fit_names [OF assms(1)] nth_mem [of i r] by (simp add: map_of_eq_Some_iff)
    moreover have "n \<in> fst ` set fs" using nth_mem [OF i] nt by force
    ultimately show ?thesis using assms(3) nt my y by simp
  qed
  then show ?thesis
    using assms(1) list_all2_lengthD by (fastforce simp: map_r_Inr_iff list_all2_conv_all_nth)
qed

lemma record_loop_safe:
  assumes "field_list_ty ds fs" "distinct (map fst fs)" "fst ` set fs \<inter> fst ` set acc = {}"
    and fin: "\<forall>x \<in> set ds. all_sub finite_float (dfield x ''type'')"
    and kids: "\<And>n x e S. field_of table n = Some x \<Longrightarrow> py_item x ''value'' = Inr e \<Longrightarrow> dc e = Inr S \<Longrightarrow> safe (typed S) (ev e)"
    and static: "fold_r (\<lambda>field names.
         rbind (py_item field ''name'') (\<lambda>n.
         (case field_of table n of
            None \<Rightarrow> Inl payload_invalid
          | Some authored \<Rightarrow>
              rbind (py_item authored ''value'') (\<lambda>e. rbind (dc e) (\<lambda>observed.
              rbind (py_item field ''type'') (\<lambda>expected.
              rbind (require_matching_descriptor observed expected) (\<lambda>_. Inr (n # names))))))))
       ds names = Inr names'"
  shows "safe (\<lambda>(r, ns). ns = names' \<and> (\<exists>r'. r = acc @ r' \<and> entries_fit fs r'))
    (fold_r (\<lambda>field (result, names).
         rbind (py_item field ''name'') (\<lambda>n.
         (case field_of table n of
            None \<Rightarrow> Inl payload_invalid
          | Some field_node \<Rightarrow>
              rbind (py_item field_node ''value'') (\<lambda>e. rbind (ev e) (\<lambda>tv.
              rbind (py_item field ''type'') (\<lambda>t. rbind (coerce_value (snd tv) t) (\<lambda>y.
              Inr (AList.update (str_of n) y result, n # names))))))))
       ds (acc, names))"
  using assms(1-4) static
proof (induction ds arbitrary: fs acc names)
  case Nil
  then show ?case by simp
next
  case (Cons x ds)
  from Cons.prems(1) obtain fkv n t fs' where x: "x = PDict fkv" "dget fkv ''name'' = PStr n"
      "desc_ty (dget fkv ''type'') t" "field_list_ty ds fs'" "fs = (n, t) # fs'"
    by auto
  have "dget fkv ''type'' \<noteq> PNone" using x(3) desc_ty_is_mapping by fastforce
  then have i: "py_item x ''name'' = Inr (PStr n)" "py_item x ''type'' = Inr (dget fkv ''type'')"
    using x(1,2) by (simp_all add: py_item_dget)
  obtain a e S where s: "field_of table (PStr n) = Some a" "py_item a ''value'' = Inr e" "dc e = Inr S"
      "require_matching_descriptor S (dget fkv ''type'') = Inr ()"
    using Cons.prems(5) i by (auto simp: result_simps split: option.splits)
  note rest = Cons.prems(5) [simplified i s rbind_simps fold_r.simps option.case]
  have g: "good (dget fkv ''type'')" using x(1,3) Cons.prems(4) by (auto simp: good_def)
  have upd: "AList.update n y acc = acc @ [(n, y)]" for y
    using Cons.prems(3) x by (intro update_fresh) auto
  show ?case
    unfolding fold_r.simps prod.case i(1) rbind_simps s(1) option.case s(2) rbind_assoc
  proof (rule safe_bind [OF kids [OF s(1-3)]], goal_cases)
    case (1 tv)
    then have tv: "typed S tv" by blast
    have "same S (dget fkv ''type'')" using s(4) require_matching_same [OF typed_good(1) [OF tv] g] by blast
    then have c: "coerce_value (snd tv) (dget fkv ''type'') = Inr (snd tv)" by (rule typed_coerce [OF tv])
    then have fit: "coerce_ty t (snd tv) = Inr (snd tv)" using coerce_value_ty [OF x(3)] by simp
    show ?case
      unfolding i(2) rbind_simps c str_simps upd
      by (rule safe_mono [OF Cons.IH [OF x(4)]])
        (use Cons.prems x rest fit in \<open>auto simp: list_all2_Cons1\<close>)
  qed
qed

lemma authored_lookup_dicts:
  assumes "\<forall>x \<in> set xs. is_mapping x"
  shows "authored_lookup (\<lambda>field. (case field of PDict fkv \<Rightarrow> Inr (dget fkv ''name'') | _ \<Rightarrow> Inl payload_invalid)) xs
    = authored_lookup (\<lambda>field. py_get field ''name'') xs"
  unfolding authored_lookup_def
proof (intro fold_r_cong refl)
  fix x u
  assume "x \<in> set xs"
  with assms obtain fkv where "x = PDict fkv" by (metis is_mappingE)
  then show "rbind (case x of PDict fkv \<Rightarrow> Inr (dget fkv ''name'') | _ \<Rightarrow> Inl payload_invalid) (\<lambda>n.
       if \<not> nonempty_str n then Inl payload_invalid
       else if map_of u (str_of n) \<noteq> None then Inl payload_invalid
       else Inr (u @ [(str_of n, x)])) = rbind (py_get x ''name'') (\<lambda>n.
       if \<not> nonempty_str n then Inl payload_invalid
       else if map_of u (str_of n) \<noteq> None then Inl payload_invalid
       else Inr (u @ [(str_of n, x)]))"
    by simp
qed

lemma record_fields_safe:
  assumes fs: "fields_ty (dget dkv ''fields'') fs" and fin: "all_sub finite_float (PDict dkv)"
    and seq: "is_sequence authored"
    and kids: "\<And>x. x \<in> set (seq_items authored) \<Longrightarrow>
        \<exists>fkv. x = PDict fkv \<and> (\<forall>S. dc (dget fkv ''value'') = Inr S \<longrightarrow> safe (typed S) (ev (dget fkv ''value'')))"
    and d: "derive_static_record_fields dc (PDict dkv) (seq_items authored) = Inr ()"
  shows "safe (entries_fit fs) (evaluate_record_fields ev (PDict dkv) authored)"
proof -
  note f = fields_item [OF fs]
  from d obtain table names where t: "authored_lookup (\<lambda>field. py_get field ''name'') (seq_items authored) = Inr table"
      and static: "fold_r (\<lambda>field names.
         rbind (py_item field ''name'') (\<lambda>n.
         (case field_of table n of
            None \<Rightarrow> Inl payload_invalid
          | Some authored \<Rightarrow>
              rbind (py_item authored ''value'') (\<lambda>e. rbind (dc e) (\<lambda>observed.
              rbind (py_item field ''type'') (\<lambda>expected.
              rbind (require_matching_descriptor observed expected) (\<lambda>_. Inr (n # names))))))))
       (seq_items (dget dkv ''fields'')) [] = Inr names"
      and extra: "\<not> extra_fields table names"
    unfolding derive_static_record_fields_def f(1) rbind_simps f(2) rbind_Inr_iff guard_Inr by blast
  have "\<forall>x \<in> set (seq_items authored). is_mapping x" using kids by fastforce
  note lookup = authored_lookup_dicts [OF this, unfolded t]
  have kids': "safe (typed S) (ev e)"
    if "field_of table n = Some x" "py_item x ''value'' = Inr e" "dc e = Inr S" for n x e S
    using kids [OF authored_field_mem [OF t that(1)]] that(2,3) item_dget_eq by blast
  have dist: "distinct (map fst fs)" using fs by (simp add: fields_ty_iff)
  have "\<forall>x \<in> set (seq_items (dget dkv ''fields'')). all_sub finite_float (dfield x ''type'')"
    using all_sub_seq [OF finite_dget [OF fin]] finite_dget
    by (fastforce simp: dfield_def finite_float_def split: pyval.splits)
  note loop = record_loop_safe [OF f(3) dist _ this kids' static, of "[]", simplified]
  show ?thesis
    unfolding evaluate_record_fields_def lookup f(1)
    by (simp add: seq f(2), rule safe_bind [OF loop]) (auto simp: extra)
qed

lemma validated_fields:
  assumes P: "parts_sound vc dc ev kv" and "count_children vc field_value (seq_items (dget kv ''fields'')) m = Inr n"
    and "x \<in> set (seq_items (dget kv ''fields''))"
  shows "\<exists>fkv. x = PDict fkv \<and> (\<forall>S. dc (dget fkv ''value'') = Inr S \<longrightarrow> safe (typed S) (ev (dget fkv ''value'')))"
proof -
  from counted_children [OF assms(2,3)] obtain w k where w: "field_value x = Inr w" "vc w = Inr k" by blast
  then obtain fkv where "x = PDict fkv" "w = dget fkv ''value''" by (cases x) (auto simp: field_value_def)
  with w part_field [OF P] assms(3) show ?thesis by blast
qed

lemma record_sound:
  assumes P: "parts_sound vc dc ev kv" and v: "validate_record_node vc kv = Inr n"
    and d: "derive_record_node dc (PDict kv) = Inr S"
  shows "safe (typed S) (evaluate_record_node ev (PDict kv))"
proof -
  from v have v': "validate_type_descriptor (dget kv ''type'') = Inr ()" "descriptor_kind (dget kv ''type'') = Inr ''record''"
      "is_sequence (dget kv ''fields'')" "count_children vc field_value (seq_items (dget kv ''fields'')) 1 = Inr n"
    by (auto simp: validate_record_node_def result_simps)
  from d obtain a xs where d': "py_item (PDict kv) ''type'' = Inr S" "py_item (PDict kv) ''fields'' = Inr a"
      "py_iter a = Inr xs" "derive_static_record_fields dc S xs = Inr ()"
    by (auto simp: derive_record_node_def result_simps)
  have eq: "dget kv ''type'' = S" "dget kv ''fields'' = a" using d' item_dget_eq by blast+
  have g: "good S" using good_part [OF P v'(1)] eq by simp
  then obtain t where t: "desc_ty S t" using goodD by blast
  with v'(2) eq have "kind_of t = ''record''" using descriptor_kind_ty by fastforce
  then obtain fs where tr: "t = TRec fs" by (cases t) auto
  then obtain dkv where S: "S = PDict dkv" "fields_ty (dget dkv ''fields'') fs"
    using desc_ty_kind_of [OF t] t by (auto simp: desc_ty_record)
  have "safe (entries_fit fs) (evaluate_record_fields ev (PDict dkv) a)"
    using validated_fields [OF P v'(4)] eq v'(3) d' S(1) good_finite [OF g]
    by (intro record_fields_safe [OF S(2)]) (auto simp del: all_sub.simps)
  moreover have "typed S (S, PDict r)" if r: "entries_fit fs r" for r
  proof (rule typedI [OF g t])
    have "fst ` set r = fst ` set fs" using entries_fit_names [OF r] by (metis list.set_map)
    moreover have "map_r (field_step r) fs = Inr r"
      using S(2) by (intro entries_fit_fix [OF r]) (simp_all add: fields_ty_iff)
    ultimately show "coerce_ty t (PDict r) = Inr (PDict r)" by (simp add: tr)
  qed
  moreover have "authored_fields (PDict kv) = Inr a" using d'(2) by (simp add: authored_fields_def item_dget)
  ultimately show ?thesis
    using S(1) d'(1) by (auto simp: evaluate_record_node_def intro: safe_bind)
qed

lemma updates_fresh:
  "distinct (map fst r) \<Longrightarrow> fst ` set r \<inter> fst ` set acc = {} \<Longrightarrow>
   AList.updates (map fst r) (map snd r) acc = acc @ r"
proof (induction r arbitrary: acc)
  case (Cons p r)
  then have "AList.update (fst p) (snd p) acc = acc @ [p]" using update_fresh [of "fst p" acc "snd p"] by simp
  with Cons show ?case by (auto simp: AList.updates_def case_prod_beta)
qed (simp add: AList.updates_def)

lemma variant_fields:
  assumes g: "good S" and t: "desc_ty S t" and k: "kind_of t \<in> {''union'', ''variant_case''}"
    and v: "variant_descriptor S n = Inr v" "py_item v ''fields'' = Inr vf"
  obtains fs where "fields_ty vf fs" "''variant'' \<notin> fst ` set fs" "all_sub finite_float vf"
    "(\<exists>vs. t = TUnion vs \<and> map_of vs n = Some fs) \<or> t = TCase n fs"
proof -
  obtain kv where S: "S = PDict kv" "dget kv ''kind'' = PStr (kind_of t)" using desc_ty_kind_of [OF t] by blast
  have fin: "all_sub finite_float (PDict kv)" using good_finite [OF g] S by simp
  from k consider (u) vs where "t = TUnion vs" | (c) c fs where "t = TCase c fs" by (cases t) auto
  then show thesis
  proof cases
    case (u vs)
    with t S have un: "nonempty_str (dget kv ''name'')" "is_sequence (dget kv ''variants'')"
        "variants_ty (seq_items (dget kv ''variants'')) vs" by (simp_all add: desc_ty_union)
    have kd: "dget kv ''kind'' = PStr ''union''" using S(2) u by simp
    note vd = variant_descriptor_union [OF kd un, of n]
    from vd v(1) S(1) obtain fs vkv where f: "map_of vs n = Some fs" "PDict vkv \<in> set (seq_items (dget kv ''variants''))"
        "fields_ty (dget vkv ''fields'') fs" "''variant'' \<notin> fst ` set fs" "v = PDict vkv"
      by (auto split: option.splits)
    have "vf = dget vkv ''fields''" using v(2) f(5) item_dget_eq by blast
    with f u finite_field [OF fin f(2)] show thesis using that by blast
  next
    case (c c fs)
    with t S have cs: "dget kv ''variant'' = PStr c" "fields_ty (dget kv ''fields'') fs" "''variant'' \<notin> fst ` set fs"
      by (simp_all add: desc_ty_variant_case)
    have "dget kv ''kind'' = PStr ''variant_case''" using S(2) c by simp
    from variant_descriptor_case [OF this cs(1), of n] v(1) S(1) have nv: "n = c" "v = PDict kv"
      by (auto split: if_splits)
    have "vf = dget kv ''fields''" using v(2) nv item_dget_eq by blast
    with cs c nv finite_dget [OF fin] show thesis using that by blast
  qed
qed

lemma variant_value:
  assumes g: "good S" and t: "desc_ty S t"
    and fs: "fields_ty vf fs" "''variant'' \<notin> fst ` set fs"
    and k: "(\<exists>vs. t = TUnion vs \<and> map_of vs n = Some fs) \<or> t = TCase n fs" and n: "n \<noteq> []"
    and r: "entries_fit fs r"
  shows "AList.updates (map fst r) (map snd r) [(''variant'', PStr n)] = (''variant'', PStr n) # r"
    and "coerce_value (PDict ((''variant'', PStr n) # r)) S = Inr (PDict ((''variant'', PStr n) # r))"
proof -
  have names: "fst ` set r = fst ` set fs" using entries_fit_names [OF r] by (metis list.set_map)
  have dist: "distinct (map fst fs)" using fs(1) by (simp add: fields_ty_iff)
  show "AList.updates (map fst r) (map snd r) [(''variant'', PStr n)] = (''variant'', PStr n) # r"
    using updates_fresh [of r "[(''variant'', PStr n)]"] names fs(2) dist entries_fit_names [OF r] by simp
  have step: "map_r (field_step ((''variant'', PStr n) # r)) fs = Inr r"
  proof (rule entries_fit_fix [OF r dist])
    fix m
    assume "m \<in> fst ` set fs"
    with fs(2) have "m \<noteq> ''variant''" by blast
    then show "map_of ((''variant'', PStr n) # r) m = map_of r m" by simp
  qed
  show "coerce_value (PDict ((''variant'', PStr n) # r)) S = Inr (PDict ((''variant'', PStr n) # r))"
    unfolding coerce_value_ty [OF t] using k
  proof (elim disjE exE conjE)
    fix vs
    assume u: "t = TUnion vs" "map_of vs n = Some fs"
    have "fst ` set r \<subseteq> insert ''variant'' (\<Union>p \<in> set vs. fst ` set (snd p))"
      using map_of_SomeD [OF u(2)] names by force
    with u n step show "coerce_ty t (PDict ((''variant'', PStr n) # r)) = Inr (PDict ((''variant'', PStr n) # r))"
      by simp
  next
    assume "t = TCase n fs"
    with n step show "coerce_ty t (PDict ((''variant'', PStr n) # r)) = Inr (PDict ((''variant'', PStr n) # r))" by simp
  qed
qed

lemma union_sound:
  assumes P: "parts_sound vc dc ev kv" and v: "validate_union_node vc kv = Inr n"
    and d: "derive_union_node dc (PDict kv) = Inr S"
  shows "safe (typed S) (evaluate_union_node ev (PDict kv))"
proof -
  from v obtain k where v': "validate_type_descriptor (dget kv ''type'') = Inr ()" "descriptor_kind (dget kv ''type'') = Inr k"
      "k \<in> {''union'', ''variant_case''}" "nonempty_str (dget kv ''variant'')"
      "is_sequence (dget kv ''fields'')" "count_children vc field_value (seq_items (dget kv ''fields'')) 1 = Inr n"
    by (auto simp: validate_union_node_def result_simps simp del: insert_iff)
  from d obtain w vd vf a xs where d': "py_item (PDict kv) ''type'' = Inr S" "py_item (PDict kv) ''variant'' = Inr w"
      "variant_descriptor S (str_of w) = Inr vd" "py_item vd ''fields'' = Inr vf" "py_item (PDict kv) ''fields'' = Inr a"
      "py_iter a = Inr xs" "derive_static_record_fields dc (record_payload_descriptor (str_of w) vf) xs = Inr ()"
    by (auto simp: derive_union_node_def result_simps)
  have eq: "dget kv ''type'' = S" "dget kv ''fields'' = a" "dget kv ''variant'' = w" using d' item_dget_eq by blast+
  obtain m where w: "w = PStr m" "m \<noteq> []" using v'(4) eq(3) by (auto elim: nonempty_strE)
  have g: "good S" using good_part [OF P v'(1)] eq by simp
  then obtain t where t: "desc_ty S t" using goodD by blast
  have kt: "kind_of t = k" using v'(2) eq descriptor_kind_ty [OF t] by simp
  obtain fs where fs: "fields_ty vf fs" "''variant'' \<notin> fst ` set fs" "all_sub finite_float vf"
      "(\<exists>vs. t = TUnion vs \<and> map_of vs m = Some fs) \<or> t = TCase m fs"
    using variant_fields [OF g t _ d'(3,4)] kt v'(3) w by auto
  let ?pd = "[(''kind'', PStr ''record''), (''name'', PStr (m @ ''Payload'')), (''fields'', vf)]"
  have "safe (entries_fit fs) (evaluate_record_fields ev (PDict ?pd) a)"
  proof (rule record_fields_safe)
    show "fields_ty (dget ?pd ''fields'') fs" using fs(1) by simp
    show "all_sub finite_float (PDict ?pd)" using fs(3) by (simp add: finite_float_def)
    show "is_sequence a" using v'(5) eq by simp
    show "derive_static_record_fields dc (PDict ?pd) (seq_items a) = Inr ()"
      using d'(6,7) w v'(5) eq by (simp add: record_payload_descriptor_def)
  qed (use validated_fields [OF P v'(6)] eq in simp)
  moreover have "authored_fields (PDict kv) = Inr a" using d'(5) by (simp add: authored_fields_def item_dget)
  moreover have "descriptor_kind S = Inr k" using descriptor_kind_ty [OF t] kt by simp
  moreover have "typed S (S, PDict ((''variant'', PStr m) # r))" if "entries_fit fs r" for r
    using variant_value(2) [OF g t fs(1,2,4) w(2) that] same_refl [OF g] by (simp add: typed_def)
  ultimately show ?thesis
    using d'(1-4) w variant_value [OF g t fs(1,2,4) w(2)]
    by (auto simp: evaluate_union_node_def record_payload_descriptor_def Let_def intro!: safe_bind)
qed

section \<open>Record updates\<close>

lemma lookup_field_ty:
  "field_list_ty xs fs \<Longrightarrow> \<exists>table. field_lookup xs = Inr table \<and>
     (\<forall>n T. lookup_field table n = Some T \<longrightarrow> (\<exists>s t fkv. n = PStr s \<and> (s, t) \<in> set fs \<and>
        PDict fkv \<in> set xs \<and> T = dget fkv ''type'' \<and> desc_ty T t))"
proof (induction xs arbitrary: fs)
  case Nil
  then show ?case by (simp add: field_lookup_def lookup_field_def)
next
  case (Cons x xs)
  then obtain fkv n t fs' where x: "x = PDict fkv" "dget fkv ''name'' = PStr n"
      "desc_ty (dget fkv ''type'') t" "field_list_ty xs fs'" "fs = (n, t) # fs'"
    by auto
  have "dget fkv ''type'' \<noteq> PNone" using x(3) desc_ty_is_mapping by fastforce
  then have i: "py_item x ''name'' = Inr (PStr n)" "py_item x ''type'' = Inr (dget fkv ''type'')"
    using x(1,2) by (simp_all add: py_item_dget)
  obtain table where table: "field_lookup xs = Inr table"
      "\<forall>n T. lookup_field table n = Some T \<longrightarrow> (\<exists>s t fkv. n = PStr s \<and> (s, t) \<in> set fs' \<and>
        PDict fkv \<in> set xs \<and> T = dget fkv ''type'' \<and> desc_ty T t)"
    using Cons.IH [OF x(4)] by blast
  have l: "field_lookup (x # xs) = Inr ((PStr n, dget fkv ''type'') # table)"
    using table(1) i by (simp add: field_lookup_def hashable.simps)
  have "lookup_field ((PStr n, dget fkv ''type'') # table) m = Some T \<Longrightarrow>
      lookup_field table m = Some T \<or> m = PStr n \<and> T = dget fkv ''type''" for m T
    by (auto simp: lookup_field_def map_add_Some_iff split: if_splits)
  with l table(2) x show ?case by (metis list.set_intros(1,2))
qed

lemma entries_fit_update:
  assumes "entries_fit fs r" "distinct (map fst fs)" "(n, t) \<in> set fs" "coerce_ty t y = Inr y"
  shows "entries_fit fs (AList.update n y r)"
  using assms
proof (induction fs arbitrary: r)
  case (Cons p fs)
  then obtain q r' where r: "r = q # r'" by (auto simp: list_all2_Cons1)
  show ?case
  proof (cases "fst p = n")
    case True
    with Cons.prems have "p = (n, t)" by (cases p) (auto simp: rev_image_eqI)
    with Cons.prems r show ?thesis by (cases q) auto
  next
    case False
    with Cons.prems r Cons.IH [of r'] show ?thesis by (cases p; cases q) auto
  qed
qed simp

lemma update_loop_safe:
  assumes table: "\<And>n T. lookup_field table n = Some T \<Longrightarrow> \<exists>s t. n = PStr s \<and> (s, t) \<in> set fs \<and> desc_ty T t \<and> good T"
    and dist: "distinct (map fst fs)" and r: "entries_fit fs r"
    and kids: "\<And>x. x \<in> set us \<Longrightarrow>
        \<exists>fkv. x = PDict fkv \<and> (\<forall>S. dc (dget fkv ''value'') = Inr S \<longrightarrow> safe (typed S) (ev (dget fkv ''value'')))"
    and static: "fold_r (\<lambda>update seen.
         rbind (py_item update ''name'') (\<lambda>n.
         if n \<in> set seen then Inl payload_invalid
         else (case lookup_field table n of
             None \<Rightarrow> Inl (PureExprEvaluationError ''record_field_unknown'')
           | Some ft \<Rightarrow>
               rbind (py_item update ''value'') (\<lambda>e. rbind (dc e) (\<lambda>ut.
               rbind (require_matching_descriptor ut ft) (\<lambda>_. Inr (n # seen))))))) us seen = Inr seen'"
  shows "safe (entries_fit fs) (fold_r (\<lambda>update result.
            rbind (py_item update ''name'') (\<lambda>n.
            (case lookup_field table n of
               None \<Rightarrow> Inl (PureExprEvaluationError ''record_field_unknown'')
             | Some ft \<Rightarrow>
                 rbind (py_item update ''value'') (\<lambda>e. rbind (ev e) (\<lambda>tv.
                 rbind (coerce_value (snd tv) ft) (\<lambda>y. Inr (AList.update (str_of n) y result)))))))
          us r)"
  using r kids static
proof (induction us arbitrary: r seen)
  case Nil
  then show ?case by simp
next
  case (Cons x us)
  obtain fkv where x: "x = PDict fkv"
      "\<And>S. dc (dget fkv ''value'') = Inr S \<Longrightarrow> safe (typed S) (ev (dget fkv ''value''))"
    using Cons.prems(2) [of x] by auto
  obtain n T e U where s: "py_item x ''name'' = Inr n" "lookup_field table n = Some T" "py_item x ''value'' = Inr e"
      "dc e = Inr U" "require_matching_descriptor U T = Inr ()" "n \<notin> set seen"
    using Cons.prems(3) by (auto simp: result_simps split: option.splits if_splits)
  note rest = Cons.prems(3) [simplified s rbind_simps fold_r.simps option.case if_False]
  have e: "e = dget fkv ''value''" using s(3) x(1) item_dget_eq by blast
  obtain m t where t: "n = PStr m" "(m, t) \<in> set fs" "desc_ty T t" "good T" using table [OF s(2)] by blast
  show ?case
    unfolding fold_r.simps s(1,2,3) rbind_simps option.case rbind_assoc
  proof (rule safe_bind [OF x(2) [folded e, OF s(4)]], goal_cases)
    case (1 tv)
    then have tv: "typed U tv" by blast
    have "same U T" using s(5) require_matching_same [OF typed_good(1) [OF tv] t(4)] by blast
    then have c: "coerce_value (snd tv) T = Inr (snd tv)" by (rule typed_coerce [OF tv])
    then have "coerce_ty t (snd tv) = Inr (snd tv)" using coerce_value_ty [OF t(3)] by simp
    from entries_fit_update [OF Cons.prems(1) dist t(2) this] show ?case
      unfolding c rbind_simps t(1) str_simps
      using Cons.IH Cons.prems(2) rest by auto
  qed
qed

lemma fixed_record_entries:
  assumes "coerce_ty (TRec fs) v = Inr v" "distinct (map fst fs)"
  obtains r where "v = PDict r" "entries_fit fs r"
proof -
  from assms(1) obtain r where r: "v = PDict r" "map_r (field_step r) fs = Inr r"
    by (cases v) (auto simp: result_simps split: if_splits)
  have "entries_fit fs r"
    unfolding list_all2_conv_all_nth
  proof (intro conjI allI impI)
    show len: "length fs = length r" using map_r_length [OF r(2)] by simp
    fix i
    assume i: "i < length fs"
    obtain n t m y where nt: "fs ! i = (n, t)" "r ! i = (m, y)" by fastforce
    have m: "m = n" using field_entries(1) [OF r(2)] i len nt by (metis fst_conv nth_map)
    have "map_of fs n = Some t" using nth_mem [OF i] nt assms(2) by (simp add: map_of_eq_Some_iff)
    then obtain x where "map_of r n = Some x" "coerce_ty t x = Inr x"
      using fixed_fields [OF r(2) assms(2)] by blast
    moreover have "map_of r n = Some y"
      using nth_mem [of i r] i len nt m field_entries(1) [OF r(2)] assms(2) by (simp add: map_of_eq_Some_iff)
    ultimately show "(case fs ! i of (n, t) \<Rightarrow> \<lambda>(m, y). m = n \<and> coerce_ty t y = Inr y) (r ! i)"
      using nt m by simp
  qed
  with r(1) show thesis by (rule that)
qed

lemma record_update_sound:
  assumes P: "parts_sound vc dc ev kv" and v: "validate_record_update_node vc kv = Inr n"
    and d: "derive_record_update_node dc (PDict kv) = Inr S"
  shows "safe (typed S) (evaluate_record_update_node ev (PDict kv))"
proof -
  from v obtain k m where v': "validate_type_descriptor (dget kv ''record_type'') = Inr ()"
      "descriptor_kind (dget kv ''record_type'') = Inr ''record''" "vc (dget kv ''base'') = Inr m"
      "is_sequence (dget kv ''fields'')"
      "count_children vc update_field_value (seq_items (dget kv ''fields'')) (1 + m) = Inr n"
    by (auto simp: validate_record_update_node_def result_simps)
  from d obtain b B dfs dfields table ufs us seen where d': "py_item (PDict kv) ''record_type'' = Inr S"
      "py_item (PDict kv) ''base'' = Inr b" "dc b = Inr B" "require_matching_descriptor B S = Inr ()"
      "py_item S ''fields'' = Inr dfs" "py_iter dfs = Inr dfields" "field_lookup dfields = Inr table"
      "py_item (PDict kv) ''fields'' = Inr ufs" "py_iter ufs = Inr us"
      and static: "fold_r (\<lambda>update seen.
         rbind (py_item update ''name'') (\<lambda>n.
         if n \<in> set seen then Inl payload_invalid
         else (case lookup_field table n of
             None \<Rightarrow> Inl (PureExprEvaluationError ''record_field_unknown'')
           | Some ft \<Rightarrow>
               rbind (py_item update ''value'') (\<lambda>e. rbind (dc e) (\<lambda>ut.
               rbind (require_matching_descriptor ut ft) (\<lambda>_. Inr (n # seen))))))) us [] = Inr seen"
    unfolding derive_record_update_node_def rbind_Inr_iff by auto
  have eq: "dget kv ''record_type'' = S" "dget kv ''fields'' = ufs" using d' item_dget_eq by blast+
  then have us: "us = seq_items ufs" using v'(4) d'(9) by simp
  have g: "good S" using good_part [OF P v'(1)] eq by simp
  then obtain t where t: "desc_ty S t" using goodD by blast
  have "kind_of t = ''record''" using v'(2) eq descriptor_kind_ty [OF t] by simp
  then obtain fs where tr: "t = TRec fs" by (cases t) auto
  then obtain dkv where S: "S = PDict dkv" "fields_ty (dget dkv ''fields'') fs"
    using desc_ty_kind_of [OF t] t by (auto simp: desc_ty_record)
  note f = fields_item [OF S(2)]
  have dfields: "dfields = seq_items (dget dkv ''fields'')" using d'(5,6) f S(1) by simp
  have dist: "distinct (map fst fs)" using S(2) by (simp add: fields_ty_iff)
  have "\<forall>n T. lookup_field table n = Some T \<longrightarrow> (\<exists>s t fkv. n = PStr s \<and> (s, t) \<in> set fs \<and>
        PDict fkv \<in> set dfields \<and> T = dget fkv ''type'' \<and> desc_ty T t)"
    using lookup_field_ty [OF f(3)] d'(7) dfields by auto
  then have table: "\<exists>s t. n = PStr s \<and> (s, t) \<in> set fs \<and> desc_ty T t \<and> good T"
    if "lookup_field table n = Some T" for n T
    using that finite_field [OF good_finite [OF g, unfolded S(1)]] unfolding dfields good_def by blast
  have kids: "\<exists>fkv. x = PDict fkv \<and> (\<forall>S. dc (dget fkv ''value'') = Inr S \<longrightarrow> safe (typed S) (ev (dget fkv ''value'')))"
    if x: "x \<in> set us" for x
  proof -
    obtain w j where w: "update_field_value x = Inr w" "vc w = Inr j"
      using counted_children [OF v'(5)] x us eq by blast
    then obtain fkv where "x = PDict fkv" "w = dget fkv ''value''"
      by (cases x) (auto simp: update_field_value_def split: if_splits)
    with w part_field [OF P] x us eq show ?thesis by blast
  qed
  have final: "typed S (S, PDict r)" if r: "entries_fit fs r" for r
  proof (rule typedI [OF g t])
    have "fst ` set r = fst ` set fs" using entries_fit_names [OF r] by (metis list.set_map)
    with entries_fit_fix [OF r dist refl] show "coerce_ty t (PDict r) = Inr (PDict r)" by (simp add: tr)
  qed
  show ?thesis
    unfolding evaluate_record_update_node_def d'(1,2) rbind_simps
  proof (rule safe_typed_bind [OF part_child [OF P v'(3) d'(2,3)]], goal_cases)
    case (1 D w)
    then have w: "typed B (D, w)" by blast
    then have BS: "same B S" using d'(4) require_matching_same [OF typed_good(1) g] by blast
    then have "same D S" using w same_trans [of D B S] by (simp add: typed_def)
    then have req: "require_matching_descriptor D S = Inr ()" using require_matching_same same_good by blast
    have c: "coerce_value w S = Inr w" using typed_coerce [OF w BS] by simp
    then have "coerce_ty (TRec fs) w = Inr w" unfolding coerce_value_ty [OF t] tr .
    then obtain r where r: "w = PDict r" "entries_fit fs r" by (rule fixed_record_entries [OF _ dist])
    show ?case
      unfolding prod.case req d'(5-9) rbind_simps r(1) c [unfolded r(1)] pyval.case
      by (rule safe_bind [OF update_loop_safe [OF table dist r(2) kids static]]) (simp_all add: final)
  qed
qed

section \<open>Lists, paths and operators\<close>

lemma list_of_typed:
  assumes "good T" "\<forall>y \<in> set ys. coerce_value y T = Inr y"
  shows "typed (list_of T) (list_of T, PList ys)"
proof -
  obtain t where t: "desc_ty T t" using goodD [OF assms(1)] by blast
  have "coerce_ty (TList t) (PList ys) = Inr (PList ys)"
    unfolding list_value using assms(2) coerce_value_ty [OF t] by auto
  then show ?thesis by (rule typedI [OF good_list_of [OF assms(1)] list_of_ty [OF t]])
qed

lemma element_safe:
  assumes "safe (typed U) m" "require_matching_descriptor U T = Inr ()" "good T"
  shows "safe (\<lambda>y. coerce_value y T = Inr y) (rbind m (\<lambda>(t, v).
    rbind (require_matching_descriptor t T) (\<lambda>_. coerce_value v T)))"
proof (rule safe_typed_bind [OF assms(1)], unfold prod.case)
  fix D v
  assume t: "typed U (D, v)"
  then have UT: "same U T" using assms(2,3) require_matching_same typed_good(1) by blast
  then have "same D T" using t same_trans [of D U T] by (simp add: typed_def)
  then have "require_matching_descriptor D T = Inr ()" using require_matching_same same_good by blast
  moreover have "coerce_value v T = Inr v" using typed_coerce [OF t UT] by simp
  ultimately show "safe (\<lambda>y. coerce_value y T = Inr y)
      (rbind (require_matching_descriptor D T) (\<lambda>_. coerce_value v T))" by simp
qed

lemma list_sound:
  assumes P: "parts_sound vc dc ev kv" and v: "validate_list_node vc kv = Inr n"
    and d: "derive_list_node dc (PDict kv) = Inr S"
  shows "safe (typed S) (evaluate_list_node ev (PDict kv))"
proof -
  from v have v': "validate_type_descriptor (dget kv ''element_type'') = Inr ()" "is_sequence (dget kv ''items'')"
      "count_children vc Inr (seq_items (dget kv ''items'')) 1 = Inr n"
    by (auto simp: validate_list_node_def result_simps)
  from d obtain T w xs where d': "py_item (PDict kv) ''element_type'' = Inr T" "py_item (PDict kv) ''items'' = Inr w"
      "py_iter w = Inr xs" "S = list_of T"
      "fold_r (\<lambda>x _. rbind (dc x) (\<lambda>t. require_matching_descriptor t T)) xs () = Inr ()"
    unfolding derive_list_node_def rbind_Inr_iff by auto
  have eq: "dget kv ''element_type'' = T" "dget kv ''items'' = w" using d' item_dget_eq by blast+
  then have xs: "xs = seq_items (dget kv ''items'')" using v'(2) d'(3) by simp
  have g: "good T" using good_part [OF P v'(1)] eq by simp
  have item: "safe (\<lambda>y. coerce_value y T = Inr y) (rbind (ev x) (\<lambda>(t, v).
      rbind (require_matching_descriptor t T) (\<lambda>_. coerce_value v T)))" if x: "x \<in> set xs" for x
  proof -
    obtain U where "dc x = Inr U" "require_matching_descriptor U T = Inr ()"
      using d'(5) x unfolding fold_r_unit_iff rbind_Inr_iff by blast
    moreover obtain m where "vc x = Inr m" using counted_children [OF v'(3)] x xs by blast
    ultimately show ?thesis using element_safe [OF part_item [OF P x [unfolded xs]] _ g] by blast
  qed
  show ?thesis
    unfolding evaluate_list_node_def d'(1,2,3,4) rbind_simps
    by (rule safe_bind [OF safe_map_r [of xs "\<lambda>_ y. coerce_value y T = Inr y"], OF item])
      (auto intro!: list_of_typed [OF g] simp: list_all2_conv_all_nth in_set_conv_nth)
qed

definition locals_fit :: "pydict \<Rightarrow> local_env \<Rightarrow> bool" where
  "locals_fit L l \<longleftrightarrow> (\<forall>n. case map_of l n of None \<Rightarrow> map_of L n = None
     | Some (d, v) \<Rightarrow> map_of L n = Some d \<and> good d \<and> coerce_value v d = Inr v)"

lemma locals_fit_update:
  "locals_fit L l \<Longrightarrow> good d \<Longrightarrow> coerce_value v d = Inr v \<Longrightarrow>
   locals_fit (AList.update n d L) (AList.update n (d, v) l)"
  unfolding locals_fit_def update_conv' by (auto split: option.splits) (metis option.distinct(1))

lemma list_source:
  assumes "typed U (D, v)" "descriptor_kind U = Inr ''list''" "py_item U ''item'' = Inr it"
    and "require_matching_descriptor it T = Inr ()" "good T"
  obtains a xs where "descriptor_kind D = Inr ''list''" "py_item D ''item'' = Inr a"
    "require_matching_descriptor a T = Inr ()" "v = PList xs" "\<forall>x \<in> set xs. coerce_value x T = Inr x"
proof -
  obtain u a xs where u: "desc_ty U (TList u)" "desc_ty D (TList u)" "descriptor_kind D = Inr ''list''"
      "py_item D ''item'' = Inr a" "same a it" "desc_ty a u" "desc_ty it u"
      "v = PList xs" "\<forall>x \<in> set xs. coerce_value x a = Inr x \<and> coerce_ty u x = Inr x"
    using list_argument [OF assms(1-3)] by auto
  have "same a T" using u(5) assms(4) require_matching_same [OF same_good(2) [OF u(5)] assms(5)] same_trans by blast
  moreover from this have "require_matching_descriptor a T = Inr ()" using require_matching_same same_good by blast
  ultimately show thesis using that u same_coerce by auto
qed

lemma list_map_sound:
  assumes P: "\<And>L l. locals_fit L l \<Longrightarrow> parts_sound (vc L) (dc L) (ev l) kv" and fit: "locals_fit L l"
    and v: "validate_list_map_node vc bindings L kv = Inr n"
    and d: "derive_list_map_node dc L (PDict kv) = Inr S"
  shows "safe (typed S) (evaluate_list_map_node ev l (PDict kv))"
proof -
  from v obtain bkv i j where v': "dget kv ''binder'' = PDict bkv" "nonempty_str (dget bkv ''name'')"
      "validate_type_descriptor (dget bkv ''type'') = Inr ()"
      "validate_type_descriptor (dget kv ''result_element_type'') = Inr ()" "vc L (dget kv ''source'') = Inr i"
      "vc (AList.update (str_of (dget bkv ''name'')) (dget bkv ''type'') L) (dget kv ''body'') = Inr j"
    unfolding validate_list_map_node_def
    by (cases "dget kv ''binder''") (auto simp: guard_Inr rbind_Inr_iff simp del: insert_iff)
  from d obtain s U bd B it bn body bodyT R where d': "py_item (PDict kv) ''source'' = Inr s" "dc L s = Inr U"
      "descriptor_kind U = Inr ''list''" "py_item (PDict kv) ''binder'' = Inr bd" "py_item bd ''type'' = Inr B"
      "py_item U ''item'' = Inr it" "require_matching_descriptor it B = Inr ()" "py_item bd ''name'' = Inr bn"
      "py_item (PDict kv) ''body'' = Inr body" "dc (AList.update (str_of bn) B L) body = Inr bodyT"
      "py_item (PDict kv) ''result_element_type'' = Inr R" "require_matching_descriptor bodyT R = Inr ()" "S = list_of R"
    unfolding derive_list_map_node_def rbind_Inr_iff require_iff by auto
  have eq: "bd = PDict bkv" "dget bkv ''type'' = B" "dget bkv ''name'' = bn" "dget kv ''result_element_type'' = R"
      "dget kv ''body'' = body"
    using d' v'(1) item_dget_eq by auto
  have gR: "good R" using good_part [OF P [OF fit] v'(4)] eq by simp
  have gB: "good B"
    using good_validate v'(3) sane_dget [of bkv] sane_dget [OF parts_sane [OF P [OF fit]], of "''binder''"] v'(1) eq by metis
  show ?thesis
    unfolding evaluate_list_map_node_def d'(1) rbind_simps
  proof (rule safe_typed_bind [OF part_child [OF P [OF fit] v'(5) d'(1,2)]], goal_cases)
    case (1 D v)
    then have "typed U (D, v)" by blast
    then obtain a xs where a: "descriptor_kind D = Inr ''list''" "py_item D ''item'' = Inr a"
        "require_matching_descriptor a B = Inr ()" "v = PList xs" "\<forall>x \<in> set xs. coerce_value x B = Inr x"
      by (rule list_source [OF _ d'(3,6,7) gB])
    have item: "safe (\<lambda>y. coerce_value y R = Inr y) (rbind (py_item bd ''name'') (\<lambda>bn. rbind (coerce_value x B) (\<lambda>bv.
         rbind (py_item (PDict kv) ''body'') (\<lambda>body.
         rbind (ev (AList.update (str_of bn) (B, bv) l) body) (\<lambda>(t, v).
         rbind (require_matching_descriptor t R) (\<lambda>_. coerce_value v R))))))" if x: "x \<in> set xs" for x
    proof -
      have c: "coerce_value x B = Inr x" using a(5) x by blast
      note fit' = locals_fit_update [OF fit gB c, of "str_of bn"]
      have "vc (AList.update (str_of bn) B L) (dget kv ''body'') = Inr j" using v'(6) eq by simp
      from element_safe [OF part_child [OF P [OF fit'] this d'(9,10)] d'(12) gR] show ?thesis
        unfolding c d'(8,9) rbind_simps .
    qed
    show ?case
      unfolding prod.case a(1-4) d'(4,5,11,13) rbind_simps require_simps simp_thms py_iter_simps
      by (rule safe_bind [OF safe_map_r [of xs "\<lambda>_ y. coerce_value y R = Inr y"], OF item])
        (auto intro!: list_of_typed [OF gR] simp: list_all2_conv_all_nth in_set_conv_nth)
  qed
qed

lemma path_join_sound:
  assumes P: "parts_sound vc dc ev kv" and v: "validate_path_join_node vc kv = Inr n"
    and d: "derive_path_join_node dc (PDict kv) = Inr S"
  shows "safe (typed S) (evaluate_path_join_node ev (PDict kv))"
proof -
  from v obtain m where v': "validate_path_join_descriptor (dget kv ''path_type'') = Inr ()" "vc (dget kv ''child'') = Inr m"
    by (auto simp: validate_path_join_node_def result_simps)
  from d obtain c C where d': "py_item (PDict kv) ''child'' = Inr c" "dc c = Inr C"
      "require_primitive C ''String'' = Inr ()" "py_item (PDict kv) ''path_type'' = Inr S"
    by (auto simp: derive_path_join_node_def result_simps)
  have eq: "dget kv ''path_type'' = S" using d' item_dget_eq by blast
  from v'(1) eq obtain pkv p where p: "S = PDict pkv" "dget pkv ''kind'' = PStr ''path''" "validate_type_descriptor S = Inr ()"
      "validated_join_root (dget pkv ''under'') = Inr p"
    by (cases S) (auto simp: validate_path_join_descriptor_def result_simps split: if_splits)
  have g: "good S" using good_part [OF P, of "''path_type''"] p(3) eq by simp
  then obtain t where "desc_ty S t" using goodD by blast
  then have t: "desc_ty S TPath" using p(1,2) by (simp add: desc_ty_path)
  have under: "py_item S ''under'' = Inr (dget pkv ''under'')"
    unfolding p(1) using p(4) by (intro py_item_dget) (auto simp: validated_join_root_def)
  show ?thesis
    unfolding evaluate_path_join_node_def d'(1,4) rbind_simps
  proof (rule safe_typed_bind [OF part_child [OF P v'(2) d'(1,2)]], goal_cases)
    case (1 D v)
    then have tv: "require_primitive D ''String'' = Inr ()" "coerce_ty (TPrim ''String'') v = Inr v"
      using typed_primitive [of C "(D, v)", OF _ d'(3)] by auto
    have "safe (\<lambda>_. True) (join_relative_child_under_root p (str_of v))"
      using join_child_Inl [of p "str_of v"]
      by (cases "join_relative_child_under_root p (str_of v)") (auto simp: safe_def runtime_errors_def)
    moreover have "typed S (S, PStr j)" for j by (rule typedI [OF g t]) simp
    ultimately show ?case
      unfolding prod.case tv(1) under p(4) rbind_simps by (auto intro: safe_bind)
  qed
qed

lemma nonempty_head_sound:
  assumes P: "parts_sound vc dc ev kv" and v: "validate_nonempty_head_node vc kv = Inr n"
    and d: "derive_nonempty_head_node dc (PDict kv) = Inr S"
  shows "safe (typed S) (evaluate_nonempty_head_node ev (PDict kv))"
proof -
  from v obtain m where v': "validate_type_descriptor (dget kv ''element_type'') = Inr ()" "vc (dget kv ''source'') = Inr m"
    by (auto simp: validate_nonempty_head_node_def result_simps split: if_splits)
  from d obtain s U it where d': "py_item (PDict kv) ''source'' = Inr s" "dc s = Inr U"
      "py_item (PDict kv) ''element_type'' = Inr S" "descriptor_kind U = Inr ''list''" "py_item U ''item'' = Inr it"
      "require_matching_descriptor it S = Inr ()"
    by (auto simp: derive_nonempty_head_node_def result_simps)
  have g: "good S" using good_part [OF P v'(1)] item_dget_eq [OF d'(3)] by simp
  show ?thesis
    unfolding evaluate_nonempty_head_node_def d'(1,3) rbind_simps
  proof (rule safe_typed_bind [OF part_child [OF P v'(2) d'(1,2)]], goal_cases)
    case (1 D v)
    then have "typed U (D, v)" by blast
    then obtain a xs where a: "descriptor_kind D = Inr ''list''" "py_item D ''item'' = Inr a"
        "require_matching_descriptor a S = Inr ()" "v = PList xs" "\<forall>x \<in> set xs. coerce_value x S = Inr x"
      by (rule list_source [OF _ d'(4-6) g])
    then show ?case
      by (cases xs) (simp_all add: safe_def runtime_errors_def arg_at_def typed_def same_refl [OF g])
  qed
qed

lemma op_sound:
  assumes P: "parts_sound vc dc ev kv" and v: "validate_op_node vc schema kv = Inr n"
    and d: "derive_op_node dc (PDict kv) = Inr S"
  shows "safe (typed S) (evaluate_op_node ev (PDict kv))"
proof -
  from v obtain spec where v': "map_of PURE_EXPR_OPERATOR_CATALOG (str_of (dget kv ''operator'')) = Some spec"
      "is_sequence (dget kv ''args'')" "min_arity spec \<le> length (seq_items (dget kv ''args''))"
      "count_children vc Inr (seq_items (dget kv ''args'')) 1 = Inr n"
    unfolding validate_op_node_def guard_Inr by (auto simp: Let_def split: option.splits if_splits)
  from d obtain op w xs Ss where d': "py_item (PDict kv) ''operator'' = Inr op" "py_item (PDict kv) ''args'' = Inr w"
      "py_iter w = Inr xs" "map_r dc xs = Inr Ss" "derive_static_operator_type (str_of op) Ss = Inr S"
    by (auto simp: derive_op_node_def result_simps)
  have eq: "dget kv ''operator'' = op" "dget kv ''args'' = w" using d' item_dget_eq by blast+
  then have xs: "xs = seq_items (dget kv ''args'')" using v'(2) d'(3) by simp
  have arity: "2 \<le> length Ss" if "str_of op \<in> {''+'', ''-'', ''*'', ''min'', ''max''}"
  proof -
    have "min_arity spec = 2"
      using v'(1) that unfolding eq(1)
      by (elim insertE emptyE) (auto simp: PURE_EXPR_OPERATOR_CATALOG_def operator_spec_def)
    then show ?thesis using v'(3) map_r_length [OF d'(4)] xs by simp
  qed
  have "safe (list_all2 (\<lambda>x tv. \<exists>S. dc x = Inr S \<and> typed S tv) xs) (map_r ev xs)"
  proof (rule safe_map_r)
    fix x
    assume x: "x \<in> set xs"
    obtain T m where "dc x = Inr T" "vc x = Inr m"
      using counted_children [OF v'(4)] map_r_Inr_memD [OF d'(4) x] x xs by blast
    with part_item [OF P x [unfolded xs]] show "safe (\<lambda>tv. \<exists>S. dc x = Inr S \<and> typed S tv) (ev x)"
      by (blast intro: safe_mono)
  qed
  then show ?thesis
    unfolding evaluate_op_node_def d'(1-3) rbind_simps
  proof (rule safe_bind)
    fix args
    assume "list_all2 (\<lambda>x tv. \<exists>S. dc x = Inr S \<and> typed S tv) xs args"
    then have "list_all2 (\<lambda>tv S. typed S tv) args Ss"
      using d'(4) unfolding map_r_Inr_iff list_all2_conv_all_nth by fastforce
    from operator_sound [OF this d'(5) arity] show "safe (typed S) (evaluate_operator (str_of op) args)" by blast
  qed
qed

section \<open>Bindings\<close>

text \<open>
  The environment of an evaluation: every declared binding has a well-formed type that accepts
  its default, and every resolved value is accepted by the type of its binding.
\<close>

definition bindings_fit :: "pydict \<Rightarrow> pydict \<Rightarrow> bool" where
  "bindings_fit bindings resolved \<longleftrightarrow> (\<forall>n spec. map_of bindings n = Some spec \<longrightarrow>
     (\<exists>skv. spec = PDict skv \<and> good (dget skv ''type'')
        \<and> (\<forall>v. map_of skv ''value'' = Some v \<longrightarrow> (\<exists>w. coerce_value v (dget skv ''type'') = Inr w))
        \<and> (\<forall>v. map_of resolved n = Some v \<longrightarrow> (\<exists>w. coerce_value v (dget skv ''type'') = Inr w))))"

lemma coerced_typed: "good d \<Longrightarrow> coerce_value v d = Inr w \<Longrightarrow> typed d (d, w)"
  unfolding typed_def using goodD coerce_value_idem same_refl by fastforce

lemma binding_sound:
  assumes b: "bindings_fit bindings resolved" and fit: "locals_fit L l"
    and v: "validate_binding_node bindings L kv = Inr n"
    and d: "derive_binding_node bindings L (PDict kv) = Inr S"
  shows "safe (typed S) (evaluate_binding_node bindings resolved l (PDict kv))"
proof -
  from v obtain m where m: "dget kv ''name'' = PStr m" "m \<noteq> []"
    by (auto simp: validate_binding_node_def elim: nonempty_strE split: if_splits)
  then have i: "py_item (PDict kv) ''name'' = Inr (PStr m)" by (simp add: py_item_dget)
  show ?thesis
  proof (cases "map_of l m")
    case (Some p)
    obtain D v where p: "p = (D, v)" by fastforce
    with Some fit have s: "map_of L m = Some D" "good D" "coerce_value v D = Inr v"
      unfolding locals_fit_def by (auto split: option.splits dest: spec [of _ m])
    then have "S = D" using d i by (simp add: derive_binding_node_def field_of_def)
    with s coerced_typed [OF s(2,3)] Some p i show ?thesis by (simp add: evaluate_binding_node_def)
  next
    case None
    then have "map_of L m = None" using fit unfolding locals_fit_def by (auto dest: spec [of _ m])
    with d i obtain spec where spec: "map_of bindings m = Some spec" "py_item spec ''type'' = Inr S"
      by (auto simp: derive_binding_node_def field_of_def split: option.splits)
    with b obtain skv where skv: "spec = PDict skv" "good (dget skv ''type'')"
        "\<forall>v. map_of skv ''value'' = Some v \<longrightarrow> (\<exists>w. coerce_value v (dget skv ''type'') = Inr w)"
        "\<forall>v. map_of resolved m = Some v \<longrightarrow> (\<exists>w. coerce_value v (dget skv ''type'') = Inr w)"
      unfolding bindings_fit_def by blast
    have S: "dget skv ''type'' = S" using spec(2) skv(1) item_dget_eq by blast
    have ok: "safe (typed S) (rbind (coerce_value v S) (\<lambda>w. Inr (S, w)))" if "\<exists>w. coerce_value v S = Inr w" for v
      using that coerced_typed skv(2) S by auto
    show ?thesis
    proof (cases "map_of resolved m")
      case (Some v)
      with ok [of v] skv(4) S None i spec show ?thesis by (simp add: evaluate_binding_node_def field_of_def)
    next
      case unresolved: None
      show ?thesis
      proof (cases "map_of skv ''value''")
        case (Some v)
        with ok [of v] unresolved skv(1,3) S None i spec show ?thesis by (simp add: evaluate_binding_node_def field_of_def)
      next
        case None
        with unresolved \<open>map_of l m = None\<close> i spec skv(1) show ?thesis
          by (simp add: evaluate_binding_node_def field_of_def safe_def runtime_errors_def)
      qed
    qed
  qed
qed

section \<open>All nodes\<close>

theorem expr_sound:
  assumes "bindings_fit bindings resolved" "locals_fit L l" "sane node"
    and "validate_expr_node bindings schema L node = Inr n"
    and "derive_static_expr_type bindings L node = Inr S"
  shows "safe (typed S) (evaluate_expr bindings resolved l node)"
  using assms(2-)
proof (induction node arbitrary: L l n S rule: measure_induct_rule [of size])
  case (less node)
  note fit = less.prems(1) and sane = less.prems(2)
  obtain kv where node: "node = PDict kv"
    using less.prems(3) by (cases node) (auto simp: validate_expr_node.simps)
  define k where "k = str_of (dget kv ''kind'')"
  have kind: "dget kv ''kind'' = PStr k"
    using less.prems(3) unfolding node k_def
    by (auto simp: validate_expr_node.simps [of _ _ _ "PDict kv"] elim: nonempty_strE split: if_splits)
  then have i: "py_item (PDict kv) ''kind'' = Inr (PStr k)" by (simp add: py_item_dget)
  obtain kinds where v: "PURE_EXPR_NODE_KINDS_BY_SCHEMA schema = Inr kinds" "k \<in> set kinds"
    using less.prems(3) unfolding node
    by (auto simp: validate_expr_node.simps [of _ _ _ "PDict kv"] kind Let_def guard_Inr rbind_Inr_iff)
  have P: "parts_sound (\<lambda>x. validate_expr_node bindings schema L x) (\<lambda>x. derive_static_expr_type bindings L x)
      (\<lambda>x. evaluate_expr bindings resolved l x) kv" if "locals_fit L l" for L l
    unfolding parts_sound_def using sane less.IH that unfolding node by blast
  have "k \<in> set SCHEMA_2_NODE_KINDS"
    using v by (auto simp: PURE_EXPR_NODE_KINDS_BY_SCHEMA_def SCHEMA_2_NODE_KINDS_def split: if_splits)
  note vs = less.prems(3) [unfolded node validate_expr_node.simps [of _ _ _ "PDict kv"] pyval.case kind Let_def str_simps v(1) rbind_simps]
    and ds = less.prems(4) [unfolded node derive_static_expr_type.simps [of _ _ "PDict kv"] i rbind_simps]
    and es = evaluate_expr.simps [of bindings resolved l "PDict kv", unfolded i rbind_simps]
  show ?case
    using \<open>k \<in> set SCHEMA_2_NODE_KINDS\<close> unfolding node es SCHEMA_2_NODE_KINDS_def SCHEMA_1_NODE_KINDS_def
    apply (simp only: append.simps list.set insert_iff empty_iff simp_thms)
    apply (elim disjE)
    subgoal using vs ds v(2) literal_sound [OF sane [unfolded node]] by simp
    subgoal using vs ds v(2) binding_sound [OF assms(1) fit] by simp
    subgoal using vs ds v(2) field_access_sound [OF P [OF fit]] by simp
    subgoal using vs ds v(2) if_sound [OF P [OF fit]] by simp
    subgoal using vs ds v(2) record_sound [OF P [OF fit]] by simp
    subgoal using vs ds v(2) union_sound [OF P [OF fit]] by simp
    subgoal using vs ds v(2) record_update_sound [OF P [OF fit]] by simp
    subgoal using vs ds v(2) op_sound [OF P [OF fit]] by simp
    subgoal using vs ds v(2) list_sound [OF P [OF fit]] by simp
    subgoal using vs ds v(2) list_map_sound [of "\<lambda>l x. validate_expr_node bindings schema l x"
          "\<lambda>l x. derive_static_expr_type bindings l x" "\<lambda>l x. evaluate_expr bindings resolved l x" kv, OF P fit] by simp
    subgoal using vs ds v(2) path_join_sound [OF P [OF fit]] by simp
    subgoal using vs ds v(2) nonempty_head_sound [OF P [OF fit]] by simp
    done
qed

end
