(* ===== verification/PureExprPayload.thy ===== *)
theory PureExprPayload
  imports PureExprSound
begin

text \<open>
  What \<open>validate_pure_expr_payload\<close> guarantees of \<open>evaluate_pure_expr\<close>: the end-to-end type
  soundness of pure expressions, the exact 64-bit arithmetic of the operators, and the corner
  cases of the evaluator (strict conditionals, the operator no payload can use, the union tag).
\<close>

section \<open>From validation to the environment\<close>

lemma validate_bindings_fit:
  assumes "validate_bindings bindings = Inr ()" "sane (PDict bindings)"
    and res: "\<And>n v spec. map_of resolved n = Some v \<Longrightarrow> map_of bindings n = Some spec \<Longrightarrow>
      \<exists>w. coerce_value v (dfield spec ''type'') = Inr w"
  shows "bindings_fit bindings resolved"
  unfolding bindings_fit_def
proof (intro allI impI)
  fix n spec
  assume b: "map_of bindings n = Some spec"
  then have "(n, spec) \<in> set bindings" by (rule map_of_SomeD)
  then have step: "(if n = [] then Inl payload_invalid
       else (case spec of PDict skv \<Rightarrow>
           rbind (validate_type_descriptor (dget skv ''type'')) (\<lambda>_.
           (case map_of skv ''value'' of
              None \<Rightarrow> Inr ()
            | Some v \<Rightarrow> rbind (coerce_value v (dget skv ''type'')) (\<lambda>_. Inr ())))
         | _ \<Rightarrow> Inl payload_invalid)) = Inr ()"
    using assms(1) unfolding validate_bindings_def fold_r_unit_iff case_prod_beta by fastforce
  then obtain skv where spec: "spec = PDict skv" by (cases spec) (auto split: if_splits)
  then have skv: "spec = PDict skv" "validate_type_descriptor (dget skv ''type'') = Inr ()"
      "\<forall>v. map_of skv ''value'' = Some v \<longrightarrow> (\<exists>w. coerce_value v (dget skv ''type'') = Inr w)"
    using step by (auto simp: guard_Inr rbind_Inr_iff split: option.splits)
  have "sane (PDict skv)" using sane_dget [OF assms(2), of n] b skv(1) by simp
  then have "good (dget skv ''type'')" using good_validate skv(2) sane_dget by blast
  moreover have "\<exists>w. coerce_value v (dget skv ''type'') = Inr w" if "map_of resolved n = Some v" for v
    using res [OF that b] skv(1) by simp
  ultimately show "\<exists>skv. spec = PDict skv \<and> good (dget skv ''type'')
        \<and> (\<forall>v. map_of skv ''value'' = Some v \<longrightarrow> (\<exists>w. coerce_value v (dget skv ''type'') = Inr w))
        \<and> (\<forall>v. map_of resolved n = Some v \<longrightarrow> (\<exists>w. coerce_value v (dget skv ''type'') = Inr w))"
    using skv(1,3) by blast
qed

lemma validate_payload_parts:
  assumes "validate_pure_expr_payload max_nodes payload = Inr p"
  obtains kv bindings schema n S where "payload = PDict kv" "dget kv ''bindings'' = PDict bindings"
    "validate_type_descriptor (dget kv ''result_type'') = Inr ()" "validate_bindings bindings = Inr ()"
    "validate_expr_node bindings schema [] (dget kv ''expr'') = Inr n" "n \<le> max_nodes"
    "derive_static_expr_type bindings [] (dget kv ''expr'') = Inr S"
    "descriptors_match S (dget kv ''result_type'') = Inr True"
proof -
  from assms obtain kv where kv: "payload = PDict kv"
    by (cases payload) (auto simp: validate_pure_expr_payload_def)
  with assms obtain bindings where b: "dget kv ''bindings'' = PDict bindings"
    by (cases "dget kv ''bindings''") (auto simp: validate_pure_expr_payload_def rbind_Inr_iff)
  from assms [unfolded kv validate_pure_expr_payload_def pyval.case b rbind_Inr_iff guard_Inr]
  show thesis using that [OF kv b] by auto
qed

lemma items_present:
  "is_mapping (dget kv k) \<Longrightarrow> py_item (PDict kv) k = Inr (dget kv k)"
  by (rule py_item_dget) auto

theorem payload_sound:
  assumes v: "validate_pure_expr_payload max_nodes payload = Inr p" and sane: "sane payload"
    and res: "\<forall>(n, v) \<in> set resolved. \<exists>spec w. map_of (case dfield payload ''bindings'' of PDict b \<Rightarrow> b | _ \<Rightarrow> []) n = Some spec
      \<and> coerce_value v (dfield spec ''type'') = Inr w"
  shows "safe (\<lambda>w. coerce_value w (dfield payload ''result_type'') = Inr w) (evaluate_pure_expr max_nodes payload resolved)"
proof -
  from v obtain kv bindings schema n S where s: "payload = PDict kv" "dget kv ''bindings'' = PDict bindings"
      "validate_type_descriptor (dget kv ''result_type'') = Inr ()" "validate_bindings bindings = Inr ()"
      "validate_expr_node bindings schema [] (dget kv ''expr'') = Inr n" "n \<le> max_nodes"
      "derive_static_expr_type bindings [] (dget kv ''expr'') = Inr S"
      "descriptors_match S (dget kv ''result_type'') = Inr True" by (rule validate_payload_parts)
  let ?R = "dget kv ''result_type''"
  have sk: "sane (dget kv k)" for k using sane s(1) sane_dget by simp
  have gR: "good ?R" using good_validate [OF s(3) sk] .
  have "sane (PDict bindings)" using sk [of "''bindings''"] s(2) by simp
  then have bf: "bindings_fit bindings resolved"
  proof (rule validate_bindings_fit [OF s(4)])
    fix n v spec
    assume "map_of resolved n = Some v" and b: "map_of bindings n = Some spec"
    with res s(1,2) show "\<exists>w. coerce_value v (dfield spec ''type'') = Inr w" by (fastforce dest: map_of_SomeD)
  qed
  have "locals_fit [] []" by (simp add: locals_fit_def)
  note es = expr_sound [OF bf this sk s(5,7)]
  have "is_mapping (dget kv ''expr'')"
    using s(5) by (cases "dget kv ''expr''") (simp_all add: validate_expr_node.simps)
  then have i: "py_item payload ''expr'' = Inr (dget kv ''expr'')" "py_item payload ''result_type'' = Inr ?R"
      "py_item payload ''bindings'' = Inr (PDict bindings)"
    using items_present [of kv "''bindings''"] items_present [of kv "''expr''"] items_present [OF good_mapping [OF gR]] s(1,2) by simp_all
  have names: "list_all (\<lambda>p. map_of bindings (fst p) \<noteq> None) resolved"
    using res s(1,2) by (fastforce simp: list_all_iff)
  show ?thesis
    unfolding evaluate_pure_expr_def v i rbind_simps pyval.case
  proof (simp only: names require_simps rbind_simps, rule safe_typed_bind [OF es], goal_cases)
    case (1 D w)
    then have t: "typed S (D, w)" by blast
    have SR: "same S ?R" using s(8) match_good [OF typed_good(1) [OF t] gR] gR typed_good(1) [OF t] by (simp add: same_def)
    then have DR: "same D ?R" using t same_trans [of D S ?R] by (simp add: typed_def)
    have "descriptors_match D ?R = Inr True"
      using match_good [OF same_good [OF DR]] DR by (simp add: same_def)
    moreover have "coerce_value w ?R = Inr w" using typed_coerce [OF t SR] by simp
    ultimately show ?case using s(1) by simp
  qed
qed

section \<open>Exact arithmetic\<close>

lemma fold_checked_exact:
  "fold_checked f a (map PInt is) =
     (if \<forall>k \<in> {1..length is}. INT64_MIN \<le> foldl f a (take k is) \<and> foldl f a (take k is) \<le> INT64_MAX
      then Inr (foldl f a is) else Inl (PureExprEvaluationError ''pure_expr_overflow''))"
proof (induction "is" arbitrary: a)
  case Nil
  then show ?case by (simp add: fold_checked_def)
next
  case (Cons i "is")
  have split: "(\<forall>k \<in> {1..length (i # is)}. P (take k (i # is))) \<longleftrightarrow>
      P [i] \<and> (\<forall>k \<in> {1..length is}. P (i # take k is))" for P :: "int list \<Rightarrow> bool"
  proof -
    have eq: "{1..length (i # is)} = insert 1 (Suc ` {1..length is})"
      by (auto simp: image_iff)
    show ?thesis unfolding eq by (simp only: ball_simps take_Suc_Cons One_nat_def take_0)
  qed
  have "fold_checked f a (map PInt (i # is)) = rbind (checked_int (f a i)) (\<lambda>_. fold_checked f (f a i) (map PInt is))"
    by (simp add: fold_checked_def int_operand_def rbind_assoc)
  also have "\<dots> = (if \<forall>k \<in> {1..length (i # is)}. INT64_MIN \<le> foldl f a (take k (i # is)) \<and> foldl f a (take k (i # is)) \<le> INT64_MAX
      then Inr (foldl f a (i # is)) else Inl (PureExprEvaluationError ''pure_expr_overflow''))"
    unfolding Cons.IH split [of "\<lambda>xs. INT64_MIN \<le> foldl f a xs \<and> foldl f a xs \<le> INT64_MAX"]
    by (simp add: checked_int_def)
  finally show ?case .
qed

lemma foldl_sum: "foldl (+) a is = a + sum_list is" for a :: int
  by (induction "is" arbitrary: a) (auto simp: algebra_simps)

lemma foldl_prod: "foldl (*) a is = a * prod_list is" for a :: int
  by (induction "is" arbitrary: a) (auto simp: algebra_simps)

section \<open>Properties\<close>

text \<open>The bindings a payload declares.\<close>

definition payload_bindings :: "pyval \<Rightarrow> pydict" where
  "payload_bindings payload = (case dfield payload ''bindings'' of PDict b \<Rightarrow> b | _ \<Rightarrow> [])"

lemma undeclared_refused:
  assumes "validate_pure_expr_payload max_nodes payload = Inr p" "(n, v) \<in> set resolved" "map_of (payload_bindings payload) n = None"
  shows "evaluate_pure_expr max_nodes payload resolved = Inl (PureExprEvaluationError ''pure_expr_binding_unexpected'')"
proof -
  obtain kv bindings where kv: "payload = PDict kv" "dget kv ''bindings'' = PDict bindings"
    using assms(1) by (rule validate_payload_parts)
  then have "py_item payload ''bindings'' = Inr (PDict bindings)" using items_present [of kv "''bindings''"] by simp
  moreover have "payload_bindings payload = bindings" by (simp add: payload_bindings_def kv)
  then have "\<not> list_all (\<lambda>p. map_of bindings (fst p) \<noteq> None) resolved" using assms(2,3) by (force simp: list_all_iff)
  ultimately show ?thesis unfolding evaluate_pure_expr_def assms(1) rbind_simps by (simp add: require_def)
qed

text \<open>
  C1. Type soundness of pure expressions, for payloads whose unions are named and do not declare a field
  called \<open>variant\<close> and whose floats are finite (\<open>sane\<close>), and for resolved values that the types of their
  bindings accept. If such a payload passes \<open>validate_pure_expr_payload\<close>, then its evaluation returns a
  value that the declared result type accepts unchanged, or raises one of five run-time errors
  (overflow, missing binding, empty list under a nonempty extraction, invalid or escaping child path);
  if a value is resolved under a name that the payload does not declare, it raises
  \<open>pure_expr_binding_unexpected\<close>. No operand mismatch, unknown field, KeyError or TypeError can occur.
\<close>

theorem validated_payload_evaluates:
  assumes "validate_pure_expr_payload max_nodes payload = Inr p" "sane payload"
    and "\<forall>(n, v) \<in> set resolved. \<forall>spec. map_of (payload_bindings payload) n = Some spec \<longrightarrow> (\<exists>w. coerce_value v (dfield spec ''type'') = Inr w)"
  shows "if \<exists>(n, v) \<in> set resolved. map_of (payload_bindings payload) n = None
     then evaluate_pure_expr max_nodes payload resolved = Inl (PureExprEvaluationError ''pure_expr_binding_unexpected'')
     else (\<exists>w. evaluate_pure_expr max_nodes payload resolved = Inr w
            \<and> coerce_value w (dfield payload ''result_type'') = Inr w)
       \<or> (\<exists>code \<in> {''pure_expr_overflow'', ''pure_expr_binding_missing'', ''list_nonempty_invariant_broken'',
            ''path_join_under_child_invalid'', ''path_join_under_escape''}.
            evaluate_pure_expr max_nodes payload resolved = Inl (PureExprEvaluationError code))"
proof (cases "\<exists>(n, v) \<in> set resolved. map_of (payload_bindings payload) n = None")
  case True
  then show ?thesis using undeclared_refused [OF assms(1)] by auto
next
  case False
  then have "\<forall>(n, v) \<in> set resolved. \<exists>spec w. map_of (payload_bindings payload) n = Some spec \<and> coerce_value v (dfield spec ''type'') = Inr w"
    using assms(3) by fastforce
  from payload_sound [OF assms(1,2) this [unfolded payload_bindings_def]] False show ?thesis
    by (cases "evaluate_pure_expr max_nodes payload resolved") (auto simp: safe_def runtime_errors_def)
qed

definition demo_int :: pyval where
  "demo_int = PDict [(''kind'', PStr ''primitive''), (''name'', PStr ''Int'')]"

definition demo_op :: "string \<Rightarrow> pyval list \<Rightarrow> pyval" where
  "demo_op n args = PDict [(''kind'', PStr ''op''), (''operator'', PStr n), (''args'', PList args)]"

definition demo_lit :: "int \<Rightarrow> pyval" where
  "demo_lit i = PDict [(''kind'', PStr ''literal''), (''type'', demo_int), (''value'', PInt i)]"

definition demo_var :: "string \<Rightarrow> pyval" where
  "demo_var n = PDict [(''kind'', PStr ''binding''), (''name'', PStr n)]"

definition demo_payload :: pyval where
  "demo_payload = PDict [(''pure_expr_schema_version'', PInt 2), (''result_type'', list_of demo_int),
     (''bindings'', PDict [(''xs'', PDict [(''type'', list_of demo_int)])]),
     (''expr'', PDict [(''kind'', PStr ''list_map''),
        (''binder'', PDict [(''name'', PStr ''x''), (''type'', demo_int)]),
        (''source'', demo_var ''xs''), (''result_element_type'', demo_int),
        (''body'', demo_op ''+'' [demo_var ''x'', demo_lit 1])])]"

lemma demo_payload_facts:
  "validate_pure_expr_payload 256 demo_payload = Inr demo_payload" "sane demo_payload"
  "evaluate_pure_expr 256 demo_payload [(''xs'', PList [PInt 1, PInt 2])] = Inr (PList [PInt 2, PInt 3])"
  by code_simp+

lemma demo_payload_declared: "payload_bindings demo_payload = [(''xs'', PDict [(''type'', list_of demo_int)])]"
  "coerce_value (PList [PInt 1, PInt 2]) (dfield (PDict [(''type'', list_of demo_int)]) ''type'') = Inr (PList [PInt 1, PInt 2])"
  by code_simp+

theorem validated_payload_evaluates_witness:
  "coerce_value (PList [PInt 2, PInt 3]) (dfield demo_payload ''result_type'') = Inr (PList [PInt 2, PInt 3])
   \<and> evaluate_pure_expr 256 demo_payload [(''ys'', PNone)] = Inl (PureExprEvaluationError ''pure_expr_binding_unexpected'')"
proof
  have "\<forall>(n, v) \<in> set [(''xs'', PList [PInt 1, PInt 2])]. \<forall>spec.
      map_of (payload_bindings demo_payload) n = Some spec \<longrightarrow> (\<exists>w. coerce_value v (dfield spec ''type'') = Inr w)"
    using demo_payload_declared(2) by (simp add: demo_payload_declared(1) del: coerce_value.simps)
  from validated_payload_evaluates [OF demo_payload_facts(1,2) this] demo_payload_facts(3)
  show "coerce_value (PList [PInt 2, PInt 3]) (dfield demo_payload ''result_type'') = Inr (PList [PInt 2, PInt 3])"
    by (simp add: demo_payload_declared(1) split: if_splits)
  have "\<forall>(n, v) \<in> set [(''ys'', PNone)]. \<forall>spec.
      map_of (payload_bindings demo_payload) n = Some spec \<longrightarrow> (\<exists>w. coerce_value v (dfield spec ''type'') = Inr w)"
    by (simp add: demo_payload_declared(1))
  from validated_payload_evaluates [OF demo_payload_facts(1,2) this]
  show "evaluate_pure_expr 256 demo_payload [(''ys'', PNone)] = Inl (PureExprEvaluationError ''pure_expr_binding_unexpected'')"
    by (simp add: demo_payload_declared(1))
qed

text \<open>
  C3. Integer addition and multiplication are exact: the result is the mathematical sum or
  product when every partial result fits a signed 64-bit integer, and otherwise the operator
  raises \<open>pure_expr_overflow\<close>; nothing wraps around.
\<close>

theorem arithmetic_exact_or_overflow:
  "evaluate_arithmetic ''+'' (map PInt is) =
     (if \<forall>k \<in> {1..length is}. - (2 ^ 63) \<le> sum_list (take k is) \<and> sum_list (take k is) < 2 ^ 63
      then Inr (PInt (sum_list is)) else Inl (PureExprEvaluationError ''pure_expr_overflow''))
   \<and> evaluate_arithmetic ''*'' (map PInt is) =
     (if \<forall>k \<in> {1..length is}. - (2 ^ 63) \<le> prod_list (take k is) \<and> prod_list (take k is) < 2 ^ 63
      then Inr (PInt (prod_list is)) else Inl (PureExprEvaluationError ''pure_expr_overflow''))"
proof -
  have lt: "i \<le> INT64_MAX \<longleftrightarrow> i < 2 ^ 63" for i by (auto simp: INT64_MAX_def)
  show ?thesis
    by (simp add: evaluate_arithmetic_def fold_checked_exact foldl_sum foldl_prod lt INT64_MIN_def)
qed

theorem arithmetic_exact_or_overflow_witness:
  "evaluate_arithmetic ''+'' (map PInt [2 ^ 62, 2 ^ 62]) = Inl (PureExprEvaluationError ''pure_expr_overflow'')"
proof -
  have "2 \<in> {1..length [2 ^ 62, 2 ^ 62 :: int]}" "\<not> sum_list (take 2 [2 ^ 62, 2 ^ 62 :: int]) < 2 ^ 63" by simp_all
  with arithmetic_exact_or_overflow [of "[2 ^ 62, 2 ^ 62]"] show ?thesis by (metis (no_types, lifting))
qed

text \<open>
  A conditional is strict in both branches: when the condition holds and the \<open>then\<close>
  branch has a value, an exception of the \<open>else\<close> branch is still the outcome, and symmetrically.
\<close>

theorem if_raises_for_either_branch:
  assumes "dget kv ''kind'' = PStr ''if''"
    and "py_item (PDict kv) ''condition'' = Inr c" "evaluate_expr bindings resolved l c = Inr (bool_type, PBool b)"
    and "py_item (PDict kv) (if b then ''then'' else ''else'') = Inr taken"
    and "evaluate_expr bindings resolved l taken = Inr tv"
    and "py_item (PDict kv) (if b then ''else'' else ''then'') = Inr other"
    and "evaluate_expr bindings resolved l other = Inl e"
  shows "evaluate_expr bindings resolved l (PDict kv) = Inl e"
proof -
  have "py_item (PDict kv) ''kind'' = Inr (PStr ''if'')" using assms(1) by (simp add: py_item_dget)
  moreover have "require_primitive bool_type ''Bool'' = Inr ()"
    using require_primitive_ty [OF built_in_types(1), of "''Bool''"] by simp
  ultimately show ?thesis
    using assms(2-) by (cases b; cases tv) (simp_all add: evaluate_expr.simps [of _ _ _ "PDict kv"] evaluate_if_node_def)
qed

theorem if_raises_for_either_branch_witness:
  "evaluate_expr [] [] [] (PDict [(''kind'', PStr ''if''),
      (''condition'', demo_op ''<'' [demo_lit 0, demo_lit 1]), (''then'', demo_lit 7),
      (''else'', demo_op ''+'' [demo_lit 9223372036854775807, demo_lit 1])])
   = Inl (PureExprEvaluationError ''pure_expr_overflow'')"
  by (rule if_raises_for_either_branch [where b = True and c = "demo_op ''<'' [demo_lit 0, demo_lit 1]"
        and taken = "demo_lit 7" and tv = "(demo_int, PInt 7)"
        and other = "demo_op ''+'' [demo_lit 9223372036854775807, demo_lit 1]"]) code_simp+

text \<open>
  \<open>record-update\<close> is listed in the operator catalog (two or more arguments), yet no use of
  it is ever typable or evaluable: static typing and evaluation reject it for all arguments.
\<close>

theorem record_update_operator_unusable:
  "(\<exists>spec. map_of PURE_EXPR_OPERATOR_CATALOG ''record-update'' = Some spec \<and> min_arity spec = 2 \<and> max_arity spec = None)
   \<and> derive_static_operator_type ''record-update'' ts = Inl (PureExprEvaluationError ''pure_expr_operator_unsupported'')
   \<and> evaluate_operator ''record-update'' args = Inl (PureExprEvaluationError ''pure_expr_operator_unsupported'')"
  by (simp add: PURE_EXPR_OPERATOR_CATALOG_def operator_spec_def derive_static_operator_type_def
      evaluate_operator_def LIST_OPERATOR_NAMES_def)

definition tag_field_union :: pyval where
  "tag_field_union = PDict [(''kind'', PStr ''union''), (''name'', PStr ''U''), (''variants'', PList
     [PDict [(''name'', PStr n), (''fields'', PList [PDict [(''name'', PStr ''variant''), (''type'', string_type)]])]
      . n \<leftarrow> [''A'', ''B'']])]"

definition tag_field_payload :: pyval where
  "tag_field_payload = PDict [(''pure_expr_schema_version'', PInt 1), (''result_type'', tag_field_union),
     (''bindings'', PDict []),
     (''expr'', PDict [(''kind'', PStr ''union''), (''type'', tag_field_union), (''variant'', PStr ''A''),
        (''fields'', PList [PDict [(''name'', PStr ''variant''),
           (''value'', PDict [(''kind'', PStr ''literal''), (''type'', string_type), (''value'', PStr ''B'')])]])])]"

text \<open>
  A union whose variants declare a field called \<open>variant\<close> passes validation, and the field
  then overwrites the tag: constructing variant \<open>A\<close> with that field set to \<open>B\<close> yields a value of
  variant \<open>B\<close>. This is why soundness asks for descriptors that reserve the name.
\<close>

theorem variant_field_overwrites_tag:
  "validate_pure_expr_payload 256 tag_field_payload = Inr tag_field_payload
   \<and> evaluate_pure_expr 256 tag_field_payload [] = Inr (PDict [(''variant'', PStr ''B'')])"
  by (intro conjI) code_simp+

definition nameless_union :: pyval where
  "nameless_union = PDict [(''kind'', PStr ''union''), (''variants'', PList
     [PDict [(''name'', PStr ''A''), (''fields'', PList [])]])]"

definition nameless_payload :: pyval where
  "nameless_payload = PDict [(''pure_expr_schema_version'', PInt 1), (''result_type'', string_type),
     (''bindings'', PDict [(''u'', PDict [(''type'', nameless_union)])]),
     (''expr'', PDict [(''kind'', PStr ''field_access''), (''base'', demo_var ''u''), (''field'', PStr ''variant'')])]"

text \<open>
  Validation does not ask a union descriptor for a name, although its tag type needs one: a
  valid nameless union makes payload validation itself raise a bare \<open>KeyError\<close> instead of a
  \<open>PureExprEvaluationError\<close>.
\<close>

theorem nameless_union_escapes_as_key_error:
  "validate_type_descriptor nameless_union = Inr ()
   \<and> validate_pure_expr_payload 256 nameless_payload = Inl KeyError"
  by (intro conjI) code_simp+

end
