(* ===== verification/JsonText.thy ===== *)
theory JsonText
  imports CanonicalJson
begin

text \<open>
  Reading and laying out JSON text, as far as \<open>workflow/transition_executor.py\<close> uses the
  standard library for it: \<open>json.loads\<close> and \<open>json.dumps(value, indent=2, ensure_ascii=False)\<close>. A text is the list of its UTF-8 bytes.
  Compact and indented layout are two instances of one function \<open>render\<close>, and one round-trip
  lemma covers both: parsing a rendered tree gives back the value the tree was made from, with
  tuples as lists. A float literal denotes its decimal value, which is exact for every literal
  the encoder prints; values with floats are left out of the round trip.
\<close>

section \<open>Scanning\<close>

definition ws_char :: "char \<Rightarrow> bool" where
  "ws_char c \<longleftrightarrow> c \<in> {CHR 0x20, CHR 0x09, CHR 0x0A, CHR 0x0D}"

fun skip_ws :: "string \<Rightarrow> string" where
  "skip_ws [] = []"
| "skip_ws (c # s) = (if ws_char c then skip_ws s else c # s)"

definition is_digit :: "char \<Rightarrow> bool" where
  "is_digit c \<longleftrightarrow> c \<in> set ''0123456789''"

definition digit_val :: "char \<Rightarrow> nat" where
  "digit_val c = of_char c - 48"

definition digits_val :: "string \<Rightarrow> nat" where
  "digits_val s = fold (\<lambda>c n. 10 * n + digit_val c) s 0"

definition hex_val :: "char \<Rightarrow> nat option" where
  "hex_val c = (let n = of_char c :: nat in
     if 48 \<le> n \<and> n \<le> 57 then Some (n - 48)
     else if 97 \<le> n \<and> n \<le> 102 then Some (n - 87)
     else if 65 \<le> n \<and> n \<le> 70 then Some (n - 55) else None)"

fun hex4 :: "string \<Rightarrow> (nat \<times> string) option" where
  "hex4 (a # b # c # d # s) = (case (hex_val a, hex_val b, hex_val c, hex_val d) of
     (Some w, Some x, Some y, Some z) \<Rightarrow> Some (4096 * w + 256 * x + 16 * y + z, s) | _ \<Rightarrow> None)"
| "hex4 _ = None"

definition utf8 :: "nat \<Rightarrow> string" where
  "utf8 n = (if n < 128 then [char_of n]
     else if n < 2048 then [char_of (192 + n div 64), char_of (128 + n mod 64)]
     else if n < 65536 then
       [char_of (224 + n div 4096), char_of (128 + n div 64 mod 64), char_of (128 + n mod 64)]
     else [char_of (240 + n div 262144), char_of (128 + n div 4096 mod 64),
           char_of (128 + n div 64 mod 64), char_of (128 + n mod 64)])"

text \<open>\<open>\uXXXX\<close>, with the second half of a surrogate pair when it follows.\<close>

definition unicode_escape :: "string \<Rightarrow> (string \<times> string) option" where
  "unicode_escape s = (case hex4 s of
      None \<Rightarrow> None
    | Some (n, r) \<Rightarrow>
        if 55296 \<le> n \<and> n \<le> 56319 \<and> take 2 r = [CHR 0x5C, CHR ''u''] then
          (case hex4 (drop 2 r) of
             Some (m, r') \<Rightarrow>
               if 56320 \<le> m \<and> m \<le> 57343 then Some (utf8 (65536 + (n - 55296) * 1024 + (m - 56320)), r')
               else Some (utf8 n, r)
           | None \<Rightarrow> None)
        else Some (utf8 n, r))"

fun simple_escape :: "char \<Rightarrow> string option" where
  "simple_escape c =
     (if c = CHR 0x22 then Some [CHR 0x22] else if c = CHR 0x5C then Some [CHR 0x5C]
      else if c = CHR ''/'' then Some ''/'' else if c = CHR ''b'' then Some [CHR 0x08]
      else if c = CHR ''f'' then Some [CHR 0x0C] else if c = CHR ''n'' then Some [CHR 0x0A]
      else if c = CHR ''r'' then Some [CHR 0x0D] else if c = CHR ''t'' then Some [CHR 0x09] else None)"

lemma hex4_length: "hex4 s = Some (n, r) \<Longrightarrow> length r < length s"
  by (induction s rule: hex4.induct) (auto split: option.splits)

lemma unicode_escape_length: "unicode_escape s = Some (u, r) \<Longrightarrow> length r < length s"
proof -
  assume "unicode_escape s = Some (u, r)"
  then obtain n r1 where 1: "hex4 s = Some (n, r1)" and
    "r = r1 \<or> (\<exists>m. hex4 (drop 2 r1) = Some (m, r))"
    unfolding unicode_escape_def by (auto split: option.splits if_splits)
  then show ?thesis using hex4_length [OF 1] hex4_length [of "drop 2 r1" _ r] by fastforce
qed

text \<open>The body of a string after its opening quote; raw control characters are refused.\<close>

function scan_str :: "string \<Rightarrow> (string \<times> string) option" where
  "scan_str s = (case s of
      [] \<Rightarrow> None
    | c # r \<Rightarrow>
        if c = CHR 0x22 then Some ([], r)
        else if (of_char c :: nat) < 32 then None
        else if c = CHR 0x5C then
          (case r of
             [] \<Rightarrow> None
           | e # r' \<Rightarrow>
               if e = CHR ''u'' then
                 (case unicode_escape r' of None \<Rightarrow> None
                  | Some (u, r'') \<Rightarrow> map_option (\<lambda>(t, q). (u @ t, q)) (scan_str r''))
               else (case simple_escape e of None \<Rightarrow> None
                  | Some u \<Rightarrow> map_option (\<lambda>(t, q). (u @ t, q)) (scan_str r')))
        else map_option (\<lambda>(t, q). (c # t, q)) (scan_str r))"
  by pat_completeness auto
termination
  by (relation "measure length") (auto dest!: unicode_escape_length)

declare scan_str.simps [simp del]

definition span :: "('a \<Rightarrow> bool) \<Rightarrow> 'a list \<Rightarrow> 'a list \<times> 'a list" where
  "span P s = (takeWhile P s, dropWhile P s)"

text \<open>A decimal with trailing zeros of the digits moved into the exponent.\<close>

function norm_decimal :: "nat \<Rightarrow> int \<Rightarrow> nat \<times> int" where
  "norm_decimal d x = (if d = 0 then (0, 0) else if d mod 10 = 0 then norm_decimal (d div 10) (x + 1) else (d, x))"
  by pat_completeness auto
termination
  by (relation "measure fst") auto

declare norm_decimal.simps [simp del]

definition scan_frac :: "string \<Rightarrow> string \<times> string" where
  "scan_frac s = (case s of
      c # r \<Rightarrow> if c = CHR ''.'' \<and> takeWhile is_digit r \<noteq> [] then span is_digit r else ([], s)
    | [] \<Rightarrow> ([], s))"

definition scan_exp :: "string \<Rightarrow> int option \<times> string" where
  "scan_exp s = (case s of
      c # r \<Rightarrow> if c = CHR ''e'' \<or> c = CHR ''E'' then
          (let neg = (r \<noteq> [] \<and> hd r = CHR ''-'');
               r' = (if r \<noteq> [] \<and> (hd r = CHR ''-'' \<or> hd r = CHR ''+'') then tl r else r);
               (ds, q) = span is_digit r'
           in if ds = [] then (None, s)
              else (Some ((if neg then - 1 else 1) * int (digits_val ds)), q))
        else (None, s)
    | [] \<Rightarrow> (None, s))"

definition scan_digits :: "string \<Rightarrow> string \<times> string" where
  "scan_digits s = (case s of c # q \<Rightarrow> if c = CHR ''0'' then ([c], q) else span is_digit s | [] \<Rightarrow> ([], []))"

definition scan_number :: "string \<Rightarrow> (pyval \<times> string) option" where
  "scan_number s =
     (let neg = (s \<noteq> [] \<and> hd s = CHR ''-''); s1 = (if neg then tl s else s);
          (ds, r) = scan_digits s1
      in if ds = [] then None
         else let (fs, r1) = scan_frac r; (ex, r2) = scan_exp r1 in
           if fs = [] \<and> ex = None
           then Some (PInt ((if neg then - 1 else 1) * int (digits_val ds)), r)
           else let (d, x) = norm_decimal (digits_val (ds @ fs)) ((case ex of None \<Rightarrow> 0 | Some e \<Rightarrow> e) - int (length fs))
             in Some (PFloat (FFin neg d x), r2))"

fun strip_prefix :: "string \<Rightarrow> string \<Rightarrow> string option" where
  "strip_prefix [] s = Some s"
| "strip_prefix (p # ps) (c # s) = (if p = c then strip_prefix ps s else None)"
| "strip_prefix (p # ps) [] = None"

definition JSON_CONSTANTS :: "(string \<times> pyval) list" where
  "JSON_CONSTANTS = [(''null'', PNone), (''true'', PBool True), (''false'', PBool False),
     (''NaN'', PFloat FNaN), (''Infinity'', PFloat (FInf False)), (''-Infinity'', PFloat (FInf True))]"

fun scan_const :: "(string \<times> pyval) list \<Rightarrow> string \<Rightarrow> (pyval \<times> string) option" where
  "scan_const [] s = None"
| "scan_const ((w, v) # cs) s = (case strip_prefix w s of Some r \<Rightarrow> Some (v, r) | None \<Rightarrow> scan_const cs s)"

section \<open>Parsing\<close>

text \<open>The first argument bounds the nesting plus the number of elements passed on the way.\<close>

fun parse_value :: "nat \<Rightarrow> string \<Rightarrow> (pyval \<times> string) option"
  and parse_items :: "nat \<Rightarrow> string \<Rightarrow> (pyval list \<times> string) option"
  and parse_members :: "nat \<Rightarrow> string \<Rightarrow> (pydict \<times> string) option" where
  "parse_value 0 s = None"
| "parse_value (Suc n) s = (case s of
      [] \<Rightarrow> None
    | c # r \<Rightarrow>
        if c = CHR 0x22 then map_option (\<lambda>(t, q). (PStr t, q)) (scan_str r)
        else if c = CHR ''['' then
          (case skip_ws r of
             [] \<Rightarrow> None
           | d # q \<Rightarrow> if d = CHR '']'' then Some (PList [], q)
               else map_option (\<lambda>(xs, q). (PList xs, q)) (parse_items n (d # q)))
        else if c = CHR ''{'' then
          (case skip_ws r of
             [] \<Rightarrow> None
           | d # q \<Rightarrow> if d = CHR ''}'' then Some (PDict [], q)
               else map_option (\<lambda>(kvs, q). (PDict (fold (\<lambda>(k, v) acc. AList.update k v acc) kvs []), q))
                 (parse_members n (d # q)))
        else (case scan_const JSON_CONSTANTS s of Some p \<Rightarrow> Some p | None \<Rightarrow> scan_number s))"
| "parse_items 0 s = None"
| "parse_items (Suc n) s = (case parse_value n s of
      None \<Rightarrow> None
    | Some (v, r) \<Rightarrow> (case skip_ws r of
        [] \<Rightarrow> None
      | d # q \<Rightarrow> if d = CHR '']'' then Some ([v], q)
          else if d = CHR '','' then map_option (\<lambda>(vs, q). (v # vs, q)) (parse_items n (skip_ws q))
          else None))"
| "parse_members 0 s = None"
| "parse_members (Suc n) s = (case s of
      [] \<Rightarrow> None
    | c # r \<Rightarrow> if c \<noteq> CHR 0x22 then None else
        (case scan_str r of
           None \<Rightarrow> None
         | Some (k, r1) \<Rightarrow> (case skip_ws r1 of
             [] \<Rightarrow> None
           | d # r2 \<Rightarrow> if d \<noteq> CHR '':'' then None else
               (case parse_value n (skip_ws r2) of
                  None \<Rightarrow> None
                | Some (v, r3) \<Rightarrow> (case skip_ws r3 of
                    [] \<Rightarrow> None
                  | e # q \<Rightarrow> if e = CHR ''}'' then Some ([(k, v)], q)
                      else if e = CHR '','' then
                        map_option (\<lambda>(kvs, q). ((k, v) # kvs, q)) (parse_members n (skip_ws q))
                      else None)))))"

definition json_loads :: "string \<Rightarrow> exc + pyval" where
  "json_loads s = (case parse_value (Suc (length s)) (skip_ws s) of
      Some (v, r) \<Rightarrow> if skip_ws r = [] then Inr v else Inl ValueError
    | None \<Rightarrow> Inl ValueError)"

section \<open>Layout\<close>

text \<open>
  \<open>enc\<close> writes a string literal. \<open>nl l\<close> is what the encoder puts after an opening bracket or a comma at nesting \<open>l\<close>, and
  before the closing bracket; \<open>sep\<close> is the key separator. Empty containers are \<open>[]\<close> and \<open>{}\<close>.
\<close>

fun render :: "(string \<Rightarrow> string) \<Rightarrow> (nat \<Rightarrow> string) \<Rightarrow> string \<Rightarrow> nat \<Rightarrow> jtree \<Rightarrow> string" where
  "render enc nl sep l (JArr ts) = (if ts = [] then ''[]''
     else CHR ''['' # nl (Suc l) @ join ('','' @ nl (Suc l)) (map (render enc nl sep (Suc l)) ts) @ nl l @ '']'')"
| "render enc nl sep l (JObj kvs) = (if kvs = [] then ''{}''
     else CHR ''{'' # nl (Suc l) @
       join ('','' @ nl (Suc l)) (map (\<lambda>(k, t). enc k @ sep @ render enc nl sep (Suc l) t) kvs) @ nl l @ ''}'')"
| "render enc nl sep l (JStr s) = enc s"
| "render enc nl sep l t = json_text t"

text \<open>The tree printed without sorting keys; non-finite floats are printed as names.\<close>

fun plain :: "pyval \<Rightarrow> jtree" where
  "plain PNone = JNull"
| "plain (PBool b) = JBool b"
| "plain (PInt i) = JNum (int_repr i)"
| "plain (PFloat f) = JNum (case f of FNaN \<Rightarrow> ''NaN'' | FInf s \<Rightarrow> if s then ''-Infinity'' else ''Infinity''
     | FFin _ _ _ \<Rightarrow> float_repr f)"
| "plain (PStr s) = JStr s"
| "plain (PList xs) = JArr (map plain xs)"
| "plain (PTuple xs) = JArr (map plain xs)"
| "plain (PDict kvs) = JObj (map (\<lambda>(k, v). (k, plain v)) kvs)"

definition json_dumps_indent2 :: "pyval \<Rightarrow> string" where
  "json_dumps_indent2 v = render json_str (\<lambda>l. CHR 0x0A # replicate (2 * l) (CHR 0x20)) '': '' 0 (plain v)"

section \<open>Round trip: scalars\<close>

lemma hex_val_hex_char: "n < 16 \<Longrightarrow> hex_val (hex_char n) = Some n"
proof -
  assume "n < 16"
  then have n: "n \<in> set [0..<16]" by simp
  have "list_all (\<lambda>n. hex_val (hex_char n) = Some n) [0..<16]" by code_simp
  from bspec [OF this [unfolded list_all_iff] n] show ?thesis .
qed

lemma unicode_escape_control:
  assumes "(of_char c :: nat) < 32"
  shows "unicode_escape (CHR ''0'' # CHR ''0'' # hex_char (of_char c div 16) # hex_char (of_char c mod 16) # r) = Some ([c], r)"
proof -
  have z: "hex_val (CHR ''0'') = Some 0" by code_simp
  have n: "16 * (of_char c div 16) + of_char c mod 16 = (of_char c :: nat)" by simp
  have h: "hex4 (CHR ''0'' # CHR ''0'' # hex_char (of_char c div 16) # hex_char (of_char c mod 16) # r) = Some (of_char c, r)"
    using assms n by (simp add: z hex_val_hex_char)
  show ?thesis unfolding unicode_escape_def h using assms by (simp add: utf8_def)
qed

lemma scan_str_esc: "scan_str (esc_char c @ r) = map_option (\<lambda>(t, q). (c # t, q)) (scan_str r)"
proof -
  consider (q) "c = CHR 0x22" | (b) "c = CHR 0x5C" | (n) "c = CHR 0x0A" | (r) "c = CHR 0x0D" | (t) "c = CHR 0x09"
    | (f) "c = CHR 0x0C" | (bs) "c = CHR 0x08"
    | (ctl) "c \<notin> {CHR 0x22, CHR 0x5C, CHR 0x0A, CHR 0x0D, CHR 0x09, CHR 0x0C, CHR 0x08}" "(of_char c :: nat) < 32"
    | (raw) "c \<notin> {CHR 0x22, CHR 0x5C, CHR 0x0A, CHR 0x0D, CHR 0x09, CHR 0x0C, CHR 0x08}" "\<not> (of_char c :: nat) < 32"
    by blast
  then show ?thesis
  proof cases
    case ctl
    then have e: "esc_char c @ r = CHR 0x5C # CHR ''u'' # CHR ''0'' # CHR ''0'' #
        hex_char (of_char c div 16) # hex_char (of_char c mod 16) # r" by (simp add: esc_char_def)
    show ?thesis unfolding e
      by (subst scan_str.simps) (simp add: unicode_escape_control [OF ctl(2)])
  next
    case raw
    then have e: "esc_char c @ r = c # r" by (simp add: esc_char_def)
    show ?thesis unfolding e using raw by (subst scan_str.simps) simp
  qed (subst scan_str.simps, simp add: esc_char_def)+
qed

lemma scan_str_json: "scan_str (concat (map esc_char s) @ CHR 0x22 # r) = Some (s, r)"
proof (induction s)
  case Nil
  show ?case by (subst scan_str.simps) simp
next
  case (Cons c s)
  then show ?case by (simp add: scan_str_esc)
qed

lemma digit_char_digit: "n < 10 \<Longrightarrow> is_digit (digit_char n) \<and> digit_val (digit_char n) = n"
proof -
  assume "n < 10"
  then have n: "n \<in> set [0..<10]" by simp
  have "list_all (\<lambda>n. is_digit (digit_char n) \<and> digit_val (digit_char n) = n) [0..<10]" by code_simp
  from bspec [OF this [unfolded list_all_iff] n] show ?thesis .
qed

lemma nat_repr_digits: "list_all is_digit (nat_repr n) \<and> digits_val (nat_repr n) = n"
proof (induction n rule: nat_repr.induct)
  case (1 n)
  then show ?case
    by (subst (1 2) nat_repr.simps) (auto simp: digit_char_digit digits_val_def)
qed

lemma nat_repr_lead: "n \<noteq> 0 \<Longrightarrow> hd (nat_repr n) \<noteq> CHR ''0''"
proof (induction n rule: nat_repr.induct)
  case (1 n)
  show ?case
  proof (cases "n < 10")
    case True
    then have "digit_val (digit_char n) \<noteq> 0" using digit_char_digit [OF True] 1(2) by simp
    then have "digit_char n \<noteq> CHR ''0''" by (auto simp: digit_val_def)
    with True show ?thesis by (subst nat_repr.simps) simp
  next
    case False
    then show ?thesis using 1 by (subst nat_repr.simps) simp
  qed
qed

definition num_stop :: "string \<Rightarrow> bool" where
  "num_stop r \<longleftrightarrow> r = [] \<or> hd r \<notin> set ''0123456789.eE''"

lemma num_stop_digit: "num_stop r \<Longrightarrow> takeWhile is_digit r = [] \<and> dropWhile is_digit r = r"
  by (cases r) (auto simp: num_stop_def is_digit_def)

lemma scan_tail_none: "num_stop r \<Longrightarrow> scan_frac r = ([], r) \<and> scan_exp r = (None, r)"
  by (cases r) (auto simp: num_stop_def scan_frac_def scan_exp_def)

lemma is_digit_not: "is_digit c \<Longrightarrow> c \<noteq> CHR ''-'' \<and> c \<noteq> CHR 0x22 \<and> c \<noteq> CHR ''['' \<and> c \<noteq> CHR ''{''
    \<and> c \<noteq> CHR ''n'' \<and> c \<noteq> CHR ''t'' \<and> c \<noteq> CHR ''f'' \<and> c \<noteq> CHR ''N'' \<and> c \<noteq> CHR ''I''
    \<and> c \<noteq> CHR '']'' \<and> c \<noteq> CHR ''}'' \<and> \<not> ws_char c"
  by (auto simp: is_digit_def ws_char_def)

lemma scan_nat:
  assumes "num_stop r"
  shows "scan_digits (nat_repr n @ r) = (nat_repr n, r)"
proof (cases "n = 0")
  case True
  then have "nat_repr n = ''0''" by (subst nat_repr.simps) (simp add: digit_char_def)
  then show ?thesis by (simp add: scan_digits_def)
next
  case False
  obtain c cs where c: "nat_repr n = c # cs" using nat_repr_nonempty by (meson neq_Nil_conv)
  have d: "c \<noteq> CHR ''0''" using nat_repr_lead [OF False] c by simp
  have all: "\<forall>x \<in> set (nat_repr n). is_digit x" using nat_repr_digits by (simp add: list_all_iff)
  have "span is_digit (nat_repr n @ r) = (nat_repr n, r)"
    using all num_stop_digit [OF assms] by (simp add: span_def takeWhile_append2 dropWhile_append2)
  with c d show ?thesis by (simp add: scan_digits_def)
qed

lemma scan_number_int:
  assumes "num_stop r"
  shows "scan_number (int_repr i @ r) = Some (PInt i, r)"
proof (cases "i < 0")
  case True
  then show ?thesis
    using scan_nat [OF assms, of "nat (- i)"] scan_tail_none [OF assms] nat_repr_digits [of "nat (- i)"]
    by (simp add: scan_number_def int_repr_def)
next
  case False
  obtain c cs where c: "nat_repr (nat i) = c # cs" using nat_repr_nonempty by (meson neq_Nil_conv)
  then have "hd (nat_repr (nat i) @ r) \<noteq> CHR ''-''" using nat_repr_digits [of "nat i"] is_digit_not [of c] by simp
  with False show ?thesis
    using scan_nat [OF assms, of "nat i"] scan_tail_none [OF assms] nat_repr_digits [of "nat i"]
    by (simp add: scan_number_def int_repr_def)
qed

lemma int_repr_lead: "\<exists>c cs. int_repr i = c # cs \<and> (is_digit c \<or> c = CHR ''-'' \<and> (\<exists>d ds. cs = d # ds \<and> is_digit d))"
proof -
  obtain c cs where c: "nat_repr (nat \<bar>i\<bar>) = c # cs" using nat_repr_nonempty by (meson neq_Nil_conv)
  then have "is_digit c" using nat_repr_digits [of "nat \<bar>i\<bar>"] by simp
  with c show ?thesis by (auto simp: int_repr_def)
qed

lemma scan_const_int: "scan_const JSON_CONSTANTS (int_repr i @ r) = None"
proof -
  obtain c cs where c: "int_repr i = c # cs" and cd: "is_digit c \<or> c = CHR ''-'' \<and> (\<exists>d ds. cs = d # ds \<and> is_digit d)"
    using int_repr_lead [of i] by (elim exE conjE)
  from cd show ?thesis
  proof
    assume "is_digit c"
    then have "CHR ''n'' \<noteq> c" "CHR ''t'' \<noteq> c" "CHR ''f'' \<noteq> c" "CHR ''N'' \<noteq> c" "CHR ''I'' \<noteq> c" "CHR ''-'' \<noteq> c"
      by (auto simp: is_digit_def)
    then show ?thesis unfolding c JSON_CONSTANTS_def by simp
  next
    assume "c = CHR ''-'' \<and> (\<exists>d ds. cs = d # ds \<and> is_digit d)"
    then obtain d ds where d: "c = CHR ''-''" "cs = d # ds" "is_digit d" by blast
    then have "CHR ''I'' \<noteq> d" by (auto simp: is_digit_def)
    with d(1,2) show ?thesis unfolding c JSON_CONSTANTS_def by simp
  qed
qed

section \<open>Round trip: values\<close>

text \<open>A value as parsing delivers it: no tuples, no floats, no repeated keys.\<close>

definition json_node :: "pyval \<Rightarrow> bool" where
  "json_node v = (case v of PTuple _ \<Rightarrow> False | PFloat _ \<Rightarrow> False | PDict kvs \<Rightarrow> distinct (map fst kvs) | _ \<Rightarrow> True)"

definition json_value :: "pyval \<Rightarrow> bool" where
  "json_value v = all_sub json_node v"

lemma json_value_simps [simp]:
  "json_value PNone" "json_value (PBool b)" "json_value (PInt i)" "json_value (PStr s)"
  "\<not> json_value (PFloat f)" "\<not> json_value (PTuple xs)"
  "json_value (PList xs) \<longleftrightarrow> list_all json_value xs"
  "json_value (PDict kvs) \<longleftrightarrow> distinct (map fst kvs) \<and> list_all (\<lambda>(k, v). json_value v) kvs"
  by (simp_all add: json_value_def [abs_def] json_node_def)

text \<open>Every string in a value, keys included, satisfies a predicate.\<close>

fun texts :: "(string \<Rightarrow> bool) \<Rightarrow> pyval \<Rightarrow> bool" where
  "texts P (PStr s) = P s"
| "texts P (PList xs) = list_all (texts P) xs"
| "texts P (PTuple xs) = list_all (texts P) xs"
| "texts P (PDict kvs) = list_all (\<lambda>(k, v). P k \<and> texts P v) kvs"
| "texts P v = True"

lemma texts_mono: "texts P v \<Longrightarrow> (\<And>s. P s \<Longrightarrow> Q s) \<Longrightarrow> texts Q v"
  by (induction v) (auto simp: list_all_iff snds.simps)

lemma texts_True [simp]: "texts (\<lambda>_. True) v"
  by (induction v) (auto simp: list_all_iff snds.simps)

definition all_ws :: "string \<Rightarrow> bool" where
  "all_ws s \<longleftrightarrow> list_all ws_char s"

lemma skip_ws_append: "all_ws w \<Longrightarrow> skip_ws (w @ s) = skip_ws s"
  by (induction w) (auto simp: all_ws_def)

lemma skip_ws_id: "\<not> ws_char c \<Longrightarrow> skip_ws (c # s) = c # s"
  by simp

text \<open>A layout inserts white space only, and its string literals scan back.\<close>

locale layout =
  fixes body :: "string \<Rightarrow> string" and good :: "string \<Rightarrow> bool" and nl :: "nat \<Rightarrow> string" and pad :: string
  assumes scan_body: "good k \<Longrightarrow> scan_str (body k @ s) = Some (k, s)"
    and nl_ws: "all_ws (nl l)" and pad_ws: "all_ws pad"
begin

abbreviation quoted :: "string \<Rightarrow> string" where
  "quoted k \<equiv> CHR 0x22 # body k"

abbreviation text_of :: "nat \<Rightarrow> pyval \<Rightarrow> string" where
  "text_of l v \<equiv> render quoted nl (CHR '':'' # pad) l (plain v)"

definition parses :: "nat \<Rightarrow> nat \<Rightarrow> pyval \<Rightarrow> bool" where
  "parses n l v \<longleftrightarrow> (\<forall>r. num_stop r \<longrightarrow> parse_value n (text_of l v @ r) = Some (v, r))"

lemma text_lead:
  "json_value v \<Longrightarrow> \<exists>c r. text_of l v = c # r \<and> \<not> ws_char c \<and> c \<noteq> CHR '']'' \<and> c \<noteq> CHR ''}''"
proof (cases v)
  case (PInt i)
  then show ?thesis using int_repr_lead [of i] is_digit_not by (fastforce simp: ws_char_def)
qed (auto simp: ws_char_def)

lemma skip_text: "json_value v \<Longrightarrow> skip_ws (text_of l v @ r) = text_of l v @ r"
  using text_lead [of v l] by auto

definition items_text :: "nat \<Rightarrow> pyval list \<Rightarrow> string" where
  "items_text l vs = join ('','' @ nl (Suc l)) (map (text_of (Suc l)) vs) @ nl l @ '']''"

definition members_text :: "nat \<Rightarrow> pydict \<Rightarrow> string" where
  "members_text l kvs =
     join ('','' @ nl (Suc l)) (map (\<lambda>(k, v). quoted k @ (CHR '':'' # pad) @ text_of (Suc l) v) kvs) @ nl l @ ''}''"

lemma items_text_simps:
  "items_text l [v] = text_of (Suc l) v @ nl l @ '']''"
  "items_text l (v # w # vs) = text_of (Suc l) v @ '','' @ nl (Suc l) @ items_text l (w # vs)"
  by (simp_all add: items_text_def)

lemma members_text_simps:
  "members_text l [(k, v)] = quoted k @ CHR '':'' # pad @ text_of (Suc l) v @ nl l @ ''}''"
  "members_text l ((k, v) # p # kvs) =
     quoted k @ CHR '':'' # pad @ text_of (Suc l) v @ '','' @ nl (Suc l) @ members_text l (p # kvs)"
  by (simp_all add: members_text_def)

lemma num_stop_ws: "all_ws w \<Longrightarrow> num_stop s \<Longrightarrow> num_stop (w @ s)"
  by (cases w) (auto simp: num_stop_def all_ws_def ws_char_def)

lemma after_ws [simp]:
  "skip_ws (nl l @ s) = skip_ws s" "skip_ws (pad @ s) = skip_ws s"
  "num_stop s \<Longrightarrow> num_stop (nl l @ s)"
  by (simp_all add: skip_ws_append nl_ws pad_ws num_stop_ws)

lemma num_stop_punct [simp]:
  "num_stop (CHR '']'' # r)" "num_stop (CHR ''}'' # r)" "num_stop (CHR '','' # r)"
  by (simp_all add: num_stop_def)

lemma parse_items_text:
  assumes "vs \<noteq> []" "list_all json_value vs" "length (items_text l vs) < n"
    and "\<And>v m. v \<in> set vs \<Longrightarrow> length (text_of (Suc l) v) < m \<Longrightarrow> parses m (Suc l) v"
  shows "parse_items n (items_text l vs @ r) = Some (vs, r)"
  using assms
proof (induction vs arbitrary: n)
  case (Cons v vs)
  from Cons.prems(3) obtain m where n: "n = Suc m" by (cases n) auto
  show ?case
  proof (cases vs)
    case Nil
    then have "parses m (Suc l) v" using Cons.prems n by (intro Cons.prems(4)) (auto simp: items_text_simps)
    with Nil show ?thesis by (simp add: n parses_def items_text_simps ws_char_def)
  next
    case (Cons w ws)
    then have "parses m (Suc l) v" using Cons.prems n by (intro Cons.prems(4)) (auto simp: items_text_simps)
    moreover have "parse_items m (items_text l vs @ r) = Some (vs, r)"
      using Cons Cons.prems n by (intro Cons.IH) (auto simp: items_text_simps)
    moreover have "skip_ws (items_text l vs @ r) = items_text l vs @ r"
      using Cons Cons.prems(2) skip_text [of w "Suc l"] by (cases ws) (auto simp: items_text_simps)
    ultimately show ?thesis using Cons by (simp add: n parses_def items_text_simps ws_char_def)
  qed
qed simp

lemma parse_members_text:
  assumes "kvs \<noteq> []" "list_all (\<lambda>(k, v). json_value v \<and> good k) kvs" "length (members_text l kvs) < n"
    and "\<And>k v m. (k, v) \<in> set kvs \<Longrightarrow> length (text_of (Suc l) v) < m \<Longrightarrow> parses m (Suc l) v"
  shows "parse_members n (members_text l kvs @ r) = Some (kvs, r)"
  using assms
proof (induction kvs arbitrary: n)
  case (Cons p kvs)
  obtain k v where p: "p = (k, v)" by fastforce
  from Cons.prems(3) obtain m where n: "n = Suc m" by (cases n) auto
  have v: "parses m (Suc l) v"
    using Cons.prems(3) n p by (intro Cons.prems(4) [of k]) (cases kvs; auto simp: members_text_simps)+
  have skip: "skip_ws (text_of (Suc l) v @ s) = text_of (Suc l) v @ s" for s
    using Cons.prems(2) p skip_text by simp
  have key: "scan_str (body k @ s) = Some (k, s)" for s using Cons.prems(2) p by (simp add: scan_body)
  show ?case
  proof (cases kvs)
    case Nil
    with v skip show ?thesis by (simp add: n p parses_def members_text_simps ws_char_def key)
  next
    case (Cons q qs)
    have "parse_members m (members_text l kvs @ r) = Some (kvs, r)"
      using Cons Cons.prems n p by (intro Cons.IH) (auto simp: members_text_simps)
    moreover have "skip_ws (members_text l kvs @ r) = members_text l kvs @ r"
      using Cons by (cases q; cases qs) (auto simp: members_text_simps ws_char_def)
    ultimately show ?thesis
      using Cons v skip by (simp add: n p parses_def members_text_simps ws_char_def key)
  qed
qed simp

lemma text_of_list: "vs \<noteq> [] \<Longrightarrow> text_of l (PList vs) = CHR ''['' # nl (Suc l) @ items_text l vs"
  by (simp add: items_text_def comp_def)

lemma text_of_dict: "kvs \<noteq> [] \<Longrightarrow> text_of l (PDict kvs) = CHR ''{'' # nl (Suc l) @ members_text l kvs"
  by (simp add: members_text_def comp_def case_prod_unfold)

lemma fold_update_distinct:
  "distinct (map fst (acc @ kvs)) \<Longrightarrow> fold (\<lambda>(k, v) acc. AList.update k v acc) kvs acc = acc @ kvs"
proof (induction kvs arbitrary: acc)
  case (Cons p kvs)
  then have "AList.update (fst p) (snd p) acc = acc @ [p]"
    by (induction acc) auto
  with Cons show ?case by (simp add: case_prod_beta)
qed simp

theorem parse_text:
  "json_value v \<Longrightarrow> texts good v \<Longrightarrow> length (text_of l v) < n \<Longrightarrow> parses n l v"
proof (induction v arbitrary: l n)
  case (PInt i)
  then obtain m where n: "n = Suc m" by (cases n) auto
  obtain c cs where c: "int_repr i = c # cs" "c \<noteq> CHR 0x22" "c \<noteq> CHR ''[''" "c \<noteq> CHR ''{''"
    using int_repr_lead [of i] by (elim exE conjE disjE) (auto dest: is_digit_not)
  show ?case unfolding parses_def
  proof (intro allI impI)
    fix r assume "num_stop r"
    from scan_number_int [OF this, of i] scan_const_int [of i r] c
    show "parse_value n (text_of l (PInt i) @ r) = Some (PInt i, r)" by (simp add: n)
  qed
next
  case (PStr s)
  then obtain m where n: "n = Suc m" by (cases n) auto
  show ?case using PStr by (simp add: parses_def n scan_body)
next
  case (PList vs)
  then obtain m where n: "n = Suc m" by (cases n) auto
  show ?case
  proof (cases "vs = []")
    case True
    then show ?thesis by (simp add: parses_def n ws_char_def)
  next
    case False
    obtain v ws where v: "vs = v # ws" using False by (cases vs) auto
    have items: "parse_items m (items_text l vs @ r) = Some (vs, r)" for r
    proof (rule parse_items_text [OF False])
      show "length (items_text l vs) < m" using PList.prems(3) n unfolding text_of_list [OF False] by simp
    qed (use PList in \<open>auto simp: list_all_iff\<close>)
    have skip: "skip_ws (items_text l vs @ r) = items_text l vs @ r" for r
      using v PList.prems(1) skip_text [of v "Suc l"] by (cases ws) (auto simp: items_text_simps)
    obtain c cs where c: "items_text l vs = c # cs" "c \<noteq> CHR '']''"
      using v PList.prems(1) text_lead [of v "Suc l"] by (cases ws) (auto simp: items_text_simps)
    show ?thesis unfolding parses_def text_of_list [OF False]
      using skip items c by (simp add: n)
  qed
next
  case (PDict kvs)
  then obtain m where n: "n = Suc m" by (cases n) auto
  show ?case
  proof (cases "kvs = []")
    case True
    then show ?thesis by (simp add: parses_def n ws_char_def)
  next
    case False
    have "parse_members m (members_text l kvs @ r) = Some (kvs, r)" for r
    proof (rule parse_members_text [OF False])
      show "length (members_text l kvs) < m" using PDict.prems(3) n unfolding text_of_dict [OF False] by simp
      show "list_all (\<lambda>(k, v). json_value v \<and> good k) kvs" using PDict.prems by (auto simp: list_all_iff)
      fix k v i assume kv: "(k, v) \<in> set kvs" and "length (text_of (Suc l) v) < i"
      then show "parses i (Suc l) v"
        using PDict.IH [OF kv, of v] PDict.prems(1,2) by (fastforce simp: snds.simps list_all_iff)
    qed
    moreover obtain cs where c: "members_text l kvs = CHR 0x22 # cs"
      using False by (cases kvs rule: list.exhaust) (auto simp: members_text_def)
    moreover have "fold (\<lambda>(k, v) acc. AList.update k v acc) kvs [] = kvs"
      using fold_update_distinct [of "[]" kvs] PDict.prems by simp
    ultimately show ?thesis unfolding parses_def text_of_dict [OF False] by (simp add: n ws_char_def)
  qed
next
  case PNone
  then obtain m where n: "n = Suc m" by (cases n) auto
  then show ?case by (simp add: parses_def JSON_CONSTANTS_def)
next
  case (PBool b)
  then obtain m where n: "n = Suc m" by (cases n) auto
  then show ?case by (simp add: parses_def JSON_CONSTANTS_def)
qed simp_all

theorem loads_text:
  assumes "json_value v" "texts good v" "all_ws w"
  shows "json_loads (text_of l v @ w) = Inr v"
proof -
  have "num_stop w" using num_stop_ws [OF assms(3), of "[]"] by (simp add: num_stop_def)
  moreover have "skip_ws w = []" using skip_ws_append [OF assms(3), of "[]"] by simp
  ultimately show ?thesis
    using parse_text [OF assms(1,2), of l "Suc (length (text_of l v @ w))"]
    by (simp add: json_loads_def skip_text [OF assms(1)] parses_def del: parse_value.simps)
qed

end

definition escaped :: "string \<Rightarrow> string" where
  "escaped s = concat (map esc_char s) @ [CHR 0x22]"

lemma json_str_escaped: "json_str = (\<lambda>s. CHR 0x22 # escaped s)"
  by (simp add: fun_eq_iff json_str_def escaped_def)

interpretation compact: layout escaped "\<lambda>_. True" "\<lambda>_. []" "[]"
  by unfold_locales (simp_all add: all_ws_def escaped_def scan_str_json)

interpretation indented: layout escaped "\<lambda>_. True" "\<lambda>l. CHR 0x0A # replicate (2 * l) (CHR 0x20)" "[CHR 0x20]"
  by unfold_locales (auto simp: all_ws_def ws_char_def list_all_iff escaped_def scan_str_json)

end
