(* ===== verification/TextLines.thy ===== *)
theory TextLines
  imports JsonText
begin

text \<open>
  Lines of text and JSON values on lines. \<open>str.splitlines\<close> and the emptiness of
  \<open>line.strip()\<close> are modelled on UTF-8 bytes. The main facts: text that ends in a line feed
  can be extended without changing its earlier lines, and the canonical text of a value is one
  line that parses back to the value with its keys sorted, provided no string in it contains
  one of the Unicode line separators U+0085, U+2028, U+2029, which the encoder does not escape.
\<close>

section \<open>Lines\<close>

text \<open>\<open>str.splitlines()\<close>: the line boundaries are LF, CR, CR LF, VT, FF, FS, GS, RS, U+0085, U+2028, U+2029.\<close>

definition line_break :: "string \<Rightarrow> nat" where
  "line_break s =
     (if take 2 s = [CHR 0x0D, CHR 0x0A] then 2
      else if s \<noteq> [] \<and> hd s \<in> {CHR 0x0A, CHR 0x0B, CHR 0x0C, CHR 0x0D, CHR 0x1C, CHR 0x1D, CHR 0x1E} then 1
      else if take 2 s = [CHR 0xC2, CHR 0x85] then 2
      else if take 3 s \<in> {[CHR 0xE2, CHR 0x80, CHR 0xA8], [CHR 0xE2, CHR 0x80, CHR 0xA9]} then 3
      else 0)"

function split_lines :: "string \<Rightarrow> string \<Rightarrow> string list" where
  "split_lines line s =
     (if s = [] then (if line = [] then [] else [rev line])
      else if line_break s = 0 then split_lines (hd s # line) (tl s)
      else rev line # split_lines [] (drop (line_break s) s))"
  by pat_completeness auto
termination
  by (relation "measure (\<lambda>(l, s). length s)") auto

declare split_lines.simps [simp del]

definition splitlines :: "string \<Rightarrow> string list" where
  "splitlines s = split_lines [] s"

text \<open>Whether a line consists of white space only, so that \<open>line.strip()\<close> is empty.\<close>

definition space_prefix :: "string \<Rightarrow> nat" where
  "space_prefix s =
     (if s \<noteq> [] \<and> hd s \<in> {CHR 0x09, CHR 0x0A, CHR 0x0B, CHR 0x0C, CHR 0x0D, CHR 0x1C, CHR 0x1D, CHR 0x1E, CHR 0x1F, CHR 0x20}
      then 1
      else if take 2 s \<in> {[CHR 0xC2, CHR 0x85], [CHR 0xC2, CHR 0xA0]} then 2
      else if take 3 s \<in> {[CHR 0xE1, CHR 0x9A, CHR 0x80], [CHR 0xE2, CHR 0x80, CHR 0xA8], [CHR 0xE2, CHR 0x80, CHR 0xA9],
          [CHR 0xE2, CHR 0x80, CHR 0xAF], [CHR 0xE2, CHR 0x81, CHR 0x9F], [CHR 0xE3, CHR 0x80, CHR 0x80]} then 3
      else if length s \<ge> 3 \<and> take 2 s = [CHR 0xE2, CHR 0x80]
        \<and> 128 \<le> (of_char (s ! 2) :: nat) \<and> (of_char (s ! 2) :: nat) \<le> 138 then 3
      else 0)"

function blank_line :: "string \<Rightarrow> bool" where
  "blank_line s = (if s = [] then True else if space_prefix s = 0 then False
     else blank_line (drop (space_prefix s) s))"
  by pat_completeness auto
termination
  by (relation "measure length") auto

declare blank_line.simps [simp del]

section \<open>Canonical text parses back\<close>

fun sort_val :: "pyval \<Rightarrow> pyval" where
  "sort_val (PDict kvs) = PDict (sort_key fst (map (\<lambda>(k, v). (k, sort_val v)) kvs))"
| "sort_val (PList xs) = PList (map sort_val xs)"
| "sort_val (PTuple xs) = PList (map sort_val xs)"
| "sort_val v = v"

lemma map_snd_comp: "map (\<lambda>(k, v). (k, f v)) (map (\<lambda>(k, v). (k, g v)) kvs) = map (\<lambda>(k, v). (k, f (g v))) kvs"
  by (simp add: case_prod_unfold)

lemma canon_plain: "all_sub finite_float v \<Longrightarrow> canon v = plain (sort_val v)"
proof (induction v rule: sort_val.induct)
  case (1 kvs)
  have "map (\<lambda>(k, v). (k, canon v)) kvs = map (\<lambda>(k, v). (k, plain (sort_val v))) kvs"
    using 1 by (intro map_cong) (auto simp: list_all_iff)
  then show ?case by (simp only: sort_val.simps plain.simps canon.simps sort_key_map_snd map_snd_comp)
qed (auto simp: list_all_iff finite_float_def split: pyfloat.splits)

text \<open>A value that survives being stored: no floats and no repeated keys.\<close>

definition storable :: "pyval \<Rightarrow> bool" where
  "storable v = all_sub (\<lambda>w. (case w of PFloat _ \<Rightarrow> False | PDict kvs \<Rightarrow> distinct (map fst kvs) | _ \<Rightarrow> True)) v"

lemma storable_simps [simp]:
  "storable PNone" "storable (PBool b)" "storable (PInt i)" "storable (PStr s)" "\<not> storable (PFloat f)"
  "storable (PList xs) \<longleftrightarrow> list_all storable xs" "storable (PTuple xs) \<longleftrightarrow> list_all storable xs"
  "storable (PDict kvs) \<longleftrightarrow> distinct (map fst kvs) \<and> list_all (\<lambda>(k, v). storable v) kvs"
  by (simp_all add: storable_def [abs_def])

lemma storable_finite: "storable v \<Longrightarrow> all_sub finite_float v"
  unfolding storable_def by (erule all_sub_mono) (auto simp: finite_float_def split: pyval.splits)

lemma storable_sorted: "storable v \<Longrightarrow> json_value (sort_val v)"
proof (induction v rule: sort_val.induct)
  case (1 kvs)
  have "distinct (map fst (sort_key fst ys)) = distinct (map fst ys)" for ys :: pydict
    by (simp add: distinct_map)
  moreover have "map fst (map (\<lambda>(k, v). (k, sort_val v)) kvs) = map fst kvs"
    by (simp add: case_prod_unfold)
  ultimately have "distinct (map fst (sort_key fst (map (\<lambda>(k, v). (k, sort_val v)) kvs)))"
    using 1(2) by (simp only: storable_simps)
  with 1 show ?case by (auto simp: list_all_iff)
qed (auto simp: list_all_iff)

lemma render_compact: "render json_str (\<lambda>_. []) '':'' l t = json_text t"
proof (induction t arbitrary: l)
  case (JArr ts)
  then have "map (render json_str (\<lambda>_. []) '':'' (Suc l)) ts = map json_text ts" by (intro map_cong) simp_all
  then show ?case by (simp del: map_eq_conv)
next
  case (JObj kvs)
  then have "map (\<lambda>(k, t). json_str k @ '':'' @ render json_str (\<lambda>_. []) '':'' (Suc l) t) kvs
      = map (\<lambda>(k, t). json_str k @ '':'' @ json_text t) kvs"
    by (intro map_cong) (auto simp: snds.simps)
  then show ?case by (simp del: map_eq_conv)
qed simp_all

theorem loads_canonical:
  assumes "storable v" "all_ws w"
  shows "json_loads (json_text (canon v) @ w) = Inr (sort_val v)"
  using compact.loads_text [OF storable_sorted [OF assms(1)] texts_True assms(2), of 0]
  by (simp add: json_str_escaped [symmetric] render_compact canon_plain [OF storable_finite [OF assms(1)]])

section \<open>Canonical text is one line\<close>

definition LF :: char where "LF = CHR 0x0A"

definition control_break :: "char \<Rightarrow> bool" where
  "control_break c \<longleftrightarrow> c \<in> {CHR 0x0A, CHR 0x0B, CHR 0x0C, CHR 0x0D, CHR 0x1C, CHR 0x1D, CHR 0x1E}"

text \<open>The separators the encoder leaves unescaped, at the head of a text.\<close>

fun separator :: "string \<Rightarrow> bool" where
  "separator (a # b # c # s) \<longleftrightarrow> a = CHR 0xC2 \<and> b = CHR 0x85
     \<or> a = CHR 0xE2 \<and> b = CHR 0x80 \<and> (c = CHR 0xA8 \<or> c = CHR 0xA9)"
| "separator [a, b] \<longleftrightarrow> a = CHR 0xC2 \<and> b = CHR 0x85"
| "separator [a] \<longleftrightarrow> False"
| "separator [] \<longleftrightarrow> False"

fun sep_free :: "string \<Rightarrow> bool" where
  "sep_free [] = True"
| "sep_free (c # s) = (\<not> separator (c # s) \<and> sep_free s)"

definition ascii :: "char \<Rightarrow> bool" where
  "ascii c \<longleftrightarrow> (of_char c :: nat) < 128"

lemma line_break_0: "line_break (c # s) = 0 \<longleftrightarrow> \<not> control_break c \<and> \<not> separator (c # s)"
  by (cases "c # s" rule: separator.cases) (auto simp: line_break_def control_break_def)

lemma separator_ext:
  assumes "ascii a"
  shows "separator (s @ a # r) \<longleftrightarrow> separator s"
proof -
  from assms have ne: "a \<noteq> CHR 0x85" "a \<noteq> CHR 0x80" "a \<noteq> CHR 0xA8" "a \<noteq> CHR 0xA9" "a \<noteq> CHR 0xC2" "a \<noteq> CHR 0xE2"
    by (auto simp: ascii_def)
  then have "separator (a # r) \<longleftrightarrow> False" by (cases "a # r" rule: separator.cases) simp_all
  moreover have "separator (b # a # r) \<longleftrightarrow> False" for b using ne by (cases r) simp_all
  ultimately show ?thesis using ne by (cases s rule: separator.cases) simp_all
qed

lemma sep_free_append: "sep_free s \<Longrightarrow> sep_free t \<Longrightarrow> t = [] \<or> ascii (hd t) \<Longrightarrow> sep_free (s @ t)"
proof (induction s)
  case (Cons c s)
  have "separator (c # s @ t) \<longleftrightarrow> separator (c # s)"
  proof (cases t)
    case (Cons a r)
    then show ?thesis using separator_ext [of a "c # s" r] Cons.prems(3) by simp
  qed simp
  with Cons show ?case by simp
qed simp

lemma sep_free_ascii: "list_all ascii s \<Longrightarrow> sep_free s"
proof (induction s)
  case (Cons c s)
  then have "\<not> separator (c # s)" using separator_ext [of c "[]" s] by simp
  with Cons show ?case by simp
qed simp

text \<open>Escaping keeps a string free of separators and removes the control characters.\<close>

lemma hex_char_ascii: "n < 16 \<Longrightarrow> ascii (hex_char n) \<and> \<not> control_break (hex_char n)"
proof -
  assume "n < 16"
  then have "hex_char n \<in> set ''0123456789abcdef''" unfolding hex_char_def by (intro nth_mem) simp
  moreover have "list_all (\<lambda>c. ascii c \<and> \<not> control_break c) ''0123456789abcdef''"
    by (simp add: ascii_def control_break_def)
  ultimately show ?thesis unfolding list_all_iff by blast
qed

definition plain_ascii :: "char \<Rightarrow> bool" where
  "plain_ascii c \<longleftrightarrow> ascii c \<and> \<not> control_break c"

lemma control_break_small: "control_break c \<Longrightarrow> (of_char c :: nat) < 32"
  by (auto simp: control_break_def)

lemma esc_char_cases:
  "esc_char c = [c] \<and> \<not> control_break c \<or> (\<exists>e. esc_char c = CHR 0x5C # e \<and> list_all plain_ascii e)"
proof (cases "(of_char c :: nat) < 32")
  case True
  then have "plain_ascii (hex_char (of_char c div 16))" "plain_ascii (hex_char (of_char c mod 16))"
    using hex_char_ascii by (simp_all add: plain_ascii_def)
  with True show ?thesis by (simp add: esc_char_def plain_ascii_def ascii_def control_break_def)
next
  case False
  then have "\<not> control_break c" using control_break_small by blast
  with False show ?thesis by (simp add: esc_char_def plain_ascii_def ascii_def control_break_def)
qed

lemma separator_esc: "separator (c # concat (map esc_char s)) \<Longrightarrow> separator (c # s)"
proof -
  have bs: "ascii (CHR 0x5C)" by (simp add: ascii_def)
  have step: "separator (p @ concat (map esc_char (d # t))) \<longleftrightarrow> separator p" if "esc_char d = CHR 0x5C # e" for p d e t
    using that separator_ext [OF bs, of p "e @ concat (map esc_char t)"] by simp
  assume sep: "separator (c # concat (map esc_char s))"
  show ?thesis
  proof (cases s)
    case Nil
    then show ?thesis using sep by simp
  next
    case (Cons d t)
    from esc_char_cases [of d] show ?thesis
    proof
      assume d: "esc_char d = [d] \<and> \<not> control_break d"
      show ?thesis
      proof (cases t)
        case Nil
        then show ?thesis using sep Cons d by simp
      next
        case (Cons f u)
        from esc_char_cases [of f] show ?thesis
        proof
          assume "esc_char f = [f] \<and> \<not> control_break f"
          then show ?thesis using sep \<open>s = d # t\<close> Cons d by simp
        next
          assume "\<exists>e. esc_char f = CHR 0x5C # e \<and> list_all plain_ascii e"
          then obtain e where "esc_char f = CHR 0x5C # e" by blast
          from step [OF this, of "[c, d]" u] sep \<open>s = d # t\<close> Cons d
          have "separator [c, d]" by simp
          then show ?thesis using \<open>s = d # t\<close> by (cases t) simp_all
        qed
      qed
    next
      assume "\<exists>e. esc_char d = CHR 0x5C # e \<and> list_all plain_ascii e"
      then obtain e where "esc_char d = CHR 0x5C # e" by blast
      from step [OF this, of "[c]" t] sep Cons show ?thesis by simp
    qed
  qed
qed

text \<open>Text on one line: no control break and no separator.\<close>

definition one_line :: "string \<Rightarrow> bool" where
  "one_line s \<longleftrightarrow> sep_free s \<and> list_all (\<lambda>c. \<not> control_break c) s"

lemma one_line_append: "one_line s \<Longrightarrow> one_line t \<Longrightarrow> t = [] \<or> ascii (hd t) \<Longrightarrow> one_line (s @ t)"
  by (simp add: one_line_def sep_free_append)

lemma one_line_ascii: "list_all plain_ascii s \<Longrightarrow> one_line s"
  by (auto simp: one_line_def plain_ascii_def list_all_iff intro!: sep_free_ascii)

lemma one_line_esc: "sep_free s \<Longrightarrow> one_line (concat (map esc_char s))"
proof (induction s)
  case (Cons c s)
  then have IH: "one_line (concat (map esc_char s))" by simp
  from esc_char_cases [of c] show ?case
  proof
    assume c: "esc_char c = [c] \<and> \<not> control_break c"
    then show ?thesis using IH Cons.prems separator_esc [of c s] by (auto simp: one_line_def)
  next
    assume "\<exists>e. esc_char c = CHR 0x5C # e \<and> list_all plain_ascii e"
    then obtain e where e: "esc_char c = CHR 0x5C # e" "list_all plain_ascii (CHR 0x5C # e)"
      by (auto simp: plain_ascii_def ascii_def control_break_def)
    have "one_line (p @ concat (map esc_char s))" if "list_all plain_ascii p" for p
      using that
    proof (induction p)
      case (Cons a p)
      then have "ascii a" "\<not> control_break a" by (simp_all add: plain_ascii_def)
      with Cons separator_ext [of a "[]" "p @ concat (map esc_char s)"] show ?case
        by (simp add: one_line_def)
    qed (use IH in simp)
    from this [OF e(2)] show ?thesis using e(1) by simp
  qed
qed (simp add: one_line_def)

definition chunk :: "string \<Rightarrow> bool" where
  "chunk s \<longleftrightarrow> one_line s \<and> s \<noteq> [] \<and> ascii (hd s)"

lemma chunk_append: "chunk s \<Longrightarrow> chunk t \<Longrightarrow> chunk (s @ t)"
  by (simp add: chunk_def one_line_append)

lemma chunk_ascii: "s \<noteq> [] \<Longrightarrow> list_all plain_ascii s \<Longrightarrow> chunk s"
  by (cases s) (simp_all add: chunk_def one_line_ascii plain_ascii_def [of "hd s"] plain_ascii_def)

lemma chunk_Cons: "plain_ascii c \<Longrightarrow> chunk t \<Longrightarrow> chunk (c # t)"
  using chunk_append [of "[c]" t] chunk_ascii [of "[c]"] by simp

lemma chunk_concat: "(\<And>p. p \<in> set ps \<Longrightarrow> chunk p) \<Longrightarrow> chunk t \<Longrightarrow> chunk (concat ps @ t)"
  by (induction ps) (simp_all add: chunk_append)

lemma plain_punct [simp]:
  "plain_ascii (CHR 0x22)" "plain_ascii (CHR ''['')" "plain_ascii (CHR '']'')" "plain_ascii (CHR ''{'')"
  "plain_ascii (CHR ''}'')" "plain_ascii (CHR '','')" "plain_ascii (CHR '':'')" "plain_ascii (CHR ''-'')"
  by (simp_all add: plain_ascii_def ascii_def control_break_def)

lemma chunk_str: "sep_free s \<Longrightarrow> chunk (json_str s)"
proof -
  assume "sep_free s"
  then have "one_line (concat (map esc_char s) @ [CHR 0x22])"
    by (intro one_line_append one_line_esc one_line_ascii) (simp_all add: ascii_def)
  with separator_ext [of "CHR 0x22" "[]" "concat (map esc_char s) @ [CHR 0x22]"] show ?thesis
    by (simp add: chunk_def one_line_def json_str_def ascii_def control_break_def)
qed

lemma chunk_join:
  assumes "\<And>p. p \<in> set ps \<Longrightarrow> chunk p" "chunk t"
  shows "chunk (join '','' ps @ t)"
proof (cases ps)
  case (Cons p qs)
  have "chunk (concat (map (\<lambda>y. '','' @ y) qs) @ t)"
    using assms Cons by (intro chunk_concat) (auto intro: chunk_Cons)
  moreover have "chunk p" using assms(1) Cons by simp
  ultimately show ?thesis unfolding Cons join.simps append_assoc using chunk_append by blast
qed (use assms in simp)

fun tree_safe :: "jtree \<Rightarrow> bool" where
  "tree_safe (JNum s) = (s \<noteq> [] \<and> list_all plain_ascii s)"
| "tree_safe (JStr s) = sep_free s"
| "tree_safe (JArr ts) = list_all tree_safe ts"
| "tree_safe (JObj kvs) = list_all (\<lambda>(k, t). sep_free k \<and> tree_safe t) kvs"
| "tree_safe _ = True"

lemma chunk_text: "tree_safe t \<Longrightarrow> chunk (json_text t)"
proof (induction t)
  case (JArr ts)
  then have "chunk (join '','' (map json_text ts) @ '']'')"
    by (intro chunk_join) (auto simp: list_all_iff intro: chunk_ascii)
  then show ?case by (simp add: chunk_Cons)
next
  case (JObj kvs)
  have "chunk (json_str k @ '':'' @ json_text t)" if "(k, t) \<in> set kvs" for k t
    using JObj that by (auto simp: list_all_iff snds.simps intro!: chunk_append chunk_str chunk_Cons)
  then have "chunk (join '','' (map (\<lambda>(k, t). json_str k @ '':'' @ json_text t) kvs) @ ''}'')"
    by (intro chunk_join) (auto intro: chunk_ascii)
  then show ?case by (simp add: chunk_Cons)
qed (auto intro!: chunk_str chunk_ascii simp: plain_ascii_def ascii_def control_break_def)

text \<open>Values all of whose strings and keys avoid the unescaped separators.\<close>

definition line_safe :: "pyval \<Rightarrow> bool" where
  "line_safe v = all_sub (\<lambda>w. (case w of PStr s \<Rightarrow> sep_free s | PDict kvs \<Rightarrow> list_all (\<lambda>p. sep_free (fst p)) kvs
     | _ \<Rightarrow> True)) v"

lemma is_digit_plain: "is_digit c \<Longrightarrow> plain_ascii c"
  by (auto simp: is_digit_def plain_ascii_def ascii_def control_break_def)

lemma int_repr_plain: "int_repr i \<noteq> [] \<and> list_all plain_ascii (int_repr i)"
  using nat_repr_digits is_digit_plain by (auto simp: int_repr_def list_all_iff)

lemma canon_safe: "storable v \<Longrightarrow> line_safe v \<Longrightarrow> tree_safe (canon v)"
proof (induction v rule: canon.induct)
  case (3 i)
  then show ?case using int_repr_plain by simp
next
  case (8 kvs)
  have "sep_free k \<and> tree_safe (canon v)" if kv: "(k, v) \<in> set kvs" for k v
  proof -
    have "storable v" "line_safe v" "sep_free k" using 8(2,3) kv by (auto simp: list_all_iff line_safe_def)
    with 8(1) [OF kv refl] show ?thesis by simp
  qed
  then show ?case by (auto simp: list_all_iff)
qed (auto simp: list_all_iff line_safe_def)

lemma canonical_one_line: "storable v \<Longrightarrow> line_safe v \<Longrightarrow> one_line (json_text (canon v))"
  using chunk_text [OF canon_safe] by (simp add: chunk_def)

section \<open>Appending lines\<close>

lemma split_lines_one:
  "one_line s \<Longrightarrow> split_lines l (s @ LF # r) = (rev l @ s) # split_lines [] r"
proof (induction s arbitrary: l)
  case Nil
  show ?case by (subst split_lines.simps) (simp add: line_break_def LF_def)
next
  case (Cons c s)
  have "ascii LF" by (simp add: ascii_def LF_def)
  then have "\<not> separator (c # s @ LF # r)"
    using separator_ext [of LF "c # s" r] Cons.prems by (simp add: one_line_def)
  then have "line_break (c # s @ LF # r) = 0" using Cons.prems by (simp add: line_break_0 one_line_def)
  then have "split_lines l ((c # s) @ LF # r) = split_lines (c # l) (s @ LF # r)"
    by (subst split_lines.simps) simp
  with Cons show ?case by (simp add: one_line_def)
qed

lemma line_break_ext:
  "line_break (c # s @ LF # r) = line_break (c # s @ [LF])"
proof -
  have s2: "take 2 (c # s @ LF # r) = take 2 (c # s @ [LF])" by (cases s) simp_all
  have "LF \<noteq> CHR 0x80" "LF \<noteq> CHR 0xA8" "LF \<noteq> CHR 0xA9" by (simp_all add: LF_def)
  then have s3: "take 3 (c # s @ LF # r) \<in> {[CHR 0xE2, CHR 0x80, CHR 0xA8], [CHR 0xE2, CHR 0x80, CHR 0xA9]}
      \<longleftrightarrow> take 3 (c # s @ [LF]) \<in> {[CHR 0xE2, CHR 0x80, CHR 0xA8], [CHR 0xE2, CHR 0x80, CHR 0xA9]}"
    by (cases s rule: separator.cases) simp_all
  show ?thesis unfolding line_break_def s2 s3 by simp
qed

lemma line_break_bound: "line_break (c # s @ [LF]) \<le> length (c # s @ [LF])"
proof -
  have "LF \<noteq> CHR 0x80" "LF \<noteq> CHR 0xA8" "LF \<noteq> CHR 0xA9" by (simp_all add: LF_def)
  then have "take 3 (c # s @ [LF]) \<in> {[CHR 0xE2, CHR 0x80, CHR 0xA8], [CHR 0xE2, CHR 0x80, CHR 0xA9]} \<Longrightarrow> s \<noteq> []"
    by (cases s) simp_all
  then show ?thesis by (auto simp: line_break_def Suc_le_eq length_greater_0_conv)
qed

lemma split_lines_append:
  "split_lines l (f @ LF # r) = split_lines l (f @ [LF]) @ split_lines [] r"
proof (induction "length f" arbitrary: l f rule: less_induct)
  case less
  show ?case
  proof (cases f)
    case Nil
    have "split_lines l (LF # r) = rev l # split_lines [] r" for r
      by (subst split_lines.simps) (simp add: line_break_def LF_def)
    moreover have "split_lines [] [] = []" by (subst split_lines.simps) simp
    ultimately show ?thesis using Nil by simp
  next
    case (Cons c s)
    let ?n = "line_break (c # s @ [LF])"
    show ?thesis
    proof (cases "?n = 0")
      case True
      then show ?thesis
        using less [of s "c # l"] Cons line_break_ext [of c s r]
        by (subst (1 2) split_lines.simps) simp
    next
      case False
      have "drop ?n (c # s @ LF # r) = (if ?n \<le> length f then drop ?n f @ LF # r else r)"
        using line_break_bound [of c s] Cons drop_append [of ?n f "LF # r"]
        by (cases "?n = length (c # s @ [LF])") auto
      moreover have "drop ?n (c # s @ [LF]) = (if ?n \<le> length f then drop ?n f @ [LF] else [])"
        using line_break_bound [of c s] Cons drop_append [of ?n f "[LF]"]
        by (cases "?n = length (c # s @ [LF])") auto
      moreover have "split_lines [] [] = []" by (subst split_lines.simps) simp
      moreover have "?n \<le> length f \<Longrightarrow> length (drop ?n f) < length f" using False Cons by simp
      ultimately show ?thesis
        using less [of "drop ?n f" "[]"] Cons line_break_ext [of c s r] False
        by (subst (1 2) split_lines.simps) simp
    qed
  qed
qed

end
