(* ===== verification/Actions.thy ===== *)
theory Actions
  imports PyValue
begin

text \<open>
  Stateful Python code as state passing: an action takes the state of the world and returns a
  value or a raised exception together with the state it leaves behind, so that the effects
  before a raise are kept. Triples \<open>triple P m Q E\<close> say what an action does from a state in \<open>P\<close>: \<open>Q\<close>
  holds of the result and the state when it returns, \<open>E\<close> of the state when it raises.
\<close>

type_synonym ('w, 'a) act = "'w \<Rightarrow> (exc + 'a) \<times> 'w"

section \<open>Sequencing\<close>

definition ret :: "'a \<Rightarrow> ('w, 'a) act" where
  "ret x = (\<lambda>w. (Inr x, w))"

definition throw :: "exc \<Rightarrow> ('w, 'a) act" where
  "throw e = (\<lambda>w. (Inl e, w))"

definition pure :: "exc + 'a \<Rightarrow> ('w, 'a) act" where
  "pure r = (\<lambda>w. (r, w))"

definition io_bind :: "('w, 'a) act \<Rightarrow> ('a \<Rightarrow> ('w, 'b) act) \<Rightarrow> ('w, 'b) act" where
  "io_bind m f = (\<lambda>w. (case m w of (Inl e, w') \<Rightarrow> (Inl e, w') | (Inr x, w') \<Rightarrow> f x w'))"

text \<open>\<open>try: m except OSError: raise e\<close>\<close>

definition except_os :: "('w, 'a) act \<Rightarrow> exc \<Rightarrow> ('w, 'a) act" where
  "except_os m e = (\<lambda>w. (case m w of (Inl OSError, w') \<Rightarrow> (Inl e, w') | r \<Rightarrow> r))"

lemma io_simps [simp]:
  "ret x w = (Inr x, w)" "throw e w = (Inl e, w)" "pure r w = (r, w)"
  by (simp_all add: ret_def throw_def pure_def)

lemma io_bind_Inr [simp]: "m w = (Inr x, w') \<Longrightarrow> io_bind m f w = f x w'"
  by (simp add: io_bind_def)

lemma io_bind_Inl [simp]: "m w = (Inl e, w') \<Longrightarrow> io_bind m f w = (Inl e, w')"
  by (simp add: io_bind_def)

lemma io_bind_cases:
  "io_bind m f w = (r, w') \<longleftrightarrow>
     (\<exists>e. m w = (Inl e, w') \<and> r = Inl e) \<or> (\<exists>x u. m w = (Inr x, u) \<and> f x u = (r, w'))"
  by (auto simp: io_bind_def split: prod.splits sum.splits)

lemma io_bind_pure [simp]: "io_bind (pure (Inr x)) f w = f x w" "io_bind (pure (Inl e)) f w = (Inl e, w)"
  "io_bind (ret x) f w = f x w" "io_bind (throw e) f w = (Inl e, w)"
  by (simp_all add: io_bind_def)

text \<open>Reading, checking and assigning: \<open>put\<close> is an assignment whose new value may raise.\<close>

definition put :: "('s \<Rightarrow> exc + 's) \<Rightarrow> ('s, unit) act" where
  "put f = (\<lambda>s. case f s of Inl e \<Rightarrow> (Inl e, s) | Inr s' \<Rightarrow> (Inr (), s'))"

definition modify :: "('s \<Rightarrow> 's) \<Rightarrow> ('s, unit) act" where
  "modify f = (\<lambda>s. (Inr (), f s))"

definition check :: "('s \<Rightarrow> exc + 'a) \<Rightarrow> ('s, 'a) act" where
  "check f = (\<lambda>s. (f s, s))"

text \<open>Reading does not change the world.\<close>

definition reads :: "('w, 'a) act \<Rightarrow> bool" where
  "reads m \<longleftrightarrow> (\<forall>w. snd (m w) = w)"

lemma reads_intros [intro]:
  "reads (ret x)" "reads (throw e)" "reads (pure r)"
  "reads m \<Longrightarrow> (\<And>x. reads (f x)) \<Longrightarrow> reads (io_bind m f)"
  by (auto simp: reads_def io_bind_def split: prod.splits sum.splits) (metis snd_conv)+

lemma reads_if: "(b \<Longrightarrow> reads m) \<Longrightarrow> (\<not> b \<Longrightarrow> reads n) \<Longrightarrow> reads (if b then m else n)"
  by simp

lemma readsD: "reads m \<Longrightarrow> m w = (r, w') \<Longrightarrow> w' = w"
  unfolding reads_def by (metis snd_conv)

section \<open>Triples\<close>

definition triple :: "('w \<Rightarrow> bool) \<Rightarrow> ('w, 'a) act \<Rightarrow> ('a \<Rightarrow> 'w \<Rightarrow> bool) \<Rightarrow> ('w \<Rightarrow> bool) \<Rightarrow> bool" where
  "triple P m Q E \<longleftrightarrow> (\<forall>w. P w \<longrightarrow> (case m w of (Inr x, w') \<Rightarrow> Q x w' | (Inl e, w') \<Rightarrow> E w'))"

lemma tripleI:
  "(\<And>w r w'. P w \<Longrightarrow> m w = (r, w') \<Longrightarrow> (case r of Inr x \<Rightarrow> Q x w' | Inl e \<Rightarrow> E w')) \<Longrightarrow> triple P m Q E"
  by (auto simp: triple_def split: prod.splits sum.splits)

lemma triple_returns: "triple P m Q E \<Longrightarrow> P w \<Longrightarrow> m w = (Inr x, w') \<Longrightarrow> Q x w'"
  by (fastforce simp: triple_def)

lemma triple_raises: "triple P m Q E \<Longrightarrow> P w \<Longrightarrow> m w = (Inl e, w') \<Longrightarrow> E w'"
  by (fastforce simp: triple_def)

lemma triple_bind:
  assumes "triple P m Q E" and "\<And>x. triple (Q x) (f x) R E"
  shows "triple P (io_bind m f) R E"
proof (rule tripleI)
  fix w r w' assume P: "P w" and "io_bind m f w = (r, w')"
  then consider (raised) e where "m w = (Inl e, w')" "r = Inl e"
    | (continued) x u where "m w = (Inr x, u)" "f x u = (r, w')"
    by (auto simp: io_bind_cases)
  then show "case r of Inr y \<Rightarrow> R y w' | Inl e \<Rightarrow> E w'"
  proof cases
    case raised
    then show ?thesis using triple_raises [OF assms(1) P] by simp
  next
    case (continued x u)
    then have "Q x u" using triple_returns [OF assms(1) P] by simp
    then show ?thesis
      using continued triple_returns [OF assms(2)] triple_raises [OF assms(2)] by (cases r) auto
  qed
qed

lemma triple_mono:
  "triple P m Q E \<Longrightarrow> (\<And>w. P' w \<Longrightarrow> P w) \<Longrightarrow> (\<And>x w. Q x w \<Longrightarrow> Q' x w) \<Longrightarrow> (\<And>w. E w \<Longrightarrow> E' w) \<Longrightarrow> triple P' m Q' E'"
  by (fastforce simp: triple_def split: prod.splits sum.splits)

lemma triple_ret [intro]: "(\<And>w. P w \<Longrightarrow> Q x w) \<Longrightarrow> triple P (ret x) Q E"
  by (simp add: triple_def)

lemma triple_throw [intro]: "(\<And>w. P w \<Longrightarrow> E w) \<Longrightarrow> triple P (throw e) Q E"
  by (simp add: triple_def)

lemma triple_pure: "(\<And>w x. P w \<Longrightarrow> r = Inr x \<Longrightarrow> Q x w) \<Longrightarrow> (\<And>w. P w \<Longrightarrow> E w) \<Longrightarrow> triple P (pure r) Q E"
  by (cases r) (auto simp: triple_def)

lemma triple_if: "(b \<Longrightarrow> triple P m Q E) \<Longrightarrow> (\<not> b \<Longrightarrow> triple P n Q E) \<Longrightarrow> triple P (if b then m else n) Q E"
  by simp

lemma triple_put: "(\<And>s. P s \<Longrightarrow> (case f s of Inl _ \<Rightarrow> E s | Inr s' \<Rightarrow> Q () s')) \<Longrightarrow> triple P (put f) Q E"
  by (fastforce simp: triple_def put_def split: sum.splits)

lemma triple_modify: "(\<And>s. P s \<Longrightarrow> Q () (f s)) \<Longrightarrow> triple P (modify f) Q E"
  by (simp add: triple_def modify_def)

lemma triple_check: "(\<And>s x. P s \<Longrightarrow> f s = Inr x \<Longrightarrow> Q x s) \<Longrightarrow> (\<And>s. P s \<Longrightarrow> E s) \<Longrightarrow> triple P (check f) Q E"
  by (fastforce simp: triple_def check_def split: sum.splits)

end
