(* ===== verification/FileSystem.thy ===== *)
theory FileSystem
  imports TextLines PathJoin Actions
begin

text \<open>
  The world the transition runtime acts on: a map from paths to file contents, and the
  file operations of the standard library as actions on it. A path is the normalised string of a \<open>Path\<close>. Directories, permissions other than a file that
  cannot be opened for appending, and running out of space are not modelled: every other read
  of an existing file and every write succeeds.
\<close>

type_synonym file_map = "string \<Rightarrow> string option"

record world =
  files :: file_map
  append_refused :: "string \<Rightarrow> bool"

type_synonym 'a io = "(world, 'a) act"

section \<open>Files\<close>

definition path_exists :: "string \<Rightarrow> bool io" where
  "path_exists p = (\<lambda>w. (Inr (files w p \<noteq> None), w))"

definition read_text :: "string \<Rightarrow> string io" where
  "read_text p = (\<lambda>w. ((case files w p of None \<Rightarrow> Inl OSError | Some t \<Rightarrow> Inr t), w))"

definition write_text :: "string \<Rightarrow> string \<Rightarrow> unit io" where
  "write_text p t = (\<lambda>w. (Inr (), w\<lparr>files := (files w)(p \<mapsto> t)\<rparr>))"

definition replace_file :: "string \<Rightarrow> string \<Rightarrow> unit io" where
  "replace_file src dst = (\<lambda>w. (case files w src of
      None \<Rightarrow> (Inl OSError, w)
    | Some t \<Rightarrow> (Inr (), w\<lparr>files := ((files w)(src := None))(dst \<mapsto> t)\<rparr>)))"

definition append_text :: "string \<Rightarrow> string \<Rightarrow> unit io" where
  "append_text p t = (\<lambda>w. if append_refused w p then (Inl OSError, w)
     else (Inr (), w\<lparr>files := (files w)(p \<mapsto> (case files w p of None \<Rightarrow> [] | Some s \<Rightarrow> s) @ t)\<rparr>))"

definition unlink_missing_ok :: "string \<Rightarrow> unit io" where
  "unlink_missing_ok p = (\<lambda>w. (Inr (), w\<lparr>files := (files w)(p := None)\<rparr>))"

lemma reads_files [intro]: "reads (path_exists p)" "reads (read_text p)"
  by (simp_all add: reads_def path_exists_def read_text_def)

section \<open>Python values from files\<close>

text \<open>\<open>dict(value)\<close>: a copy of a mapping, or a mapping from pairs; keys are strings.\<close>

definition dict_entry :: "pyval \<Rightarrow> exc + (string \<times> pyval)" where
  "dict_entry x = (case py_iter x of
      Inr [k, v] \<Rightarrow> (case k of PStr s \<Rightarrow> Inr (s, v) | _ \<Rightarrow> Inl TypeError)
    | Inr _ \<Rightarrow> Inl ValueError
    | Inl _ \<Rightarrow> Inl TypeError)"

definition py_dict :: "pyval \<Rightarrow> exc + pydict" where
  "py_dict v = (case v of
      PDict kv \<Rightarrow> Inr kv
    | _ \<Rightarrow> rbind (py_iter v) (\<lambda>xs.
        fold_r (\<lambda>x acc. rbind (dict_entry x) (\<lambda>(k, y). Inr (AList.update k y acc))) xs []))"

lemma py_dict_dict [simp]: "py_dict (PDict kv) = Inr kv"
  by (simp add: py_dict_def)

text \<open>\<open>str(value)\<close>; the text of a container is the argument \<open>crepr\<close>.\<close>

definition py_str :: "(pyval \<Rightarrow> string) \<Rightarrow> pyval \<Rightarrow> string" where
  "py_str crepr v = (case v of
      PStr s \<Rightarrow> s
    | PNone \<Rightarrow> ''None''
    | PBool b \<Rightarrow> if b then ''True'' else ''False''
    | PInt i \<Rightarrow> int_repr i
    | PFloat f \<Rightarrow> float_repr f
    | _ \<Rightarrow> crepr v)"

lemma py_str_str [simp]: "py_str crepr (PStr s) = s"
  by (simp add: py_str_def)

text \<open>\<open>Path(value)\<close>, as its normalised text.\<close>

definition py_path :: "pyval \<Rightarrow> exc + string" where
  "py_path v = (case v of PStr s \<Rightarrow> Inr (path_str (PurePosixPath s)) | _ \<Rightarrow> Inl TypeError)"

text \<open>\<open>path.with_name(path.name + ext)\<close>; a path without a name is refused.\<close>

definition with_name_suffix :: "string \<Rightarrow> string \<Rightarrow> exc + string" where
  "with_name_suffix p ext =
     (if path_parts (PurePosixPath p) = [] then Inl ValueError else Inr (p @ ext))"

end
