(* ===== verification/TransitionContract.thy ===== *)
theory TransitionContract
  imports PureExprPayload
begin

text \<open>
  Transition declarations (\<open>workflow/transition_contract.py\<close>): the records a validated
  declaration is made of, the validation of raw payloads, the coercion of request and result
  values, and the idempotency key. Descriptors are raw mappings here too, with their own
  validator and their own coercion, which differ from those of pure expressions: integers are
  not bounded, only lists are sequences, a union keeps keys it does not know.
\<close>

section \<open>Shape checks\<close>

abbreviation declaration_invalid :: exc where
  "declaration_invalid \<equiv> TransitionContractError ''transition_declaration_invalid''"

definition TRANSITION_SCHEMA_VERSION :: int where
  "TRANSITION_SCHEMA_VERSION = 1"

definition UPDATE_OPS :: "string list" where
  "UPDATE_OPS = [''set_field'', ''clear_field'', ''append_item'']"

definition as_mapping :: "pyval \<Rightarrow> exc + pydict" where
  "as_mapping v = (case v of PDict kv \<Rightarrow> Inr kv | _ \<Rightarrow> Inl declaration_invalid)"

definition as_sequence :: "pyval \<Rightarrow> exc + pyval list" where
  "as_sequence v = (case v of PList xs \<Rightarrow> Inr xs | _ \<Rightarrow> Inl declaration_invalid)"

definition non_empty_string :: "pyval \<Rightarrow> exc + string" where
  "non_empty_string v = (if nonempty_str v then Inr (str_of v) else Inl declaration_invalid)"

definition transition_descriptor_kind :: "pyval \<Rightarrow> exc + string" where
  "transition_descriptor_kind d =
     rbind (py_get d ''kind'') (\<lambda>kind.
     if \<not> nonempty_str kind then Inl declaration_invalid else Inr (str_of kind))"

lemma size_as_sequence: "as_sequence v = Inr xs \<Longrightarrow> x \<in> set xs \<Longrightarrow> size x < size v"
  by (cases v) (auto simp: as_sequence_def dest: size_list_mem)

lemma as_mapping_Inr [result_simps]: "as_mapping v = Inr kv \<longleftrightarrow> v = PDict kv"
  by (cases v) (auto simp: as_mapping_def)

lemma as_sequence_Inr [result_simps]: "as_sequence v = Inr xs \<longleftrightarrow> v = PList xs"
  by (cases v) (auto simp: as_sequence_def)

lemma non_empty_string_Inr [result_simps]: "non_empty_string v = Inr s \<longleftrightarrow> v = PStr s \<and> s \<noteq> []"
  by (cases v) (auto simp: non_empty_string_def)

lemma shape_errors [result_simps]:
  "as_mapping v = Inl e \<longleftrightarrow> \<not> is_mapping v \<and> e = declaration_invalid"
  "as_sequence v = Inl e \<longleftrightarrow> (\<nexists>xs. v = PList xs) \<and> e = declaration_invalid"
  "non_empty_string v = Inl e \<longleftrightarrow> \<not> nonempty_str v \<and> e = declaration_invalid"
  by (cases v; auto simp: as_mapping_def as_sequence_def non_empty_string_def)+

lemma shape_simps [simp]:
  "as_mapping (PDict kv) = Inr kv" "as_sequence (PList xs) = Inr xs"
  "s \<noteq> [] \<Longrightarrow> non_empty_string (PStr s) = Inr s"
  by (simp_all add: as_mapping_def as_sequence_def non_empty_string_def)

section \<open>Type descriptors\<close>

text \<open>
  \<open>{field["name"]: field["type"] for field in fields}\<close>: later entries replace earlier ones in
  place. Field names need not be strings before validation, so the keys are values.
\<close>

definition field_type_entries :: "pyval \<Rightarrow> exc + (pyval \<times> pyval) list" where
  "field_type_entries fds =
     rbind (py_iter fds) (\<lambda>xs.
     fold_r (\<lambda>field acc.
       rbind (py_item field ''name'') (\<lambda>n. rbind (py_item field ''type'') (\<lambda>t.
       rbind (require (hashable n) TypeError) (\<lambda>_. Inr (AList.update n t acc))))) xs [])"

definition record_field_types :: "pyval \<Rightarrow> exc + (pyval \<times> pyval) list" where
  "record_field_types d =
     rbind (transition_descriptor_kind d) (\<lambda>kind.
     rbind (require (kind = ''record'') declaration_invalid) (\<lambda>_.
     rbind (py_item d ''fields'') field_type_entries))"

text \<open>The loop over the fields of a record, a variant case or one variant of a union.\<close>

definition validated_fields :: "(pyval \<Rightarrow> exc + pyval) \<Rightarrow> pyval \<Rightarrow> exc + unit" where
  "validated_fields check fds =
     rbind (as_sequence fds) (\<lambda>xs.
     rbind (fold_r (\<lambda>field seen.
         rbind (as_mapping field) (\<lambda>item.
         rbind (non_empty_string (dget item ''name'')) (\<lambda>name.
         rbind (require (name \<notin> set seen) declaration_invalid) (\<lambda>_.
         rbind (check (dget item ''type'')) (\<lambda>_. Inr (name # seen))))))
       xs []) (\<lambda>_. Inr ()))"

lemma validated_fields_cong [fundef_cong]:
  assumes "fds = fds'" "\<And>t. size t < size fds' \<Longrightarrow> check t = check' t"
  shows "validated_fields check fds = validated_fields check' fds'"
  unfolding validated_fields_def assms(1)
proof (intro rbind_cong fold_r_cong refl, goal_cases)
  case (1 xs x u kv y ya)
  then show ?case
    using size_as_sequence [of fds' xs x] size_dget [of kv "''type''"]
    by (intro assms(2)) (simp add: result_simps del: pyval.size)
qed

function validated_type_descriptor :: "pyval \<Rightarrow> exc + pyval" where
  "validated_type_descriptor d =
     rbind (as_mapping d) (\<lambda>kv.
     rbind (transition_descriptor_kind d) (\<lambda>kind.
     if kind = ''primitive'' then
       rbind (non_empty_string (dget kv ''name'')) (\<lambda>_. Inr d)
     else if kind = ''enum'' then
       rbind (non_empty_string (dget kv ''name'')) (\<lambda>_.
       rbind (as_sequence (dget kv ''allowed'')) (\<lambda>allowed.
       if allowed = [] \<or> list_ex (\<lambda>item. \<not> nonempty_str item) allowed then Inl declaration_invalid
       else Inr d))
     else if kind = ''path'' then
       rbind (non_empty_string (dget kv ''name'')) (\<lambda>_. Inr d)
     else if kind = ''optional'' then
       rbind (validated_type_descriptor (dget kv ''item'')) (\<lambda>_. Inr d)
     else if kind = ''list'' then
       rbind (validated_type_descriptor (dget kv ''item'')) (\<lambda>_. Inr d)
     else if kind = ''map'' then
       rbind (validated_type_descriptor (dget kv ''key'')) (\<lambda>_.
       rbind (validated_type_descriptor (dget kv ''value'')) (\<lambda>_. Inr d))
     else if kind = ''record'' \<or> kind = ''variant_case'' then
       rbind (validated_fields validated_type_descriptor (dget kv ''fields'')) (\<lambda>_.
       if kind = ''variant_case'' then
         rbind (non_empty_string (dget kv ''variant'')) (\<lambda>_.
         rbind (non_empty_string (dget kv ''union_name'')) (\<lambda>_. Inr d))
       else Inr d)
     else if kind = ''union'' then
       rbind (as_sequence (dget kv ''variants'')) (\<lambda>variants.
       rbind (fold_r (\<lambda>variant seen.
           rbind (as_mapping variant) (\<lambda>item.
           rbind (non_empty_string (dget item ''name'')) (\<lambda>name.
           rbind (require (name \<notin> set seen) declaration_invalid) (\<lambda>_.
           rbind (validated_fields validated_type_descriptor (dget item ''fields'')) (\<lambda>_.
           Inr (name # seen))))))
         variants []) (\<lambda>_. Inr d))
     else Inl declaration_invalid))"
  by pat_completeness auto
termination
proof (relation "measure size", goal_cases)
  case 1
  then show ?case by simp
next
  case (7 d kv kind variants variant seen item name u t)
  then show ?case
    using size_dget [of kv "''variants''"] size_dget [of item "''fields''"]
      size_as_sequence [of "dget kv ''variants''" variants variant]
    by (simp add: result_simps del: pyval.size)
next
  case (6 d kv kind t)
  then show ?case
    using size_dget [of kv "''fields''"] by (simp add: result_simps del: pyval.size)
qed (simp_all add: result_simps size_dget del: pyval.size)

declare validated_type_descriptor.simps [simp del]

text \<open>\<open>variant.get("name") == variant_name\<close> on the variants in order.\<close>

definition union_variant :: "pyval \<Rightarrow> string \<Rightarrow> exc + pyval" where
  "union_variant d variant_name =
     rbind (case d of PDict kv \<Rightarrow>
         (case map_of kv ''variants'' of None \<Rightarrow> Inr [] | Some vs \<Rightarrow> py_iter vs)
       | _ \<Rightarrow> Inl AttributeError) (\<lambda>variants.
     rbind (fold_r (\<lambda>variant found.
         (case found of Some x \<Rightarrow> Inr found
          | None \<Rightarrow> rbind (py_get variant ''name'') (\<lambda>n.
              Inr (if py_eq n (PStr variant_name) then Some variant else None))))
       variants None) (\<lambda>found.
     (case found of Some variant \<Rightarrow> Inr variant | None \<Rightarrow> Inl declaration_invalid)))"


section \<open>Coercion of values\<close>

lemma field_types_sizes:
  assumes "fold_r (\<lambda>field acc.
       rbind (py_item field ''name'') (\<lambda>n. rbind (py_item field ''type'') (\<lambda>t.
       rbind (require (hashable n) TypeError) (\<lambda>_. Inr (AList.update n t acc))))) xs acc = Inr r"
    and "(n, t) \<in> set r"
  shows "(n, t) \<in> set acc \<or> (\<exists>x \<in> set xs. py_item x ''type'' = Inr t)"
  using assms
proof (induction xs arbitrary: acc)
  case (Cons x xs)
  then obtain n' t' where s: "py_item x ''type'' = Inr t'"
      "(n, t) \<in> set (AList.update n' t' acc) \<or> (\<exists>x \<in> set xs. py_item x ''type'' = Inr t)"
    by (fastforce simp: result_simps)
  have "set (AList.update n' t' acc) \<subseteq> insert (n', t') (set acc)"
    by (induction acc) auto
  with s show ?case by auto
qed auto

lemma size_field_type_entries:
  assumes "field_type_entries w = Inr r" "(n, t) \<in> set r"
  shows "size t < size w"
proof -
  from assms(1) obtain xs where xs: "py_iter w = Inr xs"
    by (auto simp: field_type_entries_def result_simps)
  from field_types_sizes assms xs obtain x where x: "x \<in> set xs" "py_item x ''type'' = Inr t"
    unfolding field_type_entries_def by fastforce
  show ?thesis using size_py_iter_le [OF xs x(1)] size_py_item [OF x(2)] by simp
qed

text \<open>
  The record case; \<open>variant_case\<close> is coerced as the record of its fields. The values of a
  declared name that is not a string cannot be present in a mapping with string keys.
\<close>

definition coerce_transition_record ::
    "(pyval \<Rightarrow> pyval \<Rightarrow> exc + pyval) \<Rightarrow> pyval \<Rightarrow> pyval \<Rightarrow> exc + pyval" where
  "coerce_transition_record co v fds =
     (case v of PDict vkv \<Rightarrow>
        rbind (field_type_entries fds) (\<lambda>field_types.
        rbind (require (list_all (\<lambda>p. PStr (fst p) \<in> fst ` set field_types) vkv) declaration_invalid) (\<lambda>_.
        rbind (map_r (\<lambda>(name, ft). (case field_of vkv name of
              None \<Rightarrow> Inl declaration_invalid
            | Some x \<Rightarrow> rbind (co x ft) (\<lambda>y. Inr (str_of name, y)))) field_types) (\<lambda>result.
        Inr (PDict result))))
      | _ \<Rightarrow> Inl declaration_invalid)"

text \<open>The loop over the declared fields of a variant; it reads and writes the copied mapping.\<close>

definition coerce_variant_fields ::
    "(pyval \<Rightarrow> pyval \<Rightarrow> exc + pyval) \<Rightarrow> pyval \<Rightarrow> pydict \<Rightarrow> exc + pydict" where
  "coerce_variant_fields co fds vkv =
     rbind (py_iter fds) (\<lambda>xs.
     fold_r (\<lambda>field variant_value.
       rbind (py_item field ''name'') (\<lambda>name.
       rbind (require (hashable name) TypeError) (\<lambda>_.
       (case field_of variant_value name of
          None \<Rightarrow> Inl declaration_invalid
        | Some x \<Rightarrow>
            rbind (py_item field ''type'') (\<lambda>ft.
            rbind (co x ft) (\<lambda>y. Inr (AList.update (str_of name) y variant_value)))))))
     xs vkv)"

lemma coerce_transition_record_cong [fundef_cong]:
  assumes "v = v'" "fds = fds'" "\<And>x t. size t < size fds' \<Longrightarrow> co x t = co' x t"
  shows "coerce_transition_record co v fds = coerce_transition_record co' v' fds'"
  unfolding coerce_transition_record_def assms(1,2)
  by (cases v') (auto intro!: rbind_cong map_r_cong assms(3) split: option.splits
      elim: size_field_type_entries)

lemma coerce_variant_fields_cong [fundef_cong]:
  assumes "fds = fds'" "vkv = vkv'" "\<And>x t. size t < size fds' \<Longrightarrow> co x t = co' x t"
  shows "coerce_variant_fields co fds vkv = coerce_variant_fields co' fds' vkv'"
  unfolding coerce_variant_fields_def assms(1,2)
  by (intro rbind_cong fold_r_cong refl)
    (auto split: option.splits intro!: rbind_cong assms(3) dest!: size_py_iter_le size_py_item)

lemma union_variant_mem:
  assumes "union_variant d n = Inr w"
  shows "\<exists>kv vs xs. d = PDict kv \<and> map_of kv ''variants'' = Some vs \<and> py_iter vs = Inr xs \<and> w \<in> set xs"
proof -
  have "fold_r (\<lambda>variant found. (case found of Some x \<Rightarrow> Inr found
          | None \<Rightarrow> rbind (py_get variant ''name'') (\<lambda>m.
              Inr (if py_eq m (PStr n) then Some variant else None)))) xs acc = Inr (Some w)
      \<Longrightarrow> acc = Some w \<or> w \<in> set xs" for xs acc
    by (induction xs arbitrary: acc) (fastforce simp: result_simps split: option.splits if_splits)+
  with assms show ?thesis
    by (cases d) (fastforce simp: union_variant_def result_simps split: option.splits)+
qed

lemma size_union_variant: "union_variant d n = Inr w \<Longrightarrow> size w < size d"
  by (fastforce dest!: union_variant_mem map_of_SomeD size_py_iter_le size_dict_mem)

lemma size_item_part: "py_item d k = Inr w \<Longrightarrow> size t < size w \<Longrightarrow> size t < size d"
  by (drule size_py_item) simp

lemma size_variant_part:
  "union_variant d n = Inr u \<Longrightarrow> py_item u k = Inr w \<Longrightarrow> size t < size w \<Longrightarrow> size t < size d"
  by (drule size_union_variant, drule size_py_item) simp

definition coerce_transition_primitive :: "string \<Rightarrow> pyval \<Rightarrow> exc + pyval" where
  "coerce_transition_primitive name v =
     (if name = ''Bool'' then (case v of PBool b \<Rightarrow> Inr v | _ \<Rightarrow> Inl declaration_invalid)
      else if name = ''Int'' then (case v of PInt i \<Rightarrow> Inr v | _ \<Rightarrow> Inl declaration_invalid)
      else if name \<in> {''String'', ''Symbol'', ''PathRel'', ''RunId''} then
        (if \<not> is_str v then Inl declaration_invalid else Inr v)
      else if name = ''Json'' then rbind (canonical_json_for_pure_value v) (\<lambda>_. Inr (jsonable v))
      else if \<not> is_str v then Inl declaration_invalid
      else Inr v)"

function coerce_transition_value :: "pyval \<Rightarrow> pyval \<Rightarrow> exc + pyval" where
  "coerce_transition_value v d =
     rbind (transition_descriptor_kind d) (\<lambda>kind.
     if kind = ''primitive'' then
       rbind (py_item d ''name'') (\<lambda>name.
       if hashable name then coerce_transition_primitive (str_of name) v else Inl TypeError)
     else if kind = ''enum'' then
       rbind (py_item d ''allowed'') (\<lambda>allowed.
       if \<not> is_str v then Inl declaration_invalid
       else rbind (py_in v allowed) (\<lambda>b. if b then Inr v else Inl declaration_invalid))
     else if kind = ''path'' then (if \<not> is_str v then Inl declaration_invalid else Inr v)
     else if kind = ''optional'' then
       (if v = PNone then Inr PNone
        else rbind (py_item d ''item'') (\<lambda>item. coerce_transition_value v item))
     else if kind = ''list'' then
       (case v of PList xs \<Rightarrow>
          rbind (map_r (\<lambda>x. rbind (py_item d ''item'') (\<lambda>item. coerce_transition_value x item)) xs)
            (\<lambda>ys. Inr (PList ys))
        | _ \<Rightarrow> Inl declaration_invalid)
     else if kind = ''map'' then
       (case v of PDict vkv \<Rightarrow>
          rbind (fold_r (\<lambda>(k, x) result.
              rbind (py_item d ''key'') (\<lambda>kd. rbind (coerce_transition_value (PStr k) kd) (\<lambda>k'.
              rbind (py_item d ''value'') (\<lambda>vd. rbind (coerce_transition_value x vd) (\<lambda>y.
              Inr (AList.update (str_of k') y result))))))
            vkv []) (\<lambda>result. Inr (PDict result))
        | _ \<Rightarrow> Inl declaration_invalid)
     else if kind = ''record'' then
       (if is_mapping v then
          rbind (py_item d ''fields'') (coerce_transition_record coerce_transition_value v)
        else Inl declaration_invalid)
     else if kind = ''union'' then
       (case v of PDict vkv \<Rightarrow>
          if \<not> is_str (dget vkv ''variant'') then Inl declaration_invalid
          else rbind (union_variant d (str_of (dget vkv ''variant''))) (\<lambda>variant.
            rbind (py_item variant ''fields'') (\<lambda>fds.
            rbind (coerce_variant_fields coerce_transition_value fds vkv) (\<lambda>result.
            Inr (PDict result))))
        | _ \<Rightarrow> Inl declaration_invalid)
     else if kind = ''variant_case'' then
       rbind (py_item d ''fields'') (coerce_transition_record coerce_transition_value v)
     else Inl declaration_invalid)"
  by pat_completeness auto
termination
  by (relation "measure (\<lambda>(v, d). size d)")
    ((simp only: wf_measure)
     | (simp only: in_measure prod.case,
        (erule size_py_item
         | (rule size_item_part, assumption, assumption)
         | (rule size_variant_part, assumption, assumption, assumption))))+

declare coerce_transition_value.simps [simp del]

section \<open>Declarations\<close>

record ResourceBacking =
  backing_kind :: string
  backing_path_input :: "string option"

record ResourceDeclaration =
  resource_kind :: string
  state_type :: pyval
  backing :: ResourceBacking
  version_token_type :: string

record TransitionUpdate =
  update_op :: string
  update_target :: string
  update_value :: "pyval option"

record TransitionDeclaration =
  transition_name :: string
  request_type :: pyval
  result_type :: pyval
  preconditions :: "pyval list"
  updates :: "TransitionUpdate list"
  write_set :: "string list"
  idempotency_fields :: "string list"
  result_projection :: pyval
  audit_projection :: pyval
  conflict_policy :: string
  backend :: pydict

record ValidatedTransitionDeclaration =
  transition_schema_version :: int
  resource :: ResourceDeclaration
  transition :: TransitionDeclaration

section \<open>Canonical text and digests\<close>

definition canonical_transition_json :: "pyval \<Rightarrow> exc + string" where
  "canonical_transition_json v = json_dumps (jsonable v)"

definition canonical_transition_digest :: "(string \<Rightarrow> string) \<Rightarrow> pyval \<Rightarrow> exc + string" where
  "canonical_transition_digest sha v =
     rbind (canonical_transition_json v) (\<lambda>t. Inr (''sha256:'' @ sha t))"

definition serialize_transition_audit_record :: "pyval \<Rightarrow> exc + string" where
  "serialize_transition_audit_record r =
     (if \<not> is_mapping r then Inl declaration_invalid else canonical_transition_json r)"

definition idempotency_key_payload ::
    "ValidatedTransitionDeclaration \<Rightarrow> string \<Rightarrow> pyval \<Rightarrow> exc + pyval" where
  "idempotency_key_payload decl resource_id request_values =
     rbind (coerce_transition_value request_values (request_type (transition decl))) (\<lambda>coerced_request.
     rbind (fold_r (\<lambda>field_name acc. rbind (py_get coerced_request field_name) (\<lambda>v.
         Inr (AList.update field_name v acc))) (idempotency_fields (transition decl)) []) (\<lambda>fkv.
     Inr (PDict
        [(''transition_schema_version'', PInt (transition_schema_version decl)),
         (''transition_name'', PStr (transition_name (transition decl))),
         (''resource_id'', PStr resource_id),
         (''fields'', PDict fkv)])))"

definition derive_idempotency_key ::
    "(string \<Rightarrow> string) \<Rightarrow> ValidatedTransitionDeclaration \<Rightarrow> string \<Rightarrow> pyval \<Rightarrow> exc + string" where
  "derive_idempotency_key sha decl resource_id request_values =
     rbind (idempotency_key_payload decl resource_id request_values) (\<lambda>key_payload.
     rbind (canonical_transition_json key_payload) (\<lambda>t. Inr (''sha256:'' @ sha t)))"

section \<open>Validation of declarations\<close>

text \<open>\<open>except PureExprEvaluationError as exc: _raise(code, ...)\<close>\<close>

definition catch_pure :: "string \<Rightarrow> exc + 'a \<Rightarrow> exc + 'a" where
  "catch_pure code m = (case m of
      Inl (PureExprEvaluationError c) \<Rightarrow> Inl (TransitionContractError code) | _ \<Rightarrow> m)"

definition same_transition_json :: "pyval \<Rightarrow> pyval \<Rightarrow> exc + bool" where
  "same_transition_json a b =
     rbind (canonical_transition_json a) (\<lambda>s. rbind (canonical_transition_json b) (\<lambda>t. Inr (s = t)))"

definition validated_payload :: "string \<Rightarrow> pyval \<Rightarrow> exc + pyval" where
  "validated_payload code payload =
     catch_pure code (validate_pure_expr_payload DEFAULT_PURE_EXPR_MAX_NODES payload)"

definition validated_projection :: "pyval \<Rightarrow> pyval option \<Rightarrow> string \<Rightarrow> exc + pyval" where
  "validated_projection payload expected_type code =
     rbind (as_mapping payload) (\<lambda>_.
     rbind (validated_payload code payload) (\<lambda>_.
     rbind (case expected_type of
         None \<Rightarrow> Inr True
       | Some et \<Rightarrow> rbind (py_item payload ''result_type'') (\<lambda>rt. same_transition_json rt et)) (\<lambda>b.
     if \<not> b then Inl (TransitionContractError code) else Inr payload)))"

definition validated_precondition :: "pyval \<Rightarrow> exc + pyval" where
  "validated_precondition payload =
     rbind (as_mapping payload) (\<lambda>_.
     rbind (validated_payload ''transition_declaration_invalid'' payload) (\<lambda>_.
     rbind (py_item payload ''result_type'') (\<lambda>rt.
     rbind (same_transition_json rt bool_type) (\<lambda>b.
     if \<not> b then Inl declaration_invalid else Inr payload))))"

definition validated_binding_shape :: "pyval \<Rightarrow> pyval \<Rightarrow> pyval \<Rightarrow> exc + unit" where
  "validated_binding_shape payload st rt =
     rbind (py_get payload ''bindings'') (\<lambda>bs.
     rbind (as_mapping bs) (\<lambda>bindings.
     rbind (map_r (\<lambda>(binding_name, binding_type).
         (case map_of bindings binding_name of
            None \<Rightarrow> Inl declaration_invalid
          | Some spec \<Rightarrow>
              rbind (as_mapping spec) (\<lambda>observed.
              rbind (same_transition_json (dget observed ''type'') binding_type) (\<lambda>b.
              require b declaration_invalid))))
       [(''state'', st), (''request'', rt)]) (\<lambda>_. Inr ())))"

definition expected_update_type :: "string \<Rightarrow> pyval \<Rightarrow> exc + pyval" where
  "expected_update_type op target_type =
     (if op = ''append_item'' then
        rbind (transition_descriptor_kind target_type) (\<lambda>kind.
        if kind \<noteq> ''list'' then Inl declaration_invalid else py_item target_type ''item'')
      else Inr target_type)"

definition validated_value_update ::
    "pyval \<Rightarrow> pyval \<Rightarrow> pyval \<Rightarrow> string \<Rightarrow> string \<Rightarrow> pyval \<Rightarrow> exc + TransitionUpdate" where
  "validated_value_update value st rt op target target_type =
     rbind (as_mapping value) (\<lambda>_.
     rbind (validated_payload ''transition_declaration_invalid'' value) (\<lambda>_.
     rbind (expected_update_type op target_type) (\<lambda>expected_type.
     rbind (py_item value ''result_type'') (\<lambda>vt.
     rbind (same_transition_json vt expected_type) (\<lambda>b.
     rbind (require b declaration_invalid) (\<lambda>_.
     rbind (validated_binding_shape value st rt) (\<lambda>_.
     Inr \<lparr>update_op = op, update_target = target, update_value = Some value\<rparr>)))))))"

definition validated_update ::
    "pyval \<Rightarrow> pyval \<Rightarrow> pyval \<Rightarrow> string list \<Rightarrow> exc + TransitionUpdate" where
  "validated_update payload st rt ws =
     rbind (as_mapping payload) (\<lambda>kv.
     rbind (non_empty_string (dget kv ''op'')) (\<lambda>op.
     rbind (require (op \<in> set UPDATE_OPS) declaration_invalid) (\<lambda>_.
     rbind (non_empty_string (dget kv ''target'')) (\<lambda>target.
     rbind (record_field_types st) (\<lambda>field_types.
     (case map_of field_types (PStr target) of
        None \<Rightarrow> Inl (TransitionContractError ''transition_update_target_unknown'')
      | Some target_type \<Rightarrow>
          rbind (require (target \<in> set ws)
            (TransitionContractError ''transition_write_set_undeclared'')) (\<lambda>_.
          if op = ''clear_field'' then
            rbind (transition_descriptor_kind target_type) (\<lambda>kind.
            rbind (require (kind = ''optional'') declaration_invalid) (\<lambda>_.
            Inr \<lparr>update_op = op, update_target = target, update_value = None\<rparr>))
          else validated_value_update (dget kv ''value'') st rt op target target_type)))))))"

definition validated_names :: "pyval \<Rightarrow> (pyval \<times> pyval) list \<Rightarrow> exc \<Rightarrow> exc + string list" where
  "validated_names payload declared unknown =
     rbind (as_sequence payload) (\<lambda>xs.
     map_r (\<lambda>field_name.
       rbind (non_empty_string field_name) (\<lambda>token.
       rbind (require (PStr token \<in> fst ` set declared) unknown) (\<lambda>_. Inr token))) xs)"

definition validated_idempotency_fields :: "pyval \<Rightarrow> (pyval \<times> pyval) list \<Rightarrow> exc + string list" where
  "validated_idempotency_fields payload request_fields =
     validated_names payload request_fields declaration_invalid"

definition validated_write_set :: "pyval \<Rightarrow> pyval \<Rightarrow> exc + string list" where
  "validated_write_set payload st =
     rbind (record_field_types st) (\<lambda>state_fields.
     validated_names payload state_fields (TransitionContractError ''transition_update_target_unknown''))"

definition validated_backing :: "pydict \<Rightarrow> exc + ResourceBacking" where
  "validated_backing resource_payload =
     rbind (as_mapping (dget resource_payload ''backing'')) (\<lambda>bkv.
     rbind (non_empty_string (dget bkv ''kind'')) (\<lambda>bk.
     rbind (require (bk \<in> {''state_layout'', ''bridge''}) declaration_invalid) (\<lambda>_.
     rbind (if bk = ''bridge'' then rbind (non_empty_string (dget bkv ''path_input'')) (\<lambda>p. Inr (Some p))
            else Inr None) (\<lambda>path_input.
     Inr \<lparr>backing_kind = (if bk = ''state_layout'' then ''native'' else ''bridge''),
          backing_path_input = path_input\<rparr>))))"

definition validated_resource :: "pydict \<Rightarrow> exc + ResourceDeclaration" where
  "validated_resource kv =
     rbind (as_mapping (dget kv ''resource'')) (\<lambda>resource_payload.
     rbind (non_empty_string (dget resource_payload ''resource_kind'')) (\<lambda>rk.
     rbind (validated_type_descriptor (dget resource_payload ''state_type'')) (\<lambda>st.
     rbind (validated_backing resource_payload) (\<lambda>b.
     Inr \<lparr>resource_kind = rk, state_type = st, backing = b, version_token_type = ''String''\<rparr>))))"

definition validated_transition :: "pydict \<Rightarrow> pyval \<Rightarrow> exc + TransitionDeclaration" where
  "validated_transition kv st =
     rbind (as_mapping (dget kv ''transition'')) (\<lambda>tkv.
     rbind (validated_type_descriptor (dget tkv ''request_type'')) (\<lambda>request_ty.
     rbind (validated_type_descriptor (dget tkv ''result_type'')) (\<lambda>result_ty.
     rbind (non_empty_string (dget tkv ''name'')) (\<lambda>name.
     rbind (rbind (as_sequence (dget tkv ''preconditions'')) (map_r validated_precondition)) (\<lambda>pre.
     rbind (validated_write_set (dget tkv ''write_set'') st) (\<lambda>ws.
     rbind (record_field_types request_ty) (\<lambda>request_fields.
     rbind (validated_idempotency_fields (dget tkv ''idempotency_fields'') request_fields) (\<lambda>idem.
     rbind (rbind (as_sequence (dget tkv ''updates'')) (map_r (\<lambda>item. validated_update item st request_ty ws))) (\<lambda>ups.
     rbind (validated_projection (dget tkv ''result_projection'') (Some result_ty)
       ''transition_result_projection_type_mismatch'') (\<lambda>rp.
     rbind (validated_projection (dget tkv ''audit_projection'') None ''transition_declaration_invalid'') (\<lambda>ap.
     rbind (non_empty_string (dget tkv ''conflict_policy'')) (\<lambda>cp.
     rbind (as_mapping (dget tkv ''backend'')) (\<lambda>be.
     rbind (non_empty_string (dget be ''kind'')) (\<lambda>_.
     Inr \<lparr>transition_name = name, request_type = request_ty, result_type = result_ty,
          preconditions = pre, updates = ups, write_set = ws, idempotency_fields = idem,
          result_projection = rp, audit_projection = ap, conflict_policy = cp, backend = be\<rparr>))))))))))))))"

definition validate_transition_declaration :: "pyval \<Rightarrow> exc + ValidatedTransitionDeclaration" where
  "validate_transition_declaration payload =
     rbind (as_mapping payload) (\<lambda>kv.
     rbind (require (py_eq (dget kv ''transition_schema_version'') (PInt TRANSITION_SCHEMA_VERSION))
       declaration_invalid) (\<lambda>_.
     rbind (validated_resource kv) (\<lambda>r.
     rbind (validated_transition kv (state_type r)) (\<lambda>t.
     Inr \<lparr>transition_schema_version = TRANSITION_SCHEMA_VERSION, resource = r, transition = t\<rparr>))))"

end
