(* ===== verification/TransitionCoercion.thy ===== *)
theory TransitionCoercion
  imports TransitionContract
begin

text \<open>
  Facts on the descriptors and the coercion of the transition contract. A validated descriptor
  has well-formed parts (\<open>valid_parts\<close>), a coerced string is the string itself, and coercion
  by a validated descriptor is stable: a coerced value is a fixed point. Stability is stated as
  an interface, which pure-expression coercion satisfies too, and from it follow the facts the
  transition runtime relies on when it digests coerced requests.
\<close>

section \<open>Validated descriptors\<close>

abbreviation valid_td :: "pyval \<Rightarrow> bool" where
  "valid_td d \<equiv> validated_type_descriptor d = Inr d"

definition field_decl :: "pyval \<Rightarrow> string \<times> pyval" where
  "field_decl x = (str_of (dfield x ''name''), dfield x ''type'')"

definition valid_fields :: "pyval list \<Rightarrow> bool" where
  "valid_fields xs \<longleftrightarrow> list_all (\<lambda>x. is_mapping x \<and> nonempty_str (dfield x ''name'') \<and> valid_td (dfield x ''type'')) xs
     \<and> distinct (map (fst \<circ> field_decl) xs)"

lemma kind_of_dict [simp]:
  "dget kv ''kind'' = PStr k \<Longrightarrow> k \<noteq> [] \<Longrightarrow> transition_descriptor_kind (PDict kv) = Inr k"
  by (simp add: transition_descriptor_kind_def)

lemma descriptor_kind_Inr_iff [result_simps]:
  "transition_descriptor_kind (PDict kv) = Inr k \<longleftrightarrow> dget kv ''kind'' = PStr k \<and> k \<noteq> []"
  by (cases "dget kv ''kind''") (auto simp: transition_descriptor_kind_def)

text \<open>Validation, one equation per kind.\<close>

definition TRANSITION_KINDS :: "string list" where
  "TRANSITION_KINDS = [''primitive'', ''enum'', ''path'', ''optional'', ''list'', ''map'', ''record'',
     ''variant_case'', ''union'']"

abbreviation variant_check :: "pydict \<Rightarrow> exc + unit" where
  "variant_check item \<equiv> validated_fields validated_type_descriptor (dget item ''fields'')"

lemma validated_kind:
  assumes "dget kv ''kind'' = PStr k"
  shows "k = ''primitive'' \<Longrightarrow> validated_type_descriptor (PDict kv) =
      rbind (non_empty_string (dget kv ''name'')) (\<lambda>_. Inr (PDict kv))"
    and "k = ''enum'' \<Longrightarrow> validated_type_descriptor (PDict kv) =
      rbind (non_empty_string (dget kv ''name'')) (\<lambda>_.
      rbind (as_sequence (dget kv ''allowed'')) (\<lambda>allowed.
      if allowed = [] \<or> list_ex (\<lambda>item. \<not> nonempty_str item) allowed then Inl declaration_invalid
      else Inr (PDict kv)))"
    and "k = ''path'' \<Longrightarrow> validated_type_descriptor (PDict kv) =
      rbind (non_empty_string (dget kv ''name'')) (\<lambda>_. Inr (PDict kv))"
    and "k = ''optional'' \<Longrightarrow> validated_type_descriptor (PDict kv) =
      rbind (validated_type_descriptor (dget kv ''item'')) (\<lambda>_. Inr (PDict kv))"
    and "k = ''list'' \<Longrightarrow> validated_type_descriptor (PDict kv) =
      rbind (validated_type_descriptor (dget kv ''item'')) (\<lambda>_. Inr (PDict kv))"
    and "k = ''map'' \<Longrightarrow> validated_type_descriptor (PDict kv) =
      rbind (validated_type_descriptor (dget kv ''key'')) (\<lambda>_.
      rbind (validated_type_descriptor (dget kv ''value'')) (\<lambda>_. Inr (PDict kv)))"
    and "k = ''record'' \<Longrightarrow> validated_type_descriptor (PDict kv) =
      rbind (variant_check kv) (\<lambda>_. Inr (PDict kv))"
    and "k = ''variant_case'' \<Longrightarrow> validated_type_descriptor (PDict kv) =
      rbind (variant_check kv) (\<lambda>_. rbind (non_empty_string (dget kv ''variant'')) (\<lambda>_.
      rbind (non_empty_string (dget kv ''union_name'')) (\<lambda>_. Inr (PDict kv))))"
    and "k = ''union'' \<Longrightarrow> validated_type_descriptor (PDict kv) =
      rbind (as_sequence (dget kv ''variants'')) (\<lambda>variants.
      rbind (fold_r (\<lambda>variant seen.
          rbind (as_mapping variant) (\<lambda>item.
          rbind (non_empty_string (dget item ''name'')) (\<lambda>name.
          rbind (require (name \<notin> set seen) declaration_invalid) (\<lambda>_.
          rbind (variant_check item) (\<lambda>_. Inr (name # seen))))))
        variants []) (\<lambda>_. Inr (PDict kv)))"
    and "k \<notin> set TRANSITION_KINDS \<Longrightarrow> validated_type_descriptor (PDict kv) = Inl declaration_invalid"
  by (simp_all add: validated_type_descriptor.simps [of "PDict kv"] assms TRANSITION_KINDS_def
      transition_descriptor_kind_def)

lemma transition_kind_cases:
  assumes "k \<in> set TRANSITION_KINDS"
  obtains "k = ''primitive''" | "k = ''enum''" | "k = ''path''" | "k = ''optional''" | "k = ''list''"
    | "k = ''map''" | "k = ''record''" | "k = ''variant_case''" | "k = ''union''"
  using assms unfolding TRANSITION_KINDS_def list.set by (elim insertE emptyE)

lemma validated_kind_known:
  assumes "validated_type_descriptor d = Inr e"
  obtains kv k where "d = PDict kv" "dget kv ''kind'' = PStr k" "k \<in> set TRANSITION_KINDS"
proof -
  from assms obtain kv where d: "d = PDict kv"
    by (subst (asm) validated_type_descriptor.simps) (auto simp only: rbind_Inr_iff as_mapping_Inr)
  with assms obtain k where k: "dget kv ''kind'' = PStr k"
    by (subst (asm) validated_type_descriptor.simps)
      (auto simp only: rbind_Inr_iff as_mapping_Inr descriptor_kind_Inr_iff)
  with assms d validated_kind(10) [OF k] show thesis using that [OF d k] by fastforce
qed

lemma validated_result:
  assumes "validated_type_descriptor d = Inr e"
  shows "e = d"
proof -
  from assms obtain kv k where d: "d = PDict kv" "dget kv ''kind'' = PStr k" "k \<in> set TRANSITION_KINDS"
    by (rule validated_kind_known)
  note eqs = validated_kind [OF d(2)]
  from d(3) show ?thesis
    by (rule transition_kind_cases)
      (use assms in \<open>simp only: d(1) eqs rbind_Inr_iff; auto split: if_splits\<close>)+
qed

lemma fields_loop:
  "fold_r (\<lambda>field seen.
       rbind (as_mapping field) (\<lambda>item.
       rbind (non_empty_string (dget item ''name'')) (\<lambda>name.
       rbind (require (name \<notin> set seen) declaration_invalid) (\<lambda>_.
       rbind (check item) (\<lambda>_. Inr (name # seen)))))) xs seen = Inr seen'
   \<Longrightarrow> (\<forall>x \<in> set xs. \<exists>item. x = PDict item \<and> nonempty_str (dget item ''name'') \<and> (\<exists>y. check item = Inr y))
     \<and> distinct (map (\<lambda>x. str_of (dfield x ''name'')) xs)
     \<and> set (map (\<lambda>x. str_of (dfield x ''name'')) xs) \<inter> set seen = {}"
proof (induction xs arbitrary: seen)
  case (Cons x xs)
  from Cons.prems obtain item name y where x: "x = PDict item" "dget item ''name'' = PStr name" "name \<noteq> []"
      "name \<notin> set seen" "check item = Inr y"
    and rest: "fold_r (\<lambda>field seen.
       rbind (as_mapping field) (\<lambda>item.
       rbind (non_empty_string (dget item ''name'')) (\<lambda>name.
       rbind (require (name \<notin> set seen) declaration_invalid) (\<lambda>_.
       rbind (check item) (\<lambda>_. Inr (name # seen)))))) xs (name # seen) = Inr seen'"
    by (auto simp: result_simps)
  from Cons.IH [OF rest] x show ?case by auto
qed simp

lemma validated_fields_Inr:
  assumes "validated_fields validated_type_descriptor v = Inr u"
  obtains xs where "v = PList xs" "valid_fields xs"
proof -
  from assms obtain xs seen where v: "v = PList xs" and loop: "fold_r (\<lambda>field seen.
       rbind (as_mapping field) (\<lambda>item.
       rbind (non_empty_string (dget item ''name'')) (\<lambda>name.
       rbind (require (name \<notin> set seen) declaration_invalid) (\<lambda>_.
       rbind (validated_type_descriptor (dget item ''type'')) (\<lambda>_. Inr (name # seen)))))) xs [] = Inr seen"
    by (auto simp: validated_fields_def result_simps)
  from fields_loop [OF loop] have "valid_fields xs"
    by (fastforce simp: valid_fields_def list_all_iff field_decl_def comp_def dest: validated_result)
  with v show thesis by (rule that)
qed

lemma valid_enum:
  assumes "valid_td (PDict kv)" "dget kv ''kind'' = PStr ''enum''"
  obtains xs where "dget kv ''allowed'' = PList (map PStr xs)" "xs \<noteq> []" "[] \<notin> set xs"
proof -
  from assms obtain ys where ys: "dget kv ''allowed'' = PList ys" "ys \<noteq> []" "list_all nonempty_str ys"
    by (auto simp: validated_kind(2) [OF assms(2)] result_simps list_ex_iff list_all_iff split: if_splits)
  then have "map (PStr \<circ> str_of) ys = ys"
    by (intro map_idI) (auto simp: list_all_iff elim!: nonempty_strE)
  with ys show thesis
    by (intro that [of "map str_of ys"]) (auto simp: list_all_iff elim!: nonempty_strE)
qed

lemma valid_item:
  assumes "valid_td (PDict kv)" "dget kv ''kind'' = PStr k"
  shows "k = ''optional'' \<or> k = ''list'' \<Longrightarrow> valid_td (dget kv ''item'')"
    and "k = ''map'' \<Longrightarrow> valid_td (dget kv ''key'') \<and> valid_td (dget kv ''value'')"
    and "k = ''primitive'' \<Longrightarrow> nonempty_str (dget kv ''name'')"
  using assms(1) unfolding atomize_imp
  by (auto simp: validated_kind(1,4,5,6) [OF assms(2)] result_simps intro!: validated_result)

lemma valid_record:
  assumes "valid_td (PDict kv)" "dget kv ''kind'' = PStr k" "k = ''record'' \<or> k = ''variant_case''"
  obtains xs where "dget kv ''fields'' = PList xs" "valid_fields xs"
proof -
  from assms(3,1) have "variant_check kv = Inr ()"
    by (auto simp: validated_kind(7,8) [OF assms(2)] rbind_Inr_iff)
  then show thesis by (rule validated_fields_Inr) (rule that)
qed

lemma valid_union:
  assumes "valid_td (PDict kv)" "dget kv ''kind'' = PStr ''union''"
  obtains vs where "dget kv ''variants'' = PList vs"
    "\<And>v. v \<in> set vs \<Longrightarrow> \<exists>xs. is_mapping v \<and> nonempty_str (dfield v ''name'')
       \<and> dfield v ''fields'' = PList xs \<and> valid_fields xs"
proof -
  from assms(1) [unfolded validated_kind(9) [OF assms(2) refl] rbind_Inr_iff]
  obtain vs seen where vs: "dget kv ''variants'' = PList vs" and loop: "fold_r (\<lambda>variant seen.
       rbind (as_mapping variant) (\<lambda>item.
       rbind (non_empty_string (dget item ''name'')) (\<lambda>name.
       rbind (require (name \<notin> set seen) declaration_invalid) (\<lambda>_.
       rbind (variant_check item) (\<lambda>_. Inr (name # seen)))))) vs [] = Inr seen"
    by (auto simp: as_sequence_Inr)
  from fields_loop [OF loop] show thesis
    by (intro that [OF vs]) (fastforce elim: validated_fields_Inr)
qed

section \<open>Coercion, one equation per kind\<close>

abbreviation td_str :: "pyval \<Rightarrow> exc + pyval" where
  "td_str v \<equiv> (if \<not> is_str v then Inl declaration_invalid else Inr v)"

lemma transition_coerce_kind:
  assumes "dget kv ''kind'' = PStr k"
  shows "k = ''primitive'' \<Longrightarrow> coerce_transition_value v (PDict kv) =
      rbind (py_item (PDict kv) ''name'') (\<lambda>name.
      if hashable name then coerce_transition_primitive (str_of name) v else Inl TypeError)"
    and "k = ''enum'' \<Longrightarrow> coerce_transition_value v (PDict kv) =
      rbind (py_item (PDict kv) ''allowed'') (\<lambda>allowed. if \<not> is_str v then Inl declaration_invalid
        else rbind (py_in v allowed) (\<lambda>b. if b then Inr v else Inl declaration_invalid))"
    and "k = ''path'' \<Longrightarrow> coerce_transition_value v (PDict kv) = td_str v"
    and "k = ''optional'' \<Longrightarrow> coerce_transition_value v (PDict kv) = (if v = PNone then Inr PNone
      else rbind (py_item (PDict kv) ''item'') (\<lambda>item. coerce_transition_value v item))"
    and "k = ''list'' \<Longrightarrow> coerce_transition_value v (PDict kv) = (case v of PList xs \<Rightarrow>
        rbind (map_r (\<lambda>x. rbind (py_item (PDict kv) ''item'') (\<lambda>item. coerce_transition_value x item)) xs)
          (\<lambda>ys. Inr (PList ys))
      | _ \<Rightarrow> Inl declaration_invalid)"
    and "k = ''map'' \<Longrightarrow> coerce_transition_value v (PDict kv) = (case v of PDict vkv \<Rightarrow>
        rbind (fold_r (\<lambda>(k, x) result.
            rbind (py_item (PDict kv) ''key'') (\<lambda>kd. rbind (coerce_transition_value (PStr k) kd) (\<lambda>k'.
            rbind (py_item (PDict kv) ''value'') (\<lambda>vd. rbind (coerce_transition_value x vd) (\<lambda>y.
            Inr (AList.update (str_of k') y result))))))
          vkv []) (\<lambda>result. Inr (PDict result))
      | _ \<Rightarrow> Inl declaration_invalid)"
    and "k = ''record'' \<Longrightarrow> coerce_transition_value v (PDict kv) = (if is_mapping v then
        rbind (py_item (PDict kv) ''fields'') (coerce_transition_record coerce_transition_value v)
      else Inl declaration_invalid)"
    and "k = ''variant_case'' \<Longrightarrow> coerce_transition_value v (PDict kv) =
      rbind (py_item (PDict kv) ''fields'') (coerce_transition_record coerce_transition_value v)"
    and "k = ''union'' \<Longrightarrow> coerce_transition_value v (PDict kv) = (case v of PDict vkv \<Rightarrow>
        if \<not> is_str (dget vkv ''variant'') then Inl declaration_invalid
        else rbind (union_variant (PDict kv) (str_of (dget vkv ''variant''))) (\<lambda>variant.
          rbind (py_item variant ''fields'') (\<lambda>fds.
          rbind (coerce_variant_fields coerce_transition_value fds vkv) (\<lambda>result. Inr (PDict result))))
      | _ \<Rightarrow> Inl declaration_invalid)"
    and "k \<notin> set TRANSITION_KINDS \<Longrightarrow> coerce_transition_value v (PDict kv) = Inl declaration_invalid"
  by (simp_all add: coerce_transition_value.simps [of v "PDict kv"] assms TRANSITION_KINDS_def
      transition_descriptor_kind_def)

lemma coerce_kind_known:
  assumes "coerce_transition_value v d = Inr w"
  obtains kv k where "d = PDict kv" "dget kv ''kind'' = PStr k" "k \<in> set TRANSITION_KINDS"
proof -
  from assms obtain k0 where k0: "transition_descriptor_kind d = Inr k0"
    by (subst (asm) coerce_transition_value.simps) (auto simp only: rbind_Inr_iff)
  then obtain kv where d: "d = PDict kv"
    by (cases d) (simp_all add: transition_descriptor_kind_def py_get_def)
  with k0 have k: "dget kv ''kind'' = PStr k0" by (simp add: descriptor_kind_Inr_iff)
  with assms d transition_coerce_kind(10) [OF k] show thesis using that [OF d k] by fastforce
qed

text \<open>A string coerces to itself or not at all, so keys of coerced mappings are unchanged.\<close>

lemma coerce_str_fix: "coerce_transition_value (PStr s) d = Inr w \<Longrightarrow> w = PStr s"
proof (induction "size d" arbitrary: d rule: less_induct)
  case less
  from less.prems obtain kv k where d: "d = PDict kv" "dget kv ''kind'' = PStr k" "k \<in> set TRANSITION_KINDS"
    by (rule coerce_kind_known)
  note eqs = transition_coerce_kind [OF d(2), of "PStr s"]
  from d(3) show ?case
  proof (cases rule: transition_kind_cases)
    case 1
    with less.prems d(1) eqs(1) show ?thesis
      by (auto simp: rbind_Inr_iff coerce_transition_primitive_def split: if_splits)
  next
    case 2
    with less.prems d(1) eqs(2) show ?thesis by (auto simp: rbind_Inr_iff split: if_splits)
  next
    case 3
    with less.prems d(1) eqs(3) show ?thesis by simp
  next
    case 4
    with less.prems d(1) eqs(4) obtain item where "py_item d ''item'' = Inr item"
        "coerce_transition_value (PStr s) item = Inr w"
      by (auto simp: rbind_Inr_iff)
    with less.hyps size_py_item show ?thesis by blast
  next
    case 5
    with less.prems d(1) eqs(5) show ?thesis by simp
  next
    case 6
    with less.prems d(1) eqs(6) show ?thesis by simp
  next
    case 7
    with less.prems d(1) eqs(7) show ?thesis by simp
  next
    case 8
    with less.prems d(1) eqs(8) show ?thesis by (auto simp: rbind_Inr_iff coerce_transition_record_def)
  next
    case 9
    with less.prems d(1) eqs(9) show ?thesis by simp
  qed
qed

section \<open>Coerced records, unions and maps are fixed points\<close>

lemma valid_field_memD:
  assumes "valid_fields xs" "x \<in> set xs"
  obtains fkv n where "x = PDict fkv" "dget fkv ''name'' = PStr n" "n \<noteq> []" "valid_td (dget fkv ''type'')"
    "field_decl x = (n, dget fkv ''type'')" "py_item x ''name'' = Inr (PStr n)"
    "py_item x ''type'' = Inr (dget fkv ''type'')"
proof -
  from assms obtain fkv where x: "x = PDict fkv" "nonempty_str (dget fkv ''name'')" "valid_td (dget fkv ''type'')"
    by (auto simp: valid_fields_def list_all_iff elim!: is_mappingE)
  then obtain n where n: "dget fkv ''name'' = PStr n" "n \<noteq> []" by (auto elim: nonempty_strE)
  from x(3) have "dget fkv ''type'' \<noteq> PNone" by (auto elim: validated_kind_known)
  with x n that show thesis by (simp add: field_decl_def py_item_dget)
qed

lemma field_type_entries_valid:
  assumes "valid_fields xs"
  shows "field_type_entries (PList xs) = Inr (map (\<lambda>x. (PStr (fst (field_decl x)), snd (field_decl x))) xs)"
proof -
  let ?g = "\<lambda>x. (PStr (fst (field_decl x)), snd (field_decl x))"
  have "fold_r (\<lambda>field acc.
       rbind (py_item field ''name'') (\<lambda>n. rbind (py_item field ''type'') (\<lambda>t.
       rbind (require (hashable n) TypeError) (\<lambda>_. Inr (AList.update n t acc))))) ys (map ?g zs)
     = Inr (map ?g (zs @ ys))" if "valid_fields (zs @ ys)" for ys zs
    using that
  proof (induction ys arbitrary: zs)
    case (Cons y ys)
    obtain fkv n where y: "field_decl y = (n, dget fkv ''type'')" "py_item y ''name'' = Inr (PStr n)"
        "py_item y ''type'' = Inr (dget fkv ''type'')"
      by (rule valid_field_memD [OF Cons.prems, of y]) auto
    have "PStr n \<notin> fst ` set (map ?g zs)" using Cons.prems y(1) by (force simp: valid_fields_def)
    then have "AList.update (PStr n) (dget fkv ''type'') (map ?g zs) = map ?g (zs @ [y])"
      by (induction zs) (auto simp: y(1))
    with y Cons.IH [of "zs @ [y]"] Cons.prems show ?case by simp
  qed simp
  from this [of "[]" xs] assms show ?thesis by (simp add: field_type_entries_def)
qed

abbreviation td_field_step :: "pydict \<Rightarrow> pyval \<Rightarrow> exc + (string \<times> pyval)" where
  "td_field_step vkv \<equiv> (\<lambda>x. (case map_of vkv (fst (field_decl x)) of None \<Rightarrow> Inl declaration_invalid
      | Some v \<Rightarrow> rbind (coerce_transition_value v (snd (field_decl x))) (\<lambda>y. Inr (fst (field_decl x), y))))"

lemma map_r_map: "map_r f (map g xs) = map_r (f \<circ> g) xs"
  by (induction xs) simp_all

lemma coerce_record_valid:
  assumes "valid_fields xs"
  shows "coerce_transition_record coerce_transition_value (PDict vkv) (PList xs) =
    rbind (require (fst ` set vkv \<subseteq> fst ` field_decl ` set xs) declaration_invalid) (\<lambda>_.
    rbind (map_r (td_field_step vkv) xs) (\<lambda>r. Inr (PDict r)))"
proof -
  have "list_all (\<lambda>p. PStr (fst p) \<in> fst ` (\<lambda>x. (PStr (fst (field_decl x)), snd (field_decl x))) ` set xs) vkv
      \<longleftrightarrow> fst ` set vkv \<subseteq> fst ` field_decl ` set xs"
    by (fastforce simp: list_all_iff image_iff)
  then show ?thesis
    by (simp add: coerce_transition_record_def field_type_entries_valid [OF assms] map_r_map comp_def
        field_of_def cong: option.case_cong)
qed

lemma record_step_names: "map_r (td_field_step vkv) xs = Inr r \<Longrightarrow> map fst r = map (fst \<circ> field_decl) xs"
  by (induction xs arbitrary: r) (auto simp: rbind_Inr_iff split: option.splits)

lemma record_step_fix:
  assumes "map_r (td_field_step vkv) xs = Inr r" "distinct (map (fst \<circ> field_decl) xs)"
    and "\<And>x v w. x \<in> set xs \<Longrightarrow> coerce_transition_value v (snd (field_decl x)) = Inr w \<Longrightarrow>
      coerce_transition_value w (snd (field_decl x)) = Inr w"
  shows "map_r (td_field_step r) xs = Inr r"
  unfolding map_r_Inr_iff list_all2_conv_all_nth
proof (intro conjI allI impI)
  show len: "length xs = length r" using map_r_length [OF assms(1)] by simp
  fix i assume i: "i < length xs"
  from assms(1) i have "td_field_step vkv (xs ! i) = Inr (r ! i)"
    by (simp add: map_r_Inr_iff list_all2_conv_all_nth)
  then obtain y where y: "r ! i = (fst (field_decl (xs ! i)), y)"
      "\<exists>v. coerce_transition_value v (snd (field_decl (xs ! i))) = Inr y"
    by (cases "map_of vkv (fst (field_decl (xs ! i)))") (auto simp: rbind_Inr_iff eq_commute [of "r ! i"])
  have "distinct (map fst r)" using record_step_names [OF assms(1)] assms(2) by simp
  with y(1) i len have "map_of r (fst (field_decl (xs ! i))) = Some y" by (metis map_of_is_SomeI nth_mem)
  with y assms(3) [OF nth_mem [OF i]] show "td_field_step r (xs ! i) = Inr (r ! i)" by auto
qed

lemma record_stable:
  assumes v: "valid_fields xs"
    and IH: "\<And>x v w. x \<in> set xs \<Longrightarrow> coerce_transition_value v (snd (field_decl x)) = Inr w \<Longrightarrow>
      coerce_transition_value w (snd (field_decl x)) = Inr w"
    and co: "coerce_transition_record coerce_transition_value v (PList xs) = Inr w"
  shows "coerce_transition_record coerce_transition_value w (PList xs) = Inr w \<and> is_mapping w"
proof -
  from co obtain vkv where "v = PDict vkv" by (cases v) (auto simp: coerce_transition_record_def)
  with co obtain r where r: "map_r (td_field_step vkv) xs = Inr r" "w = PDict r"
    by (auto simp: coerce_record_valid [OF v] rbind_Inr_iff)
  have "map_r (td_field_step r) xs = Inr r"
    using record_step_fix [OF r(1)] v IH by (simp add: valid_fields_def)
  moreover have "fst ` set r \<subseteq> fst ` field_decl ` set xs"
    using record_step_names [OF r(1)] by (metis image_comp list.set_map order_refl)
  ultimately show ?thesis using r(2) by (simp add: coerce_record_valid [OF v])
qed

abbreviation variant_step :: "pyval \<Rightarrow> pydict \<Rightarrow> exc + pydict" where
  "variant_step \<equiv> (\<lambda>field variant_value.
       rbind (py_item field ''name'') (\<lambda>name.
       rbind (require (hashable name) TypeError) (\<lambda>_.
       (case field_of variant_value name of
          None \<Rightarrow> Inl declaration_invalid
        | Some x \<Rightarrow>
            rbind (py_item field ''type'') (\<lambda>ft.
            rbind (coerce_transition_value x ft) (\<lambda>y. Inr (AList.update (str_of name) y variant_value)))))))"

lemma variant_step_valid:
  assumes "valid_fields xs" "x \<in> set xs"
  shows "variant_step x vkv = (case map_of vkv (fst (field_decl x)) of None \<Rightarrow> Inl declaration_invalid
    | Some v \<Rightarrow> rbind (coerce_transition_value v (snd (field_decl x)))
        (\<lambda>y. Inr (AList.update (fst (field_decl x)) y vkv)))"
  by (rule valid_field_memD [OF assms]) (auto simp: field_of_def split: option.splits)

lemma variant_stepE:
  assumes "variant_step x vkv = Inr u" "valid_fields xs" "x \<in> set xs"
  obtains v y where "coerce_transition_value v (snd (field_decl x)) = Inr y"
    "u = AList.update (fst (field_decl x)) y vkv"
  using trans [OF variant_step_valid [OF assms(2,3), symmetric] assms(1)]
  by (auto simp: rbind_Inr_iff split: option.splits intro: that)

lemma variant_fold_frame:
  assumes "fold_r variant_step ys vkv = Inr w" "set ys \<subseteq> set xs" "valid_fields xs"
    and "n \<notin> fst ` field_decl ` set ys"
  shows "map_of w n = map_of vkv n"
  using assms
proof (induction ys arbitrary: vkv)
  case (Cons y ys)
  from Cons.prems obtain u where u: "variant_step y vkv = Inr u" "fold_r variant_step ys u = Inr w"
    by (auto simp: rbind_Inr_iff)
  have "map_of u n = map_of vkv n"
    by (rule variant_stepE [OF u(1) Cons.prems(3)]) (use Cons.prems(2,4) in \<open>auto simp: update_conv'\<close>)
  with Cons.IH [OF u(2)] Cons.prems show ?case by simp
qed simp

lemma variant_fold_values:
  assumes "fold_r variant_step ys vkv = Inr w" "set ys \<subseteq> set xs" "valid_fields xs"
    and "distinct (map (fst \<circ> field_decl) ys)" "x \<in> set ys"
  shows "\<exists>v y. coerce_transition_value v (snd (field_decl x)) = Inr y \<and> map_of w (fst (field_decl x)) = Some y"
  using assms
proof (induction ys arbitrary: vkv)
  case (Cons y ys)
  from Cons.prems obtain u where u: "variant_step y vkv = Inr u" "fold_r variant_step ys u = Inr w"
    by (auto simp: rbind_Inr_iff)
  show ?case
  proof (cases "x = y")
    case True
    obtain v z where z: "coerce_transition_value v (snd (field_decl y)) = Inr z"
        "u = AList.update (fst (field_decl y)) z vkv"
      by (rule variant_stepE [OF u(1) Cons.prems(3)]) (use Cons.prems(2) in auto)
    have "map_of w (fst (field_decl y)) = map_of u (fst (field_decl y))"
      using Cons.prems by (intro variant_fold_frame [OF u(2) _ Cons.prems(3)]) (auto simp: image_iff)
    with z True show ?thesis by (auto simp: update_conv')
  next
    case False
    with Cons.IH [OF u(2)] Cons.prems show ?thesis by simp
  qed
qed simp

lemma variant_fold_fix:
  assumes "set ys \<subseteq> set xs" "valid_fields xs"
    and "\<And>x. x \<in> set ys \<Longrightarrow> \<exists>y. map_of w (fst (field_decl x)) = Some y
      \<and> coerce_transition_value y (snd (field_decl x)) = Inr y"
  shows "fold_r variant_step ys w = Inr w"
  using assms(1,3)
proof (induction ys)
  case (Cons y ys)
  then obtain z where "map_of w (fst (field_decl y)) = Some z" "coerce_transition_value z (snd (field_decl y)) = Inr z"
    by auto
  with Cons assms(2) show ?case by (simp add: variant_step_valid [OF assms(2)] update_triv)
qed simp

lemma union_stable:
  assumes xs: "valid_fields xs" and tag: "dget vkv ''variant'' = PStr s"
    and IH: "\<And>x v w. x \<in> set xs \<Longrightarrow> coerce_transition_value v (snd (field_decl x)) = Inr w \<Longrightarrow>
      coerce_transition_value w (snd (field_decl x)) = Inr w"
    and co: "coerce_variant_fields coerce_transition_value (PList xs) vkv = Inr w"
  shows "coerce_variant_fields coerce_transition_value (PList xs) w = Inr w" "dget w ''variant'' = PStr s"
proof -
  from co have fold: "fold_r variant_step xs vkv = Inr w" by (simp add: coerce_variant_fields_def)
  have dist: "distinct (map (fst \<circ> field_decl) xs)" using xs by (simp add: valid_fields_def)
  have "fold_r variant_step xs w = Inr w"
    using variant_fold_values [OF fold order_refl xs dist] IH
    by (intro variant_fold_fix [OF order_refl xs]) blast
  then show "coerce_variant_fields coerce_transition_value (PList xs) w = Inr w"
    by (simp add: coerce_variant_fields_def)
  have "fold_r variant_step ys vkv = Inr w \<Longrightarrow> set ys \<subseteq> set xs \<Longrightarrow> dget vkv ''variant'' = PStr s \<Longrightarrow>
      dget w ''variant'' = PStr s" for ys
  proof (induction ys arbitrary: vkv)
    case (Cons y ys)
    then obtain u where u: "variant_step y vkv = Inr u" "fold_r variant_step ys u = Inr w"
      by (auto simp: rbind_Inr_iff)
    have y: "y \<in> set xs" using Cons.prems(2) by simp
    have "dget u ''variant'' = PStr s"
    proof (cases "fst (field_decl y) = ''variant''")
      case True
      from Cons.prems(3) have "map_of vkv ''variant'' = Some (PStr s)" by (rule dget_present) simp
      with True trans [OF variant_step_valid [OF xs y, symmetric] u(1)]
      show ?thesis by (auto simp: rbind_Inr_iff dget_def update_conv' dest: coerce_str_fix)
    next
      case False
      show ?thesis
        by (rule variant_stepE [OF u(1) xs y]) (use False Cons.prems(3) in \<open>auto simp: dget_def update_conv'\<close>)
    qed
    with Cons.IH [OF u(2)] Cons.prems(2) show ?case by simp
  qed simp
  from this [OF fold order_refl tag] show "dget w ''variant'' = PStr s" .
qed

abbreviation td_map_step :: "pydict \<Rightarrow> string \<times> pyval \<Rightarrow> pydict \<Rightarrow> exc + pydict" where
  "td_map_step kv \<equiv> (\<lambda>(k, x) result.
     rbind (py_item (PDict kv) ''key'') (\<lambda>kd. rbind (coerce_transition_value (PStr k) kd) (\<lambda>k'.
     rbind (py_item (PDict kv) ''value'') (\<lambda>vd. rbind (coerce_transition_value x vd) (\<lambda>y.
     Inr (AList.update (str_of k') y result))))))"

definition map_entry_ok :: "pydict \<Rightarrow> string \<times> pyval \<Rightarrow> bool" where
  "map_entry_ok kv p \<longleftrightarrow> (\<exists>kd vd. py_item (PDict kv) ''key'' = Inr kd \<and> py_item (PDict kv) ''value'' = Inr vd
     \<and> coerce_transition_value (PStr (fst p)) kd = Inr (PStr (fst p))
     \<and> coerce_transition_value (snd p) vd = Inr (snd p))"

lemma td_map_entries:
  assumes "fold_r (td_map_step kv) vkv acc = Inr r" "distinct (map fst acc)" "list_all (map_entry_ok kv) acc"
    and "\<And>v w vd. py_item (PDict kv) ''value'' = Inr vd \<Longrightarrow> coerce_transition_value v vd = Inr w \<Longrightarrow>
      coerce_transition_value w vd = Inr w"
  shows "distinct (map fst r) \<and> list_all (map_entry_ok kv) r"
  using assms(1-3)
proof (induction vkv arbitrary: acc)
  case (Cons p vkv)
  obtain k x where p: "p = (k, x)" by fastforce
  from Cons.prems(1) p obtain kd vd k' y where s: "py_item (PDict kv) ''key'' = Inr kd"
      "py_item (PDict kv) ''value'' = Inr vd" "coerce_transition_value (PStr k) kd = Inr k'"
      "coerce_transition_value x vd = Inr y"
      "fold_r (td_map_step kv) vkv (AList.update (str_of k') y acc) = Inr r"
    by (auto simp: rbind_Inr_iff)
  have k': "k' = PStr k" using coerce_str_fix [OF s(3)] .
  have "set (AList.update k y acc) \<subseteq> insert (k, y) (set acc)" by (induction acc) auto
  moreover have "map_entry_ok kv (k, y)" using s k' assms(4) [OF s(2,4)] by (auto simp: map_entry_ok_def)
  ultimately have "list_all (map_entry_ok kv) (AList.update k y acc)"
    using Cons.prems(3) by (auto simp: list_all_iff)
  with Cons.IH [OF s(5)] Cons.prems(2) k' show ?case by (simp add: distinct_update)
qed simp

lemma td_map_fix:
  assumes "distinct (map fst (acc @ r))" "list_all (map_entry_ok kv) r"
  shows "fold_r (td_map_step kv) r acc = Inr (acc @ r)"
  using assms
proof (induction r arbitrary: acc)
  case (Cons p r)
  then have "AList.update (fst p) (snd p) acc = acc @ [p]"
    by (subst update_fresh) auto
  with Cons show ?case by (cases p) (auto simp: map_entry_ok_def)
qed simp

lemma union_variant_valid:
  assumes "union_variant (PDict kv) n = Inr u" "valid_td (PDict kv)" "dget kv ''kind'' = PStr ''union''"
  obtains xs where "py_item u ''fields'' = Inr (PList xs)" "valid_fields xs" "size (PList xs) < size (PDict kv)"
proof -
  from valid_union [OF assms(2,3)] obtain vs where vs: "dget kv ''variants'' = PList vs"
    "\<And>v. v \<in> set vs \<Longrightarrow> \<exists>xs. is_mapping v \<and> nonempty_str (dfield v ''name'')
       \<and> dfield v ''fields'' = PList xs \<and> valid_fields xs" by metis
  from union_variant_mem [OF assms(1)] vs(1) have "u \<in> set vs" by auto
  from vs(2) [OF this] obtain xs ukv where u: "u = PDict ukv" "dget ukv ''fields'' = PList xs" "valid_fields xs"
    by (auto elim!: is_mappingE)
  have i: "py_item u ''fields'' = Inr (PList xs)" using u py_item_dget [of ukv "''fields''"] by simp
  with that [OF i u(3)] size_variant_part [OF assms(1) i] size_py_item [OF i] size_union_variant [OF assms(1)]
  show thesis by simp
qed

lemma transition_primitive_stable:
  "coerce_transition_primitive n v = Inr w \<Longrightarrow> coerce_transition_primitive n w = Inr w"
  unfolding coerce_transition_primitive_def
  by (auto simp: result_simps split: if_splits pyval.splits)

text \<open>One lemma per kind, relative to the stability of the parts.\<close>

definition stable_at :: "pyval \<Rightarrow> bool" where
  "stable_at d \<longleftrightarrow> (\<forall>v w. coerce_transition_value v d = Inr w \<longrightarrow> coerce_transition_value w d = Inr w)"

lemma stable_atD: "stable_at d \<Longrightarrow> coerce_transition_value v d = Inr w \<Longrightarrow> coerce_transition_value w d = Inr w"
  by (simp add: stable_at_def)

lemma valid_present: "valid_td (dget kv k) \<Longrightarrow> py_item (PDict kv) k = Inr (dget kv k)"
  by (rule py_item_dget) (auto elim: validated_kind_known)

lemma stable_scalar:
  assumes "dget kv ''kind'' = PStr k" "k = ''primitive'' \<or> k = ''enum'' \<or> k = ''path''"
  shows "stable_at (PDict kv)"
  unfolding stable_at_def
proof (intro allI impI)
  fix v w
  assume co: "coerce_transition_value v (PDict kv) = Inr w"
  note eqs = transition_coerce_kind [OF assms(1)]
  from assms(2) show "coerce_transition_value w (PDict kv) = Inr w"
  proof (elim disjE)
    assume k: "k = ''primitive''"
    with co obtain name where n: "py_item (PDict kv) ''name'' = Inr name" "hashable name"
        "coerce_transition_primitive (str_of name) v = Inr w"
      unfolding eqs(1) [OF k] by (auto simp: rbind_Inr_iff split: if_splits)
    with transition_primitive_stable [OF n(3)] show ?thesis unfolding eqs(1) [OF k] by simp
  next
    assume k: "k = ''enum''"
    with co show ?thesis unfolding eqs(2) [OF k] by (auto simp: rbind_Inr_iff split: if_splits)
  next
    assume k: "k = ''path''"
    with co show ?thesis unfolding eqs(3) [OF k] by (auto split: if_splits)
  qed
qed

lemma stable_item:
  assumes "dget kv ''kind'' = PStr k" "k = ''optional'' \<or> k = ''list''"
    and "valid_td (dget kv ''item'')" "stable_at (dget kv ''item'')"
  shows "stable_at (PDict kv)"
  unfolding stable_at_def
proof (intro allI impI)
  fix v w
  assume co: "coerce_transition_value v (PDict kv) = Inr w"
  note eqs = transition_coerce_kind [OF assms(1)] and i = valid_present [OF assms(3)]
  from assms(2) show "coerce_transition_value w (PDict kv) = Inr w"
  proof
    assume k: "k = ''optional''"
    from co stable_atD [OF assms(4)] show ?thesis unfolding eqs(4) [OF k] by (auto simp: i split: if_splits)
  next
    assume k: "k = ''list''"
    from co obtain xs ys where xs: "v = PList xs" "w = PList ys"
        "map_r (\<lambda>x. coerce_transition_value x (dget kv ''item'')) xs = Inr ys"
      unfolding eqs(5) [OF k] by (cases v) (auto simp: rbind_Inr_iff i)
    have "map_r (\<lambda>x. coerce_transition_value x (dget kv ''item'')) ys = Inr ys"
      using map_r_Inr_mem2D [OF xs(3)] stable_atD [OF assms(4)] by (intro map_r_id) fastforce
    with xs(2) show ?thesis unfolding eqs(5) [OF k] by (simp add: i)
  qed
qed

lemma stable_map:
  assumes "dget kv ''kind'' = PStr ''map''" "valid_td (dget kv ''value'')" "stable_at (dget kv ''value'')"
  shows "stable_at (PDict kv)"
  unfolding stable_at_def
proof (intro allI impI)
  fix v w
  assume co: "coerce_transition_value v (PDict kv) = Inr w"
  note eqs = transition_coerce_kind(6) [OF assms(1) refl]
  from co obtain vkv r where r: "v = PDict vkv" "fold_r (td_map_step kv) vkv [] = Inr r" "w = PDict r"
    unfolding eqs by (cases v) (auto simp: rbind_Inr_iff)
  have "coerce_transition_value w' vd = Inr w'"
    if "py_item (PDict kv) ''value'' = Inr vd" "coerce_transition_value v' vd = Inr w'" for v' w' vd
    using that valid_present [OF assms(2)] stable_atD [OF assms(3)] by simp
  from td_map_entries [OF r(2) _ _ this] td_map_fix [of "[]" r kv] r(3)
  show "coerce_transition_value w (PDict kv) = Inr w" unfolding eqs by simp
qed

lemma stable_record:
  assumes "dget kv ''kind'' = PStr k" "k = ''record'' \<or> k = ''variant_case''"
    and "dget kv ''fields'' = PList xs" "valid_fields xs" "\<And>x. x \<in> set xs \<Longrightarrow> stable_at (snd (field_decl x))"
  shows "stable_at (PDict kv)"
proof -
  have i: "py_item (PDict kv) ''fields'' = Inr (PList xs)"
    using assms(3) py_item_dget [of kv "''fields''"] by simp
  have st: "coerce_transition_record coerce_transition_value w (PList xs) = Inr w \<and> is_mapping w"
    if "coerce_transition_record coerce_transition_value v (PList xs) = Inr w" for v w
    using assms(5) by (intro record_stable [OF assms(4) _ that]) (blast intro: stable_atD)
  from assms(2) show ?thesis
    unfolding stable_at_def
    by (auto simp: transition_coerce_kind(7,8) [OF assms(1)] i dest: st split: if_splits)
qed

lemma stable_union:
  assumes "dget kv ''kind'' = PStr ''union''" "valid_td (PDict kv)"
    and IH: "\<And>xs x. valid_fields xs \<Longrightarrow> size (PList xs) < size (PDict kv) \<Longrightarrow> x \<in> set xs \<Longrightarrow>
      stable_at (snd (field_decl x))"
  shows "stable_at (PDict kv)"
  unfolding stable_at_def
proof (intro allI impI)
  fix v w
  assume co: "coerce_transition_value v (PDict kv) = Inr w"
  note eqs = transition_coerce_kind(9) [OF assms(1) refl]
  from co obtain vkv s u fds r where v: "v = PDict vkv" "dget vkv ''variant'' = PStr s"
      "union_variant (PDict kv) s = Inr u" "py_item u ''fields'' = Inr fds"
      "coerce_variant_fields coerce_transition_value fds vkv = Inr r" "w = PDict r"
    unfolding eqs by (cases v) (auto simp: rbind_Inr_iff split: if_splits elim!: is_strE)
  from union_variant_valid [OF v(3) assms(2,1)] v(4)
  obtain xs where xs: "fds = PList xs" "valid_fields xs" "size (PList xs) < size (PDict kv)"
    by (metis sum.inject(2))
  note st = union_stable [OF xs(2) v(2) stable_atD [OF IH [OF xs(2,3)]] v(5) [unfolded xs(1)]]
  then show "coerce_transition_value w (PDict kv) = Inr w" unfolding v(6) eqs by (simp add: v(3,4) xs(1))
qed

lemma valid_stable: "valid_td d \<Longrightarrow> stable_at d"
proof (induction "size d" arbitrary: d rule: less_induct)
  case less
  from less.prems obtain kv k where d: "d = PDict kv" "dget kv ''kind'' = PStr k" "k \<in> set TRANSITION_KINDS"
    by (rule validated_kind_known)
  note valid = less.prems [unfolded d(1)]
  have part: "stable_at (dget kv key)" if "valid_td (dget kv key)" for key
    using less.hyps [OF _ that] size_dget [of kv key] d(1) by simp
  have fields: "stable_at (snd (field_decl x))"
    if "valid_fields xs" "size (PList xs) < size (PDict kv)" "x \<in> set xs" for xs x
  proof (rule valid_field_memD [OF that(1,3)], rule less.hyps)
    fix fkv n
    assume "x = PDict fkv" "field_decl x = (n, dget fkv ''type'')" "valid_td (dget fkv ''type'')"
    then show "size (snd (field_decl x)) < size d" "valid_td (snd (field_decl x))"
      using size_dget [of fkv "''type''"] size_list_mem [OF that(3)] that(2) d(1) by simp_all
  qed
  have rec: "stable_at (PDict kv)" if "k = ''record'' \<or> k = ''variant_case''"
  proof -
    from valid_record [OF valid d(2) that] obtain xs where xs: "dget kv ''fields'' = PList xs" "valid_fields xs" .
    then have "size (PList xs) < size (PDict kv)" using size_dget [of kv "''fields''"] by simp
    with stable_record [OF d(2) that xs] fields [OF xs(2)] show ?thesis by blast
  qed
  from d(3) have "stable_at (PDict kv)"
  proof (cases rule: transition_kind_cases)
    case 4
    with stable_item [OF d(2)] part valid_item(1) [OF valid d(2)] show ?thesis by blast
  next
    case 5
    with stable_item [OF d(2)] part valid_item(1) [OF valid d(2)] show ?thesis by blast
  next
    case 6
    with stable_map d(2) part valid_item(2) [OF valid d(2)] show ?thesis by blast
  next
    case 9
    with stable_union [OF _ valid fields] d(2) show ?thesis by simp
  qed (simp_all add: rec stable_scalar [OF d(2)])
  then show ?case unfolding d(1) .
qed

section \<open>The interface of a stable coercion\<close>

text \<open>
  What the runtime needs when it coerces a value more than once on its way to a digest: the
  coerced value is a fixed point, so anything computed from the coercion of a raw value is the
  same when computed from the coerced value.
\<close>

locale stable_coercion =
  fixes co :: "pyval \<Rightarrow> pyval \<Rightarrow> exc + pyval" and valid :: "pyval \<Rightarrow> bool"
  assumes stable: "valid d \<Longrightarrow> co v d = Inr w \<Longrightarrow> co w d = Inr w"
begin

lemma bind_coerced:
  assumes "valid d" "co v d = Inr w"
  shows "rbind (co w d) f = rbind (co v d) f"
  using assms stable by simp

lemma coerced_iff_fixed:
  assumes "valid d"
  shows "(\<exists>v. co v d = Inr w) \<longleftrightarrow> co w d = Inr w"
  using assms stable by blast

end

interpretation transition_coercion: stable_coercion coerce_transition_value valid_td
  by unfold_locales (rule stable_atD [OF valid_stable])

interpretation pure_coercion: stable_coercion coerce_value "\<lambda>d. \<exists>t. desc_ty d t"
  by unfold_locales (auto intro: coerce_value_idem)

end
