(* ===== verification/TransitionDeclaration.thy ===== *)
theory TransitionDeclaration
  imports TransitionCoercion
begin

text \<open>
  What a validated declaration promises, and the idempotency key. The predicate \<open>decl_ok\<close>
  collects the well-formedness that \<open>validate_transition_declaration\<close> establishes and that
  the executor relies on: the types are valid descriptors, names are declared, every update
  writes a declared field of the write set with a payload of that field's type. The key
  lemmas say when two requests share an idempotency key.
\<close>

section \<open>Canonical text\<close>

interpretation transition_json: canonical_encoding canonical_transition_json
proof unfold_locales
  fix v w s s'
  assume "canonical_transition_json v = Inr s" "canonical_transition_json w = Inr s'"
  then show "s = s' \<longleftrightarrow> canon v = canon w"
    using pure_json.encode_eq_iff [of v s w s']
    by (simp add: canonical_transition_json_def canonical_json_for_pure_value_def)
qed (auto simp: canonical_transition_json_def json_dumps_def split: if_splits)

lemma same_transition_json_code [code]:
  "same_transition_json a b =
     (if all_sub finite_float a \<and> all_sub finite_float b then Inr (canon a = canon b) else Inl ValueError)"
  using transition_json.encode_eq_iff [of a _ b]
  by (auto simp: same_transition_json_def canonical_transition_json_def json_dumps_def)

lemma same_transition_json_True:
  "same_transition_json a b = Inr True \<Longrightarrow> canon a = canon b"
  using transition_json.encode_eq_iff by (auto simp: same_transition_json_def rbind_Inr_iff)

section \<open>Well-formed declarations\<close>

definition td_fields :: "pyval \<Rightarrow> (string \<times> pyval) list" where
  "td_fields d = map field_decl (seq_items (dfield d ''fields''))"

definition payload_for :: "pyval \<Rightarrow> pyval \<Rightarrow> bool" where
  "payload_for t payload \<longleftrightarrow>
     validate_pure_expr_payload DEFAULT_PURE_EXPR_MAX_NODES payload = Inr payload
     \<and> canon (dfield payload ''result_type'') = canon t"

definition binds_types :: "pyval \<Rightarrow> pyval \<Rightarrow> pyval \<Rightarrow> bool" where
  "binds_types st rt payload \<longleftrightarrow>
     (\<exists>bindings s r. dfield payload ''bindings'' = PDict bindings
        \<and> map_of bindings ''state'' = Some s \<and> canon (dfield s ''type'') = canon st
        \<and> map_of bindings ''request'' = Some r \<and> canon (dfield r ''type'') = canon rt)"

definition update_ok :: "pyval \<Rightarrow> pyval \<Rightarrow> string list \<Rightarrow> TransitionUpdate \<Rightarrow> bool" where
  "update_ok st rt ws u \<longleftrightarrow>
     (\<exists>t. map_of (td_fields st) (update_target u) = Some t \<and> update_target u \<in> set ws \<and>
       (update_op u = ''clear_field'' \<and> update_value u = None \<and> dfield t ''kind'' = PStr ''optional''
        \<or> (\<exists>payload. update_op u = ''set_field'' \<and> update_value u = Some payload \<and> payload_for t payload
             \<and> binds_types st rt payload)
        \<or> (\<exists>payload. update_op u = ''append_item'' \<and> update_value u = Some payload
             \<and> dfield t ''kind'' = PStr ''list'' \<and> payload_for (dfield t ''item'') payload
             \<and> binds_types st rt payload)))"

definition record_td :: "pyval \<Rightarrow> bool" where
  "record_td d \<longleftrightarrow> valid_td d \<and> dfield d ''kind'' = PStr ''record''"

definition decl_ok :: "ValidatedTransitionDeclaration \<Rightarrow> bool" where
  "decl_ok decl \<longleftrightarrow> (let st = state_type (resource decl); t = transition decl in
     transition_schema_version decl = TRANSITION_SCHEMA_VERSION
     \<and> (backing_kind (backing (resource decl)) = ''native'' \<and> backing_path_input (backing (resource decl)) = None
        \<or> backing_kind (backing (resource decl)) = ''bridge'' \<and> backing_path_input (backing (resource decl)) \<noteq> None)
     \<and> record_td st \<and> record_td (request_type t) \<and> valid_td (result_type t)
     \<and> set (write_set t) \<subseteq> fst ` set (td_fields st)
     \<and> set (idempotency_fields t) \<subseteq> fst ` set (td_fields (request_type t))
     \<and> list_all (payload_for bool_type) (preconditions t)
     \<and> list_all (update_ok st (request_type t) (write_set t)) (updates t)
     \<and> payload_for (result_type t) (result_projection t)
     \<and> validate_pure_expr_payload DEFAULT_PURE_EXPR_MAX_NODES (audit_projection t) = Inr (audit_projection t))"

section \<open>Validation establishes well-formedness\<close>

lemma validate_payload_result:
  assumes "validate_pure_expr_payload m p = Inr q"
  shows "q = p"
  by (rule validate_payload_parts [OF assms])
    (use assms in \<open>simp add: validate_pure_expr_payload_def rbind_Inr_iff split: if_splits; blast\<close>)

lemma catch_pure_Inr [result_simps]: "catch_pure c m = Inr x \<longleftrightarrow> m = Inr x"
  by (auto simp: catch_pure_def split: sum.splits exc.splits)

lemma validated_payload_Inr: "validated_payload c p = Inr q \<Longrightarrow>
    validate_pure_expr_payload DEFAULT_PURE_EXPR_MAX_NODES p = Inr p"
  by (auto simp: validated_payload_def result_simps dest: validate_payload_result)

lemma py_item_dfield: "py_item d k = Inr w \<Longrightarrow> dfield d k = w"
  by (cases d) (auto simp: py_item_def dfield_def split: option.splits)

lemma record_field_types_valid:
  assumes "record_field_types d = Inr fts" "valid_td d"
  shows "record_td d \<and> fts = map (\<lambda>(n, t). (PStr n, t)) (td_fields d)"
proof -
  from assms(2) obtain kv k where d: "d = PDict kv" "dget kv ''kind'' = PStr k" by (rule validated_kind_known)
  from assms(1) d have k: "k = ''record''" by (auto simp: record_field_types_def result_simps)
  from valid_record [OF assms(2) [unfolded d(1)] d(2)] k
  obtain xs where xs: "dget kv ''fields'' = PList xs" "valid_fields xs" by blast
  then have "py_item (PDict kv) ''fields'' = Inr (PList xs)" using py_item_dget [of kv "''fields''"] by simp
  with assms(1) d k xs show ?thesis using assms(2)
    by (simp add: record_field_types_def field_type_entries_valid record_td_def td_fields_def comp_def case_prod_beta)
qed

lemma map_of_names: "map_of (map (\<lambda>(n, t). (PStr n, t)) fs) (PStr n) = map_of fs n"
  by (induction fs) auto

lemma fst_names: "PStr n \<in> fst ` set (map (\<lambda>(n, t). (PStr n, t)) fs) \<longleftrightarrow> n \<in> fst ` set fs"
  by (force simp: image_iff)

lemma validated_names_Inr:
  assumes "validated_names payload (map (\<lambda>(n, t). (PStr n, t)) fs) e = Inr ns"
  shows "set ns \<subseteq> fst ` set fs"
proof
  fix n assume n: "n \<in> set ns"
  from assms obtain xs where "map_r (\<lambda>field_name.
       rbind (non_empty_string field_name) (\<lambda>token.
       rbind (require (PStr token \<in> fst ` set (map (\<lambda>(n, t). (PStr n, t)) fs)) e) (\<lambda>_. Inr token))) xs = Inr ns"
    unfolding validated_names_def by (auto simp only: rbind_Inr_iff)
  from map_r_Inr_mem2D [OF this n] show "n \<in> fst ` set fs"
    unfolding fst_names by (auto simp: rbind_Inr_iff require_iff)
qed

lemma validated_projection_Inr:
  assumes "validated_projection payload et c = Inr p"
  shows "p = payload" "validate_pure_expr_payload DEFAULT_PURE_EXPR_MAX_NODES payload = Inr payload"
    "et = Some t \<Longrightarrow> payload_for t payload"
  using assms
  by (auto simp: validated_projection_def rbind_Inr_iff payload_for_def
      dest!: validated_payload_Inr same_transition_json_True py_item_dfield split: if_splits option.splits)

lemma validated_precondition_Inr:
  "validated_precondition payload = Inr p \<Longrightarrow> payload_for bool_type p"
  by (auto simp: validated_precondition_def rbind_Inr_iff payload_for_def
      dest!: validated_payload_Inr same_transition_json_True py_item_dfield split: if_splits)

lemma validated_binding_shape_Inr:
  "validated_binding_shape payload st rt = Inr u \<Longrightarrow> binds_types st rt payload"
  by (cases payload) (auto simp: validated_binding_shape_def rbind_Inr_iff as_mapping_Inr require_iff
      binds_types_def py_get_def dest!: same_transition_json_True split: option.splits)

lemma valid_type_of:
  assumes "valid_td d" "map_of (td_fields d) n = Some t" "record_td d"
  shows "valid_td t"
proof -
  from assms(1) obtain kv k where d: "d = PDict kv" "dget kv ''kind'' = PStr k" by (rule validated_kind_known)
  with assms(3) valid_record [OF assms(1) [unfolded d(1)] d(2)]
  obtain xs where xs: "dget kv ''fields'' = PList xs" "valid_fields xs" by (auto simp: record_td_def)
  from map_of_SomeD [OF assms(2)] d(1) xs(1) obtain x where x: "x \<in> set xs" "field_decl x = (n, t)"
    by (auto simp: td_fields_def)
  show ?thesis by (rule valid_field_memD [OF xs(2) x(1)]) (use x(2) in simp)
qed

lemma validated_value_update_Inr:
  assumes "validated_value_update value st rt op target t = Inr u"
  obtains et where "expected_update_type op t = Inr et" "payload_for et value" "binds_types st rt value"
    "u = \<lparr>update_op = op, update_target = target, update_value = Some value\<rparr>"
  using assms
  by (auto simp: validated_value_update_def rbind_Inr_iff require_iff payload_for_def
      dest!: validated_payload_Inr py_item_dfield same_transition_json_True validated_binding_shape_Inr)

lemma validated_update_Inr:
  assumes u: "validated_update payload st rt ws = Inr u" and st: "valid_td st"
  shows "update_ok st rt ws u"
proof -
  from u obtain kv op target fts t where p: "op \<in> set UPDATE_OPS" "record_field_types st = Inr fts"
      "map_of fts (PStr target) = Some t" "target \<in> set ws"
    and body: "(if op = ''clear_field'' then
            rbind (transition_descriptor_kind t) (\<lambda>kind.
            rbind (require (kind = ''optional'') declaration_invalid) (\<lambda>_.
            Inr \<lparr>update_op = op, update_target = target, update_value = None\<rparr>))
          else validated_value_update (dget kv ''value'') st rt op target t) = Inr u"
    unfolding validated_update_def by (auto simp only: rbind_Inr_iff require_iff option_case_Inr)
  from record_field_types_valid [OF p(2) st] p(3)
  have t: "map_of (td_fields st) target = Some t" and rec: "record_td st" by (simp_all add: map_of_names)
  from valid_type_of [OF st t rec] obtain tkv tk where tk: "t = PDict tkv" "dget tkv ''kind'' = PStr tk"
    by (rule validated_kind_known)
  from p(1) consider "op = ''clear_field''" | "op = ''set_field''" | "op = ''append_item''"
    by (auto simp: UPDATE_OPS_def)
  then show ?thesis
  proof cases
    case 1
    with body t p(4) tk show ?thesis
      by (auto simp: rbind_Inr_iff require_iff update_ok_def descriptor_kind_Inr_iff)
  next
    case 2
    with body have "validated_value_update (dget kv ''value'') st rt op target t = Inr u" by simp
    then show ?thesis
      by (rule validated_value_update_Inr) (use 2 t p(4) in \<open>auto simp: expected_update_type_def update_ok_def\<close>)
  next
    case 3
    with body have "validated_value_update (dget kv ''value'') st rt op target t = Inr u" by simp
    then show ?thesis
      by (rule validated_value_update_Inr)
        (use 3 t p(4) tk in \<open>auto simp: expected_update_type_def update_ok_def rbind_Inr_iff
          descriptor_kind_Inr_iff dest!: py_item_dfield split: if_splits\<close>)
  qed
qed

lemma validated_valid: "validated_type_descriptor d = Inr e \<Longrightarrow> valid_td e"
  by (frule validated_result) simp

lemma validated_backing_Inr:
  assumes "validated_backing rkv = Inr b"
  shows "backing_kind b = ''native'' \<and> backing_path_input b = None
       \<or> backing_kind b = ''bridge'' \<and> backing_path_input b \<noteq> None"
  using assms by (auto simp: validated_backing_def rbind_Inr_iff require_iff split: if_splits)

lemma validated_resource_Inr:
  assumes "validated_resource kv = Inr r"
  shows "valid_td (state_type r)"
    "backing_kind (backing r) = ''native'' \<and> backing_path_input (backing r) = None
       \<or> backing_kind (backing r) = ''bridge'' \<and> backing_path_input (backing r) \<noteq> None"
  using assms
  by (auto simp: validated_resource_def rbind_Inr_iff dest: validated_valid dest!: validated_backing_Inr)

lemma validated_transition_Inr:
  assumes "validated_transition kv st = Inr t" and st: "valid_td st"
  shows "record_td st \<and> record_td (request_type t) \<and> valid_td (result_type t)
     \<and> set (write_set t) \<subseteq> fst ` set (td_fields st)
     \<and> set (idempotency_fields t) \<subseteq> fst ` set (td_fields (request_type t))
     \<and> list_all (payload_for bool_type) (preconditions t)
     \<and> list_all (update_ok st (request_type t) (write_set t)) (updates t)
     \<and> payload_for (result_type t) (result_projection t)
     \<and> validate_pure_expr_payload DEFAULT_PURE_EXPR_MAX_NODES (audit_projection t) = Inr (audit_projection t)"
proof -
  from assms(1) obtain tkv pre ws rf idem ups rp ap name cp be where
    types: "validated_type_descriptor (dget tkv ''request_type'') = Inr (request_type t)"
      "validated_type_descriptor (dget tkv ''result_type'') = Inr (result_type t)" and
    seqs: "map_r validated_precondition pre = Inr (preconditions t)"
      "map_r (\<lambda>item. validated_update item st (request_type t) (write_set t)) ups = Inr (updates t)" and
    names: "validated_write_set ws st = Inr (write_set t)" "record_field_types (request_type t) = Inr rf"
      "validated_idempotency_fields idem rf = Inr (idempotency_fields t)" and
    proj: "validated_projection rp (Some (result_type t)) ''transition_result_projection_type_mismatch'' = Inr (result_projection t)"
      "validated_projection ap None ''transition_declaration_invalid'' = Inr (audit_projection t)"
    unfolding validated_transition_def by (auto simp: rbind_Inr_iff)
  note req = validated_result [OF types(1)] and res = validated_result [OF types(2)]
  have rec: "record_td (request_type t)" and rf: "rf = map (\<lambda>(n, t). (PStr n, t)) (td_fields (request_type t))"
    using record_field_types_valid [OF names(2)] types(1) req by simp_all
  from names(1) obtain sf where sf: "record_field_types st = Inr sf"
      "validated_names ws sf (TransitionContractError ''transition_update_target_unknown'') = Inr (write_set t)"
    unfolding validated_write_set_def by (auto simp only: rbind_Inr_iff)
  note sf_eq = record_field_types_valid [OF sf(1) st]
  have "set (write_set t) \<subseteq> fst ` set (td_fields st)"
    using validated_names_Inr [OF sf(2) [unfolded sf_eq [THEN conjunct2]]] .
  moreover have "set (idempotency_fields t) \<subseteq> fst ` set (td_fields (request_type t))"
    using validated_names_Inr [OF names(3) [unfolded validated_idempotency_fields_def rf]] .
  moreover have "list_all (payload_for bool_type) (preconditions t)"
    using map_r_Inr_mem2D [OF seqs(1)] validated_precondition_Inr by (fastforce simp: list_all_iff)
  moreover have "list_all (update_ok st (request_type t) (write_set t)) (updates t)"
    using map_r_Inr_mem2D [OF seqs(2)] validated_update_Inr [OF _ st] by (fastforce simp: list_all_iff)
  ultimately show ?thesis
    using rec sf_eq res types(2) validated_projection_Inr [OF proj(1)] validated_projection_Inr [OF proj(2)] by auto
qed

lemma validated_declaration_ok:
  assumes "validate_transition_declaration payload = Inr decl"
  shows "decl_ok decl"
proof -
  from assms obtain kv r t where "validated_resource kv = Inr r" "validated_transition kv (state_type r) = Inr t"
      "decl = \<lparr>transition_schema_version = TRANSITION_SCHEMA_VERSION, resource = r, transition = t\<rparr>"
    by (auto simp: validate_transition_declaration_def rbind_Inr_iff)
  with validated_resource_Inr [of kv r] validated_transition_Inr [of kv "state_type r" t]
  show ?thesis by (simp add: decl_ok_def Let_def)
qed

section \<open>Idempotency keys\<close>

lemma key_fields_fold:
  "fold_r (\<lambda>n acc. Inr (AList.update n (dget kv n) acc)) ns acc
     = Inr (fold (\<lambda>n acc. AList.update n (dget kv n) acc) ns acc)"
  by (induction ns arbitrary: acc) simp_all

lemma fold_update_keys:
  "fst ` set (fold (\<lambda>n acc. AList.update n (dget kv n) acc) ns acc) = set ns \<union> fst ` set acc"
  by (induction ns arbitrary: acc) (auto simp: dom_update)

lemma fold_update_get:
  "n \<in> set ns \<Longrightarrow> dget (fold (\<lambda>n acc. AList.update n (dget kv n) acc) ns acc) n = dget kv n"
proof (induction ns arbitrary: acc rule: rev_induct)
  case (snoc m ns)
  then show ?case by (cases "n = m") (auto simp: dget_def update_conv')
qed simp

lemma canon_dict_keys: "canon (PDict kv) = canon (PDict kw) \<Longrightarrow> fst ` set kv = fst ` set kw"
proof -
  assume "canon (PDict kv) = canon (PDict kw)"
  then have "set (map fst (sort_key fst (map (\<lambda>(k, v). (k, canon v)) kv)))
      = set (map fst (sort_key fst (map (\<lambda>(k, v). (k, canon v)) kw)))" by simp
  then show ?thesis by (simp add: image_comp comp_def case_prod_beta)
qed

lemma record_coerced_dict:
  assumes "record_td d" "coerce_transition_value v d = Inr w"
  obtains kv where "w = PDict kv"
proof -
  from assms(1) obtain dkv k where d: "d = PDict dkv" "dget dkv ''kind'' = PStr k"
    unfolding record_td_def by (blast elim: validated_kind_known)
  with assms(1) have "k = ''record''" by (simp add: record_td_def)
  with assms(2) d transition_coerce_kind(7) [OF d(2)] obtain fds where
    "coerce_transition_record coerce_transition_value v fds = Inr w" by (auto simp: rbind_Inr_iff split: if_splits)
  with that show thesis by (auto simp: coerce_transition_record_def rbind_Inr_iff split: pyval.splits)
qed

lemma key_payload_shape:
  assumes "decl_ok d" "idempotency_key_payload d r q = Inr a"
  obtains kv where "coerce_transition_value q (request_type (transition d)) = Inr (PDict kv)"
    "a = PDict [(''transition_schema_version'', PInt (transition_schema_version d)),
         (''transition_name'', PStr (transition_name (transition d))), (''resource_id'', PStr r),
         (''fields'', PDict (fold (\<lambda>n acc. AList.update n (dget kv n) acc) (idempotency_fields (transition d)) []))]"
proof -
  from assms(2) obtain w where w: "coerce_transition_value q (request_type (transition d)) = Inr w"
    by (auto simp: idempotency_key_payload_def rbind_Inr_iff)
  moreover have "record_td (request_type (transition d))" using assms(1) by (simp add: decl_ok_def Let_def)
  ultimately obtain kv where "w = PDict kv" by (metis record_coerced_dict)
  with w assms(2) that show thesis by (simp add: idempotency_key_payload_def key_fields_fold)
qed

lemma key_payload_canon:
  assumes "validate_transition_declaration p = Inr d" "validate_transition_declaration p' = Inr d'"
    and "idempotency_key_payload d r q = Inr a" "idempotency_key_payload d' r' q' = Inr b" "canon a = canon b"
  shows "\<exists>kv kv'. coerce_transition_value q (request_type (transition d)) = Inr (PDict kv)
      \<and> coerce_transition_value q' (request_type (transition d')) = Inr (PDict kv')
      \<and> transition_name (transition d) = transition_name (transition d') \<and> r = r'
      \<and> set (idempotency_fields (transition d)) = set (idempotency_fields (transition d'))
      \<and> (\<forall>f \<in> set (idempotency_fields (transition d)). canon (dget kv f) = canon (dget kv' f))"
proof -
  obtain kv where kv: "coerce_transition_value q (request_type (transition d)) = Inr (PDict kv)"
    "a = PDict [(''transition_schema_version'', PInt (transition_schema_version d)),
         (''transition_name'', PStr (transition_name (transition d))), (''resource_id'', PStr r),
         (''fields'', PDict (fold (\<lambda>n acc. AList.update n (dget kv n) acc) (idempotency_fields (transition d)) []))]"
    by (rule key_payload_shape [OF validated_declaration_ok [OF assms(1)] assms(3)])
  obtain kv' where kv': "coerce_transition_value q' (request_type (transition d')) = Inr (PDict kv')"
    "b = PDict [(''transition_schema_version'', PInt (transition_schema_version d')),
         (''transition_name'', PStr (transition_name (transition d'))), (''resource_id'', PStr r'),
         (''fields'', PDict (fold (\<lambda>n acc. AList.update n (dget kv' n) acc) (idempotency_fields (transition d')) []))]"
    by (rule key_payload_shape [OF validated_declaration_ok [OF assms(2)] assms(4)])
  note get = canon_dget [OF assms(5) [unfolded kv(2) kv'(2)]]
  from get [of "''transition_name''"] get [of "''resource_id''"]
  have "transition_name (transition d) = transition_name (transition d')" "r = r'" by simp_all
  moreover from get [of "''fields''"]
  have f: "canon (PDict (fold (\<lambda>n acc. AList.update n (dget kv n) acc) (idempotency_fields (transition d)) []))
      = canon (PDict (fold (\<lambda>n acc. AList.update n (dget kv' n) acc) (idempotency_fields (transition d')) []))"
    by (simp del: canon.simps)
  moreover from canon_dict_keys [OF f]
  have "set (idempotency_fields (transition d)) = set (idempotency_fields (transition d'))"
    by (simp add: fold_update_keys)
  moreover have "canon (dget kv f) = canon (dget kv' f)" if "f \<in> set (idempotency_fields (transition d))" for f
    using canon_dget [OF f, of f] that calculation(4) fold_update_get [of f] by metis
  ultimately show ?thesis using kv(1) kv'(1) by blast
qed

end
