(* ===== verification/TransitionDemo.thy ===== *)
theory TransitionDemo
  imports TransitionDeclaration
begin

text \<open>
  A concrete transition declaration, used to instantiate the theorems on declarations and on
  their execution: a counter resource whose transition \<open>add\<close> requires a positive amount, adds
  it to the count, appends the request id to the history and clears a note.
\<close>

definition demo_decl_field :: "string \<Rightarrow> pyval \<Rightarrow> pyval" where
  "demo_decl_field n t = PDict [(''name'', PStr n), (''type'', t)]"

definition demo_state_type :: pyval where
  "demo_state_type = PDict [(''kind'', PStr ''record''), (''name'', PStr ''Counter''), (''fields'', PList
     [demo_decl_field ''count'' int_type, demo_decl_field ''history'' (list_of string_type),
      demo_decl_field ''note'' (optional_of string_type)])]"

definition demo_request_type :: pyval where
  "demo_request_type = PDict [(''kind'', PStr ''record''), (''name'', PStr ''Add''), (''fields'', PList
     [demo_decl_field ''id'' string_type, demo_decl_field ''amount'' int_type])]"

definition demo_access :: "string \<Rightarrow> string \<Rightarrow> pyval" where
  "demo_access b f = PDict [(''kind'', PStr ''field_access''), (''field'', PStr f), (''base'', demo_var b)]"

definition demo_expr :: "pyval \<Rightarrow> pyval \<Rightarrow> pyval" where
  "demo_expr t e = PDict [(''pure_expr_schema_version'', PInt 1), (''result_type'', t),
     (''bindings'', PDict [(''state'', PDict [(''type'', demo_state_type)]),
        (''request'', PDict [(''type'', demo_request_type)])]), (''expr'', e)]"

definition demo_update :: "string \<Rightarrow> string \<Rightarrow> pyval \<Rightarrow> pyval" where
  "demo_update opn target v = PDict [(''op'', PStr opn), (''target'', PStr target), (''value'', v)]"

definition demo_precondition :: pyval where
  "demo_precondition = demo_expr bool_type (demo_op ''>'' [demo_access ''request'' ''amount'', demo_lit 0])"

definition demo_sum :: pyval where
  "demo_sum = demo_expr int_type (demo_op ''+'' [demo_access ''state'' ''count'', demo_access ''request'' ''amount''])"

definition demo_id :: pyval where
  "demo_id = demo_expr string_type (demo_access ''request'' ''id'')"

definition demo_result :: pyval where
  "demo_result = demo_expr int_type (demo_access ''state'' ''count'')"

definition demo_audit :: pyval where
  "demo_audit = demo_expr int_type (demo_access ''request'' ''amount'')"

definition demo_transition :: pyval where
  "demo_transition = PDict [(''name'', PStr ''add''), (''request_type'', demo_request_type),
     (''result_type'', int_type),
     (''preconditions'', PList [demo_precondition]),
     (''write_set'', PList [PStr ''count'', PStr ''history'', PStr ''note'']),
     (''idempotency_fields'', PList [PStr ''id'']),
     (''updates'', PList [demo_update ''set_field'' ''count'' demo_sum,
         demo_update ''append_item'' ''history'' demo_id,
         PDict [(''op'', PStr ''clear_field''), (''target'', PStr ''note'')]]),
     (''result_projection'', demo_result), (''audit_projection'', demo_audit),
     (''conflict_policy'', PStr ''reject''),
     (''backend'', PDict [(''kind'', PStr ''runtime_native'')])]"

definition demo_declaration :: "string \<Rightarrow> pyval" where
  "demo_declaration b = PDict [(''transition_schema_version'', PInt 1),
     (''resource'', PDict [(''resource_kind'', PStr ''counter''), (''state_type'', demo_state_type),
        (''backing'', PDict [(''kind'', PStr b), (''path_input'', PStr ''state_file'')])]),
     (''transition'', demo_transition)]"

definition demo_transition_record :: TransitionDeclaration where
  "demo_transition_record = \<lparr>transition_name = ''add'', request_type = demo_request_type, result_type = int_type,
     preconditions = [demo_precondition],
     updates = [\<lparr>update_op = ''set_field'', update_target = ''count'', update_value = Some demo_sum\<rparr>,
        \<lparr>update_op = ''append_item'', update_target = ''history'', update_value = Some demo_id\<rparr>,
        \<lparr>update_op = ''clear_field'', update_target = ''note'', update_value = None\<rparr>],
     write_set = [''count'', ''history'', ''note''], idempotency_fields = [''id''],
     result_projection = demo_result, audit_projection = demo_audit, conflict_policy = ''reject'',
     backend = [(''kind'', PStr ''runtime_native'')]\<rparr>"

definition demo_native :: ValidatedTransitionDeclaration where
  "demo_native = \<lparr>transition_schema_version = 1,
     resource = \<lparr>resource_kind = ''counter'', state_type = demo_state_type,
       backing = \<lparr>backing_kind = ''native'', backing_path_input = None\<rparr>, version_token_type = ''String''\<rparr>,
     transition = demo_transition_record\<rparr>"

definition demo_bridge :: ValidatedTransitionDeclaration where
  "demo_bridge = \<lparr>transition_schema_version = 1,
     resource = \<lparr>resource_kind = ''counter'', state_type = demo_state_type,
       backing = \<lparr>backing_kind = ''bridge'', backing_path_input = Some ''state_file''\<rparr>,
       version_token_type = ''String''\<rparr>,
     transition = demo_transition_record\<rparr>"

lemma demo_declaration_valid:
  "validate_transition_declaration (demo_declaration ''state_layout'') = Inr demo_native"
  "validate_transition_declaration (demo_declaration ''bridge'') = Inr demo_bridge"
  by code_simp+

section \<open>Properties of idempotency keys\<close>

text \<open>
  C28. Equal idempotency keys mean the same transition, the same resource and the same values of
  the same idempotency fields (up to key order inside a value), unless the two key payloads are
  a collision of the hash function. The request is taken as its declared type coerces it.
\<close>

theorem idempotency_key_separates:
  assumes "validate_transition_declaration p = Inr d" "validate_transition_declaration p' = Inr d'"
    and "derive_idempotency_key sha d r q = Inr k" "derive_idempotency_key sha d' r' q' = Inr k"
  shows "(\<exists>kv kv'. coerce_transition_value q (request_type (transition d)) = Inr (PDict kv)
      \<and> coerce_transition_value q' (request_type (transition d')) = Inr (PDict kv')
      \<and> transition_name (transition d) = transition_name (transition d') \<and> r = r'
      \<and> set (idempotency_fields (transition d)) = set (idempotency_fields (transition d'))
      \<and> (\<forall>f \<in> set (idempotency_fields (transition d)). canon (dget kv f) = canon (dget kv' f)))
    \<or> (\<exists>a b s t. idempotency_key_payload d r q = Inr a \<and> idempotency_key_payload d' r' q' = Inr b
         \<and> canonical_transition_json a = Inr s \<and> canonical_transition_json b = Inr t \<and> s \<noteq> t \<and> sha s = sha t)"
proof -
  from assms obtain a b where ab: "idempotency_key_payload d r q = Inr a" "idempotency_key_payload d' r' q' = Inr b"
      "canonical_transition_digest sha a = Inr k" "canonical_transition_digest sha b = Inr k"
    by (auto simp: derive_idempotency_key_def canonical_transition_digest_def rbind_Inr_iff)
  from transition_json.digest_eq ab(3,4) have "canon a = canon b \<or>
      (\<exists>s t. s \<noteq> t \<and> canonical_transition_json a = Inr s \<and> canonical_transition_json b = Inr t \<and> sha s = sha t)"
    unfolding canonical_transition_digest_def by blast
  then show ?thesis
  proof
    assume "canon a = canon b"
    from key_payload_canon [OF assms(1,2) ab(1,2) this] show ?thesis by blast
  qed (use ab in blast)
qed

text \<open>
  The executor derives the key from the request it has already coerced; the key is the one
  of the request as it was given.
\<close>

theorem idempotency_key_of_coerced_request:
  assumes "validate_transition_declaration p = Inr decl"
    and "coerce_transition_value request (request_type (transition decl)) = Inr coerced"
  shows "derive_idempotency_key sha decl r coerced = derive_idempotency_key sha decl r request"
proof -
  have "valid_td (request_type (transition decl))"
    using validated_declaration_ok [OF assms(1)] by (simp add: decl_ok_def Let_def record_td_def)
  note eq = transition_coercion.bind_coerced [OF this assms(2)]
  show ?thesis by (simp only: derive_idempotency_key_def idempotency_key_payload_def eq)
qed

definition demo_request :: "int \<Rightarrow> pyval" where
  "demo_request n = PDict [(''amount'', PInt n), (''id'', PStr ''r1'')]"

definition demo_coerced :: "int \<Rightarrow> pyval" where
  "demo_coerced n = PDict [(''id'', PStr ''r1''), (''amount'', PInt n)]"

theorem idempotency_key_of_coerced_request_witness:
  "derive_idempotency_key rev demo_native ''counter-1'' (demo_coerced 5)
     = derive_idempotency_key rev demo_native ''counter-1'' (demo_request 5)
   \<and> demo_coerced 5 \<noteq> demo_request 5"
proof
  have "coerce_transition_value (demo_request 5) (request_type (transition demo_native)) = Inr (demo_coerced 5)"
    by code_simp
  from idempotency_key_of_coerced_request [OF demo_declaration_valid(1) this]
  show "derive_idempotency_key rev demo_native ''counter-1'' (demo_coerced 5)
     = derive_idempotency_key rev demo_native ''counter-1'' (demo_request 5)" .
qed (simp add: demo_coerced_def demo_request_def)

theorem idempotency_key_separates_witness:
  "(\<exists>kv kv'. coerce_transition_value (demo_request 5) (request_type (transition demo_native)) = Inr (PDict kv)
      \<and> coerce_transition_value (demo_request 6) (request_type (transition demo_bridge)) = Inr (PDict kv')
      \<and> transition_name (transition demo_native) = transition_name (transition demo_bridge)
      \<and> ''c'' = ''c''
      \<and> set (idempotency_fields (transition demo_native)) = set (idempotency_fields (transition demo_bridge))
      \<and> (\<forall>f \<in> set (idempotency_fields (transition demo_native)). canon (dget kv f) = canon (dget kv' f)))
    \<or> (\<exists>a b s t. idempotency_key_payload demo_native ''c'' (demo_request 5) = Inr a
         \<and> idempotency_key_payload demo_bridge ''c'' (demo_request 6) = Inr b
         \<and> canonical_transition_json a = Inr s \<and> canonical_transition_json b = Inr t \<and> s \<noteq> t \<and> rev s = rev t)"
proof -
  obtain k where "derive_idempotency_key rev demo_native ''c'' (demo_request 5) = Inr k"
      "derive_idempotency_key rev demo_bridge ''c'' (demo_request 6) = Inr k"
  proof -
    have "derive_idempotency_key rev demo_native ''c'' (demo_request 5)
        = derive_idempotency_key rev demo_bridge ''c'' (demo_request 6)"
      "\<not> isl (derive_idempotency_key rev demo_native ''c'' (demo_request 5))" by code_simp+
    with that show thesis by (cases "derive_idempotency_key rev demo_bridge ''c'' (demo_request 6)") auto
  qed
  from idempotency_key_separates [OF demo_declaration_valid this] show ?thesis .
qed

text \<open>
  Coercion by a validated descriptor is idempotent: the result is a fixed point.
\<close>

theorem coerce_transition_idempotent:
  assumes "validated_type_descriptor d = Inr d" "coerce_transition_value v d = Inr w"
  shows "coerce_transition_value w d = Inr w"
  using transition_coercion.stable assms by blast

theorem coerce_transition_idempotent_witness:
  "coerce_transition_value (demo_coerced 5) demo_request_type = Inr (demo_coerced 5)"
  by (rule coerce_transition_idempotent [where v = "demo_request 5"]) code_simp+

end
