(* ===== verification/TransitionExecutor.thy ===== *)
theory TransitionExecutor
  imports FileSystem TransitionDemo
begin

text \<open>
  Execution of transitions on file-backed resources (\<open>workflow/transition_executor.py\<close>): loading
  a resource, the audit log and its pending-replay sidecar, replay lookup and recovery, updates,
  the native and the adapter backend with the fault-injection points of the source, and the
  read-only lookups. What the runtime calls outside the repository is the record \<open>host\<close>: SHA-256
  in hexadecimal, the text of a container under \<open>str\<close>, and the adapter process, which returns an
  exit code and the files it leaves, or \<open>None\<close> when it cannot be started.
\<close>

record host =
  sha256_hex :: "string \<Rightarrow> string"
  container_str :: "pyval \<Rightarrow> string"
  run_process :: "string list \<Rightarrow> file_map \<Rightarrow> (int \<times> file_map) option"

record LoadedResourceState =
  state_value :: pydict
  version :: string
  raw_document :: pydict
  state_path :: string
  secondary_state_paths :: "string list"
  audit_path :: string
  bridge_backing :: bool

abbreviation result_invalid :: exc where
  "result_invalid \<equiv> TransitionExecutionError ''transition_backend_result_invalid''"

abbreviation append_failed :: exc where
  "append_failed \<equiv> TransitionExecutionError ''transition_audit_append_failed''"

section \<open>Small helpers\<close>

definition resource_id_of :: "pydict \<Rightarrow> exc + string" where
  "resource_id_of res = (if nonempty_str (dget res ''resource_id'') then Inr (str_of (dget res ''resource_id''))
     else Inl result_invalid)"

definition bridge_digest :: "host \<Rightarrow> string \<Rightarrow> string io" where
  "bridge_digest h p = io_bind (read_text p) (\<lambda>t. ret (''sha256:'' @ sha256_hex h t))"

text \<open>\<open>row.get(key) == s\<close>\<close>

definition field_is :: "pyval \<Rightarrow> string \<Rightarrow> string \<Rightarrow> exc + bool" where
  "field_is row k s = rbind (py_get row k) (\<lambda>v. Inr (py_eq v (PStr s)))"

fun first_row :: "(pyval \<Rightarrow> exc + bool) \<Rightarrow> pyval list \<Rightarrow> exc + pyval option" where
  "first_row test [] = Inr None"
| "first_row test (row # rows) = rbind (test row) (\<lambda>b. if b then Inr (Some row) else first_row test rows)"

definition find_committed_replay :: "pyval list \<Rightarrow> string \<Rightarrow> string \<Rightarrow> string \<Rightarrow> exc + pyval option" where
  "find_committed_replay rows name key digest =
     first_row (\<lambda>row. and_then (field_is row ''transition_name'' name)
       (and_then (field_is row ''outcome_code'' ''committed'')
       (and_then (field_is row ''idempotency_key'' key) (field_is row ''request_digest'' digest)))) (rev rows)"

definition last_committed_bridge_digest :: "pyval list \<Rightarrow> exc + string option" where
  "last_committed_bridge_digest rows =
     rbind (first_row (\<lambda>row. and_then (field_is row ''outcome_code'' ''committed'')
       (rbind (py_get row ''bridge_digest'') (\<lambda>v. Inr (is_str v)))) (rev rows)) (\<lambda>found.
     Inr (map_option (\<lambda>row. str_of (dfield row ''bridge_digest'')) found))"

definition same_field :: "pyval \<Rightarrow> pyval \<Rightarrow> string \<Rightarrow> exc + bool" where
  "same_field a b k = rbind (py_get a k) (\<lambda>x. rbind (py_get b k) (\<lambda>y. Inr (py_eq x y)))"

definition pending_row_matches_replay_row :: "pyval \<Rightarrow> pyval \<Rightarrow> exc + bool" where
  "pending_row_matches_replay_row pending_row replay_row =
     and_then (same_field pending_row replay_row ''transition_name'')
     (and_then (same_field pending_row replay_row ''idempotency_key'')
     (and_then (same_field pending_row replay_row ''request_digest'')
       (same_field pending_row replay_row ''version'')))"

section \<open>Loading a resource\<close>

definition path_list :: "pydict \<Rightarrow> exc + string list" where
  "path_list res = (case map_of res ''secondary_state_paths'' of
      None \<Rightarrow> Inr []
    | Some v \<Rightarrow> rbind (py_iter v) (map_r py_path))"

definition load_bridge_state :: "host \<Rightarrow> pydict \<Rightarrow> string \<Rightarrow> LoadedResourceState io" where
  "load_bridge_state h res ap =
     io_bind (pure (rbind (py_item (PDict res) ''bridge_path'') py_path)) (\<lambda>sp.
     io_bind (read_text sp) (\<lambda>t.
     io_bind (pure (json_loads t)) (\<lambda>raw.
     io_bind (pure (py_dict raw)) (\<lambda>kv.
     io_bind (bridge_digest h sp) (\<lambda>v.
     ret \<lparr>state_value = kv, version = v, raw_document = kv, state_path = sp, secondary_state_paths = [],
          audit_path = ap, bridge_backing = True\<rparr>)))))"

definition load_native_state :: "host \<Rightarrow> pydict \<Rightarrow> string \<Rightarrow> LoadedResourceState io" where
  "load_native_state h res ap =
     io_bind (pure (rbind (py_item (PDict res) ''state_path'') py_path)) (\<lambda>sp.
     io_bind (path_exists sp) (\<lambda>b.
     if \<not> b then
       io_bind (pure (path_list res)) (\<lambda>ps.
       ret \<lparr>state_value = [], version = ''native:0'',
            raw_document = [(''provenance'', PDict [(''source'', PStr ''runtime_native_initial_state'')])],
            state_path = sp, secondary_state_paths = ps, audit_path = ap, bridge_backing = False\<rparr>)
     else
       io_bind (read_text sp) (\<lambda>t.
       io_bind (pure (json_loads t)) (\<lambda>raw.
       io_bind (pure (rbind (py_item raw ''state'') py_dict)) (\<lambda>st.
       io_bind (pure (path_list res)) (\<lambda>ps.
       io_bind (pure (py_item raw ''state_version'')) (\<lambda>v.
       io_bind (pure (py_dict raw)) (\<lambda>kv.
       ret \<lparr>state_value = st, version = py_str (container_str h) v, raw_document = kv, state_path = sp,
            secondary_state_paths = ps, audit_path = ap, bridge_backing = False\<rparr>))))))))"

definition load_resource_state ::
    "host \<Rightarrow> ValidatedTransitionDeclaration \<Rightarrow> pydict \<Rightarrow> LoadedResourceState io" where
  "load_resource_state h decl res =
     (if \<not> py_eq (dget res ''resource_kind'') (PStr (resource_kind (resource decl))) then throw result_invalid
      else io_bind (pure (rbind (py_item (PDict res) ''audit_path'') py_path)) (\<lambda>ap.
        if backing_kind (backing (resource decl)) = ''bridge'' then load_bridge_state h res ap
        else load_native_state h res ap))"

definition load_transition_resource_state_for_kind ::
    "host \<Rightarrow> string \<Rightarrow> pydict \<Rightarrow> LoadedResourceState io" where
  "load_transition_resource_state_for_kind h kind res =
     (if \<not> py_eq (dget res ''resource_kind'') (PStr kind) then throw result_invalid
      else io_bind (pure (rbind (py_item (PDict res) ''audit_path'') py_path)) (\<lambda>ap.
        if dget res ''bridge_path'' \<noteq> PNone then load_bridge_state h res ap
        else load_native_state h res ap))"

section \<open>Audit log and pending replay\<close>

definition append_audit_row :: "string \<Rightarrow> pyval \<Rightarrow> unit io" where
  "append_audit_row ap row =
     io_bind (append_text ap []) (\<lambda>_.
     io_bind (pure (serialize_transition_audit_record row)) (\<lambda>t.
     append_text ap (t @ [LF])))"

definition read_audit_rows :: "string \<Rightarrow> pyval list io" where
  "read_audit_rows ap =
     io_bind (path_exists ap) (\<lambda>b.
     if \<not> b then ret []
     else io_bind (read_text ap) (\<lambda>t.
       pure (map_r json_loads (filter (\<lambda>line. \<not> blank_line line) (splitlines t)))))"

definition pending_replay_path :: "string \<Rightarrow> exc + string" where
  "pending_replay_path ap = with_name_suffix ap ''.pending.json''"

text \<open>\<open>atomic_write_text\<close> replaces the file by way of a temporary file with a fresh name.\<close>

definition write_pending_replay :: "string \<Rightarrow> pyval \<Rightarrow> unit io" where
  "write_pending_replay ap row =
     io_bind (pure (pending_replay_path ap)) (\<lambda>pp.
     io_bind (pure (serialize_transition_audit_record row)) (\<lambda>t.
     write_text pp (t @ [LF])))"

definition read_pending_replay :: "string \<Rightarrow> pyval option io" where
  "read_pending_replay ap =
     io_bind (pure (pending_replay_path ap)) (\<lambda>pp.
     io_bind (path_exists pp) (\<lambda>b.
     if \<not> b then ret None
     else io_bind (read_text pp) (\<lambda>t. io_bind (pure (json_loads t)) (\<lambda>v. ret (Some v)))))"

definition clear_pending_replay :: "string \<Rightarrow> unit io" where
  "clear_pending_replay ap = io_bind (pure (pending_replay_path ap)) unlink_missing_ok"

definition audit_row_base ::
    "ValidatedTransitionDeclaration \<Rightarrow> string \<Rightarrow> string \<Rightarrow> (string \<times> pyval) list" where
  "audit_row_base decl resource_id outcome_code =
     [(''transition_schema_version'', PInt TRANSITION_SCHEMA_VERSION),
      (''transition_name'', PStr (transition_name (transition decl))),
      (''resource_kind'', PStr (resource_kind (resource decl))),
      (''resource_id'', PStr resource_id),
      (''outcome_code'', PStr outcome_code)]"

definition append_outcome_audit ::
    "host \<Rightarrow> string \<Rightarrow> ValidatedTransitionDeclaration \<Rightarrow> string \<Rightarrow> pyval \<Rightarrow> string \<Rightarrow> pydict \<Rightarrow> unit io" where
  "append_outcome_audit h ap decl resource_id request outcome_code metadata =
     io_bind (pure (canonical_transition_digest (sha256_hex h) request)) (\<lambda>digest.
     append_audit_row ap (PDict (fold (\<lambda>(k, v) row. AList.update k v row) metadata
       (audit_row_base decl resource_id outcome_code @ [(''request_digest'', PStr digest)]))))"

definition append_rejection_audit ::
    "host \<Rightarrow> string \<Rightarrow> ValidatedTransitionDeclaration \<Rightarrow> string \<Rightarrow> pyval \<Rightarrow> string \<Rightarrow> pydict \<Rightarrow> unit io" where
  "append_rejection_audit = append_outcome_audit"

definition append_failed_audit ::
    "host \<Rightarrow> string \<Rightarrow> ValidatedTransitionDeclaration \<Rightarrow> string \<Rightarrow> pyval \<Rightarrow> pydict \<Rightarrow> unit io" where
  "append_failed_audit h ap decl resource_id request metadata =
     append_outcome_audit h ap decl resource_id request ''failed'' metadata"

definition recover_pending_replay ::
    "string \<Rightarrow> ValidatedTransitionDeclaration \<Rightarrow> string \<Rightarrow> LoadedResourceState \<Rightarrow> pyval \<Rightarrow> string \<Rightarrow> string
     \<Rightarrow> pyval io" where
  "recover_pending_replay ap decl resource_id rs pending_row key digest =
     io_bind (pure (field_is pending_row ''version'' (version rs))) (\<lambda>same_version.
     if \<not> same_version then throw append_failed
     else io_bind (pure (and_then (field_is pending_row ''transition_name'' (transition_name (transition decl)))
         (and_then (field_is pending_row ''resource_kind'' (resource_kind (resource decl)))
         (and_then (field_is pending_row ''resource_id'' resource_id)
         (and_then (field_is pending_row ''idempotency_key'' key)
           (field_is pending_row ''request_digest'' digest)))))) (\<lambda>same_request.
       if \<not> same_request then throw append_failed
       else io_bind (except_os (append_audit_row ap pending_row) append_failed) (\<lambda>_.
         io_bind (clear_pending_replay ap) (\<lambda>_.
         io_bind (pure (py_dict pending_row)) (\<lambda>kv. ret (PDict kv))))))"

section \<open>Updates and versions\<close>

definition apply_update :: "pydict \<Rightarrow> TransitionUpdate \<Rightarrow> pydict \<Rightarrow> exc + pydict" where
  "apply_update bindings u st =
     (if update_op u = ''clear_field'' then Inr (AList.update (update_target u) PNone st)
      else (case update_value u of
          None \<Rightarrow> Inl result_invalid
        | Some payload \<Rightarrow>
            rbind (evaluate_pure_expr DEFAULT_PURE_EXPR_MAX_NODES payload bindings) (\<lambda>v.
            if update_op u = ''set_field'' then Inr (AList.update (update_target u) v st)
            else if update_op u = ''append_item'' then
              rbind (case map_of st (update_target u) of None \<Rightarrow> Inr [] | Some x \<Rightarrow> py_iter x) (\<lambda>items.
              Inr (AList.update (update_target u) (PList (items @ [v])) st))
            else Inl result_invalid)))"

definition apply_updates :: "TransitionUpdate list \<Rightarrow> pydict \<Rightarrow> pydict \<Rightarrow> exc + pydict" where
  "apply_updates us st bindings = fold_r (apply_update bindings) us st"

text \<open>The counter of a native version \<open>native:N:...\<close>; anything else counts as zero.\<close>

definition version_counter :: "string \<Rightarrow> nat" where
  "version_counter v =
     (case strip_prefix ''native:'' v of
        None \<Rightarrow> 0
      | Some rest \<Rightarrow>
          let token = takeWhile (\<lambda>c. c \<noteq> CHR '':'') rest in
          if token \<noteq> [] \<and> list_all is_digit token then digits_val token else 0)"

definition next_version :: "host \<Rightarrow> LoadedResourceState \<Rightarrow> pydict \<Rightarrow> exc + string" where
  "next_version h rs new_state =
     rbind (canonical_transition_digest (sha256_hex h) (PDict new_state)) (\<lambda>digest.
     if bridge_backing rs then Inr digest
     else Inr (''native:'' @ nat_repr (version_counter (version rs) + 1) @ '':'' @ take 16 (drop 7 digest)))"

section \<open>Committing state\<close>

definition commit_target :: "string \<Rightarrow> string \<Rightarrow> unit io" where
  "commit_target target text =
     io_bind (pure (with_name_suffix target ''.tmp'')) (\<lambda>tmp.
     io_bind (write_text tmp text) (\<lambda>_. replace_file tmp target))"

definition fault_is :: "pydict \<Rightarrow> string \<Rightarrow> bool" where
  "fault_is env name = py_eq (dget env ''fault_injection'') (PStr name)"

fun commit_targets_from ::
    "nat \<Rightarrow> string list \<Rightarrow> string \<Rightarrow> pydict \<Rightarrow> (nat \<Rightarrow> unit io) \<Rightarrow> unit io" where
  "commit_targets_from index [] text env partial_audit = ret ()"
| "commit_targets_from index (target # targets) text env partial_audit =
     (if index > 0 \<and> fault_is env (''target_commit_'' @ nat_repr index) then
        io_bind (partial_audit index) (\<lambda>_. throw (RuntimeError (''target_commit_'' @ nat_repr index)))
      else io_bind (commit_target target text) (\<lambda>_.
        commit_targets_from (Suc index) targets text env partial_audit))"

text \<open>Before target number \<open>index\<close> exactly \<open>index\<close> targets are committed.\<close>

definition commit_targets ::
    "host \<Rightarrow> string list \<Rightarrow> string \<Rightarrow> pydict \<Rightarrow> string \<Rightarrow> ValidatedTransitionDeclaration \<Rightarrow> string \<Rightarrow> pyval
     \<Rightarrow> unit io" where
  "commit_targets h targets text env ap decl resource_id request =
     commit_targets_from 0 targets text env (\<lambda>committed_count.
       io_bind (pure (canonical_transition_digest (sha256_hex h) request)) (\<lambda>digest.
       append_audit_row ap (PDict (audit_row_base decl resource_id ''partial_failure'' @
         [(''request_digest'', PStr digest),
          (''partial_failure'', PDict [(''committed_target_count'', PInt (int committed_count))])]))))"

definition apply_runtime_native_backend ::
    "host \<Rightarrow> ValidatedTransitionDeclaration \<Rightarrow> pydict \<Rightarrow> LoadedResourceState \<Rightarrow> pyval \<Rightarrow> pydict \<Rightarrow> pydict
     \<Rightarrow> string io" where
  "apply_runtime_native_backend h decl res rs request new_state env =
     io_bind (pure (next_version h rs new_state)) (\<lambda>new_version.
     if bridge_backing rs then
       io_bind (pure (resource_id_of res)) (\<lambda>rid.
       io_bind (commit_targets h (state_path rs # secondary_state_paths rs)
         (json_dumps_indent2 (PDict (fold (\<lambda>(k, v) doc. AList.update k v doc) new_state (raw_document rs))) @ [LF])
         env (audit_path rs) decl rid request) (\<lambda>_.
       bridge_digest h (state_path rs)))
     else
       io_bind (pure (resource_id_of res)) (\<lambda>rid.
       io_bind (commit_targets h (state_path rs # secondary_state_paths rs)
         (json_dumps_indent2 (PDict
            [(''transition_schema_version'', PInt TRANSITION_SCHEMA_VERSION),
             (''resource_id'', PStr rid),
             (''resource_kind'', PStr (resource_kind (resource decl))),
             (''state_version'', PStr new_version),
             (''state'', PDict new_state),
             (''provenance'', (case map_of (raw_document rs) ''provenance'' of None \<Rightarrow> PDict [] | Some v \<Rightarrow> v))]) @ [LF])
         env (audit_path rs) decl rid request) (\<lambda>_.
       ret new_version)))"

section \<open>The adapter backend\<close>

definition adapter_request_payload ::
    "host \<Rightarrow> ValidatedTransitionDeclaration \<Rightarrow> pydict \<Rightarrow> pyval \<Rightarrow> exc + pyval" where
  "adapter_request_payload h decl res request =
     rbind (resource_id_of res) (\<lambda>rid.
     rbind (py_dict request) (\<lambda>rkv.
     let payload = fold (\<lambda>(k, v) p. AList.update k v p) rkv
           [(''transition_name'', PStr (transition_name (transition decl))), (''resource_id'', PStr rid),
            (''resource_kind'', PStr (resource_kind (resource decl))), (''request'', PDict rkv)]
     in if backing_kind (backing (resource decl)) = ''bridge'' then
          rbind (py_item (PDict res) ''bridge_path'') (\<lambda>p.
          Inr (PDict (AList.update
            (case backing_path_input (backing (resource decl)) of
               Some n \<Rightarrow> if n = [] then ''bridge_path'' else n | None \<Rightarrow> ''bridge_path'')
            (PStr (py_str (container_str h) p)) payload)))
        else rbind (py_item (PDict res) ''state_path'') (\<lambda>p.
          Inr (PDict (AList.update ''state_path'' (PStr (py_str (container_str h) p)) payload)))))"

definition declared_state_fields :: "pyval \<Rightarrow> exc + string list" where
  "declared_state_fields st =
     rbind (case st of PDict kv \<Rightarrow> (case map_of kv ''fields'' of None \<Rightarrow> Inr [] | Some v \<Rightarrow> py_iter v)
       | _ \<Rightarrow> Inl AttributeError) (\<lambda>xs.
     Inr (map (\<lambda>x. str_of (dfield x ''name'')) (filter (\<lambda>x. is_str (dfield x ''name'')) xs)))"

definition same_entry :: "pyval option \<Rightarrow> pyval option \<Rightarrow> bool" where
  "same_entry a b = (case (a, b) of (None, None) \<Rightarrow> True | (Some x, Some y) \<Rightarrow> py_eq x y | _ \<Rightarrow> False)"

definition validate_adapter_state_effects ::
    "ValidatedTransitionDeclaration \<Rightarrow> pydict \<Rightarrow> pydict \<Rightarrow> pydict \<Rightarrow> exc + unit" where
  "validate_adapter_state_effects decl before_state expected_state observed_state =
     rbind (declared_state_fields (state_type (resource decl))) (\<lambda>names.
     fold_r (\<lambda>n _.
       if n \<in> set (write_set (transition decl))
       then require (same_entry (map_of observed_state n) (map_of expected_state n)) result_invalid
       else require (same_entry (map_of observed_state n) (map_of before_state n)) result_invalid)
     names ())"

definition run_adapter :: "host \<Rightarrow> string list \<Rightarrow> int io" where
  "run_adapter h args = (\<lambda>w. (case run_process h args (files w) of
      None \<Rightarrow> (Inl OSError, w)
    | Some (code, fs) \<Rightarrow> (Inr code, w\<lparr>files := fs\<rparr>)))"

text \<open>\<open>except TransitionExecutionError: audit and re-raise\<close>\<close>

definition on_execution_error :: "exc + 'a \<Rightarrow> unit io \<Rightarrow> 'a io" where
  "on_execution_error r audit = (case r of
      Inl (TransitionExecutionError c) \<Rightarrow> io_bind audit (\<lambda>_. throw (TransitionExecutionError c))
    | _ \<Rightarrow> pure r)"

definition apply_certified_adapter_backend ::
    "host \<Rightarrow> ValidatedTransitionDeclaration \<Rightarrow> pydict \<Rightarrow> LoadedResourceState \<Rightarrow> pyval \<Rightarrow> pydict \<Rightarrow> string
     \<Rightarrow> string io" where
  "apply_certified_adapter_backend h decl res rs request new_state be =
     (case dget (backend (transition decl)) ''stable_command'' of
        PList cmd \<Rightarrow>
          if cmd = [] \<or> \<not> list_all nonempty_str cmd then throw result_invalid
          else if \<not> py_eq (dget (backend (transition decl)) ''invocation_protocol'') (PStr ''json_object_positional_arg'')
          then throw result_invalid
          else
            io_bind (pure (adapter_request_payload h decl res request)) (\<lambda>payload.
            io_bind (pure (canonical_transition_json payload)) (\<lambda>arg.
            io_bind (run_adapter h (map str_of cmd @ [arg])) (\<lambda>code.
            if code \<noteq> 0 then
              io_bind (pure (resource_id_of res)) (\<lambda>rid.
              io_bind (append_failed_audit h (audit_path rs) decl rid request
                [(''backend'', PStr be), (''returncode'', PInt code)]) (\<lambda>_.
              throw result_invalid))
            else
              io_bind (load_resource_state h decl res) (\<lambda>observed.
              io_bind (on_execution_error
                (validate_adapter_state_effects decl (state_value rs) new_state (state_value observed))
                (io_bind (pure (resource_id_of res)) (\<lambda>rid.
                 append_failed_audit h (audit_path rs) decl rid request [(''backend'', PStr be)]))) (\<lambda>_.
              ret (version observed))))))
      | _ \<Rightarrow> throw result_invalid)"

definition apply_backend ::
    "host \<Rightarrow> ValidatedTransitionDeclaration \<Rightarrow> pydict \<Rightarrow> LoadedResourceState \<Rightarrow> pyval \<Rightarrow> pydict \<Rightarrow> string \<Rightarrow> pydict
     \<Rightarrow> string io" where
  "apply_backend h decl res rs request new_state be env =
     (if be = ''runtime_native'' then apply_runtime_native_backend h decl res rs request new_state env
      else apply_certified_adapter_backend h decl res rs request new_state be)"

section \<open>Executing a transition\<close>

definition transition_result :: "pyval \<Rightarrow> pyval \<Rightarrow> bool \<Rightarrow> pyval" where
  "transition_result res v replayed =
     PDict [(''result'', res), (''version'', v), (''replayed'', PBool replayed)]"

definition replay_outcome ::
    "string \<Rightarrow> ValidatedTransitionDeclaration \<Rightarrow> string \<Rightarrow> string \<Rightarrow> string \<Rightarrow> pyval \<Rightarrow> pyval io" where
  "replay_outcome ap decl rid key digest replay_row =
     io_bind (pure (py_item replay_row ''version'')) (\<lambda>v.
     io_bind (append_audit_row ap (PDict (audit_row_base decl rid ''replayed'' @
       [(''idempotency_key'', PStr key), (''request_digest'', PStr digest), (''version'', v)]))) (\<lambda>_.
     io_bind (pure (py_item replay_row ''result'')) (\<lambda>r. ret (transition_result r v True))))"

definition check_preconditions ::
    "host \<Rightarrow> ValidatedTransitionDeclaration \<Rightarrow> LoadedResourceState \<Rightarrow> string \<Rightarrow> pyval \<Rightarrow> pyval list \<Rightarrow> unit io" where
  "check_preconditions h decl rs rid request payloads =
     foldr (\<lambda>payload rest.
       io_bind (pure (evaluate_pure_expr DEFAULT_PURE_EXPR_MAX_NODES payload
         [(''state'', PDict (state_value rs)), (''request'', request)])) (\<lambda>v.
       if \<not> py_bool v then
         io_bind (append_rejection_audit h (audit_path rs) decl rid request ''rejected_precondition'' []) (\<lambda>_.
         throw (TransitionExecutionError ''transition_precondition_failed''))
       else rest)) payloads (ret ())"

definition committed_row ::
    "ValidatedTransitionDeclaration \<Rightarrow> LoadedResourceState \<Rightarrow> string \<Rightarrow> string \<Rightarrow> string \<Rightarrow> string \<Rightarrow> pyval \<Rightarrow> pyval
     \<Rightarrow> pyval" where
  "committed_row decl rs rid key digest new_version result projection =
     PDict (audit_row_base decl rid ''committed'' @
       [(''idempotency_key'', PStr key), (''request_digest'', PStr digest), (''version'', PStr new_version),
        (''result'', result), (''projection'', projection)] @
       (if bridge_backing rs then [(''bridge_digest'', PStr new_version)] else []))"

definition record_commit :: "string \<Rightarrow> pyval \<Rightarrow> pydict \<Rightarrow> unit io" where
  "record_commit ap row env =
     io_bind (write_pending_replay ap row) (\<lambda>_.
     if fault_is env ''audit_append'' then throw append_failed
     else io_bind (except_os (append_audit_row ap row) append_failed) (\<lambda>_.
       io_bind (clear_pending_replay ap) (\<lambda>_.
       if fault_is env ''after_commit'' then throw (RuntimeError ''after_commit'') else ret ())))"

text \<open>The new state, the result and the audit projection, in the order they are computed.\<close>

definition transition_outputs ::
    "ValidatedTransitionDeclaration \<Rightarrow> pydict \<Rightarrow> pyval \<Rightarrow> exc + (pydict \<times> pyval \<times> pyval)" where
  "transition_outputs decl st request =
     rbind (apply_updates (updates (transition decl)) st [(''state'', PDict st), (''request'', request)]) (\<lambda>new_state.
     rbind (evaluate_pure_expr DEFAULT_PURE_EXPR_MAX_NODES (result_projection (transition decl))
       [(''state'', PDict new_state), (''request'', request)]) (\<lambda>v.
     rbind (coerce_transition_value v (result_type (transition decl))) (\<lambda>result.
     rbind (evaluate_pure_expr DEFAULT_PURE_EXPR_MAX_NODES (audit_projection (transition decl))
       [(''state'', PDict new_state), (''request'', request)]) (\<lambda>projection.
     Inr (new_state, result, projection)))))"

definition execute_fresh ::
    "host \<Rightarrow> ValidatedTransitionDeclaration \<Rightarrow> pydict \<Rightarrow> LoadedResourceState \<Rightarrow> pyval \<Rightarrow> string \<Rightarrow> string \<Rightarrow> string
     \<Rightarrow> string \<Rightarrow> pydict \<Rightarrow> pyval io" where
  "execute_fresh h decl res rs request rid key digest be env =
     io_bind (check_preconditions h decl rs rid request (preconditions (transition decl))) (\<lambda>_.
     if fault_is env ''before_commit'' then throw (RuntimeError ''before_commit'')
     else
       io_bind (pure (transition_outputs decl (state_value rs) request)) (\<lambda>(new_state, result, projection).
       io_bind (apply_backend h decl res rs request new_state be env) (\<lambda>new_version.
       io_bind (record_commit (audit_path rs)
         (committed_row decl rs rid key digest new_version result projection) env) (\<lambda>_.
       ret (transition_result result (PStr new_version) False)))))"

definition check_bridge_drift ::
    "host \<Rightarrow> ValidatedTransitionDeclaration \<Rightarrow> LoadedResourceState \<Rightarrow> string \<Rightarrow> pyval \<Rightarrow> pyval list \<Rightarrow> unit io" where
  "check_bridge_drift h decl rs rid request rows =
     (if \<not> bridge_backing rs then ret ()
      else io_bind (pure (last_committed_bridge_digest rows)) (\<lambda>last.
        (case last of
           None \<Rightarrow> ret ()
         | Some d \<Rightarrow>
             if d \<noteq> [] \<and> d \<noteq> version rs then
               io_bind (append_rejection_audit h (audit_path rs) decl rid request ''rejected_conflict''
                 [(''expected_bridge_digest'', PStr d), (''observed_bridge_digest'', PStr (version rs))]) (\<lambda>_.
               throw (TransitionExecutionError ''transition_conflict_detected''))
             else ret ())))"

text \<open>The pending row is dropped when the audit log already has the row it stands for.\<close>

definition settle_pending :: "string \<Rightarrow> pyval option \<Rightarrow> pyval option \<Rightarrow> pyval option io" where
  "settle_pending ap pending replay = (case (replay, pending) of
      (Some r, Some p) \<Rightarrow>
        io_bind (pure (pending_row_matches_replay_row p r)) (\<lambda>b.
        if b then io_bind (clear_pending_replay ap) (\<lambda>_. ret None) else ret pending)
    | _ \<Rightarrow> ret pending)"

definition check_version ::
    "host \<Rightarrow> ValidatedTransitionDeclaration \<Rightarrow> LoadedResourceState \<Rightarrow> string \<Rightarrow> pyval \<Rightarrow> string option \<Rightarrow> unit io" where
  "check_version h decl rs rid request expected_version = (case expected_version of
      None \<Rightarrow> ret ()
    | Some ev \<Rightarrow>
        if ev \<noteq> version rs then
          io_bind (append_rejection_audit h (audit_path rs) decl rid request ''rejected_version''
            [(''expected_version'', PStr ev), (''observed_version'', PStr (version rs))]) (\<lambda>_.
          throw (TransitionExecutionError ''transition_version_mismatch''))
        else ret ())"

text \<open>From reading the pending row on: recovery, replay or a fresh execution.\<close>

definition resolve_transition ::
    "host \<Rightarrow> ValidatedTransitionDeclaration \<Rightarrow> pydict \<Rightarrow> LoadedResourceState \<Rightarrow> pyval list \<Rightarrow> pyval \<Rightarrow> string \<Rightarrow> string
     \<Rightarrow> string \<Rightarrow> string \<Rightarrow> pydict \<Rightarrow> pyval io" where
  "resolve_transition h decl res rs rows request rid key digest be env =
     io_bind (read_pending_replay (audit_path rs)) (\<lambda>pending0.
     io_bind (pure (find_committed_replay rows (transition_name (transition decl)) key digest)) (\<lambda>replay.
     io_bind (settle_pending (audit_path rs) pending0 replay) (\<lambda>pending.
     (case pending of
        Some p \<Rightarrow>
          io_bind (recover_pending_replay (audit_path rs) decl rid rs p key digest) (\<lambda>row.
          replay_outcome (audit_path rs) decl rid key digest row)
      | None \<Rightarrow>
          io_bind (check_bridge_drift h decl rs rid request rows) (\<lambda>_.
          (case replay of
             Some row \<Rightarrow> replay_outcome (audit_path rs) decl rid key digest row
           | None \<Rightarrow> execute_fresh h decl res rs request rid key digest be env))))))"

definition execute_transition ::
    "host \<Rightarrow> ValidatedTransitionDeclaration \<Rightarrow> pydict \<Rightarrow> pyval \<Rightarrow> string option \<Rightarrow> string \<Rightarrow> pydict \<Rightarrow> pyval io" where
  "execute_transition h decl res request_values expected_version be env =
     io_bind (pure (coerce_transition_value request_values (request_type (transition decl)))) (\<lambda>request.
     io_bind (load_resource_state h decl res) (\<lambda>rs.
     io_bind (read_audit_rows (audit_path rs)) (\<lambda>rows.
     io_bind (pure (resource_id_of res)) (\<lambda>rid.
     io_bind (check_version h decl rs rid request expected_version) (\<lambda>_.
     io_bind (pure (canonical_transition_digest (sha256_hex h) request)) (\<lambda>digest.
     io_bind (pure (derive_idempotency_key (sha256_hex h) decl rid request)) (\<lambda>key.
     resolve_transition h decl res rs rows request rid key digest be env)))))))"

section \<open>Read-only lookups\<close>

definition transition_audit_row_digest :: "host \<Rightarrow> pyval \<Rightarrow> exc + string" where
  "transition_audit_row_digest h row =
     rbind (py_dict row) (\<lambda>kv. canonical_transition_digest (sha256_hex h) (PDict kv))"

definition transition_audit_file_digest :: "host \<Rightarrow> string \<Rightarrow> pyval io" where
  "transition_audit_file_digest h ap =
     io_bind (path_exists ap) (\<lambda>b.
     if \<not> b then ret PNone
     else io_bind (read_text ap) (\<lambda>t. ret (PStr (''sha256:'' @ sha256_hex h t))))"

definition replayed_row :: "string \<Rightarrow> string \<Rightarrow> string \<Rightarrow> string \<Rightarrow> pyval \<Rightarrow> exc + bool" where
  "replayed_row name rid key digest row =
     and_then (field_is row ''transition_name'' name)
     (and_then (field_is row ''resource_id'' rid)
     (and_then (field_is row ''idempotency_key'' key)
     (and_then (field_is row ''request_digest'' digest) (field_is row ''outcome_code'' ''replayed''))))"

text \<open>The index of the last row equal to the row found.\<close>

definition last_index :: "pyval \<Rightarrow> pyval list \<Rightarrow> pyval" where
  "last_index row rows =
     (case filter (\<lambda>i. py_eq (rows ! i) row) (rev [0..<length rows]) of
        [] \<Rightarrow> PNone | i # _ \<Rightarrow> PInt (int i))"

definition lookup_transition_audit_record ::
    "host \<Rightarrow> pydict \<Rightarrow> string \<Rightarrow> string \<Rightarrow> string \<Rightarrow> string \<Rightarrow> string \<Rightarrow> pyval io" where
  "lookup_transition_audit_record h res name kind rid key digest =
     io_bind (pure (rbind (py_item (PDict res) ''audit_path'') py_path)) (\<lambda>ap.
     io_bind (read_audit_rows ap) (\<lambda>rows.
     io_bind (pure (find_committed_replay rows name key digest)) (\<lambda>replay.
     io_bind (read_pending_replay ap) (\<lambda>pending.
     io_bind (pure (case replay of
         Some row \<Rightarrow> rbind (first_row (replayed_row name rid key digest) rows) (\<lambda>found.
             Inr (Some (row, found \<noteq> None, False, last_index row rows)))
       | None \<Rightarrow> (case pending of
           None \<Rightarrow> Inr None
         | Some p \<Rightarrow>
             rbind (and_then (field_is p ''transition_name'' name)
               (and_then (field_is p ''resource_kind'' kind)
               (and_then (field_is p ''resource_id'' rid)
               (and_then (field_is p ''idempotency_key'' key) (field_is p ''request_digest'' digest))))) (\<lambda>b.
             if b then rbind (py_dict p) (\<lambda>kv. Inr (Some (PDict kv, False, True, PNone))) else Inr None)))) (\<lambda>found.
     (case found of
        None \<Rightarrow> ret PNone
      | Some (row, replayed, pending_replay, row_index) \<Rightarrow>
          io_bind (transition_audit_file_digest h ap) (\<lambda>file_digest.
          io_bind (pure (transition_audit_row_digest h row)) (\<lambda>row_digest.
          ret (PDict [(''result'', dfield row ''result''), (''version'', dfield row ''version''),
            (''replayed'', PBool replayed), (''pending_replay'', PBool pending_replay),
            (''audit_path'', PStr ap), (''audit_digest'', file_digest), (''audit_row_index'', row_index),
            (''audit_row_digest'', PStr row_digest), (''outcome_code'', dfield row ''outcome_code''),
            (''idempotency_key'', PStr key), (''request_digest'', PStr digest), (''row'', row)])))))))))"

definition lookup_committed_transition_result ::
    "host \<Rightarrow> ValidatedTransitionDeclaration \<Rightarrow> pydict \<Rightarrow> pyval \<Rightarrow> pyval io" where
  "lookup_committed_transition_result h decl res request_values =
     io_bind (pure (coerce_transition_value request_values (request_type (transition decl)))) (\<lambda>request.
     io_bind (load_resource_state h decl res) (\<lambda>rs.
     io_bind (pure (resource_id_of res)) (\<lambda>rid.
     io_bind (pure (canonical_transition_digest (sha256_hex h) request)) (\<lambda>digest.
     io_bind (pure (derive_idempotency_key (sha256_hex h) decl rid request)) (\<lambda>key.
     lookup_transition_audit_record h (AList.update ''audit_path'' (PStr (audit_path rs)) res)
       (transition_name (transition decl)) (resource_kind (resource decl)) rid key digest)))))"

end
