(* ===== verification/AuditLog.thy ===== *)
theory AuditLog
  imports TransitionExecutor
begin

text \<open>
  The audit log as an append-only sequence of rows. The interface \<open>append_log\<close> says what readers
  rely on: a row appended to a readable log that ends in a line feed becomes its last row, in
  normalised form, and nothing before it changes. It is interpreted on the text the runtime
  writes and the parser it reads with; replay lookup is then a statement about row lists.
\<close>

section \<open>Text of the log\<close>

definition log_rows :: "string \<Rightarrow> exc + pyval list" where
  "log_rows t = map_r json_loads (filter (\<lambda>line. \<not> blank_line line) (splitlines t))"

definition log_entry :: "pyval \<Rightarrow> string" where
  "log_entry row = json_text (canon row) @ [LF]"

definition log_text :: "world \<Rightarrow> string \<Rightarrow> string" where
  "log_text w p = (case files w p of None \<Rightarrow> [] | Some t \<Rightarrow> t)"

definition sealed :: "string \<Rightarrow> bool" where
  "sealed t \<longleftrightarrow> t = [] \<or> last t = LF"

definition row_ok :: "pyval \<Rightarrow> bool" where
  "row_ok row \<longleftrightarrow> is_mapping row \<and> storable row \<and> line_safe row"

section \<open>The interface\<close>

locale append_log =
  fixes content :: "string \<Rightarrow> exc + pyval list" and entry :: "pyval \<Rightarrow> string"
    and good :: "pyval \<Rightarrow> bool" and norm :: "pyval \<Rightarrow> pyval" and closed :: "string \<Rightarrow> bool"
  assumes empty_log: "content [] = Inr []" "closed []"
    and extend: "closed t \<Longrightarrow> good r \<Longrightarrow> content t = Inr rows \<Longrightarrow> content (t @ entry r) = Inr (rows @ [norm r])"
    and extend_closed: "closed t \<Longrightarrow> closed (t @ entry r)"
begin

lemma extend_all:
  "closed t \<Longrightarrow> list_all good rs \<Longrightarrow> content t = Inr rows \<Longrightarrow>
     content (t @ concat (map entry rs)) = Inr (rows @ map norm rs)"
proof (induction rs arbitrary: t rows)
  case (Cons r rs)
  have "content ((t @ entry r) @ concat (map entry rs)) = Inr ((rows @ [norm r]) @ map norm rs)"
    using Cons.prems by (intro Cons.IH extend extend_closed) simp_all
  then show ?case by simp
qed simp

lemma extend_closed_all: "closed t \<Longrightarrow> closed (t @ concat (map entry rs))"
proof (induction rs arbitrary: t)
  case (Cons r rs)
  from Cons.IH [OF extend_closed [OF Cons.prems]] show ?case by simp
qed simp

text \<open>The newest row that passes a test is found from the end.\<close>

lemma newest_found:
  assumes "closed t" "good r" "content t = Inr rows" "test (norm r) = Inr True"
  shows "rbind (content (t @ entry r)) (\<lambda>rows. first_row test (rev rows)) = Inr (Some (norm r))"
  using extend [OF assms(1-3)] assms(4) by simp

end

section \<open>The log of the runtime\<close>

lemma row_text_not_blank: "\<not> blank_line (json_text (canon (PDict kv)))"
  by (subst blank_line.simps) (simp add: space_prefix_def)

lemma splitlines_entry:
  assumes "sealed t" "one_line s"
  shows "splitlines (t @ s @ [LF]) = splitlines t @ [s]"
proof -
  have s: "split_lines [] (s @ [LF]) = [s]"
    using split_lines_one [OF assms(2), of "[]" "[]"] by (simp add: split_lines.simps [of "[]" "[]"])
  show ?thesis
  proof (cases "t = []")
    case True
    then show ?thesis using s by (simp add: splitlines_def split_lines.simps [of "[]" "[]"])
  next
    case False
    with assms(1) obtain f where "t = f @ [LF]" by (metis append_butlast_last_id sealed_def)
    with split_lines_append [of "[]" f "s @ [LF]"] s show ?thesis by (simp add: splitlines_def)
  qed
qed

interpretation audit: append_log log_rows log_entry row_ok sort_val sealed
proof unfold_locales
  show "log_rows [] = Inr []" by (simp add: log_rows_def splitlines_def split_lines.simps [of "[]" "[]"])
  fix t r rows
  assume t: "sealed t" and r: "row_ok r" and rows: "log_rows t = Inr rows"
  from r obtain kv where kv: "r = PDict kv" by (auto simp: row_ok_def elim: is_mappingE)
  have lines: "splitlines (t @ log_entry r) = splitlines t @ [json_text (canon r)]"
    unfolding log_entry_def using r by (intro splitlines_entry [OF t] canonical_one_line) (simp_all add: row_ok_def)
  have "json_loads (json_text (canon r)) = Inr (sort_val r)"
    using loads_canonical [of r "[]"] r by (simp add: row_ok_def all_ws_def)
  then show "log_rows (t @ log_entry r) = Inr (rows @ [sort_val r])"
    using rows row_text_not_blank [of kv, folded kv]
    by (simp add: log_rows_def lines map_r_append)
qed (simp_all add: sealed_def log_entry_def)

section \<open>The operations on the world\<close>

definition set_file :: "string \<Rightarrow> string \<Rightarrow> world \<Rightarrow> world" where
  "set_file p t w = w\<lparr>files := (files w)(p \<mapsto> t)\<rparr>"

lemma set_file_simps [simp]:
  "files (set_file p t w) q = (if q = p then Some t else files w q)"
  "append_refused (set_file p t w) = append_refused w"
  "set_file p t (set_file p s w) = set_file p t w"
  by (simp_all add: set_file_def)

lemma log_text_set_file [simp]: "log_text (set_file p t w) q = (if q = p then t else log_text w q)"
  by (simp add: log_text_def)

lemma append_text_eq:
  "append_text p t w = (if append_refused w p then (Inl OSError, w) else (Inr (), set_file p (log_text w p @ t) w))"
  by (simp add: append_text_def set_file_def log_text_def)

lemma write_text_eq: "write_text p t w = (Inr (), set_file p t w)"
  by (simp add: write_text_def set_file_def)

lemma serialize_ok: "row_ok row \<Longrightarrow> serialize_transition_audit_record row = Inr (json_text (canon row))"
  by (simp add: row_ok_def serialize_transition_audit_record_def canonical_transition_json_def json_dumps_def
      storable_finite)

lemma append_row_ok:
  assumes "row_ok row" "\<not> append_refused w ap"
  shows "append_audit_row ap row w = (Inr (), set_file ap (log_text w ap @ log_entry row) w)"
  using assms by (simp add: append_audit_row_def io_bind_def append_text_eq serialize_ok log_entry_def)

lemma read_rows_eq: "read_audit_rows ap w = (log_rows (log_text w ap), w)"
proof (cases "files w ap")
  case None
  then show ?thesis
    using audit.empty_log by (simp add: read_audit_rows_def path_exists_def io_bind_def log_text_def)
next
  case (Some t)
  then show ?thesis
    by (simp add: read_audit_rows_def path_exists_def read_text_def io_bind_def log_text_def log_rows_def)
qed

text \<open>Appending to the log: whatever happens, earlier text stays and no other file changes.\<close>

lemma append_row_only:
  assumes "append_audit_row ap row w = (r, w')"
  shows "\<exists>t. log_text w' ap = log_text w ap @ t" "\<And>p. p \<noteq> ap \<Longrightarrow> files w' p = files w p"
    "append_refused w' = append_refused w"
  using assms
  by (auto simp: append_audit_row_def io_bind_cases append_text_eq split: if_splits)

end
