(* ===== verification/TransitionReplay.thy ===== *)
theory TransitionReplay
  imports AuditLog
begin

text \<open>
  Executions end to end. The first part describes what a commit writes and that the state
  document written is the one loaded next; the second part composes this with the audit log into
  the idempotency guarantees: a request repeated after a commit is answered from the log, and a
  commit whose audit append failed is completed by the next attempt, in both cases without
  writing the state again.
\<close>

section \<open>Committing targets\<close>

definition tmp_of :: "string \<Rightarrow> string" where
  "tmp_of p = p @ ''.tmp''"

definition named :: "string \<Rightarrow> bool" where
  "named p \<longleftrightarrow> path_parts (PurePosixPath p) \<noteq> []"

definition commit_files :: "string list \<Rightarrow> string \<Rightarrow> file_map \<Rightarrow> file_map" where
  "commit_files ts text fs = fold (\<lambda>p fs. (fs(tmp_of p := None))(p \<mapsto> text)) ts fs"

lemma commit_target_eq:
  "named p \<Longrightarrow> commit_target p text w = (Inr (), w\<lparr>files := ((files w)(tmp_of p := None))(p \<mapsto> text)\<rparr>)"
  by (simp add: commit_target_def with_name_suffix_def named_def tmp_of_def io_bind_def write_text_def
      replace_file_def)

lemma fault_free: "fault_is [] f = False"
  by (simp add: fault_is_def py_eq.simps)


lemma commit_targets_ok:
  assumes "\<And>i. \<not> fault_is env (''target_commit_'' @ nat_repr i)" "list_all named ts"
  shows "commit_targets_from i ts text env pa w = (Inr (), w\<lparr>files := commit_files ts text (files w)\<rparr>)"
  using assms(2)
proof (induction ts arbitrary: i w)
  case Nil
  then show ?case by (simp add: commit_files_def)
next
  case (Cons p ts)
  then show ?case using assms(1) by (simp add: commit_target_eq commit_files_def io_bind_def)
qed

lemma commit_files_at:
  assumes "set ts \<inter> tmp_of ` set ts = {}"
  shows "commit_files ts text fs q =
    (if q \<in> set ts then Some text else if q \<in> tmp_of ` set ts then None else fs q)"
  using assms
proof (induction ts arbitrary: fs)
  case (Cons p ts)
  then have d: "set ts \<inter> tmp_of ` set ts = {}" by auto
  have "commit_files (p # ts) text fs q = commit_files ts text ((fs(tmp_of p := None))(p \<mapsto> text)) q"
    by (simp add: commit_files_def)
  with Cons.IH [OF d] Cons.prems show ?case by auto
qed (simp add: commit_files_def)

definition state_targets :: "LoadedResourceState \<Rightarrow> string list" where
  "state_targets rs = state_path rs # secondary_state_paths rs"

definition pending_of :: "string \<Rightarrow> string" where
  "pending_of ap = ap @ ''.pending.json''"

text \<open>The files of a resource are distinct files with names.\<close>

definition paths_ok :: "LoadedResourceState \<Rightarrow> bool" where
  "paths_ok rs \<longleftrightarrow> list_all named (state_targets rs) \<and> named (audit_path rs)
     \<and> set (state_targets rs) \<inter> tmp_of ` set (state_targets rs) = {}
     \<and> audit_path rs \<notin> set (state_targets rs) \<union> tmp_of ` set (state_targets rs)
     \<and> pending_of (audit_path rs) \<notin> set (state_targets rs) \<union> tmp_of ` set (state_targets rs)"

lemma pending_path_ok: "paths_ok rs \<Longrightarrow> pending_replay_path (audit_path rs) = Inr (pending_of (audit_path rs))"
  by (simp add: paths_ok_def pending_replay_path_def with_name_suffix_def named_def pending_of_def)

lemma pending_of_neq [simp]: "pending_of ap \<noteq> ap" "ap \<noteq> pending_of ap"
  by (simp_all add: pending_of_def)

section \<open>The native document\<close>

definition native_document ::
    "ValidatedTransitionDeclaration \<Rightarrow> string \<Rightarrow> string \<Rightarrow> pydict \<Rightarrow> pyval \<Rightarrow> pyval" where
  "native_document decl rid v new_state provenance = PDict
     [(''transition_schema_version'', PInt TRANSITION_SCHEMA_VERSION), (''resource_id'', PStr rid),
      (''resource_kind'', PStr (resource_kind (resource decl))), (''state_version'', PStr v),
      (''state'', PDict new_state), (''provenance'', provenance)]"

definition provenance_of :: "LoadedResourceState \<Rightarrow> pyval" where
  "provenance_of rs = (case map_of (raw_document rs) ''provenance'' of None \<Rightarrow> PDict [] | Some v \<Rightarrow> v)"

lemma dumps_loads: "json_value v \<Longrightarrow> json_loads (json_dumps_indent2 v @ [LF]) = Inr v"
  using indented.loads_text [of v "[LF]" 0]
  by (simp add: json_dumps_indent2_def json_str_escaped all_ws_def ws_char_def LF_def)

text \<open>What is committed is what is loaded next.\<close>

lemma load_native_document:
  assumes kind: "py_eq (dget res ''resource_kind'') (PStr (resource_kind (resource decl)))"
    and native: "backing_kind (backing (resource decl)) \<noteq> ''bridge''"
    and paths: "rbind (py_item (PDict res) ''audit_path'') py_path = Inr ap"
      "rbind (py_item (PDict res) ''state_path'') py_path = Inr sp" "path_list res = Inr ps"
    and doc_file: "files w sp = Some (json_dumps_indent2 (native_document decl rid v st pv) @ [LF])"
    and vals: "json_value (PDict st)" "json_value pv"
  shows "load_resource_state h decl res w = (Inr \<lparr>state_value = st, version = v,
     raw_document = (case native_document decl rid v st pv of PDict kv \<Rightarrow> kv | _ \<Rightarrow> []), state_path = sp,
     secondary_state_paths = ps, audit_path = ap, bridge_backing = False\<rparr>, w)"
proof -
  have doc: "json_value (native_document decl rid v st pv)"
    using vals by (simp add: native_document_def)
  note parsed = dumps_loads [OF doc]
  show ?thesis
    using kind native by (simp add: load_resource_state_def paths load_native_state_def path_exists_def read_text_def
        doc_file io_bind_def parsed) (simp add: native_document_def py_item_def)
qed

section \<open>One fresh execution\<close>

lemma load_native_parts:
  assumes "load_resource_state h decl res w = (Inr rs, w')" "\<not> bridge_backing rs"
  shows "w' = w" "backing_kind (backing (resource decl)) \<noteq> ''bridge''" "py_eq (dget res ''resource_kind'') (PStr (resource_kind (resource decl)))"
    "rbind (py_item (PDict res) ''audit_path'') py_path = Inr (audit_path rs)"
    "rbind (py_item (PDict res) ''state_path'') py_path = Inr (state_path rs)"
    "path_list res = Inr (secondary_state_paths rs)"
  using assms
  by (auto simp: load_resource_state_def load_native_state_def load_bridge_state_def bridge_digest_def io_bind_cases path_exists_def read_text_def
      split: if_splits option.splits)

lemma native_backend_ok:
  assumes "\<not> bridge_backing rs" "next_version h rs st = Inr v" "resource_id_of res = Inr rid" "paths_ok rs"
    and "\<And>i. \<not> fault_is env (''target_commit_'' @ nat_repr i)"
  shows "apply_runtime_native_backend h decl res rs request st env w =
    (Inr v, w\<lparr>files := commit_files (state_targets rs)
       (json_dumps_indent2 (native_document decl rid v st (provenance_of rs)) @ [LF]) (files w)\<rparr>)"
proof -
  have "list_all named (state_targets rs)" using assms(4) by (simp add: paths_ok_def)
  note commit = commit_targets_ok [OF assms(5) this]
  show ?thesis
    using assms(1-3)
    by (simp add: apply_runtime_native_backend_def commit_targets_def io_bind_def commit [unfolded state_targets_def]
        state_targets_def native_document_def provenance_of_def del: commit_targets_from.simps)
qed

definition record_world :: "string \<Rightarrow> pyval \<Rightarrow> world \<Rightarrow> world" where
  "record_world ap row w = w\<lparr>files := (files w)(ap \<mapsto> log_text w ap @ log_entry row, pending_of ap := None)\<rparr>"

lemma record_commit_ok:
  assumes "row_ok row" "\<not> append_refused w (audit_path rs)" "paths_ok rs"
  shows "record_commit (audit_path rs) row [] w = (Inr (), record_world (audit_path rs) row w)"
  using assms
  by (simp add: record_commit_def write_pending_replay_def clear_pending_replay_def pending_path_ok serialize_ok
      io_bind_def write_text_eq fault_free except_os_def append_row_ok unlink_missing_ok_def record_world_def)
    (simp add: set_file_def fun_eq_iff)





definition native_commit_world ::
    "ValidatedTransitionDeclaration \<Rightarrow> LoadedResourceState \<Rightarrow> string \<Rightarrow> string \<Rightarrow> pydict \<Rightarrow> world \<Rightarrow> world" where
  "native_commit_world decl rs rid v st w = w\<lparr>files := commit_files (state_targets rs)
       (json_dumps_indent2 (native_document decl rid v st (provenance_of rs)) @ [LF]) (files w)\<rparr>"

lemma native_commit_files:
  assumes "paths_ok rs"
  shows "files (native_commit_world decl rs rid v st w) q =
    (if q \<in> set (state_targets rs)
     then Some (json_dumps_indent2 (native_document decl rid v st (provenance_of rs)) @ [LF])
     else if q \<in> tmp_of ` set (state_targets rs) then None else files w q)"
  using assms by (simp add: native_commit_world_def commit_files_at paths_ok_def)

text \<open>The hypotheses of a fresh execution that reaches its commit, gathered once.\<close>

definition commits ::
    "host \<Rightarrow> ValidatedTransitionDeclaration \<Rightarrow> pydict \<Rightarrow> LoadedResourceState \<Rightarrow> pyval \<Rightarrow> string \<Rightarrow> pydict \<Rightarrow> pyval \<Rightarrow> pyval
     \<Rightarrow> string \<Rightarrow> bool" where
  "commits h decl res rs request rid st result projection v \<longleftrightarrow>
     \<not> bridge_backing rs \<and> paths_ok rs \<and> resource_id_of res = Inr rid
     \<and> list_all (\<lambda>payload. \<exists>b. evaluate_pure_expr DEFAULT_PURE_EXPR_MAX_NODES payload
         [(''state'', PDict (state_value rs)), (''request'', request)] = Inr b \<and> py_bool b) (preconditions (transition decl))
     \<and> transition_outputs decl (state_value rs) request = Inr (st, result, projection)
     \<and> next_version h rs st = Inr v"

lemma preconditions_hold:
  assumes "list_all (\<lambda>payload. \<exists>b. evaluate_pure_expr DEFAULT_PURE_EXPR_MAX_NODES payload
         [(''state'', PDict (state_value rs)), (''request'', request)] = Inr b \<and> py_bool b) payloads"
  shows "check_preconditions h decl rs rid request payloads w = (Inr (), w)"
  using assms
proof (induction payloads)
  case (Cons p ps)
  then show ?case by (auto simp: check_preconditions_def)
qed (simp add: check_preconditions_def)

lemma fresh_reaches_commit:
  assumes "commits h decl res rs request rid st result projection v"
    and "\<And>i. \<not> fault_is env (''target_commit_'' @ nat_repr i)" "\<not> fault_is env ''before_commit''"
  shows "execute_fresh h decl res rs request rid key digest ''runtime_native'' env w =
    io_bind (record_commit (audit_path rs) (committed_row decl rs rid key digest v result projection) env)
      (\<lambda>_. ret (transition_result result (PStr v) False)) (native_commit_world decl rs rid v st w)"
proof -
  note c = assms(1) [unfolded commits_def]
  have "apply_backend h decl res rs request st ''runtime_native'' env w = (Inr v, native_commit_world decl rs rid v st w)"
    using native_backend_ok [OF _ _ _ _ assms(2)] c by (simp add: apply_backend_def native_commit_world_def)
  with preconditions_hold c assms(3) show ?thesis
    by (simp add: execute_fresh_def)
qed

section \<open>Finding a committed row\<close>

lemma field_is_dict: "field_is (PDict kv) k s = Inr (py_eq (dget kv k) (PStr s))"
  by (simp add: field_is_def)

definition committed_test :: "string \<Rightarrow> string \<Rightarrow> string \<Rightarrow> pyval \<Rightarrow> exc + bool" where
  "committed_test name key digest row =
     and_then (field_is row ''transition_name'' name)
       (and_then (field_is row ''outcome_code'' ''committed'')
       (and_then (field_is row ''idempotency_key'' key) (field_is row ''request_digest'' digest)))"

lemma find_committed_eq: "find_committed_replay rows name key digest = first_row (committed_test name key digest) (rev rows)"
  by (simp add: find_committed_replay_def committed_test_def [abs_def])

lemma sort_val_map_of: "map_of (sort_key fst (map (\<lambda>(k, v). (k, sort_val v)) kv)) k = map_option sort_val (map_of kv k)"
  by (simp add: map_of_map_snd)

lemma sort_val_get: "py_get (sort_val (PDict kv)) k = Inr (sort_val (dget kv k))"
proof -
  have "dget (sort_key fst (map (\<lambda>(k, v). (k, sort_val v)) kv)) k = sort_val (dget kv k)"
    unfolding dget_def sort_val_map_of by (cases "map_of kv k") simp_all
  then show ?thesis by (simp only: sort_val.simps get_item_simps)
qed

lemma sort_val_item: "map_of kv k = Some v \<Longrightarrow> py_item (sort_val (PDict kv)) k = Inr (sort_val v)"
  unfolding sort_val.simps by (rule get_item_simps(2)) (simp only: sort_val_map_of option.map)

lemma committed_row_get:
  assumes "row = sort_val (committed_row decl rs rid key digest v r p)"
  shows "py_get row ''transition_name'' = Inr (PStr (transition_name (transition decl)))"
    "py_get row ''resource_kind'' = Inr (PStr (resource_kind (resource decl)))"
    "py_get row ''resource_id'' = Inr (PStr rid)" "py_get row ''outcome_code'' = Inr (PStr ''committed'')"
    "py_get row ''idempotency_key'' = Inr (PStr key)" "py_get row ''request_digest'' = Inr (PStr digest)"
    "py_get row ''version'' = Inr (PStr v)"
    "py_item row ''version'' = Inr (PStr v)" "py_item row ''result'' = Inr (sort_val r)" "is_mapping row"
  unfolding assms committed_row_def
  by (simp_all add: sort_val_get sort_val_item audit_row_base_def del: sort_val.simps(1)) simp

lemma committed_row_test:
  "committed_test (transition_name (transition decl)) key digest
     (sort_val (committed_row decl rs rid key digest v r p)) = Inr True"
  using committed_row_get [OF refl, of decl rs rid key digest v r p]
  by (simp add: committed_test_def field_is_def and_then_def)

definition replayed_audit_row ::
    "ValidatedTransitionDeclaration \<Rightarrow> string \<Rightarrow> string \<Rightarrow> string \<Rightarrow> pyval \<Rightarrow> pyval" where
  "replayed_audit_row decl rid key digest v = PDict (audit_row_base decl rid ''replayed'' @
       [(''idempotency_key'', PStr key), (''request_digest'', PStr digest), (''version'', v)])"

lemma replay_outcome_ok:
  assumes "py_item row ''version'' = Inr v" "py_item row ''result'' = Inr r"
    and "row_ok (replayed_audit_row decl rid key digest v)" "\<not> append_refused w ap"
  shows "replay_outcome ap decl rid key digest row w =
    (Inr (transition_result r v True),
     set_file ap (log_text w ap @ log_entry (replayed_audit_row decl rid key digest v)) w)"
  using assms append_row_ok [OF assms(3,4)]
  by (simp add: replay_outcome_def replayed_audit_row_def)

section \<open>The start of an execution\<close>

definition starts ::
    "host \<Rightarrow> ValidatedTransitionDeclaration \<Rightarrow> pydict \<Rightarrow> pyval \<Rightarrow> world \<Rightarrow> LoadedResourceState \<Rightarrow> pyval list \<Rightarrow> pyval \<Rightarrow> string
     \<Rightarrow> string \<Rightarrow> string \<Rightarrow> bool" where
  "starts h decl res q w rs rows request rid key digest \<longleftrightarrow>
     coerce_transition_value q (request_type (transition decl)) = Inr request
     \<and> load_resource_state h decl res w = (Inr rs, w)
     \<and> log_rows (log_text w (audit_path rs)) = Inr rows
     \<and> resource_id_of res = Inr rid
     \<and> canonical_transition_digest (sha256_hex h) request = Inr digest
     \<and> derive_idempotency_key (sha256_hex h) decl rid request = Inr key"

lemma execute_starts:
  assumes "starts h decl res q w rs rows request rid key digest" "ev = None \<or> ev = Some (version rs)"
  shows "execute_transition h decl res q ev be env w = resolve_transition h decl res rs rows request rid key digest be env w"
proof -
  have "check_version h decl rs rid request ev w = (Inr (), w)"
    using assms(2) by (auto simp: check_version_def)
  then show ?thesis
    using assms(1) by (simp add: starts_def execute_transition_def read_rows_eq)
qed

lemma no_pending:
  assumes "paths_ok rs" "files w (pending_of (audit_path rs)) = None"
  shows "read_pending_replay (audit_path rs) w = (Inr None, w)"
  using assms by (simp add: read_pending_replay_def pending_path_ok path_exists_def io_bind_def)

section \<open>After the commit\<close>

lemma sort_key_sort_key: "sort_key fst (sort_key fst xs) = sort_key fst xs"
  for xs :: "('k::linorder \<times> 'v) list"
  by (rule sort_key_id_if_sorted) simp

lemma canon_sort_val [simp]: "canon (sort_val v) = canon v"
proof (induction v rule: sort_val.induct)
  case (1 kvs)
  have "map (\<lambda>(k, v). (k, canon (sort_val v))) kvs = map (\<lambda>(k, v). (k, canon v)) kvs"
    using 1 by (intro map_cong) auto
  then show ?case
    by (simp only: sort_val.simps canon.simps sort_key_map_snd map_snd_comp sort_key_sort_key)
qed auto


lemma replayed_row_ok:
  assumes "row_ok (committed_row decl rs rid key digest v r p)"
  shows "row_ok (replayed_audit_row decl rid key digest (PStr v))"
  using assms
  by (auto simp: row_ok_def committed_row_def replayed_audit_row_def audit_row_base_def line_safe_def split: if_splits)

lemma native_reload:
  assumes load: "load_resource_state h decl res w = (Inr rs, w)" and nb: "\<not> bridge_backing rs"
    and doc_file: "files w' (state_path rs) = Some (json_dumps_indent2 (native_document decl rid v st (provenance_of rs)) @ [LF])"
    and vals: "json_value (PDict st)" "json_value (provenance_of rs)"
  obtains rs' where "load_resource_state h decl res w' = (Inr rs', w')" "version rs' = v" "state_value rs' = st"
    "audit_path rs' = audit_path rs" "state_targets rs' = state_targets rs" "\<not> bridge_backing rs'"
proof -
  note n = load_native_parts [OF load nb]
  from load_native_document [OF n(3,2,4,5,6) doc_file vals] that show thesis by (simp add: state_targets_def)
qed

lemma paths_ok_cong:
  "audit_path rs' = audit_path rs \<Longrightarrow> state_targets rs' = state_targets rs \<Longrightarrow> paths_ok rs' = paths_ok rs"
  by (simp add: paths_ok_def)

lemma native_commit_keeps:
  assumes "paths_ok rs"
  shows "files (native_commit_world decl rs rid v st w) (audit_path rs) = files w (audit_path rs)"
    "files (native_commit_world decl rs rid v st w) (pending_of (audit_path rs)) = files w (pending_of (audit_path rs))"
    "files (native_commit_world decl rs rid v st w) (state_path rs) =
       Some (json_dumps_indent2 (native_document decl rid v st (provenance_of rs)) @ [LF])"
    "append_refused (native_commit_world decl rs rid v st w) = append_refused w"
    "log_text (native_commit_world decl rs rid v st w) (audit_path rs) = log_text w (audit_path rs)"
  using assms
  by (auto simp: native_commit_files paths_ok_def log_text_def state_targets_def native_commit_world_def [of decl rs rid v st w, symmetric])
    (simp add: native_commit_world_def)

text \<open>A fresh execution without faults.\<close>

lemma fresh_execution:
  assumes s: "starts h decl res q w rs rows request rid key digest"
    and c: "commits h decl res rs request rid st result projection v"
    and new: "find_committed_replay rows (transition_name (transition decl)) key digest = Inr None"
      "files w (pending_of (audit_path rs)) = None"
    and row: "row_ok (committed_row decl rs rid key digest v result projection)" "\<not> append_refused w (audit_path rs)"
    and ev: "ev = None \<or> ev = Some (version rs)"
  shows "execute_transition h decl res q ev ''runtime_native'' [] w =
    (Inr (transition_result result (PStr v) False),
     record_world (audit_path rs) (committed_row decl rs rid key digest v result projection)
       (native_commit_world decl rs rid v st w))"
proof -
  have p: "paths_ok rs" "\<not> bridge_backing rs" using c by (simp_all add: commits_def)
  have rc: "record_commit (audit_path rs) (committed_row decl rs rid key digest v result projection) []
      (native_commit_world decl rs rid v st w) = (Inr (), record_world (audit_path rs)
        (committed_row decl rs rid key digest v result projection) (native_commit_world decl rs rid v st w))"
    using row p(1) by (intro record_commit_ok) (simp_all add: native_commit_keeps)
  show ?thesis
    using new(1) p fresh_reaches_commit [OF c, of "[]"] rc
    by (simp add: execute_starts [OF s ev] resolve_transition_def no_pending [OF p(1) new(2)] settle_pending_def
        check_bridge_drift_def fault_free)
qed


lemma serializes:
  assumes "all_sub finite_float (PDict kv)"
  obtains t where "serialize_transition_audit_record (PDict kv) = Inr t"
proof -
  have "all_sub finite_float (jsonable (PDict kv))" using assms by (simp only: all_sub_finite_jsonable)
  then show thesis
    using that unfolding serialize_transition_audit_record_def canonical_transition_json_def json_dumps_def by simp
qed

text \<open>An execution that expects another version is refused before the log is looked at.\<close>

lemma version_refused:
  assumes s: "starts h decl res q w rs rows request rid key digest"
    and stale: "u \<noteq> version rs" and log: "\<not> append_refused w (audit_path rs)"
  obtains t where "execute_transition h decl res q (Some u) be env w =
    (Inl (TransitionExecutionError ''transition_version_mismatch''), set_file (audit_path rs) (log_text w (audit_path rs) @ t) w)"
proof -
  let ?row = "PDict (fold (\<lambda>(k, v) row. AList.update k v row)
      [(''expected_version'', PStr u), (''observed_version'', PStr (version rs))]
      (audit_row_base decl rid ''rejected_version'' @ [(''request_digest'', PStr digest)]))"
  have "all_sub finite_float ?row" by (simp add: audit_row_base_def finite_float_def)
  then obtain t where t: "serialize_transition_audit_record ?row = Inr t" by (rule serializes)
  have "append_audit_row (audit_path rs) ?row w = (Inr (), set_file (audit_path rs) (log_text w (audit_path rs) @ t @ [LF]) w)"
    using log unfolding append_audit_row_def t by (simp add: io_bind_def append_text_eq)
  then have "check_version h decl rs rid request (Some u) w = (Inl (TransitionExecutionError ''transition_version_mismatch''),
      set_file (audit_path rs) (log_text w (audit_path rs) @ t @ [LF]) w)"
    using s stale unfolding starts_def check_version_def append_rejection_audit_def append_outcome_audit_def
    by (simp add: io_bind_def)
  with s have "execute_transition h decl res q (Some u) be env w = (Inl (TransitionExecutionError ''transition_version_mismatch''),
      set_file (audit_path rs) (log_text w (audit_path rs) @ t @ [LF]) w)"
    by (simp add: starts_def execute_transition_def read_rows_eq io_bind_def)
  then show thesis by (rule that)
qed

text \<open>The next execution of the same request, when the log has the committed row.\<close>

lemma replay_execution:
  assumes s: "starts h decl res q w rs rows request rid key digest"
    and p: "paths_ok rs" "\<not> bridge_backing rs" "files w (pending_of (audit_path rs)) = None"
    and found: "find_committed_replay rows (transition_name (transition decl)) key digest = Inr (Some row)"
      "py_item row ''version'' = Inr v" "py_item row ''result'' = Inr r"
    and log: "row_ok (replayed_audit_row decl rid key digest v)" "\<not> append_refused w (audit_path rs)"
    and ev: "ev = None \<or> ev = Some (version rs)"
  shows "execute_transition h decl res q ev be env w = (Inr (transition_result r v True),
     set_file (audit_path rs) (log_text w (audit_path rs) @ log_entry (replayed_audit_row decl rid key digest v)) w)"
  using found(1) p(2) replay_outcome_ok [OF found(2,3) log]
  by (simp add: execute_starts [OF s ev] resolve_transition_def no_pending [OF p(1,3)] settle_pending_def
      check_bridge_drift_def)

text \<open>So the outcome of a repeated request depends on the version it expects, and only the log grows.\<close>

lemma repeated_execution:
  assumes s: "starts h decl res q w rs rows request rid key digest"
    and p: "paths_ok rs" "\<not> bridge_backing rs" "files w (pending_of (audit_path rs)) = None"
    and found: "find_committed_replay rows (transition_name (transition decl)) key digest = Inr (Some row)"
      "py_item row ''version'' = Inr v" "py_item row ''result'' = Inr r"
    and log: "row_ok (replayed_audit_row decl rid key digest v)" "\<not> append_refused w (audit_path rs)"
  shows "\<exists>t. execute_transition h decl res q ev be env w =
    ((if ev = None \<or> ev = Some (version rs) then Inr (transition_result r v True)
      else Inl (TransitionExecutionError ''transition_version_mismatch'')), set_file (audit_path rs) t w)"
proof (cases "ev = None \<or> ev = Some (version rs)")
  case True
  then show ?thesis using replay_execution [OF s p found log True] by auto
next
  case False
  then obtain u where u: "ev = Some u" "u \<noteq> version rs" by (cases ev) auto
  then obtain t where "execute_transition h decl res q ev be env w = (Inl (TransitionExecutionError ''transition_version_mismatch''),
      set_file (audit_path rs) (log_text w (audit_path rs) @ t) w)" using version_refused [OF s u(2) log(2)] by metis
  with False show ?thesis by auto
qed

lemma find_newest:
  assumes "sealed t" "log_rows t = Inr rows" "row_ok (committed_row decl rs rid key digest v r p)"
  shows "log_rows (t @ log_entry (committed_row decl rs rid key digest v r p)) =
      Inr (rows @ [sort_val (committed_row decl rs rid key digest v r p)])"
    "find_committed_replay (rows @ [sort_val (committed_row decl rs rid key digest v r p)])
      (transition_name (transition decl)) key digest = Inr (Some (sort_val (committed_row decl rs rid key digest v r p)))"
  using audit.extend [OF assms(1,3,2)] committed_row_test [of decl key digest rs rid v r p]
  by (simp_all add: find_committed_eq)

lemma starts_again:
  assumes "starts h decl res q w rs rows request rid key digest"
    and "load_resource_state h decl res w' = (Inr rs', w')" "log_rows (log_text w' (audit_path rs')) = Inr rows'"
  shows "starts h decl res q w' rs' rows' request rid key digest"
  using assms by (simp add: starts_def)

lemma state_path_apart:
  "paths_ok rs \<Longrightarrow> state_path rs \<noteq> audit_path rs \<and> state_path rs \<noteq> pending_of (audit_path rs)"
  by (auto simp: paths_ok_def state_targets_def)

lemma record_world_files:
  "files (record_world ap row w) q = (if q = pending_of ap then None
     else if q = ap then Some (log_text w ap @ log_entry row) else files w q)"
  "append_refused (record_world ap row w) = append_refused w"
  "log_text (record_world ap row w) ap = log_text w ap @ log_entry row"
  by (simp_all add: record_world_def log_text_def)




section \<open>Properties\<close>

text \<open>
  C26. A committed transition happens once. A request runs for the first time, on a resource with a
  native document and the backend \<open>runtime_native\<close>, expecting no version or the current one, and
  commits. Then every further run of the same request that expects no version or the new one, on any
  backend and with any environment, returns the committed result and version with the replayed flag;
  one that expects any other version, the old one included, is refused with
  \<open>transition_version_mismatch\<close>, since the version is compared before the log is searched. Either way
  nothing is written but one more audit row: the state files stay as the first run left them, and they
  load as the new state. The result is the stored one, equal up to the order of keys. The hypotheses
  name the values the first run computes, ask that they can be stored (no floats, no repeated keys,
  none of the line separators U+0085, U+2028, U+2029 in a text, which would tear the row), and that the
  log is readable and can be appended to.
\<close>

theorem committed_transition_replays:
  assumes "starts h decl res q w rs rows request rid key digest"
    and "commits h decl res rs request rid st result projection v"
    and "find_committed_replay rows (transition_name (transition decl)) key digest = Inr None"
    and "files w (pending_of (audit_path rs)) = None"
    and "row_ok (committed_row decl rs rid key digest v result projection)" "\<not> append_refused w (audit_path rs)"
    and "sealed (log_text w (audit_path rs))" "json_value (PDict st)" "json_value (provenance_of rs)"
    and "ev = None \<or> ev = Some (version rs)"
  shows "\<exists>w1. execute_transition h decl res q ev ''runtime_native'' [] w = (Inr (transition_result result (PStr v) False), w1)
    \<and> (\<forall>ev' be env. \<exists>w2 rs2. execute_transition h decl res q ev' be env w1 =
          ((if ev' = None \<or> ev' = Some v then Inr (transition_result (sort_val result) (PStr v) True)
            else Inl (TransitionExecutionError ''transition_version_mismatch'')), w2)
        \<and> (\<forall>path. path \<noteq> audit_path rs \<longrightarrow> files w2 path = files w1 path)
        \<and> load_resource_state h decl res w2 = (Inr rs2, w2) \<and> state_value rs2 = st \<and> version rs2 = v)"
proof -
  let ?ap = "audit_path rs" and ?row = "committed_row decl rs rid key digest v result projection"
  let ?w1 = "record_world ?ap ?row (native_commit_world decl rs rid v st w)"
  have p: "paths_ok rs" "\<not> bridge_backing rs" using assms(2) by (simp_all add: commits_def)
  have load: "load_resource_state h decl res w = (Inr rs, w)" and rows: "log_rows (log_text w ?ap) = Inr rows"
    using assms(1) by (simp_all add: starts_def)
  note keeps = native_commit_keeps [OF p(1)] and apart = state_path_apart [OF p(1)]
  have doc: "files ?w1 (state_path rs) =
      Some (json_dumps_indent2 (native_document decl rid v st (provenance_of rs)) @ [LF])"
    using apart keeps(3) by (simp add: record_world_files)
  from native_reload [OF load p(2) doc assms(8,9)]
  obtain rs1 where rs1: "load_resource_state h decl res ?w1 = (Inr rs1, ?w1)" "version rs1 = v"
    "audit_path rs1 = ?ap" "state_targets rs1 = state_targets rs" "\<not> bridge_backing rs1" by blast
  note newest = find_newest [OF assms(7) rows assms(5)]
  have s1: "starts h decl res q ?w1 rs1 (rows @ [sort_val ?row]) request rid key digest"
    using newest(1) keeps(5) by (intro starts_again [OF assms(1) rs1(1)]) (simp add: rs1(3) record_world_files)
  note get = committed_row_get [OF refl, of decl rs rid key digest v result projection]
  have writable: "\<not> append_refused ?w1 (audit_path rs1)" using assms(6) keeps(4) by (simp add: rs1(3) record_world_files)
  have "paths_ok rs1" "files ?w1 (pending_of (audit_path rs1)) = None"
    using p(1) paths_ok_cong [OF rs1(3,4)] by (simp_all add: rs1(3) record_world_files)
  note again = repeated_execution [OF s1 this(1) rs1(5) this(2) newest(2) get(8,9) replayed_row_ok [OF assms(5)] writable,
      unfolded rs1(2,3)]
  have "\<exists>rs2. load_resource_state h decl res (set_file ?ap t ?w1) = (Inr rs2, set_file ?ap t ?w1) \<and> state_value rs2 = st
      \<and> version rs2 = v" for t
  proof -
    have "files (set_file ?ap t ?w1) (state_path rs) =
        Some (json_dumps_indent2 (native_document decl rid v st (provenance_of rs)) @ [LF])"
      using doc apart by simp
    from native_reload [OF load p(2) this assms(8,9)] show ?thesis by blast
  qed
  with again have "\<exists>w2 rs2. execute_transition h decl res q ev' be env ?w1 =
      ((if ev' = None \<or> ev' = Some v then Inr (transition_result (sort_val result) (PStr v) True)
        else Inl (TransitionExecutionError ''transition_version_mismatch'')), w2)
      \<and> (\<forall>path. path \<noteq> ?ap \<longrightarrow> files w2 path = files ?w1 path)
      \<and> load_resource_state h decl res w2 = (Inr rs2, w2) \<and> state_value rs2 = st \<and> version rs2 = v" for ev' be env
    by (metis (no_types, lifting) set_file_simps(1))
  with fresh_execution [OF assms(1-6,10)] show ?thesis by blast
qed


text \<open>
  What the exclusion of line separators leaves out. The log is written without escaping U+2028 and read
  with \<open>splitlines\<close>, which takes it for the end of a line: after one such row the log cannot be read.
\<close>

lemma line_separator_tears_log:
  "let w = \<lparr>files = Map.empty, append_refused = (\<lambda>_. False)\<rparr>;
       (r, w1) = append_audit_row ''audit.jsonl'' (PDict [(''note'', PStr [CHR 0xE2, CHR 0x80, CHR 0xA8])]) w in
   r = Inr () \<and> fst (read_audit_rows ''audit.jsonl'' w1) = Inl ValueError"
  by code_simp

section \<open>A concrete run\<close>

definition demo_host :: host where
  "demo_host = \<lparr>sha256_hex = (\<lambda>s. nat_repr (length s)), container_str = (\<lambda>_. ''?''), run_process = (\<lambda>_ _. None)\<rparr>"

definition demo_resource :: pydict where
  "demo_resource = [(''resource_kind'', PStr ''counter''), (''resource_id'', PStr ''c1''),
     (''audit_path'', PStr ''audit.jsonl''), (''state_path'', PStr ''state.json'')]"

definition demo_before :: pydict where
  "demo_before = [(''count'', PInt 7), (''history'', PList []), (''note'', PStr ''n'')]"

definition demo_after :: pydict where
  "demo_after = [(''count'', PInt 12), (''history'', PList [PStr ''r1'']), (''note'', PNone)]"

definition demo_world :: world where
  "demo_world = \<lparr>files = [''state.json'' \<mapsto> json_dumps_indent2 (PDict [(''state_version'', PStr ''native:3:x''),
     (''state'', PDict demo_before)]) @ [LF]], append_refused = (\<lambda>_. False)\<rparr>"

definition demo_loaded :: LoadedResourceState where
  "demo_loaded = \<lparr>state_value = demo_before, version = ''native:3:x'',
     raw_document = [(''state_version'', PStr ''native:3:x''), (''state'', PDict demo_before)],
     state_path = ''state.json'', secondary_state_paths = [], audit_path = ''audit.jsonl'', bridge_backing = False\<rparr>"

lemma reads_load [intro]: "reads (load_resource_state h decl res)"
  unfolding load_resource_state_def load_bridge_state_def load_native_state_def bridge_digest_def
  by (intro reads_if reads_intros reads_files)

lemma demo_load: "load_resource_state demo_host demo_native demo_resource demo_world = (Inr demo_loaded, demo_world)"
proof -
  have "fst (load_resource_state demo_host demo_native demo_resource demo_world) = Inr demo_loaded" by code_simp
  moreover have "snd (load_resource_state demo_host demo_native demo_resource demo_world) = demo_world"
    using reads_load by (simp add: reads_def)
  ultimately show ?thesis by (simp add: prod_eq_iff)
qed

definition demo_key :: string where "demo_key = ''sha256:95''"

definition demo_digest :: string where "demo_digest = ''sha256:22''"

definition demo_version :: string where "demo_version = ''native:4:41''"

lemma demo_starts:
  "starts demo_host demo_native demo_resource (demo_request 5) demo_world demo_loaded [] (demo_coerced 5)
     ''c1'' demo_key demo_digest"
proof -
  have "coerce_transition_value (demo_request 5) (request_type (transition demo_native)) = Inr (demo_coerced 5)"
    "log_text demo_world (audit_path demo_loaded) = []" "resource_id_of demo_resource = Inr ''c1''"
    "canonical_transition_digest (sha256_hex demo_host) (demo_coerced 5) = Inr demo_digest"
    "derive_idempotency_key (sha256_hex demo_host) demo_native ''c1'' (demo_coerced 5) = Inr demo_key"
    by code_simp+
  then show ?thesis using audit.empty_log by (simp add: starts_def demo_load)
qed

lemma demo_commits:
  "commits demo_host demo_native demo_resource demo_loaded (demo_coerced 5) ''c1'' demo_after (PInt 12) (PInt 5) demo_version"
proof -
  have "evaluate_pure_expr DEFAULT_PURE_EXPR_MAX_NODES demo_precondition
      [(''state'', PDict (state_value demo_loaded)), (''request'', demo_coerced 5)] = Inr (PBool True)" by code_simp
  then have "list_all (\<lambda>payload. \<exists>b. evaluate_pure_expr DEFAULT_PURE_EXPR_MAX_NODES payload
      [(''state'', PDict (state_value demo_loaded)), (''request'', demo_coerced 5)] = Inr b \<and> py_bool b)
      (preconditions (transition demo_native))"
    by (simp add: demo_native_def demo_transition_record_def)
  moreover have "\<not> bridge_backing demo_loaded" "paths_ok demo_loaded" "resource_id_of demo_resource = Inr ''c1''"
    "transition_outputs demo_native (state_value demo_loaded) (demo_coerced 5) = Inr (demo_after, PInt 12, PInt 5)"
    "next_version demo_host demo_loaded demo_after = Inr demo_version"
    by code_simp+
  ultimately show ?thesis by (simp add: commits_def)
qed

lemma demo_storable:
  "row_ok (committed_row demo_native demo_loaded ''c1'' demo_key demo_digest demo_version (PInt 12) (PInt 5))"
  "json_value (PDict demo_after)" "json_value (provenance_of demo_loaded)" "sealed (log_text demo_world (audit_path demo_loaded))"
  "files demo_world (pending_of (audit_path demo_loaded)) = None"
  "find_committed_replay [] (transition_name (transition demo_native)) demo_key demo_digest = Inr None"
  "\<not> append_refused demo_world (audit_path demo_loaded)"
  by code_simp+





theorem committed_transition_replays_witness:
  "\<exists>w1 w2 w3. execute_transition demo_host demo_native demo_resource (demo_request 5) (Some ''native:3:x'') ''runtime_native'' [] demo_world
      = (Inr (transition_result (PInt 12) (PStr demo_version) False), w1)
    \<and> execute_transition demo_host demo_native demo_resource (demo_request 5) None ''runtime_native'' [] w1
      = (Inr (transition_result (PInt 12) (PStr demo_version) True), w2)
    \<and> execute_transition demo_host demo_native demo_resource (demo_request 5) (Some ''native:3:x'') ''runtime_native'' [] w1
      = (Inl (TransitionExecutionError ''transition_version_mismatch''), w3)
    \<and> files w2 ''state.json'' = files w1 ''state.json'' \<and> files w3 ''state.json'' = files w1 ''state.json''"
proof -
  have ev: "Some ''native:3:x'' = None \<or> Some ''native:3:x'' = Some (version demo_loaded)" by (simp add: demo_loaded_def)
  have path: "''state.json'' \<noteq> audit_path demo_loaded" by (simp add: demo_loaded_def)
  have v: "''native:3:x'' \<noteq> demo_version" by (simp add: demo_version_def)
  obtain w1 where first: "execute_transition demo_host demo_native demo_resource (demo_request 5) (Some ''native:3:x'') ''runtime_native'' [] demo_world
      = (Inr (transition_result (PInt 12) (PStr demo_version) False), w1)"
    and again: "\<And>ev' be env. \<exists>w2 rs2. execute_transition demo_host demo_native demo_resource (demo_request 5) ev' be env w1 =
          ((if ev' = None \<or> ev' = Some demo_version then Inr (transition_result (sort_val (PInt 12)) (PStr demo_version) True)
            else Inl (TransitionExecutionError ''transition_version_mismatch'')), w2)
        \<and> (\<forall>path. path \<noteq> audit_path demo_loaded \<longrightarrow> files w2 path = files w1 path)"
    using committed_transition_replays [OF demo_starts demo_commits demo_storable(6,5,1,7,4,2,3) ev] by metis
  show ?thesis using first again [of None] again [of "Some ''native:3:x''"] path v by fastforce
qed


end
