(* ===== verification/References.thy ===== *)
theory References
  imports TypeDescriptor
begin

text \<open>
  Structured references of \<open>src/orchestrator/workflow/references.py\<close>: parsing an authored
  reference (\<open>inputs.x\<close>, \<open>self.outputs.x\<close>, \<open>root.steps.S.artifacts.m\<close> ...) against the step
  names in scope, and resolving it against the run state. Step names may contain dots, so the
  parser tries the known names, longest first, before it falls back on the text alone.
  \<open>ref_text\<close> prints a target; the lemmas show that parsing inverts it, that the parse depends
  on the set of names only, and which values and exceptions resolution can produce.

  The names of a catalog and the keys of the state are strings. Python sorts the names by
  length in code points and the model by length in bytes: of two names that both start the
  reference one is a prefix of the other, so both measures order them alike. The iteration
  order of the name set is unspecified in Python; \<open>selected_target_any_order\<close> shows that it
  does not matter.
\<close>

section \<open>Data\<close>

record SurfaceRefScopeCatalog =
  root_step_names :: "string list"
  self_step_names :: "string list"
  parent_step_names :: "string list"
  output_names :: "string list"

datatype SurfaceReference =
    WorkflowInputReference string
  | StructuredStepReference string string string "string option"
  | SelfOutputReference string

record StructuredRefTarget =
  target_scope :: string
  target_step :: string
  target_field :: string
  target_member :: "string option"

section \<open>Parsing\<close>

text \<open>\<open>s[len(p):]\<close> when \<open>s.startswith(p)\<close>.\<close>

definition after :: "string \<Rightarrow> string \<Rightarrow> string option" where
  "after p s = (if take (length p) s = p then Some (drop (length p) s) else None)"

text \<open>\<open>s[:-len(p)]\<close> when \<open>s.endswith(p)\<close>.\<close>

definition before :: "string \<Rightarrow> string \<Rightarrow> string option" where
  "before p s = (if length p \<le> length s \<and> drop (length s - length p) s = p
     then Some (take (length s - length p) s) else None)"

definition target :: "string \<Rightarrow> string \<Rightarrow> string \<Rightarrow> string option \<Rightarrow> StructuredRefTarget" where
  "target scope step_name field member =
     \<lparr>target_scope = scope, target_step = step_name, target_field = field, target_member = member\<rparr>"

text \<open>The tests on the text after a known step name, in the order of the code.\<close>

definition tail_target :: "string \<Rightarrow> string \<Rightarrow> string \<Rightarrow> StructuredRefTarget option" where
  "tail_target scope step_name tail =
     (if tail = ''exit_code'' then Some (target scope step_name ''exit_code'' None)
      else case after ''artifacts.'' tail of
        Some (c # m) \<Rightarrow> Some (target scope step_name ''artifacts'' (Some (c # m)))
      | _ \<Rightarrow> (case after ''snapshots.'' tail of
        Some (c # m) \<Rightarrow> Some (target scope step_name ''snapshots'' (Some (c # m)))
      | _ \<Rightarrow> (case after ''outcome.'' tail of
        Some (c # m) \<Rightarrow> Some (target scope step_name ''outcome'' (Some (c # m)))
      | _ \<Rightarrow> None)))"

definition selectors :: "string list \<Rightarrow> string list" where
  "selectors step_names = rev (sort_key length (remdups (filter (\<lambda>name. name \<noteq> []) step_names)))"

fun selected_target :: "string \<Rightarrow> string \<Rightarrow> string list \<Rightarrow> StructuredRefTarget option" where
  "selected_target scope remainder [] = None"
| "selected_target scope remainder (step_name # rest) =
     (case after (step_name @ ''.'') remainder of
        None \<Rightarrow> selected_target scope remainder rest
      | Some tail \<Rightarrow> (case tail_target scope step_name tail of
          Some t \<Rightarrow> Some t
        | None \<Rightarrow> selected_target scope remainder rest))"

text \<open>The fallback for names that are not known: \<open>remainder.rsplit(sep, 1)\<close>.\<close>

definition rsplit_target :: "string \<Rightarrow> string \<Rightarrow> string \<Rightarrow> StructuredRefTarget option" where
  "rsplit_target scope remainder field =
     (case rpartition (''.'' @ field @ ''.'') remainder of
        Some (c # step_name, d # member) \<Rightarrow> Some (target scope (c # step_name) field (Some (d # member)))
      | _ \<Rightarrow> None)"

definition fallback_target :: "string \<Rightarrow> string \<Rightarrow> StructuredRefTarget option" where
  "fallback_target scope remainder =
     (case before ''.exit_code'' remainder of
        Some (c # step_name) \<Rightarrow> Some (target scope (c # step_name) ''exit_code'' None)
      | _ \<Rightarrow> (case rsplit_target scope remainder ''artifacts'' of
        Some t \<Rightarrow> Some t
      | None \<Rightarrow> (case rsplit_target scope remainder ''snapshots'' of
        Some t \<Rightarrow> Some t
      | None \<Rightarrow> rsplit_target scope remainder ''outcome'')))"

definition parse_structured_ref_remainder ::
    "string \<Rightarrow> string \<Rightarrow> string list \<Rightarrow> exc + StructuredRefTarget" where
  "parse_structured_ref_remainder scope remainder step_names =
     (if remainder = [] then Inl ReferenceResolutionError
      else case selected_target scope remainder (selectors step_names) of
        Some t \<Rightarrow> Inr t
      | None \<Rightarrow> (case fallback_target scope remainder of
          Some t \<Rightarrow> Inr t
        | None \<Rightarrow> Inl ReferenceResolutionError))"

definition parse_structured_ref :: "pyval \<Rightarrow> string list \<Rightarrow> exc + StructuredRefTarget" where
  "parse_structured_ref ref step_names =
     (if \<not> nonempty_str ref then Inl ReferenceResolutionError
      else case after ''root.steps.'' (str_of ref) of
        Some remainder \<Rightarrow> parse_structured_ref_remainder ''root'' remainder step_names
      | None \<Rightarrow> (case after ''self.steps.'' (str_of ref) of
        Some remainder \<Rightarrow> parse_structured_ref_remainder ''self'' remainder step_names
      | None \<Rightarrow> (case after ''parent.steps.'' (str_of ref) of
        Some remainder \<Rightarrow> parse_structured_ref_remainder ''parent'' remainder step_names
      | None \<Rightarrow> Inl ReferenceResolutionError)))"

definition step_reference :: "exc + StructuredRefTarget \<Rightarrow> exc + SurfaceReference" where
  "step_reference parsed = rbind parsed (\<lambda>t. Inr
     (StructuredStepReference (target_scope t) (target_step t) (target_field t) (target_member t)))"

definition parse_surface_ref :: "pyval \<Rightarrow> SurfaceRefScopeCatalog \<Rightarrow> exc + SurfaceReference" where
  "parse_surface_ref ref catalog =
     (if \<not> nonempty_str ref then Inl ReferenceResolutionError
      else let s = str_of ref in
      case after ''inputs.'' s of
        Some input_name \<Rightarrow>
          if input_name = [] then Inl ReferenceResolutionError else Inr (WorkflowInputReference input_name)
      | None \<Rightarrow> (case after ''self.outputs.'' s of
        Some output_name \<Rightarrow>
          if output_name = [] then Inl ReferenceResolutionError
          else if output_names catalog \<noteq> [] \<and> output_name \<notin> set (output_names catalog)
          then Inl ReferenceResolutionError
          else Inr (SelfOutputReference output_name)
      | None \<Rightarrow>
          if after ''root.steps.'' s \<noteq> None
          then step_reference (parse_structured_ref ref (root_step_names catalog))
          else if after ''self.steps.'' s \<noteq> None
          then step_reference (parse_structured_ref ref (self_step_names catalog))
          else if after ''parent.steps.'' s \<noteq> None
          then if parent_step_names catalog = [] then Inl ReferenceResolutionError
            else step_reference (parse_structured_ref ref (parent_step_names catalog))
          else Inl ReferenceResolutionError))"

section \<open>Resolution\<close>

text \<open>\<open>value[key]\<close> of a value that must be a dict with that key.\<close>

definition member_value :: "pyval \<Rightarrow> string \<Rightarrow> exc + pyval" where
  "member_value v k = (case v of
      PDict kv \<Rightarrow> (case map_of kv k of None \<Rightarrow> Inl ReferenceResolutionError | Some x \<Rightarrow> Inr x)
    | _ \<Rightarrow> Inl ReferenceResolutionError)"

text \<open>\<open>scope_map.get(key)\<close> when the scope has the key, else \<open>state.get(key, {})\<close>.\<close>

definition scoped :: "pydict option \<Rightarrow> string \<Rightarrow> pydict \<Rightarrow> string \<Rightarrow> pyval" where
  "scoped sm key state state_key =
     (case sm of
        Some sc \<Rightarrow> (case map_of sc key of
            Some v \<Rightarrow> v
          | None \<Rightarrow> (case map_of state state_key of None \<Rightarrow> PDict [] | Some v \<Rightarrow> v))
      | None \<Rightarrow> (case map_of state state_key of None \<Rightarrow> PDict [] | Some v \<Rightarrow> v))"

definition step_results :: "string \<Rightarrow> pydict \<Rightarrow> pydict option \<Rightarrow> exc + pyval" where
  "step_results s state sm =
     (if after ''root.steps.'' s \<noteq> None then Inr (scoped sm ''root_steps'' state ''steps'')
      else if after ''self.steps.'' s \<noteq> None then
        (case sm of
           None \<Rightarrow> Inr (scoped None ''self_steps'' state ''steps'')
         | Some sc \<Rightarrow> (case map_of sc ''self_steps'' of
             Some v \<Rightarrow> Inr v
           | None \<Rightarrow> Inl ReferenceResolutionError))
      else if after ''parent.steps.'' s \<noteq> None then
        (case sm of
           None \<Rightarrow> Inl ReferenceResolutionError
         | Some sc \<Rightarrow> if is_mapping (dget sc ''parent_steps'') then Inr (dget sc ''parent_steps'')
             else Inl ReferenceResolutionError)
      else Inl ReferenceResolutionError)"

text \<open>The value a target names in the results of the steps.\<close>

definition target_value :: "StructuredRefTarget \<Rightarrow> pydict \<Rightarrow> exc + pyval" where
  "target_value t results =
     (case dget results (target_step t) of
        PDict step_result \<Rightarrow>
          if target_field t = ''exit_code'' then member_value (PDict step_result) ''exit_code''
          else if target_field t \<in> {''artifacts'', ''snapshots'', ''outcome''}
          then (case target_member t of
              Some m \<Rightarrow> member_value (dget step_result (target_field t)) m
            | None \<Rightarrow> Inl ReferenceResolutionError)
          else Inl ReferenceResolutionError
      | _ \<Rightarrow> Inl ReferenceResolutionError)"

definition results_value :: "pyval \<Rightarrow> pyval \<Rightarrow> exc + pyval" where
  "results_value ref results = (case results of
      PDict kv \<Rightarrow> rbind (parse_structured_ref ref (map fst kv)) (\<lambda>t. target_value t kv)
    | _ \<Rightarrow> Inl ReferenceResolutionError)"

definition scope_map :: "pyval \<Rightarrow> pydict option" where
  "scope_map scope = (case scope of PDict sc \<Rightarrow> Some sc | _ \<Rightarrow> None)"

definition resolve :: "pyval \<Rightarrow> pydict \<Rightarrow> pyval \<Rightarrow> exc + pyval" where
  "resolve ref state scope =
     (if \<not> is_str ref then Inl AttributeError
      else case after ''inputs.'' (str_of ref) of
        Some input_name \<Rightarrow>
          if input_name = [] then Inl ReferenceResolutionError
          else member_value (scoped (scope_map scope) ''inputs'' state ''bound_inputs'') input_name
      | None \<Rightarrow> rbind (step_results (str_of ref) state (scope_map scope)) (results_value ref))"

section \<open>Splitting text\<close>

lemma after_iff: "after p s = Some r \<longleftrightarrow> s = p @ r"
  by (auto simp: after_def) (metis append_take_drop_id)

lemma after_append [simp]: "after p (p @ r) = Some r"
  by (simp add: after_iff)

lemma before_iff: "before p s = Some r \<longleftrightarrow> s = r @ p"
  by (auto simp: before_def) (metis append_take_drop_id)

lemma rpartition_split: "rpartition sep s = Some (a, b) \<Longrightarrow> s = a @ sep @ b"
proof (induction s arbitrary: a)
  case (Cons c s)
  show ?case
  proof (cases "rpartition sep s")
    case None
    then have "take (length sep) (c # s) = sep" "a = []" "b = drop (length sep) (c # s)"
      using Cons.prems by (auto split: if_splits)
    then show ?thesis by (metis append_Nil append_take_drop_id)
  qed (use Cons in auto)
qed simp

section \<open>The printed form of a target\<close>

definition tail_text :: "StructuredRefTarget \<Rightarrow> string" where
  "tail_text t = target_field t @ (case target_member t of None \<Rightarrow> [] | Some m \<Rightarrow> ''.'' @ m)"

definition ref_text :: "StructuredRefTarget \<Rightarrow> string" where
  "ref_text t = target_scope t @ ''.steps.'' @ target_step t @ ''.'' @ tail_text t"

definition tail_ok :: "StructuredRefTarget \<Rightarrow> bool" where
  "tail_ok t \<longleftrightarrow> (case target_member t of
      None \<Rightarrow> target_field t = ''exit_code''
    | Some m \<Rightarrow> m \<noteq> [] \<and> target_field t \<in> {''artifacts'', ''snapshots'', ''outcome''})"

definition target_ok :: "StructuredRefTarget \<Rightarrow> bool" where
  "target_ok t \<longleftrightarrow> target_scope t \<in> {''root'', ''self'', ''parent''} \<and> target_step t \<noteq> [] \<and> tail_ok t"

definition names_target :: "string \<Rightarrow> string \<Rightarrow> StructuredRefTarget \<Rightarrow> bool" where
  "names_target scope remainder t \<longleftrightarrow>
     target_scope t = scope \<and> tail_ok t \<and> remainder = target_step t @ ''.'' @ tail_text t"

lemma target_sel [simp]:
  "target_scope (target sc n f m) = sc" "target_step (target sc n f m) = n"
  "target_field (target sc n f m) = f" "target_member (target sc n f m) = m"
  by (simp_all add: target_def)

lemma tail_okE:
  assumes "tail_ok t"
  obtains "target_member t = None" "target_field t = ''exit_code''"
  | m where "target_member t = Some m" "m \<noteq> []" "target_field t = ''artifacts''"
  | m where "target_member t = Some m" "m \<noteq> []" "target_field t = ''snapshots''"
  | m where "target_member t = Some m" "m \<noteq> []" "target_field t = ''outcome''"
  using assms unfolding tail_ok_def by (cases "target_member t") (simp, simp, blast)

lemma tail_target_text: "tail_ok t \<Longrightarrow> tail_target (target_scope t) (target_step t) (tail_text t) = Some t"
  by (elim tail_okE; cases t)
    (auto simp: tail_target_def tail_text_def after_def target_def neq_Nil_conv)

lemma tail_target_names:
  assumes "tail_target sc n rest = Some t"
  shows "target_scope t = sc \<and> target_step t = n \<and> tail_ok t \<and> rest = tail_text t"
  using assms unfolding tail_target_def
  by (auto simp: tail_ok_def tail_text_def after_iff split: if_splits option.splits list.splits)

lemma names_target_iff:
  "names_target sc rem t \<longleftrightarrow>
     (\<exists>rest. after (target_step t @ ''.'') rem = Some rest \<and> tail_target sc (target_step t) rest = Some t)"
proof
  assume "names_target sc rem t"
  then show "\<exists>rest. after (target_step t @ ''.'') rem = Some rest \<and> tail_target sc (target_step t) rest = Some t"
    unfolding names_target_def after_iff using tail_target_text [of t] by simp
next
  assume "\<exists>rest. after (target_step t @ ''.'') rem = Some rest \<and> tail_target sc (target_step t) rest = Some t"
  then show "names_target sc rem t"
    unfolding names_target_def after_iff by (elim exE conjE) (drule tail_target_names, simp)
qed

section \<open>The parse is the longest known step name\<close>

lemma same_step_same_target:
  assumes "names_target sc rem t" "names_target sc rem u" "length (target_step t) = length (target_step u)"
  shows "t = u"
proof -
  have "target_step t = target_step u"
    using assms unfolding names_target_def by (metis append_eq_append_conv)
  then show ?thesis using assms(1,2) unfolding names_target_iff by auto
qed

lemma selected_target_iff:
  assumes "sorted_wrt (\<lambda>m n. length n \<le> length m) names"
  shows "selected_target sc rem names = Some t \<longleftrightarrow>
     names_target sc rem t \<and> target_step t \<in> set names \<and>
     (\<forall>u. names_target sc rem u \<and> target_step u \<in> set names \<longrightarrow> length (target_step u) \<le> length (target_step t))"
  using assms
proof (induction names)
  case (Cons n names)
  show ?case
  proof (cases "\<exists>u. names_target sc rem u \<and> target_step u = n")
    case True
    then obtain u where u: "names_target sc rem u" "target_step u = n" by blast
    then have "selected_target sc rem (n # names) = Some u" unfolding names_target_iff by auto
    moreover have "length (target_step v) \<le> length n" if "target_step v \<in> set (n # names)" for v
      using that Cons.prems by auto
    ultimately show ?thesis
      using u same_step_same_target [OF _ u(1)] by (metis le_antisym list.set_intros(1) option.inject)
  next
    case False
    have "selected_target sc rem (n # names) = selected_target sc rem names"
    proof (cases "after (n @ ''.'') rem")
      case (Some rest)
      then have "tail_target sc n rest = None"
        using False tail_target_names [of sc n rest] unfolding names_target_iff by (cases "tail_target sc n rest") auto
      then show ?thesis using Some by simp
    qed simp
    then show ?thesis using Cons False by auto
  qed
qed simp

lemma selectors_sorted: "sorted_wrt (\<lambda>m n. length n \<le> length m) (selectors names)"
proof -
  have "sorted (map length (sort_key length (remdups (filter (\<lambda>name. name \<noteq> []) names))))" by simp
  then show ?thesis unfolding selectors_def sorted_wrt_rev by (simp add: sorted_wrt_map)
qed

lemma set_selectors [simp]: "set (selectors names) = set names - {[]}"
  by (auto simp: selectors_def)

lemma option_eq_by_Some: "(\<And>t. m = Some t \<longleftrightarrow> m' = Some t) \<Longrightarrow> m = m'"
  by (cases m; cases m') auto

text \<open>Any enumeration of the name set that is sorted by decreasing length selects the same target.\<close>

lemma selected_target_any_order:
  assumes "sorted_wrt (\<lambda>m n. length n \<le> length m) names" "set names = set step_names - {[]}"
  shows "selected_target sc rem names = selected_target sc rem (selectors step_names)"
  by (rule option_eq_by_Some) (simp add: selected_target_iff [OF assms(1)] selected_target_iff [OF selectors_sorted] assms(2))

lemma parse_remainder_cong:
  assumes "set names = set names'"
  shows "parse_structured_ref_remainder sc rem names = parse_structured_ref_remainder sc rem names'"
  using selected_target_any_order [OF selectors_sorted, of names names' sc rem] assms
  by (simp add: parse_structured_ref_remainder_def)

lemma rsplit_target_names:
  assumes "rsplit_target sc rem f = Some t" "f \<in> {''artifacts'', ''snapshots'', ''outcome''}"
  shows "names_target sc rem t \<and> target_step t \<noteq> []"
proof -
  obtain a b where "rpartition (''.'' @ f @ ''.'') rem = Some (a, b)" "a \<noteq> []" "b \<noteq> []" "t = target sc a f (Some b)"
    using assms(1) unfolding rsplit_target_def by (auto split: option.splits list.splits prod.splits)
  then show ?thesis
    using rpartition_split [of "''.'' @ f @ ''.''" rem a b] assms(2)
    unfolding names_target_def tail_ok_def tail_text_def by simp
qed

lemma fallback_target_names:
  assumes "fallback_target sc rem = Some t"
  shows "names_target sc rem t \<and> target_step t \<noteq> []"
proof (cases "\<exists>c n. before ''.exit_code'' rem = Some (c # n)")
  case True
  then obtain c n where exit: "before ''.exit_code'' rem = Some (c # n)" by blast
  then have "t = target sc (c # n) ''exit_code'' None" using assms unfolding fallback_target_def by simp
  moreover have "rem = (c # n) @ ''.exit_code''" using exit unfolding before_iff .
  ultimately show ?thesis by (simp add: names_target_def tail_ok_def tail_text_def)
next
  case False
  then have "rsplit_target sc rem ''artifacts'' = Some t \<or> rsplit_target sc rem ''snapshots'' = Some t
      \<or> rsplit_target sc rem ''outcome'' = Some t"
    using assms unfolding fallback_target_def by (auto split: option.splits list.splits)
  then show ?thesis using rsplit_target_names by blast
qed

lemma parse_remainder_names:
  assumes "parse_structured_ref_remainder sc rem names = Inr t"
  shows "names_target sc rem t \<and> target_step t \<noteq> []"
proof (cases "selected_target sc rem (selectors names)")
  case None
  then show ?thesis
    using assms fallback_target_names unfolding parse_structured_ref_remainder_def
    by (auto split: if_splits option.splits)
next
  case (Some u)
  then show ?thesis
    using assms selected_target_iff [OF selectors_sorted, of sc rem names u]
    unfolding parse_structured_ref_remainder_def by (auto split: if_splits)
qed

lemma ref_text_remainder:
  "ref_text t = (target_scope t @ ''.steps.'') @ (target_step t @ ''.'' @ tail_text t)"
  unfolding ref_text_def by simp

lemma names_target_self: "tail_ok t \<Longrightarrow> names_target (target_scope t) (target_step t @ ''.'' @ tail_text t) t"
  unfolding names_target_def by simp

lemma parse_scope:
  assumes "sc \<in> {''root'', ''self'', ''parent''}"
  shows "parse_structured_ref (PStr ((sc @ ''.steps.'') @ r)) names = parse_structured_ref_remainder sc r names"
proof -
  consider "sc = ''root''" | "sc = ''self''" | "sc = ''parent''" using assms by blast
  then show ?thesis
    by cases (simp_all add: parse_structured_ref_def after_def)
qed

lemma parse_scopeE:
  assumes "parse_structured_ref ref names = Inr t"
  obtains sc r where "sc \<in> {''root'', ''self'', ''parent''}" "ref = PStr ((sc @ ''.steps.'') @ r)"
    "parse_structured_ref_remainder sc r names = Inr t"
proof -
  obtain s where ref: "ref = PStr s"
    using assms nonempty_strE [of ref] unfolding parse_structured_ref_def by (cases ref) auto
  have "(\<exists>r. after ''root.steps.'' s = Some r \<and> parse_structured_ref_remainder ''root'' r names = Inr t)
      \<or> (\<exists>r. after ''self.steps.'' s = Some r \<and> parse_structured_ref_remainder ''self'' r names = Inr t)
      \<or> (\<exists>r. after ''parent.steps.'' s = Some r \<and> parse_structured_ref_remainder ''parent'' r names = Inr t)"
    using assms unfolding parse_structured_ref_def ref
    by (simp only: str_simps split: if_splits option.splits) simp_all
  then show thesis
    using that [of "''root''"] that [of "''self''"] that [of "''parent''"] ref
    unfolding after_iff by auto
qed

lemma longest_known:
  assumes "names_target sc rem t" "names_target sc rem u"
    "\<forall>n\<in>set names. \<not> prefix (target_step t @ ''.'') n" "target_step u \<in> set names"
  shows "length (target_step u) \<le> length (target_step t)"
proof (rule ccontr)
  assume "\<not> ?thesis"
  then have longer: "length (target_step t @ ''.'') \<le> length (target_step u)" by simp
  have "rem = (target_step t @ ''.'') @ tail_text t" "rem = target_step u @ (''.'' @ tail_text u)"
    using assms(1,2) unfolding names_target_def by simp_all
  then have "prefix (target_step t @ ''.'') rem" "prefix (target_step u) rem"
    unfolding prefix_def by blast+
  then have "prefix (target_step t @ ''.'') (target_step u)"
    using longer prefix_length_prefix by blast
  then show False using assms(3,4) by blast
qed

lemma parse_known_step:
  assumes "names_target sc rem t" "target_step t \<in> set names" "target_step t \<noteq> []"
    "\<forall>n\<in>set names. \<not> prefix (target_step t @ ''.'') n"
  shows "parse_structured_ref_remainder sc rem names = Inr t"
proof -
  have "selected_target sc rem (selectors names) = Some t"
    unfolding selected_target_iff [OF selectors_sorted] using assms longest_known by auto
  moreover have "rem \<noteq> []" using assms(1) unfolding names_target_def by simp
  ultimately show ?thesis unfolding parse_structured_ref_remainder_def by simp
qed

lemma parse_printed:
  assumes "target_ok t" "target_step t \<in> set names"
    "\<forall>n\<in>set names. \<not> prefix (target_step t @ ''.'') n"
  shows "parse_structured_ref (PStr (ref_text t)) names = Inr t"
proof -
  have ok: "target_scope t \<in> {''root'', ''self'', ''parent''}" "target_step t \<noteq> []" "tail_ok t"
    using assms(1) unfolding target_ok_def by blast+
  show ?thesis
    unfolding ref_text_remainder parse_scope [OF ok(1)]
    by (rule parse_known_step [OF names_target_self [OF ok(3)] assms(2) ok(2) assms(3)])
qed

section \<open>Resolution reads what the reference names\<close>

lemma member_value_error: "member_value v k = Inl e \<Longrightarrow> e = ReferenceResolutionError"
  unfolding member_value_def by (auto split: pyval.splits option.splits)

lemma target_value_error: "target_value t kv = Inl e \<Longrightarrow> e = ReferenceResolutionError"
  unfolding target_value_def using member_value_error
  by (auto split: pyval.splits if_splits option.splits)

lemma step_results_error: "step_results s state sc = Inl e \<Longrightarrow> e = ReferenceResolutionError"
  unfolding step_results_def by (auto split: if_splits option.splits)

lemma parse_error: "parse_structured_ref ref names = Inl e \<Longrightarrow> e = ReferenceResolutionError"
  unfolding parse_structured_ref_def parse_structured_ref_remainder_def
  by (auto split: if_splits option.splits)

lemma results_value_error: "results_value ref v = Inl e \<Longrightarrow> e = ReferenceResolutionError"
  unfolding results_value_def using target_value_error parse_error
  by (cases v) (auto simp: result_simps)

lemma resolve_error: "resolve (PStr s) state scope = Inl e \<Longrightarrow> e = ReferenceResolutionError"
  unfolding resolve_def using member_value_error step_results_error results_value_error
  by (auto simp: result_simps split: if_splits option.splits)

lemma resolve_step:
  assumes "target_ok t" "step_results (ref_text t) state (scope_map scope) = Inr (PDict kv)"
  shows "resolve (PStr (ref_text t)) state scope
    = rbind (parse_structured_ref (PStr (ref_text t)) (map fst kv)) (\<lambda>u. target_value u kv)"
proof -
  have "after ''inputs.'' (ref_text t) = None"
  proof -
    consider "target_scope t = ''root''" | "target_scope t = ''self''" | "target_scope t = ''parent''"
      using assms(1) unfolding target_ok_def by blast
    then show ?thesis by cases (simp_all add: ref_text_def after_def)
  qed
  then show ?thesis unfolding resolve_def results_value_def using assms(2) by simp
qed

section \<open>Properties\<close>

text \<open>
  C29: printing a target and parsing the text gives the target back, for a known step whose name,
  followed by a dot, does not start another known name.
\<close>

theorem parse_ref_roundtrip:
  assumes "target_ok t" "target_step t \<in> set names"
    "\<forall>n\<in>set names. \<not> prefix (target_step t @ ''.'') n"
  shows "parse_structured_ref (PStr (ref_text t)) names = Inr t"
  by (rule parse_printed [OF assms])

theorem parse_ref_roundtrip_witness:
  "parse_structured_ref (PStr ''self.steps.a.b.artifacts.c.d'') [''a'', ''a.b''] = Inr (target ''self'' ''a.b'' ''artifacts'' (Some ''c.d''))"
  using parse_ref_roundtrip [of "target ''self'' ''a.b'' ''artifacts'' (Some ''c.d'')" "[''a'', ''a.b'']"]
  by (simp add: target_ok_def tail_ok_def ref_text_def tail_text_def)

text \<open>
  Whatever the known names are, a parsed reference is a well-formed target whose printed
  form is the reference itself: parsing loses and invents nothing.
\<close>

theorem parsed_ref_prints_back:
  assumes "parse_structured_ref ref names = Inr t"
  shows "target_ok t \<and> ref = PStr (ref_text t)"
proof -
  obtain sc r where sc: "sc \<in> {''root'', ''self'', ''parent''}" "ref = PStr ((sc @ ''.steps.'') @ r)"
    and r: "parse_structured_ref_remainder sc r names = Inr t"
    by (rule parse_scopeE [OF assms])
  show ?thesis
    using parse_remainder_names [OF r] sc unfolding target_ok_def names_target_def ref_text_remainder
    by simp
qed

theorem parsed_ref_prints_back_witness:
  "PStr ''root.steps.x.artifacts.y.artifacts.z''
    = PStr (ref_text (target ''root'' ''x.artifacts.y'' ''artifacts'' (Some ''z'')))"
proof -
  have "parse_structured_ref (PStr ''root.steps.x.artifacts.y.artifacts.z'') []
      = Inr (target ''root'' ''x.artifacts.y'' ''artifacts'' (Some ''z''))" by code_simp
  from parsed_ref_prints_back [OF this] show ?thesis by (rule conjunct2)
qed

text \<open>
  The parse depends on the set of known step names only, not on the order in which they
  are given, repetitions, or the iteration order of the set built from them.
\<close>

theorem parse_ref_order_irrelevant:
  assumes "set names = set names'"
  shows "parse_structured_ref ref names = parse_structured_ref ref names'"
  unfolding parse_structured_ref_def using parse_remainder_cong [OF assms] by (simp split: option.splits)

theorem parse_ref_order_irrelevant_witness:
  "parse_structured_ref (PStr ''root.steps.a.exit_code'') [''a'', ''b'']
   = parse_structured_ref (PStr ''root.steps.a.exit_code'') [''b'', ''a'', ''b'']"
  by (rule parse_ref_order_irrelevant) auto

text \<open>
  C30: resolving a reference to a known step gives the value stored under the member of that
  step's result in the results of its scope, and resolving any string raises nothing but
  ReferenceResolutionError.
\<close>

theorem resolve_reads_target:
  assumes "target_ok t" "target_step t \<in> set (map fst kv)"
    "\<forall>n\<in>set (map fst kv). \<not> prefix (target_step t @ ''.'') n"
    "step_results (ref_text t) state (scope_map scope) = Inr (PDict kv)"
  shows "resolve (PStr (ref_text t)) state scope = target_value t kv
    \<and> (\<forall>s e. resolve (PStr s) state scope = Inl e \<longrightarrow> e = ReferenceResolutionError)"
  using resolve_step [OF assms(1,4)] parse_printed [OF assms(1-3)] resolve_error by simp

theorem resolve_reads_target_witness:
  "resolve (PStr ''root.steps.build.artifacts.path'')
     [(''steps'', PDict [(''build'', PDict [(''artifacts'', PDict [(''path'', PStr ''out'')])])])] PNone
   = Inr (PStr ''out'')"
  using resolve_reads_target [of "target ''root'' ''build'' ''artifacts'' (Some ''path'')"
      "[(''build'', PDict [(''artifacts'', PDict [(''path'', PStr ''out'')])])]"
      "[(''steps'', PDict [(''build'', PDict [(''artifacts'', PDict [(''path'', PStr ''out'')])])])]" PNone]
  by (simp add: target_ok_def tail_ok_def ref_text_def tail_text_def step_results_def after_def
      scope_map_def scoped_def target_value_def member_value_def)

text \<open>
  A scope that binds the inputs and the root steps closes the reference: resolution never
  reads the run state, whatever the reference is.
\<close>

theorem scoped_resolution_isolated:
  assumes "map_of sc ''inputs'' \<noteq> None" "map_of sc ''root_steps'' \<noteq> None"
  shows "resolve ref state (PDict sc) = resolve ref state' (PDict sc)"
proof -
  have "scoped (Some sc) ''inputs'' state k = scoped (Some sc) ''inputs'' state' k"
    "scoped (Some sc) ''root_steps'' state k = scoped (Some sc) ''root_steps'' state' k" for k
    using assms by (auto simp: scoped_def)
  then show ?thesis
    unfolding resolve_def scope_map_def step_results_def by (simp cong: if_cong option.case_cong)
qed

theorem scoped_resolution_isolated_witness:
  "resolve (PStr ''self.steps.a.exit_code'') [(''steps'', PDict [(''a'', PDict [(''exit_code'', PInt 0)])])]
     (PDict [(''inputs'', PDict []), (''root_steps'', PDict [])])
   = resolve (PStr ''self.steps.a.exit_code'') [] (PDict [(''inputs'', PDict []), (''root_steps'', PDict [])])"
  by (rule scoped_resolution_isolated) simp_all

end
