(* ===== verification/Predicates.thy ===== *)
theory Predicates
  imports References FileSystem
begin

text \<open>
  Typed predicates of \<open>src/orchestrator/workflow/predicates.py\<close>: the authored form is a dict
  with exactly one operator key; \<open>parse_typed_predicate\<close> turns it into nodes and \<open>evaluate\<close>
  decides it against the run state. \<open>all\<close> and \<open>any\<close> stop at the first item that decides them,
  so exceptions of later items are not raised. The lemmas relate the two functions, show which
  exceptions evaluation can raise, and give the algebra of the operators (negation, De Morgan,
  score as a conjunction of comparisons), exceptions included.
\<close>

section \<open>Nodes\<close>

datatype operand_node = LiteralOperand pyval | RefOperand SurfaceReference

datatype predicate_node =
    ArtifactBoolPredicateNode SurfaceReference
  | ComparePredicateNode operand_node string operand_node
  | ScorePredicateNode SurfaceReference pyval pyval pyval pyval
  | AllOfPredicateNode "predicate_node list"
  | AnyOfPredicateNode "predicate_node list"
  | NotPredicateNode predicate_node

definition SCORE_PREDICATE_BOUND_KEYS :: "string list" where
  "SCORE_PREDICATE_BOUND_KEYS = [''gt'', ''gte'', ''lt'', ''lte'']"

definition TYPED_PREDICATE_OPERATOR_KEYS :: "string list" where
  "TYPED_PREDICATE_OPERATOR_KEYS = [''artifact_bool'', ''compare'', ''score'', ''all_of'', ''any_of'', ''not'']"

definition has_key :: "pydict \<Rightarrow> string \<Rightarrow> bool" where
  "has_key kv k = (map_of kv k \<noteq> None)"

definition typed_predicate_operator_keys :: "pydict \<Rightarrow> string list" where
  "typed_predicate_operator_keys predicate = filter (has_key predicate) TYPED_PREDICATE_OPERATOR_KEYS"

definition is_numeric_predicate_value :: "pyval \<Rightarrow> bool" where
  "is_numeric_predicate_value v = (case v of PInt _ \<Rightarrow> True | PFloat _ \<Rightarrow> True | _ \<Rightarrow> False)"

text \<open>\<open>set(kv.keys()) == {"ref"}\<close>\<close>

definition only_ref :: "pydict \<Rightarrow> bool" where
  "only_ref kv = (map fst kv \<noteq> [] \<and> list_all (\<lambda>k. k = ''ref'') (map fst kv))"

text \<open>The operator of a dict with exactly one, which both functions read off first.\<close>

definition the_operator :: "pyval \<Rightarrow> exc + string" where
  "the_operator predicate = (case predicate of
      PDict kv \<Rightarrow> (case typed_predicate_operator_keys kv of
          [k] \<Rightarrow> Inr k
        | _ \<Rightarrow> Inl PredicateEvaluationError)
    | _ \<Rightarrow> Inl PredicateEvaluationError)"

section \<open>Parsing\<close>

definition parse_typed_operand :: "SurfaceRefScopeCatalog \<Rightarrow> pyval \<Rightarrow> exc + operand_node" where
  "parse_typed_operand catalog operand = (case operand of
      PDict kv \<Rightarrow>
        if \<not> only_ref kv then Inl PredicateEvaluationError
        else rbind (parse_surface_ref (dget kv ''ref'') catalog) (\<lambda>r. Inr (RefOperand r))
    | _ \<Rightarrow> Inr (LiteralOperand operand))"

definition parse_artifact_bool :: "SurfaceRefScopeCatalog \<Rightarrow> pyval \<Rightarrow> exc + predicate_node" where
  "parse_artifact_bool catalog node = (case node of
      PDict kv \<Rightarrow>
        if \<not> only_ref kv then Inl PredicateEvaluationError
        else rbind (parse_surface_ref (dget kv ''ref'') catalog) (\<lambda>r. Inr (ArtifactBoolPredicateNode r))
    | _ \<Rightarrow> Inl PredicateEvaluationError)"

definition parse_compare ::
    "(pyval \<Rightarrow> string) \<Rightarrow> SurfaceRefScopeCatalog \<Rightarrow> pyval \<Rightarrow> exc + predicate_node" where
  "parse_compare container_repr catalog node = (case node of
      PDict kv \<Rightarrow>
        rbind (parse_typed_operand catalog (dget kv ''left'')) (\<lambda>left.
        rbind (parse_typed_operand catalog (dget kv ''right'')) (\<lambda>right.
        Inr (ComparePredicateNode left (py_str container_repr (dget kv ''op'')) right)))
    | _ \<Rightarrow> Inl PredicateEvaluationError)"

definition parse_score :: "SurfaceRefScopeCatalog \<Rightarrow> pyval \<Rightarrow> exc + predicate_node" where
  "parse_score catalog node = (case node of
      PDict kv \<Rightarrow>
        if \<not> nonempty_str (dget kv ''ref'') then Inl PredicateEvaluationError
        else rbind (parse_surface_ref (dget kv ''ref'') catalog) (\<lambda>r.
          Inr (ScorePredicateNode r (dget kv ''gt'') (dget kv ''gte'') (dget kv ''lt'') (dget kv ''lte'')))
    | _ \<Rightarrow> Inl PredicateEvaluationError)"

lemma item_list_size: "py_item v k = Inr (PList xs) \<Longrightarrow> x \<in> set xs \<Longrightarrow> size x < size v"
  using size_py_item [of v k "PList xs"] size_list_mem [of x xs] by simp

function parse_typed_predicate ::
    "(pyval \<Rightarrow> string) \<Rightarrow> SurfaceRefScopeCatalog \<Rightarrow> pyval \<Rightarrow> exc + predicate_node" where
  "parse_typed_predicate container_repr catalog predicate =
     rbind (the_operator predicate) (\<lambda>operator.
     rbind (py_item predicate operator) (\<lambda>node.
       if operator = ''artifact_bool'' then parse_artifact_bool catalog node
       else if operator = ''compare'' then parse_compare container_repr catalog node
       else if operator = ''score'' then parse_score catalog node
       else if operator = ''all_of'' then
         (case node of
            PList items \<Rightarrow> rbind (map_r (parse_typed_predicate container_repr catalog) items)
              (\<lambda>ns. Inr (AllOfPredicateNode ns))
          | _ \<Rightarrow> Inl PredicateEvaluationError)
       else if operator = ''any_of'' then
         (case node of
            PList items \<Rightarrow> rbind (map_r (parse_typed_predicate container_repr catalog) items)
              (\<lambda>ns. Inr (AnyOfPredicateNode ns))
          | _ \<Rightarrow> Inl PredicateEvaluationError)
       else rbind (parse_typed_predicate container_repr catalog node) (\<lambda>n. Inr (NotPredicateNode n))))"
  by pat_completeness auto
termination
  by (relation "measure (\<lambda>(_, _, p). size p)") (auto simp: size_py_item item_list_size)

section \<open>Evaluation\<close>

text \<open>\<open>all\<close> and \<open>any\<close> over a generator.\<close>

fun all_r :: "('a \<Rightarrow> exc + bool) \<Rightarrow> 'a list \<Rightarrow> exc + bool" where
  "all_r f [] = Inr True"
| "all_r f (x # xs) = rbind (f x) (\<lambda>b. if b then all_r f xs else Inr False)"

fun any_r :: "('a \<Rightarrow> exc + bool) \<Rightarrow> 'a list \<Rightarrow> exc + bool" where
  "any_r f [] = Inr False"
| "any_r f (x # xs) = rbind (f x) (\<lambda>b. if b then Inr True else any_r f xs)"

lemma all_any_cong [fundef_cong]:
  "xs = ys \<Longrightarrow> (\<And>x. x \<in> set ys \<Longrightarrow> f x = g x) \<Longrightarrow> all_r f xs = all_r g ys"
  "xs = ys \<Longrightarrow> (\<And>x. x \<in> set ys \<Longrightarrow> f x = g x) \<Longrightarrow> any_r f xs = any_r g ys"
  by (induction ys arbitrary: xs) (auto intro!: rbind_cong)

definition resolve_typed_operand :: "pydict \<Rightarrow> pyval \<Rightarrow> pyval \<Rightarrow> exc + pyval" where
  "resolve_typed_operand state scope operand = (case operand of
      PDict kv \<Rightarrow>
        if only_ref kv
        then (case resolve (dget kv ''ref'') state scope of
            Inl ReferenceResolutionError \<Rightarrow> Inl PredicateEvaluationError
          | r \<Rightarrow> r)
        else Inl PredicateEvaluationError
    | _ \<Rightarrow> Inr operand)"

definition evaluate_artifact_bool :: "pydict \<Rightarrow> pyval \<Rightarrow> pyval \<Rightarrow> exc + bool" where
  "evaluate_artifact_bool state scope node = (case node of
      PDict kv \<Rightarrow>
        if \<not> has_key kv ''ref'' then Inl PredicateEvaluationError
        else rbind (resolve_typed_operand state scope node) (\<lambda>v.
          case v of PBool b \<Rightarrow> Inr b | _ \<Rightarrow> Inl PredicateEvaluationError)
    | _ \<Rightarrow> Inl PredicateEvaluationError)"

definition compare_values :: "pyval \<Rightarrow> pyval \<Rightarrow> pyval \<Rightarrow> exc + bool" where
  "compare_values op left right =
     (if op = PStr ''eq'' then Inr (py_eq left right)
      else if op = PStr ''ne'' then Inr (\<not> py_eq left right)
      else if \<not> hashable op then Inl TypeError
      else if op \<in> {PStr ''lt'', PStr ''lte'', PStr ''gt'', PStr ''gte''}
         \<and> (\<not> is_numeric_predicate_value left \<or> \<not> is_numeric_predicate_value right)
      then Inl PredicateEvaluationError
      else if op = PStr ''lt'' then py_less left right
      else if op = PStr ''lte'' then py_le left right
      else if op = PStr ''gt'' then py_less right left
      else if op = PStr ''gte'' then py_le right left
      else Inl PredicateEvaluationError)"

definition evaluate_compare :: "pydict \<Rightarrow> pyval \<Rightarrow> pyval \<Rightarrow> exc + bool" where
  "evaluate_compare state scope node = (case node of
      PDict kv \<Rightarrow>
        rbind (resolve_typed_operand state scope (dget kv ''left'')) (\<lambda>left.
        rbind (resolve_typed_operand state scope (dget kv ''right'')) (\<lambda>right.
        compare_values (dget kv ''op'') left right))
    | _ \<Rightarrow> Inl PredicateEvaluationError)"

text \<open>\<open>if key in bounds and not score <op> bounds[key]: return False\<close>, then the next test.\<close>

definition within :: "(pyval \<Rightarrow> pyval \<Rightarrow> exc + bool) \<Rightarrow> pydict \<Rightarrow> string \<Rightarrow> pyval \<Rightarrow> exc + bool \<Rightarrow> exc + bool" where
  "within holds bounds key score next_test = (case map_of bounds key of
      None \<Rightarrow> next_test
    | Some b \<Rightarrow> rbind (holds score b) (\<lambda>ok. if ok then next_test else Inr False))"

definition evaluate_score :: "pydict \<Rightarrow> pyval \<Rightarrow> pyval \<Rightarrow> exc + bool" where
  "evaluate_score state scope node = (case node of
      PDict kv \<Rightarrow>
        if \<not> nonempty_str (dget kv ''ref'') then Inl PredicateEvaluationError
        else if has_key kv ''gt'' \<and> has_key kv ''gte'' then Inl PredicateEvaluationError
        else if has_key kv ''lt'' \<and> has_key kv ''lte'' then Inl PredicateEvaluationError
        else let bounds = map (\<lambda>key. (key, dget kv key)) (filter (has_key kv) SCORE_PREDICATE_BOUND_KEYS) in
        if bounds = [] then Inl PredicateEvaluationError
        else if \<not> list_all (\<lambda>(k, v). is_numeric_predicate_value v) bounds then Inl PredicateEvaluationError
        else rbind (resolve_typed_operand state scope (PDict [(''ref'', dget kv ''ref'')])) (\<lambda>score.
        if \<not> is_numeric_predicate_value score then Inl PredicateEvaluationError
        else within (\<lambda>s b. py_less b s) bounds ''gt'' score
            (within (\<lambda>s b. py_le b s) bounds ''gte'' score
            (within py_less bounds ''lt'' score
            (within py_le bounds ''lte'' score (Inr True)))))
    | _ \<Rightarrow> Inl PredicateEvaluationError)"

function evaluate :: "pydict \<Rightarrow> pyval \<Rightarrow> pyval \<Rightarrow> exc + bool" where
  "evaluate state scope predicate =
     rbind (the_operator predicate) (\<lambda>operator.
     rbind (py_item predicate operator) (\<lambda>node.
       if operator = ''artifact_bool'' then evaluate_artifact_bool state scope node
       else if operator = ''compare'' then evaluate_compare state scope node
       else if operator = ''score'' then evaluate_score state scope node
       else if operator = ''all_of'' then
         (case node of
            PList items \<Rightarrow> if items = [] then Inl PredicateEvaluationError
              else all_r (evaluate state scope) items
          | _ \<Rightarrow> Inl PredicateEvaluationError)
       else if operator = ''any_of'' then
         (case node of
            PList items \<Rightarrow> if items = [] then Inl PredicateEvaluationError
              else any_r (evaluate state scope) items
          | _ \<Rightarrow> Inl PredicateEvaluationError)
       else rbind (evaluate state scope node) (\<lambda>b. Inr (\<not> b))))"
  by pat_completeness auto
termination
  by (relation "measure (\<lambda>(_, _, p). size p)") (auto simp: size_py_item item_list_size)

declare parse_typed_predicate.simps [simp del] evaluate.simps [simp del]

section \<open>The operators on single-key predicates\<close>

lemma single_operator:
  "k \<in> set TYPED_PREDICATE_OPERATOR_KEYS \<Longrightarrow> the_operator (PDict [(k, v)]) = Inr k"
  by (auto simp: the_operator_def typed_predicate_operator_keys_def TYPED_PREDICATE_OPERATOR_KEYS_def has_key_def)

lemma evaluate_single:
  "evaluate state scope (PDict [(''compare'', v)]) = evaluate_compare state scope v"
  "evaluate state scope (PDict [(''score'', v)]) = evaluate_score state scope v"
  "evaluate state scope (PDict [(''not'', v)]) = rbind (evaluate state scope v) (\<lambda>b. Inr (\<not> b))"
  "evaluate state scope (PDict [(''all_of'', PList ps)]) =
     (if ps = [] then Inl PredicateEvaluationError else all_r (evaluate state scope) ps)"
  "evaluate state scope (PDict [(''any_of'', PList ps)]) =
     (if ps = [] then Inl PredicateEvaluationError else any_r (evaluate state scope) ps)"
  by (subst evaluate.simps, simp add: single_operator TYPED_PREDICATE_OPERATOR_KEYS_def)+

lemma any_of_negations:
  "any_r (\<lambda>x. rbind (f x) (\<lambda>b. Inr (\<not> b))) xs = rbind (all_r f xs) (\<lambda>b. Inr (\<not> b))"
proof (induction xs)
  case (Cons x xs)
  then show ?case by (cases "f x") simp_all
qed simp

lemma any_r_map: "any_r f (map g xs) = any_r (\<lambda>x. f (g x)) xs"
  by (induction xs) (auto intro!: rbind_cong)

section \<open>Exceptions\<close>

lemma all_any_error:
  "all_r f xs = Inl e \<Longrightarrow> \<exists>x \<in> set xs. f x = Inl e"
  "any_r f xs = Inl e \<Longrightarrow> \<exists>x \<in> set xs. f x = Inl e"
  by (induction xs) (auto simp: result_simps split: if_splits)

lemma the_operator_error: "the_operator p = Inl e \<Longrightarrow> e = PredicateEvaluationError"
  unfolding the_operator_def by (auto split: pyval.splits list.splits)

lemma operator_present: "the_operator p = Inr k \<Longrightarrow> \<exists>v. py_item p k = Inr v"
proof -
  assume op: "the_operator p = Inr k"
  then obtain kv where "p = PDict kv" "typed_predicate_operator_keys kv = [k]"
    unfolding the_operator_def by (auto split: pyval.splits list.splits)
  moreover from this have "has_key kv k"
    unfolding typed_predicate_operator_keys_def by (auto simp: filter_eq_Cons_iff)
  ultimately show ?thesis unfolding has_key_def by auto
qed

lemma operand_error:
  assumes "resolve_typed_operand state scope v = Inl e"
    "\<And>kv. v = PDict kv \<Longrightarrow> only_ref kv \<Longrightarrow> is_str (dget kv ''ref'')"
  shows "e = PredicateEvaluationError"
proof -
  have "e = PredicateEvaluationError" if v: "v = PDict kv" "only_ref kv" for kv
  proof -
    obtain s where s: "dget kv ''ref'' = PStr s" using assms(2) [OF v] by (elim is_strE)
    show ?thesis
      using assms(1) v resolve_error [of s state scope] unfolding resolve_typed_operand_def
      by (cases "resolve (PStr s) state scope") (auto simp: s)
  qed
  then show ?thesis
    using assms(1) unfolding resolve_typed_operand_def by (auto split: pyval.splits if_splits)
qed

lemma surface_ref_is_str: "parse_surface_ref r c = Inr n \<Longrightarrow> is_str r"
  unfolding parse_surface_ref_def by (cases r) auto

lemma numeric_order:
  assumes "is_numeric_predicate_value a" "is_numeric_predicate_value b"
  shows "\<exists>c. py_less a b = Inr c" "\<exists>c. py_le a b = Inr c"
  using assms unfolding is_numeric_predicate_value_def py_less_def py_le_def
  by (auto split: pyval.splits)

lemma compare_error: "compare_values op a b = Inl e \<Longrightarrow> e = PredicateEvaluationError \<or> e = TypeError \<and> \<not> hashable op"
  unfolding compare_values_def using numeric_order [of a b] numeric_order [of b a]
  by (auto split: if_splits)

lemma within_error:
  assumes "within holds bs k s next_test = Inl e" "is_numeric_predicate_value s"
    "list_all (\<lambda>(k, v). is_numeric_predicate_value v) bs"
    "\<And>b. is_numeric_predicate_value b \<Longrightarrow> \<exists>c. holds s b = Inr c"
  shows "next_test = Inl e"
proof (cases "map_of bs k")
  case (Some b)
  then have "is_numeric_predicate_value b" using assms(3) by (auto simp: list_all_iff dest!: map_of_SomeD)
  then obtain c where "holds s b = Inr c" using assms(4) by blast
  then show ?thesis using assms(1) Some unfolding within_def by (auto split: if_splits)
qed (use assms(1) in \<open>simp add: within_def\<close>)

lemma score_error:
  assumes "evaluate_score state scope v = Inl e"
  shows "e = PredicateEvaluationError"
proof (rule ccontr)
  assume other: "e \<noteq> PredicateEvaluationError"
  obtain kv where v: "v = PDict kv" using assms other unfolding evaluate_score_def by (cases v) auto
  define bs where "bs = map (\<lambda>key. (key, dget kv key)) (filter (has_key kv) SCORE_PREDICATE_BOUND_KEYS)"
  have ref: "nonempty_str (dget kv ''ref'')" and bs: "list_all (\<lambda>(k, v). is_numeric_predicate_value v) bs"
    and score: "rbind (resolve_typed_operand state scope (PDict [(''ref'', dget kv ''ref'')])) (\<lambda>s.
        if \<not> is_numeric_predicate_value s then Inl PredicateEvaluationError
        else within (\<lambda>s b. py_less b s) bs ''gt'' s (within (\<lambda>s b. py_le b s) bs ''gte'' s
            (within py_less bs ''lt'' s (within py_le bs ''lte'' s (Inr True))))) = Inl e"
    using assms other unfolding evaluate_score_def v bs_def by (auto simp: Let_def split: if_splits)
  have "resolve_typed_operand state scope (PDict [(''ref'', dget kv ''ref'')]) \<noteq> Inl e"
    using operand_error [of state scope "PDict [(''ref'', dget kv ''ref'')]"] ref other
    by (elim nonempty_strE) auto
  then obtain s where num: "is_numeric_predicate_value s"
    and chain: "within (\<lambda>s b. py_less b s) bs ''gt'' s (within (\<lambda>s b. py_le b s) bs ''gte'' s
            (within py_less bs ''lt'' s (within py_le bs ''lte'' s (Inr True)))) = Inl e"
    using score other by (auto simp: result_simps split: if_splits)
  have tests: "\<exists>c. py_less b s = Inr c" "\<exists>c. py_le b s = Inr c" "\<exists>c. py_less s b = Inr c" "\<exists>c. py_le s b = Inr c"
    if "is_numeric_predicate_value b" for b
    using numeric_order [OF num that] numeric_order [OF that num] by auto
  show False
    using within_error [OF within_error [OF within_error [OF within_error [OF chain num bs tests(1)]
          num bs tests(2)] num bs tests(3)] num bs tests(4)] by simp
qed

lemma artifact_bool_error:
  assumes "evaluate_artifact_bool state scope v = Inl e" "parse_artifact_bool catalog v = Inr n"
  shows "e = PredicateEvaluationError"
proof -
  obtain kv where v: "v = PDict kv" and ref: "is_str (dget kv ''ref'')"
    using assms(2) surface_ref_is_str unfolding parse_artifact_bool_def
    by (cases v) (auto simp: result_simps split: if_splits)
  show ?thesis
  proof (cases "resolve_typed_operand state scope v")
    case (Inl x)
    moreover have "x = PredicateEvaluationError" using operand_error [OF Inl] v ref by simp
    ultimately show ?thesis
      using assms(1) unfolding evaluate_artifact_bool_def v by (simp split: if_splits)
  next
    case (Inr x)
    then show ?thesis
      using assms(1) unfolding evaluate_artifact_bool_def v by (cases x) (simp_all split: if_splits)
  qed
qed

lemma parsed_operand_error:
  assumes "resolve_typed_operand state scope v = Inl e" "parse_typed_operand catalog v = Inr n"
  shows "e = PredicateEvaluationError"
  using assms(1)
  by (rule operand_error)
    (use assms(2) surface_ref_is_str in \<open>auto simp: parse_typed_operand_def result_simps\<close>)

text \<open>A comparison somewhere in the predicate whose operator is a list or a dict, which a set test refuses.\<close>

inductive unhashable_operator :: "pyval \<Rightarrow> bool" where
  in_compare: "the_operator p = Inr ''compare'' \<Longrightarrow> py_item p ''compare'' = Inr (PDict kv) \<Longrightarrow> \<not> hashable (dget kv ''op'') \<Longrightarrow> unhashable_operator p"
| in_items: "the_operator p = Inr k \<Longrightarrow> k \<in> {''all_of'', ''any_of''} \<Longrightarrow> py_item p k = Inr (PList xs) \<Longrightarrow> x \<in> set xs
    \<Longrightarrow> unhashable_operator x \<Longrightarrow> unhashable_operator p"
| in_not: "the_operator p = Inr ''not'' \<Longrightarrow> py_item p ''not'' = Inr v \<Longrightarrow> unhashable_operator v \<Longrightarrow> unhashable_operator p"

inductive_cases unhashableE: "unhashable_operator p"

lemma operator_key: "the_operator p = Inr k \<Longrightarrow> k \<in> set TYPED_PREDICATE_OPERATOR_KEYS"
proof -
  assume "the_operator p = Inr k"
  then obtain kv where "typed_predicate_operator_keys kv = [k]" unfolding the_operator_def by (auto split: pyval.splits list.splits)
  then have "k \<in> set (filter (has_key kv) TYPED_PREDICATE_OPERATOR_KEYS)" by (simp add: typed_predicate_operator_keys_def)
  then show ?thesis by simp
qed

lemma compare_predicate_error:
  assumes "evaluate_compare state scope v = Inl e" "parse_compare r catalog v = Inr n"
  shows "e = PredicateEvaluationError \<or> e = TypeError \<and> (\<exists>kv. v = PDict kv \<and> \<not> hashable (dget kv ''op''))"
proof -
  obtain kv where v: "v = PDict kv" using assms(2) unfolding parse_compare_def by (cases v) auto
  then obtain l m where "parse_typed_operand catalog (dget kv ''left'') = Inr l"
      "parse_typed_operand catalog (dget kv ''right'') = Inr m"
    using assms(2) unfolding parse_compare_def by (auto simp: result_simps)
  then show ?thesis
    using assms(1) parsed_operand_error [of state scope "dget kv ''left''"]
      parsed_operand_error [of state scope "dget kv ''right''"] compare_error
    unfolding evaluate_compare_def v by (fastforce simp: result_simps)
qed

lemma parsed_predicate_error:
  assumes "evaluate state scope p = Inl e" "parse_typed_predicate r catalog p = Inr n"
  shows "e = PredicateEvaluationError \<or> e = TypeError \<and> unhashable_operator p"
  using assms
proof (induction p arbitrary: n rule: measure_induct_rule [of size])
  case (less p)
  obtain k v where k: "the_operator p = Inr k" and v: "py_item p k = Inr v"
    using less.prems(2) unfolding parse_typed_predicate.simps [of _ _ p] by (auto simp: result_simps)
  note eval = less.prems(1) [unfolded evaluate.simps [of _ _ p] k v rbind_simps]
  note parse = less.prems(2) [unfolded parse_typed_predicate.simps [of _ _ p] k v rbind_simps]
  consider "k = ''artifact_bool''" | "k = ''compare''" | "k = ''score''" | "k = ''all_of'' \<or> k = ''any_of''" | "k = ''not''"
    using operator_key [OF k] unfolding TYPED_PREDICATE_OPERATOR_KEYS_def by auto
  then show ?case
  proof cases
    case 1
    then show ?thesis using artifact_bool_error [of state scope v e catalog n] eval parse by simp
  next
    case 2
    then have "e = PredicateEvaluationError \<or> e = TypeError \<and> (\<exists>kv. v = PDict kv \<and> \<not> hashable (dget kv ''op''))"
      using compare_predicate_error [of state scope v e r catalog n] eval parse by simp
    with k v 2 show ?thesis by (auto intro: in_compare)
  next
    case 3
    then show ?thesis using score_error [of state scope v e] eval by simp
  next
    case 4
    then obtain xs ns where xs: "v = PList xs" "map_r (parse_typed_predicate r catalog) xs = Inr ns"
      using parse by (cases v) (auto simp: result_simps)
    have "e = PredicateEvaluationError \<or> (\<exists>x \<in> set xs. evaluate state scope x = Inl e)"
      using 4 eval xs(1) all_any_error [of "evaluate state scope" xs e] by (elim disjE) (simp_all split: if_splits)
    moreover have "e = PredicateEvaluationError \<or> e = TypeError \<and> unhashable_operator p" if x: "x \<in> set xs" "evaluate state scope x = Inl e" for x
    proof -
      obtain m where "parse_typed_predicate r catalog x = Inr m" using map_r_Inr_memD [OF xs(2) x(1)] by blast
      then have "e = PredicateEvaluationError \<or> e = TypeError \<and> unhashable_operator x"
        using less.IH [OF item_list_size [OF v [unfolded xs(1)] x(1)] x(2)] by blast
      then show ?thesis using in_items [OF k _ v [unfolded xs(1)] x(1)] 4 by blast
    qed
    ultimately show ?thesis by blast
  next
    case 5
    then obtain m where "parse_typed_predicate r catalog v = Inr m" "evaluate state scope v = Inl e"
      using eval parse by (auto simp: result_simps)
    then have "e = PredicateEvaluationError \<or> e = TypeError \<and> unhashable_operator v" using less.IH [OF size_py_item [OF v]] by blast
    with k v 5 show ?thesis by (auto intro: in_not)
  qed
qed

section \<open>Properties\<close>

text \<open>
  C31: evaluating a predicate that parses, under any catalog, gives a truth value or raises PredicateEvaluationError. The one
  other outcome is a TypeError, and only when some comparison in the predicate has a list or a dict for its operator; ordering
  values that are not numbers never raises it.
\<close>

theorem parsed_predicate_evaluates:
  assumes "parse_typed_predicate container_repr catalog p = Inr n"
  shows "(\<exists>b. evaluate state scope p = Inr b) \<or> evaluate state scope p = Inl PredicateEvaluationError
    \<or> evaluate state scope p = Inl TypeError \<and> unhashable_operator p"
  using parsed_predicate_error [OF _ assms, of state scope] by (cases "evaluate state scope p") auto

text \<open>
  De Morgan, exceptions included: negating a conjunction is the disjunction of the
  negations, with the same value or the same exception, however many items there are.
\<close>

theorem not_all_of_is_any_of_not:
  "evaluate state scope (PDict [(''not'', PDict [(''all_of'', PList ps)])])
   = evaluate state scope (PDict [(''any_of'', PList (map (\<lambda>p. PDict [(''not'', p)]) ps))])"
  by (simp add: evaluate_single any_r_map any_of_negations)

lemma rbind_bool: "rbind m (\<lambda>b. if b then Inr True else Inr False) = m"
  by (cases m) auto

definition comparison :: "string \<Rightarrow> string \<Rightarrow> pyval \<Rightarrow> pyval" where
  "comparison ref op bound =
     PDict [(''compare'', PDict [(''left'', PDict [(''ref'', PStr ref)]), (''op'', PStr op), (''right'', bound)])]"

lemma evaluate_comparison:
  assumes "is_numeric_predicate_value bound"
  shows "evaluate state scope (comparison ref op bound)
    = rbind (resolve_typed_operand state scope (PDict [(''ref'', PStr ref)])) (\<lambda>v. compare_values (PStr op) v bound)"
  using assms unfolding comparison_def evaluate_single evaluate_compare_def is_numeric_predicate_value_def
  by (cases bound) (simp_all add: resolve_typed_operand_def [of _ _ "PInt _"] resolve_typed_operand_def [of _ _ "PFloat _"])

lemma compare_values_bounds:
  assumes "is_numeric_predicate_value bound"
  shows "compare_values (PStr ''gt'') v bound = (if is_numeric_predicate_value v then py_less bound v else Inl PredicateEvaluationError)"
    "compare_values (PStr ''gte'') v bound = (if is_numeric_predicate_value v then py_le bound v else Inl PredicateEvaluationError)"
    "compare_values (PStr ''lt'') v bound = (if is_numeric_predicate_value v then py_less v bound else Inl PredicateEvaluationError)"
    "compare_values (PStr ''lte'') v bound = (if is_numeric_predicate_value v then py_le v bound else Inl PredicateEvaluationError)"
  using assms by (simp_all add: compare_values_def)

lemma empty_ref_operand: "resolve_typed_operand state scope (PDict [(''ref'', PStr [])]) = Inl PredicateEvaluationError"
  by (simp add: resolve_typed_operand_def only_ref_def resolve_def after_def step_results_def)

lemma score_interval:
  assumes "lo \<in> {''gt'', ''gte''}" "hi \<in> {''lt'', ''lte''}"
    "is_numeric_predicate_value a" "is_numeric_predicate_value b" "r \<noteq> []"
  shows "evaluate_score state scope (PDict [(''ref'', PStr r), (lo, a), (hi, b)])
    = rbind (resolve_typed_operand state scope (PDict [(''ref'', PStr r)])) (\<lambda>v.
        rbind (compare_values (PStr lo) v a) (\<lambda>x. if x then compare_values (PStr hi) v b else Inr False))"
proof -
  have "lo = ''gt'' \<or> lo = ''gte''" "hi = ''lt'' \<or> hi = ''lte''" using assms(1,2) by blast+
  then show ?thesis
    using assms(3-5)
    by (cases "resolve_typed_operand state scope (PDict [(''ref'', PStr r)])"; elim disjE)
      (simp_all add: evaluate_score_def SCORE_PREDICATE_BOUND_KEYS_def has_key_def within_def Let_def
        compare_values_bounds rbind_bool cong: if_cong)
qed

text \<open>
  C32: a score predicate with a lower and an upper bound is the conjunction of the two ordered
  comparisons, exceptions included.
\<close>

theorem score_is_conjunction:
  assumes "lo \<in> {''gt'', ''gte''}" "hi \<in> {''lt'', ''lte''}"
    "is_numeric_predicate_value a" "is_numeric_predicate_value b"
  shows "evaluate state scope (PDict [(''score'', PDict [(''ref'', PStr r), (lo, a), (hi, b)])])
    = evaluate state scope (PDict [(''all_of'', PList [comparison r lo a, comparison r hi b])])"
proof (cases "r = []")
  case True
  then show ?thesis
    using assms by (simp add: evaluate_single evaluate_comparison empty_ref_operand evaluate_score_def)
next
  case False
  then show ?thesis
    unfolding evaluate_single score_interval [OF assms False]
    by (cases "resolve_typed_operand state scope (PDict [(''ref'', PStr r)])")
      (simp_all add: evaluate_comparison assms(3,4) rbind_bool cong: if_cong)
qed

theorem score_is_conjunction_witness:
  "evaluate [(''bound_inputs'', PDict [(''q'', PInt 7)])] PNone
     (PDict [(''score'', PDict [(''ref'', PStr ''inputs.q''), (''gte'', PInt 7), (''lt'', PInt 9)])])
   = evaluate [(''bound_inputs'', PDict [(''q'', PInt 7)])] PNone
     (PDict [(''all_of'', PList [comparison ''inputs.q'' ''gte'' (PInt 7), comparison ''inputs.q'' ''lt'' (PInt 9)])])"
  by (rule score_is_conjunction) (simp_all add: is_numeric_predicate_value_def)

theorem parsed_predicate_evaluates_witness:
  "evaluate [] PNone (PDict [(''compare'', PDict [(''left'', PStr ''x''), (''op'', PStr ''lt''), (''right'', PInt 3)])]) \<noteq> Inl TypeError"
proof -
  let ?p = "PDict [(''compare'', PDict [(''left'', PStr ''x''), (''op'', PStr ''lt''), (''right'', PInt 3)])]"
  have "parse_typed_predicate (\<lambda>_. []) \<lparr>root_step_names = [], self_step_names = [], parent_step_names = [], output_names = []\<rparr> ?p
    = Inr (ComparePredicateNode (LiteralOperand (PStr ''x'')) ''lt'' (LiteralOperand (PInt 3)))" by code_simp
  note ok = parsed_predicate_evaluates [OF this, of "[]" PNone]
  have op: "the_operator ?p = Inr ''compare''" by (rule single_operator) (simp add: TYPED_PREDICATE_OPERATOR_KEYS_def)
  have "\<not> unhashable_operator ?p"
  proof
    assume "unhashable_operator ?p"
    then show False
    proof (cases rule: unhashable_operator.cases)
      case (in_compare kv)
      then have "kv = [(''left'', PStr ''x''), (''op'', PStr ''lt''), (''right'', PInt 3)]" by (simp add: py_item_def)
      with in_compare(3) show False by simp
    next
      case (in_items k xs x)
      with op show False by simp
    next
      case (in_not v)
      with op show False by simp
    qed
  qed
  with ok show ?thesis by (simp only: simp_thms) (elim disjE exE; simp only: sum.distinct sum.inject exc.distinct simp_thms)
qed

end
