(* ===== verification/Substitution.thy ===== *)
theory Substitution
  imports FileSystem
begin

text \<open>
  Variable substitution of \<open>src/orchestrator/variables/substitution.py\<close>: \<open>${...}\<close> expressions in
  strings, lists and dicts are replaced by the values they name, \<open>$$\<close> is an escaped dollar, and
  names without a value are collected in the field \<open>undefined_vars\<close>, which is threaded through the
  model as the last argument and the second component of the result.

  Shown: doubling dollars quotes any text; an expression is replaced by the text of its value,
  which is not scanned again; with namespaces that are dicts the only exception is ValueError;
  and an undefined name in an item of a list is forgotten as soon as a later item is processed.
\<close>

section \<open>Results with the undefined names\<close>

type_synonym 'a tracked = "(exc + 'a) \<times> string list"

definition mapped :: "('a \<Rightarrow> 'b) \<Rightarrow> 'a tracked \<Rightarrow> 'b tracked" where
  "mapped f p = (rbind (fst p) (\<lambda>x. Inr (f x)), snd p)"

definition chain :: "'a tracked \<Rightarrow> ('a \<Rightarrow> string list \<Rightarrow> 'b tracked) \<Rightarrow> 'b tracked" where
  "chain p f = (case fst p of Inl e \<Rightarrow> (Inl e, snd p) | Inr x \<Rightarrow> f x (snd p))"

lemma mapped_simps [simp]:
  "mapped f (Inr x, u) = (Inr (f x), u)" "mapped f (Inl e, u) = (Inl e, u)"
  "mapped f (mapped g p) = mapped (\<lambda>x. f (g x)) p" "mapped (\<lambda>x. x) p = p"
  by (cases p; cases "fst p"; simp add: mapped_def)+

lemma chain_simps [simp]:
  "chain (Inr x, u) f = f x u" "chain (Inl e, u) f = (Inl e, u)"
  "mapped g (chain p f) = chain p (\<lambda>x u. mapped g (f x u))"
  by (cases p; cases "fst p"; simp add: chain_def mapped_def)+

lemma chain_cong [fundef_cong]:
  "p = q \<Longrightarrow> (\<And>x u. q = (Inr x, u) \<Longrightarrow> f x u = g x u) \<Longrightarrow> chain p f = chain q g"
  by (cases q; cases "fst q") (auto simp: chain_def)

lemma mapped_error: "mapped f p = (Inl e, u) \<longleftrightarrow> p = (Inl e, u)"
  by (cases p; cases "fst p"; simp add: mapped_def)

lemma chain_error:
  "chain p f = (Inl e, u) \<longleftrightarrow> p = (Inl e, u) \<or> (\<exists>x v. p = (Inr x, v) \<and> f x v = (Inl e, u))"
  by (cases p; cases "fst p"; simp add: chain_def)

section \<open>JSON text with the default separators\<close>

text \<open>\<open>json.dumps(value)\<close>: separators \<open>", "\<close> and \<open>": "\<close>, characters outside printable ASCII escaped.\<close>

fun utf8_points :: "nat list \<Rightarrow> nat list" where
  "utf8_points (a # b # c # d # r) =
     (if a < 192 then a # utf8_points (b # c # d # r)
      else if a < 224 then ((a - 192) * 64 + (b - 128)) # utf8_points (c # d # r)
      else if a < 240 then ((a - 224) * 4096 + (b - 128) * 64 + (c - 128)) # utf8_points (d # r)
      else ((a - 240) * 262144 + (b - 128) * 4096 + (c - 128) * 64 + (d - 128)) # utf8_points r)"
| "utf8_points [a, b, c] =
     (if a < 192 then a # utf8_points [b, c]
      else if a < 224 then ((a - 192) * 64 + (b - 128)) # utf8_points [c]
      else [(a - 224) * 4096 + (b - 128) * 64 + (c - 128)])"
| "utf8_points [a, b] = (if a < 192 then [a, b] else [(a - 192) * 64 + (b - 128)])"
| "utf8_points xs = xs"

definition hex4_text :: "nat \<Rightarrow> string" where
  "hex4_text n = CHR 0x5C # CHR ''u'' #
     map hex_char [n div 4096 mod 16, n div 256 mod 16, n div 16 mod 16, n mod 16]"

definition ascii_point :: "nat \<Rightarrow> string" where
  "ascii_point n =
     (if n < 127 then esc_char (char_of n)
      else if n < 65536 then hex4_text n
      else hex4_text (55296 + (n - 65536) div 1024) @ hex4_text (56320 + (n - 65536) mod 1024))"

definition ascii_str :: "string \<Rightarrow> string" where
  "ascii_str s = CHR 0x22 # concat (map ascii_point (utf8_points (map of_char s))) @ [CHR 0x22]"

fun ascii_text :: "jtree \<Rightarrow> string" where
  "ascii_text (JStr s) = ascii_str s"
| "ascii_text (JArr ts) = ''['' @ join '', '' (map ascii_text ts) @ '']''"
| "ascii_text (JObj kvs) = ''{'' @ join '', '' (map (\<lambda>(k, t). ascii_str k @ '': '' @ ascii_text t) kvs) @ ''}''"
| "ascii_text t = json_text t"

section \<open>Resolving a name\<close>

text \<open>\<open>d.get(key, {})\<close>\<close>

definition get_or_empty :: "pydict \<Rightarrow> string \<Rightarrow> pyval" where
  "get_or_empty kv k = (case map_of kv k of None \<Rightarrow> PDict [] | Some v \<Rightarrow> v)"

fun resolve_path :: "pyval \<Rightarrow> string list \<Rightarrow> pyval" where
  "resolve_path current [] = current"
| "resolve_path current (part # rest) =
     (case current of
        PDict kv \<Rightarrow> if dget kv part = PNone then PNone else resolve_path (dget kv part) rest
      | _ \<Rightarrow> PNone)"

text \<open>\<open>for index in range(n, 0, -1)\<close>: the longest dotted prefix of the path that names a step.\<close>

fun find_step :: "pyval \<Rightarrow> string list \<Rightarrow> nat \<Rightarrow> exc + nat option" where
  "find_step steps path 0 = Inr None"
| "find_step steps path (Suc i) =
     rbind (py_in (PStr (join ''.'' (take (Suc i) path))) steps) (\<lambda>found.
       if found then Inr (Some (Suc i)) else find_step steps path i)"

definition resolve_steps_variable :: "pyval \<Rightarrow> string list \<Rightarrow> exc + pyval" where
  "resolve_steps_variable steps path =
     (if path = [] then Inr PNone
      else rbind (find_step steps path (length path)) (\<lambda>index.
        case index of
          None \<Rightarrow> Inr PNone
        | Some i \<Rightarrow> rbind (py_item steps (join ''.'' (take i path))) (\<lambda>step_result.
            Inr (if drop i path = [] then step_result else resolve_path step_result (drop i path)))))"

definition resolve_scoped :: "pydict \<Rightarrow> string \<Rightarrow> string list \<Rightarrow> exc + pyval" where
  "resolve_scoped variables namespace rest =
     (case get_or_empty variables namespace of
        PDict scoped \<Rightarrow>
          if rest \<noteq> [] \<and> hd rest = ''steps'' then
            rbind (resolve_steps_variable (get_or_empty scoped ''steps'') (tl rest)) (\<lambda>resolved.
              if resolved = PNone \<and> namespace = ''parent'' then
                (case get_or_empty variables ''self'' of
                   PDict fallback \<Rightarrow> resolve_steps_variable (get_or_empty fallback ''steps'') (tl rest)
                 | _ \<Rightarrow> Inr resolved)
              else Inr resolved)
          else Inr (resolve_path (PDict scoped) rest)
      | _ \<Rightarrow> Inr PNone)"

definition resolve_variable :: "pydict \<Rightarrow> string \<Rightarrow> exc + pyval" where
  "resolve_variable variables var_path =
     (let parts = split_on CHR ''.'' var_path; namespace = hd parts; rest = tl parts in
      if map_of variables namespace \<noteq> None \<and> rest = [] then Inr (dget variables namespace)
      else if namespace \<in> {''run'', ''loop'', ''context'', ''inputs''}
      then Inr (resolve_path (get_or_empty variables namespace) rest)
      else if namespace = ''steps'' then resolve_steps_variable (get_or_empty variables ''steps'') rest
      else if namespace \<in> {''self'', ''parent'', ''root''} then resolve_scoped variables namespace rest
      else if namespace = ''item'' then Inr (dget variables ''item'')
      else Inr PNone)"

definition parse_variable_expression :: "string \<Rightarrow> string \<times> string list" where
  "parse_variable_expression expression =
     (let parts = split_on CHR ''|'' expression in (hd parts, filter (\<lambda>part. part \<noteq> []) (tl parts)))"

definition apply_filters :: "pyval \<Rightarrow> string list \<Rightarrow> exc + pyval" where
  "apply_filters v filters = fold_r (\<lambda>filter_name filtered.
     if filter_name = ''json'' then Inr (PStr (json_text (plain filtered))) else Inl ValueError) filters v"

section \<open>Strings\<close>

text \<open>The text of a defined value; a number is its \<open>str\<close>, a container its JSON text.\<close>

definition value_text :: "pyval \<Rightarrow> string" where
  "value_text v = (case v of
      PBool b \<Rightarrow> if b then ''true'' else ''false''
    | PInt i \<Rightarrow> int_repr i
    | PFloat f \<Rightarrow> float_repr f
    | PStr s \<Rightarrow> s
    | _ \<Rightarrow> ascii_text (plain v))"

definition replace_var :: "pydict \<Rightarrow> string \<Rightarrow> string list \<Rightarrow> string tracked" where
  "replace_var variables expression undef =
     (case parse_variable_expression expression of (var_path, filters) \<Rightarrow>
      case resolve_variable variables var_path of
        Inl e \<Rightarrow> (Inl e, undef)
      | Inr v \<Rightarrow> if v = PNone then (Inr (''${'' @ expression @ ''}''), List.insert expression undef)
          else (rbind (apply_filters v filters) (\<lambda>w. Inr (value_text w)), undef))"

text \<open>The pattern \<open>(?<!\$)\$\{([^}]+)\}\<close> at one position; \<open>prev\<close> is the character before it.\<close>

definition match_var :: "char option \<Rightarrow> string \<Rightarrow> (string \<times> string) option" where
  "match_var prev s =
     (if prev \<noteq> Some CHR ''$'' \<and> take 2 s = ''${'' then
        let body = drop 2 s; expression = takeWhile (\<lambda>c. c \<noteq> CHR ''}'') body;
            rest = dropWhile (\<lambda>c. c \<noteq> CHR ''}'') body in
        if expression \<noteq> [] \<and> rest \<noteq> [] then Some (expression, tl rest) else None
      else None)"

lemma match_var_shorter: "match_var prev s = Some (e, r) \<Longrightarrow> length r < length s"
proof -
  assume "match_var prev s = Some (e, r)"
  then have "r = tl (dropWhile (\<lambda>c. c \<noteq> CHR ''}'') (drop 2 s))" "take 2 s = ''${''"
    unfolding match_var_def by (auto simp: Let_def split: if_splits)
  moreover have "s \<noteq> []" using calculation(2) by auto
  ultimately show ?thesis using length_dropWhile_le [of _ "drop 2 s"]
    by (metis (no_types, lifting) diff_less diff_le_self le_less_trans length_drop length_greater_0_conv length_tl less_le_trans zero_less_numeral)
qed

function scan_vars :: "pydict \<Rightarrow> char option \<Rightarrow> string \<Rightarrow> string list \<Rightarrow> string tracked" where
  "scan_vars variables prev [] undef = (Inr [], undef)"
| "scan_vars variables prev (c # s) undef =
     (case match_var prev (c # s) of
        Some (expression, rest) \<Rightarrow> chain (replace_var variables expression undef) (\<lambda>t u.
          mapped (\<lambda>ts. t @ ts) (scan_vars variables (Some CHR ''}'') rest u))
      | None \<Rightarrow> mapped (\<lambda>ts. c # ts) (scan_vars variables (Some c) s undef))"
  by pat_completeness auto
termination
  by (relation "measure (\<lambda>(_, _, s, _). length s)") (auto dest: match_var_shorter)

text \<open>\<open>text.replace('$$', '\x00')\<close> and back.\<close>

fun hide_dollars :: "string \<Rightarrow> string" where
  "hide_dollars (c # d # s) =
     (if c = CHR ''$'' \<and> d = CHR ''$'' then CHR 0x00 # hide_dollars s else c # hide_dollars (d # s))"
| "hide_dollars s = s"

definition restore_dollars :: "string \<Rightarrow> string" where
  "restore_dollars = map (\<lambda>c. if c = CHR 0x00 then CHR ''$'' else c)"

definition substitute_string :: "pydict \<Rightarrow> string \<Rightarrow> string list \<Rightarrow> string tracked" where
  "substitute_string variables text undef =
     mapped restore_dollars (scan_vars variables None (hide_dollars text) undef)"

section \<open>Values\<close>

text \<open>\<open>if track_undefined and self.undefined_vars: raise ValueError\<close>\<close>

definition check_undefined :: "bool \<Rightarrow> 'a tracked \<Rightarrow> 'a tracked" where
  "check_undefined track_undefined p = chain p (\<lambda>v u.
     if track_undefined \<and> u \<noteq> [] then (Inl ValueError, u) else (Inr v, u))"

fun substitute :: "pydict \<Rightarrow> bool \<Rightarrow> pyval \<Rightarrow> string list \<Rightarrow> pyval tracked"
  and substitute_items :: "pydict \<Rightarrow> pyval list \<Rightarrow> string list \<Rightarrow> pyval list tracked"
  and substitute_entries :: "pydict \<Rightarrow> pydict \<Rightarrow> string list \<Rightarrow> pydict tracked" where
  "substitute variables track (PStr s) undef = check_undefined track (mapped PStr (substitute_string variables s []))"
| "substitute variables track (PList xs) undef = check_undefined track (mapped PList (substitute_items variables xs []))"
| "substitute variables track (PDict kvs) undef = check_undefined track (mapped PDict (substitute_entries variables kvs []))"
| "substitute variables track v undef = (Inr v, [])"
| "substitute_items variables [] undef = (Inr [], undef)"
| "substitute_items variables (x # xs) undef =
     chain (substitute variables False x undef) (\<lambda>y u. mapped (\<lambda>ys. y # ys) (substitute_items variables xs u))"
| "substitute_entries variables [] undef = (Inr [], undef)"
| "substitute_entries variables ((k, x) # kvs) undef =
     chain (substitute variables False x undef) (\<lambda>y u. mapped (\<lambda>ys. (k, y) # ys) (substitute_entries variables kvs u))"

definition build_variables :: "pyval \<Rightarrow> pyval \<Rightarrow> pyval \<Rightarrow> pyval \<Rightarrow> exc + pydict" where
  "build_variables run_state context loop_vars item =
     rbind (if py_bool run_state then
         (case run_state of PDict rs \<Rightarrow>
           let field = (\<lambda>k. case map_of rs k of None \<Rightarrow> PStr [] | Some v \<Rightarrow> v) in
           Inr ([(''run'', PDict [(''id'', field ''run_id''), (''root'', field ''run_root''),
                   (''timestamp_utc'', field ''started_at'')]),
                 (''steps'', get_or_empty rs ''steps'')] @
                (if is_mapping (get_or_empty rs ''bound_inputs'')
                 then [(''inputs'', get_or_empty rs ''bound_inputs'')] else []))
         | _ \<Rightarrow> Inl AttributeError)
       else Inr [])
     (\<lambda>variables. Inr (variables
       @ (if py_bool context then [(''context'', context)] else [])
       @ (if py_bool loop_vars then [(''loop'', loop_vars)] else [])
       @ (if item \<noteq> PNone then [(''item'', item)] else [])))"

section \<open>Text without expressions\<close>

abbreviation dollar :: char where "dollar \<equiv> CHR ''$''"
abbreviation nul :: char where "nul \<equiv> CHR 0x00"

text \<open>Text quoted for substitution: every dollar doubled.\<close>

definition quote_dollars :: "string \<Rightarrow> string" where
  "quote_dollars s = concat (map (\<lambda>c. if c = dollar then ''$$'' else [c]) s)"

lemma match_var_other: "dollar \<noteq> c \<Longrightarrow> match_var prev (c # s) = None"
  by (auto simp: match_var_def take_Cons split: nat.splits)

lemma scan_vars_Cons: "dollar \<noteq> c \<Longrightarrow> scan_vars vs prev (c # s) u = mapped (\<lambda>ts. c # ts) (scan_vars vs (Some c) s u)"
  by (simp add: match_var_other)

lemma scan_vars_plain: "dollar \<notin> set s \<Longrightarrow> scan_vars vs prev s u = (Inr s, u)"
  by (induction s arbitrary: prev) (simp_all add: scan_vars_Cons del: scan_vars.simps(2))

lemma scan_vars_prev: "prev \<noteq> Some dollar \<Longrightarrow> prev' \<noteq> Some dollar \<Longrightarrow> scan_vars vs prev s u = scan_vars vs prev' s u"
  by (cases s) (simp_all add: match_var_def)

lemma scan_vars_append:
  "dollar \<notin> set a \<Longrightarrow> prev \<noteq> Some dollar \<Longrightarrow>
    scan_vars vs prev (a @ s) u = mapped (\<lambda>ts. a @ ts) (scan_vars vs None s u)"
proof (induction a arbitrary: prev)
  case Nil
  then show ?case by (simp add: scan_vars_prev [of prev None])
next
  case (Cons c a)
  then have "dollar \<noteq> c" "scan_vars vs (Some c) (a @ s) u = mapped (\<lambda>ts. a @ ts) (scan_vars vs None s u)" by auto
  then show ?case by (simp add: scan_vars_Cons del: scan_vars.simps(2))
qed

lemma hide_dollars_Cons: "dollar \<noteq> c \<Longrightarrow> hide_dollars (c # s) = c # hide_dollars s"
  by (cases s) auto

lemma hide_dollars_append: "dollar \<notin> set a \<Longrightarrow> hide_dollars (a @ s) = a @ hide_dollars s"
  by (induction a) (simp_all add: hide_dollars_Cons)

lemma hide_quote: "hide_dollars (quote_dollars s) = map (\<lambda>c. if c = dollar then nul else c) s"
  by (induction s) (auto simp: quote_dollars_def hide_dollars_Cons)

lemma restore_plain: "nul \<notin> set s \<Longrightarrow> restore_dollars s = s"
  by (induction s) (auto simp: restore_dollars_def)

lemma restore_hidden: "nul \<notin> set s \<Longrightarrow> restore_dollars (map (\<lambda>c. if c = dollar then nul else c) s) = s"
  by (induction s) (auto simp: restore_dollars_def)

lemma restore_append [simp]: "restore_dollars (a @ b) = restore_dollars a @ restore_dollars b"
  by (simp add: restore_dollars_def)

lemma substitute_quoted:
  assumes "nul \<notin> set s"
  shows "substitute_string vs (quote_dollars s) u = (Inr s, u)"
proof -
  have "dollar \<notin> set (map (\<lambda>c. if c = dollar then nul else c) s)" by (auto split: if_splits)
  from scan_vars_plain [OF this] show ?thesis
    unfolding substitute_string_def hide_quote by (simp add: restore_hidden [OF assms])
qed

lemma quote_plain: "dollar \<notin> set s \<Longrightarrow> quote_dollars s = s"
  by (induction s) (auto simp: quote_dollars_def)

lemma substitute_plain: "dollar \<notin> set s \<Longrightarrow> nul \<notin> set s \<Longrightarrow> substitute_string vs s u = (Inr s, u)"
  using substitute_quoted [of s vs u] by (simp add: quote_plain)

section \<open>One expression\<close>

lemma match_var_expression:
  assumes "prev \<noteq> Some dollar" "e \<noteq> []" "CHR ''}'' \<notin> set e"
  shows "match_var prev (''${'' @ e @ ''}'' @ s) = Some (e, s)"
proof -
  have "takeWhile (\<lambda>c. c \<noteq> CHR ''}'') (e @ ''}'' @ s) = e" "dropWhile (\<lambda>c. c \<noteq> CHR ''}'') (e @ ''}'' @ s) = ''}'' @ s"
    using assms(3) by (auto simp: takeWhile_append dropWhile_append)
  then show ?thesis using assms(1,2) by (simp add: match_var_def)
qed

lemma scan_expression:
  assumes "e \<noteq> []" "CHR ''}'' \<notin> set e"
  shows "scan_vars vs None (''${'' @ e @ ''}'' @ s) u =
    chain (replace_var vs e u) (\<lambda>t u'. mapped (\<lambda>ts. t @ ts) (scan_vars vs None s u'))"
proof -
  have "match_var None (dollar # CHR ''{'' # e @ ''}'' @ s) = Some (e, s)"
    using match_var_expression [OF _ assms, of None s] by simp
  then show ?thesis using scan_vars_prev [of "Some CHR ''}''" None] by simp
qed

lemma substitute_expression:
  assumes "dollar \<notin> set a" "nul \<notin> set a" "e \<noteq> []" "CHR ''}'' \<notin> set e" "dollar \<notin> set e"
  shows "substitute_string vs (a @ ''${'' @ e @ ''}'' @ s) u =
    chain (replace_var vs e u) (\<lambda>t u'. mapped (\<lambda>ts. a @ restore_dollars t @ ts) (substitute_string vs s u'))"
proof -
  have hidden: "hide_dollars (a @ ''${'' @ e @ ''}'' @ s) = a @ ''${'' @ e @ ''}'' @ hide_dollars s"
    using assms(1,5) hide_dollars_append [of e "''}'' @ s"] by (simp add: hide_dollars_append hide_dollars_Cons)
  show ?thesis
    unfolding substitute_string_def hidden
    by (subst scan_vars_append [OF assms(1)], simp, subst scan_expression [OF assms(3,4)])
      (simp add: restore_plain [OF assms(2)])
qed

section \<open>Exceptions\<close>

text \<open>Every namespace that holds step results is a dict with a dict of steps.\<close>

definition steps_ok :: "pyval \<Rightarrow> bool" where
  "steps_ok v = (case v of PDict kv \<Rightarrow> is_mapping (get_or_empty kv ''steps'') | _ \<Rightarrow> True)"

definition variables_ok :: "pydict \<Rightarrow> bool" where
  "variables_ok vs = (is_mapping (get_or_empty vs ''steps'') \<and>
     steps_ok (get_or_empty vs ''self'') \<and> steps_ok (get_or_empty vs ''parent'') \<and> steps_ok (get_or_empty vs ''root''))"

lemma py_in_dict: "py_in (PStr k) (PDict kv) = Inr (map_of kv k \<noteq> None)"
  by (auto simp: py_in_def py_iter_def list_ex_iff map_of_eq_None_iff)

lemma find_step_dict: "\<exists>i. find_step (PDict kv) path n = Inr i"
  by (induction n) (simp_all add: py_in_dict)

lemma find_step_known: "find_step (PDict kv) path n = Inr (Some i) \<Longrightarrow> map_of kv (join ''.'' (take i path)) \<noteq> None"
  by (induction n) (auto simp: py_in_dict split: if_splits)

lemma resolve_steps_ok: "is_mapping steps \<Longrightarrow> \<exists>v. resolve_steps_variable steps path = Inr v"
proof (elim is_mappingE)
  fix kv assume kv: "steps = PDict kv"
  obtain i where i: "find_step (PDict kv) path (length path) = Inr i" using find_step_dict by blast
  show ?thesis
  proof (cases i)
    case (Some j)
    then obtain w where "map_of kv (join ''.'' (take j path)) = Some w" using find_step_known i by blast
    then show ?thesis unfolding resolve_steps_variable_def kv by (simp add: i Some)
  qed (simp add: resolve_steps_variable_def kv i)
qed

lemma resolve_scoped_ok:
  assumes "steps_ok (get_or_empty vs ns)" "steps_ok (get_or_empty vs ''self'')"
  shows "\<exists>v. resolve_scoped vs ns rest = Inr v"
proof -
  have steps: "\<exists>v. resolve_steps_variable (get_or_empty kv ''steps'') p = Inr v"
    if "steps_ok (PDict kv)" for kv p
    using that resolve_steps_ok unfolding steps_ok_def by simp
  show ?thesis
  proof (cases "get_or_empty vs ns")
    case (PDict kv)
    then obtain v where v: "resolve_steps_variable (get_or_empty kv ''steps'') (tl rest) = Inr v"
      using steps assms(1) by metis
    show ?thesis
    proof (cases "get_or_empty vs ''self''")
      case (PDict kw)
      then obtain w where "resolve_steps_variable (get_or_empty kw ''steps'') (tl rest) = Inr w"
        using steps assms(2) by metis
      then show ?thesis unfolding resolve_scoped_def \<open>get_or_empty vs ns = PDict kv\<close> PDict by (simp add: v)
    qed (simp_all add: resolve_scoped_def \<open>get_or_empty vs ns = PDict kv\<close> v)
  qed (simp_all add: resolve_scoped_def)
qed

lemma resolve_variable_ok: "variables_ok vs \<Longrightarrow> \<exists>v. resolve_variable vs p = Inr v"
  unfolding variables_ok_def resolve_variable_def Let_def
  using resolve_steps_ok [of "get_or_empty vs ''steps''"]
    resolve_scoped_ok [of vs "''self''"] resolve_scoped_ok [of vs "''parent''"] resolve_scoped_ok [of vs "''root''"]
  by auto

lemma apply_filters_error: "apply_filters v fs = Inl e \<Longrightarrow> e = ValueError"
  unfolding apply_filters_def by (drule fold_r_InlD) (auto split: if_splits)

lemma replace_var_error:
  assumes "variables_ok vs" "replace_var vs x u = (Inl e, u')"
  shows "e = ValueError"
proof -
  obtain p fs where pf: "parse_variable_expression x = (p, fs)" by (cases "parse_variable_expression x")
  obtain v where v: "resolve_variable vs p = Inr v" using resolve_variable_ok [OF assms(1)] by blast
  show ?thesis
    using assms(2) apply_filters_error [of v fs e] unfolding replace_var_def
    by (auto simp: pf v result_simps split: if_splits)
qed

lemma scan_vars_error: "variables_ok vs \<Longrightarrow> scan_vars vs prev s u = (Inl e, u') \<Longrightarrow> e = ValueError"
proof (induction vs prev s u arbitrary: u' rule: scan_vars.induct)
  case (2 vs prev c s u)
  show ?case
  proof (cases "match_var prev (c # s)")
    case None
    then show ?thesis using 2 by (simp add: mapped_error)
  next
    case (Some m)
    then show ?thesis
      using 2 replace_var_error [OF 2(3)] by (cases m) (auto simp: mapped_error chain_error)
  qed
qed simp

lemma check_undefined_error: "check_undefined t p = (Inl e, u) \<Longrightarrow> p = (Inl e, u) \<or> e = ValueError"
  by (auto simp: check_undefined_def chain_error split: if_splits)

lemma substitute_error:
  "variables_ok vs \<Longrightarrow> substitute vs t v u = (Inl e, u') \<Longrightarrow> e = ValueError"
  "variables_ok vs \<Longrightarrow> substitute_items vs xs u = (Inl e, u') \<Longrightarrow> e = ValueError"
  "variables_ok vs \<Longrightarrow> substitute_entries vs kvs u = (Inl e, u') \<Longrightarrow> e = ValueError"
  by (induction vs t v u and vs xs u and vs kvs u arbitrary: u' and u' and u'
      rule: substitute_substitute_items_substitute_entries.induct)
    (auto simp: mapped_error chain_error substitute_string_def dest: scan_vars_error dest!: check_undefined_error)

lemma replace_var_grows: "replace_var vs x u = (Inr t, u') \<Longrightarrow> set u \<subseteq> set u'"
  unfolding replace_var_def by (auto split: prod.splits sum.splits if_splits)

lemma mapped_result: "mapped f p = (Inr y, u) \<longleftrightarrow> (\<exists>x. p = (Inr x, u) \<and> y = f x)"
  by (cases p; cases "fst p"; auto simp: mapped_def)

lemma chain_result: "chain p f = (Inr y, u) \<longleftrightarrow> (\<exists>x v. p = (Inr x, v) \<and> f x v = (Inr y, u))"
  by (cases p; cases "fst p"; simp add: chain_def)

lemma scan_vars_grows: "scan_vars vs prev s u = (Inr t, u') \<Longrightarrow> set u \<subseteq> set u'"
proof (induction vs prev s u arbitrary: t u' rule: scan_vars.induct)
  case (2 vs prev c s u)
  show ?case
  proof (cases "match_var prev (c # s)")
    case None
    then show ?thesis using 2 by (auto simp: mapped_result)
  next
    case (Some m)
    obtain e r where m: "m = (e, r)" by (cases m)
    with Some 2(3) obtain x v ts where "replace_var vs e u = (Inr x, v)" "scan_vars vs (Some CHR ''}'') r v = (Inr ts, u')"
      by (auto simp: mapped_result chain_result)
    then show ?thesis using 2(2) [OF Some] m replace_var_grows by fastforce
  qed
qed simp

lemma substitute_string_grows: "substitute_string vs s u = (Inr t, u') \<Longrightarrow> set u \<subseteq> set u'"
  unfolding substitute_string_def mapped_result using scan_vars_grows by blast

lemma substitute_string_error: "variables_ok vs \<Longrightarrow> substitute_string vs s u = (Inl e, u') \<Longrightarrow> e = ValueError"
  unfolding substitute_string_def mapped_error using scan_vars_error by blast

section \<open>Properties\<close>

text \<open>
  C33: doubling the dollars of a text quotes it: substitution gives the text back and reports
  nothing undefined, whatever the variables are. The text must not contain the NUL character,
  which the code uses as its marker for an escaped dollar.
\<close>

theorem quoted_text_unchanged:
  assumes "CHR 0x00 \<notin> set s"
  shows "substitute variables track (PStr (quote_dollars s)) undef = (Inr (PStr s), [])"
  by (simp add: substitute_quoted [OF assms] check_undefined_def)

theorem quoted_text_unchanged_witness:
  "substitute [(''item'', PInt 3)] True (PStr ''$${item} costs $$5'') [] = (Inr (PStr ''${item} costs $5''), [])"
  using quoted_text_unchanged [of "''${item} costs $5''" "[(''item'', PInt 3)]" True "[]"]
  by (simp add: quote_dollars_def)

text \<open>
  C34: an expression that names a string is replaced by that string, and the string itself is not
  scanned: only the text after the expression is substituted further.
\<close>

theorem expression_spliced:
  assumes "CHR ''$'' \<notin> set a" "CHR 0x00 \<notin> set a" "e \<noteq> []"
    "CHR ''}'' \<notin> set e" "CHR ''$'' \<notin> set e" "CHR ''|'' \<notin> set e"
    and "resolve_variable variables e = Inr (PStr t)" "CHR 0x00 \<notin> set t"
  shows "substitute_string variables (a @ ''${'' @ e @ ''}'' @ s) undef
    = mapped (\<lambda>ts. a @ t @ ts) (substitute_string variables s undef)"
proof -
  have "replace_var variables e undef = (Inr t, undef)"
    using assms(6,7) by (simp add: replace_var_def parse_variable_expression_def split_on_no_sep apply_filters_def value_text_def)
  then show ?thesis using substitute_expression [OF assms(1-5)] restore_plain [OF assms(8)] by simp
qed

theorem expression_spliced_witness:
  "substitute_string [(''item'', PStr ''${x}'')] ''<${item}>'' [] = (Inr ''<${x}>'', [])"
proof -
  have "substitute_string [(''item'', PStr ''${x}'')] (''<'' @ ''${'' @ ''item'' @ ''}'' @ ''>'') []
      = mapped (\<lambda>ts. ''<'' @ ''${x}'' @ ts) (substitute_string [(''item'', PStr ''${x}'')] ''>'' [])"
    by (rule expression_spliced) (simp_all add: resolve_variable_def)
  moreover have "substitute_string [(''item'', PStr ''${x}'')] ''>'' [] = (Inr ''>'', [])" by code_simp
  ultimately show ?thesis by simp
qed

text \<open>
  With step results held in dicts, substitution of any value gives a value or raises
  ValueError; no other exception escapes.
\<close>

theorem substitute_value_or_error:
  assumes "variables_ok variables"
  shows "(\<exists>w. fst (substitute variables track v undef) = Inr w) \<or> fst (substitute variables track v undef) = Inl ValueError"
  using substitute_error(1) [OF assms, of track v undef]
  by (cases "substitute variables track v undef"; cases "fst (substitute variables track v undef)") auto

theorem substitute_value_or_error_witness:
  "(\<exists>v. fst (substitute [] True (PStr ''${steps.a.b}'') []) = Inr v) \<or> fst (substitute [] True (PStr ''${steps.a.b}'') []) = Inl ValueError"
  by (rule substitute_value_or_error) (simp add: variables_ok_def steps_ok_def get_or_empty_def)

text \<open>
  An expression that names nothing makes the substitution of its string raise ValueError,
  whatever surrounds it.
\<close>

theorem undefined_expression_raises:
  assumes "variables_ok variables" "CHR ''$'' \<notin> set a" "CHR 0x00 \<notin> set a" "e \<noteq> []"
    "CHR ''}'' \<notin> set e" "CHR ''$'' \<notin> set e" "CHR ''|'' \<notin> set e" "resolve_variable variables e = Inr PNone"
  shows "fst (substitute variables True (PStr (a @ ''${'' @ e @ ''}'' @ s)) undef) = Inl ValueError"
proof -
  obtain r u where q: "substitute_string variables s [e] = (r, u)" by (cases "substitute_string variables s [e]")
  have "replace_var variables e [] = (Inr (''${'' @ e @ ''}''), [e])"
    using assms(7,8) by (simp add: replace_var_def parse_variable_expression_def split_on_no_sep)
  then have p: "substitute_string variables (a @ ''${'' @ e @ ''}'' @ s) []
      = mapped (\<lambda>ts. a @ restore_dollars (''${'' @ e @ ''}'') @ ts) (r, u)"
    using substitute_expression [OF assms(2-6)] q by simp
  show ?thesis
  proof (cases r)
    case (Inl x)
    then show ?thesis
      using substitute_string_error [OF assms(1)] q by (simp add: p check_undefined_def del: append.simps)
  next
    case (Inr t)
    then have "u \<noteq> []" using substitute_string_grows q by force
    with Inr show ?thesis by (simp add: p check_undefined_def del: append.simps)
  qed
qed

theorem undefined_expression_raises_witness:
  "fst (substitute [] True (PStr ''at ${context.k}!'') []) = Inl ValueError"
  using undefined_expression_raises [of "[]" "''at ''" "''context.k''" "''!''" "[]"]
  by (simp add: variables_ok_def steps_ok_def get_or_empty_def resolve_variable_def)

text \<open>
  In a list the check is lost: an item whose expressions are undefined raises on its own, but
  followed by an item without dollars it passes, its expressions left in place.
\<close>

theorem list_forgets_undefined:
  assumes "substitute variables False (PStr t) undef = (Inr v, u)" "u \<noteq> []"
    "CHR ''$'' \<notin> set s" "CHR 0x00 \<notin> set s"
  shows "fst (substitute variables True (PStr t) undef) = Inl ValueError
    \<and> substitute variables True (PList [PStr t, PStr s]) undef = (Inr (PList [v, PStr s]), [])"
proof -
  have t: "mapped PStr (substitute_string variables t []) = (Inr v, u)"
    using assms(1) unfolding substitute.simps check_undefined_def by (auto simp: chain_result)
  then show ?thesis
    using assms(2) substitute_plain [OF assms(3,4), of variables "[]"]
    by (simp add: check_undefined_def)
qed

theorem list_forgets_undefined_witness:
  "substitute [] True (PList [PStr ''${context.k}'', PStr ''ok'']) [] = (Inr (PList [PStr ''${context.k}'', PStr ''ok'']), [])"
proof -
  have "substitute [] False (PStr ''${context.k}'') [] = (Inr (PStr ''${context.k}''), [''context.k''])" by code_simp
  from list_forgets_undefined [OF this, of "''ok''"] show ?thesis by simp
qed

text \<open>
  The bare name of a dict namespace is never undefined: without a binding it is replaced by
  the empty object.
\<close>

theorem bare_namespace_defined:
  assumes "namespace \<in> {''run'', ''loop'', ''context'', ''inputs'', ''self'', ''parent'', ''root''}"
    "map_of variables namespace = None"
  shows "substitute variables True (PStr (''${'' @ namespace @ ''}'')) undef = (Inr (PStr ''{}''), [])"
proof -
  have resolved: "resolve_variable variables namespace = Inr (PDict [])"
    and plain: "namespace \<noteq> []" "CHR ''}'' \<notin> set namespace" "CHR ''$'' \<notin> set namespace" "CHR ''|'' \<notin> set namespace"
    using assms by (auto simp: resolve_variable_def resolve_scoped_def get_or_empty_def)
  have "value_text (PDict []) = ''{}''" by code_simp
  then have "replace_var variables namespace [] = (Inr ''{}'', [])"
    using plain(4) resolved by (simp add: replace_var_def parse_variable_expression_def split_on_no_sep apply_filters_def)
  then show ?thesis
    using substitute_expression [of "[]" namespace variables "[]" "[]"] plain(1-3)
    by (simp add: substitute_plain restore_plain check_undefined_def)
qed

theorem bare_namespace_defined_witness:
  "substitute [] True (PStr ''${loop}'') [] = (Inr (PStr ''{}''), [])"
  using bare_namespace_defined [of "''loop''" "[]" "[]"] by simp

text \<open>
  The variables built from a run state whose steps are a dict satisfy the precondition of
  substitution.
\<close>

theorem built_variables_ok:
  assumes "build_variables (PDict run_state) context loop_vars item = Inr variables"
    "is_mapping (get_or_empty run_state ''steps'')"
  shows "variables_ok variables"
  using assms unfolding build_variables_def variables_ok_def
  by (auto simp: result_simps Let_def steps_ok_def get_or_empty_def map_add_def split: if_splits)

theorem built_variables_ok_witness:
  "variables_ok [(''run'', PDict [(''id'', PStr ''r1''), (''root'', PStr []), (''timestamp_utc'', PStr [])]),
     (''steps'', PDict []), (''inputs'', PDict []), (''item'', PInt 1)]"
proof -
  have "build_variables (PDict [(''run_id'', PStr ''r1'')]) PNone PNone (PInt 1)
    = Inr [(''run'', PDict [(''id'', PStr ''r1''), (''root'', PStr []), (''timestamp_utc'', PStr [])]),
     (''steps'', PDict []), (''inputs'', PDict []), (''item'', PInt 1)]" by code_simp
  then show ?thesis by (rule built_variables_ok) (simp add: get_or_empty_def)
qed

end
