(* ===== verification/Conditions.thy ===== *)
theory Conditions
  imports Predicates Substitution
begin

text \<open>
  Step conditions of \<open>src/orchestrator/workflow/conditions.py\<close>: the legacy forms \<open>equals\<close>,
  \<open>exists\<close> and \<open>not_exists\<close> over substituted text, and the typed predicates. Globbing and the
  resolution of symbolic links are file system services and parameters of the model (fields of
  \<open>condition_host\<close>), as is the \<open>str\<close> of a container. The interface to substitution is the locale
  \<open>text_substitution\<close>: with well-formed variables it raises ValueError only, which is what the
  conditions catch.
\<close>

record condition_host =
  glob_paths :: "string \<Rightarrow> string list"
  real_path :: "string \<Rightarrow> string"
  object_str :: "pyval \<Rightarrow> string"

record ConditionEvaluator =
  workspace :: posix_path
  host :: condition_host

datatype condition_node =
    EqualsConditionNode pyval pyval
  | ExistsConditionNode string
  | NotExistsConditionNode string

definition LEGACY_CONDITION_TYPES :: "string list" where
  "LEGACY_CONDITION_TYPES = [''equals'', ''exists'', ''not_exists'']"

definition parse_legacy_condition :: "pyval \<Rightarrow> condition_node option" where
  "parse_legacy_condition condition = (case condition of
      PDict kv \<Rightarrow>
        if length (filter (has_key kv) LEGACY_CONDITION_TYPES) \<noteq> 1 then None
        else if has_key kv ''equals'' then
          (case dget kv ''equals'' of
             PDict eq \<Rightarrow> Some (EqualsConditionNode (dget eq ''left'') (dget eq ''right''))
           | _ \<Rightarrow> None)
        else if has_key kv ''exists'' \<and> is_str (dget kv ''exists'')
        then Some (ExistsConditionNode (str_of (dget kv ''exists'')))
        else if has_key kv ''not_exists'' \<and> is_str (dget kv ''not_exists'')
        then Some (NotExistsConditionNode (str_of (dget kv ''not_exists'')))
        else None
    | _ \<Rightarrow> None)"

definition to_string :: "condition_host \<Rightarrow> pyval \<Rightarrow> string" where
  "to_string h v = (case v of
      PBool b \<Rightarrow> if b then ''true'' else ''false''
    | PStr s \<Rightarrow> s
    | _ \<Rightarrow> py_str (object_str h) v)"

definition is_path_safe :: "string \<Rightarrow> bool" where
  "is_path_safe path =
     (\<not> is_absolute (PurePosixPath path) \<and> ''..'' \<notin> set (path_parts (PurePosixPath path)))"

definition substituted :: "pydict \<Rightarrow> pyval \<Rightarrow> exc + pyval" where
  "substituted variables v = fst (substitute variables True v [])"

text \<open>\<open>try: w = m  except ValueError: return d\<close>, then the rest of the function on \<open>w\<close>.\<close>

definition or_on_value_error :: "exc + 'a \<Rightarrow> 'b \<Rightarrow> ('a \<Rightarrow> exc + 'b) \<Rightarrow> exc + 'b" where
  "or_on_value_error m d f = (case m of
      Inl e \<Rightarrow> if e = ValueError then Inr d else Inl e
    | Inr w \<Rightarrow> f w)"

definition evaluate_equals :: "ConditionEvaluator \<Rightarrow> pyval \<Rightarrow> pydict \<Rightarrow> exc + bool" where
  "evaluate_equals ev equals_cond variables = (case equals_cond of
      PDict kv \<Rightarrow>
        if \<not> has_key kv ''left'' \<or> \<not> has_key kv ''right'' then Inl ValueError
        else or_on_value_error
          (rbind (substituted variables (dget kv ''left'')) (\<lambda>left.
           rbind (substituted variables (dget kv ''right'')) (\<lambda>right. Inr (left, right))))
          False
          (\<lambda>(left, right). Inr (to_string (host ev) left = to_string (host ev) right))
    | _ \<Rightarrow> Inl ValueError)"

text \<open>The files that match and whose real path is in the workspace.\<close>

definition in_workspace :: "ConditionEvaluator \<Rightarrow> string \<Rightarrow> bool" where
  "in_workspace ev m = (case relative_to (PurePosixPath (real_path (host ev) m)) (workspace ev) of
      Inr _ \<Rightarrow> True | Inl _ \<Rightarrow> False)"

definition evaluate_exists :: "ConditionEvaluator \<Rightarrow> pyval \<Rightarrow> pydict \<Rightarrow> exc + bool" where
  "evaluate_exists ev pattern variables =
     (if \<not> is_str pattern then Inl ValueError
      else or_on_value_error
        (rbind (substituted variables pattern) (\<lambda>w. if is_str w then Inr (str_of w) else Inl ValueError))
        False
        (\<lambda>p. if \<not> is_path_safe p then Inl ValueError
             else Inr (list_ex (in_workspace ev)
               (glob_paths (host ev) (path_str (joinpath (workspace ev) (PurePosixPath p)))))))"

definition evaluate_not_exists :: "ConditionEvaluator \<Rightarrow> pyval \<Rightarrow> pydict \<Rightarrow> exc + bool" where
  "evaluate_not_exists ev pattern variables =
     rbind (evaluate_exists ev pattern variables) (\<lambda>b. Inr (\<not> b))"

definition evaluate_condition ::
    "ConditionEvaluator \<Rightarrow> pyval \<Rightarrow> pydict \<Rightarrow> pydict option \<Rightarrow> pyval \<Rightarrow> exc + bool" where
  "evaluate_condition ev condition variables state scope = (case condition of
      PNone \<Rightarrow> Inr True
    | PDict kv \<Rightarrow>
        if length (filter (has_key kv) (LEGACY_CONDITION_TYPES @ TYPED_PREDICATE_OPERATOR_KEYS)) \<noteq> 1
        then Inl ValueError
        else if has_key kv ''equals'' then evaluate_equals ev (dget kv ''equals'') variables
        else if has_key kv ''exists'' then evaluate_exists ev (dget kv ''exists'') variables
        else if has_key kv ''not_exists'' then evaluate_not_exists ev (dget kv ''not_exists'') variables
        else (case state of Some st \<Rightarrow> evaluate st scope condition | None \<Rightarrow> Inr True)
    | _ \<Rightarrow> Inl ValueError)"

fun evaluate_parsed :: "ConditionEvaluator \<Rightarrow> condition_node option \<Rightarrow> pydict \<Rightarrow> exc + bool" where
  "evaluate_parsed ev None variables = Inr True"
| "evaluate_parsed ev (Some (EqualsConditionNode left right)) variables =
     evaluate_equals ev (PDict [(''left'', left), (''right'', right)]) variables"
| "evaluate_parsed ev (Some (ExistsConditionNode pattern)) variables = evaluate_exists ev (PStr pattern) variables"
| "evaluate_parsed ev (Some (NotExistsConditionNode pattern)) variables = evaluate_not_exists ev (PStr pattern) variables"

section \<open>The interface to substitution\<close>

locale text_substitution =
  fixes ok :: "pydict \<Rightarrow> bool"
    and subst :: "pydict \<Rightarrow> pyval \<Rightarrow> exc + pyval"
  assumes value_error: "ok vs \<Longrightarrow> subst vs v = Inl e \<Longrightarrow> e = ValueError"
    and string_result: "subst vs (PStr s) = Inr w \<Longrightarrow> is_str w"
begin

lemma pair_caught:
  assumes "ok vs"
  shows "(\<exists>l r. subst vs v = Inr l \<and> subst vs w = Inr r
      \<and> or_on_value_error (rbind (subst vs v) (\<lambda>l. rbind (subst vs w) (\<lambda>r. Inr (l, r)))) d f = f (l, r))
    \<or> or_on_value_error (rbind (subst vs v) (\<lambda>l. rbind (subst vs w) (\<lambda>r. Inr (l, r)))) d f = Inr d"
proof (cases "subst vs v")
  case (Inl e)
  then show ?thesis using value_error [OF assms] by (simp add: or_on_value_error_def)
next
  case (Inr l)
  then show ?thesis
    using value_error [OF assms, of w] by (cases "subst vs w") (simp_all add: or_on_value_error_def)
qed

lemma text_caught:
  assumes "ok vs"
  shows "(\<exists>t. subst vs (PStr s) = Inr (PStr t)
      \<and> or_on_value_error (rbind (subst vs (PStr s)) (\<lambda>w. if is_str w then Inr (str_of w) else Inl ValueError)) d f = f t)
    \<or> or_on_value_error (rbind (subst vs (PStr s)) (\<lambda>w. if is_str w then Inr (str_of w) else Inl ValueError)) d f = Inr d"
proof (cases "subst vs (PStr s)")
  case (Inl e)
  then show ?thesis using value_error [OF assms] by (simp add: or_on_value_error_def)
next
  case (Inr w)
  then obtain t where "w = PStr t" using string_result is_strE by blast
  with Inr show ?thesis by (simp add: or_on_value_error_def)
qed

end

lemma substitute_string_result: "substituted vs (PStr s) = Inr w \<Longrightarrow> is_str w"
  unfolding substituted_def by (auto simp: check_undefined_def chain_def mapped_def result_simps split: sum.splits if_splits)

interpretation model: text_substitution variables_ok substituted
proof
  show "variables_ok vs \<Longrightarrow> substituted vs v = Inl e \<Longrightarrow> e = ValueError" for vs v e
    unfolding substituted_def using substitute_error(1) [of vs True v "[]" e] by (metis prod.collapse)
  show "substituted vs (PStr s) = Inr w \<Longrightarrow> is_str w" for vs s w
    by (rule substitute_string_result)
qed

section \<open>Properties\<close>

lemma equals_error: "variables_ok vs \<Longrightarrow> evaluate_equals ev c vs = Inl e \<Longrightarrow> e = ValueError"
proof (cases c)
  case (PDict kv)
  assume ok: "variables_ok vs" and e: "evaluate_equals ev c vs = Inl e"
  show ?thesis
    using e model.pair_caught [OF ok, of "dget kv ''left''" "dget kv ''right''" False
        "\<lambda>(left, right). Inr (to_string (host ev) left = to_string (host ev) right)"]
    unfolding evaluate_equals_def PDict by (auto split: if_splits)
qed (simp_all add: evaluate_equals_def)

lemma exists_cases:
  assumes "variables_ok vs"
  obtains (undefined) "evaluate_exists ev (PStr s) vs = Inr False"
  | (unsafe) t where "substituted vs (PStr s) = Inr (PStr t)" "\<not> is_path_safe t" "evaluate_exists ev (PStr s) vs = Inl ValueError"
  | (globbed) t where "substituted vs (PStr s) = Inr (PStr t)" "is_path_safe t"
    "evaluate_exists ev (PStr s) vs = Inr (list_ex (in_workspace ev)
       (glob_paths (host ev) (path_str (joinpath (workspace ev) (PurePosixPath t)))))"
  using model.text_caught [OF assms, of s False "\<lambda>p. if \<not> is_path_safe p then Inl ValueError
        else Inr (list_ex (in_workspace ev) (glob_paths (host ev) (path_str (joinpath (workspace ev) (PurePosixPath p)))))"]
  unfolding evaluate_exists_def by (auto split: if_splits)

lemma exists_error: "variables_ok vs \<Longrightarrow> evaluate_exists ev p vs = Inl e \<Longrightarrow> e = ValueError"
proof (cases "is_str p")
  case True
  assume "variables_ok vs" "evaluate_exists ev p vs = Inl e"
  with True show ?thesis by (elim is_strE) (rule exists_cases [of vs ev "str_of p"], auto)
qed (simp add: evaluate_exists_def)

lemma single_type:
  assumes "length (filter (has_key kv) LEGACY_CONDITION_TYPES) = 1" "typed_predicate_operator_keys kv = []"
  shows "length (filter (has_key kv) (LEGACY_CONDITION_TYPES @ TYPED_PREDICATE_OPERATOR_KEYS)) = 1"
  using assms unfolding typed_predicate_operator_keys_def by simp

text \<open>
  With well-formed variables a condition that declares no typed operator evaluates to a truth
  value or raises ValueError.
\<close>

theorem legacy_condition_total:
  assumes "variables_ok variables" "typed_predicate_operator_keys kv = []"
  shows "(\<exists>b. evaluate_condition ev (PDict kv) variables state scope = Inr b)
    \<or> evaluate_condition ev (PDict kv) variables state scope = Inl ValueError"
proof -
  have legacy: "has_key kv ''equals'' \<or> has_key kv ''exists'' \<or> has_key kv ''not_exists''"
    if "length (filter (has_key kv) (LEGACY_CONDITION_TYPES @ TYPED_PREDICATE_OPERATOR_KEYS)) = 1"
    using that assms(2) unfolding typed_predicate_operator_keys_def LEGACY_CONDITION_TYPES_def
    by (auto split: if_splits)
  have "e = ValueError" if "evaluate_condition ev (PDict kv) variables state scope = Inl e" for e
    using that legacy equals_error [OF assms(1)] exists_error [OF assms(1)]
    unfolding evaluate_condition_def evaluate_not_exists_def
    by (auto simp: result_simps split: if_splits)
  then show ?thesis by (cases "evaluate_condition ev (PDict kv) variables state scope") auto
qed

text \<open>
  Evaluating a legacy condition directly and through its parsed node agrees, for an equals
  condition with both sides.
\<close>

theorem parsed_condition_agrees:
  assumes "parse_legacy_condition (PDict kv) = Some n" "typed_predicate_operator_keys kv = []"
    "\<forall>eq. map_of kv ''equals'' = Some (PDict eq) \<longrightarrow> has_key eq ''left'' \<and> has_key eq ''right''"
  shows "evaluate_condition ev (PDict kv) variables state scope = evaluate_parsed ev (Some n) variables"
proof -
  have one: "length (filter (has_key kv) LEGACY_CONDITION_TYPES) = 1"
    using assms(1) unfolding parse_legacy_condition_def by (auto split: if_splits)
  note parsed = assms(1) [unfolded parse_legacy_condition_def pyval.case]
  consider eq where "has_key kv ''equals''" "dget kv ''equals'' = PDict eq"
      "n = EqualsConditionNode (dget eq ''left'') (dget eq ''right'')"
    | s where "\<not> has_key kv ''equals''" "has_key kv ''exists''" "dget kv ''exists'' = PStr s" "n = ExistsConditionNode s"
    | s where "\<not> has_key kv ''equals''" "\<not> has_key kv ''exists''" "has_key kv ''not_exists''"
        "dget kv ''not_exists'' = PStr s" "n = NotExistsConditionNode s"
  proof (cases "has_key kv ''equals''")
    case True
    then show ?thesis using parsed one that(1) by (cases "dget kv ''equals''") simp_all
  next
    case False
    show ?thesis
    proof (cases "has_key kv ''exists''")
      case True
      then have "\<not> has_key kv ''not_exists''" using one False unfolding LEGACY_CONDITION_TYPES_def by auto
      then show ?thesis using parsed one False True that(2) by (cases "dget kv ''exists''") simp_all
    next
      case none: False
      then show ?thesis using parsed one False that(3) by (cases "dget kv ''not_exists''") (simp_all split: if_splits)
    qed
  qed
  then show ?thesis
  proof cases
    case (1 eq)
    then have "has_key eq ''left''" "has_key eq ''right''"
      using assms(3) unfolding has_key_def by (auto simp: dget_def)
    then show ?thesis
      using 1 single_type [OF one assms(2)] unfolding evaluate_condition_def
      by (simp add: evaluate_equals_def has_key_def)
  qed (use single_type [OF one assms(2)] in \<open>simp_all add: evaluate_condition_def\<close>)
qed

text \<open>
  C35: an exists condition holds only for a file whose real path lies in the workspace, found by
  globbing below the workspace a relative pattern without parent segments.
\<close>

theorem exists_stays_in_workspace:
  assumes "variables_ok variables" "evaluate_exists ev (PStr s) variables = Inr True"
  shows "\<exists>t m. substituted variables (PStr s) = Inr (PStr t) \<and> ''..'' \<notin> set (path_parts (PurePosixPath t))
    \<and> joinpath (workspace ev) (PurePosixPath t)
        = (workspace ev)\<lparr>path_parts := path_parts (workspace ev) @ path_parts (PurePosixPath t)\<rparr>
    \<and> m \<in> set (glob_paths (host ev) (path_str (joinpath (workspace ev) (PurePosixPath t))))
    \<and> path_root (PurePosixPath (real_path (host ev) m)) = path_root (workspace ev)
    \<and> prefix (path_parts (workspace ev)) (path_parts (PurePosixPath (real_path (host ev) m)))"
  using assms(1)
proof (cases rule: exists_cases [where ev = ev and s = s])
  case (globbed t)
  then obtain m where "m \<in> set (glob_paths (host ev) (path_str (joinpath (workspace ev) (PurePosixPath t))))" "in_workspace ev m"
    using assms(2) by (auto simp: list_ex_iff)
  moreover from this(2) have "path_root (PurePosixPath (real_path (host ev) m)) = path_root (workspace ev)"
    "prefix (path_parts (workspace ev)) (path_parts (PurePosixPath (real_path (host ev) m)))"
    unfolding in_workspace_def relative_to_def by (auto split: if_splits simp: prefix_def) (metis append_take_drop_id)
  ultimately show ?thesis using globbed(1,2) unfolding is_path_safe_def joinpath_def by auto
qed (use assms(2) in simp_all)

text \<open>
  A variable without a value makes exists false but not_exists true: for not_exists an
  undefined variable satisfies the condition.
\<close>

theorem undefined_satisfies_not_exists:
  assumes "substituted variables (PStr s) = Inl ValueError"
  shows "evaluate_exists ev (PStr s) variables = Inr False \<and> evaluate_not_exists ev (PStr s) variables = Inr True"
  using assms by (simp add: evaluate_not_exists_def evaluate_exists_def or_on_value_error_def)

text \<open>
  An equals condition without its sides is rejected when it is evaluated as authored, but its
  parsed node compares None with None and holds.
\<close>

theorem parsed_equals_without_sides_holds:
  "evaluate_condition ev (PDict [(''equals'', PDict [])]) variables state scope = Inl ValueError
   \<and> evaluate_parsed ev (parse_legacy_condition (PDict [(''equals'', PDict [])])) variables = Inr True"
proof -
  have "parse_legacy_condition (PDict [(''equals'', PDict [])]) = Some (EqualsConditionNode PNone PNone)" by code_simp
  moreover have "substituted variables PNone = Inr PNone" by (simp add: substituted_def)
  ultimately show ?thesis
    by (simp add: evaluate_condition_def evaluate_equals_def or_on_value_error_def has_key_def
        LEGACY_CONDITION_TYPES_def TYPED_PREDICATE_OPERATOR_KEYS_def)
qed

section \<open>Witnesses\<close>

definition demo_evaluator :: ConditionEvaluator where
  "demo_evaluator = \<lparr>workspace = PurePosixPath ''/ws'',
     host = \<lparr>glob_paths = (\<lambda>p. [p]), real_path = (\<lambda>p. p), object_str = (\<lambda>_. [])\<rparr>\<rparr>"

lemma no_variables_ok: "variables_ok []"
  by (simp add: variables_ok_def steps_ok_def get_or_empty_def)

theorem legacy_condition_total_witness:
  "(\<exists>b. evaluate_condition demo_evaluator (PDict [(''exists'', PStr ''a'')]) [] None PNone = Inr b)
    \<or> evaluate_condition demo_evaluator (PDict [(''exists'', PStr ''a'')]) [] None PNone = Inl ValueError"
  by (rule legacy_condition_total [OF no_variables_ok]) code_simp

theorem parsed_condition_agrees_witness:
  "evaluate_condition demo_evaluator (PDict [(''not_exists'', PStr ''a'')]) [] None PNone
   = evaluate_parsed demo_evaluator (Some (NotExistsConditionNode ''a'')) []"
proof (rule parsed_condition_agrees)
  show "parse_legacy_condition (PDict [(''not_exists'', PStr ''a'')]) = Some (NotExistsConditionNode ''a'')" by code_simp
  show "typed_predicate_operator_keys [(''not_exists'', PStr ''a'')] = []" by code_simp
qed simp

theorem exists_stays_in_workspace_witness:
  "\<exists>t m. substituted [] (PStr ''a'') = Inr (PStr t)
    \<and> prefix [''ws''] (path_parts (PurePosixPath (real_path (host demo_evaluator) m)))"
proof -
  have "evaluate_exists demo_evaluator (PStr ''a'') [] = Inr True" by code_simp
  moreover have "path_parts (workspace demo_evaluator) = [''ws'']" by code_simp
  ultimately show ?thesis
    using exists_stays_in_workspace [OF no_variables_ok, of demo_evaluator "''a''"] by metis
qed

theorem undefined_satisfies_not_exists_witness:
  "evaluate_not_exists demo_evaluator (PStr ''${item}'') [] = Inr True"
proof -
  have "substituted [] (PStr ''${item}'') = Inl ValueError" by code_simp
  from undefined_satisfies_not_exists [OF this] show ?thesis by (rule conjunct2)
qed

end
