(* ===== verification/LispReader.thy ===== *)
theory LispReader
  imports Prelude
begin

text \<open>
  The S-expression reader of \<open>src/orchestrator/workflow_lisp/reader.py\<close> with the nodes of
  \<open>sexpr.py\<close> and the positions of \<open>spans.py\<close>. Source text is the list of its code points, since
  offsets and columns count code points. The reader's state is a record: \<open>unread\<close> is
  \<open>source[index:]\<close>, next to the index, line and column of the next character.

  \<open>peek\<close> and \<open>advance\<close> read \<open>source[index]\<close> and raise IndexError at the end of the text, as Python does.
  The mutually recursive methods are given fuel; \<open>read_fuel\<close> is enough for every text, which the
  theory on spans shows. Python's recursion limit is not modelled. The value of a float literal is
  kept as the exact decimal that is written; rounding it to a double is left out. An integer
  literal of more than 4300 digits is refused by Python's \<open>int\<close> with a ValueError.
\<close>

type_synonym codepoints = "int list"

section \<open>Positions and nodes\<close>

record SourcePosition =
  pos_path :: string
  pos_line :: nat
  pos_column :: nat
  pos_offset :: nat

record SourceSpan =
  span_start :: SourcePosition
  span_end :: SourcePosition

type_synonym decimal = "bool \<times> int \<times> nat"

datatype SExpr =
    ListExpr "SExpr list" SourceSpan
  | SymbolAtom codepoints SourceSpan
  | KeywordAtom codepoints SourceSpan
  | StringAtom codepoints SourceSpan
  | IntAtom int SourceSpan
  | FloatAtom decimal SourceSpan
  | BoolAtom bool SourceSpan

datatype read_error = FrontendParseError string SourceSpan | IntegerTooLong | IndexError | OutOfFuel

section \<open>Character classes\<close>

text \<open>\<open>str.isspace\<close> of one character, and the zeros of the decimal digits (category Nd).\<close>

definition isspace :: "int \<Rightarrow> bool" where
  "isspace c = (c \<in> {9, 10, 11, 12, 13, 28, 29, 30, 31, 32, 133, 160, 5760, 8192, 8193, 8194, 8195, 8196,
     8197, 8198, 8199, 8200, 8201, 8202, 8232, 8233, 8239, 8287, 12288})"

definition digit_zeros :: "int list" where
  "digit_zeros = [48, 1632, 1776, 1984, 2406, 2534, 2662, 2790, 2918, 3046, 3174, 3302, 3430, 3558, 3664,
     3792, 3872, 4160, 4240, 6112, 6160, 6470, 6608, 6784, 6800, 6992, 7088, 7232, 7248, 42528, 43216, 43264,
     43472, 43504, 43600, 44016, 65296, 66720, 68912, 69734, 69872, 69942, 70096, 70384, 70736, 70864, 71248,
     71360, 71472, 71904, 72016, 72784, 73040, 73120, 92768, 92864, 93008, 120782, 120792, 120802, 120812,
     120822, 123200, 123632, 125264, 130032]"

definition digit_value :: "int \<Rightarrow> int option" where
  "digit_value c = map_option (\<lambda>z. c - z) (List.find (\<lambda>z. z \<le> c \<and> c < z + 10) digit_zeros)"

definition is_decimal :: "int \<Rightarrow> bool" where
  "is_decimal c = (digit_value c \<noteq> None)"

definition decimal_value :: "codepoints \<Rightarrow> int" where
  "decimal_value = foldl (\<lambda>n c. 10 * n + the (digit_value c)) 0"

section \<open>The reader's state\<close>

record reader =
  source_path :: string
  unread :: codepoints
  index :: nat
  line :: nat
  column :: nat

definition new_reader :: "codepoints \<Rightarrow> string \<Rightarrow> reader" where
  "new_reader source path = \<lparr>source_path = path, unread = source, index = 0, line = 1, column = 1\<rparr>"

definition position :: "reader \<Rightarrow> SourcePosition" where
  "position r = \<lparr>pos_path = source_path r, pos_line = line r, pos_column = column r, pos_offset = index r\<rparr>"

definition at_end :: "reader \<Rightarrow> bool" where
  "at_end r = (unread r = [])"

text \<open>Both index the source, which raises at its end.\<close>

definition peek :: "reader \<Rightarrow> read_error + int" where
  "peek r = (case unread r of [] \<Rightarrow> Inl IndexError | c # s \<Rightarrow> Inr c)"

definition advance :: "reader \<Rightarrow> read_error + reader" where
  "advance r = (case unread r of
      [] \<Rightarrow> Inl IndexError
    | c # s \<Rightarrow> Inr (r\<lparr>unread := s, index := Suc (index r),
        line := (if c = 10 then Suc (line r) else line r),
        column := (if c = 10 then 1 else Suc (column r))\<rparr>))"

lemma advance_consumes [termination_simp]: "advance r = Inr r' \<Longrightarrow> length (unread r') < length (unread r)"
  by (auto simp: advance_def split: list.splits)

definition span_from :: "SourcePosition \<Rightarrow> reader \<Rightarrow> SourceSpan" where
  "span_from start r = \<lparr>span_start = start, span_end = position r\<rparr>"

definition parse_error :: "string \<Rightarrow> SourcePosition \<Rightarrow> reader \<Rightarrow> read_error" where
  "parse_error message start r = FrontendParseError message (span_from start r)"

function skip_comment :: "reader \<Rightarrow> read_error + reader" where
  "skip_comment r =
     (if at_end r then Inr r
      else rbind (peek r) (\<lambda>c. if c = 10 then Inr r else rbind (advance r) skip_comment))"
  by pat_completeness auto
termination
  by (relation "measure (\<lambda>r. length (unread r))") (auto dest: advance_consumes)

declare skip_comment.simps [simp del]

lemma skip_comment_shorter: "skip_comment r = Inr r' \<Longrightarrow> length (unread r') \<le> length (unread r)"
proof (induction r rule: skip_comment.induct)
  case (1 r)
  show ?case
  proof (cases "at_end r")
    case False
    then obtain c s where c: "peek r = Inr c" by (cases "unread r") (auto simp: at_end_def peek_def)
    show ?thesis
    proof (cases "c = 10")
      case False
      obtain r1 where r1: "advance r = Inr r1" "skip_comment r1 = Inr r'"
        using "1.prems" \<open>\<not> at_end r\<close> c False by (subst (asm) skip_comment.simps) (auto simp: rbind_Inr_iff)
      from "1.IH" [OF \<open>\<not> at_end r\<close> c False r1] advance_consumes [OF r1(1)] show ?thesis by simp
    qed (use "1.prems" \<open>\<not> at_end r\<close> c in \<open>subst (asm) skip_comment.simps, simp\<close>)
  qed (use "1.prems" in \<open>subst (asm) skip_comment.simps, simp\<close>)
qed

function skip_ignored :: "reader \<Rightarrow> read_error + reader" where
  "skip_ignored r =
     (if at_end r then Inr r
      else rbind (peek r) (\<lambda>c.
        if isspace c then rbind (advance r) skip_ignored
        else if c = 59 then rbind (advance r) (\<lambda>r1. rbind (skip_comment r1) skip_ignored)
        else Inr r))"
  by pat_completeness auto
termination
  by (relation "measure (\<lambda>r. length (unread r))") (auto dest!: advance_consumes skip_comment_shorter)

declare skip_ignored.simps [simp del]

section \<open>Tokens\<close>

text \<open>The characters up to the first one that ends a token.\<close>

function read_until :: "(int \<Rightarrow> bool) \<Rightarrow> reader \<Rightarrow> read_error + (codepoints \<times> reader)" where
  "read_until stop r =
     (if at_end r then Inr ([], r)
      else rbind (peek r) (\<lambda>c. if stop c then Inr ([], r)
        else rbind (advance r) (\<lambda>r1. rbind (read_until stop r1) (\<lambda>(cs, r'). Inr (c # cs, r')))))"
  by pat_completeness auto
termination
  by (relation "measure (\<lambda>(_, r). length (unread r))") (auto dest: advance_consumes)

declare read_until.simps [simp del]

definition ends_atom :: "int \<Rightarrow> bool" where
  "ends_atom c = (isspace c \<or> c \<in> {40, 41, 91, 93, 59})"

definition unsigned :: "codepoints \<Rightarrow> codepoints" where
  "unsigned token = (case token of c # s \<Rightarrow> if c = 45 then s else token | [] \<Rightarrow> [])"

definition signed :: "codepoints \<Rightarrow> bool" where
  "signed token = (take 1 token = [45])"

definition is_integer :: "codepoints \<Rightarrow> bool" where
  "is_integer token = (unsigned token \<noteq> [] \<and> list_all is_decimal (unsigned token))"

definition is_float :: "codepoints \<Rightarrow> bool" where
  "is_float token =
     (let whole = takeWhile is_decimal (unsigned token); dot = dropWhile is_decimal (unsigned token) in
      take 1 dot = [46] \<and> list_all is_decimal (tl dot) \<and> (whole \<noteq> [] \<or> tl dot \<noteq> []))"

definition int_of_token :: "codepoints \<Rightarrow> int" where
  "int_of_token token =
     (if signed token then - decimal_value (unsigned token) else decimal_value (unsigned token))"

definition float_of_token :: "codepoints \<Rightarrow> decimal" where
  "float_of_token token =
     (let whole = takeWhile is_decimal (unsigned token); frac = tl (dropWhile is_decimal (unsigned token)) in
      (signed token, decimal_value (whole @ frac), length frac))"

definition codes :: "string \<Rightarrow> codepoints" where
  "codes s = map of_char s"

definition classify_token :: "codepoints \<Rightarrow> SourcePosition \<Rightarrow> reader \<Rightarrow> read_error + SExpr" where
  "classify_token token start r =
     (if token = [] then Inl (parse_error ''unexpected token'' start r)
      else if token = codes ''true'' then Inr (BoolAtom True (span_from start r))
      else if token = codes ''false'' then Inr (BoolAtom False (span_from start r))
      else if token = codes ''nil'' then Inl (parse_error ''unsupported lexical form: nil is not supported in Stage 1'' start r)
      else if hd token = 39
      then Inl (parse_error ''unsupported lexical form: quoted symbols are not supported in Stage 1'' start r)
      else if is_integer token then
        (if 4300 < int (length (unsigned token)) then Inl IntegerTooLong
         else Inr (IntAtom (int_of_token token) (span_from start r)))
      else if is_float token then Inr (FloatAtom (float_of_token token) (span_from start r))
      else if hd token = 58 then
        (if length token = 1 then Inl (parse_error ''invalid keyword token'' start r)
         else Inr (KeywordAtom token (span_from start r)))
      else Inr (SymbolAtom token (span_from start r)))"

definition read_atom :: "reader \<Rightarrow> read_error + (SExpr \<times> reader)" where
  "read_atom r = rbind (read_until ends_atom r) (\<lambda>(token, r').
     rbind (classify_token token (position r) r') (\<lambda>e. Inr (e, r')))"

text \<open>The body of a string, after its opening quote; \<open>start\<close> is the position of the quote.\<close>

definition escape_value :: "int \<Rightarrow> int option" where
  "escape_value c = (if c = 92 then Some 92 else if c = 34 then Some 34
     else if c = 110 then Some 10 else if c = 116 then Some 9 else None)"

function read_string_chars :: "SourcePosition \<Rightarrow> reader \<Rightarrow> read_error + (codepoints \<times> reader)" where
  "read_string_chars start r =
     (if at_end r then Inl (parse_error ''unterminated string'' start r)
      else rbind (peek r) (\<lambda>current.
        if current = 34 then rbind (advance r) (\<lambda>r1. Inr ([], r1))
        else if current = 92 then rbind (advance r) (\<lambda>r1.
          if at_end r1 then Inl (parse_error ''unterminated string'' start r1)
          else rbind (peek r1) (\<lambda>escaped. rbind (advance r1) (\<lambda>r2.
            case escape_value escaped of
              None \<Rightarrow> Inl (parse_error ''invalid string escape'' (position r) r2)
            | Some c \<Rightarrow> rbind (read_string_chars start r2) (\<lambda>(cs, r'). Inr (c # cs, r')))))
        else if current = 10 then Inl (parse_error ''unterminated string'' start r)
        else rbind (advance r) (\<lambda>r1. rbind (read_string_chars start r1) (\<lambda>(cs, r'). Inr (current # cs, r')))))"
  by pat_completeness auto
termination
  by (relation "measure (\<lambda>(_, r). length (unread r))") (auto dest!: advance_consumes)

declare read_string_chars.simps [simp del]

definition read_string :: "reader \<Rightarrow> read_error + (SExpr \<times> reader)" where
  "read_string r = rbind (advance r) (\<lambda>r1. rbind (read_string_chars (position r) r1) (\<lambda>(cs, r').
     Inr (StringAtom cs (span_from (position r) r'), r')))"

fun reaches_bracket :: "codepoints \<Rightarrow> bool" where
  "reaches_bracket [] = False"
| "reaches_bracket (c # s) =
     (if c = 91 then True else if isspace c \<or> c \<in> {40, 41, 93, 59} then False else reaches_bracket s)"

definition starts_type_atom :: "reader \<Rightarrow> read_error + bool" where
  "starts_type_atom r = rbind (peek r) (\<lambda>c. Inr (c \<notin> {40, 41, 91, 93, 34, 59} \<and> reaches_bracket (unread r)))"

function read_type_chars ::
    "SourcePosition \<Rightarrow> int \<Rightarrow> reader \<Rightarrow> read_error + (codepoints \<times> int \<times> reader)" where
  "read_type_chars start depth r =
     (if at_end r then Inr ([], depth, r)
      else rbind (peek r) (\<lambda>current.
        if depth = 0 \<and> (isspace current \<or> current \<in> {40, 41, 59}) then Inr ([], depth, r)
        else rbind (advance r) (\<lambda>r1.
          let depth' = (if current = 91 then depth + 1 else if current = 93 then depth - 1 else depth) in
          if depth' < 0 then Inl (parse_error ''invalid type expression'' start r1)
          else rbind (read_type_chars start depth' r1) (\<lambda>(cs, d, r'). Inr (current # cs, d, r')))))"
  by pat_completeness auto
termination
  by (relation "measure (\<lambda>(_, _, r). length (unread r))") (auto dest: advance_consumes)

declare read_type_chars.simps [simp del]

definition read_type_atom :: "reader \<Rightarrow> read_error + (SExpr \<times> reader)" where
  "read_type_atom r = rbind (read_type_chars (position r) 0 r) (\<lambda>(cs, depth, r').
     if depth \<noteq> 0 then Inl (parse_error ''unclosed type expression'' (position r) r')
     else Inr (SymbolAtom cs (span_from (position r) r'), r'))"

section \<open>Expressions\<close>

fun read_expr :: "nat \<Rightarrow> reader \<Rightarrow> read_error + (SExpr \<times> reader)"
  and read_items :: "nat \<Rightarrow> SourcePosition \<Rightarrow> reader \<Rightarrow> read_error + (SExpr list \<times> reader)" where
  "read_expr 0 r = Inl OutOfFuel"
| "read_expr (Suc n) r = rbind (peek r) (\<lambda>current. rbind (starts_type_atom r) (\<lambda>type_atom.
      if type_atom then read_type_atom r
      else if current = 40 then
        rbind (advance r) (\<lambda>r1. rbind (read_items n (position r) r1) (\<lambda>(items, r').
          Inr (ListExpr items (span_from (position r) r'), r')))
      else if current = 34 then read_string r
      else if current = 41 then
        rbind (advance r) (\<lambda>r1. Inl (parse_error ''unexpected closing parenthesis'' (position r) r1))
      else if current = 91 \<or> current = 93 then
        rbind (advance r) (\<lambda>r1. Inl (parse_error ''unsupported lexical form: vectors are not supported in Stage 1'' (position r) r1))
      else read_atom r))"
| "read_items 0 start r = Inl OutOfFuel"
| "read_items (Suc n) start r = rbind (skip_ignored r) (\<lambda>r1.
      if at_end r1 then Inl (parse_error ''unclosed list'' start r1)
      else rbind (peek r1) (\<lambda>c.
        if c = 41 then rbind (advance r1) (\<lambda>r2. Inr ([], r2))
        else rbind (read_expr n r1) (\<lambda>(e, r2).
          rbind (read_items n start r2) (\<lambda>(es, r3). Inr (e # es, r3)))))"

fun read_top :: "nat \<Rightarrow> reader \<Rightarrow> read_error + (SExpr list \<times> reader)" where
  "read_top 0 r = Inl OutOfFuel"
| "read_top (Suc n) r = rbind (skip_ignored r) (\<lambda>r1.
      if at_end r1 then Inr ([], r1)
      else rbind (read_expr n r1) (\<lambda>(e, r2). rbind (read_top n r2) (\<lambda>(es, r3). Inr (e # es, r3))))"

fun span_of :: "SExpr \<Rightarrow> SourceSpan" where
  "span_of (ListExpr _ s) = s"
| "span_of (SymbolAtom _ s) = s"
| "span_of (KeywordAtom _ s) = s"
| "span_of (StringAtom _ s) = s"
| "span_of (IntAtom _ s) = s"
| "span_of (FloatAtom _ s) = s"
| "span_of (BoolAtom _ s) = s"

definition read_fuel :: "codepoints \<Rightarrow> nat" where
  "read_fuel source = 2 * length source + 3"

definition read_sexpr_text :: "codepoints \<Rightarrow> string \<Rightarrow> read_error + SExpr" where
  "read_sexpr_text source path =
     rbind (read_top (read_fuel source) (new_reader source path)) (\<lambda>(items, r).
       Inr (ListExpr items
         (if items = [] then span_from (position r) r
          else \<lparr>span_start = span_start (span_of (hd items)), span_end = span_end (span_of (last items))\<rparr>)))"

end
