(* ===== verification/LispScan.thy ===== *)
theory LispScan
  imports LispReader
begin

text \<open>
  The reader without exceptions for reading past the end: the same loops over functions that are
  total. The last section proves that \<^verbatim>\<open>LispReader\<close> computes the same, which is to say that every
  character the code looks at is one that is there. Positions and round trips are proved on this form.
\<close>

section \<open>Looking and moving\<close>

definition next_char :: "reader \<Rightarrow> int" where
  "next_char r = hd (unread r)"

definition step_char :: "reader \<Rightarrow> reader" where
  "step_char r = (case unread r of
      [] \<Rightarrow> r
    | c # s \<Rightarrow> r\<lparr>unread := s, index := Suc (index r),
        line := (if c = 10 then Suc (line r) else line r),
        column := (if c = 10 then 1 else Suc (column r))\<rparr>)"

lemma advance_unread [simp]: "unread (step_char r) = tl (unread r)"
  by (cases "unread r") (simp_all add: step_char_def)

function scan_comment :: "reader \<Rightarrow> reader" where
  "scan_comment r = (if at_end r \<or> next_char r = 10 then r else scan_comment (step_char r))"
  by pat_completeness auto
termination
  by (relation "measure (\<lambda>r. length (unread r))") (auto simp: at_end_def)

declare scan_comment.simps [simp del]

lemma scanned_comment_shorter: "length (unread (scan_comment r)) \<le> length (unread r)"
proof (induction r rule: scan_comment.induct)
  case (1 r)
  show ?case
  proof (cases "at_end r \<or> next_char r = 10")
    case False
    have "scan_comment r = scan_comment (step_char r)" using False by (subst scan_comment.simps) simp
    then show ?thesis using 1 [OF False] by simp
  qed (subst scan_comment.simps, simp)
qed

function scan_ignored :: "reader \<Rightarrow> reader" where
  "scan_ignored r =
     (if at_end r then r
      else if isspace (next_char r) then scan_ignored (step_char r)
      else if next_char r = 59 then scan_ignored (scan_comment (step_char r))
      else r)"
  by pat_completeness auto
termination
proof (relation "measure (\<lambda>r. length (unread r))")
  fix r :: reader
  assume "\<not> at_end r"
  then have "length (unread (step_char r)) < length (unread r)" by (simp add: at_end_def)
  then show "(scan_comment (step_char r), r) \<in> measure (\<lambda>r. length (unread r))"
    using scanned_comment_shorter [of "step_char r"] by simp
qed (auto simp: at_end_def)

declare scan_ignored.simps [simp del]

section \<open>Tokens\<close>

text \<open>The characters up to the first one that ends a token.\<close>

function scan_until :: "(int \<Rightarrow> bool) \<Rightarrow> reader \<Rightarrow> codepoints \<times> reader" where
  "scan_until stop r =
     (if at_end r \<or> stop (next_char r) then ([], r)
      else case scan_until stop (step_char r) of (cs, r') \<Rightarrow> (next_char r # cs, r'))"
  by pat_completeness auto
termination
  by (relation "measure (\<lambda>(_, r). length (unread r))") (auto simp: at_end_def)

declare scan_until.simps [simp del]

definition scan_atom :: "reader \<Rightarrow> read_error + (SExpr \<times> reader)" where
  "scan_atom r =
     (case scan_until ends_atom r of (token, r') \<Rightarrow>
        rbind (classify_token token (position r) r') (\<lambda>e. Inr (e, r')))"

function scan_string_chars :: "SourcePosition \<Rightarrow> reader \<Rightarrow> read_error + (codepoints \<times> reader)" where
  "scan_string_chars start r =
     (if at_end r then Inl (parse_error ''unterminated string'' start r)
      else if next_char r = 34 then Inr ([], step_char r)
      else if next_char r = 92 then
        (if at_end (step_char r) then Inl (parse_error ''unterminated string'' start (step_char r))
         else case escape_value (next_char (step_char r)) of
           None \<Rightarrow> Inl (parse_error ''invalid string escape'' (position r) (step_char (step_char r)))
         | Some c \<Rightarrow> rbind (scan_string_chars start (step_char (step_char r))) (\<lambda>(cs, r'). Inr (c # cs, r')))
      else if next_char r = 10 then Inl (parse_error ''unterminated string'' start r)
      else rbind (scan_string_chars start (step_char r)) (\<lambda>(cs, r'). Inr (next_char r # cs, r')))"
  by pat_completeness auto
termination
  by (relation "measure (\<lambda>(_, r). length (unread r))") (auto simp: at_end_def)

declare scan_string_chars.simps [simp del]

definition scan_string :: "reader \<Rightarrow> read_error + (SExpr \<times> reader)" where
  "scan_string r = rbind (scan_string_chars (position r) (step_char r)) (\<lambda>(cs, r').
     Inr (StringAtom cs (span_from (position r) r'), r'))"

definition scans_type_atom :: "reader \<Rightarrow> bool" where
  "scans_type_atom r = (next_char r \<notin> {40, 41, 91, 93, 34, 59} \<and> reaches_bracket (unread r))"

function scan_type_chars ::
    "SourcePosition \<Rightarrow> int \<Rightarrow> reader \<Rightarrow> read_error + (codepoints \<times> int \<times> reader)" where
  "scan_type_chars start depth r =
     (if at_end r \<or> depth = 0 \<and> (isspace (next_char r) \<or> next_char r \<in> {40, 41, 59}) then Inr ([], depth, r)
      else let depth' = (if next_char r = 91 then depth + 1 else if next_char r = 93 then depth - 1 else depth) in
        if depth' < 0 then Inl (parse_error ''invalid type expression'' start (step_char r))
        else rbind (scan_type_chars start depth' (step_char r)) (\<lambda>(cs, d, r'). Inr (next_char r # cs, d, r')))"
  by pat_completeness auto
termination
  by (relation "measure (\<lambda>(_, _, r). length (unread r))") (auto simp: at_end_def)

declare scan_type_chars.simps [simp del]

definition scan_type_atom :: "reader \<Rightarrow> read_error + (SExpr \<times> reader)" where
  "scan_type_atom r = rbind (scan_type_chars (position r) 0 r) (\<lambda>(cs, depth, r').
     if depth \<noteq> 0 then Inl (parse_error ''unclosed type expression'' (position r) r')
     else Inr (SymbolAtom cs (span_from (position r) r'), r'))"

section \<open>Expressions\<close>

fun scan_expr :: "nat \<Rightarrow> reader \<Rightarrow> read_error + (SExpr \<times> reader)"
  and scan_items :: "nat \<Rightarrow> SourcePosition \<Rightarrow> reader \<Rightarrow> read_error + (SExpr list \<times> reader)" where
  "scan_expr 0 r = Inl OutOfFuel"
| "scan_expr (Suc n) r =
     (if scans_type_atom r then scan_type_atom r
      else if next_char r = 40 then
        rbind (scan_items n (position r) (step_char r)) (\<lambda>(items, r').
          Inr (ListExpr items (span_from (position r) r'), r'))
      else if next_char r = 34 then scan_string r
      else if next_char r = 41 then Inl (parse_error ''unexpected closing parenthesis'' (position r) (step_char r))
      else if next_char r = 91 \<or> next_char r = 93
      then Inl (parse_error ''unsupported lexical form: vectors are not supported in Stage 1'' (position r) (step_char r))
      else scan_atom r)"
| "scan_items 0 start r = Inl OutOfFuel"
| "scan_items (Suc n) start r =
     (let r1 = scan_ignored r in
      if at_end r1 then Inl (parse_error ''unclosed list'' start r1)
      else if next_char r1 = 41 then Inr ([], step_char r1)
      else rbind (scan_expr n r1) (\<lambda>(e, r2).
        rbind (scan_items n start r2) (\<lambda>(es, r3). Inr (e # es, r3))))"

fun scan_top :: "nat \<Rightarrow> reader \<Rightarrow> read_error + (SExpr list \<times> reader)" where
  "scan_top 0 r = Inl OutOfFuel"
| "scan_top (Suc n) r =
     (let r1 = scan_ignored r in
      if at_end r1 then Inr ([], r1)
      else rbind (scan_expr n r1) (\<lambda>(e, r2). rbind (scan_top n r2) (\<lambda>(es, r3). Inr (e # es, r3))))"

definition scan_sexpr_text :: "codepoints \<Rightarrow> string \<Rightarrow> read_error + SExpr" where
  "scan_sexpr_text source path =
     rbind (scan_top (read_fuel source) (new_reader source path)) (\<lambda>(items, r).
       Inr (ListExpr items
         (if items = [] then span_from (position r) r
          else \<lparr>span_start = span_start (span_of (hd items)), span_end = span_end (span_of (last items))\<rparr>)))"

section \<open>The code never reads past the end\<close>

lemma looks [simp]: "\<not> at_end r \<Longrightarrow> peek r = Inr (next_char r)" "\<not> at_end r \<Longrightarrow> advance r = Inr (step_char r)"
  by (cases "unread r"; simp add: at_end_def peek_def next_char_def advance_def step_char_def)+

lemma skip_comment_scans: "skip_comment r = Inr (scan_comment r)"
proof (induction r rule: scan_comment.induct)
  case (1 r)
  then show ?case by (subst skip_comment.simps, subst scan_comment.simps) simp
qed

lemma skip_ignored_scans: "skip_ignored r = Inr (scan_ignored r)"
proof (induction r rule: scan_ignored.induct)
  case (1 r)
  then show ?case by (subst skip_ignored.simps, subst scan_ignored.simps) (simp add: skip_comment_scans)
qed

lemma read_until_scans: "read_until stop r = Inr (scan_until stop r)"
proof (induction stop r rule: scan_until.induct)
  case (1 stop r)
  then show ?case by (subst read_until.simps, subst scan_until.simps) (simp split: prod.splits)
qed

lemma read_atom_scans: "read_atom r = scan_atom r"
  by (simp add: read_atom_def scan_atom_def read_until_scans)

lemma string_chars_scans: "read_string_chars start r = scan_string_chars start r"
proof (induction start r rule: scan_string_chars.induct)
  case (1 start r)
  then show ?case by (subst read_string_chars.simps, subst scan_string_chars.simps) (simp cong: option.case_cong)
qed

lemma read_string_scans: "\<not> at_end r \<Longrightarrow> read_string r = scan_string r"
  by (simp add: read_string_def scan_string_def string_chars_scans)

lemma type_chars_scans: "read_type_chars start depth r = scan_type_chars start depth r"
proof (induction start depth r rule: scan_type_chars.induct)
  case (1 start depth r)
  define stop where "stop \<longleftrightarrow> depth = 0 \<and> (isspace (next_char r) \<or> next_char r \<in> {40, 41, 59})"
  define d where "d = (if next_char r = 91 then depth + 1 else if next_char r = 93 then depth - 1 else depth)"
  have IH: "read_type_chars start d (step_char r) = scan_type_chars start d (step_char r)" if "\<not> at_end r" "\<not> stop" "\<not> d < 0"
    using 1 [OF _ d_def that(3)] that(1,2) unfolding stop_def by blast
  have "read_type_chars start depth r = (if at_end r then Inr ([], depth, r) else if stop then Inr ([], depth, r)
      else if d < 0 then Inl (parse_error ''invalid type expression'' start (step_char r))
      else rbind (read_type_chars start d (step_char r)) (\<lambda>(cs, d, r'). Inr (next_char r # cs, d, r')))"
    unfolding stop_def d_def
    by (subst read_type_chars.simps, cases "at_end r") (simp_all only: looks rbind_simps Let_def if_True if_False not_False_eq_True)
  moreover have "scan_type_chars start depth r = (if at_end r \<or> stop then Inr ([], depth, r)
      else if d < 0 then Inl (parse_error ''invalid type expression'' start (step_char r))
      else rbind (scan_type_chars start d (step_char r)) (\<lambda>(cs, d, r'). Inr (next_char r # cs, d, r')))"
    unfolding stop_def d_def by (subst scan_type_chars.simps) (simp only: Let_def)
  ultimately show ?case using IH by simp
qed

lemma type_atom_scans: "read_type_atom r = scan_type_atom r" "\<not> at_end r \<Longrightarrow> starts_type_atom r = Inr (scans_type_atom r)"
  by (simp_all add: read_type_atom_def scan_type_atom_def type_chars_scans starts_type_atom_def scans_type_atom_def)

lemma expr_scans:
  "\<not> at_end r \<Longrightarrow> read_expr n r = scan_expr n r"
  "read_items n start r = scan_items n start r"
proof (induction n arbitrary: r start)
  case (Suc n)
  {
    case 1
    then show ?case by (simp add: type_atom_scans read_string_scans read_atom_scans Suc.IH(2))
  next
    case 2
    show ?case by (simp add: skip_ignored_scans Let_def Suc.IH)
  }
qed simp_all

lemma top_scans: "read_top n r = scan_top n r"
  by (induction n arbitrary: r) (simp_all add: skip_ignored_scans Let_def expr_scans)

text \<open>The reader is the total one: no text makes it look or move where there is no character.\<close>

theorem text_scans: "read_sexpr_text source path = scan_sexpr_text source path"
  by (simp add: read_sexpr_text_def scan_sexpr_text_def top_scans)

end
