(* ===== verification/LispSpans.thy ===== *)
theory LispSpans
  imports LispScan
begin

text \<open>
  What the reader's positions mean. \<open>reader_at path src i\<close> is the state after reading \<open>i\<close>
  characters, with line and column computed from the text; every state the reader passes through is
  of this form. From it follow that the reader always returns, with a tree or a diagnostic, and
  that the spans of a tree are exact: ordered, nested, with correct lines and columns, and with the
  text of each atom between its ends.
\<close>

section \<open>Moving forward\<close>

inductive reaches :: "reader \<Rightarrow> reader \<Rightarrow> bool" where
  reaches_refl: "reaches r r"
| reaches_step: "unread r \<noteq> [] \<Longrightarrow> reaches (step_char r) r' \<Longrightarrow> reaches r r'"

lemma reaches_trans: "reaches r s \<Longrightarrow> reaches s t \<Longrightarrow> reaches r t"
  by (induction rule: reaches.induct) (auto intro: reaches_step)

lemma reaches_advance: "\<not> at_end r \<Longrightarrow> reaches r (step_char r)"
  by (auto simp: at_end_def intro: reaches.intros)

lemma reaches_shorter: "reaches r s \<Longrightarrow> length (unread s) \<le> length (unread r)"
  by (induction rule: reaches.induct) auto

lemma advance_shorter: "\<not> at_end r \<Longrightarrow> length (unread (step_char r)) < length (unread r)"
  by (simp add: at_end_def)

lemma liveE:
  assumes "\<not> at_end r"
  obtains c s where "unread r = c # s" "next_char r = c" "unread (step_char r) = s"
  using assms by (cases "unread r") (auto simp: at_end_def next_char_def)

lemma unread_peek: "\<not> at_end r \<Longrightarrow> unread r = next_char r # unread (step_char r)"
  by (simp add: at_end_def next_char_def)

lemma reaches_skip_comment: "reaches r (scan_comment r)"
proof (induction r rule: scan_comment.induct)
  case (1 r)
  show ?case
  proof (cases "at_end r \<or> next_char r = 10")
    case True
    then show ?thesis by (subst scan_comment.simps) (simp add: reaches_refl)
  next
    case False
    then show ?thesis using 1 reaches_advance reaches_trans by (subst scan_comment.simps) auto
  qed
qed

lemma reaches_skip_ignored: "reaches r (scan_ignored r)"
proof (induction r rule: scan_ignored.induct)
  case (1 r)
  consider "at_end r" | "\<not> at_end r" "isspace (next_char r)" | "\<not> at_end r" "\<not> isspace (next_char r)" "next_char r = 59"
    | "\<not> at_end r" "\<not> isspace (next_char r)" "next_char r \<noteq> 59" by blast
  then show ?case
  proof cases
    case 2
    then show ?thesis using 1(1) [OF 2] reaches_advance [OF 2(1)] reaches_trans by (subst scan_ignored.simps) auto
  next
    case 3
    then show ?thesis
      using 1(2) [OF 3] reaches_advance [OF 3(1)] reaches_skip_comment reaches_trans
      by (subst scan_ignored.simps) (auto, blast)
  qed (subst scan_ignored.simps, simp add: reaches_refl)+
qed

lemma read_until_reaches: "scan_until stop r = (cs, r') \<Longrightarrow> reaches r r' \<and> unread r = cs @ unread r'"
proof (induction stop r arbitrary: cs rule: scan_until.induct)
  case (1 stop r)
  show ?case
  proof (cases "at_end r \<or> stop (next_char r)")
    case True
    then have "scan_until stop r = ([], r)" by (subst scan_until.simps) simp
    then show ?thesis using "1.prems" by (simp add: reaches_refl)
  next
    case False
    obtain ds where ds: "scan_until stop (step_char r) = (ds, r')" "cs = next_char r # ds"
      using "1.prems" False by (subst (asm) scan_until.simps) (auto split: prod.splits)
    from 1(1) [OF False ds(1)] show ?thesis
      using False ds(2) unread_peek [of r] reaches_trans [OF reaches_advance] by auto
  qed
qed

text \<open>What the text between the quotes of a string literal denotes, if it can stand there.\<close>

fun unescaped :: "codepoints \<Rightarrow> codepoints option" where
  "unescaped [] = Some []"
| "unescaped [c] = (if c \<in> {92, 34, 10} then None else Some [c])"
| "unescaped (c # d # s) =
     (if c = 92 then (case escape_value d of None \<Rightarrow> None | Some e \<Rightarrow> map_option ((#) e) (unescaped s))
      else if c = 34 \<or> c = 10 then None else map_option ((#) c) (unescaped (d # s)))"

lemma unescaped_plain: "c \<notin> {92, 34, 10} \<Longrightarrow> unescaped us = Some cs \<Longrightarrow> unescaped (c # us) = Some (c # cs)"
  by (cases us) auto

lemma read_string_reaches:
  "scan_string_chars start r = Inr (cs, r') \<Longrightarrow> reaches r r' \<and> (\<exists>us. unread r = us @ 34 # unread r' \<and> unescaped us = Some cs)"
proof (induction start r arbitrary: cs rule: scan_string_chars.induct)
  case (1 start r)
  note eq = "1.prems" [unfolded scan_string_chars.simps [of start r]]
  have live: "\<not> at_end r" using eq by (auto split: if_splits)
  consider "next_char r = 34" "r' = step_char r" "cs = []"
    | c ds where "next_char r \<noteq> 34" "next_char r = 92" "\<not> at_end (step_char r)" "escape_value (next_char (step_char r)) = Some c"
        "scan_string_chars start (step_char (step_char r)) = Inr (ds, r')" "cs = c # ds"
    | ds where "next_char r \<noteq> 34" "next_char r \<noteq> 92" "next_char r \<noteq> 10" "scan_string_chars start (step_char r) = Inr (ds, r')"
        "cs = next_char r # ds"
    using eq live by (auto simp: result_simps split: if_splits option.splits)
  then show ?case
  proof cases
    case 1
    then have "unread r = [] @ 34 # unread r'" using unread_peek [OF live] by (simp only: append_Nil)
    then show ?thesis using 1 reaches_advance [OF live] unescaped.simps(1) by blast
  next
    case (2 c ds)
    from 1(1) [OF live 2(1-3) 2(4) 2(5)] obtain us where us: "reaches (step_char (step_char r)) r'"
      "unread (step_char (step_char r)) = us @ 34 # unread r'" "unescaped us = Some ds" by blast
    have "unread r = (next_char r # next_char (step_char r) # us) @ 34 # unread r'"
      using unread_peek [OF live] unread_peek [OF 2(3)] us(2) by (simp only: append_Cons)
    moreover have "unescaped (next_char r # next_char (step_char r) # us) = Some cs" using 2(2,4,6) us(3) by simp
    ultimately show ?thesis using reaches_trans [OF reaches_advance [OF live] reaches_trans [OF reaches_advance [OF 2(3)] us(1)]] by blast
  next
    case (3 ds)
    from 1(2) [OF live 3(1-3) 3(4)] obtain us where us: "reaches (step_char r) r'"
      "unread (step_char r) = us @ 34 # unread r'" "unescaped us = Some ds" by blast
    have "unread r = (next_char r # us) @ 34 # unread r'" using unread_peek [OF live] us(2) by (simp only: append_Cons)
    moreover have "unescaped (next_char r # us) = Some cs" using unescaped_plain [of "next_char r" us ds] us(3) 3(1-3,5) by blast
    ultimately show ?thesis using reaches_trans [OF reaches_advance [OF live] us(1)] by blast
  qed
qed

lemma read_type_reaches:
  "scan_type_chars start depth r = Inr (cs, d, r') \<Longrightarrow> reaches r r' \<and> unread r = cs @ unread r'"
proof (induction start depth r arbitrary: cs rule: scan_type_chars.induct)
  case (1 start depth r)
  show ?case
  proof (cases "at_end r \<or> depth = 0 \<and> (isspace (next_char r) \<or> next_char r \<in> {40, 41, 59})")
    case True
    then have "cs = []" "r' = r" using "1.prems" by (subst (asm) scan_type_chars.simps, simp)+
    then show ?thesis by (simp add: reaches_refl)
  next
    case False
    define d' where "d' = (if next_char r = 91 then depth + 1 else if next_char r = 93 then depth - 1 else depth)"
    obtain ds where ds: "\<not> d' < 0" "scan_type_chars start d' (step_char r) = Inr (ds, d, r')" "cs = next_char r # ds"
      using "1.prems" False unfolding d'_def
      by (subst (asm) scan_type_chars.simps) (auto simp: Let_def result_simps split: if_splits)
    from 1(1) [OF False d'_def ds(1,2)] show ?thesis
      using False ds(3) unread_peek [of r] reaches_trans [OF reaches_advance] by auto
  qed
qed

section \<open>Every expression consumes text\<close>

lemma type_atom_moves:
  assumes "scan_type_atom r = Inr (e, r')" "scans_type_atom r" "\<not> at_end r"
  shows "reaches r r' \<and> length (unread r') < length (unread r)
    \<and> (\<exists>cs. unread r = cs @ unread r' \<and> e = SymbolAtom cs (span_from (position r) r'))"
proof -
  obtain cs where cs: "scan_type_chars (position r) 0 r = Inr (cs, 0, r')" "e = SymbolAtom cs (span_from (position r) r')"
    using assms(1) unfolding scan_type_atom_def by (auto simp: result_simps split: if_splits)
  have "\<not> (at_end r \<or> isspace (next_char r) \<or> next_char r \<in> {40, 41, 59})"
    using assms(2,3) unfolding scans_type_atom_def by - (rule liveE [OF assms(3)], auto split: if_splits)
  then have "cs \<noteq> []"
    using cs(1) by (subst (asm) scan_type_chars.simps) (auto simp: Let_def result_simps split: if_splits)
  then show ?thesis using read_type_reaches [OF cs(1)] cs(2) by auto
qed

lemma string_moves:
  assumes "scan_string r = Inr (e, r')" "\<not> at_end r"
  shows "reaches r r' \<and> length (unread r') < length (unread r)
    \<and> (\<exists>cs us. unread r = next_char r # us @ 34 # unread r' \<and> unescaped us = Some cs \<and> e = StringAtom cs (span_from (position r) r'))"
proof -
  obtain cs where "scan_string_chars (position r) (step_char r) = Inr (cs, r')" "e = StringAtom cs (span_from (position r) r')"
    using assms(1) unfolding scan_string_def by (auto simp: result_simps)
  moreover obtain c s where "unread r = c # s" "next_char r = c" "unread (step_char r) = s" by (rule liveE [OF assms(2)])
  ultimately show ?thesis
    using read_string_reaches [of "position r" "step_char r" cs r'] reaches_trans [OF reaches_advance [OF assms(2)]]
    by auto
qed

lemma atom_moves:
  assumes "scan_atom r = Inr (e, r')"
  shows "reaches r r' \<and> length (unread r') < length (unread r)
    \<and> (\<exists>cs. unread r = cs @ unread r' \<and> classify_token cs (position r) r' = Inr e)"
proof -
  obtain cs where cs: "scan_until ends_atom r = (cs, r')" "classify_token cs (position r) r' = Inr e"
    using assms unfolding scan_atom_def by (auto simp: result_simps split: prod.splits)
  moreover have "cs \<noteq> []" using cs(2) unfolding classify_token_def by auto
  ultimately show ?thesis using read_until_reaches [OF cs(1)] by auto
qed

lemma expr_cases:
  assumes "scan_expr (Suc n) r = Inr (e, r')"
  obtains (type) "scans_type_atom r" "scan_type_atom r = Inr (e, r')"
  | (list) items where "next_char r = 40" "scan_items n (position r) (step_char r) = Inr (items, r')"
      "e = ListExpr items (span_from (position r) r')"
  | (string) "next_char r = 34" "scan_string r = Inr (e, r')"
  | (atom) "scan_atom r = Inr (e, r')"
  using assms by (auto simp: result_simps split: if_splits)

lemma items_cases:
  assumes "scan_items (Suc n) start r = Inr (es, r')"
  obtains (close) "\<not> at_end (scan_ignored r)" "next_char (scan_ignored r) = 41" "es = []" "r' = step_char (scan_ignored r)"
  | (item) e r2 fs where "\<not> at_end (scan_ignored r)" "scan_expr n (scan_ignored r) = Inr (e, r2)"
      "scan_items n start r2 = Inr (fs, r')" "es = e # fs"
  using assms by (auto simp: Let_def result_simps split: if_splits)

lemma expr_moves:
  "scan_expr n r = Inr (e, r') \<Longrightarrow> \<not> at_end r \<Longrightarrow> reaches r r' \<and> length (unread r') < length (unread r)"
  "scan_items n start r = Inr (es, r') \<Longrightarrow> reaches r r' \<and> length (unread r') < length (unread r)"
proof (induction n arbitrary: r e r' es start)
  case (Suc n)
  {
    case 1
    show ?case using 1(1)
    proof (cases rule: expr_cases)
      case (list items)
      then show ?thesis
        using Suc.IH(2) [OF list(2)] reaches_trans [OF reaches_advance [OF 1(2)]] advance_shorter [OF 1(2)] by auto
    qed (use type_atom_moves string_moves atom_moves 1(2) in blast)+
  next
    case 2
    note skip = reaches_skip_ignored [of r]
    show ?case using 2
    proof (cases rule: items_cases)
      case close
      then show ?thesis
        using reaches_trans [OF skip reaches_advance [OF close(1)]] reaches_shorter [OF skip] advance_shorter [OF close(1)] by auto
    next
      case (item f r2 fs)
      then show ?thesis
        using Suc.IH(1) [OF item(2,1)] Suc.IH(2) [OF item(3)] reaches_trans reaches_shorter [OF skip] skip
        by (meson order.strict_trans order.strict_trans2)
    qed
  }
qed simp_all

section \<open>The fuel is enough\<close>

lemma no_fuel_error [simp]: "parse_error m s r \<noteq> OutOfFuel" "classify_token t s r \<noteq> Inl OutOfFuel"
  by (simp_all add: parse_error_def classify_token_def)

lemma string_no_fuel: "scan_string_chars s r \<noteq> Inl OutOfFuel"
proof (induction s r rule: scan_string_chars.induct)
  case (1 s r)
  then show ?case by (subst scan_string_chars.simps) (auto simp: result_simps split: option.splits)
qed

lemma type_no_fuel: "scan_type_chars s d r \<noteq> Inl OutOfFuel"
proof (induction s d r rule: scan_type_chars.induct)
  case (1 s d r)
  then show ?case by (subst scan_type_chars.simps) (auto simp: Let_def result_simps)
qed

lemma tokens_no_fuel:
  "scan_atom r \<noteq> Inl OutOfFuel" "scan_string r \<noteq> Inl OutOfFuel" "scan_type_atom r \<noteq> Inl OutOfFuel"
  using string_no_fuel type_no_fuel
  by (auto simp: scan_atom_def scan_string_def scan_type_atom_def result_simps split: prod.splits if_splits)

lemma expr_fuel:
  "2 * length (unread r) < n \<Longrightarrow> \<not> at_end r \<Longrightarrow> scan_expr n r \<noteq> Inl OutOfFuel"
  "2 * length (unread r) + 1 < n \<Longrightarrow> scan_items n start r \<noteq> Inl OutOfFuel"
proof (induction n arbitrary: r start)
  case (Suc n)
  {
    case 1
    then have "2 * length (unread (step_char r)) + 1 < n" using advance_shorter [OF 1(2)] by linarith
    then show ?case using Suc.IH(2) tokens_no_fuel by (auto simp: result_simps)
  next
    case 2
    let ?r = "scan_ignored r"
    have len: "length (unread ?r) \<le> length (unread r)" using reaches_shorter [OF reaches_skip_ignored] .
    have "scan_items n start r2 \<noteq> Inl OutOfFuel" if "\<not> at_end ?r" "scan_expr n ?r = Inr (e, r2)" for e r2
      using Suc.IH(2) [of r2 start] expr_moves(1) [OF that(2,1)] len 2 by linarith
    moreover have "scan_expr n ?r \<noteq> Inl OutOfFuel" if "\<not> at_end ?r"
      using Suc.IH(1) [of ?r] that len 2 by linarith
    ultimately show ?case by (auto simp: Let_def result_simps)
  }
qed simp_all

lemma top_fuel: "2 * length (unread r) + 1 < n \<Longrightarrow> scan_top n r \<noteq> Inl OutOfFuel"
proof (induction n arbitrary: r)
  case (Suc n)
  let ?r = "scan_ignored r"
  have len: "length (unread ?r) \<le> length (unread r)" using reaches_shorter [OF reaches_skip_ignored] .
  have "scan_top n r2 \<noteq> Inl OutOfFuel" if "\<not> at_end ?r" "scan_expr n ?r = Inr (e, r2)" for e r2
    using Suc.IH [of r2] expr_moves(1) [OF that(2,1)] len Suc.prems by linarith
  moreover have "scan_expr n ?r \<noteq> Inl OutOfFuel" if "\<not> at_end ?r"
    using expr_fuel(1) [of ?r n] that len Suc.prems by linarith
  ultimately show ?case by (auto simp: Let_def result_simps)
qed simp

section \<open>Positions in the text\<close>

definition line_at :: "codepoints \<Rightarrow> nat \<Rightarrow> nat" where
  "line_at src i = Suc (count_list (take i src) 10)"

definition column_at :: "codepoints \<Rightarrow> nat \<Rightarrow> nat" where
  "column_at src i = Suc (length (takeWhile (\<lambda>c. c \<noteq> 10) (rev (take i src))))"

definition reader_at :: "string \<Rightarrow> codepoints \<Rightarrow> nat \<Rightarrow> reader" where
  "reader_at path src i =
     \<lparr>source_path = path, unread = drop i src, index = i, line = line_at src i, column = column_at src i\<rparr>"

definition slice :: "codepoints \<Rightarrow> nat \<Rightarrow> nat \<Rightarrow> codepoints" where
  "slice src a b = take (b - a) (drop a src)"

lemma reader_at_sel [simp]:
  "unread (reader_at p src i) = drop i src" "index (reader_at p src i) = i"
  "pos_offset (position (reader_at p src i)) = i" "at_end (reader_at p src i) \<longleftrightarrow> length src \<le> i"
  by (simp_all add: reader_at_def position_def at_end_def)

lemma reader_at_0: "new_reader src p = reader_at p src 0"
  by (simp add: new_reader_def reader_at_def line_at_def column_at_def)

lemma peek_at: "i < length src \<Longrightarrow> next_char (reader_at p src i) = src ! i"
  by (simp add: next_char_def hd_drop_conv_nth)

lemma advance_at:
  assumes "i < length src"
  shows "step_char (reader_at p src i) = reader_at p src (Suc i)"
proof -
  have "drop i src = src ! i # drop (Suc i) src" using assms by (rule Cons_nth_drop_Suc [symmetric])
  moreover have "take (Suc i) src = take i src @ [src ! i]" using assms by (rule take_Suc_conv_app_nth)
  ultimately show ?thesis
    by (simp add: step_char_def reader_at_def line_at_def column_at_def)
qed

lemma reaches_at:
  assumes "reaches r r'" "r = reader_at p src i" "i \<le> length src"
  shows "\<exists>j. r' = reader_at p src j \<and> i \<le> j \<and> j \<le> length src"
  using assms
proof (induction arbitrary: i rule: reaches.induct)
  case (reaches_step r r')
  then have "i < length src" by simp
  then show ?case
    using reaches_step.IH [of "Suc i"] reaches_step.prems advance_at [of i src p] by (metis Suc_leD Suc_leI)
qed auto

lemma consumed_slice:
  assumes "drop i src = cs @ drop j src" "i \<le> j" "j \<le> length src"
  shows "cs = slice src i j"
proof -
  have "length cs = j - i" using arg_cong [OF assms(1), of length] assms(2,3) by simp
  then show ?thesis using assms(1) by (simp add: slice_def)
qed

section \<open>Exact spans\<close>

definition between :: "string \<Rightarrow> codepoints \<Rightarrow> nat \<Rightarrow> nat \<Rightarrow> SourceSpan \<Rightarrow> bool" where
  "between p src a b sp \<longleftrightarrow> a < b \<and> b \<le> length src \<and>
     span_start sp = position (reader_at p src a) \<and> span_end sp = position (reader_at p src b)"

text \<open>
  The tree is exactly placed: its span runs from \<open>a\<close> to \<open>b\<close>, the text there is its token, and the
  items of a list lie in order between its parentheses.
\<close>

fun placed :: "string \<Rightarrow> codepoints \<Rightarrow> nat \<Rightarrow> nat \<Rightarrow> SExpr \<Rightarrow> bool"
  and placed_items :: "string \<Rightarrow> codepoints \<Rightarrow> nat \<Rightarrow> nat \<Rightarrow> SExpr list \<Rightarrow> bool" where
  "placed p src a b (ListExpr es sp) \<longleftrightarrow>
     between p src a b sp \<and> src ! a = 40 \<and> src ! (b - 1) = 41 \<and> placed_items p src (Suc a) (b - 1) es"
| "placed p src a b (SymbolAtom v sp) \<longleftrightarrow> between p src a b sp \<and> v = slice src a b"
| "placed p src a b (KeywordAtom v sp) \<longleftrightarrow> between p src a b sp \<and> v = slice src a b"
| "placed p src a b (StringAtom v sp) \<longleftrightarrow>
     between p src a b sp \<and> src ! a = 34 \<and> src ! (b - 1) = 34 \<and> unescaped (slice src (Suc a) (b - 1)) = Some v"
| "placed p src a b (IntAtom v sp) \<longleftrightarrow> between p src a b sp \<and> v = int_of_token (slice src a b)"
| "placed p src a b (FloatAtom v sp) \<longleftrightarrow> between p src a b sp \<and> v = float_of_token (slice src a b)"
| "placed p src a b (BoolAtom v sp) \<longleftrightarrow>
     between p src a b sp \<and> slice src a b = codes (if v then ''true'' else ''false'')"
| "placed_items p src lo hi [] \<longleftrightarrow> lo \<le> hi"
| "placed_items p src lo hi (e # es) \<longleftrightarrow>
     (let a = pos_offset (span_start (span_of e)); b = pos_offset (span_end (span_of e)) in
      lo \<le> a \<and> placed p src a b e \<and> placed_items p src b hi es)"

lemma span_from_at: "a < b \<Longrightarrow> b \<le> length src \<Longrightarrow> between p src a b (span_from (position (reader_at p src a)) (reader_at p src b))"
  by (simp add: between_def span_from_def)

lemma classified_placed:
  assumes "classify_token (slice src a b) (position (reader_at p src a)) (reader_at p src b) = Inr e" "a < b" "b \<le> length src"
  shows "placed p src a b e"
  using assms(1) span_from_at [OF assms(2,3), of p] unfolding classify_token_def
  by (auto split: if_splits)

lemma placed_span: "placed p src a b e \<Longrightarrow> span_start (span_of e) = position (reader_at p src a)
    \<and> span_end (span_of e) = position (reader_at p src b) \<and> a < b \<and> b \<le> length src"
  by (cases e) (auto simp: between_def)

lemma placed_cons: "placed p src a b e \<Longrightarrow> lo \<le> a \<Longrightarrow> placed_items p src b hi es \<Longrightarrow> placed_items p src lo hi (e # es)"
  using placed_span [of p src a b e] by simp

lemma placed_items_start: "placed_items p src lo hi es \<Longrightarrow> lo' \<le> lo \<Longrightarrow> placed_items p src lo' hi es"
  by (cases es) (auto simp: Let_def)

lemma moved_at:
  assumes "reaches (reader_at p src i) r'" "length (unread r') < length (unread (reader_at p src i))"
  obtains j where "r' = reader_at p src j" "i < j" "j \<le> length src"
proof -
  have "i \<le> length src" using assms(2) by simp
  from reaches_at [OF assms(1) refl this] assms(2) that show thesis by auto
qed

lemma string_end:
  assumes "drop a src = c # us @ d # drop b src" "a < b" "b \<le> length src"
  shows "src ! (b - 1) = d" "slice src (Suc a) (b - 1) = us"
proof -
  have "b - a = length us + 2" using arg_cong [OF assms(1), of length] assms(2,3) by simp
  then have "b - 1 = a + Suc (length us)" using assms(2) by simp
  moreover have "src ! (a + Suc (length us)) = drop a src ! Suc (length us)" using assms(2,3) by simp
  ultimately show "src ! (b - 1) = d" unfolding assms(1) by (simp add: nth_append)
  have "drop (Suc a) src = us @ d # drop b src" using assms(1) by (simp add: drop_Suc flip: tl_drop)
  with \<open>b - a = length us + 2\<close> show "slice src (Suc a) (b - 1) = us" by (simp add: slice_def)
qed

lemma atom_placed:
  assumes "scan_atom (reader_at p src i) = Inr (e, r')"
  shows "\<exists>j. r' = reader_at p src j \<and> placed p src i j e"
proof -
  from atom_moves [OF assms] obtain cs where m: "reaches (reader_at p src i) r'" "length (unread r') < length (unread (reader_at p src i))"
    and cs: "unread (reader_at p src i) = cs @ unread r'" "classify_token cs (position (reader_at p src i)) r' = Inr e" by blast
  obtain j where j: "r' = reader_at p src j" "i < j" "j \<le> length src" by (rule moved_at [OF m])
  have "cs = slice src i j" using consumed_slice cs(1) j by simp
  then show ?thesis using classified_placed cs(2) j by blast
qed

lemma type_placed:
  assumes "scan_type_atom (reader_at p src i) = Inr (e, r')" "scans_type_atom (reader_at p src i)" "i < length src"
  shows "\<exists>j. r' = reader_at p src j \<and> placed p src i j e"
proof -
  have "\<not> at_end (reader_at p src i)" using assms(3) by simp
  from type_atom_moves [OF assms(1,2) this] obtain cs where m: "reaches (reader_at p src i) r'" "length (unread r') < length (unread (reader_at p src i))"
    and cs: "unread (reader_at p src i) = cs @ unread r'" "e = SymbolAtom cs (span_from (position (reader_at p src i)) r')" by blast
  obtain j where j: "r' = reader_at p src j" "i < j" "j \<le> length src" by (rule moved_at [OF m])
  have "cs = slice src i j" using consumed_slice cs(1) j by simp
  then show ?thesis using cs(2) j span_from_at by auto
qed

lemma string_placed:
  assumes "scan_string (reader_at p src i) = Inr (e, r')" "next_char (reader_at p src i) = 34" "i < length src"
  shows "\<exists>j. r' = reader_at p src j \<and> placed p src i j e"
proof -
  from string_moves [OF assms(1)] assms(2,3) obtain cs us where m: "reaches (reader_at p src i) r'" "length (unread r') < length (unread (reader_at p src i))"
    and us: "drop i src = 34 # us @ 34 # unread r'" "unescaped us = Some cs" "e = StringAtom cs (span_from (position (reader_at p src i)) r')" by auto
  obtain j where j: "r' = reader_at p src j" "i < j" "j \<le> length src" by (rule moved_at [OF m])
  have "src ! (j - 1) = 34" "slice src (Suc i) (j - 1) = us" using string_end [of i src 34 us 34 j] us(1) j by simp_all
  moreover have "src ! i = 34" using assms(2,3) peek_at by simp
  ultimately show ?thesis using us(2,3) j span_from_at by auto
qed

lemma skipped_at:
  assumes "i \<le> length src"
  obtains k where "scan_ignored (reader_at p src i) = reader_at p src k" "i \<le> k" "k \<le> length src"
  using reaches_at [OF reaches_skip_ignored refl assms] by blast

lemma read_placed:
  "scan_expr n (reader_at p src i) = Inr (e, r') \<Longrightarrow> i < length src \<Longrightarrow> \<exists>j. r' = reader_at p src j \<and> placed p src i j e"
  "scan_items n start (reader_at p src i) = Inr (es, r') \<Longrightarrow> i \<le> length src \<Longrightarrow>
     \<exists>j. r' = reader_at p src j \<and> i < j \<and> j \<le> length src \<and> src ! (j - 1) = 41 \<and> placed_items p src i (j - 1) es"
proof (induction n arbitrary: i e r' es start)
  case (Suc n)
  {
    case 1
    show ?case using 1(1)
    proof (cases rule: expr_cases)
      case (list items)
      obtain j where "r' = reader_at p src j" "Suc i < j" "j \<le> length src" "src ! (j - 1) = 41" "placed_items p src (Suc i) (j - 1) items"
        using Suc.IH(2) [OF list(2) [unfolded advance_at [OF 1(2)]]] 1(2) by auto
      then show ?thesis using list(1,3) peek_at [OF 1(2)] span_from_at [of i j src p] by auto
    qed (use type_placed string_placed atom_placed 1(2) in blast)+
  next
    case 2
    obtain k where k: "scan_ignored (reader_at p src i) = reader_at p src k" "i \<le> k" "k \<le> length src"
      by (rule skipped_at [OF 2(2)])
    show ?case using 2(1)
    proof (cases rule: items_cases)
      case close
      then have "k < length src" using k by simp
      then show ?thesis using close k peek_at advance_at by auto
    next
      case (item f r2 fs)
      then have "k < length src" using k by simp
      then obtain j where j: "r2 = reader_at p src j" "placed p src k j f" using Suc.IH(1) item(2) k(1) by metis
      then have "k < j" "j \<le> length src" using placed_span by blast+
      then show ?thesis
        using Suc.IH(2) [OF item(3) [unfolded j(1)]] placed_cons [OF j(2) k(2)] item(4) k(2) by (auto simp del: placed_items.simps)
    qed
  }
qed simp_all

lemma top_placed:
  "scan_top n (reader_at p src i) = Inr (es, r') \<Longrightarrow> i \<le> length src \<Longrightarrow>
     placed_items p src i (length src) es \<and> r' = reader_at p src (length src)"
proof (induction n arbitrary: i es)
  case (Suc n)
  obtain k where k: "scan_ignored (reader_at p src i) = reader_at p src k" "i \<le> k" "k \<le> length src"
    by (rule skipped_at [OF Suc.prems(2)])
  consider "es = []" "r' = reader_at p src (length src)" | f r2 fs where "k < length src" "scan_expr n (reader_at p src k) = Inr (f, r2)"
      "scan_top n r2 = Inr (fs, r')" "es = f # fs"
    using Suc.prems(1) k(3) by (auto simp: Let_def k(1) result_simps split: if_splits)
  then show ?case
  proof cases
    case (2 f r2 fs)
    then obtain j where j: "r2 = reader_at p src j" "placed p src k j f" using read_placed(1) by blast
    then show ?thesis
      using Suc.IH [OF 2(3) [unfolded j(1)]] placed_span [OF j(2)] placed_cons [OF j(2) k(2)] 2(4) by blast
  qed (use Suc.prems in simp)
qed simp

section \<open>Properties\<close>

lemma tokens_no_index:
  "scan_string_chars st r \<noteq> Inl IndexError" "scan_type_chars st d r \<noteq> Inl IndexError" "classify_token t st r \<noteq> Inl IndexError"
proof -
  show "scan_string_chars st r \<noteq> Inl IndexError"
    by (induction st r rule: scan_string_chars.induct)
      (subst scan_string_chars.simps, auto simp: result_simps parse_error_def split: option.splits)
  show "scan_type_chars st d r \<noteq> Inl IndexError"
    by (induction st d r rule: scan_type_chars.induct) (subst scan_type_chars.simps, auto simp: Let_def result_simps parse_error_def)
qed (simp add: classify_token_def parse_error_def)

lemma expr_no_index: "scan_expr n r \<noteq> Inl IndexError" "scan_items n st r \<noteq> Inl IndexError"
proof (induction n arbitrary: r st)
  case (Suc n)
  {
    case 1
    show ?case
      using Suc.IH(2) tokens_no_index
      by (auto simp: result_simps parse_error_def scan_type_atom_def scan_string_def scan_atom_def split: prod.splits if_splits)
  next
    case 2
    show ?case using Suc.IH by (auto simp: Let_def result_simps parse_error_def)
  }
qed simp_all

lemma top_no_index: "scan_top n r \<noteq> Inl IndexError"
  by (induction n arbitrary: r) (auto simp: Let_def result_simps expr_no_index)

text \<open>
  C36: the reader always returns and never reads past the end of its text: whatever the text, the result is a
  tree, a parse diagnostic, or the refusal of an integer literal of more than 4300 digits; no \<open>source[index]\<close> is
  out of range. The recursion limit of the interpreter is not part of the model.
\<close>

theorem reader_returns:
  "(\<exists>t. read_sexpr_text src path = Inr t) \<or> (\<exists>m sp. read_sexpr_text src path = Inl (FrontendParseError m sp))
   \<or> read_sexpr_text src path = Inl IntegerTooLong"
proof -
  have "scan_top (read_fuel src) (new_reader src path) \<noteq> Inl OutOfFuel"
    by (rule top_fuel) (simp add: read_fuel_def new_reader_def)
  then have "read_sexpr_text src path \<noteq> Inl OutOfFuel" "read_sexpr_text src path \<noteq> Inl IndexError"
    using top_no_index by (auto simp: text_scans scan_sexpr_text_def result_simps)
  then show ?thesis
    by (cases "read_sexpr_text src path") (auto, metis read_error.exhaust)
qed

text \<open>
  C37: the spans of a tree are exact. Every node starts and ends where its text does, with the line and column of that
  offset; atoms carry the text between their ends, numbers and booleans its value, strings what it denotes between the quotes; the items of
  a list lie in order between its parentheses. The root spans its items from the first to the last, or is the
  empty span at the end of a text without any.
\<close>

theorem reader_spans_exact:
  assumes "read_sexpr_text src path = Inr (ListExpr items sp)"
  shows "placed_items path src 0 (length src) items
    \<and> sp = (if items = [] then \<lparr>span_start = position (reader_at path src (length src)), span_end = position (reader_at path src (length src))\<rparr>
        else \<lparr>span_start = span_start (span_of (items ! 0)), span_end = span_end (span_of (items ! (length items - 1)))\<rparr>)"
proof -
  obtain r where r: "scan_top (read_fuel src) (new_reader src path) = Inr (items, r)"
    and sp: "sp = (if items = [] then span_from (position r) r
      else \<lparr>span_start = span_start (span_of (hd items)), span_end = span_end (span_of (last items))\<rparr>)"
    using assms unfolding text_scans scan_sexpr_text_def by (auto simp: result_simps)
  then have "placed_items path src 0 (length src) items" "r = reader_at path src (length src)"
    using top_placed [of "read_fuel src" path src 0 items r] by (simp_all add: reader_at_0)
  with sp show ?thesis by (auto simp: span_from_def hd_conv_nth last_conv_nth)
qed

theorem reader_spans_exact_witness:
  "\<exists>items. placed_items ''m'' (codes ''(a 12) \"b\"'') 0 (length (codes ''(a 12) \"b\"'')) items \<and> length items = 2"
proof -
  have "(case read_sexpr_text (codes ''(a 12) \"b\"'') ''m'' of Inr (ListExpr [_, _] _) \<Rightarrow> True | _ \<Rightarrow> False)" by code_simp
  then obtain e f sp where "read_sexpr_text (codes ''(a 12) \"b\"'') ''m'' = Inr (ListExpr [e, f] sp)"
    by (auto split: sum.splits SExpr.splits list.splits)
  from reader_spans_exact [OF this] show ?thesis by (intro exI [of _ "[e, f]"] conjI) simp_all
qed

end
