(* ===== verification/LispRoundtrip.thy ===== *)
theory LispRoundtrip
  imports LispSpans
begin

text \<open>
  Printing and reading: a tree without spans is printed with single spaces, and reading the text
  gives the tree back. Float literals are left out of the printed trees; an integer must have at
  most 4300 digits, and a symbol or keyword must be a token the reader classifies as one.
\<close>

datatype tree =
    TList "tree list"
  | TSymbol codepoints
  | TKeyword codepoints
  | TString codepoints
  | TInt int
  | TFloat decimal
  | TBool bool

fun strip :: "SExpr \<Rightarrow> tree" where
  "strip (ListExpr es _) = TList (map strip es)"
| "strip (SymbolAtom v _) = TSymbol v"
| "strip (KeywordAtom v _) = TKeyword v"
| "strip (StringAtom v _) = TString v"
| "strip (IntAtom v _) = TInt v"
| "strip (FloatAtom v _) = TFloat v"
| "strip (BoolAtom v _) = TBool v"

fun digits :: "nat \<Rightarrow> codepoints" where
  "digits n = (if n < 10 then [48 + int n] else digits (n div 10) @ [48 + int (n mod 10)])"

declare digits.simps [simp del]

definition int_token :: "int \<Rightarrow> codepoints" where
  "int_token i = (if i < 0 then 45 # digits (nat (- i)) else digits (nat i))"

definition escaped :: "int \<Rightarrow> codepoints" where
  "escaped c = (if c = 92 then [92, 92] else if c = 34 then [92, 34]
     else if c = 10 then [92, 110] else if c = 9 then [92, 116] else [c])"

fun print_tree :: "tree \<Rightarrow> codepoints"
  and print_items :: "tree list \<Rightarrow> codepoints" where
  "print_tree (TList ts) = 40 # print_items ts @ [41]"
| "print_tree (TSymbol v) = v"
| "print_tree (TKeyword v) = v"
| "print_tree (TString v) = 34 # concat (map escaped v) @ [34]"
| "print_tree (TInt i) = int_token i"
| "print_tree (TFloat d) = []"
| "print_tree (TBool b) = codes (if b then ''true'' else ''false'')"
| "print_items [] = []"
| "print_items (t # ts) = (if ts = [] then print_tree t else print_tree t @ 32 # print_items ts)"

definition plain_token :: "codepoints \<Rightarrow> bool" where
  "plain_token v = (v \<noteq> [] \<and> list_all (\<lambda>c. \<not> ends_atom c) v \<and> hd v \<noteq> 34)"

definition symbol_token :: "codepoints \<Rightarrow> bool" where
  "symbol_token v = (plain_token v \<and> hd v \<noteq> 39 \<and> hd v \<noteq> 58 \<and> \<not> is_integer v \<and> \<not> is_float v
     \<and> v \<notin> {codes ''true'', codes ''false'', codes ''nil''})"

fun printable :: "tree \<Rightarrow> bool" where
  "printable (TList ts) = list_all printable ts"
| "printable (TSymbol v) = symbol_token v"
| "printable (TKeyword v) = (plain_token v \<and> hd v = 58 \<and> length v > 1)"
| "printable (TString v) = True"
| "printable (TInt i) = (int (length (digits (nat \<bar>i\<bar>))) \<le> 4300)"
| "printable (TFloat d) = False"
| "printable (TBool b) = True"

section \<open>Tokens\<close>

definition delimited :: "codepoints \<Rightarrow> bool" where
  "delimited k = (k = [] \<or> hd k = 32 \<or> hd k = 41)"

lemma delimiters: "ends_atom 32" "ends_atom 41" "isspace 32" "\<not> isspace 40" "\<not> isspace 41" "\<not> isspace 34"
  by (simp_all add: ends_atom_def isspace_def)

lemma delimited_end: "delimited k \<Longrightarrow> k \<noteq> [] \<Longrightarrow> ends_atom (hd k)"
  by (auto simp: delimited_def delimiters)

lemma read_until_token:
  "unread r = v @ k \<Longrightarrow> list_all (\<lambda>c. \<not> ends_atom c) v \<Longrightarrow> delimited k \<Longrightarrow>
    \<exists>r'. scan_until ends_atom r = (v, r') \<and> unread r' = k"
proof (induction v arbitrary: r)
  case Nil
  then have "at_end r \<or> ends_atom (next_char r)" using delimited_end by (auto simp: at_end_def next_char_def)
  then have "scan_until ends_atom r = ([], r)" by (subst scan_until.simps) simp
  then show ?case using Nil by simp
next
  case (Cons c v)
  then have live: "\<not> (at_end r \<or> ends_atom (next_char r))" "next_char r = c" by (auto simp: at_end_def next_char_def)
  obtain r' where "scan_until ends_atom (step_char r) = (v, r')" "unread r' = k"
    using Cons.IH [of "step_char r"] Cons.prems by auto
  then show ?case using live by (subst scan_until.simps) simp
qed

lemma no_bracket: "list_all (\<lambda>c. \<not> ends_atom c) v \<Longrightarrow> delimited k \<Longrightarrow> \<not> reaches_bracket (v @ k)"
proof (induction v)
  case Nil
  then show ?case by (cases k) (auto simp: delimited_def isspace_def)
next
  case (Cons c v)
  then show ?case by (auto simp: ends_atom_def)
qed

lemma read_token:
  assumes "unread r = v @ k" "plain_token v" "delimited k" "\<And>r'. \<exists>sp. classify_token v (position r) r' = Inr (E sp)"
  shows "\<exists>sp r'. scan_expr (Suc n) r = Inr (E sp, r') \<and> unread r' = k"
proof -
  have v: "v \<noteq> []" "list_all (\<lambda>c. \<not> ends_atom c) v" "hd v \<noteq> 34" using assms(2) by (simp_all add: plain_token_def)
  then have c: "\<not> ends_atom (hd v)" by (cases v) auto
  then have next_char: "next_char r = hd v" "next_char r \<notin> {40, 41, 91, 93, 34}"
    using assms(1) v(1,3) by (auto simp: next_char_def ends_atom_def)
  obtain r' where r': "scan_until ends_atom r = (v, r')" "unread r' = k"
    using read_until_token [OF assms(1) v(2) assms(3)] by blast
  have "\<not> scans_type_atom r" using no_bracket [OF v(2) assms(3)] assms(1) by (simp add: scans_type_atom_def)
  then have "scan_expr (Suc n) r = scan_atom r" using next_char(2) by simp
  then show ?thesis using assms(4) [of r'] r' by (auto simp: scan_atom_def)
qed

section \<open>Integers and strings\<close>

lemma digit_values:
  fixes d :: int
  assumes "0 \<le> d" "d < 10"
  shows "digit_value (48 + d) = Some d" "is_decimal (48 + d)" "\<not> ends_atom (48 + d)"
  using assms by (simp_all add: digit_value_def digit_zeros_def is_decimal_def ends_atom_def isspace_def)

lemma digits_ok:
  "digits n \<noteq> [] \<and> list_all is_decimal (digits n) \<and> list_all (\<lambda>c. \<not> ends_atom c \<and> 48 \<le> c \<and> c < 58) (digits n)
   \<and> decimal_value (digits n) = int n"
proof (induction n rule: digits.induct)
  case (1 n)
  show ?case
  proof (cases "n < 10")
    case True
    then show ?thesis using digit_values [of "int n"] by (subst (1 2 3 4) digits.simps) (simp add: decimal_value_def)
  next
    case False
    have m: "n mod 10 < 10" "10 * int (n div 10) + int (n mod 10) = int n" by (simp_all add: zdiv_int zmod_int)
    show ?thesis using 1 [OF False] False digit_values [of "int (n mod 10)"] m
      by (subst (1 2 3 4) digits.simps) (simp add: decimal_value_def)
  qed
qed

lemma int_token_classified:
  assumes "printable (TInt i)"
  shows "plain_token (int_token i)" "\<exists>sp. classify_token (int_token i) s r = Inr (IntAtom i sp)"
proof -
  define n where "n = nat \<bar>i\<bar>"
  note ds = digits_ok [of n]
  obtain c cs where c: "digits n = c # cs" "48 \<le> c" "c < 58" using ds by (cases "digits n") auto
  have tok: "int_token i = (if i < 0 then 45 # digits n else digits n)"
    unfolding int_token_def n_def by simp
  have un: "unsigned (int_token i) = digits n" "signed (int_token i) \<longleftrightarrow> i < 0"
    using c by (auto simp: tok unsigned_def signed_def)
  show "plain_token (int_token i)"
    using ds c by (auto simp: tok plain_token_def ends_atom_def isspace_def list_all_iff)
  have "hd (int_token i) < 58" "int_token i \<noteq> []" "hd (int_token i) \<noteq> 39" using c by (auto simp: tok)
  moreover have "hd (codes ''true'') > 58" "hd (codes ''false'') > 58" "hd (codes ''nil'') > 58"
    by (simp_all add: codes_def)
  ultimately have "int_token i \<noteq> codes ''true''" "int_token i \<noteq> codes ''false''" "int_token i \<noteq> codes ''nil''"
    by (metis order_less_asym)+
  moreover have "is_integer (int_token i)" using ds un(1) by (simp add: is_integer_def)
  moreover have "int_of_token (int_token i) = i"
  proof -
    have "decimal_value (digits n) = int n" "int n = \<bar>i\<bar>" using ds by (simp_all add: n_def)
    then show ?thesis by (simp add: int_of_token_def un)
  qed
  ultimately show "\<exists>sp. classify_token (int_token i) s r = Inr (IntAtom i sp)"
    using assms \<open>int_token i \<noteq> []\<close> \<open>hd (int_token i) \<noteq> 39\<close> un(1) unfolding classify_token_def n_def by simp
qed

lemma keyword_classified:
  assumes "printable (TKeyword v)"
  shows "\<exists>sp. classify_token v s r = Inr (KeywordAtom v sp)"
proof -
  obtain w where v: "v = 58 # w" "w \<noteq> []" using assms by (cases v) auto
  have colon: "\<not> is_decimal 58" by code_simp
  then have "\<not> is_integer v" "\<not> is_float v" by (simp_all add: v is_integer_def is_float_def unsigned_def)
  moreover have "v \<noteq> codes ''true''" "v \<noteq> codes ''false''" "v \<noteq> codes ''nil''" by (simp_all add: v codes_def)
  ultimately show ?thesis using v by (simp add: classify_token_def)
qed

lemma symbol_classified: "printable (TSymbol v) \<Longrightarrow> \<exists>sp. classify_token v s r = Inr (SymbolAtom v sp)"
  by (auto simp: symbol_token_def plain_token_def classify_token_def)

lemma bool_classified:
  "plain_token (codes (if b then ''true'' else ''false''))"
  "\<exists>sp. classify_token (codes (if b then ''true'' else ''false'')) s r = Inr (BoolAtom b sp)"
  by (auto simp: plain_token_def codes_def ends_atom_def isspace_def classify_token_def)

lemma read_escaped:
  assumes "unread r = escaped c @ k"
  shows "\<exists>r'. unread r' = k \<and> scan_string_chars s r = rbind (scan_string_chars s r') (\<lambda>(cs, q). Inr (c # cs, q))"
proof -
  consider "escaped c = [92, 92]" "c = 92" | "escaped c = [92, 34]" "c = 34" | "escaped c = [92, 110]" "c = 10"
    | "escaped c = [92, 116]" "c = 9" | "escaped c = [c]" "c \<notin> {92, 34, 10, 9}"
    by (auto simp: escaped_def)
  then show ?thesis
  proof cases
    case 5
    then show ?thesis using assms by (intro exI [of _ "step_char r"]) (subst scan_string_chars.simps, simp add: at_end_def next_char_def)
  qed (use assms in \<open>intro exI [of _ "step_char (step_char r)"], subst scan_string_chars.simps,
      simp add: at_end_def next_char_def escape_value_def\<close>)+
qed

lemma read_string_text:
  "unread r = concat (map escaped v) @ 34 # k \<Longrightarrow> \<exists>r'. scan_string_chars s r = Inr (v, r') \<and> unread r' = k"
proof (induction v arbitrary: r)
  case Nil
  then show ?case by (subst scan_string_chars.simps) (simp add: at_end_def next_char_def)
next
  case (Cons c v)
  obtain r1 where r1: "unread r1 = concat (map escaped v) @ 34 # k"
    "scan_string_chars s r = rbind (scan_string_chars s r1) (\<lambda>(cs, q). Inr (c # cs, q))"
    using read_escaped [of r c "concat (map escaped v) @ 34 # k" s] Cons.prems by auto
  from Cons.IH [OF r1(1)] r1(2) show ?case by auto
qed

section \<open>Trees\<close>

lemma print_starts:
  assumes "printable t"
  shows "\<exists>c s. print_tree t = c # s \<and> \<not> isspace c \<and> c \<noteq> 59 \<and> c \<noteq> 41"
proof -
  have tok: "\<exists>c s. v = c # s \<and> \<not> isspace c \<and> c \<noteq> 59 \<and> c \<noteq> 41" if "plain_token v" for v
    using that by (cases v) (auto simp: plain_token_def ends_atom_def)
  show ?thesis
    using assms tok [OF int_token_classified(1)] tok [OF bool_classified(1)] tok
    by (cases t) (auto simp: symbol_token_def delimiters simp del: printable.simps(5) simp: printable.simps)
qed

lemma skip_none: "unread r = c # s \<Longrightarrow> \<not> isspace c \<Longrightarrow> c \<noteq> 59 \<Longrightarrow> scan_ignored r = r"
  by (subst scan_ignored.simps) (simp add: at_end_def next_char_def)

lemma skip_space: "unread r = 32 # c # s \<Longrightarrow> \<not> isspace c \<Longrightarrow> c \<noteq> 59 \<Longrightarrow> scan_ignored r = step_char r"
  by (subst scan_ignored.simps) (simp add: at_end_def next_char_def delimiters skip_none [of "step_char r" c s])

lemma close_items:
  assumes "unread r = 41 # k" "2 * length (unread r) + 1 < n"
  shows "\<exists>r'. scan_items n s r = Inr ([], r') \<and> unread r' = k"
proof -
  obtain m where n: "n = Suc m" using assms(2) by (cases n) auto
  have "scan_ignored r = r" "\<not> at_end r" "next_char r = 41"
    using assms(1) skip_none [OF assms(1)] by (simp_all add: delimiters at_end_def next_char_def)
  then show ?thesis using assms(1) by (simp add: n Let_def)
qed

lemma read_token_text:
  assumes "unread r = v @ k" "plain_token v" "delimited k" "2 * length (unread r) < n"
    "\<And>r'. \<exists>sp. classify_token v (position r) r' = Inr (E sp)" "\<And>sp. strip (E sp) = t"
  shows "\<exists>e r'. scan_expr n r = Inr (e, r') \<and> strip e = t \<and> unread r' = k"
proof -
  obtain m where "n = Suc m" using assms(4) by (cases n) auto
  then show ?thesis using read_token [OF assms(1-3,5), of m] assms(6) by blast
qed

lemma read_list_text:
  assumes "unread r = print_tree (TList ts) @ k" "2 * length (unread r) < n"
    "\<And>m q. unread q = print_items ts @ 41 # k \<Longrightarrow> 2 * length (unread q) + 1 < m \<Longrightarrow>
      \<exists>es r'. scan_items m (position r) q = Inr (es, r') \<and> map strip es = ts \<and> unread r' = k"
  shows "\<exists>e r'. scan_expr n r = Inr (e, r') \<and> strip e = TList ts \<and> unread r' = k"
proof -
  obtain m where n: "n = Suc m" using assms(2) by (cases n) auto
  have "unread (step_char r) = print_items ts @ 41 # k" "2 * length (unread (step_char r)) + 1 < m"
    using assms(1,2) by (simp_all add: n)
  then obtain es r' where "scan_items m (position r) (step_char r) = Inr (es, r')" "map strip es = ts" "unread r' = k"
    using assms(3) by blast
  moreover have "next_char r = 40" "\<not> scans_type_atom r" using assms(1) by (simp_all add: next_char_def scans_type_atom_def)
  ultimately show ?thesis by (simp add: n)
qed

lemma read_printed:
  "printable t \<Longrightarrow> unread r = print_tree t @ k \<Longrightarrow> delimited k \<Longrightarrow> 2 * length (unread r) < n \<Longrightarrow>
     \<exists>e r'. scan_expr n r = Inr (e, r') \<and> strip e = t \<and> unread r' = k"
  "list_all printable ts \<Longrightarrow> unread r = print_items ts @ 41 # k \<or> ts \<noteq> [] \<and> unread r = 32 # print_items ts @ 41 # k \<Longrightarrow>
     2 * length (unread r) + 1 < n \<Longrightarrow> \<exists>es r'. scan_items n s r = Inr (es, r') \<and> map strip es = ts \<and> unread r' = k"
proof (induction t and ts arbitrary: r k n and r k n s rule: print_tree_print_items.induct)
  case (1 ts r k n)
  show ?case
  proof (rule read_list_text [OF 1(3,5)])
    fix m and q :: reader
    assume q: "unread q = print_items ts @ 41 # k" "2 * length (unread q) + 1 < m"
    have "list_all printable ts" using 1(2) by simp
    from 1(1) [OF this disjI1 [OF q(1)] q(2)]
    show "\<exists>es r'. scan_items m (position r) q = Inr (es, r') \<and> map strip es = ts \<and> unread r' = k" .
  qed
next
  case (2 v r k n)
  show ?case
    by (rule read_token_text [where E = "SymbolAtom v" and v = v])
      (use 2 symbol_classified [of v] in \<open>simp_all add: symbol_token_def\<close>)
next
  case (3 v r k n)
  show ?case
    by (rule read_token_text [where E = "KeywordAtom v" and v = v]) (use 3 keyword_classified [of v] in simp_all)
next
  case (4 v r k n)
  then obtain m where n: "n = Suc m" by (cases n) auto
  have "next_char r = 34" "\<not> scans_type_atom r" using 4 by (simp_all add: next_char_def scans_type_atom_def)
  moreover obtain r' where "scan_string_chars (position r) (step_char r) = Inr (v, r')" "unread r' = k"
    using read_string_text [of "step_char r" v k] 4 by auto
  ultimately show ?case by (simp add: n scan_string_def)
next
  case (5 i r k n)
  show ?case
    by (rule read_token_text [where E = "IntAtom i" and v = "int_token i"])
      (use 5 int_token_classified [of i] in \<open>simp_all del: printable.simps\<close>)
next
  case (7 b r k n)
  show ?case
    by (rule read_token_text [where E = "BoolAtom b" and v = "print_tree (TBool b)"])
      (use 7 bool_classified [of b] in simp_all)
next
  case (8 r k n s)
  then show ?case using close_items [of r k n s] by simp
next
  case (9 t ts r k n s)
  note prems = 9(4-6)
  from prems(3) obtain m where n: "n = Suc m" by (cases n) auto
  have ok: "printable t" "list_all printable ts" using prems(1) by simp_all
  define k' where "k' = (if ts = [] then 41 # k else 32 # print_items ts @ 41 # k)"
  obtain c u where t: "print_tree t = c # u" "\<not> isspace c" "c \<noteq> 59" "c \<noteq> 41" using print_starts [OF ok(1)] by blast
  let ?r = "scan_ignored r"
  have r1: "unread ?r = print_tree t @ k'"
    using prems(2) t skip_none [of r c] skip_space [of r c] by (auto simp: k'_def split: if_splits)
  have len: "length (unread ?r) \<le> length (unread r)" using reaches_shorter [OF reaches_skip_ignored] .
  have "delimited k'" "2 * length (unread ?r) < m" using len prems(3) by (simp_all add: n k'_def delimited_def)
  then obtain e r2 where e: "scan_expr m ?r = Inr (e, r2)" "strip e = t" "unread r2 = k'"
    using 9(1) [OF _ ok(1) r1] 9(2) [OF _ ok(1) r1] by blast
  have fuel: "2 * length (unread r2) + 1 < m" using e(3) r1 t(1) len prems(3) by (simp add: n)
  have "\<exists>es r3. scan_items m s r2 = Inr (es, r3) \<and> map strip es = ts \<and> unread r3 = k"
  proof (cases "ts = []")
    case True
    then show ?thesis using close_items [of r2 k m s] e(3) fuel by (simp add: k'_def)
  next
    case False
    then show ?thesis using 9(3) [OF False ok(2) disjI2 fuel] e(3) by (simp add: k'_def)
  qed
  moreover have "\<not> at_end ?r" "next_char ?r \<noteq> 41" using r1 t by (simp_all add: at_end_def next_char_def)
  ultimately show ?case using e by (auto simp: n Let_def)
qed simp_all

lemma read_top_text:
  "list_all printable ts \<Longrightarrow> unread r = print_items ts \<or> ts \<noteq> [] \<and> unread r = 32 # print_items ts \<Longrightarrow>
     2 * length (unread r) + 1 < n \<Longrightarrow> \<exists>es r'. scan_top n r = Inr (es, r') \<and> map strip es = ts"
proof (induction ts arbitrary: r n)
  case Nil
  then obtain m where n: "n = Suc m" by (cases n) auto
  have "scan_ignored r = r" "at_end r" using Nil by (simp_all add: at_end_def scan_ignored.simps [of r])
  then show ?case by (simp add: n)
next
  case (Cons t ts)
  note prems = Cons.prems
  from prems(3) obtain m where n: "n = Suc m" by (cases n) auto
  have ok: "printable t" "list_all printable ts" using prems(1) by simp_all
  define k where "k = (if ts = [] then [] else 32 # print_items ts)"
  obtain c u where t: "print_tree t = c # u" "\<not> isspace c" "c \<noteq> 59" using print_starts [OF ok(1)] by blast
  let ?r = "scan_ignored r"
  have r1: "unread ?r = print_tree t @ k"
    using prems(2) t skip_none [of r c] skip_space [of r c] by (auto simp: k_def split: if_splits)
  have len: "length (unread ?r) \<le> length (unread r)" using reaches_shorter [OF reaches_skip_ignored] .
  have "delimited k" "2 * length (unread ?r) < m" using len prems(3) by (simp_all add: n k_def delimited_def)
  then obtain e r2 where e: "scan_expr m ?r = Inr (e, r2)" "strip e = t" "unread r2 = k"
    using read_printed(1) [OF ok(1) r1] by blast
  have "2 * length (unread r2) + 1 < m" using e(3) r1 t(1) len prems(3) by (simp add: n)
  then have "\<exists>es r3. scan_top m r2 = Inr (es, r3) \<and> map strip es = ts"
    using Cons.IH [OF ok(2)] e(3) by (cases "ts = []") (simp_all add: k_def)
  moreover have "\<not> at_end ?r" using r1 t by (simp add: at_end_def)
  ultimately show ?case using e by (auto simp: n Let_def)
qed

text \<open>
  C38: reading what was printed gives the same trees back: any sequence of printable trees, printed
  with single spaces, is read as that sequence.
\<close>

theorem read_print_roundtrip:
  assumes "list_all printable ts"
  shows "\<exists>es sp. read_sexpr_text (print_items ts) path = Inr (ListExpr es sp) \<and> map strip es = ts"
proof -
  have "\<exists>es r'. scan_top (read_fuel (print_items ts)) (new_reader (print_items ts) path) = Inr (es, r') \<and> map strip es = ts"
    by (rule read_top_text [OF assms]) (simp_all add: new_reader_def read_fuel_def)
  then show ?thesis by (auto simp: text_scans scan_sexpr_text_def)
qed

theorem read_print_roundtrip_witness:
  "\<exists>es sp. read_sexpr_text (print_items [TList [TInt (- 7), TString (codes ''a b'')], TBool True]) ''m'' = Inr (ListExpr es sp)
     \<and> map strip es = [TList [TInt (- 7), TString (codes ''a b'')], TBool True]"
  by (rule read_print_roundtrip) (simp add: digits.simps)

end
