(* ===== verification/SourceTrace.thy ===== *)
theory SourceTrace
  imports PyValue LispReader
begin

text \<open>
  Source reads of \<open>src/orchestrator/workflow_lisp/reader.py\<close>: the trace of the files one compiler
  run has read, with the revision of each, the module-graph attempts, and reading a file into text
  and trees. The trace is the state; an operation returns a value or an exception together with the
  trace it leaves, since a conflicting read is recorded before it is refused. SHA-256, the
  resolution of a path and the result of reading a file are parameters.
\<close>

section \<open>State\<close>

record SourceReadRecord =
  read_path :: string
  read_revision :: string
  ordinal :: nat

record ModuleGraphReadAttempt =
  attempt_id :: nat
  entry_path :: string
  started_at_ordinal :: nat
  completed_at_ordinal :: "nat option"
  module_paths :: "string list option"

record SourceReadTrace =
  records :: "SourceReadRecord list"
  revisions_by_path :: "(string \<times> string) list"
  raw_bytes_by_path :: "(string \<times> string) list"
  attempts :: "ModuleGraphReadAttempt list"

definition new_trace :: SourceReadTrace where
  "new_trace = \<lparr>records = [], revisions_by_path = [], raw_bytes_by_path = [], attempts = []\<rparr>"

text \<open>\<open>d.setdefault(key, value)\<close>: the value now stored, and the dict.\<close>

definition setdefault :: "(string \<times> string) list \<Rightarrow> string \<Rightarrow> string \<Rightarrow> string \<times> (string \<times> string) list" where
  "setdefault d k v = (case map_of d k of Some w \<Rightarrow> (w, d) | None \<Rightarrow> (v, d @ [(k, v)]))"

section \<open>Views\<close>

definition revision_vector :: "SourceReadTrace \<Rightarrow> (string \<times> string) list" where
  "revision_vector t = sort_key fst (revisions_by_path t)"

definition raw_bytes_view :: "SourceReadTrace \<Rightarrow> (string \<times> string) list" where
  "raw_bytes_view t = sort_key fst (raw_bytes_by_path t)"

fun conflicts_from :: "SourceReadRecord list \<Rightarrow> (string \<times> string) list \<Rightarrow> string list \<Rightarrow> string list" where
  "conflicts_from [] first conflicts = conflicts"
| "conflicts_from (r # rs) first conflicts =
     (case setdefault first (read_path r) (read_revision r) of (first_revision, first') \<Rightarrow>
        conflicts_from rs first'
          (if first_revision \<noteq> read_revision r \<and> read_path r \<notin> set conflicts
           then conflicts @ [read_path r] else conflicts))"

definition revision_conflict_paths :: "SourceReadTrace \<Rightarrow> string list" where
  "revision_conflict_paths t = conflicts_from (records t) [] []"

section \<open>Operations\<close>

type_synonym 'a traced = "(exc + 'a) \<times> SourceReadTrace"

definition begin_attempt :: "(string \<Rightarrow> string) \<Rightarrow> string \<Rightarrow> SourceReadTrace \<Rightarrow> nat traced" where
  "begin_attempt real path t =
     (Inr (length (attempts t)),
      t\<lparr>attempts := attempts t @ [\<lparr>attempt_id = length (attempts t), entry_path = real path,
          started_at_ordinal = length (records t), completed_at_ordinal = None, module_paths = None\<rparr>]\<rparr>)"

definition complete_attempt :: "(string \<Rightarrow> string) \<Rightarrow> int \<Rightarrow> string list \<Rightarrow> SourceReadTrace \<Rightarrow> unit traced" where
  "complete_attempt real i paths t =
     (if i < 0 \<or> int (length (attempts t)) \<le> i then (Inl (RuntimeError ''unknown''), t)
      else let attempt = attempts t ! nat i in
        if completed_at_ordinal attempt \<noteq> None then (Inl (RuntimeError ''completed''), t)
        else (Inr (), t\<lparr>attempts := (attempts t)[nat i := attempt\<lparr>completed_at_ordinal := Some (length (records t)),
            module_paths := Some (map real paths)\<rparr>]\<rparr>))"

definition sha256_revision :: "(string \<Rightarrow> string) \<Rightarrow> string \<Rightarrow> string" where
  "sha256_revision sha raw = ''sha256:'' @ sha raw"

definition record_read ::
    "(string \<Rightarrow> string) \<Rightarrow> string \<Rightarrow> string \<Rightarrow> string option \<Rightarrow> SourceReadTrace \<Rightarrow> SourceReadRecord traced" where
  "record_read sha path revision raw t =
     (if (case raw of Some b \<Rightarrow> revision \<noteq> sha256_revision sha b | None \<Rightarrow> False) then (Inl ValueError, t)
      else let r = \<lparr>read_path = path, read_revision = revision, ordinal = length (records t)\<rparr>;
               (previous, revs) = setdefault (revisions_by_path t) path revision;
               t1 = t\<lparr>records := records t @ [r], revisions_by_path := revs\<rparr> in
        if previous \<noteq> revision then (Inl (RuntimeError ''changed''), t1)
        else case raw of
          None \<Rightarrow> (Inr r, t1)
        | Some b \<Rightarrow> (case setdefault (raw_bytes_by_path t1) path b of (previous_raw, raws) \<Rightarrow>
            let t2 = t1\<lparr>raw_bytes_by_path := raws\<rparr> in
            if previous_raw \<noteq> b then (Inl (RuntimeError ''changed''), t2) else (Inr r, t2)))"

section \<open>Reading a file\<close>

datatype file_read = Contents string | FileNotFound | Unreadable

record SourceReadViews =
  raw_bytes :: string
  raw_decoded_text :: codepoints
  parser_text :: codepoints

text \<open>\<open>bytes.decode("utf-8", errors="strict")\<close>: shortest forms only, no surrogates.\<close>

definition continuation :: "int \<Rightarrow> bool" where
  "continuation b = (128 \<le> b \<and> b < 192)"

fun utf8_decode :: "int list \<Rightarrow> codepoints option" where
  "utf8_decode [] = Some []"
| "utf8_decode (a # s) =
     (if a < 128 then map_option (\<lambda>t. a # t) (utf8_decode s)
      else case s of
        [] \<Rightarrow> None
      | b # s1 \<Rightarrow>
          if \<not> continuation b then None
          else if 194 \<le> a \<and> a < 224
          then map_option (\<lambda>t. ((a - 192) * 64 + (b - 128)) # t) (utf8_decode s1)
          else (case s1 of
            [] \<Rightarrow> None
          | c # s2 \<Rightarrow>
              if \<not> continuation c then None
              else if 224 \<le> a \<and> a < 240 then
                let n = (a - 224) * 4096 + (b - 128) * 64 + (c - 128) in
                if n < 2048 \<or> 55296 \<le> n \<and> n < 57344 then None
                else map_option (\<lambda>t. n # t) (utf8_decode s2)
              else (case s2 of
                [] \<Rightarrow> None
              | d # s3 \<Rightarrow>
                  let n = (a - 240) * 262144 + (b - 128) * 4096 + (c - 128) * 64 + (d - 128) in
                  if \<not> continuation d \<or> a < 240 \<or> n < 65536 \<or> 1114112 \<le> n then None
                  else map_option (\<lambda>t. n # t) (utf8_decode s3))))"

fun replace_crlf :: "codepoints \<Rightarrow> codepoints" where
  "replace_crlf (c # d # s) = (if c = 13 \<and> d = 10 then 10 # replace_crlf s else c # replace_crlf (d # s))"
| "replace_crlf s = s"

definition universal_newlines :: "codepoints \<Rightarrow> codepoints" where
  "universal_newlines s = map (\<lambda>c. if c = 13 then 10 else c) (replace_crlf s)"

text \<open>\<open>source_read_trace._record(...)\<close> when there is a trace, then the rest.\<close>

definition noted ::
    "(string \<Rightarrow> string) \<Rightarrow> string \<Rightarrow> string \<Rightarrow> string option \<Rightarrow> SourceReadTrace option \<Rightarrow> exc + 'a
     \<Rightarrow> (exc + 'a) \<times> SourceReadTrace option" where
  "noted sha path revision raw trace result = (case trace of
      None \<Rightarrow> (result, None)
    | Some t \<Rightarrow> (case record_read sha path revision raw t of
        (Inl e, t') \<Rightarrow> (Inl e, Some t')
      | (Inr _, t') \<Rightarrow> (result, Some t')))"

definition read_source_file_views ::
    "(string \<Rightarrow> string) \<Rightarrow> (string \<Rightarrow> string) \<Rightarrow> (string \<Rightarrow> file_read) \<Rightarrow> string \<Rightarrow> SourceReadTrace option
     \<Rightarrow> (exc + SourceReadViews) \<times> SourceReadTrace option" where
  "read_source_file_views sha real read_bytes path trace =
     (let canonical_path = real path in
      case read_bytes canonical_path of
        FileNotFound \<Rightarrow> noted sha canonical_path ''missing'' None trace (Inl OSError)
      | Unreadable \<Rightarrow> noted sha canonical_path ''unreadable'' None trace (Inl OSError)
      | Contents raw \<Rightarrow>
          noted sha canonical_path (sha256_revision sha raw) (Some raw) trace
            (case utf8_decode (map of_char raw) of
               None \<Rightarrow> Inl ValueError
             | Some decoded \<Rightarrow> Inr \<lparr>raw_bytes = raw, raw_decoded_text = decoded,
                 parser_text = universal_newlines decoded\<rparr>))"

datatype file_outcome = ReadTree SExpr | ReadRefused read_error

definition read_sexpr_file ::
    "(string \<Rightarrow> string) \<Rightarrow> (string \<Rightarrow> string) \<Rightarrow> (string \<Rightarrow> file_read) \<Rightarrow> string \<Rightarrow> SourceReadTrace option
     \<Rightarrow> (exc + file_outcome) \<times> SourceReadTrace option" where
  "read_sexpr_file sha real read_bytes path trace =
     (case read_source_file_views sha real read_bytes path trace of (r, trace') \<Rightarrow>
       (rbind r (\<lambda>views. Inr (case read_sexpr_text (parser_text views) path of
            Inl e \<Rightarrow> ReadRefused e | Inr tree \<Rightarrow> ReadTree tree)), trace'))"

section \<open>Reachable traces\<close>

inductive trace_step :: "(string \<Rightarrow> string) \<Rightarrow> (string \<Rightarrow> string) \<Rightarrow> SourceReadTrace \<Rightarrow> SourceReadTrace \<Rightarrow> bool"
  for sha real where
  step_begin: "begin_attempt real path t = (r, t') \<Longrightarrow> trace_step sha real t t'"
| step_complete: "complete_attempt real i paths t = (r, t') \<Longrightarrow> trace_step sha real t t'"
| step_record: "record_read sha path revision raw t = (r, t') \<Longrightarrow> trace_step sha real t t'"

inductive reachable_trace :: "(string \<Rightarrow> string) \<Rightarrow> (string \<Rightarrow> string) \<Rightarrow> SourceReadTrace \<Rightarrow> bool"
  for sha real where
  trace_new: "reachable_trace sha real new_trace"
| trace_next: "reachable_trace sha real t \<Longrightarrow> trace_step sha real t t' \<Longrightarrow> reachable_trace sha real t'"

text \<open>The revision under which a path was read first.\<close>

definition first_revision :: "SourceReadRecord list \<Rightarrow> string \<Rightarrow> string option" where
  "first_revision rs p = map_option read_revision (List.find (\<lambda>r. read_path r = p) rs)"

definition attempt_ok :: "nat \<Rightarrow> nat \<Rightarrow> ModuleGraphReadAttempt \<Rightarrow> bool" where
  "attempt_ok n i a \<longleftrightarrow> attempt_id a = i \<and> started_at_ordinal a \<le> n \<and>
     (case completed_at_ordinal a of
        None \<Rightarrow> module_paths a = None
      | Some c \<Rightarrow> started_at_ordinal a \<le> c \<and> c \<le> n \<and> module_paths a \<noteq> None)"

definition attempts_ok :: "nat \<Rightarrow> ModuleGraphReadAttempt list \<Rightarrow> bool" where
  "attempts_ok n as \<longleftrightarrow> (\<forall>i < length as. attempt_ok n i (as ! i))"

definition ordinals_ok :: "SourceReadRecord list \<Rightarrow> bool" where
  "ordinals_ok rs \<longleftrightarrow> (\<forall>i < length rs. ordinal (rs ! i) = i)"

definition raws_ok :: "(string \<Rightarrow> string) \<Rightarrow> SourceReadRecord list \<Rightarrow> (string \<times> string) list \<Rightarrow> bool" where
  "raws_ok sha rs raws \<longleftrightarrow> (\<forall>p b. map_of raws p = Some b \<longrightarrow> first_revision rs p = Some (sha256_revision sha b))"

definition trace_ok :: "(string \<Rightarrow> string) \<Rightarrow> SourceReadTrace \<Rightarrow> bool" where
  "trace_ok sha t \<longleftrightarrow> ordinals_ok (records t) \<and> map_of (revisions_by_path t) = first_revision (records t) \<and>
     raws_ok sha (records t) (raw_bytes_by_path t) \<and> attempts_ok (length (records t)) (attempts t)"

lemma first_revision_snoc:
  "first_revision (rs @ [r]) p = (case first_revision rs p of
     Some v \<Rightarrow> Some v | None \<Rightarrow> if read_path r = p then Some (read_revision r) else None)"
  by (induction rs) (auto simp: first_revision_def)

lemma ordinals_snoc: "ordinals_ok rs \<Longrightarrow> ordinal r = length rs \<Longrightarrow> ordinals_ok (rs @ [r])"
  by (auto simp: ordinals_ok_def nth_append less_Suc_eq)

lemma raws_snoc: "raws_ok sha rs raws \<Longrightarrow> raws_ok sha (rs @ [r]) raws"
  by (auto simp: raws_ok_def first_revision_snoc)

lemma attempts_grow: "attempts_ok n as \<Longrightarrow> n \<le> m \<Longrightarrow> attempts_ok m as"
  unfolding attempts_ok_def attempt_ok_def by (fastforce split: option.splits)

lemma attempts_snoc: "attempts_ok n as \<Longrightarrow> attempt_ok n (length as) a \<Longrightarrow> attempts_ok n (as @ [a])"
  by (auto simp: attempts_ok_def nth_append less_Suc_eq)

lemma attempts_update: "attempts_ok n as \<Longrightarrow> attempt_ok n i a \<Longrightarrow> attempts_ok n (as[i := a])"
  by (cases "i < length as") (auto simp: attempts_ok_def nth_list_update)

lemma begin_ok: "trace_ok sha t \<Longrightarrow> begin_attempt real path t = (r, t') \<Longrightarrow> trace_ok sha t'"
  by (auto simp: trace_ok_def begin_attempt_def attempt_ok_def intro!: attempts_snoc)

lemma complete_ok:
  assumes "trace_ok sha t" "complete_attempt real i paths t = (r, t')"
  shows "trace_ok sha t'"
proof (cases "i < 0 \<or> int (length (attempts t)) \<le> i \<or> completed_at_ordinal (attempts t ! nat i) \<noteq> None")
  case True
  then have "t' = t" using assms(2) by (simp add: complete_attempt_def Let_def split: if_splits)
  then show ?thesis using assms(1) by simp
next
  case False
  define a where "a = (attempts t ! nat i)\<lparr>completed_at_ordinal := Some (length (records t)), module_paths := Some (map real paths)\<rparr>"
  have t': "t' = t\<lparr>attempts := (attempts t)[nat i := a]\<rparr>"
    using False assms(2) by (simp add: complete_attempt_def Let_def a_def)
  have "nat i < length (attempts t)" using False by linarith
  then have "attempt_ok (length (records t)) (nat i) (attempts t ! nat i)"
    using assms(1) by (simp add: trace_ok_def attempts_ok_def)
  then have "attempt_ok (length (records t)) (nat i) a" by (simp add: attempt_ok_def a_def)
  then show ?thesis using assms(1) by (simp add: trace_ok_def t' attempts_update)
qed

definition read_entry :: "string \<Rightarrow> string \<Rightarrow> SourceReadTrace \<Rightarrow> SourceReadRecord" where
  "read_entry p v t = \<lparr>read_path = p, read_revision = v, ordinal = length (records t)\<rparr>"

lemma record_cases:
  assumes "record_read sha p v raw t = (r, t')"
  obtains (mismatch) b where "raw = Some b" "v \<noteq> sha256_revision sha b" "r = Inl ValueError" "t' = t"
  | (conflict) w where "map_of (revisions_by_path t) p = Some w" "w \<noteq> v" "r = Inl (RuntimeError ''changed'')"
      "t' = t\<lparr>records := records t @ [read_entry p v t]\<rparr>"
  | (plain) "map_of (revisions_by_path t) p = None \<or> map_of (revisions_by_path t) p = Some v" "raw = None"
      "r = Inr (read_entry p v t)"
      "t' = t\<lparr>records := records t @ [read_entry p v t], revisions_by_path := snd (setdefault (revisions_by_path t) p v)\<rparr>"
  | (bytes) b where "map_of (revisions_by_path t) p = None \<or> map_of (revisions_by_path t) p = Some v" "raw = Some b"
      "v = sha256_revision sha b"
      "r = (case map_of (raw_bytes_by_path t) p of Some b' \<Rightarrow>
          if b' \<noteq> b then Inl (RuntimeError ''changed'') else Inr (read_entry p v t) | None \<Rightarrow> Inr (read_entry p v t))"
      "t' = t\<lparr>records := records t @ [read_entry p v t], revisions_by_path := snd (setdefault (revisions_by_path t) p v),
         raw_bytes_by_path := snd (setdefault (raw_bytes_by_path t) p b)\<rparr>"
proof (cases "\<exists>b. raw = Some b \<and> v \<noteq> sha256_revision sha b")
  case True
  then obtain b where "raw = Some b" "v \<noteq> sha256_revision sha b" by blast
  then show thesis using assms mismatch by (simp add: record_read_def)
next
  case False
  then have matches: "\<not> (case raw of Some b \<Rightarrow> v \<noteq> sha256_revision sha b | None \<Rightarrow> False)" by (simp split: option.splits)
  show thesis
  proof (cases "\<exists>w. map_of (revisions_by_path t) p = Some w \<and> w \<noteq> v")
    case True
    then obtain w where w: "map_of (revisions_by_path t) p = Some w" "w \<noteq> v" by blast
    then have "setdefault (revisions_by_path t) p v = (w, revisions_by_path t)" by (simp add: setdefault_def)
    then show thesis using assms w conflict matches by (simp add: record_read_def Let_def read_entry_def)
  next
    case known: False
    then have old: "map_of (revisions_by_path t) p = None \<or> map_of (revisions_by_path t) p = Some v" by (cases "map_of (revisions_by_path t) p") auto
    then obtain revs where sd: "setdefault (revisions_by_path t) p v = (v, revs)"
      by (auto simp: setdefault_def)
    show thesis
    proof (cases raw)
      case None
      then show thesis
        using assms old plain by (auto simp: record_read_def Let_def read_entry_def sd)
    next
      case (Some b)
      then show thesis
        using assms old bytes matches
        by (subst (asm) record_read_def) (auto simp: Let_def read_entry_def setdefault_def split: prod.splits option.splits if_splits)
    qed
  qed
qed

lemma setdefault_snd:
  "map_of (snd (setdefault d k v)) p = (case map_of d p of Some x \<Rightarrow> Some x | None \<Rightarrow> if p = k then Some v else None)"
  by (auto simp: setdefault_def map_add_def split: option.splits)

lemma recorded_ok:
  assumes "trace_ok sha t" "map_of revs = first_revision (records t @ [read_entry p v t])"
    "raws_ok sha (records t @ [read_entry p v t]) raws"
  shows "trace_ok sha (t\<lparr>records := records t @ [read_entry p v t], revisions_by_path := revs, raw_bytes_by_path := raws\<rparr>)"
  using assms by (auto simp: trace_ok_def read_entry_def intro: ordinals_snoc attempts_grow)

lemma revisions_snoc:
  assumes "map_of revs = first_revision rs"
  shows "map_of (snd (setdefault revs (read_path r) (read_revision r))) = first_revision (rs @ [r])"
  by (rule ext) (auto simp: setdefault_snd first_revision_snoc assms split: option.splits)

lemma record_ok:
  assumes ok: "trace_ok sha t" and rec: "record_read sha p v raw t = (r, t')"
  shows "trace_ok sha t'"
proof -
  let ?r = "read_entry p v t"
  have revs: "map_of (revisions_by_path t) = first_revision (records t)"
    and raws: "raws_ok sha (records t) (raw_bytes_by_path t)" using ok by (simp_all add: trace_ok_def)
  have new: "map_of (snd (setdefault (revisions_by_path t) p v)) = first_revision (records t @ [?r])"
    using revisions_snoc [OF revs, of ?r] by (simp add: read_entry_def)
  from rec show ?thesis
  proof (cases rule: record_cases)
    case mismatch
    then show ?thesis using ok by simp
  next
    case (conflict w)
    then have "snd (setdefault (revisions_by_path t) p v) = revisions_by_path t" by (simp add: setdefault_def)
    then show ?thesis using recorded_ok [OF ok _ raws_snoc [OF raws], of "revisions_by_path t" p v] new conflict(4) by simp
  next
    case plain
    then show ?thesis using recorded_ok [OF ok new raws_snoc [OF raws]] by simp
  next
    case (bytes b)
    then have "first_revision (records t @ [?r]) p = Some (sha256_revision sha b)"
      using revs by (auto simp: first_revision_snoc read_entry_def split: option.splits)
    then have "raws_ok sha (records t @ [?r]) (snd (setdefault (raw_bytes_by_path t) p b))"
      using raws_snoc [OF raws, of ?r] unfolding raws_ok_def by (auto simp: setdefault_snd split: option.splits if_splits)
    then show ?thesis using recorded_ok [OF ok new] bytes(5) by simp
  qed
qed

lemma reachable_ok: "reachable_trace sha real t \<Longrightarrow> trace_ok sha t"
proof (induction rule: reachable_trace.induct)
  case trace_new
  show ?case by (simp add: trace_ok_def new_trace_def ordinals_ok_def raws_ok_def attempts_ok_def first_revision_def fun_eq_iff)
next
  case (trace_next t t')
  from trace_next(2,3) show ?case by (cases rule: trace_step.cases) (auto intro: begin_ok complete_ok record_ok)
qed

section \<open>Conflicts\<close>

definition conflicting :: "SourceReadRecord list \<Rightarrow> string set" where
  "conflicting rs = {read_path r | r. r \<in> set rs \<and> first_revision rs (read_path r) \<noteq> Some (read_revision r)}"

lemma first_revision_mem: "r \<in> set rs \<Longrightarrow> first_revision rs (read_path r) \<noteq> None"
  by (auto simp: first_revision_def find_None_iff)

lemma conflicting_snoc:
  "conflicting (rs @ [r]) = conflicting rs \<union>
     (if first_revision (rs @ [r]) (read_path r) = Some (read_revision r) then {} else {read_path r})"
proof -
  have "first_revision (rs @ [r]) (read_path x) = first_revision rs (read_path x)" if "x \<in> set rs" for x
    using first_revision_mem [OF that] by (auto simp: first_revision_snoc)
  then show ?thesis unfolding conflicting_def by auto
qed

lemma conflicts_from_set:
  "map_of first = first_revision rs0 \<Longrightarrow> set conflicts = conflicting rs0 \<Longrightarrow>
    set (conflicts_from rs first conflicts) = conflicting (rs0 @ rs)"
proof (induction rs arbitrary: rs0 first conflicts)
  case (Cons r rs)
  obtain v first' where sd: "setdefault first (read_path r) (read_revision r) = (v, first')" by fastforce
  have first': "map_of first' = first_revision (rs0 @ [r])" using revisions_snoc [OF Cons.prems(1), of r] sd by simp
  have "first_revision (rs0 @ [r]) (read_path r) = Some v"
    using sd Cons.prems(1) by (auto simp: setdefault_def first_revision_snoc split: option.splits)
  then have "set (if v \<noteq> read_revision r \<and> read_path r \<notin> set conflicts then conflicts @ [read_path r] else conflicts)
      = conflicting (rs0 @ [r])"
    using Cons.prems(2) by (auto simp: conflicting_snoc)
  from Cons.IH [OF first' this] show ?case by (simp add: sd)
qed simp

lemma conflict_paths_set: "set (revision_conflict_paths t) = conflicting (records t)"
  unfolding revision_conflict_paths_def
  using conflicts_from_set [of "[]" "[]" "[]" "records t"]
  by (simp add: conflicting_def first_revision_def fun_eq_iff)

section \<open>Properties\<close>

text \<open>
  C39: in every trace that reads and attempts can produce, refused ones included, ordinals number
  the records, the stored revision of a path is that of its first read, stored bytes have that
  revision as their digest, and every attempt starts and completes within the records.
\<close>

theorem trace_invariant:
  assumes "reachable_trace sha real t"
  shows "ordinals_ok (records t) \<and> map_of (revisions_by_path t) = first_revision (records t)
    \<and> raws_ok sha (records t) (raw_bytes_by_path t) \<and> attempts_ok (length (records t)) (attempts t)"
  using reachable_ok [OF assms] by (simp add: trace_ok_def)

theorem trace_invariant_witness:
  "raws_ok (\<lambda>b. b) (records (snd (record_read (\<lambda>b. b) ''m'' ''sha256:x'' (Some ''x'') new_trace)))
     (raw_bytes_by_path (snd (record_read (\<lambda>b. b) ''m'' ''sha256:x'' (Some ''x'') new_trace)))"
proof -
  have "reachable_trace (\<lambda>b. b) (\<lambda>p. p) (snd (record_read (\<lambda>b. b) ''m'' ''sha256:x'' (Some ''x'') new_trace))"
    by (rule trace_next [OF trace_new]) (rule step_record [OF prod.collapse [symmetric]])
  from trace_invariant [OF this] show ?thesis by blast
qed

text \<open>
  C40: fail closed: a read is refused exactly when its path was read before under another revision
  (provided the digest of its bytes does not collide with that of the stored ones); a refused revision is listed as a conflict, and an
  accepted read adds none.
\<close>

theorem record_fails_closed:
  assumes "reachable_trace sha real t" "record_read sha path revision raw t = (r, t')"
    "\<forall>b. raw = Some b \<longrightarrow> revision = sha256_revision sha b"
    "\<forall>b b'. raw = Some b \<and> map_of (raw_bytes_by_path t) path = Some b' \<and> sha b = sha b' \<longrightarrow> b = b'"
  shows "(r = Inl (RuntimeError ''changed'')) = (\<exists>w. first_revision (records t) path = Some w \<and> w \<noteq> revision)
    \<and> set (revision_conflict_paths t') = set (revision_conflict_paths t) \<union> (if r = Inl (RuntimeError ''changed'') then {path} else {})
    \<and> records t' = records t @ [read_entry path revision t]"
proof -
  have ok: "trace_ok sha t" using reachable_ok [OF assms(1)] .
  then have revs: "map_of (revisions_by_path t) = first_revision (records t)"
    and raws: "raws_ok sha (records t) (raw_bytes_by_path t)" by (simp_all add: trace_ok_def)
  have snoc: "conflicting (records t @ [read_entry path revision t]) = conflicting (records t)
      \<union> (if \<exists>w. first_revision (records t) path = Some w \<and> w \<noteq> revision then {path} else {})"
    by (auto simp: conflicting_snoc first_revision_snoc read_entry_def split: option.splits)
  from assms(2) show ?thesis
  proof (cases rule: record_cases)
    case (mismatch b)
    then show ?thesis using assms(3) by simp
  next
    case (conflict w)
    then show ?thesis using revs snoc by (simp add: conflict_paths_set)
  next
    case plain
    then show ?thesis using revs snoc by (auto simp: conflict_paths_set)
  next
    case (bytes b)
    have "b' = b" if b': "map_of (raw_bytes_by_path t) path = Some b'" for b'
    proof -
      have "first_revision (records t) path = Some (sha256_revision sha b')" using raws b' unfolding raws_ok_def by simp
      then have "sha256_revision sha b = sha256_revision sha b'" using bytes(1,3) revs by auto
      then have "sha b = sha b'" unfolding sha256_revision_def by (rule same_append_eq [THEN iffD1])
      then show ?thesis using assms(4) bytes(2) b' by blast
    qed
    then have "r = Inr (read_entry path revision t)" using bytes(4) by (auto split: option.splits)
    then show ?thesis using bytes revs snoc by (auto simp: conflict_paths_set)
  qed
qed

theorem record_fails_closed_witness:
  "set (revision_conflict_paths (snd (record_read (\<lambda>b. b) ''m'' ''missing'' None
      (snd (record_read (\<lambda>b. b) ''m'' ''sha256:x'' (Some ''x'') new_trace))))) = {''m''}"
proof -
  let ?t = "snd (record_read (\<lambda>b. b) ''m'' ''sha256:x'' (Some ''x'') new_trace)"
  have reach: "reachable_trace (\<lambda>b. b) (\<lambda>p. p) ?t"
    by (rule trace_next [OF trace_new]) (rule step_record [OF prod.collapse [symmetric]])
  have fst: "fst (record_read (\<lambda>b. b) ''m'' ''missing'' None ?t) = Inl (RuntimeError ''changed'')" by code_simp
  have none: "revision_conflict_paths ?t = []" by code_simp
  show ?thesis
    using record_fails_closed [OF reach prod.collapse [symmetric], where path = "''m''" and revision = "''missing''" and raw = None]
    by (simp add: fst none)
qed

end
