(* ===== verification/JsonAscii.thy ===== *)
theory JsonAscii
  imports FileSystem
begin

text \<open>
  \<open>json.dumps(value, indent=2)\<close> with the default \<open>ensure_ascii\<close>: every character outside printable
  ASCII is written as \<open>\uXXXX\<close>, characters above \<open>U+FFFF\<close> as a surrogate pair. A string is the list
  of its UTF-8 bytes, so the encoder works on the code points these bytes denote. Text written
  this way reads back as the value it was made from when every string in it is well-formed
  UTF-8 of characters; the text itself is ASCII, so the encoding a reader assumes does not matter.
\<close>

section \<open>Code points\<close>

text \<open>The code point at the start of a text; a byte that starts none stands for itself.\<close>

definition trail :: "string \<Rightarrow> nat \<Rightarrow> nat" where
  "trail s i = (if i < length s then of_char (s ! i) mod 64 else 0)"

definition lead_point :: "string \<Rightarrow> nat" where
  "lead_point s = (let n = of_char (hd s) in
     if n < 192 then n
     else if n < 224 then n mod 32 * 64 + trail s 1
     else if n < 240 then n mod 16 * 4096 + trail s 1 * 64 + trail s 2
     else n mod 8 * 262144 + trail s 1 * 4096 + trail s 2 * 64 + trail s 3)"

lemma utf8_nonempty [simp]: "utf8 n \<noteq> []"
  by (simp add: utf8_def)

function json_points :: "string \<Rightarrow> nat list" where
  "json_points s =
     (if s = [] then []
      else let p = lead_point s; n = length (utf8 p) in
        if take n s = utf8 p then p # json_points (drop n s) else of_char (hd s) # json_points (tl s))"
  by pat_completeness auto
termination
  by (relation "measure length") (simp_all add: diff_less)

declare json_points.simps [simp del]

text \<open>A character: a code point that is not half of a surrogate pair.\<close>

definition scalar :: "nat \<Rightarrow> bool" where
  "scalar n \<longleftrightarrow> n < 1114112 \<and> \<not> (55296 \<le> n \<and> n \<le> 57343)"

definition well_formed :: "string \<Rightarrow> bool" where
  "well_formed s \<longleftrightarrow> concat (map utf8 (json_points s)) = s \<and> list_all scalar (json_points s)"

section \<open>The encoder\<close>

definition hex_escape :: "nat \<Rightarrow> string" where
  "hex_escape n = [CHR 0x5C, CHR ''u'', hex_char (n div 4096), hex_char (n div 256 mod 16),
     hex_char (n div 16 mod 16), hex_char (n mod 16)]"

definition esc_point :: "nat \<Rightarrow> string" where
  "esc_point n =
     (if n < 127 then esc_char (char_of n)
      else if n < 65536 then hex_escape n
      else hex_escape (55296 + (n - 65536) div 1024) @ hex_escape (56320 + (n - 65536) mod 1024))"

definition ascii_body :: "string \<Rightarrow> string" where
  "ascii_body s = concat (map esc_point (json_points s)) @ [CHR 0x22]"

definition json_dumps_ascii :: "pyval \<Rightarrow> string" where
  "json_dumps_ascii v =
     render (\<lambda>s. CHR 0x22 # ascii_body s) (\<lambda>l. CHR 0x0A # replicate (2 * l) (CHR 0x20)) '': '' 0 (plain v)"

section \<open>Reading back\<close>

lemma hex4_digits:
  "n < 65536 \<Longrightarrow> hex4 (hex_char (n div 4096) # hex_char (n div 256 mod 16) # hex_char (n div 16 mod 16) #
     hex_char (n mod 16) # r) = Some (n, r)"
proof -
  assume "n < 65536"
  then have "n div 4096 < 16" by simp
  moreover have "4096 * (n div 4096) + 256 * (n div 256 mod 16) + 16 * (n div 16 mod 16) + n mod 16 = n"
  proof -
    have "n div 256 = n div 16 div 16" "n div 4096 = n div 256 div 16" by (simp_all flip: div_mult2_eq)
    then show ?thesis
      using mult_div_mod_eq [of 16 n] mult_div_mod_eq [of 16 "n div 16"] mult_div_mod_eq [of 16 "n div 256"]
      by linarith
  qed
  ultimately show ?thesis by (simp add: hex_val_hex_char)
qed

lemma scan_unicode:
  "unicode_escape t = Some (u, r) \<Longrightarrow>
     scan_str (CHR 0x5C # CHR ''u'' # t) = map_option (\<lambda>(v, q). (u @ v, q)) (scan_str r)"
  by (subst scan_str.simps) simp

lemma scan_point:
  assumes "scalar n"
  shows "scan_str (esc_point n @ r) = map_option (\<lambda>(v, q). (utf8 n @ v, q)) (scan_str r)"
proof -
  consider "n < 127" | "127 \<le> n" "n < 65536" | "65536 \<le> n" by linarith
  then show ?thesis
  proof cases
    case 1
    then show ?thesis using scan_str_esc [of "char_of n" r] by (simp add: esc_point_def utf8_def)
  next
    case 2
    have "unicode_escape (hex_char (n div 4096) # hex_char (n div 256 mod 16) # hex_char (n div 16 mod 16) #
        hex_char (n mod 16) # r) = Some (utf8 n, r)"
      unfolding unicode_escape_def hex4_digits [OF 2(2)] using assms by (auto simp: scalar_def)
    from scan_unicode [OF this] 2 show ?thesis by (simp add: esc_point_def hex_escape_def)
  next
    case 3
    let ?h = "55296 + (n - 65536) div 1024" and ?l = "56320 + (n - 65536) mod 1024"
    have h: "?h < 65536" "55296 \<le> ?h" "?h \<le> 56319" using assms 3 by (auto simp: scalar_def)
    have l: "?l < 65536" "56320 \<le> ?l" "?l \<le> 57343" by auto
    have n: "65536 + (?h - 55296) * 1024 + (?l - 56320) = n" using 3 by simp
    have "unicode_escape (drop 2 (hex_escape ?h) @ hex_escape ?l @ r) = Some (utf8 n, r)"
      unfolding unicode_escape_def hex_escape_def using h l n
      by (simp only: drop_Suc_Cons drop_0 numeral_2_eq_2 append_Cons append_Nil hex4_digits option.case prod.case
          take_Suc_Cons take_0 simp_thms if_True)
    from scan_unicode [OF this] 3 show ?thesis by (simp add: esc_point_def hex_escape_def)
  qed
qed

lemma scan_points:
  "list_all scalar ps \<Longrightarrow> scan_str (concat (map esc_point ps) @ CHR 0x22 # r) = Some (concat (map utf8 ps), r)"
proof (induction ps)
  case Nil
  show ?case by (subst scan_str.simps) simp
next
  case (Cons p ps)
  then show ?case by (simp add: scan_point)
qed

interpretation ascii: layout ascii_body well_formed "\<lambda>l. CHR 0x0A # replicate (2 * l) (CHR 0x20)" "[CHR 0x20]"
  by unfold_locales
    (auto simp: all_ws_def ws_char_def list_all_iff ascii_body_def scan_points well_formed_def)

lemma loads_dumps_ascii:
  "json_value v \<Longrightarrow> texts well_formed v \<Longrightarrow> json_loads (json_dumps_ascii v) = Inr v"
  using ascii.loads_text [of v "[]" 0] by (simp add: json_dumps_ascii_def all_ws_def)

section \<open>The text is ASCII\<close>

definition all_ascii :: "string \<Rightarrow> bool" where
  "all_ascii s \<longleftrightarrow> list_all (\<lambda>c. (of_char c :: nat) < 128) s"

lemma all_ascii_simps [simp]:
  "all_ascii []" "all_ascii (c # s) \<longleftrightarrow> (of_char c :: nat) < 128 \<and> all_ascii s" "all_ascii (s @ t) \<longleftrightarrow> all_ascii s \<and> all_ascii t"
  by (simp_all add: all_ascii_def)

lemma ascii_concat: "(\<And>x. x \<in> set xs \<Longrightarrow> all_ascii (f x)) \<Longrightarrow> all_ascii (concat (map f xs))"
  by (induction xs) auto

lemma hex_char_small: "n < 16 \<Longrightarrow> (of_char (hex_char n) :: nat) < 128"
proof -
  assume "n < 16"
  then have n: "n \<in> set [0..<16]" by simp
  have "list_all (\<lambda>n. (of_char (hex_char n) :: nat) < 128) [0..<16]" by code_simp
  from bspec [OF this [unfolded list_all_iff] n] show ?thesis .
qed

lemma ascii_hex: "n < 65536 \<Longrightarrow> all_ascii (hex_escape n)"
  by (simp add: hex_escape_def hex_char_small)

lemma ascii_esc_char: "(of_char c :: nat) < 128 \<Longrightarrow> all_ascii (esc_char c)"
  by (auto simp: esc_char_def hex_char_small)

lemma point_ascii: "scalar n \<Longrightarrow> all_ascii (esc_point n)"
  by (auto simp: esc_point_def scalar_def intro!: ascii_hex ascii_esc_char)

lemma ascii_body_ascii: "well_formed s \<Longrightarrow> all_ascii (ascii_body s)"
  by (auto simp: ascii_body_def well_formed_def list_all_iff intro!: ascii_concat point_ascii)

lemma ascii_digits: "all_ascii (nat_repr n)"
proof -
  have "is_digit c \<Longrightarrow> (of_char c :: nat) < 128" for c unfolding is_digit_def by (simp, elim disjE) simp_all
  then show ?thesis using nat_repr_digits [of n] by (simp add: all_ascii_def list_all_iff)
qed

lemma ascii_int: "all_ascii (int_repr i)"
  by (simp add: int_repr_def ascii_digits)

lemma utf8_points_ascii: "all_ascii s \<Longrightarrow> json_points s = map of_char s"
proof (induction s)
  case (Cons c s)
  then have c: "(of_char c :: nat) < 128" by simp
  then have "lead_point (c # s) = of_char c" "utf8 (of_char c) = [c]" by (simp_all add: lead_point_def utf8_def)
  with Cons show ?case by (subst json_points.simps) simp
qed (simp add: json_points.simps)

lemma ascii_well_formed: "all_ascii s \<Longrightarrow> well_formed s"
proof -
  assume a: "all_ascii s"
  then have "concat (map (\<lambda>c. utf8 (of_char c)) s) = s"
    by (induction s) (simp_all add: utf8_def)
  with a show ?thesis
    by (auto simp: well_formed_def utf8_points_ascii comp_def scalar_def all_ascii_def list_all_iff)
qed

end
