(* ===== verification/ProviderAttempts.thy ===== *)
theory ProviderAttempts
  imports JsonAscii
begin

text \<open>
  The identity of provider attempts, \<open>workflow/provider_attempts.py\<close>: scopes with their dict form
  and digest key, the member-turn qualifier that packs three values into a step id through
  URL-safe base64, and the validation of the allocation table. The scalar checks of
  \<open>_common/validation.py\<close> and \<open>ResumeScopePath\<close> of \<open>workflow/resume_projection_integrity.py\<close> are here
  too. SHA-256 is the argument \<open>sha\<close>.
\<close>

section \<open>Scalar checks\<close>

definition closed_mapping :: "pyval \<Rightarrow> string list \<Rightarrow> exc + pydict" where
  "closed_mapping v keys = (case v of
      PDict kv \<Rightarrow> if set (map fst kv) = set keys then Inr kv else Inl ValueError
    | _ \<Rightarrow> Inl ValueError)"

definition nonempty_string :: "pyval \<Rightarrow> exc + string" where
  "nonempty_string v = (case v of PStr s \<Rightarrow> if s = [] then Inl ValueError else Inr s | _ \<Rightarrow> Inl ValueError)"

definition ordinary_integer :: "pyval \<Rightarrow> int \<Rightarrow> exc + int" where
  "ordinary_integer v minimum = (case v of
      PInt i \<Rightarrow> if i < minimum then Inl ValueError else Inr i | _ \<Rightarrow> Inl ValueError)"

section \<open>URL-safe base64\<close>

definition b64_alphabet :: string where
  "b64_alphabet = ''ABCDEFGHIJKLMNOPQRSTUVWXYZabcdefghijklmnopqrstuvwxyz0123456789-_''"

fun b64_groups :: "nat list \<Rightarrow> nat list" where
  "b64_groups (a # b # c # r) =
     (a div 4) # (a mod 4 * 16 + b div 16) # (b mod 16 * 4 + c div 64) # (c mod 64) # b64_groups r"
| "b64_groups [a, b] = [a div 4, a mod 4 * 16 + b div 16, b mod 16 * 4]"
| "b64_groups [a] = [a div 4, a mod 4 * 16]"
| "b64_groups [] = []"

fun b64_bytes :: "nat list \<Rightarrow> nat list option" where
  "b64_bytes (x # y # z # w # r) = map_option (\<lambda>bs.
     (x * 4 + y div 16) # (y mod 16 * 16 + z div 4) # (z mod 4 * 64 + w) # bs) (b64_bytes r)"
| "b64_bytes [x, y, z] = Some [x * 4 + y div 16, y mod 16 * 16 + z div 4]"
| "b64_bytes [x, y] = Some [x * 4 + y div 16]"
| "b64_bytes [x] = None"
| "b64_bytes [] = Some []"

text \<open>\<open>base64.urlsafe_b64encode(...)\<close> without its padding.\<close>

definition b64_encode :: "string \<Rightarrow> string" where
  "b64_encode s = map (\<lambda>n. b64_alphabet ! n) (b64_groups (map of_char s))"

fun index_in :: "'a \<Rightarrow> 'a list \<Rightarrow> nat option" where
  "index_in x [] = None"
| "index_in x (y # ys) = (if x = y then Some 0 else map_option Suc (index_in x ys))"

text \<open>
  \<open>base64.b64decode\<close> of the padded text. The library also accepts some texts that no encoder
  writes; the caller discards those, because encoding the result again does not give the text.
\<close>

definition b64_decode :: "string \<Rightarrow> string option" where
  "b64_decode s = (let ns = map (\<lambda>c. index_in c b64_alphabet) s in
     if None \<in> set ns then None else map_option (map char_of) (b64_bytes (map the ns)))"

section \<open>Member-turn qualifiers\<close>

text \<open>\<open>json.dumps(v, ensure_ascii=True, sort_keys=True, separators=(",", ":"))\<close>\<close>

definition canonical_ascii :: "pyval \<Rightarrow> string" where
  "canonical_ascii v = render (\<lambda>s. CHR 0x22 # ascii_body s) (\<lambda>_. []) '':'' 0 (plain (sort_val v))"

definition MEMBER_TURN_RUNTIME_STEP_PREFIX :: string where
  "MEMBER_TURN_RUNTIME_STEP_PREFIX = ''provider_attempt_member_turn.v1:''"

definition member_turn_payload :: "string \<Rightarrow> string \<Rightarrow> int \<Rightarrow> pyval" where
  "member_turn_payload runtime_step_id member_id turn_ordinal =
     PDict [(''member_id'', PStr member_id), (''runtime_step_id'', PStr runtime_step_id), (''turn_ordinal'', PInt turn_ordinal)]"

definition encode_member_turn_runtime_step_id :: "string \<Rightarrow> string \<Rightarrow> int \<Rightarrow> string" where
  "encode_member_turn_runtime_step_id runtime_step_id member_id turn_ordinal =
     MEMBER_TURN_RUNTIME_STEP_PREFIX @ b64_encode (canonical_ascii (member_turn_payload runtime_step_id member_id turn_ordinal))"

text \<open>The fields of a qualified id; \<open>None\<close> where the code returns the id unqualified.\<close>

definition member_turn_node :: "string \<Rightarrow> exc + string \<times> string \<times> int" where
  "member_turn_node encoded = (case b64_decode encoded of
      None \<Rightarrow> Inl ValueError
    | Some decoded \<Rightarrow>
        rbind (require (list_all (\<lambda>c. (of_char c :: nat) < 128) decoded) ValueError) (\<lambda>_.
        rbind (json_loads decoded) (\<lambda>payload.
        rbind (closed_mapping payload [''member_id'', ''runtime_step_id'', ''turn_ordinal'']) (\<lambda>node.
        rbind (nonempty_string (dget node ''runtime_step_id'')) (\<lambda>runtime_step_id.
        rbind (nonempty_string (dget node ''member_id'')) (\<lambda>member_id.
        rbind (ordinary_integer (dget node ''turn_ordinal'') 0) (\<lambda>turn_ordinal.
        Inr (runtime_step_id, member_id, turn_ordinal))))))))"

definition member_turn_fields :: "string \<Rightarrow> (string \<times> string \<times> int) option" where
  "member_turn_fields value =
     (let n = length MEMBER_TURN_RUNTIME_STEP_PREFIX in
      if take n value \<noteq> MEMBER_TURN_RUNTIME_STEP_PREFIX then None
      else (case member_turn_node (drop n value) of
          Inl _ \<Rightarrow> None
        | Inr (rs, m, t) \<Rightarrow>
            if value \<noteq> encode_member_turn_runtime_step_id rs m t then None else Some (rs, m, t)))"

lemma groups_length: "length bs \<le> length (b64_groups bs)"
  by (induction bs rule: b64_groups.induct) auto

lemma esc_point_length: "length (utf8 n) \<le> length (esc_point n)" "0 < length (esc_point n)"
  by (simp_all add: esc_point_def hex_escape_def esc_char_def utf8_def)

lemma ascii_points_length: "length s \<le> length (concat (map esc_point (json_points s)))"
proof (induction s rule: json_points.induct)
  case (1 s)
  let ?p = "lead_point s"
  let ?n = "length (utf8 ?p)"
  consider "s = []" | (point) "s \<noteq> []" "take ?n s = utf8 ?p" | (byte) "s \<noteq> []" "take ?n s \<noteq> utf8 ?p" by blast
  then show ?case
  proof cases
    case point
    then have "length (drop ?n s) \<le> length (concat (map esc_point (json_points (drop ?n s))))"
      using 1(1) by blast
    with point esc_point_length(1) [of ?p] show ?thesis by (subst json_points.simps) (simp add: Let_def)
  next
    case byte
    then have "length (tl s) \<le> length (concat (map esc_point (json_points (tl s))))"
      using 1(2) by blast
    moreover have "length s = Suc (length (tl s))" using byte(1) by (cases s) simp_all
    moreover have "length (concat (map esc_point (json_points s)))
        = length (esc_point (of_char (hd s))) + length (concat (map esc_point (json_points (tl s))))"
      using byte by (subst json_points.simps) (simp add: Let_def)
    moreover note esc_point_length(2) [of "of_char (hd s)"]
    ultimately show ?thesis by linarith
  qed simp
qed

lemma member_turn_longer:
  "member_turn_fields value = Some (rs, m, t) \<Longrightarrow> length rs < length value"
proof -
  assume "member_turn_fields value = Some (rs, m, t)"
  then have v: "value = encode_member_turn_runtime_step_id rs m t"
    by (auto simp: member_turn_fields_def Let_def split: if_splits sum.splits)
  have "length rs \<le> length (ascii_body rs)"
    using ascii_points_length [of rs] by (simp add: ascii_body_def)
  also have "\<dots> \<le> length (canonical_ascii (member_turn_payload rs m t))"
    by (simp add: canonical_ascii_def member_turn_payload_def sort_key_def)
  also have "\<dots> \<le> length (b64_encode (canonical_ascii (member_turn_payload rs m t)))"
    unfolding b64_encode_def length_map
    by (metis groups_length length_map)
  also have "\<dots> < length value"
    unfolding v by (simp add: encode_member_turn_runtime_step_id_def MEMBER_TURN_RUNTIME_STEP_PREFIX_def)
  finally show ?thesis .
qed

function decode_member_turn_runtime_step_id :: "string \<Rightarrow> exc + string \<times> (string \<times> int) option" where
  "decode_member_turn_runtime_step_id value = (case member_turn_fields value of
      None \<Rightarrow> Inr (value, None)
    | Some (runtime_step_id, member_id, turn_ordinal) \<Rightarrow>
        rbind (decode_member_turn_runtime_step_id runtime_step_id) (\<lambda>(_, nested_qualifier).
        if nested_qualifier \<noteq> None then Inl ValueError
        else Inr (runtime_step_id, Some (member_id, turn_ordinal))))"
  by pat_completeness auto
termination
  by (relation "measure length") (auto dest: member_turn_longer)

declare decode_member_turn_runtime_step_id.simps [simp del]


section \<open>Scopes\<close>

record ResumeScopePath =
  root_workflow_file :: string
  call_frame_ids :: "string list"

record EnclosingStep =
  step_name :: string
  step_id :: string
  visit_count :: int

record LoopIteration =
  loop_kind :: string
  loop_step_id :: string
  iteration :: int

record AdjudicationSubject =
  candidate_id :: string

record ProviderAttemptScope =
  scope_run_id :: string
  resume_scope :: ResumeScopePath
  runtime_step_id :: string
  enclosing_step :: EnclosingStep
  loop_iteration :: "LoopIteration option"
  adjudication_subject :: "AdjudicationSubject option"

text \<open>\<open>__post_init__\<close> of \<open>ResumeScopePath\<close> on a root that is a string already checked by the caller.\<close>

definition make_resume_scope_path :: "string \<Rightarrow> pyval list \<Rightarrow> exc + ResumeScopePath" where
  "make_resume_scope_path root ids =
     (if root = [] \<or> \<not> list_all nonempty_str ids then Inl ValueError
      else Inr \<lparr>root_workflow_file = root, call_frame_ids = map str_of ids\<rparr>)"

definition enclosing_step_from_dict :: "pyval \<Rightarrow> exc + EnclosingStep" where
  "enclosing_step_from_dict v =
     rbind (closed_mapping v [''step_name'', ''step_id'', ''visit_count'']) (\<lambda>node.
     rbind (nonempty_string (dget node ''step_name'')) (\<lambda>n.
     rbind (nonempty_string (dget node ''step_id'')) (\<lambda>i.
     rbind (ordinary_integer (dget node ''visit_count'') 1) (\<lambda>c.
     Inr \<lparr>step_name = n, step_id = i, visit_count = c\<rparr>))))"

definition enclosing_step_to_dict :: "EnclosingStep \<Rightarrow> pyval" where
  "enclosing_step_to_dict e =
     PDict [(''step_name'', PStr (step_name e)), (''step_id'', PStr (step_id e)), (''visit_count'', PInt (visit_count e))]"

definition LOOP_KINDS :: "string list" where
  "LOOP_KINDS = [''for_each'', ''repeat_until'']"

text \<open>\<open>kind not in {...}\<close> raises on an unhashable kind.\<close>

definition loop_iteration_from_dict :: "pyval \<Rightarrow> exc + LoopIteration" where
  "loop_iteration_from_dict v =
     rbind (closed_mapping v [''kind'', ''loop_step_id'', ''iteration'']) (\<lambda>node.
     rbind (require (hashable (dget node ''kind'')) TypeError) (\<lambda>_.
     rbind (require (dget node ''kind'' \<in> set (map PStr LOOP_KINDS)) ValueError) (\<lambda>_.
     rbind (nonempty_string (dget node ''loop_step_id'')) (\<lambda>i.
     rbind (ordinary_integer (dget node ''iteration'') 0) (\<lambda>n.
     Inr \<lparr>loop_kind = str_of (dget node ''kind''), loop_step_id = i, iteration = n\<rparr>)))))"

definition loop_iteration_to_dict :: "LoopIteration \<Rightarrow> pyval" where
  "loop_iteration_to_dict l =
     PDict [(''kind'', PStr (loop_kind l)), (''loop_step_id'', PStr (loop_step_id l)), (''iteration'', PInt (iteration l))]"

definition letter :: "char \<Rightarrow> bool" where
  "letter c \<longleftrightarrow> c \<in> set ''ABCDEFGHIJKLMNOPQRSTUVWXYZabcdefghijklmnopqrstuvwxyz''"

text \<open>\<open>STEP_ID_PATTERN.fullmatch\<close> of \<open>workflow/identity.py\<close>.\<close>

definition step_id_pattern :: "string \<Rightarrow> bool" where
  "step_id_pattern s = (case s of
      [] \<Rightarrow> False
    | c # r \<Rightarrow> letter c \<and> list_all (\<lambda>d. letter d \<or> is_digit d \<or> d = CHR ''_'') r)"

definition adjudication_subject_from_dict :: "pyval \<Rightarrow> exc + AdjudicationSubject" where
  "adjudication_subject_from_dict v =
     rbind (closed_mapping v [''candidate_id'']) (\<lambda>node.
     rbind (nonempty_string (dget node ''candidate_id'')) (\<lambda>c.
     rbind (require (step_id_pattern c) ValueError) (\<lambda>_.
     Inr \<lparr>candidate_id = c\<rparr>)))"

definition adjudication_subject_to_dict :: "AdjudicationSubject \<Rightarrow> pyval" where
  "adjudication_subject_to_dict a = PDict [(''candidate_id'', PStr (candidate_id a))]"

text \<open>\<open>None if node is None else from_dict(node)\<close>, and back.\<close>

definition optional_from :: "(pyval \<Rightarrow> exc + 'a) \<Rightarrow> pyval \<Rightarrow> exc + 'a option" where
  "optional_from f v = (if v = PNone then Inr None else rbind (f v) (\<lambda>x. Inr (Some x)))"

definition optional_to :: "('a \<Rightarrow> pyval) \<Rightarrow> 'a option \<Rightarrow> pyval" where
  "optional_to f x = (case x of None \<Rightarrow> PNone | Some y \<Rightarrow> f y)"

definition resume_scope_from_dict :: "pyval \<Rightarrow> exc + ResumeScopePath" where
  "resume_scope_from_dict v =
     rbind (closed_mapping v [''root_workflow_file'', ''call_frame_ids'']) (\<lambda>node.
     case dget node ''call_frame_ids'' of
       PList ids \<Rightarrow> rbind (nonempty_string (dget node ''root_workflow_file'')) (\<lambda>root. make_resume_scope_path root ids)
     | _ \<Rightarrow> Inl ValueError)"

definition SCOPE_KEYS :: "string list" where
  "SCOPE_KEYS = [''run_id'', ''resume_scope'', ''runtime_step_id'', ''enclosing_step'', ''loop_iteration'', ''adjudication_subject'']"

definition scope_from_dict :: "pyval \<Rightarrow> exc + ProviderAttemptScope" where
  "scope_from_dict v =
     rbind (closed_mapping v SCOPE_KEYS) (\<lambda>node.
     rbind (resume_scope_from_dict (dget node ''resume_scope'')) (\<lambda>path.
     rbind (nonempty_string (dget node ''runtime_step_id'')) (\<lambda>rs.
     rbind (decode_member_turn_runtime_step_id rs) (\<lambda>_.
     rbind (nonempty_string (dget node ''run_id'')) (\<lambda>rid.
     rbind (enclosing_step_from_dict (dget node ''enclosing_step'')) (\<lambda>enc.
     rbind (optional_from loop_iteration_from_dict (dget node ''loop_iteration'')) (\<lambda>lp.
     rbind (optional_from adjudication_subject_from_dict (dget node ''adjudication_subject'')) (\<lambda>adj.
     Inr \<lparr>scope_run_id = rid, resume_scope = path, runtime_step_id = rs, enclosing_step = enc,
       loop_iteration = lp, adjudication_subject = adj\<rparr>))))))))"

definition scope_to_dict :: "ProviderAttemptScope \<Rightarrow> pydict" where
  "scope_to_dict s =
     [(''run_id'', PStr (scope_run_id s)),
      (''resume_scope'', PDict [(''root_workflow_file'', PStr (root_workflow_file (resume_scope s))),
         (''call_frame_ids'', PList (map PStr (call_frame_ids (resume_scope s))))]),
      (''runtime_step_id'', PStr (runtime_step_id s)),
      (''enclosing_step'', enclosing_step_to_dict (enclosing_step s)),
      (''loop_iteration'', optional_to loop_iteration_to_dict (loop_iteration s)),
      (''adjudication_subject'', optional_to adjudication_subject_to_dict (adjudication_subject s))]"

definition canonical_bytes :: "ProviderAttemptScope \<Rightarrow> string" where
  "canonical_bytes s = canonical_ascii (PDict (scope_to_dict s))"

definition scope_key :: "(string \<Rightarrow> string) \<Rightarrow> ProviderAttemptScope \<Rightarrow> string" where
  "scope_key sha s = ''sha256:'' @ sha (canonical_bytes s)"

definition run_independent_site_record :: "ProviderAttemptScope \<Rightarrow> pydict" where
  "run_independent_site_record s =
     (''schema_version'', PStr ''provider_attempt_run_independent_site.v1'') # AList.delete ''run_id'' (scope_to_dict s)"

definition run_independent_site_key :: "(string \<Rightarrow> string) \<Rightarrow> ProviderAttemptScope \<Rightarrow> string" where
  "run_independent_site_key sha s = ''sha256:'' @ sha (canonical_ascii (PDict (run_independent_site_record s)))"

definition derive_provider_attempt_member_turn_scope ::
    "ProviderAttemptScope \<Rightarrow> pyval \<Rightarrow> pyval \<Rightarrow> exc + ProviderAttemptScope" where
  "derive_provider_attempt_member_turn_scope base member_id turn_ordinal =
     rbind (decode_member_turn_runtime_step_id (runtime_step_id base)) (\<lambda>(rs, qualifier).
     rbind (require (qualifier = None) ValueError) (\<lambda>_.
     rbind (nonempty_string member_id) (\<lambda>member.
     rbind (ordinary_integer turn_ordinal 0) (\<lambda>turn.
     scope_from_dict (PDict (AList.update ''runtime_step_id''
       (PStr (encode_member_turn_runtime_step_id rs member turn)) (scope_to_dict base)))))))"

definition derive_provider_peer_group_member_scope ::
    "ProviderAttemptScope \<Rightarrow> pyval \<Rightarrow> exc + ProviderAttemptScope" where
  "derive_provider_peer_group_member_scope base member_id =
     derive_provider_attempt_member_turn_scope base member_id (PInt 0)"


section \<open>The allocation table\<close>

definition PROMPT_FRAGMENT_IDENTITY_SCHEMA_VERSIONS :: "string list" where
  "PROMPT_FRAGMENT_IDENTITY_SCHEMA_VERSIONS =
     [''compiled_prompt_fragment_identity.v1'', ''compiled_prompt_fragment_identity.v2'']"

definition schema_version_ok :: "pyval \<Rightarrow> bool" where
  "schema_version_ok v \<longleftrightarrow> is_str v \<and> str_of v \<in> set PROMPT_FRAGMENT_IDENTITY_SCHEMA_VERSIONS"

text \<open>The variables of the loop over an entry's events.\<close>

record event_scan =
  allocated_ordinals :: "int list"
  published_ordinals :: "int list"
  publication_events :: "(int \<times> pyval) list"
  previous_allocated :: int
  scanned_events :: "pyval list"

definition allocated_event :: "int \<Rightarrow> pyval" where
  "allocated_event n = PDict [(''ordinal'', PInt n), (''event'', PStr ''allocated'')]"

definition scan_allocated :: "pyval \<Rightarrow> event_scan \<Rightarrow> exc + event_scan" where
  "scan_allocated raw st =
     rbind (closed_mapping raw [''ordinal'', ''event'']) (\<lambda>event.
     rbind (ordinary_integer (dget event ''ordinal'') 1) (\<lambda>n.
     if n \<le> previous_allocated st \<or> n \<in> set (allocated_ordinals st) then Inl ValueError
     else Inr (st\<lparr>previous_allocated := n, allocated_ordinals := n # allocated_ordinals st,
       scanned_events := scanned_events st @ [allocated_event n]\<rparr>)))"

definition sha256_text :: "string \<Rightarrow> bool" where
  "sha256_text s \<longleftrightarrow> take 7 s = ''sha256:'' \<and> length s = 71 \<and> list_all (\<lambda>c. c \<in> set ''0123456789abcdef'') (drop 7 s)"

definition scan_publication :: "pyval \<Rightarrow> event_scan \<Rightarrow> exc + event_scan" where
  "scan_publication raw st =
     rbind (closed_mapping raw [''ordinal'', ''event'', ''relative_path'', ''file_sha256'', ''record_kind'']) (\<lambda>event.
     rbind (ordinary_integer (dget event ''ordinal'') 1) (\<lambda>n.
     rbind (require (n \<in> set (allocated_ordinals st) \<and> n \<notin> set (published_ordinals st)) ValueError) (\<lambda>_.
     rbind (nonempty_string (dget event ''relative_path'')) (\<lambda>path.
     rbind (nonempty_string (dget event ''file_sha256'')) (\<lambda>digest.
     rbind (require (sha256_text digest) ValueError) (\<lambda>_.
     rbind (require (hashable (dget event ''record_kind'')) TypeError) (\<lambda>_.
     rbind (require (dget event ''record_kind'' \<in> {PStr ''prompt_snapshot'', PStr ''failure''}) ValueError) (\<lambda>_.
     let publication = PDict [(''ordinal'', PInt n), (''event'', PStr ''evidence_published''), (''relative_path'', PStr path),
           (''file_sha256'', PStr digest), (''record_kind'', dget event ''record_kind'')] in
     Inr (st\<lparr>published_ordinals := n # published_ordinals st,
       publication_events := AList.update n publication (publication_events st),
       scanned_events := scanned_events st @ [publication]\<rparr>)))))))))"

definition scan_event :: "pyval \<Rightarrow> event_scan \<Rightarrow> exc + event_scan" where
  "scan_event raw st =
     (if \<not> is_mapping raw then Inl ValueError
      else if dfield raw ''event'' = PStr ''allocated'' then scan_allocated raw st
      else if dfield raw ''event'' = PStr ''evidence_published'' then scan_publication raw st
      else Inl ValueError)"

definition canonical_events :: "int \<Rightarrow> (int \<times> pyval) list \<Rightarrow> pyval list" where
  "canonical_events final publications = concat (map (\<lambda>n. allocated_event n #
     (case map_of publications n of None \<Rightarrow> [] | Some p \<Rightarrow> [p])) [1..final])"

definition validate_events :: "pyval \<Rightarrow> int \<Rightarrow> exc + unit" where
  "validate_events raw_events final = (case raw_events of
      PList events \<Rightarrow>
        rbind (fold_r scan_event events
          \<lparr>allocated_ordinals = [], published_ordinals = [], publication_events = [], previous_allocated = 0, scanned_events = []\<rparr>) (\<lambda>st.
        rbind (require (set (allocated_ordinals st) = set [1..final]) ValueError) (\<lambda>_.
        require (scanned_events st = canonical_events final (publication_events st)) ValueError))
    | _ \<Rightarrow> Inl ValueError)"

abbreviation version_field :: string where
  "version_field \<equiv> ''prompt_fragment_identity_schema_version''"

abbreviation ordinal_field :: string where
  "ordinal_field \<equiv> ''last_allocated_ordinal''"

definition entry_keys :: "pyval \<Rightarrow> string list" where
  "entry_keys raw = [''scope'', ordinal_field]
     @ (if is_mapping raw \<and> ''events'' \<in> set (map fst (case raw of PDict kv \<Rightarrow> kv | _ \<Rightarrow> [])) then [''events''] else [])
     @ (if is_mapping raw \<and> version_field \<in> set (map fst (case raw of PDict kv \<Rightarrow> kv | _ \<Rightarrow> [])) then [version_field] else [])"

text \<open>\<open>try: from_dict except (TypeError, ValueError): raise ValueError\<close>\<close>

definition as_value_error :: "exc + 'a \<Rightarrow> exc + 'a" where
  "as_value_error r = (case r of Inl e \<Rightarrow> if e \<in> {TypeError, ValueError} then Inl ValueError else Inl e | Inr x \<Rightarrow> Inr x)"

definition normalized_entry :: "ProviderAttemptScope \<Rightarrow> int \<Rightarrow> pyval \<Rightarrow> pyval" where
  "normalized_entry scope final version =
     PDict ([(''scope'', PDict (scope_to_dict scope)), (ordinal_field, PInt final)]
       @ (if version = PNone then [] else [(version_field, version)]))"

definition validate_entry :: "(string \<Rightarrow> string) \<Rightarrow> string \<Rightarrow> pyval \<Rightarrow> exc + pyval" where
  "validate_entry sha key raw =
     rbind (closed_mapping raw (entry_keys raw)) (\<lambda>entry.
     rbind (require (map_of entry version_field = None \<or> schema_version_ok (dget entry version_field)) ValueError) (\<lambda>_.
     rbind (as_value_error (scope_from_dict (dget entry ''scope''))) (\<lambda>scope.
     rbind (require (key = scope_key sha scope) ValueError) (\<lambda>_.
     rbind (ordinary_integer (dget entry ordinal_field) 1) (\<lambda>final.
     rbind (case map_of entry ''events'' of None \<Rightarrow> Inr () | Some events \<Rightarrow> validate_events events final) (\<lambda>_.
     Inr (normalized_entry scope final (dget entry version_field))))))))"

definition validate_provider_attempt_allocations :: "(string \<Rightarrow> string) \<Rightarrow> pyval \<Rightarrow> exc + pydict" where
  "validate_provider_attempt_allocations sha v = (case v of
      PDict kv \<Rightarrow> fold_r (\<lambda>(key, raw) normalized.
        rbind (validate_entry sha key raw) (\<lambda>entry. Inr (AList.update key entry normalized))) kv []
    | _ \<Rightarrow> Inl ValueError)"


section \<open>Decoding inverts encoding\<close>

lemma sixteenths: "b < 256 \<Longrightarrow> b div 16 div 16 = 0 \<and> b div 16 mod 16 = b div 16" for b :: nat
  by (simp add: div_less mod_less)

lemma quarters: "c < 256 \<Longrightarrow> c div 64 div 4 = 0 \<and> c div 64 mod 4 = c div 64" for c :: nat
  by (simp add: div_less mod_less)

lemma groups_bytes: "list_all (\<lambda>n. n < 256) bs \<Longrightarrow> b64_bytes (b64_groups bs) = Some bs"
proof (induction bs rule: b64_groups.induct)
  case (1 a b c r)
  then show ?case using sixteenths [of b] quarters [of c] by simp
next
  case (2 a b)
  then show ?case using sixteenths [of b] by simp
qed simp_all

lemma groups_small: "list_all (\<lambda>n. n < 256) bs \<Longrightarrow> list_all (\<lambda>n. n < 64) (b64_groups bs)"
proof (induction bs rule: b64_groups.induct)
  case (1 a b c r)
  have "a mod 4 \<le> 3" "b mod 16 \<le> 15" by simp_all
  moreover have "a div 4 < 64" "b div 16 < 16" "c div 64 < 4" using 1(2) by auto
  ultimately have "a mod 4 * 16 + b div 16 < 64" "b mod 16 * 4 + c div 64 < 64" by linarith+
  with 1 show ?case by auto
next
  case (2 a b)
  have "a mod 4 \<le> 3" "b mod 16 \<le> 15" by simp_all
  moreover have "b div 16 < 16" using 2 by auto
  ultimately have "a mod 4 * 16 + b div 16 < 64" "b mod 16 * 4 < 64" by linarith+
  with 2 show ?case by auto
next
  case (3 a)
  have "a mod 4 \<le> 3" by simp
  then have "a mod 4 * 16 < 64" by linarith
  with 3 show ?case by auto
qed simp

lemma alphabet_position: "n < 64 \<Longrightarrow> index_in (b64_alphabet ! n) b64_alphabet = Some n"
proof -
  assume "n < 64"
  then have n: "n \<in> set [0..<64]" by simp
  have "list_all (\<lambda>n. index_in (b64_alphabet ! n) b64_alphabet = Some n) [0..<64]" by code_simp
  from bspec [OF this [unfolded list_all_iff] n] show ?thesis .
qed

lemma b64_roundtrip: "b64_decode (b64_encode s) = Some s"
proof -
  let ?bs = "map of_char s :: nat list"
  have bytes: "list_all (\<lambda>n. n < 256) ?bs" by (simp add: list_all_iff)
  have pos: "map (\<lambda>c. index_in c b64_alphabet) (b64_encode s) = map Some (b64_groups ?bs)"
    using groups_small [OF bytes] by (simp add: b64_encode_def list_all_iff alphabet_position)
  show ?thesis unfolding b64_decode_def pos Let_def
    using groups_bytes [OF bytes] by (simp add: comp_def)
qed

interpretation ascii_compact: layout ascii_body well_formed "\<lambda>_. []" "[]"
  by unfold_locales (auto simp: all_ws_def ascii_body_def scan_points well_formed_def)

lemma texts_sort_val: "texts P v \<Longrightarrow> texts P (sort_val v)"
  by (induction v rule: sort_val.induct) (auto simp: list_all_iff)

lemma canonical_ascii_loads:
  "storable v \<Longrightarrow> texts well_formed v \<Longrightarrow> json_loads (canonical_ascii v) = Inr (sort_val v)"
  using ascii_compact.loads_text [of "sort_val v" "[]" 0]
  by (simp add: canonical_ascii_def storable_sorted texts_sort_val all_ws_def)

lemma member_turn_text:
  "canonical_ascii (member_turn_payload rs m t) =
     CHR ''{'' # CHR 0x22 # ascii_body ''member_id'' @ CHR '':'' # CHR 0x22 # ascii_body m @
     CHR '','' # CHR 0x22 # ascii_body ''runtime_step_id'' @ CHR '':'' # CHR 0x22 # ascii_body rs @
     CHR '','' # CHR 0x22 # ascii_body ''turn_ordinal'' @ CHR '':'' # int_repr t @ ''}''"
  by (simp add: canonical_ascii_def member_turn_payload_def)

lemma payload_sorted: "sort_val (member_turn_payload rs m t) = member_turn_payload rs m t"
  by (simp add: member_turn_payload_def)

lemma field_names_ok: "well_formed ''member_id''" "well_formed ''runtime_step_id''" "well_formed ''turn_ordinal''"
  by (simp_all add: ascii_well_formed)

lemma member_turn_fields_encoded:
  assumes "rs \<noteq> []" "m \<noteq> []" "0 \<le> t" "well_formed rs" "well_formed m"
  shows "member_turn_fields (encode_member_turn_runtime_step_id rs m t) = Some (rs, m, t)"
proof -
  let ?v = "member_turn_payload rs m t"
  have "json_loads (canonical_ascii ?v) = Inr ?v"
    using canonical_ascii_loads [of ?v] assms field_names_ok
    by (simp add: payload_sorted) (simp add: member_turn_payload_def)
  moreover have "list_all (\<lambda>c. (of_char c :: nat) < 128) (canonical_ascii ?v)"
    using assms(4,5) field_names_ok
    by (simp add: member_turn_text all_ascii_def [symmetric] ascii_int ascii_body_ascii del: list_all_append)
  ultimately have "member_turn_node (b64_encode (canonical_ascii ?v)) = Inr (rs, m, t)"
    using assms(1-3)
    by (simp add: member_turn_node_def b64_roundtrip)
      (simp add: member_turn_payload_def closed_mapping_def nonempty_string_def ordinary_integer_def insert_commute)
  then show ?thesis by (simp add: member_turn_fields_def encode_member_turn_runtime_step_id_def Let_def)
qed

lemma decode_plain: "member_turn_fields rs = None \<Longrightarrow> decode_member_turn_runtime_step_id rs = Inr (rs, None)"
  by (simp add: decode_member_turn_runtime_step_id.simps [of rs])

lemma decode_qualified:
  "member_turn_fields rs = Some f \<Longrightarrow> decode_member_turn_runtime_step_id rs = Inr (s, q) \<Longrightarrow> q \<noteq> None"
  by (cases f) (auto simp: decode_member_turn_runtime_step_id.simps [of rs] result_simps split: if_splits)

lemma decode_error: "decode_member_turn_runtime_step_id v = Inl e \<Longrightarrow> e = ValueError"
proof (induction v rule: decode_member_turn_runtime_step_id.induct)
  case (1 v)
  show ?case
  proof (cases "member_turn_fields v")
    case None
    with 1(2) show ?thesis by (simp add: decode_plain)
  next
    case (Some f)
    obtain rs m t where f: "f = (rs, m, t)" by (cases f) auto
    with 1(2) Some have "decode_member_turn_runtime_step_id rs = Inl e \<or> e = ValueError"
      by (auto simp: decode_member_turn_runtime_step_id.simps [of v] rbind_Inl_iff split: if_splits)
    then show ?thesis using 1(1) [OF Some f [symmetric] refl] by blast
  qed
qed

section \<open>Scopes round trip\<close>

definition path_ok :: "ResumeScopePath \<Rightarrow> bool" where
  "path_ok p \<longleftrightarrow> root_workflow_file p \<noteq> [] \<and> list_all (\<lambda>s. s \<noteq> []) (call_frame_ids p)"

definition enclosing_ok :: "EnclosingStep \<Rightarrow> bool" where
  "enclosing_ok e \<longleftrightarrow> step_name e \<noteq> [] \<and> step_id e \<noteq> [] \<and> 1 \<le> visit_count e"

definition loop_ok :: "LoopIteration \<Rightarrow> bool" where
  "loop_ok l \<longleftrightarrow> loop_kind l \<in> set LOOP_KINDS \<and> loop_step_id l \<noteq> [] \<and> 0 \<le> iteration l"

definition subject_ok :: "AdjudicationSubject \<Rightarrow> bool" where
  "subject_ok a \<longleftrightarrow> step_id_pattern (candidate_id a)"

definition scope_ok :: "ProviderAttemptScope \<Rightarrow> bool" where
  "scope_ok s \<longleftrightarrow> scope_run_id s \<noteq> [] \<and> path_ok (resume_scope s) \<and> runtime_step_id s \<noteq> []
     \<and> (\<exists>d. decode_member_turn_runtime_step_id (runtime_step_id s) = Inr d)
     \<and> enclosing_ok (enclosing_step s) \<and> pred_option loop_ok (loop_iteration s)
     \<and> pred_option subject_ok (adjudication_subject s)"

lemma checks_iff [result_simps]:
  "nonempty_string v = Inr s \<longleftrightarrow> v = PStr s \<and> s \<noteq> []"
  "ordinary_integer v n = Inr i \<longleftrightarrow> v = PInt i \<and> n \<le> i"
  "closed_mapping v ks = Inr kv \<longleftrightarrow> v = PDict kv \<and> set (map fst kv) = set ks"
  by (auto simp: nonempty_string_def ordinary_integer_def closed_mapping_def split: pyval.splits if_splits)

lemma enclosing_fromD: "enclosing_step_from_dict v = Inr e \<Longrightarrow> enclosing_ok e"
  unfolding enclosing_step_from_dict_def result_simps sum.inject
  by (elim exE conjE, hypsubst, simp add: enclosing_ok_def)

lemma enclosing_dict: "enclosing_ok e \<Longrightarrow> enclosing_step_from_dict (enclosing_step_to_dict e) = Inr e"
  by (simp add: enclosing_step_from_dict_def enclosing_step_to_dict_def enclosing_ok_def result_simps)

lemma loop_fromD: "loop_iteration_from_dict v = Inr l \<Longrightarrow> loop_ok l"
  unfolding loop_iteration_from_dict_def result_simps sum.inject set_map
  by (elim exE conjE imageE, hypsubst, simp add: loop_ok_def)

lemma loop_dict: "loop_ok l \<Longrightarrow> loop_iteration_from_dict (loop_iteration_to_dict l) = Inr l"
  by (simp add: loop_ok_def loop_iteration_from_dict_def loop_iteration_to_dict_def result_simps image_iff)

lemma subject_fromD: "adjudication_subject_from_dict v = Inr a \<Longrightarrow> subject_ok a"
  unfolding adjudication_subject_from_dict_def result_simps sum.inject
  by (elim exE conjE, hypsubst, simp add: subject_ok_def)

lemma subject_dict: "subject_ok a \<Longrightarrow> adjudication_subject_from_dict (adjudication_subject_to_dict a) = Inr a"
  by (cases "candidate_id a") (simp_all add: adjudication_subject_from_dict_def adjudication_subject_to_dict_def
      subject_ok_def result_simps step_id_pattern_def)

definition path_to_dict :: "ResumeScopePath \<Rightarrow> pyval" where
  "path_to_dict p = PDict [(''root_workflow_file'', PStr (root_workflow_file p)),
     (''call_frame_ids'', PList (map PStr (call_frame_ids p)))]"

lemma list_case_Inr: "(case v of PList xs \<Rightarrow> f xs | _ \<Rightarrow> Inl e) = Inr y \<longleftrightarrow> (\<exists>xs. v = PList xs \<and> f xs = Inr y)"
  by (cases v) simp_all

lemma path_fromD: "resume_scope_from_dict v = Inr p \<Longrightarrow> path_ok p"
proof -
  assume "resume_scope_from_dict v = Inr p"
  then obtain node ids root where "nonempty_string (dget node ''root_workflow_file'') = Inr root"
      and "make_resume_scope_path root ids = Inr p"
    unfolding resume_scope_from_dict_def rbind_Inr_iff list_case_Inr by blast
  then show ?thesis
    by (auto simp: make_resume_scope_path_def path_ok_def list_all_iff split: if_splits) (metis nonempty_strE str_simps(17))
qed

lemma path_dict: "path_ok p \<Longrightarrow> resume_scope_from_dict (path_to_dict p) = Inr p"
  by (simp add: resume_scope_from_dict_def path_to_dict_def path_ok_def result_simps make_resume_scope_path_def
      list_all_iff comp_def closed_mapping_def nonempty_string_def)

lemma optional_fromD: "(\<And>v x. f v = Inr x \<Longrightarrow> ok x) \<Longrightarrow> optional_from f v = Inr y \<Longrightarrow> pred_option ok y"
  by (auto simp: optional_from_def result_simps split: if_splits)

lemma optional_dict:
  "(\<And>x. ok x \<Longrightarrow> f (g x) = Inr x) \<Longrightarrow> (\<And>x. g x \<noteq> PNone) \<Longrightarrow> pred_option ok y \<Longrightarrow> optional_from f (optional_to g y) = Inr y"
  by (cases y) (auto simp: optional_from_def optional_to_def)

lemma scope_fromD: "scope_from_dict v = Inr s \<Longrightarrow> scope_ok s"
  unfolding scope_from_dict_def rbind_Inr_iff sum.inject
  by (elim exE conjE, hypsubst)
    (simp add: scope_ok_def checks_iff path_fromD enclosing_fromD optional_fromD [OF loop_fromD] optional_fromD [OF subject_fromD])

lemma scope_dict: "scope_ok s \<Longrightarrow> scope_from_dict (PDict (scope_to_dict s)) = Inr s"
  unfolding scope_ok_def
  by (elim exE conjE)
    (simp add: scope_from_dict_def scope_to_dict_def SCOPE_KEYS_def closed_mapping_def nonempty_string_def
      path_dict [unfolded path_to_dict_def] enclosing_dict optional_dict [OF loop_dict] optional_dict [OF subject_dict]
      loop_iteration_to_dict_def adjudication_subject_to_dict_def)


section \<open>Normal form of the allocation table\<close>

definition entry_ok :: "(string \<Rightarrow> string) \<Rightarrow> string \<Rightarrow> pyval \<Rightarrow> bool" where
  "entry_ok sha key e \<longleftrightarrow> (\<exists>scope n version. e = normalized_entry scope n version \<and> scope_ok scope
     \<and> key = scope_key sha scope \<and> 1 \<le> n \<and> (version = PNone \<or> schema_version_ok version))"

definition table_ok :: "(string \<Rightarrow> string) \<Rightarrow> pydict \<Rightarrow> bool" where
  "table_ok sha kv \<longleftrightarrow> distinct (map fst kv) \<and> list_all (\<lambda>(k, e). entry_ok sha k e) kv"

lemma as_value_error_Inr [result_simps]: "as_value_error r = Inr x \<longleftrightarrow> r = Inr x"
  by (simp add: as_value_error_def split: sum.splits)

lemma validate_entryD: "validate_entry sha key raw = Inr e \<Longrightarrow> entry_ok sha key e"
  unfolding validate_entry_def rbind_Inr_iff as_value_error_Inr require_iff checks_iff sum.inject
proof (elim exE conjE)
  fix entry u scope x n y
  assume v: "map_of entry version_field = None \<or> schema_version_ok (dget entry version_field)"
    and s: "scope_from_dict (dget entry ''scope'') = Inr scope" and k: "key = scope_key sha scope"
    and n: "1 \<le> n" and e: "normalized_entry scope n (dget entry version_field) = e"
  from v have "dget entry version_field = PNone \<or> schema_version_ok (dget entry version_field)"
    by (elim disjE) (simp_all only: dget_none simp_thms)
  with scope_fromD [OF s] k n e show "entry_ok sha key e" unfolding entry_ok_def by metis
qed

lemma entry_dict:
  "entry_ok sha key e \<Longrightarrow> validate_entry sha key e = Inr e"
proof -
  assume "entry_ok sha key e"
  then obtain scope n version where e: "e = normalized_entry scope n version" and s: "scope_ok scope"
      and k: "key = scope_key sha scope" and n: "1 \<le> n" and v: "version = PNone \<or> schema_version_ok version"
    unfolding entry_ok_def by metis
  note from_dict = scope_dict [OF s]
  show ?thesis
  proof (cases "version = PNone")
    case True
    with n k from_dict show ?thesis
      by (simp add: e normalized_entry_def validate_entry_def entry_keys_def closed_mapping_def ordinary_integer_def
          as_value_error_def)
  next
    case False
    with v n k from_dict show ?thesis
      by (simp add: e normalized_entry_def validate_entry_def entry_keys_def closed_mapping_def ordinary_integer_def
          as_value_error_def)
  qed
qed

lemma update_mem: "p \<in> set (AList.update k v al) \<Longrightarrow> p = (k, v) \<or> p \<in> set al"
  by (induction al) (auto split: if_splits)

lemma validated_table:
  assumes "fold_r (\<lambda>(key, raw) normalized. rbind (validate_entry sha key raw) (\<lambda>entry. Inr (AList.update key entry normalized))) kv acc = Inr n"
    and "table_ok sha acc"
  shows "table_ok sha n"
  using assms
proof (induction kv arbitrary: acc)
  case (Cons p kv)
  obtain key raw where p: "p = (key, raw)" by fastforce
  with Cons.prems(1) obtain e where e: "validate_entry sha key raw = Inr e"
      and rest: "fold_r (\<lambda>(key, raw) normalized. rbind (validate_entry sha key raw) (\<lambda>entry. Inr (AList.update key entry normalized)))
        kv (AList.update key e acc) = Inr n"
    by (auto simp: rbind_Inr_iff)
  have "table_ok sha (AList.update key e acc)"
    using Cons.prems(2) validate_entryD [OF e]
    by (auto simp: table_ok_def list_all_iff distinct_update dest!: update_mem)
  from Cons.IH [OF rest this] show ?case .
qed simp

lemma table_fixed:
  assumes "table_ok sha (acc @ kv)"
  shows "fold_r (\<lambda>(key, raw) normalized. rbind (validate_entry sha key raw) (\<lambda>entry. Inr (AList.update key entry normalized))) kv acc
    = Inr (acc @ kv)"
  using assms
proof (induction kv arbitrary: acc)
  case (Cons p kv)
  obtain key e where p: "p = (key, e)" by fastforce
  have "AList.update key e acc = acc @ [(key, e)]"
    using Cons.prems p by (intro update_fresh) (auto simp: table_ok_def)
  with Cons.IH [of "acc @ [(key, e)]"] Cons.prems p show ?case
    by (simp add: table_ok_def entry_dict)
qed simp

text \<open>
  Validating an allocation table gives its normal form: every key is the digest key of its
  scope, every ordinal is positive, and validating the normal form again changes nothing.
\<close>

theorem allocations_normal_form:
  assumes "validate_provider_attempt_allocations sha v = Inr n"
  shows "validate_provider_attempt_allocations sha (PDict n) = Inr n
    \<and> distinct (map fst n) \<and> (\<forall>(key, e) \<in> set n. \<exists>scope m version.
        e = normalized_entry scope m version \<and> scope_ok scope \<and> key = scope_key sha scope \<and> 1 \<le> m)"
proof -
  have "table_ok sha n"
    using assms validated_table [of sha _ "[]" n] unfolding validate_provider_attempt_allocations_def
    by (cases v) (simp_all add: table_ok_def)
  with table_fixed [of sha "[]" n] show ?thesis
    by (auto simp: validate_provider_attempt_allocations_def table_ok_def list_all_iff entry_ok_def) blast
qed

text \<open>
  C15: a member-turn qualifier decodes to the step id, member and turn it was made from; a qualifier
  around a step id that is qualified already is refused.
\<close>

theorem member_turn_roundtrip:
  assumes "rs \<noteq> []" "m \<noteq> []" "0 \<le> t" "well_formed rs" "well_formed m"
  shows "decode_member_turn_runtime_step_id (encode_member_turn_runtime_step_id rs m t) =
    (case member_turn_fields rs of None \<Rightarrow> Inr (rs, Some (m, t)) | Some _ \<Rightarrow> Inl ValueError)"
proof -
  have fields: "member_turn_fields (encode_member_turn_runtime_step_id rs m t) = Some (rs, m, t)"
    by (rule member_turn_fields_encoded [OF assms])
  show ?thesis
  proof (cases "member_turn_fields rs")
    case None
    then show ?thesis
      by (simp add: decode_plain decode_member_turn_runtime_step_id.simps [of "encode_member_turn_runtime_step_id rs m t"] fields)
  next
    case (Some f)
    then show ?thesis
      using decode_error [of rs] decode_qualified [OF Some]
      by (cases "decode_member_turn_runtime_step_id rs")
        (auto simp: decode_member_turn_runtime_step_id.simps [of "encode_member_turn_runtime_step_id rs m t"] fields)
  qed
qed

theorem member_turn_roundtrip_witness:
  "decode_member_turn_runtime_step_id (encode_member_turn_runtime_step_id ''root.review'' ''a'' 2)
     = Inr (''root.review'', Some (''a'', 2))"
proof -
  have plain: "member_turn_fields ''root.review'' = None"
    by (simp add: member_turn_fields_def MEMBER_TURN_RUNTIME_STEP_PREFIX_def)
  show ?thesis
    using member_turn_roundtrip [of "''root.review''" "''a''" 2] by (simp add: ascii_well_formed plain)
qed


definition demo_scope :: ProviderAttemptScope where
  "demo_scope = \<lparr>scope_run_id = ''r1'', resume_scope = \<lparr>root_workflow_file = ''w.yaml'', call_frame_ids = []\<rparr>,
     runtime_step_id = ''root.plan'', enclosing_step = \<lparr>step_name = ''plan'', step_id = ''root.plan'', visit_count = 1\<rparr>,
     loop_iteration = None, adjudication_subject = None\<rparr>"

lemma demo_scope_ok: "scope_ok demo_scope"
proof -
  have "member_turn_fields ''root.plan'' = None"
    by (simp add: member_turn_fields_def MEMBER_TURN_RUNTIME_STEP_PREFIX_def)
  then show ?thesis
    by (simp add: scope_ok_def demo_scope_def path_ok_def enclosing_ok_def decode_plain)
qed

theorem allocations_normal_form_witness:
  "\<exists>scope m version. normalized_entry demo_scope 3 PNone = normalized_entry scope m version
     \<and> scope_ok scope \<and> ''sha256:d'' = scope_key (\<lambda>_. ''d'') scope \<and> 1 \<le> m"
proof -
  let ?t = "[(''sha256:d'', normalized_entry demo_scope 3 PNone)]"
  have "entry_ok (\<lambda>_. ''d'') ''sha256:d'' (normalized_entry demo_scope 3 PNone)"
    unfolding entry_ok_def using demo_scope_ok by (intro exI conjI) (auto simp: scope_key_def)
  then have "validate_provider_attempt_allocations (\<lambda>_. ''d'') (PDict ?t) = Inr ?t"
    by (simp add: validate_provider_attempt_allocations_def entry_dict)
  from allocations_normal_form [OF this] show ?thesis by simp
qed

end
