(* ===== verification/PureReplay.thy ===== *)
theory PureReplay
  imports TypeDescriptor
begin

text \<open>
  Progress of a pure projection visit, the first part of \<open>workflow/pure_result_replay.py\<close>: the
  identity of a visit, the value-free row that records its completion, and the classification of
  a persisted run by its visit counter, cursor and result row. The rest of that module replays
  results over the executable representation and is not modelled.
\<close>

section \<open>Visits\<close>

definition DERIVED_PURE_REPLAY_PROFILE :: string where
  "DERIVED_PURE_REPLAY_PROFILE = ''derived_pure_replay.v1''"

record PureReplayVisitWitness =
  presentation_key :: string
  step_index :: int
  witness_step_id :: string
  witness_visit_count :: int

text \<open>The checks of \<open>__post_init__\<close>.\<close>

definition make_witness :: "pyval \<Rightarrow> pyval \<Rightarrow> pyval \<Rightarrow> pyval \<Rightarrow> exc + PureReplayVisitWitness" where
  "make_witness key index sid count =
     (if \<not> nonempty_str key then Inl ValueError
      else (case index of
          PInt i \<Rightarrow>
            if i < 0 then Inl ValueError
            else if \<not> nonempty_str sid then Inl ValueError
            else (case count of
                PInt c \<Rightarrow> if c \<noteq> 1 then Inl ValueError
                  else Inr \<lparr>presentation_key = str_of key, step_index = i, witness_step_id = str_of sid, witness_visit_count = c\<rparr>
              | _ \<Rightarrow> Inl ValueError)
        | _ \<Rightarrow> Inl ValueError))"

definition completed_outcome :: pyval where
  "completed_outcome = PDict [(''status'', PStr ''completed''), (''phase'', PStr ''execution''),
     (''class'', PStr ''completed''), (''retryable'', PBool False)]"

definition build_pure_completion_shell :: "PureReplayVisitWitness \<Rightarrow> pydict" where
  "build_pure_completion_shell w =
     [(''name'', PStr (presentation_key w)), (''step_id'', PStr (witness_step_id w)),
      (''visit_count'', PInt (witness_visit_count w)), (''status'', PStr ''completed''), (''exit_code'', PInt 0),
      (''outcome'', completed_outcome), (''result_storage'', PStr DERIVED_PURE_REPLAY_PROFILE)]"

definition PURE_COMPLETION_SHELL_KEYS :: "string list" where
  "PURE_COMPLETION_SHELL_KEYS =
     [''name'', ''step_id'', ''visit_count'', ''status'', ''exit_code'', ''outcome'', ''result_storage'']"

definition PURE_RUNNING_CURSOR_KEYS :: "string list" where
  "PURE_RUNNING_CURSOR_KEYS =
     [''name'', ''index'', ''type'', ''status'', ''started_at'', ''last_heartbeat_at'', ''step_id'', ''visit_count'']"

text \<open>Comparison without Python's equality of \<open>bool\<close> and \<open>int\<close>: the types have to be the same.\<close>

function same_json_shape_and_value :: "pyval \<Rightarrow> pyval \<Rightarrow> bool" where
  "same_json_shape_and_value v w =
     (case (v, w) of
        (PDict kv, PDict kw) \<Rightarrow> set (map fst kv) = set (map fst kw) \<and>
          list_all (\<lambda>(k, x). same_json_shape_and_value x (dget kw k)) kv
      | (PList xs, PList ys) \<Rightarrow> length xs = length ys \<and> list_all (\<lambda>(x, y). same_json_shape_and_value x y) (zip xs ys)
      | (PTuple xs, PTuple ys) \<Rightarrow> length xs = length ys \<and> list_all (\<lambda>(x, y). same_json_shape_and_value x y) (zip xs ys)
      | (PNone, PNone) \<Rightarrow> True
      | (PBool a, PBool b) \<Rightarrow> a = b
      | (PInt i, PInt j) \<Rightarrow> i = j
      | (PFloat _, PFloat _) \<Rightarrow> py_eq v w
      | (PStr s, PStr t) \<Rightarrow> s = t
      | _ \<Rightarrow> False)"
  by pat_completeness auto
termination
  by (relation "measure (\<lambda>(v, w). size v)")
    (auto dest!: set_zip_leftD size_list_mem size_tuple_mem size_dict_mem)

declare same_json_shape_and_value.simps [simp del]

definition validate_pure_completion_shell :: "pyval \<Rightarrow> PureReplayVisitWitness \<Rightarrow> exc + unit" where
  "validate_pure_completion_shell row w = (case row of
      PDict kv \<Rightarrow>
        if set (map fst kv) \<noteq> set PURE_COMPLETION_SHELL_KEYS then Inl ValueError
        else require (same_json_shape_and_value row (PDict (build_pure_completion_shell w))) ValueError
    | _ \<Rightarrow> Inl ValueError)"

section \<open>Classification\<close>

datatype progress =
    Unstarted
  | Interrupted
  | DerivedComplete
  | DurableFailureSkip
  | DurableRoutedSkip
  | ProgressWitnessInvalid

definition running_cursor_fields :: "PureReplayVisitWitness \<Rightarrow> pydict" where
  "running_cursor_fields w =
     [(''name'', PStr (presentation_key w)), (''index'', PInt (step_index w)), (''type'', PStr ''pure_projection''),
      (''status'', PStr ''running''), (''step_id'', PStr (witness_step_id w)), (''visit_count'', PInt (witness_visit_count w))]"

definition is_matching_running_cursor :: "pyval \<Rightarrow> PureReplayVisitWitness \<Rightarrow> bool" where
  "is_matching_running_cursor cursor w = (case cursor of
      PDict kv \<Rightarrow> set (map fst kv) = set PURE_RUNNING_CURSOR_KEYS
        \<and> list_all (\<lambda>(field, value). same_json_shape_and_value (dget kv field) value) (running_cursor_fields w)
        \<and> nonempty_str (dget kv ''started_at'') \<and> nonempty_str (dget kv ''last_heartbeat_at'')
    | _ \<Rightarrow> False)"

definition cursor_targets_witness :: "pyval \<Rightarrow> PureReplayVisitWitness \<Rightarrow> bool" where
  "cursor_targets_witness cursor w \<longleftrightarrow> is_mapping cursor \<and>
     (dfield cursor ''name'' = PStr (presentation_key w) \<or> dfield cursor ''step_id'' = PStr (witness_step_id w))"

text \<open>\<open>status not in {"failed", "skipped"}\<close> raises on an unhashable status.\<close>

definition is_matching_failure_or_skip :: "pyval \<Rightarrow> PureReplayVisitWitness \<Rightarrow> exc + bool" where
  "is_matching_failure_or_skip row w = (case row of
      PDict kv \<Rightarrow>
        if \<not> hashable (dget kv ''status'') then Inl TypeError
        else Inr (dget kv ''status'' \<in> {PStr ''failed'', PStr ''skipped''}
          \<and> dget kv ''name'' = PStr (presentation_key w) \<and> dget kv ''step_id'' = PStr (witness_step_id w)
          \<and> dget kv ''visit_count'' = PInt (witness_visit_count w))
    | _ \<Rightarrow> Inr False)"

definition skipped_outcome :: pyval where
  "skipped_outcome = PDict [(''status'', PStr ''skipped''), (''phase'', PStr ''pre_execution''),
     (''class'', PStr ''skipped''), (''retryable'', PBool False)]"

definition is_matching_unvisited_routed_skip :: "pyval \<Rightarrow> PureReplayVisitWitness \<Rightarrow> bool" where
  "is_matching_unvisited_routed_skip row w = (case row of
      PDict kv \<Rightarrow> dget kv ''status'' = PStr ''skipped'' \<and> dget kv ''name'' = PStr (presentation_key w)
        \<and> dget kv ''step_id'' = PStr (witness_step_id w) \<and> map_of kv ''visit_count'' = None
        \<and> dget kv ''skipped'' = PBool True \<and> dget kv ''exit_code'' = PInt 0
        \<and> same_json_shape_and_value (dget kv ''outcome'') skipped_outcome
    | _ \<Rightarrow> False)"

definition classify_row :: "pyval \<Rightarrow> PureReplayVisitWitness \<Rightarrow> exc + progress" where
  "classify_row row w = (case validate_pure_completion_shell row w of
      Inr _ \<Rightarrow> Inr DerivedComplete
    | Inl _ \<Rightarrow> rbind (is_matching_failure_or_skip row w) (\<lambda>b.
        Inr (if b then DurableFailureSkip else ProgressWitnessInvalid)))"

definition dget_default :: "pydict \<Rightarrow> string \<Rightarrow> pyval \<Rightarrow> pyval" where
  "dget_default kv k d = (case map_of kv k of None \<Rightarrow> d | Some v \<Rightarrow> v)"

definition classify_pure_replay_progress :: "pydict \<Rightarrow> PureReplayVisitWitness \<Rightarrow> exc + progress" where
  "classify_pure_replay_progress payload w =
     (case (dget_default payload ''step_visits'' (PDict []), dget_default payload ''steps'' (PDict [])) of
        (PDict visits, PDict steps) \<Rightarrow>
          let recorded_visit = dget visits (presentation_key w);
              row = dget steps (presentation_key w);
              cursor = (if cursor_targets_witness (dget payload ''current_step'') w then dget payload ''current_step'' else PNone)
          in if recorded_visit = PNone \<and> cursor = PNone \<and> is_matching_unvisited_routed_skip row w then Inr DurableRoutedSkip
             else if recorded_visit = PNone \<and> cursor = PNone \<and> row = PNone then Inr Unstarted
             else if recorded_visit \<noteq> PInt (witness_visit_count w) then Inr ProgressWitnessInvalid
             else if cursor \<noteq> PNone \<and> row \<noteq> PNone then Inr ProgressWitnessInvalid
             else if cursor \<noteq> PNone then
               Inr (if is_matching_running_cursor cursor w then Interrupted else ProgressWitnessInvalid)
             else if row = PNone then Inr ProgressWitnessInvalid
             else classify_row row w
      | _ \<Rightarrow> Inr ProgressWitnessInvalid)"

section \<open>The three rows a visit writes\<close>

lemma same_json_refl: "all_sub (\<lambda>x. (case x of PFloat _ \<Rightarrow> False | PDict kv \<Rightarrow> distinct (map fst kv) | _ \<Rightarrow> True)) v
    \<Longrightarrow> same_json_shape_and_value v v"
proof (induction v)
  case (PDict kv)
  have "same_json_shape_and_value x (dget kv k)" if "(k, x) \<in> set kv" for k x
  proof -
    from that PDict.prems have "dget kv k = x" by simp
    with that PDict show ?thesis by (auto simp: snds.simps list_all_iff)
  qed
  then show ?case by (auto simp: same_json_shape_and_value.simps [of "PDict kv"] list_all_iff)
next
  case (PList xs)
  then show ?case by (auto simp: same_json_shape_and_value.simps [of "PList xs"] list_all_iff in_set_zip)
next
  case (PTuple xs)
  then show ?case by (auto simp: same_json_shape_and_value.simps [of "PTuple xs"] list_all_iff in_set_zip)
qed (simp_all add: same_json_shape_and_value.simps)

lemma shell_validates: "validate_pure_completion_shell (PDict (build_pure_completion_shell w)) w = Inr ()"
proof -
  have "same_json_shape_and_value (PDict (build_pure_completion_shell w)) (PDict (build_pure_completion_shell w))"
    by (rule same_json_refl) (simp add: build_pure_completion_shell_def completed_outcome_def)
  then show ?thesis
    by (simp add: validate_pure_completion_shell_def)
      (simp add: build_pure_completion_shell_def PURE_COMPLETION_SHELL_KEYS_def)
qed

end
