(* ===== verification/RunState.thy ===== *)
theory RunState
  imports ProviderAttempts PureReplay
begin

text \<open>
  The run document, first part of \<open>orchestrator/state.py\<close>: step results, loop progress and the run
  state with their dict forms, and the operations on a run state that begin and settle a pure
  visit. Attributes hold whatever the JSON document held, as in the source, which checks only a
  few of them; \<open>steps\<close> maps names to step results or to raw JSON values. The main fact is that the
  dict form determines everything a reader sees: a state read back from its dict form has the
  same dict form.
\<close>

section \<open>Step results and loop progress\<close>

record StepResult =
  res_status :: pyval
  res_name :: pyval
  res_step_id :: pyval
  res_exit_code :: pyval
  res_started_at :: pyval
  res_completed_at :: pyval
  res_duration_ms :: pyval
  res_output :: pyval
  res_truncated :: pyval
  res_lines :: pyval
  res_json :: pyval
  res_text :: pyval
  res_error :: pyval
  res_debug :: pyval
  res_artifacts :: pyval
  res_snapshots :: pyval
  res_adjudication :: pyval
  res_managed_jobs :: pyval
  res_skipped :: pyval
  res_files :: pyval
  res_wait_duration_ms :: pyval
  res_poll_count :: pyval
  res_timed_out :: pyval
  res_outcome :: pyval
  res_visit_count :: pyval
  res_run_ref :: pyval
  res_trial :: pyval

definition STEP_RESULT_FIELDS :: "string list" where
  "STEP_RESULT_FIELDS =
     [''status'', ''name'', ''step_id'', ''exit_code'', ''started_at'', ''completed_at'', ''duration_ms'', ''output'', ''truncated'',
      ''lines'', ''json'', ''text'', ''error'', ''debug'', ''artifacts'', ''snapshots'', ''adjudication'', ''managed_jobs'',
      ''skipped'', ''files'', ''wait_duration_ms'', ''poll_count'', ''timed_out'', ''outcome'', ''visit_count'', ''run_ref'', ''trial'']"

definition step_result_fields :: "StepResult \<Rightarrow> pydict" where
  "step_result_fields r =
     [(''status'', res_status r), (''name'', res_name r), (''step_id'', res_step_id r),
     (''exit_code'', res_exit_code r), (''started_at'', res_started_at r),
     (''completed_at'', res_completed_at r), (''duration_ms'', res_duration_ms r),
     (''output'', res_output r), (''truncated'', res_truncated r), (''lines'', res_lines r),
     (''json'', res_json r), (''text'', res_text r), (''error'', res_error r), (''debug'', res_debug r),
     (''artifacts'', res_artifacts r), (''snapshots'', res_snapshots r),
     (''adjudication'', res_adjudication r), (''managed_jobs'', res_managed_jobs r),
     (''skipped'', res_skipped r), (''files'', res_files r), (''wait_duration_ms'', res_wait_duration_ms r),
     (''poll_count'', res_poll_count r), (''timed_out'', res_timed_out r), (''outcome'', res_outcome r),
     (''visit_count'', res_visit_count r), (''run_ref'', res_run_ref r), (''trial'', res_trial r)]"

text \<open>\<open>to_dict\<close>: the attributes that are not \<open>None\<close>.\<close>

definition step_result_to_dict :: "StepResult \<Rightarrow> pydict" where
  "step_result_to_dict r = filter (\<lambda>(k, v). v \<noteq> PNone) (step_result_fields r)"

text \<open>\<open>StepResult(**kv)\<close>: unknown names and a missing status are refused.\<close>

definition make_step_result :: "pydict \<Rightarrow> exc + StepResult" where
  "make_step_result kv =
     (if \<not> set (map fst kv) \<subseteq> set STEP_RESULT_FIELDS \<or> map_of kv ''status'' = None then Inl TypeError
      else Inr \<lparr>res_status = dget kv ''status'', res_name = dget kv ''name'', res_step_id = dget kv ''step_id'',
     res_exit_code = dget kv ''exit_code'', res_started_at = dget kv ''started_at'',
     res_completed_at = dget kv ''completed_at'', res_duration_ms = dget kv ''duration_ms'',
     res_output = dget kv ''output'', res_truncated = dget_default kv ''truncated'' (PBool False),
     res_lines = dget kv ''lines'', res_json = dget kv ''json'', res_text = dget kv ''text'',
     res_error = dget kv ''error'', res_debug = dget kv ''debug'', res_artifacts = dget kv ''artifacts'',
     res_snapshots = dget kv ''snapshots'', res_adjudication = dget kv ''adjudication'',
     res_managed_jobs = dget kv ''managed_jobs'', res_skipped = dget_default kv ''skipped'' (PBool False),
     res_files = dget kv ''files'', res_wait_duration_ms = dget kv ''wait_duration_ms'',
     res_poll_count = dget kv ''poll_count'', res_timed_out = dget kv ''timed_out'',
     res_outcome = dget kv ''outcome'', res_visit_count = dget kv ''visit_count'',
     res_run_ref = dget kv ''run_ref'', res_trial = dget kv ''trial''\<rparr>)"

record ForEachState =
  loop_items :: pyval
  completed_indices :: pyval
  current_index :: pyval

definition for_each_to_dict :: "ForEachState \<Rightarrow> pydict" where
  "for_each_to_dict s =
     [(''items'', loop_items s), (''completed_indices'', completed_indices s), (''current_index'', current_index s)]"

text \<open>\<open>ForEachState(**v)\<close>\<close>

definition make_for_each :: "pyval \<Rightarrow> exc + ForEachState" where
  "make_for_each v = (case v of
      PDict kv \<Rightarrow>
        if \<not> set (map fst kv) \<subseteq> {''items'', ''completed_indices'', ''current_index''} \<or> map_of kv ''items'' = None
        then Inl TypeError
        else Inr \<lparr>loop_items = dget kv ''items'', completed_indices = dget_default kv ''completed_indices'' (PList []),
          current_index = dget kv ''current_index''\<rparr>
    | _ \<Rightarrow> Inl TypeError)"

section \<open>The run state\<close>

datatype step_cell = Result StepResult | Raw pyval

text \<open>The attribute \<open>steps\<close>: a dict, or another value that a malformed document had in its place.\<close>

datatype steps_attr = Steps "(string \<times> step_cell) list" | NotADict pyval

record RunState =
  run_schema_version :: pyval
  run_id :: pyval
  run_workflow_file :: pyval
  run_workflow_checksum :: pyval
  run_started_at :: pyval
  run_updated_at :: pyval
  run_status :: pyval
  run_result_persistence_profile :: pyval
  run_root :: pyval
  run_ref_root :: pyval
  run_context :: pyval
  run_bound_inputs :: pyval
  run_workflow_outputs :: pyval
  run_finalization :: pyval
  run_error :: pyval
  run_observability :: pyval
  run_runtime_observability :: pyval
  run_current_step :: pyval
  run_steps :: steps_attr
  run_for_each :: "(string \<times> ForEachState) list"
  run_repeat_until :: pyval
  run_call_frames :: pyval
  run_artifact_versions :: pyval
  run_artifact_consumes :: pyval
  run_private_artifact_versions :: pyval
  run_private_artifact_consumes :: pyval
  run_transition_count :: pyval
  run_step_visits :: pyval
  run_provider_attempt_allocations :: pyval

definition cell_value :: "step_cell \<Rightarrow> pyval" where
  "cell_value c = (case c of Result r \<Rightarrow> PDict (step_result_to_dict r) | Raw v \<Rightarrow> v)"

definition optional_field :: "string \<Rightarrow> bool \<Rightarrow> pyval \<Rightarrow> pydict" where
  "optional_field k present v = (if present then [(k, v)] else [])"

definition to_dict :: "RunState \<Rightarrow> exc + pydict" where
  "to_dict s = (case run_steps s of
      NotADict _ \<Rightarrow> Inl AttributeError
    | Steps cells \<Rightarrow> Inr (
     [(''schema_version'', run_schema_version s), (''run_id'', run_id s),
      (''workflow_file'', run_workflow_file s), (''workflow_checksum'', run_workflow_checksum s),
      (''started_at'', run_started_at s), (''updated_at'', run_updated_at s), (''status'', run_status s),
      (''context'', run_context s), (''bound_inputs'', run_bound_inputs s),
      (''workflow_outputs'', run_workflow_outputs s), (''finalization'', run_finalization s),
      (''steps'', PDict (map (\<lambda>(k, c). (k, cell_value c)) cells)),
      (''for_each'', PDict (map (\<lambda>(k, l). (k, PDict (for_each_to_dict l))) (run_for_each s))),
      (''repeat_until'', run_repeat_until s), (''call_frames'', run_call_frames s),
      (''artifact_versions'', run_artifact_versions s), (''artifact_consumes'', run_artifact_consumes s),
      (''private_artifact_versions'', run_private_artifact_versions s),
      (''private_artifact_consumes'', run_private_artifact_consumes s),
      (''transition_count'', run_transition_count s), (''step_visits'', run_step_visits s)]
     @ optional_field ''run_root'' (py_bool (run_root s)) (run_root s)
     @ optional_field ''run_ref_root'' (run_ref_root s \<noteq> PNone) (run_ref_root s)
     @ optional_field ''result_persistence_profile'' (run_result_persistence_profile s \<noteq> PNone) (run_result_persistence_profile s)
     @ optional_field ''observability'' (run_observability s \<noteq> PNone) (run_observability s)
     @ optional_field ''runtime_observability'' (run_runtime_observability s \<noteq> PNone) (run_runtime_observability s)
     @ optional_field ''error'' (run_error s \<noteq> PNone) (run_error s)
     @ optional_field ''current_step'' (run_current_step s \<noteq> PNone) (run_current_step s)
     @ optional_field ''provider_attempt_allocations'' (py_bool (run_provider_attempt_allocations s)) (run_provider_attempt_allocations s)))"

definition profile_ok :: "pyval \<Rightarrow> bool" where
  "profile_ok v \<longleftrightarrow> v = PStr DERIVED_PURE_REPLAY_PROFILE"

text \<open>The loop over \<open>data["for_each"].items()\<close>.\<close>

definition for_each_from :: "pydict \<Rightarrow> exc + (string \<times> ForEachState) list" where
  "for_each_from data = (case map_of data ''for_each'' of
      None \<Rightarrow> Inr []
    | Some (PDict kv) \<Rightarrow> fold_r (\<lambda>(name, v) acc. rbind (make_for_each v) (\<lambda>l. Inr (AList.update name l acc))) kv []
    | Some _ \<Rightarrow> Inl AttributeError)"

definition allocations_from :: "(string \<Rightarrow> string) \<Rightarrow> pydict \<Rightarrow> exc + pyval" where
  "allocations_from sha data = (case map_of data ''provider_attempt_allocations'' of
      None \<Rightarrow> Inr (PDict [])
    | Some v \<Rightarrow>
        if \<not> is_mapping v \<or> \<not> py_bool v then Inl ValueError
        else rbind (as_value_error (validate_provider_attempt_allocations sha v)) (\<lambda>n. Inr (PDict n)))"

definition steps_from :: "pydict \<Rightarrow> steps_attr" where
  "steps_from data = (case dget_default data ''steps'' (PDict []) of
      PDict kv \<Rightarrow> Steps (map (\<lambda>(k, v). (k, Raw v)) kv)
    | v \<Rightarrow> NotADict v)"

definition from_dict :: "(string \<Rightarrow> string) \<Rightarrow> pydict \<Rightarrow> exc + RunState" where
  "from_dict sha data =
     rbind (require (map_of data ''result_persistence_profile'' = None \<or> profile_ok (dget data ''result_persistence_profile'')) ValueError) (\<lambda>_.
     rbind (for_each_from data) (\<lambda>loops.
     rbind (allocations_from sha data) (\<lambda>allocations.
     rbind (py_item (PDict data) ''schema_version'') (\<lambda>schema_version'.
     rbind (py_item (PDict data) ''run_id'') (\<lambda>run_id'.
     rbind (py_item (PDict data) ''workflow_file'') (\<lambda>workflow_file'.
     rbind (py_item (PDict data) ''workflow_checksum'') (\<lambda>workflow_checksum'.
     rbind (py_item (PDict data) ''started_at'') (\<lambda>started_at'.
     rbind (py_item (PDict data) ''updated_at'') (\<lambda>updated_at'.
     rbind (py_item (PDict data) ''status'') (\<lambda>status'.
     Inr \<lparr>run_schema_version = schema_version', run_id = run_id', run_workflow_file = workflow_file',
       run_workflow_checksum = workflow_checksum', run_started_at = started_at',
       run_updated_at = updated_at', run_status = status',
       run_result_persistence_profile = dget data ''result_persistence_profile'',
       run_root = dget data ''run_root'', run_ref_root = dget data ''run_ref_root'',
       run_context = dget_default data ''context'' (PDict []),
       run_bound_inputs = dget_default data ''bound_inputs'' (PDict []),
       run_workflow_outputs = dget_default data ''workflow_outputs'' (PDict []),
       run_finalization = dget_default data ''finalization'' (PDict []), run_error = dget data ''error'',
       run_observability = dget data ''observability'',
       run_runtime_observability = dget data ''runtime_observability'',
       run_current_step = dget data ''current_step'', run_steps = steps_from data, run_for_each = loops,
       run_repeat_until = dget_default data ''repeat_until'' (PDict []),
       run_call_frames = dget_default data ''call_frames'' (PDict []),
       run_artifact_versions = dget_default data ''artifact_versions'' (PDict []),
       run_artifact_consumes = dget_default data ''artifact_consumes'' (PDict []),
       run_private_artifact_versions = dget_default data ''private_artifact_versions'' (PDict []),
       run_private_artifact_consumes = dget_default data ''private_artifact_consumes'' (PDict []),
       run_transition_count = dget_default data ''transition_count'' (PInt 0),
       run_step_visits = dget_default data ''step_visits'' (PDict []),
       run_provider_attempt_allocations = allocations\<rparr>))))))))))"

section \<open>Beginning and settling a pure visit\<close>

definition set_step :: "steps_attr \<Rightarrow> string \<Rightarrow> step_cell \<Rightarrow> exc + steps_attr" where
  "set_step steps name c = (case steps of Steps cells \<Rightarrow> Inr (Steps (AList.update name c cells)) | NotADict _ \<Rightarrow> Inl TypeError)"

text \<open>\<open>d[k] = v\<close>\<close>

definition py_setitem :: "pyval \<Rightarrow> string \<Rightarrow> pyval \<Rightarrow> exc + pyval" where
  "py_setitem d k v = (case d of PDict kv \<Rightarrow> Inr (PDict (AList.update k v kv)) | _ \<Rightarrow> Inl TypeError)"

definition assign_step :: "string \<Rightarrow> step_cell \<Rightarrow> (RunState, unit) act" where
  "assign_step name c = put (\<lambda>s. rbind (set_step (run_steps s) name c) (\<lambda>steps. Inr (s\<lparr>run_steps := steps\<rparr>)))"

definition require_derived_pure_replay_profile :: "RunState \<Rightarrow> exc + unit" where
  "require_derived_pure_replay_profile s = require (profile_ok (run_result_persistence_profile s)) ValueError"

definition classify_state :: "RunState \<Rightarrow> PureReplayVisitWitness \<Rightarrow> exc + progress" where
  "classify_state s w = rbind (to_dict s) (\<lambda>payload. classify_pure_replay_progress payload w)"

definition pure_cursor :: "string \<Rightarrow> PureReplayVisitWitness \<Rightarrow> pydict" where
  "pure_cursor now w =
     [(''name'', PStr (presentation_key w)), (''index'', PInt (step_index w)), (''type'', PStr ''pure_projection''),
      (''status'', PStr ''running''), (''started_at'', PStr now), (''last_heartbeat_at'', PStr now),
      (''step_id'', PStr (witness_step_id w)), (''visit_count'', PInt (witness_visit_count w))]"

definition begin_eligible_pure_visit_state :: "string \<Rightarrow> string \<Rightarrow> int \<Rightarrow> string \<Rightarrow> (RunState, int) act" where
  "begin_eligible_pure_visit_state now name index sid =
     io_bind (check require_derived_pure_replay_profile) (\<lambda>_.
     io_bind (pure (make_witness (PStr name) (PInt index) (PStr sid) (PInt 1))) (\<lambda>w.
     io_bind (check (\<lambda>s. if run_current_step s \<noteq> PNone then Inl ValueError
       else rbind (classify_state s w) (\<lambda>p. require (p = Unstarted) ValueError))) (\<lambda>_.
     io_bind (put (\<lambda>s. rbind (py_setitem (run_step_visits s) name (PInt (witness_visit_count w))) (\<lambda>v. Inr (s\<lparr>run_step_visits := v\<rparr>)))) (\<lambda>_.
     io_bind (modify (\<lambda>s. s\<lparr>run_current_step := PDict (pure_cursor now w)\<rparr>)) (\<lambda>_.
     ret (witness_visit_count w))))))"

definition require_interrupted_eligible_pure_visit :: "PureReplayVisitWitness \<Rightarrow> RunState \<Rightarrow> exc + unit" where
  "require_interrupted_eligible_pure_visit w s =
     rbind (require_derived_pure_replay_profile s) (\<lambda>_.
     rbind (classify_state s w) (\<lambda>p. require (p = Interrupted) ValueError))"

definition settle_eligible_pure_success_state :: "PureReplayVisitWitness \<Rightarrow> (RunState, pydict) act" where
  "settle_eligible_pure_success_state w =
     io_bind (check (require_interrupted_eligible_pure_visit w)) (\<lambda>_.
     io_bind (assign_step (presentation_key w) (Raw (PDict (build_pure_completion_shell w)))) (\<lambda>_.
     io_bind (modify (\<lambda>s. s\<lparr>run_current_step := PNone\<rparr>)) (\<lambda>_.
     ret (build_pure_completion_shell w))))"

definition failure_matches_visit :: "PureReplayVisitWitness \<Rightarrow> StepResult \<Rightarrow> bool" where
  "failure_matches_visit w r \<longleftrightarrow> res_name r = PStr (presentation_key w) \<and> res_step_id r = PStr (witness_step_id w)
     \<and> (case res_visit_count r of PBool _ \<Rightarrow> False | _ \<Rightarrow> True) \<and> py_eq (res_visit_count r) (PInt (witness_visit_count w))"

definition settle_eligible_pure_failure_state :: "PureReplayVisitWitness \<Rightarrow> StepResult \<Rightarrow> (RunState, unit) act" where
  "settle_eligible_pure_failure_state w r =
     io_bind (check (require_interrupted_eligible_pure_visit w)) (\<lambda>_.
     io_bind (pure (require (hashable (res_status r)) TypeError)) (\<lambda>_.
     io_bind (pure (require (res_status r \<in> {PStr ''failed'', PStr ''skipped''}) ValueError)) (\<lambda>_.
     io_bind (pure (require (failure_matches_visit w r) ValueError)) (\<lambda>_.
     io_bind (assign_step (presentation_key w) (Result r)) (\<lambda>_.
     modify (\<lambda>s. s\<lparr>run_current_step := PNone\<rparr>))))))"


section \<open>Reading back what was written\<close>

lemma map_of_optional [simp]:
  "map_of (optional_field k b v @ kv) k' = (if k' = k \<and> b then Some v else map_of kv k')"
  "map_of (optional_field k b v) k' = (if k' = k \<and> b then Some v else None)"
  by (simp_all add: optional_field_def)

text \<open>What loading makes of a state: results become their dict forms.\<close>

definition reread :: "RunState \<Rightarrow> RunState" where
  "reread s = s\<lparr>run_steps := (case run_steps s of Steps cells \<Rightarrow> Steps (map (\<lambda>(k, c). (k, Raw (cell_value c))) cells) | x \<Rightarrow> x),
     run_root := (if py_bool (run_root s) then run_root s else PNone)\<rparr>"

definition document_ok :: "(string \<Rightarrow> string) \<Rightarrow> RunState \<Rightarrow> bool" where
  "document_ok sha s \<longleftrightarrow>
     (run_result_persistence_profile s = PNone \<or> profile_ok (run_result_persistence_profile s))
     \<and> distinct (map fst (run_for_each s))
     \<and> (\<exists>kv. run_provider_attempt_allocations s = PDict kv \<and> table_ok sha kv)"

lemma to_dict_reread: "to_dict (reread s) = to_dict s"
proof (cases "run_steps s")
  case (Steps cells)
  have "map (\<lambda>(k, c). (k, cell_value c)) (map (\<lambda>(k, c). (k, Raw (cell_value c))) cells) = map (\<lambda>(k, c). (k, cell_value c)) cells"
    by (simp add: cell_value_def case_prod_unfold)
  with Steps show ?thesis by (simp only: to_dict_def reread_def RunState.simps steps_attr.case) (simp add: optional_field_def)
next
  case (NotADict v)
  then show ?thesis by (simp add: to_dict_def reread_def)
qed

lemma for_each_fixed:
  "distinct (map fst (acc @ ls)) \<Longrightarrow>
     fold_r (\<lambda>(name, v) acc. rbind (make_for_each v) (\<lambda>l. Inr (AList.update name l acc)))
       (map (\<lambda>(k, l). (k, PDict (for_each_to_dict l))) ls) acc = Inr (acc @ ls)"
proof (induction ls arbitrary: acc)
  case (Cons p ls)
  obtain k l where p: "p = (k, l)" by fastforce
  have "make_for_each (PDict (for_each_to_dict l)) = Inr l"
    by (simp add: make_for_each_def for_each_to_dict_def dget_default_def)
  moreover have "AList.update k l acc = acc @ [(k, l)]" using Cons.prems p by (intro update_fresh) auto
  ultimately show ?case using Cons.IH [of "acc @ [(k, l)]"] Cons.prems p by simp
qed simp

lemma from_to_dict:
  assumes "to_dict s = Inr d" "document_ok sha s"
  shows "from_dict sha d = Inr (reread s)"
proof -
  from assms(1) obtain cells where cells: "run_steps s = Steps cells" by (auto simp: to_dict_def split: steps_attr.splits)
  note d = assms(1) [unfolded to_dict_def cells steps_attr.case sum.inject, symmetric]
  obtain kv where kv: "run_provider_attempt_allocations s = PDict kv" "table_ok sha kv"
    using assms(2) by (auto simp: document_ok_def)
  have loops: "for_each_from d = Inr (run_for_each s)"
    using assms(2) for_each_fixed [of "[]" "run_for_each s"]
    by (simp add: for_each_from_def d document_ok_def del: map_of_append)
  have allocations: "allocations_from sha d = Inr (run_provider_attempt_allocations s)"
    using kv table_fixed [of sha "[]" kv]
    by (simp add: allocations_from_def d validate_provider_attempt_allocations_def as_value_error_def
        del: map_of_append)
  have profile: "map_of d ''result_persistence_profile'' = None \<or> profile_ok (dget d ''result_persistence_profile'')"
    using assms(2) by (auto simp: d document_ok_def dget_def simp del: map_of_append)
  have steps: "steps_from d = run_steps (reread s)"
    by (simp add: steps_from_def dget_default_def d reread_def cells comp_def case_prod_unfold del: map_of_append)
  have optional: "dget d ''result_persistence_profile'' = run_result_persistence_profile s"
    "dget d ''run_root'' = run_root (reread s)" "dget d ''run_ref_root'' = run_ref_root s" "dget d ''error'' = run_error s"
    "dget d ''observability'' = run_observability s" "dget d ''runtime_observability'' = run_runtime_observability s"
    "dget d ''current_step'' = run_current_step s"
    by (simp_all add: d dget_def reread_def del: map_of_append)
  show ?thesis
    unfolding from_dict_def using profile
    by (simp add: loops allocations steps optional)
      (simp add: d dget_default_def reread_def del: map_of_append)
qed


section \<open>The life of a pure visit\<close>

definition step_row :: "RunState \<Rightarrow> string \<Rightarrow> pyval" where
  "step_row s name = (case run_steps s of
      Steps cells \<Rightarrow> (case map_of cells name of None \<Rightarrow> PNone | Some c \<Rightarrow> cell_value c) | NotADict _ \<Rightarrow> PNone)"

definition visit_cursor :: "RunState \<Rightarrow> PureReplayVisitWitness \<Rightarrow> pyval" where
  "visit_cursor s w = (if cursor_targets_witness (run_current_step s) w then run_current_step s else PNone)"

lemma classify_state_eq:
  assumes "run_steps s = Steps cells" "run_step_visits s = PDict visits"
  shows "classify_state s w =
    (let recorded = dget visits (presentation_key w); row = step_row s (presentation_key w); cursor = visit_cursor s w in
     if recorded = PNone \<and> cursor = PNone \<and> is_matching_unvisited_routed_skip row w then Inr DurableRoutedSkip
     else if recorded = PNone \<and> cursor = PNone \<and> row = PNone then Inr Unstarted
     else if recorded \<noteq> PInt (witness_visit_count w) then Inr ProgressWitnessInvalid
     else if cursor \<noteq> PNone \<and> row \<noteq> PNone then Inr ProgressWitnessInvalid
     else if cursor \<noteq> PNone then Inr (if is_matching_running_cursor cursor w then Interrupted else ProgressWitnessInvalid)
     else if row = PNone then Inr ProgressWitnessInvalid
     else classify_row row w)"
proof -
  obtain d where d: "to_dict s = Inr d" using assms(1) by (simp add: to_dict_def)
  note d' = d [unfolded to_dict_def assms(1) steps_attr.case sum.inject, symmetric]
  have parts: "dget_default d ''step_visits'' (PDict []) = PDict visits"
    "dget_default d ''steps'' (PDict []) = PDict (map (\<lambda>(k, c). (k, cell_value c)) cells)"
    "dget d ''current_step'' = run_current_step s"
    by (simp_all add: d' assms(2) dget_default_def dget_def del: map_of_append)
  have row: "dget (map (\<lambda>(k, c). (k, cell_value c)) cells) (presentation_key w) = step_row s (presentation_key w)"
    by (simp add: step_row_def assms(1) dget_def map_of_map_snd split: option.splits)
  show ?thesis
    unfolding classify_state_def d rbind_simps classify_pure_replay_progress_def parts prod.case pyval.case row
      visit_cursor_def by (rule refl)
qed

lemma classified_dicts:
  assumes "classify_state s w = Inr p" "p \<noteq> ProgressWitnessInvalid"
  obtains cells visits where "run_steps s = Steps cells" "run_step_visits s = PDict visits"
proof -
  obtain cells where cells: "run_steps s = Steps cells"
    using assms(1) by (auto simp: classify_state_def to_dict_def split: steps_attr.splits)
  obtain d where d: "to_dict s = Inr d" using cells by (simp add: to_dict_def)
  note d' = d [unfolded to_dict_def cells steps_attr.case sum.inject, symmetric]
  have visits: "dget_default d ''step_visits'' (PDict []) = run_step_visits s"
    by (simp add: d' dget_default_def del: map_of_append)
  have "is_mapping (run_step_visits s)"
    using assms unfolding classify_state_def d rbind_simps classify_pure_replay_progress_def visits
    by (cases "run_step_visits s") simp_all
  with cells that show ?thesis by (elim is_mappingE)
qed

lemma pure_cursor_matches: "now \<noteq> [] \<Longrightarrow> is_matching_running_cursor (PDict (pure_cursor now w)) w"
  by (simp add: is_matching_running_cursor_def pure_cursor_def PURE_RUNNING_CURSOR_KEYS_def running_cursor_fields_def
      same_json_shape_and_value.simps)

lemma pure_cursor_targets: "cursor_targets_witness (PDict (pure_cursor now w)) w"
  by (simp add: cursor_targets_witness_def pure_cursor_def)

text \<open>A visit begins only when nothing of it is recorded, and is then the interrupted visit.\<close>

lemma begin_visit:
  assumes "begin_eligible_pure_visit_state now name index sid s = (Inr n, s')" "now \<noteq> []"
  obtains w where "make_witness (PStr name) (PInt index) (PStr sid) (PInt 1) = Inr w" "n = 1"
    "classify_state s w = Inr Unstarted" "classify_state s' w = Inr Interrupted"
    "run_result_persistence_profile s' = run_result_persistence_profile s"
    "profile_ok (run_result_persistence_profile s)" "run_steps s' = run_steps s" "run_current_step s' = PDict (pure_cursor now w)"
proof -
  obtain w v where w: "make_witness (PStr name) (PInt index) (PStr sid) (PInt 1) = Inr w"
    and prof: "profile_ok (run_result_persistence_profile s)" and fresh: "run_current_step s = PNone"
    and un: "classify_state s w = Inr Unstarted"
    and v: "py_setitem (run_step_visits s) name (PInt (witness_visit_count w)) = Inr v"
    and s': "s' = s\<lparr>run_step_visits := v, run_current_step := PDict (pure_cursor now w)\<rparr>" and n: "n = witness_visit_count w"
    using assms(1) unfolding begin_eligible_pure_visit_state_def
    by (auto simp: io_bind_cases check_def put_def modify_def require_derived_pure_replay_profile_def result_simps
        split: if_splits sum.splits)
  have key: "presentation_key w = name" "witness_visit_count w = 1"
    using w by (auto simp: make_witness_def split: if_splits)
  from un obtain cells visits where cells: "run_steps s = Steps cells" and visits: "run_step_visits s = PDict visits"
    by (rule classified_dicts) simp_all
  have v': "v = PDict (AList.update name (PInt 1) visits)"
    using v visits key by (simp add: py_setitem_def)
  have row: "step_row s name = PNone"
    using un unfolding classify_state_eq [OF cells visits] Let_def by (auto simp: key classify_row_def rbind_Inr_iff split: if_splits sum.splits)
  have cells': "run_steps s' = Steps cells" and visits': "run_step_visits s' = PDict (AList.update name (PInt 1) visits)"
    using cells by (simp_all add: s' v')
  have "classify_state s' w = Inr Interrupted"
    unfolding classify_state_eq [OF cells' visits'] Let_def
    using row pure_cursor_matches [OF assms(2), of w] pure_cursor_targets [of now w]
    by (simp add: key s' step_row_def visit_cursor_def dget_def update_conv' cells)
  then show ?thesis using that w prof un key n s' by simp
qed


lemma interrupted_parts:
  assumes "classify_state s w = Inr Interrupted" "run_steps s = Steps cells" "run_step_visits s = PDict visits"
  shows "dget visits (presentation_key w) = PInt (witness_visit_count w)"
    using assms(1) unfolding classify_state_eq [OF assms(2,3)] Let_def
    by (auto simp: classify_row_def rbind_Inr_iff split: if_splits sum.splits)

lemma settled_state:
  assumes "classify_state s w = Inr Interrupted"
  obtains cells where "run_steps s = Steps cells"
    "assign_step (presentation_key w) c s = (Inr (), s\<lparr>run_steps := Steps (AList.update (presentation_key w) c cells)\<rparr>)"
    "cell_value c \<noteq> PNone \<Longrightarrow>
       classify_state (s\<lparr>run_steps := Steps (AList.update (presentation_key w) c cells), run_current_step := PNone\<rparr>) w
         = classify_row (cell_value c) w"
proof -
  from assms obtain cells visits where cells: "run_steps s = Steps cells" and visits: "run_step_visits s = PDict visits"
    by (rule classified_dicts) simp_all
  let ?s = "s\<lparr>run_steps := Steps (AList.update (presentation_key w) c cells), run_current_step := PNone\<rparr>"
  have a: "assign_step (presentation_key w) c s = (Inr (), s\<lparr>run_steps := Steps (AList.update (presentation_key w) c cells)\<rparr>)"
    by (simp add: assign_step_def put_def set_step_def cells)
  have 1: "run_steps ?s = Steps (AList.update (presentation_key w) c cells)" and 2: "run_step_visits ?s = PDict visits"
    using visits by simp_all
  have "classify_state ?s w = classify_row (cell_value c) w" if "cell_value c \<noteq> PNone"
    unfolding classify_state_eq [OF 1 2] Let_def using that interrupted_parts [OF assms cells visits]
    by (simp add: step_row_def update_conv' visit_cursor_def cursor_targets_witness_def)
  with cells a that show ?thesis by blast
qed

lemma settle_success:
  assumes "classify_state s w = Inr Interrupted" "profile_ok (run_result_persistence_profile s)"
  obtains s' where "settle_eligible_pure_success_state w s = (Inr (build_pure_completion_shell w), s')"
    "classify_state s' w = Inr DerivedComplete" "run_result_persistence_profile s' = run_result_persistence_profile s"
proof -
  let ?c = "Raw (PDict (build_pure_completion_shell w))"
  obtain cells where a: "assign_step (presentation_key w) ?c s
      = (Inr (), s\<lparr>run_steps := Steps (AList.update (presentation_key w) ?c cells)\<rparr>)"
    and c: "classify_state (s\<lparr>run_steps := Steps (AList.update (presentation_key w) ?c cells), run_current_step := PNone\<rparr>) w
      = classify_row (cell_value ?c) w"
    by (rule settled_state [OF assms(1), of ?c]) (simp add: cell_value_def)
  have "classify_row (cell_value ?c) w = Inr DerivedComplete"
    by (simp add: cell_value_def classify_row_def shell_validates)
  with c a assms show ?thesis
    by (intro that [of "s\<lparr>run_steps := Steps (AList.update (presentation_key w) ?c cells), run_current_step := PNone\<rparr>"])
      (simp_all add: settle_eligible_pure_success_state_def io_bind_def check_def modify_def
        require_interrupted_eligible_pure_visit_def require_derived_pure_replay_profile_def)
qed

lemma settled_rejects:
  assumes "classify_state s w = Inr p" "p \<noteq> Interrupted" "profile_ok (run_result_persistence_profile s)"
  shows "settle_eligible_pure_success_state w s = (Inl ValueError, s)"
    "settle_eligible_pure_failure_state w r s = (Inl ValueError, s)"
  using assms
  by (simp_all add: settle_eligible_pure_success_state_def settle_eligible_pure_failure_state_def io_bind_def check_def
      require_interrupted_eligible_pure_visit_def require_derived_pure_replay_profile_def)

lemma begin_rejects:
  assumes "make_witness (PStr name) (PInt index) (PStr sid) (PInt 1) = Inr w"
    and "classify_state s w = Inr p" "p \<noteq> Unstarted"
  shows "begin_eligible_pure_visit_state now name index sid s = (Inl ValueError, s)"
  using assms
  by (simp add: begin_eligible_pure_visit_state_def io_bind_def check_def require_derived_pure_replay_profile_def require_def)

lemma dget_present_fields: "distinct (map fst kv) \<Longrightarrow> dget (filter (\<lambda>(k, v). v \<noteq> PNone) kv) k = dget kv k"
proof (induction kv)
  case (Cons p kv)
  obtain k' v where p: "p = (k', v)" by fastforce
  have "k' \<notin> set (map fst kv) \<Longrightarrow> dget kv k' = PNone" by (simp add: dget_def split: option.splits) (force dest: map_of_SomeD)
  with Cons p show ?case by auto
qed simp

lemma result_fields_distinct: "map fst (step_result_fields r) = STEP_RESULT_FIELDS" "distinct STEP_RESULT_FIELDS"
  by (simp_all add: step_result_fields_def STEP_RESULT_FIELDS_def)

lemma dget_result: "dget (step_result_to_dict r) k = dget (step_result_fields r) k"
  by (simp add: step_result_to_dict_def dget_present_fields result_fields_distinct)

lemma failure_row:
  assumes "res_status r \<in> {PStr ''failed'', PStr ''skipped''}" "failure_matches_visit w r" "res_visit_count r = PInt c"
  shows "classify_row (PDict (step_result_to_dict r)) w = Inr DurableFailureSkip"
proof -
  have "dget (step_result_to_dict r) ''status'' = res_status r" "dget (step_result_to_dict r) ''name'' = res_name r"
    "dget (step_result_to_dict r) ''step_id'' = res_step_id r" "dget (step_result_to_dict r) ''visit_count'' = res_visit_count r"
    by (simp_all add: dget_result step_result_fields_def)
  note fields = this
  from assms(1) have st: "res_status r \<noteq> PNone" "\<not> same_json_shape_and_value (res_status r) (PStr ''completed'')"
    by (elim insertE emptyE; simp add: same_json_shape_and_value.simps)+
  have "(''status'', res_status r) \<in> set (step_result_to_dict r)"
    using dget_present [OF fields(1) st(1)] by (rule map_of_SomeD)
  moreover have "dget (build_pure_completion_shell w) ''status'' = PStr ''completed''"
    by (simp add: build_pure_completion_shell_def)
  ultimately have "\<not> same_json_shape_and_value (PDict (step_result_to_dict r)) (PDict (build_pure_completion_shell w))"
    using st(2) by (fastforce simp: same_json_shape_and_value.simps [of "PDict (step_result_to_dict r)"] list_all_iff)
  then have "validate_pure_completion_shell (PDict (step_result_to_dict r)) w = Inl ValueError"
    by (simp add: validate_pure_completion_shell_def)
  moreover have "is_matching_failure_or_skip (PDict (step_result_to_dict r)) w = Inr True"
    using assms(1) by (elim insertE emptyE)
      (use assms(2,3) in \<open>simp_all add: is_matching_failure_or_skip_def fields failure_matches_visit_def\<close>)
  ultimately show ?thesis by (simp add: classify_row_def)
qed


lemma settle_failure:
  assumes "classify_state s w = Inr Interrupted" "profile_ok (run_result_persistence_profile s)"
    and "res_status r \<in> {PStr ''failed'', PStr ''skipped''}" "failure_matches_visit w r" "res_visit_count r = PInt c"
  obtains s' where "settle_eligible_pure_failure_state w r s = (Inr (), s')" "classify_state s' w = Inr DurableFailureSkip"
proof -
  obtain cells where a: "assign_step (presentation_key w) (Result r) s
      = (Inr (), s\<lparr>run_steps := Steps (AList.update (presentation_key w) (Result r) cells)\<rparr>)"
    and c: "classify_state (s\<lparr>run_steps := Steps (AList.update (presentation_key w) (Result r) cells), run_current_step := PNone\<rparr>) w
      = classify_row (cell_value (Result r)) w"
    by (rule settled_state [OF assms(1), of "Result r"]) (simp add: cell_value_def)
  have h: "hashable (res_status r)" using assms(3) by (elim insertE emptyE) simp_all
  have "classify_row (cell_value (Result r)) w = Inr DurableFailureSkip"
    using failure_row [OF assms(3-5)] by (simp add: cell_value_def)
  with c a h assms(1-4) show ?thesis
    by (intro that [of "s\<lparr>run_steps := Steps (AList.update (presentation_key w) (Result r) cells), run_current_step := PNone\<rparr>"])
      (simp_all add: settle_eligible_pure_failure_state_def io_bind_def check_def modify_def
        require_interrupted_eligible_pure_visit_def require_derived_pure_replay_profile_def)
qed

text \<open>
  C13: a pure visit happens once. A visit that begins was unstarted and is then the interrupted
  visit; it can be settled with its completion row, after which it counts as complete, and it
  can neither begin again nor be settled a second time.
\<close>

theorem pure_visit_happens_once:
  assumes "begin_eligible_pure_visit_state now name index sid s = (Inr n, s1)" "now \<noteq> []"
  shows "\<exists>w s2. make_witness (PStr name) (PInt index) (PStr sid) (PInt 1) = Inr w \<and> n = 1
    \<and> classify_state s w = Inr Unstarted \<and> classify_state s1 w = Inr Interrupted
    \<and> begin_eligible_pure_visit_state now' name index sid s1 = (Inl ValueError, s1)
    \<and> settle_eligible_pure_success_state w s1 = (Inr (build_pure_completion_shell w), s2)
    \<and> classify_state s2 w = Inr DerivedComplete
    \<and> begin_eligible_pure_visit_state now' name index sid s2 = (Inl ValueError, s2)
    \<and> settle_eligible_pure_success_state w s2 = (Inl ValueError, s2)
    \<and> settle_eligible_pure_failure_state w r s2 = (Inl ValueError, s2)"
proof -
  obtain w where w: "make_witness (PStr name) (PInt index) (PStr sid) (PInt 1) = Inr w" "n = 1"
    and c: "classify_state s w = Inr Unstarted" "classify_state s1 w = Inr Interrupted"
    and p: "profile_ok (run_result_persistence_profile s1)"
    by (rule begin_visit [OF assms]) simp
  obtain s2 where s2: "settle_eligible_pure_success_state w s1 = (Inr (build_pure_completion_shell w), s2)"
      "classify_state s2 w = Inr DerivedComplete" "run_result_persistence_profile s2 = run_result_persistence_profile s1"
    by (rule settle_success [OF c(2) p])
  then have p2: "profile_ok (run_result_persistence_profile s2)" using p by simp
  show ?thesis
    using w c s2(1,2) begin_rejects [OF w(1) c(2)] begin_rejects [OF w(1) s2(2)] settled_rejects [OF s2(2) _ p2]
    by simp
qed

definition demo_run :: RunState where
  "demo_run = \<lparr>run_schema_version = PStr ''2.1'', run_id = PStr ''r1'', run_workflow_file = PStr ''w.yaml'',
     run_workflow_checksum = PStr ''sha256:0'', run_started_at = PStr ''t0'', run_updated_at = PStr ''t0'',
     run_status = PStr ''running'', run_result_persistence_profile = PStr DERIVED_PURE_REPLAY_PROFILE,
     run_root = PStr ''/runs/r1'', run_ref_root = PNone, run_context = PDict [], run_bound_inputs = PDict [],
     run_workflow_outputs = PDict [], run_finalization = PDict [], run_error = PNone, run_observability = PNone,
     run_runtime_observability = PNone, run_current_step = PNone, run_steps = Steps [], run_for_each = [],
     run_repeat_until = PDict [], run_call_frames = PDict [], run_artifact_versions = PDict [],
     run_artifact_consumes = PDict [], run_private_artifact_versions = PDict [], run_private_artifact_consumes = PDict [],
     run_transition_count = PInt 0, run_step_visits = PDict [], run_provider_attempt_allocations = PDict []\<rparr>"

lemma demo_unstarted:
  "classify_state demo_run \<lparr>presentation_key = ''total'', step_index = 0, witness_step_id = ''root.total'', witness_visit_count = 1\<rparr> = Inr Unstarted"
  by (simp add: classify_state_eq [of _ "[]" "[]"] step_row_def visit_cursor_def demo_run_def cursor_targets_witness_def
      is_matching_unvisited_routed_skip_def)

lemma demo_begun: obtains s1 where "begin_eligible_pure_visit_state ''t1'' ''total'' 0 ''root.total'' demo_run = (Inr 1, s1)"
  using demo_unstarted
  by (simp add: begin_eligible_pure_visit_state_def io_bind_def check_def require_derived_pure_replay_profile_def
      make_witness_def put_def py_setitem_def modify_def demo_run_def profile_ok_def)

lemma demo_visit:
  obtains s1 w s2 where "begin_eligible_pure_visit_state ''t1'' ''total'' 0 ''root.total'' demo_run = (Inr 1, s1)"
    "settle_eligible_pure_success_state w s1 = (Inr (build_pure_completion_shell w), s2)"
proof -
  obtain s1 where s1: "begin_eligible_pure_visit_state ''t1'' ''total'' 0 ''root.total'' demo_run = (Inr 1, s1)" by (rule demo_begun)
  have "''t1'' \<noteq> []" by simp
  from begin_visit [OF s1 this] obtain w where "classify_state s1 w = Inr Interrupted" "profile_ok (run_result_persistence_profile s1)"
    by metis
  from settle_success [OF this] that s1 show ?thesis by metis
qed

theorem pure_visit_happens_once_witness:
  "\<exists>s1 w s2. begin_eligible_pure_visit_state ''t1'' ''total'' 0 ''root.total'' demo_run = (Inr 1, s1)
     \<and> settle_eligible_pure_success_state w s1 = (Inr (build_pure_completion_shell w), s2)
     \<and> classify_state s2 w = Inr DerivedComplete"
proof -
  obtain s1 where s1: "begin_eligible_pure_visit_state ''t1'' ''total'' 0 ''root.total'' demo_run = (Inr 1, s1)" by (rule demo_begun)
  have "''t1'' \<noteq> []" by simp
  from pure_visit_happens_once [OF s1 this, of "''t2''" undefined] obtain w s2
    where "settle_eligible_pure_success_state w s1 = (Inr (build_pure_completion_shell w), s2)"
      and "classify_state s2 w = Inr DerivedComplete" by (elim exE conjE)
  with s1 show ?thesis by (intro exI conjI)
qed

end
