(* ===== verification/AtomicWrite.thy ===== *)
theory AtomicWrite
  imports FileSystem
begin

text \<open>
  Atomic replacement of a file, \<open>_common/io_atomic.py\<close>. The host is a list of files together with
  a plan that decides what each system call does: it may be refused at any point, and a write
  may accept only part of its bytes. For every plan, the destination holds its old or its new
  content and never a part of it, and no other file has changed; when the replacement returns,
  the new content is in place.
\<close>

section \<open>The host\<close>

text \<open>
  What the operating system does with one call: refuse it with an \<open>OSError\<close>, or carry it out.
  The number limits how many bytes a write accepts.
\<close>

datatype sys_outcome = Refuse | Proceed nat

record os_host =
  hfiles :: "(string \<times> string) list"
  plan :: "nat \<Rightarrow> sys_outcome"
  calls :: nat
  clock :: "nat \<Rightarrow> string"
  ticks :: nat
  token :: "nat \<Rightarrow> string"

definition hread :: "os_host \<Rightarrow> string \<Rightarrow> string option" where
  "hread h p = map_of (hfiles h) p"

definition syscall :: "(os_host \<Rightarrow> nat \<Rightarrow> (exc + 'a) \<times> os_host) \<Rightarrow> (os_host, 'a) act" where
  "syscall f = (\<lambda>h. let h' = h\<lparr>calls := Suc (calls h)\<rparr> in
     (case plan h (calls h) of Refuse \<Rightarrow> (Inl OSError, h') | Proceed k \<Rightarrow> f h' k))"

text \<open>\<open>os.open(path, O_WRONLY | O_CREAT | O_EXCL)\<close>; the descriptor is the path it writes to.\<close>

definition os_create :: "string \<Rightarrow> (os_host, unit) act" where
  "os_create p = syscall (\<lambda>h _. if hread h p \<noteq> None then (Inl OSError, h)
     else (Inr (), h\<lparr>hfiles := AList.update p [] (hfiles h)\<rparr>))"

text \<open>\<open>os.write\<close>: appends a prefix of the bytes and returns its length.\<close>

definition os_write :: "string \<Rightarrow> string \<Rightarrow> (os_host, nat) act" where
  "os_write p bs = syscall (\<lambda>h k. case hread h p of
      None \<Rightarrow> (Inl OSError, h)
    | Some t \<Rightarrow> (Inr (min k (length bs)), h\<lparr>hfiles := AList.update p (t @ take k bs) (hfiles h)\<rparr>))"

text \<open>\<open>os.close\<close>, \<open>os.fsync\<close> and opening a directory: calls without an effect on contents.\<close>

definition os_touch :: "(os_host, unit) act" where
  "os_touch = syscall (\<lambda>h _. (Inr (), h))"

definition os_replace :: "string \<Rightarrow> string \<Rightarrow> (os_host, unit) act" where
  "os_replace src dst = syscall (\<lambda>h _. case hread h src of
      None \<Rightarrow> (Inl OSError, h)
    | Some t \<Rightarrow> (Inr (), h\<lparr>hfiles := AList.update dst t (AList.delete src (hfiles h))\<rparr>))"

text \<open>\<open>Path.unlink()\<close> with \<open>FileNotFoundError\<close> passed over, as every caller here does.\<close>

definition os_unlink :: "string \<Rightarrow> (os_host, unit) act" where
  "os_unlink p = syscall (\<lambda>h _. (Inr (), h\<lparr>hfiles := AList.delete p (hfiles h)\<rparr>))"

section \<open>Replacement\<close>

text \<open>\<open>path.with_name(name)\<close> for the normalised text of a path.\<close>

definition with_name :: "string \<Rightarrow> string \<Rightarrow> exc + string" where
  "with_name p n = (if path_parts (PurePosixPath p) = [] then Inl ValueError
     else Inr (rev (dropWhile (\<lambda>c. c \<noteq> CHR ''/'') (rev p)) @ n))"

text \<open>The process number and the random digits are the host's next token.\<close>

definition temporary_path :: "string \<Rightarrow> os_host \<Rightarrow> exc + string" where
  "temporary_path dst h = with_name dst (''.orc-tmp-'' @ token h (calls h) @ ''.tmp'')"

text \<open>The loop of \<open>_write_all\<close>; it ends because a write that makes no progress raises.\<close>

function write_all :: "string \<Rightarrow> string \<Rightarrow> (os_host, unit) act" where
  "write_all p bs h = (if bs = [] then (Inr (), h)
     else (case os_write p bs h of
         (Inl e, h') \<Rightarrow> (Inl e, h')
       | (Inr n, h') \<Rightarrow> if n = 0 then (Inl OSError, h') else write_all p (drop n bs) h'))"
  by pat_completeness auto
termination
  by (relation "measure (\<lambda>(p, bs, h). length bs)") auto

declare write_all.simps [simp del]

text \<open>The local variables of \<open>_replace_bytes\<close> that its \<open>finally\<close> block reads.\<close>

record job =
  on_host :: os_host
  descriptor :: bool
  directory_descriptor :: bool
  temporary_owned :: bool

definition hosted :: "(os_host, 'a) act \<Rightarrow> (job, 'a) act" where
  "hosted m = (\<lambda>j. case m (on_host j) of (r, h) \<Rightarrow> (r, j\<lparr>on_host := h\<rparr>))"

definition assign :: "(job \<Rightarrow> job) \<Rightarrow> (job, unit) act" where
  "assign f = (\<lambda>j. (Inr (), f j))"

definition sync_directory :: "(job, unit) act" where
  "sync_directory =
     io_bind (hosted os_touch) (\<lambda>_. io_bind (assign (directory_descriptor_update (\<lambda>_. True))) (\<lambda>_. hosted os_touch))"

definition replace_steps :: "bool \<Rightarrow> string \<Rightarrow> string \<Rightarrow> string \<Rightarrow> (job, unit) act" where
  "replace_steps durable tmp dst payload =
     io_bind (hosted (os_create tmp)) (\<lambda>_.
     io_bind (assign (\<lambda>j. j\<lparr>descriptor := True, temporary_owned := True\<rparr>)) (\<lambda>_.
     io_bind (hosted (write_all tmp payload)) (\<lambda>_.
     io_bind (if durable then hosted os_touch else ret ()) (\<lambda>_.
     io_bind (hosted os_touch) (\<lambda>_.
     io_bind (assign (descriptor_update (\<lambda>_. False))) (\<lambda>_.
     io_bind (hosted (os_replace tmp dst)) (\<lambda>_.
     io_bind (assign (temporary_owned_update (\<lambda>_. False))) (\<lambda>_.
     if durable then sync_directory else ret ()))))))))"

text \<open>\<open>try: m except error: failures.append(error)\<close>\<close>

definition collected :: "(job, unit) act \<Rightarrow> (job, exc list) act" where
  "collected m = (\<lambda>j. case m j of (Inl e, j') \<Rightarrow> (Inr [e], j') | (Inr _, j') \<Rightarrow> (Inr [], j'))"

definition cleanup_nondurable :: "string \<Rightarrow> bool \<Rightarrow> (job, unit) act" where
  "cleanup_nondurable tmp primary_failure = (\<lambda>j.
     io_bind (if descriptor j then collected (hosted os_touch) else ret []) (\<lambda>f1.
     io_bind (if directory_descriptor j then collected (hosted os_touch) else ret []) (\<lambda>f2.
     io_bind (if temporary_owned j then collected (hosted (os_unlink tmp)) else ret []) (\<lambda>f3.
     case f1 @ f2 @ f3 of e # _ \<Rightarrow> if primary_failure then ret () else throw e | [] \<Rightarrow> ret ()))) j)"

definition cleanup_durable :: "string \<Rightarrow> (job, unit) act" where
  "cleanup_durable tmp = (\<lambda>j.
     io_bind (if descriptor j then hosted os_touch else ret ()) (\<lambda>_.
     io_bind (if directory_descriptor j then hosted os_touch else ret ()) (\<lambda>_.
     if temporary_owned j then hosted (os_unlink tmp) else ret ())) j)"

definition finally_block :: "bool \<Rightarrow> string \<Rightarrow> bool \<Rightarrow> (job, unit) act" where
  "finally_block durable tmp primary_failure =
     (if durable then cleanup_durable tmp else cleanup_nondurable tmp primary_failure)"

text \<open>\<open>try: ... finally: ...\<close>: an exception of the \<open>finally\<close> block replaces the first one.\<close>

definition replace_bytes :: "bool \<Rightarrow> string \<Rightarrow> string \<Rightarrow> (os_host, unit) act" where
  "replace_bytes durable dst payload = (\<lambda>h. case temporary_path dst h of
      Inl e \<Rightarrow> (Inl e, h)
    | Inr tmp \<Rightarrow>
        (case replace_steps durable tmp dst payload
           \<lparr>on_host = h, descriptor = False, directory_descriptor = False, temporary_owned = False\<rparr> of
           (r, j) \<Rightarrow>
             (case finally_block durable tmp (case r of Inl _ \<Rightarrow> True | Inr _ \<Rightarrow> False) j of
                (Inl e, j') \<Rightarrow> (Inl e, on_host j')
              | (Inr _, j') \<Rightarrow> (r, on_host j'))))"

definition durable_atomic_write :: "string \<Rightarrow> string \<Rightarrow> (os_host, unit) act" where
  "durable_atomic_write dst payload = replace_bytes True dst payload"

definition atomic_write_bytes :: "string \<Rightarrow> string \<Rightarrow> (os_host, unit) act" where
  "atomic_write_bytes dst payload = replace_bytes False dst payload"

definition atomic_write_text :: "string \<Rightarrow> string \<Rightarrow> (os_host, unit) act" where
  "atomic_write_text dst text = atomic_write_bytes dst text"

section \<open>What a replacement leaves behind\<close>

lemma hread_calls [simp]: "hread (h\<lparr>calls := n\<rparr>) p = hread h p" "hread (h\<lparr>ticks := n\<rparr>) p = hread h p"
  by (simp_all add: hread_def)

lemmas file_simps = hread_def update_conv' delete_conv'

lemma triple_syscall:
  assumes "\<And>h n. P h \<Longrightarrow> E (h\<lparr>calls := n\<rparr>)"
    and "\<And>h n k. P h \<Longrightarrow> (case f (h\<lparr>calls := n\<rparr>) k of (Inr x, h') \<Rightarrow> Q x h' | (Inl e, h') \<Rightarrow> E h')"
  shows "triple P (syscall f) Q E"
  using assms by (auto simp: triple_def syscall_def Let_def split: sys_outcome.splits)


text \<open>
  Relative to the host \<open>h0\<close> before the replacement: the temporary file was created by this replacement and holds
  \<open>t\<close>; nothing else has changed.
\<close>

definition staged :: "os_host \<Rightarrow> string \<Rightarrow> string \<Rightarrow> os_host \<Rightarrow> bool" where
  "staged h0 tmp t h \<longleftrightarrow> clock h = clock h0 \<and> hread h0 tmp = None \<and> hread h tmp = Some t \<and> (\<forall>q. q \<noteq> tmp \<longrightarrow> hread h q = hread h0 q)"

text \<open>The replacement has happened.\<close>

definition replaced :: "os_host \<Rightarrow> string \<Rightarrow> string \<Rightarrow> string \<Rightarrow> os_host \<Rightarrow> bool" where
  "replaced h0 tmp dst t h \<longleftrightarrow> clock h = clock h0 \<and> hread h0 tmp = None \<and> hread h tmp = None \<and> hread h dst = Some t \<and>
     (\<forall>q. q \<noteq> dst \<longrightarrow> q \<noteq> tmp \<longrightarrow> hread h q = hread h0 q)"

definition untouched :: "os_host \<Rightarrow> os_host \<Rightarrow> bool" where
  "untouched h0 h \<longleftrightarrow> clock h = clock h0 \<and> (\<forall>q. hread h q = hread h0 q)"

lemma create_staged: "triple (untouched h0) (os_create tmp) (\<lambda>_. staged h0 tmp []) (untouched h0)"
  unfolding os_create_def by (rule triple_syscall) (auto simp: untouched_def staged_def file_simps)

lemma write_staged:
  "triple (staged h0 tmp t) (os_write tmp bs) (\<lambda>n. staged h0 tmp (t @ take n bs)) (staged h0 tmp t)"
  unfolding os_write_def by (rule triple_syscall) (auto simp: staged_def min_def file_simps)

lemma write_all_staged:
  "triple (staged h0 tmp t) (write_all tmp bs) (\<lambda>_. staged h0 tmp (t @ bs)) (\<lambda>h. \<exists>s. staged h0 tmp s h)"
proof (rule tripleI)
  fix h r h' assume "staged h0 tmp t h" "write_all tmp bs h = (r, h')"
  then show "case r of Inr x \<Rightarrow> staged h0 tmp (t @ bs) h' | Inl e \<Rightarrow> \<exists>s. staged h0 tmp s h'"
  proof (induction tmp bs h arbitrary: t rule: write_all.induct)
    case (1 p bs h)
    show ?case
    proof (cases "bs = []")
      case True
      with 1 show ?thesis by (auto simp: write_all.simps)
    next
      case False
      obtain w u where w: "os_write p bs h = (w, u)" by fastforce
      show ?thesis
      proof (cases w)
        case (Inl e)
        then have "staged h0 p t u" using triple_raises [OF write_staged 1(2)] w by simp
        with 1(3) False w Inl show ?thesis by (auto simp: write_all.simps)
      next
        case (Inr n)
        then have u: "staged h0 p (t @ take n bs) u"
          using triple_returns [OF write_staged 1(2)] w by simp
        show ?thesis
        proof (cases "n = 0")
          case True
          with u 1(3) False w Inr show ?thesis by (auto simp: write_all.simps)
        next
          case n: False
          have rest: "write_all p (drop n bs) u = (r, h')"
            using 1(3) False w Inr n by (simp add: write_all.simps [of p bs])
          from 1(1) [OF False w [symmetric] Inr n u rest] show ?thesis by (simp split: sum.splits)
        qed
      qed
    qed
  qed
qed

lemma replace_staged:
  "tmp \<noteq> dst \<Longrightarrow> triple (staged h0 tmp t) (os_replace tmp dst) (\<lambda>_. replaced h0 tmp dst t) (staged h0 tmp t)"
  unfolding os_replace_def by (rule triple_syscall) (simp_all add: staged_def replaced_def file_simps)

lemma touch_keeps: "(\<And>h n. P h \<Longrightarrow> P (h\<lparr>calls := n\<rparr>)) \<Longrightarrow> triple P os_touch (\<lambda>_. P) P"
  unfolding os_touch_def by (rule triple_syscall) auto

lemma calls_irrelevant [simp]:
  "staged h0 tmp t (h\<lparr>calls := n\<rparr>) = staged h0 tmp t h"
  "replaced h0 tmp dst t (h\<lparr>calls := n\<rparr>) = replaced h0 tmp dst t h"
  "untouched h0 (h\<lparr>calls := n\<rparr>) = untouched h0 h"
  by (simp_all add: staged_def replaced_def untouched_def)

text \<open>The local variables have given values and the host satisfies a predicate.\<close>

definition at :: "bool \<Rightarrow> bool \<Rightarrow> bool \<Rightarrow> (os_host \<Rightarrow> bool) \<Rightarrow> job \<Rightarrow> bool" where
  "at d dd own P j \<longleftrightarrow> descriptor j = d \<and> directory_descriptor j = dd \<and> temporary_owned j = own \<and> P (on_host j)"

lemma hosted_at:
  "triple P m (\<lambda>_. Q) E \<Longrightarrow> triple (at d dd own P) (hosted m) (\<lambda>_. at d dd own Q) (at d dd own E)"
  by (fastforce simp: triple_def at_def hosted_def split: prod.splits sum.splits)

lemma assign_triple: "(\<And>j. P j \<Longrightarrow> Q () (f j)) \<Longrightarrow> triple P (assign f) Q E"
  by (simp add: triple_def assign_def)

text \<open>Where the \<open>try\<close> block can stop, and where it ends.\<close>

definition stopped :: "os_host \<Rightarrow> string \<Rightarrow> string \<Rightarrow> string \<Rightarrow> job \<Rightarrow> bool" where
  "stopped h0 tmp dst payload j \<longleftrightarrow>
     \<not> temporary_owned j \<and> untouched h0 (on_host j) \<or>
     temporary_owned j \<and> (\<exists>t. staged h0 tmp t (on_host j)) \<or>
     \<not> temporary_owned j \<and> replaced h0 tmp dst payload (on_host j)"

lemma stoppedI:
  "at d dd False (untouched h0) j \<Longrightarrow> stopped h0 tmp dst payload j"
  "at d dd True (staged h0 tmp t) j \<Longrightarrow> stopped h0 tmp dst payload j"
  "at d dd True (\<lambda>h. \<exists>t. staged h0 tmp t h) j \<Longrightarrow> stopped h0 tmp dst payload j"
  "at d dd False (replaced h0 tmp dst payload) j \<Longrightarrow> stopped h0 tmp dst payload j"
  by (auto simp: at_def stopped_def)

lemma touch_at:
  "(\<And>h n. P h \<Longrightarrow> P (h\<lparr>calls := n\<rparr>)) \<Longrightarrow> (\<And>j. at d dd own P j \<Longrightarrow> E j) \<Longrightarrow>
     triple (at d dd own P) (hosted os_touch) (\<lambda>_. at d dd own P) E"
  by (rule triple_mono [OF hosted_at [OF touch_keeps]]) auto

lemma steps_stopped:
  assumes "tmp \<noteq> dst"
  shows "triple (at False False False (untouched h0)) (replace_steps durable tmp dst payload)
    (\<lambda>_. at False durable False (replaced h0 tmp dst payload)) (stopped h0 tmp dst payload)"
  unfolding replace_steps_def
proof (intro triple_bind)
  let ?E = "stopped h0 tmp dst payload" and ?S = "at True False True (staged h0 tmp payload)"
  show "triple (at False False False (untouched h0)) (hosted (os_create tmp))
      (\<lambda>_. at False False False (staged h0 tmp [])) ?E"
    by (rule triple_mono [OF hosted_at [OF create_staged]]) (auto intro: stoppedI)
  show "triple (at False False False (staged h0 tmp [])) (assign (\<lambda>j. j\<lparr>descriptor := True, temporary_owned := True\<rparr>))
      (\<lambda>_. at True False True (staged h0 tmp [])) ?E"
    by (rule assign_triple) (simp add: at_def)
  show "triple (at True False True (staged h0 tmp [])) (hosted (write_all tmp payload)) (\<lambda>_. ?S) ?E"
    using write_all_staged [of h0 tmp "[]" payload]
    by (intro triple_mono [OF hosted_at]) (auto intro: stoppedI)
  show "triple ?S (if durable then hosted os_touch else ret ()) (\<lambda>_. ?S) ?E"
    by (auto intro!: touch_at intro: stoppedI)
  show "triple ?S (hosted os_touch) (\<lambda>_. ?S) ?E"
    by (auto intro!: touch_at intro: stoppedI)
  show "triple ?S (assign (descriptor_update (\<lambda>_. False))) (\<lambda>_. at False False True (staged h0 tmp payload)) ?E"
    by (rule assign_triple) (simp add: at_def)
  show "triple (at False False True (staged h0 tmp payload)) (hosted (os_replace tmp dst))
      (\<lambda>_. at False False True (replaced h0 tmp dst payload)) ?E"
    by (rule triple_mono [OF hosted_at [OF replace_staged [OF assms]]]) (auto intro: stoppedI)
  show "triple (at False False True (replaced h0 tmp dst payload)) (assign (temporary_owned_update (\<lambda>_. False)))
      (\<lambda>_. at False False False (replaced h0 tmp dst payload)) ?E"
    by (rule assign_triple) (simp add: at_def)
  have "triple (at False False False (replaced h0 tmp dst payload)) sync_directory
      (\<lambda>_. at False True False (replaced h0 tmp dst payload)) ?E"
    unfolding sync_directory_def
    by (rule triple_bind [OF touch_at triple_bind [OF assign_triple touch_at]])
      (auto intro: stoppedI simp: at_def)
  then show "triple (at False False False (replaced h0 tmp dst payload)) (if durable then sync_directory else ret ())
      (\<lambda>_. at False durable False (replaced h0 tmp dst payload)) ?E"
    by auto
qed

lemma unlink_staged:
  "triple (staged h0 tmp t) (os_unlink tmp) (\<lambda>_. untouched h0) (staged h0 tmp t)"
  unfolding os_unlink_def by (rule triple_syscall) (auto simp: staged_def untouched_def file_simps)


text \<open>Whatever the clean-up meets, it only ever removes the temporary file of this replacement.\<close>

definition settled :: "os_host \<Rightarrow> string \<Rightarrow> string \<Rightarrow> string \<Rightarrow> os_host \<Rightarrow> bool" where
  "settled h0 tmp dst payload h \<longleftrightarrow>
     untouched h0 h \<or> (\<exists>t. staged h0 tmp t h) \<or> replaced h0 tmp dst payload h"

lemma settled_calls [simp]: "settled h0 tmp dst payload (h\<lparr>calls := n\<rparr>) = settled h0 tmp dst payload h"
  by (simp add: settled_def)

definition settling :: "os_host \<Rightarrow> string \<Rightarrow> string \<Rightarrow> string \<Rightarrow> bool \<Rightarrow> job \<Rightarrow> bool" where
  "settling h0 tmp dst payload own j \<longleftrightarrow> settled h0 tmp dst payload (on_host j) \<and>
     (own \<longrightarrow> (\<exists>t. staged h0 tmp t (on_host j)))"

lemma touch_settling:
  "triple (settling h0 tmp dst payload own) (hosted os_touch) (\<lambda>_. settling h0 tmp dst payload own)
     (settling h0 tmp dst payload own)"
  by (auto simp: triple_def hosted_def os_touch_def syscall_def Let_def settling_def split: sys_outcome.splits)

lemma unlink_settling:
  "triple (settling h0 tmp dst payload True) (hosted (os_unlink tmp)) (\<lambda>_. settling h0 tmp dst payload False)
     (settling h0 tmp dst payload False)"
proof (rule tripleI)
  fix j r j' assume "settling h0 tmp dst payload True j" and r: "hosted (os_unlink tmp) j = (r, j')"
  then obtain t where t: "staged h0 tmp t (on_host j)" by (auto simp: settling_def)
  obtain h' where h': "os_unlink tmp (on_host j) = (r, h')" "on_host j' = h'"
    using r by (auto simp: hosted_def split: prod.splits)
  then show "case r of Inr x \<Rightarrow> settling h0 tmp dst payload False j' | Inl e \<Rightarrow> settling h0 tmp dst payload False j'"
    using triple_returns [OF unlink_staged t] triple_raises [OF unlink_staged t]
    by (cases r) (auto simp: settling_def settled_def)
qed

lemma triple_collected: "triple P m (\<lambda>_. Q) Q \<Longrightarrow> triple P (collected m) (\<lambda>_. Q) E"
  by (fastforce simp: triple_def collected_def split: prod.splits sum.splits)

lemma cleanup_settles:
  assumes "settling h0 tmp dst payload (temporary_owned j) j"
  shows "settled h0 tmp dst payload (on_host (snd (finally_block durable tmp pf j)))"
proof -
  let ?S = "settling h0 tmp dst payload"
  let ?own = "temporary_owned j"
  have weak: "?S own k \<Longrightarrow> ?S False k" for own k by (simp add: settling_def)
  have touch: "triple (?S own) (if b then hosted os_touch else ret ()) (\<lambda>_. ?S own) (?S False)" for b own
    by (auto intro: triple_mono [OF touch_settling] weak)
  have gather: "triple (?S own) (if b then collected (hosted os_touch) else ret []) (\<lambda>_. ?S own) (?S False)" for b own
    by (auto intro: triple_collected touch_settling)
  have drop: "triple (?S ?own) (if ?own then hosted (os_unlink tmp) else ret ()) (\<lambda>_. ?S False) (?S False)"
    using unlink_settling by (auto intro: weak)
  have gdrop: "triple (?S ?own) (if ?own then collected (hosted (os_unlink tmp)) else ret []) (\<lambda>_. ?S False) (?S False)"
    using unlink_settling by (auto intro: triple_collected weak)
  have report: "triple (?S False) (case fs of e # _ \<Rightarrow> if pf then ret () else throw e | [] \<Rightarrow> ret ()) (\<lambda>_. ?S False) (?S False)"
    for fs by (auto split: list.splits)
  obtain r k where rk: "finally_block durable tmp pf j = (r, k)" by fastforce
  have "?S False k"
  proof (cases durable)
    case True
    have "triple (?S ?own) (io_bind (if descriptor j then hosted os_touch else ret ()) (\<lambda>_.
        io_bind (if directory_descriptor j then hosted os_touch else ret ()) (\<lambda>_.
        if ?own then hosted (os_unlink tmp) else ret ()))) (\<lambda>_. ?S False) (?S False)"
      by (intro triple_bind [OF touch] triple_bind [OF touch] drop)
    from triple_returns [OF this assms] triple_raises [OF this assms] show ?thesis
      using rk True by (cases r) (auto simp: finally_block_def cleanup_durable_def)
  next
    case False
    have "triple (?S ?own) (io_bind (if descriptor j then collected (hosted os_touch) else ret []) (\<lambda>f1.
        io_bind (if directory_descriptor j then collected (hosted os_touch) else ret []) (\<lambda>f2.
        io_bind (if ?own then collected (hosted (os_unlink tmp)) else ret []) (\<lambda>f3.
        case f1 @ f2 @ f3 of e # _ \<Rightarrow> if pf then ret () else throw e | [] \<Rightarrow> ret ())))) (\<lambda>_. ?S False) (?S False)"
      by (intro triple_bind [OF gather] triple_bind [OF gather] triple_bind [OF gdrop] report)
    from triple_returns [OF this assms] triple_raises [OF this assms] show ?thesis
      using rk False by (cases r) (auto simp: finally_block_def cleanup_nondurable_def)
  qed
  with rk show ?thesis by (simp add: settling_def)
qed

lemma cleanup_done:
  assumes "at False durable False (replaced h0 tmp dst payload) j"
  shows "replaced h0 tmp dst payload (on_host (snd (finally_block durable tmp pf j)))"
  using assms
  by (auto simp: at_def finally_block_def cleanup_durable_def cleanup_nondurable_def io_bind_def hosted_def os_touch_def syscall_def
      Let_def split: sys_outcome.splits)


lemma replace_bytes_settles:
  assumes tmp: "temporary_path dst h = Inr tmp" "tmp \<noteq> dst" and run: "replace_bytes durable dst payload h = (r, h')"
  shows "settled h tmp dst payload h'" and "r = Inr () \<Longrightarrow> replaced h tmp dst payload h'"
proof -
  let ?j = "\<lparr>on_host = h, descriptor = False, directory_descriptor = False, temporary_owned = False\<rparr>"
  have start: "at False False False (untouched h) ?j" by (simp add: at_def untouched_def)
  obtain q j where q: "replace_steps durable tmp dst payload ?j = (q, j)" by fastforce
  let ?c = "finally_block durable tmp (case q of Inl _ \<Rightarrow> True | Inr _ \<Rightarrow> False) j"
  have h': "h' = on_host (snd ?c)" and r: "r = (case fst ?c of Inl e \<Rightarrow> Inl e | Inr _ \<Rightarrow> q)"
    using run q tmp(1) by (auto simp: replace_bytes_def split: prod.splits sum.splits)
  note steps = steps_stopped [OF tmp(2), of h durable payload]
  show "settled h tmp dst payload h'"
  proof (unfold h', rule cleanup_settles)
    show "settling h tmp dst payload (temporary_owned j) j"
      using triple_returns [OF steps start] triple_raises [OF steps start] q
      by (cases q) (fastforce simp: settling_def settled_def stopped_def at_def)+
  qed
  assume "r = Inr ()"
  then obtain u where u: "q = Inr u" using r by (cases q) (auto split: sum.splits)
  with triple_returns [OF steps start] q have j: "at False durable False (replaced h tmp dst payload) j" by simp
  show "replaced h tmp dst payload h'" unfolding h' by (rule cleanup_done [OF j])
qed

lemma atomic_text:
  assumes "temporary_path dst h = Inr tmp" "tmp \<noteq> dst" "atomic_write_text dst content h = (r, h')"
  shows "clock h' = clock h" "hread h' dst = hread h dst \<or> hread h' dst = Some content"
    "r = Inr () \<Longrightarrow> hread h' dst = Some content" "q \<noteq> dst \<Longrightarrow> q \<noteq> tmp \<Longrightarrow> hread h' q = hread h q"
  using replace_bytes_settles [OF assms(1,2), of False content r h'] assms
  by (auto simp: atomic_write_text_def atomic_write_bytes_def settled_def untouched_def staged_def replaced_def)

text \<open>
  C10: for every behaviour of the system calls, a replacement leaves in the destination either what
  was there before or the complete new content, changes no other file but its temporary one, and
  does not touch a file that already has the temporary name; when it returns without raising, the
  destination holds the new content and the temporary file is gone. A crash after any system
  call is the case of a plan that refuses all later ones.
\<close>

theorem replacement_is_atomic:
  assumes "temporary_path dst h = Inr tmp" "tmp \<noteq> dst" "replace_bytes durable dst payload h = (r, h')"
  shows "hread h' dst \<in> {hread h dst, Some payload}
    \<and> (\<forall>q. q \<noteq> dst \<longrightarrow> q \<noteq> tmp \<longrightarrow> hread h' q = hread h q)
    \<and> (hread h tmp \<noteq> None \<longrightarrow> hread h' tmp = hread h tmp)
    \<and> (r = Inr () \<longrightarrow> hread h' dst = Some payload \<and> hread h' tmp = None)"
proof -
  note settles = replace_bytes_settles [OF assms]
  have "r = Inr () \<longrightarrow> hread h' dst = Some payload \<and> hread h' tmp = None"
    using settles(2) by (simp add: replaced_def)
  moreover have "hread h' dst \<in> {hread h dst, Some payload}"
    "\<forall>q. q \<noteq> dst \<longrightarrow> q \<noteq> tmp \<longrightarrow> hread h' q = hread h q"
    "hread h tmp \<noteq> None \<longrightarrow> hread h' tmp = hread h tmp"
    using settles(1) assms(2) by (auto simp: settled_def untouched_def staged_def replaced_def)
  ultimately show ?thesis by blast
qed

definition demo_os :: os_host where
  "demo_os = \<lparr>hfiles = [(''run/state.json'', ''old'')],
     plan = (\<lambda>n. if n = 1 then Proceed 2 else if n = 5 then Refuse else Proceed 9), calls = 0,
     clock = (\<lambda>_. ''now''), ticks = 0, token = (\<lambda>_. ''1-ab'')\<rparr>"

theorem replacement_is_atomic_witness:
  "hread (snd (replace_bytes False ''run/state.json'' ''new'' demo_os)) ''run/state.json'' = Some ''new''
    \<and> fst (replace_bytes False ''run/state.json'' ''new'' demo_os) = Inr ()"
proof -
  have t: "temporary_path ''run/state.json'' demo_os = Inr ''run/.orc-tmp-1-ab.tmp''" by code_simp
  obtain r h' where rh: "replace_bytes False ''run/state.json'' ''new'' demo_os = (r, h')" by fastforce
  have "fst (replace_bytes False ''run/state.json'' ''new'' demo_os) = Inr ()" by code_simp
  with rh replacement_is_atomic [OF t _ rh] show ?thesis by simp
qed


section \<open>A replacement that is let through returns\<close>

text \<open>No call is refused and every write takes at least one byte.\<close>

definition willing :: "os_host \<Rightarrow> bool" where
  "willing h \<longleftrightarrow> (\<forall>n. \<exists>k. plan h n = Proceed (Suc k))"

lemma willing_syscall: "willing h \<Longrightarrow> \<exists>k. syscall f h = f (h\<lparr>calls := Suc (calls h)\<rparr>) (Suc k)"
  unfolding willing_def syscall_def Let_def by (erule allE [of _ "calls h"]) auto

lemma willing_cong: "plan h' = plan h \<Longrightarrow> willing h' = willing h"
  by (simp add: willing_def)

lemma willing_touch: "willing h \<Longrightarrow> os_touch h = (Inr (), h\<lparr>calls := Suc (calls h)\<rparr>)"
  using willing_syscall [of h "\<lambda>h _. (Inr (), h)"] by (auto simp: os_touch_def)

lemma willing_create:
  "willing h \<Longrightarrow> hread h p = None \<Longrightarrow> os_create p h = (Inr (), h\<lparr>calls := Suc (calls h), hfiles := AList.update p [] (hfiles h)\<rparr>)"
  using willing_syscall [of h "\<lambda>h _. if hread h p \<noteq> None then (Inl OSError, h) else (Inr (), h\<lparr>hfiles := AList.update p [] (hfiles h)\<rparr>)"]
  by (auto simp: os_create_def)

lemma willing_replace:
  "willing h \<Longrightarrow> hread h src = Some t \<Longrightarrow>
     os_replace src dst h = (Inr (), h\<lparr>calls := Suc (calls h), hfiles := AList.update dst t (AList.delete src (hfiles h))\<rparr>)"
  using willing_syscall [of h "\<lambda>h _. case hread h src of None \<Rightarrow> (Inl OSError, h)
    | Some t \<Rightarrow> (Inr (), h\<lparr>hfiles := AList.update dst t (AList.delete src (hfiles h))\<rparr>)"]
  by (auto simp: os_replace_def)

lemma willing_write_all:
  "willing h \<Longrightarrow> hread h p = Some t \<Longrightarrow> \<exists>h' u. write_all p bs h = (Inr (), h') \<and> plan h' = plan h \<and> token h' = token h \<and> hread h' p = Some u"
proof (induction p bs h arbitrary: t rule: write_all.induct)
  case (1 p bs h)
  show ?case
  proof (cases "bs = []")
    case True
    with 1 show ?thesis by (auto simp: write_all.simps)
  next
    case False
    obtain k where k: "os_write p bs h = (Inr (min (Suc k) (length bs)),
        h\<lparr>calls := Suc (calls h), hfiles := AList.update p (t @ take (Suc k) bs) (hfiles h)\<rparr>)" (is "_ = (Inr ?n, ?h)")
      using willing_syscall [OF 1(2), of "\<lambda>h k. case hread h p of None \<Rightarrow> (Inl OSError, h)
        | Some t \<Rightarrow> (Inr (min k (length bs)), h\<lparr>hfiles := AList.update p (t @ take k bs) (hfiles h)\<rparr>)"] 1(3)
      by (auto simp: os_write_def)
    have n: "?n \<noteq> 0" using False by simp
    have "willing ?h" "hread ?h p = Some (t @ take (Suc k) bs)" using 1(2) by (simp_all add: willing_def file_simps)
    from 1(1) [OF False k [symmetric] refl n this] show ?thesis using k False n by (simp add: write_all.simps [of p bs])
  qed
qed

lemma willing_steps:
  assumes "willing h" "hread h tmp = None"
  obtains h' where "replace_steps durable tmp dst payload \<lparr>on_host = h, descriptor = False, directory_descriptor = False, temporary_owned = False\<rparr>
    = (Inr (), \<lparr>on_host = h', descriptor = False, directory_descriptor = durable, temporary_owned = False\<rparr>)"
    "plan h' = plan h" "token h' = token h"
proof -
  let ?h1 = "h\<lparr>calls := Suc (calls h), hfiles := AList.update tmp [] (hfiles h)\<rparr>"
  have "willing ?h1" "hread ?h1 tmp = Some []" using assms(1) by (simp_all add: willing_def file_simps)
  then obtain h2 u where h2: "write_all tmp payload ?h1 = (Inr (), h2)" "plan h2 = plan h" "token h2 = token h" "hread h2 tmp = Some u"
    using willing_write_all [of ?h1 tmp "[]" payload] by auto
  have w: "willing (h2\<lparr>calls := n\<rparr>)" "willing (h2\<lparr>hfiles := fs, calls := n\<rparr>)" "willing (h2\<lparr>calls := n, hfiles := fs\<rparr>)" "willing h2" for n fs
    using assms(1) h2(2) by (simp_all add: willing_def)
  have "\<exists>h'. replace_steps durable tmp dst payload \<lparr>on_host = h, descriptor = False, directory_descriptor = False, temporary_owned = False\<rparr>
    = (Inr (), \<lparr>on_host = h', descriptor = False, directory_descriptor = durable, temporary_owned = False\<rparr>) \<and> plan h' = plan h \<and> token h' = token h"
    by (cases durable) (simp_all add: replace_steps_def sync_directory_def io_bind_def hosted_def assign_def
        willing_create [OF assms] h2 willing_touch w willing_replace)
  with that show ?thesis by blast
qed

lemma willing_cleanup:
  assumes "willing h"
  shows "\<exists>h'. finally_block durable tmp False \<lparr>on_host = h, descriptor = False, directory_descriptor = durable, temporary_owned = False\<rparr>
    = (Inr (), \<lparr>on_host = h', descriptor = False, directory_descriptor = durable, temporary_owned = False\<rparr>) \<and> plan h' = plan h \<and> token h' = token h"
  using willing_touch [OF assms]
  by (cases durable) (auto simp: finally_block_def cleanup_durable_def cleanup_nondurable_def hosted_def)

lemma willing_replaces:
  assumes "willing h" "temporary_path dst h = Inr tmp" "tmp \<noteq> dst" "hread h tmp = None"
  obtains h' where "replace_bytes durable dst payload h = (Inr (), h')" "replaced h tmp dst payload h'" "plan h' = plan h" "token h' = token h"
proof -
  obtain h1 where h1: "replace_steps durable tmp dst payload \<lparr>on_host = h, descriptor = False, directory_descriptor = False, temporary_owned = False\<rparr>
    = (Inr (), \<lparr>on_host = h1, descriptor = False, directory_descriptor = durable, temporary_owned = False\<rparr>)"
    "plan h1 = plan h" "token h1 = token h" by (rule willing_steps [OF assms(1,4)])
  have "willing h1" using assms(1) h1(2) by (simp add: willing_def)
  from willing_cleanup [OF this, of durable tmp] obtain h2 where "replace_bytes durable dst payload h = (Inr (), h2)"
    "plan h2 = plan h" "token h2 = token h"
    using h1 assms(2) by (auto simp: replace_bytes_def)
  with that replace_bytes_settles(2) [OF assms(2,3)] show ?thesis by blast
qed

text \<open>
  C11: a replacement makes progress. If no system call is refused, every write takes at least one
  byte and the temporary name is free, the loop of partial writes ends and the replacement
  returns with the new content in place.
\<close>

theorem replacement_returns:
  assumes "willing h" "temporary_path dst h = Inr tmp" "tmp \<noteq> dst" "hread h tmp = None"
  shows "\<exists>h'. replace_bytes durable dst payload h = (Inr (), h') \<and> hread h' dst = Some payload \<and> hread h' tmp = None"
  by (rule willing_replaces [OF assms, of durable payload]) (auto simp: replaced_def)

theorem replacement_returns_witness:
  "\<exists>h'. replace_bytes True ''run/state.json'' ''new'' (demo_os\<lparr>plan := \<lambda>_. Proceed 1\<rparr>) = (Inr (), h')
    \<and> hread h' ''run/state.json'' = Some ''new''"
proof -
  let ?h = "demo_os\<lparr>plan := \<lambda>_. Proceed 1\<rparr>"
  have "willing ?h" by (simp add: willing_def)
  moreover have "temporary_path ''run/state.json'' ?h = Inr ''run/.orc-tmp-1-ab.tmp''" by code_simp
  moreover have "hread ?h ''run/.orc-tmp-1-ab.tmp'' = None" by (simp add: demo_os_def hread_def)
  ultimately show ?thesis using replacement_returns [of ?h "''run/state.json''" "''run/.orc-tmp-1-ab.tmp''" True "''new''"] by auto
qed

end
