(* ===== verification/StateManager.thy ===== *)
theory StateManager
  imports RunState AtomicWrite
begin

text \<open>
  The state manager, second part of \<open>orchestrator/state.py\<close>: the run state in memory, the document
  \<open>state.json\<close> on the host of \<^verbatim>\<open>AtomicWrite\<close>, and every operation of the class. An operation mutates
  the state in memory and then replaces the document atomically. The in-process lock is not part
  of the model: operations are taken one after the other. Values are copied, as \<open>deepcopy\<close> does
  where the source uses it. Directories exist, and reading a file that exists does not fail. SHA-256 is the
  argument \<open>sha\<close>.
\<close>

section \<open>The manager\<close>

record StateManager =
  workspace :: string
  manager_run_id :: string
  manager_run_root :: string
  backup_enabled :: bool
  state :: "RunState option"
  machine :: os_host

type_synonym 'a sm = "(StateManager, 'a) act"

text \<open>\<open>parent / name\<close> for a directory and a relative name without separators.\<close>

definition child_path :: "string \<Rightarrow> string \<Rightarrow> string" where
  "child_path parent name = parent @ ''/'' @ name"

definition state_file :: "StateManager \<Rightarrow> string" where
  "state_file m = child_path (manager_run_root m) ''state.json''"

definition make_manager :: "string \<Rightarrow> string \<Rightarrow> bool \<Rightarrow> bool \<Rightarrow> string option \<Rightarrow> os_host \<Rightarrow> StateManager" where
  "make_manager workspace_dir rid backups debug state_dir h =
     \<lparr>workspace = workspace_dir, manager_run_id = rid,
      manager_run_root = child_path (case state_dir of Some d \<Rightarrow> d | None \<Rightarrow> child_path (child_path workspace_dir ''.orchestrate'') ''runs'') rid,
      backup_enabled = (backups \<or> debug), state = None, machine = h\<rparr>"

definition on_machine :: "(os_host, 'a) act \<Rightarrow> 'a sm" where
  "on_machine f = (\<lambda>m. case f (machine m) of (r, h) \<Rightarrow> (r, m\<lparr>machine := h\<rparr>))"

text \<open>\<open>datetime.now(timezone.utc).isoformat()\<close>\<close>

definition now :: "string sm" where
  "now = (\<lambda>m. (Inr (clock (machine m) (ticks (machine m))),
     m\<lparr>machine := (machine m)\<lparr>ticks := Suc (ticks (machine m))\<rparr>\<rparr>))"

definition file_exists :: "StateManager \<Rightarrow> string \<Rightarrow> bool" where
  "file_exists m p \<longleftrightarrow> hread (machine m) p \<noteq> None"

definition read_file :: "string \<Rightarrow> string sm" where
  "read_file p = (\<lambda>m. ((case hread (machine m) p of None \<Rightarrow> Inl OSError | Some t \<Rightarrow> Inr t), m))"

text \<open>\<open>json.load\<close> of an open file.\<close>

definition load_json :: "string \<Rightarrow> pyval sm" where
  "load_json p = io_bind (read_file p) (\<lambda>t. pure (json_loads t))"

text \<open>A write that is not atomic: \<open>Path.write_text\<close> and the copy of \<open>shutil.copy2\<close>.\<close>

definition set_content :: "string \<Rightarrow> string \<Rightarrow> unit sm" where
  "set_content p t = modify (\<lambda>m. m\<lparr>machine := (machine m)\<lparr>hfiles := AList.update p t (hfiles (machine m))\<rparr>\<rparr>)"

definition remove_file :: "string \<Rightarrow> unit sm" where
  "remove_file p = modify (\<lambda>m. m\<lparr>machine := (machine m)\<lparr>hfiles := AList.delete p (hfiles (machine m))\<rparr>\<rparr>)"

abbreviation not_initialized :: exc where
  "not_initialized \<equiv> RuntimeError ''State not initialized''"

text \<open>Code that mutates \<open>self.state\<close> in place, with the guard every operation has.\<close>

definition mutating :: "(RunState, 'a) act \<Rightarrow> 'a sm" where
  "mutating f = (\<lambda>m. case state m of
      None \<Rightarrow> (Inl not_initialized, m)
    | Some s \<Rightarrow> (case f s of (r, s') \<Rightarrow> (r, m\<lparr>state := Some s'\<rparr>)))"

definition write_json_atomic :: "string \<Rightarrow> pydict \<Rightarrow> unit sm" where
  "write_json_atomic p payload = on_machine (atomic_write_text p (json_dumps_ascii (PDict payload)))"

definition write_state :: "unit sm" where
  "write_state = (\<lambda>m. case state m of
      None \<Rightarrow> (Inl (RuntimeError ''No state to write''), m)
    | Some _ \<Rightarrow>
        io_bind now (\<lambda>t.
        io_bind (mutating (modify (\<lambda>s. s\<lparr>run_updated_at := PStr t\<rparr>))) (\<lambda>_.
        io_bind (mutating (check to_dict)) (\<lambda>d.
        (\<lambda>m'. write_json_atomic (state_file m') d m')))) m)"

text \<open>The shape of most operations: mutate, then write.\<close>

definition updating :: "(RunState, 'a) act \<Rightarrow> 'a sm" where
  "updating f = io_bind (mutating f) (\<lambda>x. io_bind write_state (\<lambda>_. ret x))"

definition read_state_from_disk :: "(string \<Rightarrow> string) \<Rightarrow> RunState sm" where
  "read_state_from_disk sha = (\<lambda>m. io_bind (load_json (state_file m)) (\<lambda>payload.
     case payload of PDict kv \<Rightarrow> pure (from_dict sha kv) | _ \<Rightarrow> throw ValueError) m)"

definition set_state :: "RunState \<Rightarrow> unit sm" where
  "set_state s = modify (\<lambda>m. m\<lparr>state := Some s\<rparr>)"

text \<open>\<open>except BaseException\<close>: reload when the document exists, then raise again.\<close>

definition reloading :: "(string \<Rightarrow> string) \<Rightarrow> 'a sm \<Rightarrow> 'a sm" where
  "reloading sha f = (\<lambda>m. case f m of
      (Inr x, m') \<Rightarrow> (Inr x, m')
    | (Inl e, m') \<Rightarrow>
        if file_exists m' (state_file m') then
          io_bind (read_state_from_disk sha) (\<lambda>s. io_bind (set_state s) (\<lambda>_. throw e)) m'
        else (Inl e, m'))"

definition state_transaction :: "(string \<Rightarrow> string) \<Rightarrow> (RunState, 'a) act \<Rightarrow> 'a sm" where
  "state_transaction sha body = (\<lambda>m. case state m of
      None \<Rightarrow> (Inl not_initialized, m)
    | Some _ \<Rightarrow> reloading sha (updating body) m)"

section \<open>Starting and loading a run\<close>

definition SCHEMA_VERSION :: string where
  "SCHEMA_VERSION = ''2.1''"

definition or_empty :: "pyval \<Rightarrow> pyval" where
  "or_empty v = (if py_bool v then v else PDict [])"

definition new_state :: "StateManager \<Rightarrow> string \<Rightarrow> string \<Rightarrow> string \<Rightarrow> pyval \<Rightarrow> pyval \<Rightarrow> pyval \<Rightarrow> pyval \<Rightarrow> RunState" where
  "new_state m workflow_file checksum t ctx inputs observability profile =
     \<lparr>run_schema_version = PStr SCHEMA_VERSION, run_id = PStr (manager_run_id m), run_workflow_file = PStr workflow_file,
      run_workflow_checksum = PStr checksum, run_started_at = PStr t, run_updated_at = PStr t,
      run_status = PStr ''running'', run_result_persistence_profile = profile, run_root = PStr (manager_run_root m),
      run_ref_root = PNone, run_context = or_empty ctx, run_bound_inputs = or_empty inputs, run_workflow_outputs = PDict [],
      run_finalization = PDict [], run_error = PNone, run_observability = observability, run_runtime_observability = PNone,
      run_current_step = PNone, run_steps = Steps [], run_for_each = [], run_repeat_until = PDict [],
      run_call_frames = PDict [], run_artifact_versions = PDict [], run_artifact_consumes = PDict [],
      run_private_artifact_versions = PDict [], run_private_artifact_consumes = PDict [],
      run_transition_count = PInt 0, run_step_visits = PDict [], run_provider_attempt_allocations = PDict []\<rparr>"

text \<open>\<open>workspace / workflow_file\<close>: an absolute workflow file replaces the workspace.\<close>

definition workflow_path :: "StateManager \<Rightarrow> string \<Rightarrow> string" where
  "workflow_path m f = path_str (joinpath (PurePosixPath (workspace m)) (PurePosixPath f))"

definition calculate_checksum :: "(string \<Rightarrow> string) \<Rightarrow> string \<Rightarrow> string sm" where
  "calculate_checksum sha p = io_bind (read_file p) (\<lambda>t. ret (''sha256:'' @ sha t))"

definition initialize :: "(string \<Rightarrow> string) \<Rightarrow> string \<Rightarrow> pyval \<Rightarrow> pyval \<Rightarrow> pyval \<Rightarrow> pyval \<Rightarrow> unit sm" where
  "initialize sha workflow_file ctx inputs observability profile =
     io_bind (pure (require (profile = PNone \<or> profile_ok profile) ValueError)) (\<lambda>_.
     (\<lambda>m. io_bind (calculate_checksum sha (workflow_path m workflow_file)) (\<lambda>checksum.
        io_bind now (\<lambda>t.
        io_bind (set_state (new_state m workflow_file checksum t ctx inputs observability profile)) (\<lambda>_.
        write_state))) m))"

definition load :: "(string \<Rightarrow> string) \<Rightarrow> unit sm" where
  "load sha = (\<lambda>m. io_bind (load_json (state_file m)) (\<lambda>payload.
     case payload of PDict kv \<Rightarrow> io_bind (pure (from_dict sha kv)) set_state | _ \<Rightarrow> throw AttributeError) m)"

definition validate_checksum :: "(string \<Rightarrow> string) \<Rightarrow> string \<Rightarrow> StateManager \<Rightarrow> bool" where
  "validate_checksum sha workflow_file m = (case state m of
      None \<Rightarrow> False
    | Some s \<Rightarrow> (case hread (machine m) (workflow_path m workflow_file) of
        None \<Rightarrow> False
      | Some t \<Rightarrow> run_workflow_checksum s = PStr (''sha256:'' @ sha t)))"

section \<open>Sidecars and provider sessions\<close>

definition read_runtime_sidecar_json :: "string \<Rightarrow> pyval sm" where
  "read_runtime_sidecar_json p = (\<lambda>m. if \<not> file_exists m p then (Inr PNone, m)
     else io_bind (load_json p) (\<lambda>payload. if is_mapping payload then ret payload else throw ValueError) m)"

definition write_runtime_sidecar_json :: "string \<Rightarrow> pydict \<Rightarrow> unit sm" where
  "write_runtime_sidecar_json p payload = write_json_atomic p payload"

definition checkpoint_report_path :: "string \<Rightarrow> StateManager \<Rightarrow> string" where
  "checkpoint_report_path name m = child_path (child_path (child_path (manager_run_root m) ''workflow_lisp'') ''checkpoints'') name"

definition workflow_lisp_checkpoint_shadow_report_path :: "StateManager \<Rightarrow> string" where
  "workflow_lisp_checkpoint_shadow_report_path = checkpoint_report_path ''shadow_report.json''"

definition workflow_lisp_checkpoint_restore_report_path :: "StateManager \<Rightarrow> string" where
  "workflow_lisp_checkpoint_restore_report_path = checkpoint_report_path ''restore_report.json''"

definition workflow_lisp_checkpoint_default_resume_report_path :: "StateManager \<Rightarrow> string" where
  "workflow_lisp_checkpoint_default_resume_report_path = checkpoint_report_path ''default_resume_report.json''"

definition provider_session_paths :: "string \<Rightarrow> int \<Rightarrow> StateManager \<Rightarrow> string \<times> string" where
  "provider_session_paths sid visits m =
     (let safe = map (\<lambda>c. if c = CHR ''/'' then CHR ''_'' else c) sid;
          root = child_path (manager_run_root m) ''provider_sessions'';
          visit_key = safe @ ''__v'' @ int_repr visits
      in (child_path root (visit_key @ ''.json''), child_path root (visit_key @ ''.transport.log'')))"

definition session_metadata :: "StateManager \<Rightarrow> string \<Rightarrow> string \<Rightarrow> string \<Rightarrow> int \<Rightarrow> string \<Rightarrow> string \<Rightarrow> string \<Rightarrow> pydict" where
  "session_metadata m provider_name name sid visits mode t spool =
     [(''run_id'', PStr (manager_run_id m)), (''provider'', PStr provider_name), (''step_name'', PStr name),
      (''step_id'', PStr sid), (''visit_count'', PInt visits), (''mode'', PStr mode), (''step_status'', PStr ''running''),
      (''publication_state'', PStr ''pending''), (''session_id'', PNone), (''metadata_mode'', PNone),
      (''command_variant'', PNone), (''resolved_command'', PNone), (''started_at'', PStr t), (''updated_at'', PStr t),
      (''captured_transport_bytes'', PInt 0), (''parser_summary'', PDict []), (''transport_spool_path'', PStr spool)]"

definition initialize_provider_session_visit :: "string \<Rightarrow> string \<Rightarrow> string \<Rightarrow> int \<Rightarrow> string \<Rightarrow> pydict sm" where
  "initialize_provider_session_visit provider_name name sid visits mode = (\<lambda>m.
     let (metadata_path, spool) = provider_session_paths sid visits m in
     io_bind (set_content spool []) (\<lambda>_.
     io_bind now (\<lambda>t.
     io_bind (write_json_atomic metadata_path (session_metadata m provider_name name sid visits mode t spool)) (\<lambda>_.
     ret [(''metadata_path'', PStr metadata_path), (''transport_spool_path'', PStr spool)]))) m)"

text \<open>\<open>payload.update(updates)\<close>\<close>

definition dict_update :: "pyval \<Rightarrow> pydict \<Rightarrow> exc + pydict" where
  "dict_update payload updates = (case payload of
      PDict kv \<Rightarrow> Inr (fold (\<lambda>(k, v) acc. AList.update k v acc) updates kv) | _ \<Rightarrow> Inl AttributeError)"

definition update_provider_session_metadata :: "string \<Rightarrow> pydict \<Rightarrow> pydict sm" where
  "update_provider_session_metadata p updates = (\<lambda>m.
     io_bind (if file_exists m p then load_json p else ret (PDict [])) (\<lambda>payload.
     io_bind (pure (dict_update payload updates)) (\<lambda>merged.
     io_bind now (\<lambda>t.
     let document = AList.update ''updated_at'' (PStr t) merged in
     io_bind (write_json_atomic p document) (\<lambda>_. ret document)))) m)"


section \<open>Failure and recovery\<close>

text \<open>\<open>x is None or current.get(k) == x\<close>, as a value comparison.\<close>

definition expects :: "pydict \<Rightarrow> string \<Rightarrow> pyval \<Rightarrow> bool" where
  "expects cursor k x \<longleftrightarrow> x = PNone \<or> py_eq (dget cursor k) x"

definition fail_run_state :: "string \<Rightarrow> pyval \<Rightarrow> bool \<Rightarrow> pyval \<Rightarrow> pyval \<Rightarrow> RunState \<Rightarrow> RunState" where
  "fail_run_state t error clear expected_step_id expected_visit_count s =
     (let s1 = s\<lparr>run_status := PStr ''failed'', run_error := error\<rparr> in
      case run_current_step s1 of
        PDict cursor \<Rightarrow>
          if clear then
            if expects cursor ''step_id'' expected_step_id \<and> expects cursor ''visit_count'' expected_visit_count
            then s1\<lparr>run_current_step := PNone\<rparr> else s1
          else s1\<lparr>run_current_step := PDict (AList.update ''failed_at'' (PStr t) (AList.update ''status'' (PStr ''failed'') cursor))\<rparr>
      | _ \<Rightarrow> s1)"

text \<open>The time is read only where the cursor is marked as failed.\<close>

definition fail_run :: "pyval \<Rightarrow> bool \<Rightarrow> pyval \<Rightarrow> pyval \<Rightarrow> unit sm" where
  "fail_run error clear expected_step_id expected_visit_count = (\<lambda>m. case state m of
      None \<Rightarrow> (Inl not_initialized, m)
    | Some s \<Rightarrow>
        io_bind (if \<not> clear \<and> is_mapping (run_current_step s) then now else ret []) (\<lambda>t.
        updating (modify (fail_run_state t error clear expected_step_id expected_visit_count))) m)"

definition cursor_matches :: "pyval \<Rightarrow> pydict \<Rightarrow> bool" where
  "cursor_matches current expected \<longleftrightarrow> is_mapping current \<and> list_all (\<lambda>(k, v). py_eq (dfield current k) v) expected"

definition legacy_error_matches :: "pyval \<Rightarrow> pyval \<Rightarrow> string \<Rightarrow> string \<Rightarrow> int \<Rightarrow> bool" where
  "legacy_error_matches error legacy_type name sid visits \<longleftrightarrow> is_str legacy_type \<and> is_mapping error
     \<and> py_eq (dfield error ''type'') legacy_type
     \<and> cursor_matches (dfield error ''context'') [(''step_name'', PStr name), (''step_id'', PStr sid), (''visit_count'', PInt visits)]"

definition recover_interrupted_provider_visit :: "string \<Rightarrow> string \<Rightarrow> int \<Rightarrow> string \<Rightarrow> pyval \<Rightarrow> unit sm" where
  "recover_interrupted_provider_visit name sid visits expected_status legacy_type =
     updating (io_bind (check (\<lambda>s.
       let current_matches = cursor_matches (run_current_step s)
             [(''name'', PStr name), (''step_id'', PStr sid), (''visit_count'', PInt visits), (''status'', PStr expected_status)];
           legacy_matches = run_current_step s = PNone \<and> legacy_error_matches (run_error s) legacy_type name sid visits
       in rbind (py_get (run_step_visits s) name) (\<lambda>recorded.
          require ((current_matches \<or> legacy_matches) \<and> recorded = PInt visits) TimeoutError))) (\<lambda>_.
     modify (\<lambda>s. s\<lparr>run_current_step := PNone, run_error := PNone, run_status := PStr ''running''\<rparr>)))"

definition record_atomic_root_failure :: "(string \<Rightarrow> string) \<Rightarrow> pydict \<Rightarrow> unit sm" where
  "record_atomic_root_failure sha error = (\<lambda>m. case state m of
      None \<Rightarrow> (Inl not_initialized, m)
    | Some _ \<Rightarrow>
        io_bind (load_json (state_file m)) (\<lambda>payload. case payload of
            PDict kv \<Rightarrow>
              io_bind now (\<lambda>t.
              let document = AList.update ''updated_at'' (PStr t)
                    (AList.update ''error'' (PDict error) (AList.update ''status'' (PStr ''failed'') kv)) in
              io_bind (write_json_atomic (state_file m) document) (\<lambda>_.
              io_bind (pure (from_dict sha document)) set_state))
          | _ \<Rightarrow> throw ValueError) m)"

definition record_workflow_checksum_mismatch :: "(string \<Rightarrow> string) \<Rightarrow> pyval \<Rightarrow> pyval \<Rightarrow> pyval \<Rightarrow> string \<Rightarrow> unit sm" where
  "record_workflow_checksum_mismatch sha workflow_file persisted current reason =
     record_atomic_root_failure sha
       [(''type'', PStr ''workflow_checksum_mismatch''),
        (''message'', PStr ''Workflow has been modified since the run started''),
        (''context'', PDict [(''workflow_file'', workflow_file), (''persisted_checksum'', persisted),
           (''current_checksum'', current), (''reason'', PStr reason)])]"

section \<open>Backups\<close>

definition backup_name :: "string \<Rightarrow> string" where
  "backup_name step = ''state.json.step_'' @ step @ ''.bak''"

text \<open>\<open>directory.glob("state.json.step_*.bak")\<close>, sorted; paths of one directory sort by name.\<close>

definition is_backup_name :: "string \<Rightarrow> bool" where
  "is_backup_name n \<longleftrightarrow> (let p = ''state.json.step_''; q = ''.bak'' in
     length p + length q \<le> length n \<and> take (length p) n = p \<and> drop (length n - length q) n = q \<and> CHR ''/'' \<notin> set n)"

definition backups :: "StateManager \<Rightarrow> string list" where
  "backups m = (let n = length (manager_run_root m) + 1 in
     sort (filter (\<lambda>p. take n p = manager_run_root m @ ''/'' \<and> is_backup_name (drop n p)) (remdups (map fst (hfiles (machine m))))))"

definition MAX_BACKUPS :: nat where
  "MAX_BACKUPS = 3"

fun remove_files :: "string list \<Rightarrow> unit sm" where
  "remove_files [] = ret ()"
| "remove_files (p # ps) = io_bind (remove_file p) (\<lambda>_. remove_files ps)"

definition rotate_backups :: "unit sm" where
  "rotate_backups = (\<lambda>m. if length (backups m) > MAX_BACKUPS
     then remove_files (take (length (backups m) - MAX_BACKUPS) (backups m)) m else (Inr (), m))"

text \<open>A step name with a separator names a directory that does not exist.\<close>

definition backup_state :: "string \<Rightarrow> unit sm" where
  "backup_state step = (\<lambda>m. case hread (machine m) (state_file m) of
      None \<Rightarrow> (Inr (), m)
    | Some t \<Rightarrow>
        if \<not> backup_enabled m then (Inr (), m)
        else if CHR ''/'' \<in> set step then (Inl OSError, m)
        else io_bind (set_content (child_path (manager_run_root m) (backup_name step)) t) (\<lambda>_. rotate_backups) m)"

text \<open>
  The scan of \<open>attempt_repair\<close>: unreadable backups are passed over, one with provider attempts
  stops the repair, otherwise the first valid one is used.
\<close>

definition backup_document :: "(string \<Rightarrow> string) \<Rightarrow> StateManager \<Rightarrow> string \<Rightarrow> exc + RunState" where
  "backup_document sha m p = (case hread (machine m) p of
      None \<Rightarrow> Inl OSError
    | Some t \<Rightarrow> rbind (json_loads t) (\<lambda>data. case data of PDict kv \<Rightarrow> from_dict sha kv | _ \<Rightarrow> Inl AttributeError))"

fun valid_backups :: "(string \<Rightarrow> exc + RunState) \<Rightarrow> string list \<Rightarrow> exc + (string \<times> RunState) list option" where
  "valid_backups doc [] = Inr (Some [])"
| "valid_backups doc (p # ps) = (case doc p of
      Inl e \<Rightarrow> if e \<in> {KeyError, TypeError, ValueError} then valid_backups doc ps else Inl e
    | Inr s \<Rightarrow> if py_bool (run_provider_attempt_allocations s) then Inr None
        else rbind (valid_backups doc ps) (\<lambda>r. Inr (map_option ((#) (p, s)) r)))"

definition attempt_repair :: "(string \<Rightarrow> string) \<Rightarrow> bool sm" where
  "attempt_repair sha = (\<lambda>m. case valid_backups (backup_document sha m) (rev (backups m)) of
      Inl e \<Rightarrow> (Inl e, m)
    | Inr (Some ((p, s) # _)) \<Rightarrow>
        io_bind (read_file p) (\<lambda>t. io_bind (set_content (state_file m) t) (\<lambda>_. io_bind (set_state s) (\<lambda>_. ret True))) m
    | Inr _ \<Rightarrow> (Inr False, m))"

section \<open>Step results\<close>

definition cursor_named :: "RunState \<Rightarrow> string \<Rightarrow> exc + bool" where
  "cursor_named s name = (if run_current_step s = PNone then Inr False
     else rbind (py_get (run_current_step s) ''name'') (\<lambda>v. Inr (v = PStr name)))"

definition clear_cursor :: "(RunState, unit) act" where
  "clear_cursor = modify (\<lambda>s. s\<lparr>run_current_step := PNone\<rparr>)"

definition update_step :: "string \<Rightarrow> StepResult \<Rightarrow> unit sm" where
  "update_step name r = updating (
     io_bind (assign_step name (Result r)) (\<lambda>_.
     io_bind (check (\<lambda>s. cursor_named s name)) (\<lambda>named. if named then clear_cursor else ret ())))"

definition loop_step_key :: "string \<Rightarrow> int \<Rightarrow> string \<Rightarrow> string" where
  "loop_step_key loop index name = loop @ ''['' @ int_repr index @ ''].'' @ name"

definition update_loop_step :: "string \<Rightarrow> int \<Rightarrow> string \<Rightarrow> StepResult \<Rightarrow> unit sm" where
  "update_loop_step loop index name r = updating (assign_step (loop_step_key loop index name) (Result r))"

definition clear_loop_step :: "string \<Rightarrow> int \<Rightarrow> string \<Rightarrow> unit sm" where
  "clear_loop_step loop index name = updating (put (\<lambda>s. case run_steps s of
      Steps cells \<Rightarrow> Inr (s\<lparr>run_steps := Steps (AList.delete (loop_step_key loop index name) cells)\<rparr>)
    | NotADict _ \<Rightarrow> Inl AttributeError))"

definition update_loop_results :: "string \<Rightarrow> pyval list \<Rightarrow> unit sm" where
  "update_loop_results loop results = updating (assign_step loop (Raw (PList results)))"

definition update_for_each :: "string \<Rightarrow> ForEachState \<Rightarrow> unit sm" where
  "update_for_each loop l = updating (modify (\<lambda>s. s\<lparr>run_for_each := AList.update loop l (run_for_each s)\<rparr>))"

definition update_repeat_until_state :: "string \<Rightarrow> pyval \<Rightarrow> pyval \<Rightarrow> unit sm" where
  "update_repeat_until_state loop progress frame_result = updating (
     io_bind (put (\<lambda>s. rbind (py_setitem (run_repeat_until s) loop progress) (\<lambda>v. Inr (s\<lparr>run_repeat_until := v\<rparr>)))) (\<lambda>_.
     if frame_result = PNone then ret () else assign_step loop (Raw frame_result)))"

text \<open>The four dataflow tables; \<open>None\<close> keeps the recorded one.\<close>

definition keep_or :: "pyval \<Rightarrow> pyval \<Rightarrow> pyval" where
  "keep_or new old = (if new = PNone then old else new)"

definition set_dataflow :: "pyval \<Rightarrow> pyval \<Rightarrow> pyval \<Rightarrow> pyval \<Rightarrow> RunState \<Rightarrow> RunState" where
  "set_dataflow versions consumes private_versions private_consumes s =
     s\<lparr>run_artifact_versions := keep_or versions (run_artifact_versions s),
       run_artifact_consumes := keep_or consumes (run_artifact_consumes s),
       run_private_artifact_versions := keep_or private_versions (run_private_artifact_versions s),
       run_private_artifact_consumes := keep_or private_consumes (run_private_artifact_consumes s)\<rparr>"

definition update_dataflow_state :: "pydict \<Rightarrow> pydict \<Rightarrow> pyval \<Rightarrow> pyval \<Rightarrow> unit sm" where
  "update_dataflow_state versions consumes private_versions private_consumes =
     updating (modify (set_dataflow (PDict versions) (PDict consumes) private_versions private_consumes))"

text \<open>The guards of a guarded commit: a given expectation needs a cursor that meets it.\<close>

definition guard_field :: "pyval \<Rightarrow> string \<Rightarrow> pyval \<Rightarrow> bool" where
  "guard_field current k x \<longleftrightarrow> x = PNone \<or> is_mapping current \<and> py_eq (dfield current k) x"

record commit_guard =
  guard_open :: bool
  guard_name :: pyval
  guard_type :: pyval
  guard_status :: pyval
  guard_step_id :: pyval
  guard_visit_count :: pyval

definition guard_matches :: "commit_guard \<Rightarrow> pyval \<Rightarrow> bool" where
  "guard_matches g current \<longleftrightarrow> guard_open g \<and> guard_field current ''name'' (guard_name g)
     \<and> guard_field current ''type'' (guard_type g) \<and> guard_field current ''status'' (guard_status g)
     \<and> guard_field current ''step_id'' (guard_step_id g) \<and> guard_field current ''visit_count'' (guard_visit_count g)"

definition settle_cursor :: "string \<Rightarrow> commit_guard \<Rightarrow> RunState \<Rightarrow> RunState" where
  "settle_cursor name g s = (case run_current_step s of
      PDict cursor \<Rightarrow>
        if dget cursor ''name'' = PStr name \<and> expects cursor ''step_id'' (guard_step_id g)
          \<and> expects cursor ''visit_count'' (guard_visit_count g)
        then s\<lparr>run_current_step := PNone\<rparr> else s
    | _ \<Rightarrow> s)"

definition finalize_step_with_dataflow :: "string \<Rightarrow> StepResult \<Rightarrow> pyval \<Rightarrow> pyval \<Rightarrow> pyval \<Rightarrow> pyval \<Rightarrow> commit_guard \<Rightarrow> unit sm" where
  "finalize_step_with_dataflow name r versions consumes private_versions private_consumes g = updating (
     io_bind (check (\<lambda>s. require (guard_matches g (run_current_step s)) TimeoutError)) (\<lambda>_.
     io_bind (assign_step name (Result r)) (\<lambda>_.
     io_bind (modify (set_dataflow versions consumes private_versions private_consumes)) (\<lambda>_.
     modify (settle_cursor name g)))))"

definition finalize_loop_step_with_dataflow ::
    "string \<Rightarrow> int \<Rightarrow> string \<Rightarrow> StepResult \<Rightarrow> pyval \<Rightarrow> pyval \<Rightarrow> pyval \<Rightarrow> pyval \<Rightarrow> commit_guard \<Rightarrow> unit sm" where
  "finalize_loop_step_with_dataflow loop index name r versions consumes private_versions private_consumes g = updating (
     io_bind (check (\<lambda>s. require (is_mapping (run_current_step s) \<and> guard_matches g (run_current_step s)) TimeoutError)) (\<lambda>_.
     io_bind (assign_step (loop_step_key loop index name) (Result r)) (\<lambda>_.
     modify (set_dataflow versions consumes private_versions private_consumes))))"


section \<open>Nested call frames\<close>

text \<open>
  A scoped mutation walks from a copy of the root state down the recorded call frames to a leaf,
  checks and mutates the leaf, and rebuilds the frames on the way back.
\<close>

fun descend :: "(string \<Rightarrow> string) \<Rightarrow> RunState \<Rightarrow> string list \<Rightarrow> exc + RunState \<times> (RunState \<times> string \<times> pydict) list" where
  "descend sha current [] = Inr (current, [])"
| "descend sha current (fid # fids) =
     (if fid = [] then Inl ValueError
      else rbind (py_get (run_call_frames current) fid) (\<lambda>frame. case frame of
          PDict kv \<Rightarrow>
            if dget kv ''call_frame_id'' \<noteq> PStr fid then Inl ValueError
            else (case dget kv ''state'' of
                PDict nested \<Rightarrow>
                  rbind (from_dict sha nested) (\<lambda>child.
                  rbind (descend sha child fids) (\<lambda>(leaf, ancestors). Inr (leaf, (current, fid, kv) # ancestors)))
              | _ \<Rightarrow> Inl ValueError)
        | _ \<Rightarrow> Inl ValueError))"

definition rebuilt_frame :: "pydict \<Rightarrow> RunState \<Rightarrow> exc + pydict" where
  "rebuilt_frame frame child = rbind (to_dict child) (\<lambda>d.
     Inr (AList.update ''current_step'' (run_current_step child)
       (AList.update ''status'' (run_status child) (AList.update ''state'' (PDict d) frame))))"

fun ascend :: "RunState \<Rightarrow> (RunState \<times> string \<times> pydict) list \<Rightarrow> exc + RunState" where
  "ascend child [] = Inr child"
| "ascend child ((parent, fid, frame) # rest) =
     rbind (rebuilt_frame frame child) (\<lambda>f.
     rbind (py_setitem (run_call_frames parent) fid (PDict f)) (\<lambda>frames.
     ascend (parent\<lparr>run_call_frames := frames\<rparr>) rest))"

definition mutate_scoped_state ::
    "(string \<Rightarrow> string) \<Rightarrow> ResumeScopePath \<Rightarrow> (RunState \<Rightarrow> bool) \<Rightarrow> (RunState, unit) act \<Rightarrow> RunState sm" where
  "mutate_scoped_state sha path commit_guard mutation = (\<lambda>m. case state m of
      None \<Rightarrow> (Inl not_initialized, m)
    | Some root \<Rightarrow>
        if PStr (root_workflow_file path) \<noteq> run_workflow_file root \<or> call_frame_ids path = [] then (Inl ValueError, m)
        else io_bind (pure (
          rbind (to_dict root) (\<lambda>d.
          rbind (from_dict sha d) (\<lambda>candidate.
          rbind (descend sha candidate (call_frame_ids path)) (\<lambda>(leaf, ancestors).
          rbind (require (commit_guard leaf) TimeoutError) (\<lambda>_.
          case mutation leaf of
            (Inl e, _) \<Rightarrow> Inl e
          | (Inr _, leaf') \<Rightarrow> rbind (ascend leaf' (rev ancestors)) (\<lambda>root'. Inr (leaf', root'))))))))
        (\<lambda>(leaf, root'). io_bind (set_state root') (\<lambda>_. io_bind (reloading sha write_state) (\<lambda>_. ret leaf))) m)"

section \<open>The other attributes\<close>

definition update_call_frame :: "string \<Rightarrow> pyval \<Rightarrow> unit sm" where
  "update_call_frame fid frame = updating (put (\<lambda>s.
     rbind (py_setitem (run_call_frames s) fid frame) (\<lambda>v. Inr (s\<lparr>run_call_frames := v\<rparr>))))"

definition update_workflow_outputs :: "pyval \<Rightarrow> unit sm" where
  "update_workflow_outputs v = updating (modify (\<lambda>s. s\<lparr>run_workflow_outputs := v\<rparr>))"

definition update_bound_inputs :: "pydict \<Rightarrow> unit sm" where
  "update_bound_inputs kv = updating (modify (\<lambda>s. s\<lparr>run_bound_inputs := PDict kv\<rparr>))"

definition update_finalization_state :: "pyval \<Rightarrow> unit sm" where
  "update_finalization_state v = updating (modify (\<lambda>s. s\<lparr>run_finalization := v\<rparr>))"

definition update_run_error :: "pyval \<Rightarrow> unit sm" where
  "update_run_error v = updating (modify (\<lambda>s. s\<lparr>run_error := v\<rparr>))"

definition update_control_flow_counters :: "int \<Rightarrow> pydict \<Rightarrow> unit sm" where
  "update_control_flow_counters n visits =
     updating (modify (\<lambda>s. s\<lparr>run_transition_count := PInt n, run_step_visits := PDict visits\<rparr>))"

definition update_status :: "string \<Rightarrow> unit sm" where
  "update_status status = updating (modify (\<lambda>s. s\<lparr>run_status := PStr status\<rparr>))"

text \<open>\<open>resolved\<close> is \<open>candidate.resolve(strict=False)\<close>.\<close>

definition bind_run_ref_root :: "string \<Rightarrow> string \<Rightarrow> string sm" where
  "bind_run_ref_root candidate resolved = (\<lambda>m.
     if \<not> is_absolute (PurePosixPath candidate) \<or> PurePosixPath candidate \<noteq> PurePosixPath resolved then (Inl ValueError, m)
     else (case state m of
         None \<Rightarrow> (Inl not_initialized, m)
       | Some s \<Rightarrow>
           let r = path_str (PurePosixPath resolved) in
           if run_ref_root s = PNone
           then io_bind (updating (modify (\<lambda>s. s\<lparr>run_ref_root := PStr r\<rparr>))) (\<lambda>_. ret r) m
           else if run_ref_root s \<noteq> PStr r then (Inl ValueError, m)
           else (Inr r, m)))"

section \<open>Pure visits\<close>

text \<open>The clock is read when the visit begins; its value is used only if the visit is accepted.\<close>

definition begin_eligible_pure_visit :: "(string \<Rightarrow> string) \<Rightarrow> string \<Rightarrow> int \<Rightarrow> string \<Rightarrow> int sm" where
  "begin_eligible_pure_visit sha name index sid =
     io_bind now (\<lambda>t. state_transaction sha (begin_eligible_pure_visit_state t name index sid))"

definition reuse_interrupted_eligible_pure_visit :: "PureReplayVisitWitness \<Rightarrow> int sm" where
  "reuse_interrupted_eligible_pure_visit w =
     mutating (io_bind (check (require_interrupted_eligible_pure_visit w)) (\<lambda>_. ret (witness_visit_count w)))"

definition settle_eligible_pure_success :: "(string \<Rightarrow> string) \<Rightarrow> PureReplayVisitWitness \<Rightarrow> pydict sm" where
  "settle_eligible_pure_success sha w = state_transaction sha (settle_eligible_pure_success_state w)"

definition settle_eligible_pure_failure :: "(string \<Rightarrow> string) \<Rightarrow> PureReplayVisitWitness \<Rightarrow> StepResult \<Rightarrow> unit sm" where
  "settle_eligible_pure_failure sha w r = state_transaction sha (settle_eligible_pure_failure_state w r)"

section \<open>The cursor\<close>

definition step_cursor :: "string \<Rightarrow> string \<Rightarrow> pyval \<Rightarrow> string \<Rightarrow> pydict \<Rightarrow> pyval \<Rightarrow> pyval \<Rightarrow> pydict" where
  "step_cursor t name index kind extra sid visits =
     [(''name'', PStr name), (''index'', index), (''type'', PStr kind), (''status'', PStr ''running''),
      (''started_at'', PStr t), (''last_heartbeat_at'', PStr t)] @ extra
     @ (if py_bool sid then [(''step_id'', sid)] else [])
     @ (if visits \<noteq> PNone then [(''visit_count'', visits)] else [])"

text \<open>A cursor operation reads the clock once, after the check that the state is initialized.\<close>

definition stamped :: "(string \<Rightarrow> (RunState, unit) act) \<Rightarrow> unit sm" where
  "stamped f = (\<lambda>m. case state m of None \<Rightarrow> (Inl not_initialized, m) | Some _ \<Rightarrow> io_bind now (\<lambda>t. updating (f t)) m)"

definition start_step :: "string \<Rightarrow> int \<Rightarrow> string \<Rightarrow> pyval \<Rightarrow> pyval \<Rightarrow> unit sm" where
  "start_step name index kind sid visits =
     stamped (\<lambda>t. modify (\<lambda>s. s\<lparr>run_current_step := PDict (step_cursor t name (PInt index) kind [] sid visits)\<rparr>))"

definition mark_current_step_recovery :: "string \<Rightarrow> pyval \<Rightarrow> string \<Rightarrow> pyval \<Rightarrow> pyval \<Rightarrow> pyval \<Rightarrow> unit sm" where
  "mark_current_step_recovery name index kind sid visits managed_jobs =
     stamped (\<lambda>t. modify (\<lambda>s. s\<lparr>run_current_step :=
       PDict (step_cursor t name index kind [(''managed_jobs'', managed_jobs)] sid visits)\<rparr>))"

text \<open>\<open>step_name and current_step.get("name") != step_name\<close>; an empty name counts as none.\<close>

definition other_cursor :: "RunState \<Rightarrow> string \<Rightarrow> exc + bool" where
  "other_cursor s name = (if name = [] then Inr False else rbind (cursor_named s name) (\<lambda>b. Inr (\<not> b)))"

definition heartbeat_step :: "string \<Rightarrow> unit sm" where
  "heartbeat_step name = (\<lambda>m. case state m of
      None \<Rightarrow> (Inr (), m)
    | Some s \<Rightarrow>
        if run_current_step s = PNone then (Inr (), m)
        else (case other_cursor s name of
            Inl e \<Rightarrow> (Inl e, m)
          | Inr True \<Rightarrow> (Inr (), m)
          | Inr False \<Rightarrow> stamped (\<lambda>t. put (\<lambda>s.
              rbind (py_setitem (run_current_step s) ''last_heartbeat_at'' (PStr t)) (\<lambda>v. Inr (s\<lparr>run_current_step := v\<rparr>)))) m))"

definition in_recovery :: "pyval \<Rightarrow> bool" where
  "in_recovery managed_jobs \<longleftrightarrow> is_mapping managed_jobs \<and> dfield managed_jobs ''phase'' = PStr ''recovery''"

definition clear_current_step :: "string \<Rightarrow> bool \<Rightarrow> unit sm" where
  "clear_current_step name preserve_managed_recovery = (\<lambda>m. case state m of
      None \<Rightarrow> (Inr (), m)
    | Some s \<Rightarrow>
        if run_current_step s = PNone then (Inr (), m)
        else (case other_cursor s name of
            Inl e \<Rightarrow> (Inl e, m)
          | Inr True \<Rightarrow> (Inr (), m)
          | Inr False \<Rightarrow>
              (case py_get (run_current_step s) ''managed_jobs'' of
                 Inl e \<Rightarrow> (Inl e, m)
               | Inr jobs \<Rightarrow>
                   if preserve_managed_recovery \<and> in_recovery jobs then (Inr (), m)
                   else updating clear_cursor m)))"

text \<open>\<open>StepResult(**result)\<close> for a row that is a dict; other rows are returned as they are.\<close>

definition get_step_result :: "string \<Rightarrow> StateManager \<Rightarrow> exc + step_cell" where
  "get_step_result name m = (case state m of
      None \<Rightarrow> Inr (Raw PNone)
    | Some s \<Rightarrow> (case run_steps s of
        NotADict _ \<Rightarrow> Inl AttributeError
      | Steps cells \<Rightarrow> (case map_of cells name of
          None \<Rightarrow> Inr (Raw PNone)
        | Some (Raw (PDict kv)) \<Rightarrow> rbind (make_step_result kv) (\<lambda>r. Inr (Result r))
        | Some c \<Rightarrow> Inr c)))"

end
