(* ===== verification/ProviderAllocation.thy ===== *)
theory ProviderAllocation
  imports StateManager
begin

text \<open>
  Allocation of provider attempts: the owner of a nested run (\<open>workflow/provider_attempts.py\<close>), the
  directory name of a call frame (\<open>workflow/call_frame_state.py\<close>) and \<open>allocate_provider_attempt\<close> of
  the state manager. The managers of nested call frames are records; the managers between a leaf
  and the root are a list from the leaf upwards, so that a cycle of parents or a parent that is no
  manager cannot occur. The working directory is the argument \<open>cwd\<close>.
\<close>

section \<open>Directory names of call frames\<close>

definition FRAME_TOKEN_ALPHABET :: string where
  "FRAME_TOKEN_ALPHABET = ''abcdefghijklmnopqrstuvwxyzABCDEFGHIJKLMNOPQRSTUVWXYZ0123456789._-''"

abbreviation trimmed :: "char \<Rightarrow> bool" where
  "trimmed c \<equiv> c \<in> set ''._-''"

definition rstrip_token :: "string \<Rightarrow> string" where
  "rstrip_token s = rev (dropWhile trimmed (rev s))"

text \<open>One underscore for every code point outside the alphabet.\<close>

definition token_char :: "nat \<Rightarrow> char" where
  "token_char n = (if n < 128 \<and> char_of n \<in> set FRAME_TOKEN_ALPHABET then char_of n else CHR ''_'')"

text \<open>\<open>normalized.replace("..", "._")\<close>\<close>

fun replace_dots :: "string \<Rightarrow> string" where
  "replace_dots (c # d # s) =
     (if c = CHR ''.'' \<and> d = CHR ''.'' then CHR ''.'' # CHR ''_'' # replace_dots s else c # replace_dots (d # s))"
| "replace_dots s = s"

fun has_dots :: "string \<Rightarrow> bool" where
  "has_dots (c # d # s) \<longleftrightarrow> c = CHR ''.'' \<and> d = CHR ''.'' \<or> has_dots (d # s)"
| "has_dots _ \<longleftrightarrow> False"

lemma replace_dots_count: "count_list (replace_dots s) CHR ''.'' \<le> count_list s CHR ''.''"
  by (induction s rule: replace_dots.induct) auto

lemma replace_dots_fewer: "has_dots s \<Longrightarrow> count_list (replace_dots s) CHR ''.'' < count_list s CHR ''.''"
proof (induction s rule: replace_dots.induct)
  case (1 c d s)
  then show ?case using replace_dots_count [of s] by auto
qed simp_all

function squeeze_dots :: "string \<Rightarrow> string" where
  "squeeze_dots s = (if has_dots s then squeeze_dots (replace_dots s) else s)"
  by pat_completeness auto
termination
  by (relation "measure (\<lambda>s. count_list s CHR ''.'')") (auto simp: replace_dots_fewer)

declare squeeze_dots.simps [simp del]

definition or_call_frame :: "string \<Rightarrow> string" where
  "or_call_frame s = (if s = [] then ''call_frame'' else s)"

definition path_safe_frame_scope_token :: "(string \<Rightarrow> string) \<Rightarrow> string \<Rightarrow> string" where
  "path_safe_frame_scope_token sha frame =
     (let normalized = or_call_frame (squeeze_dots (rstrip_token (dropWhile trimmed (map token_char (json_points frame)))));
          digest = take 12 (sha frame);
          max_prefix_length = 96 - length digest - 1;
          prefix = (if length normalized > max_prefix_length then or_call_frame (rstrip_token (take max_prefix_length normalized))
                    else normalized)
      in prefix @ ''_'' @ digest)"

section \<open>The owner of a nested run\<close>

record NestedManager =
  frame_id :: string
  nested_scope_path :: "ResumeScopePath option"
  nested_run_id :: string
  nested_workspace :: string
  nested_run_root :: string
  nested_state :: RunState

record AggregateRunOwner =
  owner_scope_path :: ResumeScopePath
  leaf_state :: RunState
  aggregate_root :: posix_path

text \<open>\<open>Path(path).absolute()\<close>\<close>

definition ordinary_absolute :: "string \<Rightarrow> string \<Rightarrow> posix_path" where
  "ordinary_absolute cwd p = joinpath (PurePosixPath cwd) (PurePosixPath p)"

definition absolute_is :: "string \<Rightarrow> pyval \<Rightarrow> posix_path \<Rightarrow> exc + bool" where
  "absolute_is cwd v p = (case v of
      PNone \<Rightarrow> Inr False | PStr s \<Rightarrow> Inr (ordinary_absolute cwd s = p) | _ \<Rightarrow> Inl TypeError)"

text \<open>The root file is a string of the root state; \<open>None\<close> of a nested manager fails the comparison.\<close>

definition scope_path_of :: "RunState \<Rightarrow> string list \<Rightarrow> exc + ResumeScopePath" where
  "scope_path_of s ids = (case run_workflow_file s of
      PStr f \<Rightarrow> make_resume_scope_path f (map PStr ids) | _ \<Rightarrow> Inl ValueError)"

text \<open>The chain of managers from the leaf to below the root; every one needs a frame identity.\<close>

definition discover_aggregate_run_chain :: "NestedManager list \<Rightarrow> exc + NestedManager list" where
  "discover_aggregate_run_chain from_leaf =
     (if list_all (\<lambda>c. frame_id c \<noteq> []) from_leaf then Inr from_leaf else Inl ValueError)"

text \<open>\<open>except (KeyError, TypeError, ValueError): raise ValueError\<close>\<close>

definition as_malformed :: "exc + 'a \<Rightarrow> exc + 'a" where
  "as_malformed r = (case r of Inl e \<Rightarrow> if e \<in> {KeyError, TypeError, ValueError} then Inl ValueError else Inl e | Inr x \<Rightarrow> Inr x)"

definition nested_snapshot :: "(string \<Rightarrow> string) \<Rightarrow> RunState \<Rightarrow> NestedManager \<Rightarrow> exc + RunState" where
  "nested_snapshot sha current child =
     rbind (py_get (run_call_frames current) (frame_id child)) (\<lambda>frame.
     rbind (require (is_mapping frame \<and> dfield frame ''call_frame_id'' = PStr (frame_id child)) ValueError) (\<lambda>_.
     case dfield frame ''state'' of
       PDict payload \<Rightarrow>
         rbind (as_malformed (from_dict sha payload)) (\<lambda>parsed.
         rbind (require (\<not> py_bool (run_provider_attempt_allocations parsed)) ValueError) (\<lambda>_.
         rbind (to_dict parsed) (\<lambda>a.
         rbind (to_dict (nested_state child)) (\<lambda>b.
         rbind (require (py_eq (PDict a) (PDict b)) ValueError) (\<lambda>_.
         Inr parsed)))))
     | _ \<Rightarrow> Inl ValueError))"

text \<open>The checks of one nested manager against its parent.\<close>

definition validate_nested ::
    "(string \<Rightarrow> string) \<Rightarrow> string \<Rightarrow> StateManager \<Rightarrow> ResumeScopePath \<Rightarrow> bool \<Rightarrow> string \<Rightarrow> NestedManager \<Rightarrow> exc + unit" where
  "validate_nested sha cwd root expected missing_allowed parent_root child =
     rbind (require (nested_scope_path child = Some expected \<or> missing_allowed \<and> nested_scope_path child = None) ValueError) (\<lambda>_.
     rbind (require (nested_run_id child = manager_run_id root \<and> run_id (nested_state child) = PStr (manager_run_id root)) ValueError) (\<lambda>_.
     rbind (require (\<not> py_bool (run_provider_attempt_allocations (nested_state child))) ValueError) (\<lambda>_.
     rbind (require (ordinary_absolute cwd (nested_workspace child) = ordinary_absolute cwd (workspace root)) ValueError) (\<lambda>_.
     let expected_root = joinpath (joinpath (ordinary_absolute cwd parent_root) (PurePosixPath ''call_frames''))
           (PurePosixPath (path_safe_frame_scope_token sha (frame_id child))) in
     rbind (require (ordinary_absolute cwd (nested_run_root child) = expected_root) ValueError) (\<lambda>_.
     rbind (absolute_is cwd (run_root (nested_state child)) expected_root) (\<lambda>same.
     require same ValueError))))))"

fun walk_chain ::
    "(string \<Rightarrow> string) \<Rightarrow> string \<Rightarrow> StateManager \<Rightarrow> RunState \<Rightarrow> bool \<Rightarrow> string list \<Rightarrow> string \<Rightarrow> RunState \<Rightarrow> NestedManager list \<Rightarrow> exc + RunState" where
  "walk_chain sha cwd root root_state allow_missing ids parent_root current [] = Inr current"
| "walk_chain sha cwd root root_state allow_missing ids parent_root current (child # rest) =
     rbind (scope_path_of root_state (ids @ [frame_id child])) (\<lambda>expected.
     rbind (validate_nested sha cwd root expected (allow_missing \<and> rest = []) parent_root child) (\<lambda>_.
     rbind (nested_snapshot sha current child) (\<lambda>parsed.
     walk_chain sha cwd root root_state allow_missing (ids @ [frame_id child]) (nested_run_root child) parsed rest)))"

definition resolve_aggregate_run_owner_locked ::
    "(string \<Rightarrow> string) \<Rightarrow> string \<Rightarrow> StateManager \<Rightarrow> NestedManager list \<Rightarrow> bool \<Rightarrow> exc + AggregateRunOwner" where
  "resolve_aggregate_run_owner_locked sha cwd root from_leaf allow_missing = (case state root of
      None \<Rightarrow> Inl ValueError
    | Some root_state \<Rightarrow>
        let top = ordinary_absolute cwd (manager_run_root root) in
        rbind (require (run_id root_state = PStr (manager_run_id root)) ValueError) (\<lambda>_.
        rbind (absolute_is cwd (run_root root_state) top) (\<lambda>same.
        rbind (require same ValueError) (\<lambda>_.
        rbind (scope_path_of root_state (map frame_id (rev from_leaf))) (\<lambda>path.
        rbind (walk_chain sha cwd root root_state allow_missing [] (manager_run_root root) root_state (rev from_leaf)) (\<lambda>leaf.
        Inr \<lparr>owner_scope_path = path, leaf_state = leaf, aggregate_root = top\<rparr>))))))"

definition resolve_aggregate_run_owner ::
    "(string \<Rightarrow> string) \<Rightarrow> string \<Rightarrow> StateManager \<Rightarrow> NestedManager list \<Rightarrow> exc + AggregateRunOwner" where
  "resolve_aggregate_run_owner sha cwd root from_leaf =
     rbind (discover_aggregate_run_chain from_leaf) (\<lambda>chain. resolve_aggregate_run_owner_locked sha cwd root chain False)"

section \<open>Validation of a scope\<close>

definition loop_progress :: "LoopIteration \<Rightarrow> EnclosingStep \<Rightarrow> RunState \<Rightarrow> exc + pyval" where
  "loop_progress loop enclosing leaf =
     (if loop_kind loop = ''for_each''
      then Inr (case map_of (run_for_each leaf) (step_name enclosing) of None \<Rightarrow> PNone | Some l \<Rightarrow> current_index l)
      else rbind (py_get (run_repeat_until leaf) (step_name enclosing)) (\<lambda>progress. Inr (dfield progress ''current_iteration'')))"

definition loop_matches :: "string \<Rightarrow> LoopIteration \<Rightarrow> EnclosingStep \<Rightarrow> RunState \<Rightarrow> exc + unit" where
  "loop_matches topology loop enclosing leaf =
     rbind (require (loop_step_id loop = step_id enclosing) ValueError) (\<lambda>_.
     let prefix = loop_step_id loop @ ''#'' @ int_repr (iteration loop) @ ''.'' in
     rbind (require (take (length prefix) topology = prefix \<and> drop (length prefix) topology \<noteq> []) ValueError) (\<lambda>_.
     rbind (loop_progress loop enclosing leaf) (\<lambda>i.
     require ((case i of PBool _ \<Rightarrow> False | _ \<Rightarrow> True) \<and> py_eq i (PInt (iteration loop))) ValueError)))"

definition visit_matches :: "EnclosingStep \<Rightarrow> RunState \<Rightarrow> exc + unit" where
  "visit_matches enclosing leaf =
     rbind (py_get (run_step_visits leaf) (step_name enclosing)) (\<lambda>visit.
     rbind (require (visit = PInt (visit_count enclosing) \<and> visit_count enclosing > 0) ValueError) (\<lambda>_.
     require (\<not> is_mapping (run_current_step leaf) \<or> cursor_matches (run_current_step leaf)
       [(''name'', PStr (step_name enclosing)), (''step_id'', PStr (step_id enclosing)),
        (''visit_count'', PInt (visit_count enclosing))]) ValueError))"

definition validate_provider_attempt_scope :: "StateManager \<Rightarrow> AggregateRunOwner \<Rightarrow> ProviderAttemptScope \<Rightarrow> exc + unit" where
  "validate_provider_attempt_scope root owner scope =
     rbind (require (scope_run_id scope = manager_run_id root) ValueError) (\<lambda>_.
     rbind (require (resume_scope scope = owner_scope_path owner) ValueError) (\<lambda>_.
     rbind (visit_matches (enclosing_step scope) (leaf_state owner)) (\<lambda>_.
     rbind (decode_member_turn_runtime_step_id (runtime_step_id scope)) (\<lambda>(topology, _).
     case loop_iteration scope of
       None \<Rightarrow> require (topology = step_id (enclosing_step scope)) ValueError
     | Some loop \<Rightarrow> loop_matches topology loop (enclosing_step scope) (leaf_state owner)))))"

definition validate_provider_attempt_membership ::
    "(string \<Rightarrow> string) \<Rightarrow> string \<Rightarrow> StateManager \<Rightarrow> NestedManager list \<Rightarrow> ProviderAttemptScope \<Rightarrow> pyval \<Rightarrow> exc + pyval" where
  "validate_provider_attempt_membership sha cwd root from_leaf scope ordinal =
     rbind (ordinary_integer ordinal 1) (\<lambda>n.
     rbind (resolve_aggregate_run_owner sha cwd root from_leaf) (\<lambda>owner.
     rbind (validate_provider_attempt_scope root owner scope) (\<lambda>_.
     case state root of
       None \<Rightarrow> Inl AttributeError
     | Some s \<Rightarrow>
         rbind (validate_provider_attempt_allocations sha (run_provider_attempt_allocations s)) (\<lambda>allocations.
         case map_of allocations (scope_key sha scope) of
           None \<Rightarrow> Inl ValueError
         | Some entry \<Rightarrow>
             rbind (py_item entry ordinal_field) (\<lambda>final.
             rbind (py_le (PInt n) final) (\<lambda>within.
             rbind (require within ValueError) (\<lambda>_. Inr entry)))))))"

section \<open>Allocation\<close>

text \<open>The next ordinal of a scope and the table that records it.\<close>

definition next_allocation ::
    "(string \<Rightarrow> string) \<Rightarrow> ProviderAttemptScope \<Rightarrow> pyval \<Rightarrow> pydict \<Rightarrow> exc + int \<times> pydict" where
  "next_allocation sha scope version allocations = (let key = scope_key sha scope in
     case map_of allocations key of
       None \<Rightarrow> Inr (1, AList.update key (normalized_entry scope 1 version) allocations)
     | Some (PDict entry) \<Rightarrow>
         rbind (require (version = dget entry version_field) ValueError) (\<lambda>_.
         rbind (py_item (PDict entry) ordinal_field) (\<lambda>final. case final of
             PInt n \<Rightarrow> Inr (n + 1, AList.update key (PDict (AList.update ordinal_field (PInt (n + 1)) entry)) allocations)
           | _ \<Rightarrow> Inl TypeError))
     | Some _ \<Rightarrow> Inl AttributeError)"

text \<open>The body of the transaction; \<open>m\<close> is the root manager.\<close>

definition allocate_state ::
    "(string \<Rightarrow> string) \<Rightarrow> string \<Rightarrow> StateManager \<Rightarrow> NestedManager list \<Rightarrow> ProviderAttemptScope \<Rightarrow> pyval \<Rightarrow> (RunState, int) act" where
  "allocate_state sha cwd m from_leaf scope version =
     io_bind (check (\<lambda>s. rbind (resolve_aggregate_run_owner sha cwd (m\<lparr>state := Some s\<rparr>) from_leaf) (\<lambda>owner.
       validate_provider_attempt_scope m owner scope))) (\<lambda>_.
     io_bind (check (\<lambda>s. rbind (validate_provider_attempt_allocations sha (run_provider_attempt_allocations s))
       (next_allocation sha scope version))) (\<lambda>(ordinal, allocations).
     io_bind (modify (\<lambda>s. s\<lparr>run_provider_attempt_allocations := PDict allocations\<rparr>)) (\<lambda>_.
     ret ordinal)))"

text \<open>
  The managers \<open>from_leaf\<close> end in this manager, so that it is the root of the owner. The handler around the transaction
  reloads the document once more.
\<close>

definition allocate_provider_attempt ::
    "(string \<Rightarrow> string) \<Rightarrow> string \<Rightarrow> NestedManager list \<Rightarrow> ProviderAttemptScope \<Rightarrow> pyval \<Rightarrow> int sm" where
  "allocate_provider_attempt sha cwd from_leaf scope version = (\<lambda>m.
     if version \<noteq> PNone \<and> \<not> schema_version_ok version then (Inl ValueError, m)
     else (case resolve_aggregate_run_owner sha cwd m from_leaf of
         Inl e \<Rightarrow> (Inl e, m)
       | Inr _ \<Rightarrow> reloading sha (state_transaction sha (allocate_state sha cwd m from_leaf scope version)) m))"

section \<open>Allocation keeps the table in normal form\<close>

text \<open>The last ordinal handed out for a key, 0 before the first.\<close>

definition last_ordinal :: "pyval \<Rightarrow> string \<Rightarrow> int" where
  "last_ordinal allocations key = (case dfield (dfield allocations key) ordinal_field of PInt n \<Rightarrow> n | _ \<Rightarrow> 0)"

lemma normalized_ordinal: "dfield (normalized_entry scope n version) ordinal_field = PInt n"
  by (simp add: normalized_entry_def dget_def)

lemma last_ordinal_update:
  "last_ordinal (PDict (AList.update key (normalized_entry scope n version) kv)) k = (if k = key then n else last_ordinal (PDict kv) k)"
  by (simp add: last_ordinal_def dget_def update_conv' normalized_ordinal del: dfield_dict) (simp add: dfield_def dget_def update_conv' normalized_entry_def)

lemma table_ordinals: "table_ok sha kv \<Longrightarrow> 0 \<le> last_ordinal (PDict kv) k"
proof (cases "map_of kv k")
  case (Some e)
  assume "table_ok sha kv"
  with Some obtain scope n version where "e = normalized_entry scope n version" "1 \<le> n"
    by (auto simp: table_ok_def list_all_iff entry_ok_def dest!: map_of_SomeD)
  with Some show ?thesis using normalized_ordinal [of scope n version] by (simp add: last_ordinal_def dget_def)
qed (simp add: last_ordinal_def dget_def dfield_def)

lemma dget_normalized:
  "dget [(''scope'', PDict (scope_to_dict scope)), (ordinal_field, PInt n)] version_field = PNone"
  "dget [(''scope'', PDict (scope_to_dict scope)), (ordinal_field, PInt n), (version_field, v)] version_field = v"
  by (simp_all add: dget_def)

lemma entry_version:
  "normalized_entry scope n v = PDict entry \<Longrightarrow> dget entry version_field = v"
  by (cases "v = PNone") (auto simp: normalized_entry_def dget_normalized)

lemma entry_next:
  "normalized_entry scope n v = PDict entry \<Longrightarrow>
     PDict (AList.update ordinal_field (PInt i) entry) = normalized_entry scope i v \<and> py_item (PDict entry) ordinal_field = Inr (PInt n)"
  by (auto simp: normalized_entry_def py_item_def)

lemma allocates:
  assumes "table_ok sha kv" "scope_ok scope" "version = PNone \<or> schema_version_ok version"
    and "next_allocation sha scope version kv = Inr (n, kv')"
  obtains scope' where "scope_ok scope'" "scope_key sha scope' = scope_key sha scope"
    "kv' = AList.update (scope_key sha scope) (normalized_entry scope' n version) kv"
    "n = last_ordinal (PDict kv) (scope_key sha scope) + 1" "1 \<le> n"
    "scope' = scope \<or> (\<exists>i. map_of kv (scope_key sha scope) = Some (normalized_entry scope' i version))"
proof (cases "map_of kv (scope_key sha scope)")
  case None
  then have "n = 1" "kv' = AList.update (scope_key sha scope) (normalized_entry scope 1 version) kv"
    using assms(4) by (simp_all add: next_allocation_def Let_def)
  with None that [of scope] assms(2) show ?thesis by (simp add: last_ordinal_def dget_def dfield_def)
next
  case (Some e)
  then obtain scope' i v where e: "e = normalized_entry scope' i v" "scope_ok scope'" "scope_key sha scope' = scope_key sha scope" "1 \<le> i"
    using assms(1) by (auto simp: table_ok_def list_all_iff entry_ok_def dest!: map_of_SomeD)
  obtain entry where entry: "normalized_entry scope' i v = PDict entry" by (simp add: normalized_entry_def)
  have "version = v" "n = i + 1" "kv' = AList.update (scope_key sha scope) (normalized_entry scope' (i + 1) v) kv"
    using assms(4) Some entry_version [OF entry] entry_next [OF entry, of "i + 1"]
    by (auto simp: next_allocation_def e(1) entry Let_def rbind_Inr_iff require_iff)
  moreover have "last_ordinal (PDict kv) (scope_key sha scope) = i"
    using Some normalized_ordinal [of scope' i v] by (simp add: last_ordinal_def dget_def e(1))
  ultimately show ?thesis using that [of scope'] e Some by auto
qed

lemma allocated_table:
  assumes "table_ok sha kv" "scope_ok scope" "1 \<le> n" "version = PNone \<or> schema_version_ok version"
  shows "table_ok sha (AList.update (scope_key sha scope) (normalized_entry scope n version) kv)"
proof -
  have "entry_ok sha (scope_key sha scope) (normalized_entry scope n version)" using assms(2-4) unfolding entry_ok_def by metis
  with assms(1) show ?thesis by (auto simp: table_ok_def list_all_iff distinct_update dest!: update_mem)
qed


section \<open>Frame directories are safe\<close>

abbreviation token_set :: "char set" where
  "token_set \<equiv> set FRAME_TOKEN_ALPHABET"

lemma token_char_in: "token_char n \<in> token_set"
  by (simp add: token_char_def FRAME_TOKEN_ALPHABET_def)

lemma set_rstrip: "set (rstrip_token s) \<subseteq> set s"
  by (auto simp: rstrip_token_def dest: set_dropWhileD)

lemma length_rstrip: "length (rstrip_token s) \<le> length s"
  by (simp add: rstrip_token_def) (metis length_dropWhile_le length_rev)

lemma set_replace_dots: "set (replace_dots s) \<subseteq> set s \<union> {CHR ''.'', CHR ''_''}"
  by (induction s rule: replace_dots.induct) auto

lemma set_squeeze_dots: "set s \<subseteq> token_set \<Longrightarrow> set (squeeze_dots s) \<subseteq> token_set"
proof (induction s rule: squeeze_dots.induct)
  case (1 s)
  have "{CHR ''.'', CHR ''_''} \<subseteq> token_set" by (simp add: FRAME_TOKEN_ALPHABET_def)
  with 1 set_replace_dots [of s] show ?case by (subst squeeze_dots.simps) auto
qed

lemma set_or_call_frame: "set s \<subseteq> token_set \<Longrightarrow> set (or_call_frame s) \<subseteq> token_set"
  by (simp add: or_call_frame_def FRAME_TOKEN_ALPHABET_def)

lemma shortened:
  "length (if length n > 83 then or_call_frame (rstrip_token (take 83 n)) else n) \<le> 83"
  "set n \<subseteq> token_set \<Longrightarrow> set (if length n > 83 then or_call_frame (rstrip_token (take 83 n)) else n) \<subseteq> token_set"
proof -
  have "length (rstrip_token (take 83 n)) \<le> 83" using length_rstrip [of "take 83 n"] by simp
  then show "length (if length n > 83 then or_call_frame (rstrip_token (take 83 n)) else n) \<le> 83" by (simp add: or_call_frame_def)
  assume "set n \<subseteq> token_set"
  moreover from this have "set (rstrip_token (take 83 n)) \<subseteq> token_set" using set_rstrip [of "take 83 n"] set_take_subset [of 83 n] by blast
  ultimately show "set (if length n > 83 then or_call_frame (rstrip_token (take 83 n)) else n) \<subseteq> token_set"
    by (simp add: set_or_call_frame)
qed

lemma one_segment: "CHR ''/'' \<notin> set s \<Longrightarrow> s \<noteq> [] \<Longrightarrow> s \<noteq> ''.'' \<Longrightarrow> PurePosixPath s = \<lparr>path_root = [], path_parts = [s]\<rparr>"
  by (cases s) (auto simp: PurePosixPath_def split_on_no_sep)

lemma normalized_in: "set (or_call_frame (squeeze_dots (rstrip_token (dropWhile P (map token_char ps))))) \<subseteq> token_set"
proof (intro set_or_call_frame set_squeeze_dots subsetI)
  fix c assume "c \<in> set (rstrip_token (dropWhile P (map token_char ps)))"
  then have "c \<in> set (map token_char ps)" using set_rstrip set_dropWhileD by fast
  then show "c \<in> token_set" using token_char_in by auto
qed

lemma token_shape:
  assumes "length q \<le> 83" "set q \<subseteq> token_set" "length d = 12" "set d \<subseteq> token_set"
  shows "length (q @ ''_'' @ d) \<le> 96" "set (q @ ''_'' @ d) \<subseteq> token_set"
    "PurePosixPath (q @ ''_'' @ d) = \<lparr>path_root = [], path_parts = [q @ ''_'' @ d]\<rparr>"
proof -
  show "length (q @ ''_'' @ d) \<le> 96" using assms(1,3) by simp
  have "CHR ''_'' \<in> token_set" by (simp add: FRAME_TOKEN_ALPHABET_def)
  with assms(2,4) show set: "set (q @ ''_'' @ d) \<subseteq> token_set" by simp
  have "CHR ''/'' \<notin> token_set" by (simp add: FRAME_TOKEN_ALPHABET_def)
  with set have "CHR ''/'' \<notin> set (q @ ''_'' @ d)" by fast
  moreover have "length (q @ ''_'' @ d) \<noteq> 1" using assms(3) by simp
  then have "q @ ''_'' @ d \<noteq> ''.''" by (metis length_Cons list.size(3) One_nat_def)
  ultimately show "PurePosixPath (q @ ''_'' @ d) = \<lparr>path_root = [], path_parts = [q @ ''_'' @ d]\<rparr>"
    by (intro one_segment) simp_all
qed

text \<open>
  C14: the directory of a call frame is one bounded path segment. Whatever the frame is called, its
  directory name has at most 96 characters, all from a fixed alphabet without separators, and joined to a
  path it adds exactly one segment, so frames live directly in the directory of call frames.
\<close>

theorem frame_token_is_one_segment:
  assumes "12 \<le> length (sha frame)" "set (sha frame) \<subseteq> set ''0123456789abcdef''"
  shows "length (path_safe_frame_scope_token sha frame) \<le> 96
    \<and> set (path_safe_frame_scope_token sha frame) \<subseteq> set FRAME_TOKEN_ALPHABET
    \<and> joinpath p (PurePosixPath (path_safe_frame_scope_token sha frame)) = p\<lparr>path_parts := path_parts p @ [path_safe_frame_scope_token sha frame]\<rparr>"
proof -
  let ?n = "or_call_frame (squeeze_dots (rstrip_token (dropWhile trimmed (map token_char (json_points frame)))))"
  let ?d = "take 12 (sha frame)"
  let ?p = "if length ?n > 83 then or_call_frame (rstrip_token (take 83 ?n)) else ?n"
  have t: "path_safe_frame_scope_token sha frame = ?p @ ''_'' @ ?d" using assms(1) by (simp add: path_safe_frame_scope_token_def Let_def)
  have "set ?d \<subseteq> set (sha frame)" by (rule set_take_subset)
  moreover have "set ''0123456789abcdef'' \<subseteq> token_set" by (simp add: FRAME_TOKEN_ALPHABET_def)
  ultimately have d: "set ?d \<subseteq> token_set" using assms(2) by (meson subset_trans)
  have "length ?d = 12" using assms(1) by simp
  note shape = token_shape [OF shortened(1) shortened(2) [OF normalized_in] this d]
  show ?thesis unfolding t using shape by (simp only: joinpath_def is_absolute_def posix_path.simps simp_thms if_False)
qed

theorem frame_token_is_one_segment_witness:
  "path_safe_frame_scope_token (\<lambda>_. ''0123456789abcdef'') ''../a b'' = ''a_b_0123456789ab''
    \<and> length (path_safe_frame_scope_token (\<lambda>_. ''0123456789abcdef'') ''../a b'') \<le> 96"
proof -
  have 1: "path_safe_frame_scope_token (\<lambda>_. ''0123456789abcdef'') ''../a b'' = ''a_b_0123456789ab''" by code_simp
  have "12 \<le> length ''0123456789abcdef''" "set ''0123456789abcdef'' \<subseteq> set ''0123456789abcdef''" by simp_all
  from frame_token_is_one_segment [of "\<lambda>_. ''0123456789abcdef''" "''../a b''", OF this] 1 show ?thesis by simp
qed

end
