(* ===== verification/StatePersistence.thy ===== *)
theory StatePersistence
  imports ProviderAllocation
begin

text \<open>
  What the run document holds after any operation of the state manager. A state is sound when
  everything in it survives JSON: no floats and no tuples, distinct keys, well-formed strings, a normal allocation
  table whose ordinals are at least the bounds \<open>\<beta>\<close>.
  Each operation keeps the state in memory sound and the document readable, whatever the system
  calls do; when it returns, the document is the state in memory, and when a transaction raises,
  the state in memory is what the document says.
\<close>

section \<open>Sound states\<close>

definition value_ok :: "pyval \<Rightarrow> bool" where
  "value_ok v \<longleftrightarrow> json_value v \<and> texts well_formed v"

lemma value_ok_simps [simp]:
  "value_ok PNone" "value_ok (PBool b)" "value_ok (PInt i)" "value_ok (PStr s) = well_formed s"
  "\<not> value_ok (PFloat f)" "\<not> value_ok (PTuple xs)" "value_ok (PList xs) = list_all value_ok xs"
  "value_ok (PDict kv) \<longleftrightarrow> distinct (map fst kv) \<and> list_all (\<lambda>(k, v). well_formed k \<and> value_ok v) kv"
  by (auto simp: value_ok_def list_all_iff)

definition attributes :: "RunState \<Rightarrow> pyval list" where
  "attributes s =
    [run_schema_version s, run_id s, run_workflow_file s, run_workflow_checksum s, run_started_at s,
     run_updated_at s, run_status s, run_result_persistence_profile s, run_root s, run_ref_root s,
     run_context s, run_bound_inputs s, run_workflow_outputs s, run_finalization s, run_error s,
     run_observability s, run_runtime_observability s, run_current_step s, run_repeat_until s,
     run_call_frames s, run_artifact_versions s, run_artifact_consumes s, run_private_artifact_versions s,
     run_private_artifact_consumes s, run_transition_count s, run_step_visits s,
     run_provider_attempt_allocations s]"

definition steps_sound :: "steps_attr \<Rightarrow> bool" where
  "steps_sound steps = (case steps of
      Steps cells \<Rightarrow> distinct (map fst cells) \<and> list_all (\<lambda>(k, c). well_formed k \<and> value_ok (cell_value c)) cells
    | NotADict _ \<Rightarrow> False)"

definition loops_sound :: "(string \<times> ForEachState) list \<Rightarrow> bool" where
  "loops_sound ls \<longleftrightarrow> distinct (map fst ls) \<and>
     list_all (\<lambda>(k, l). well_formed k \<and> value_ok (loop_items l) \<and> value_ok (completed_indices l) \<and> value_ok (current_index l)) ls"

definition sound :: "(string \<Rightarrow> int) \<Rightarrow> (string \<Rightarrow> string) \<Rightarrow> RunState \<Rightarrow> bool" where
  "sound \<beta> sha s \<longleftrightarrow> document_ok sha s \<and> list_all value_ok (attributes s) \<and> steps_sound (run_steps s) \<and> loops_sound (run_for_each s)
     \<and> (\<forall>key. \<beta> key \<le> last_ordinal (run_provider_attempt_allocations s) key)"

lemma sound_steps: "sound \<beta> sha s \<Longrightarrow> \<exists>cells. run_steps s = Steps cells"
  by (cases "run_steps s") (simp_all add: sound_def steps_sound_def)

lemma keys_optional [simp]: "x \<in> fst ` set (optional_field k b v) \<longleftrightarrow> b \<and> x = k" "distinct (map fst (optional_field k b v))"
  by (auto simp: optional_field_def)

lemma all_optional [simp]: "list_all P (optional_field k b v) \<longleftrightarrow> (b \<longrightarrow> P (k, v))"
  by (simp add: optional_field_def)

lemma disjoint_optional [simp]: "fst ` set (optional_field k b v) \<inter> A = {} \<longleftrightarrow> (b \<longrightarrow> k \<notin> A)"
  by (auto simp: optional_field_def)

lemma wf_ascii: "all_ascii s \<Longrightarrow> well_formed s"
  by (rule ascii_well_formed)

lemma sound_dict:
  assumes "sound \<beta> sha s"
  obtains d where "to_dict s = Inr d" "value_ok (PDict d)"
proof -
  obtain cells where cells: "run_steps s = Steps cells" "distinct (map fst cells)"
      "list_all (\<lambda>(k, c). well_formed k \<and> value_ok (cell_value c)) cells"
    using assms by (auto simp: sound_def steps_sound_def split: steps_attr.splits)
  have steps: "value_ok (PDict (map (\<lambda>(k, c). (k, cell_value c)) cells))"
    using cells(2,3) by (auto simp: list_all_iff comp_def case_prod_unfold)
  have loops: "value_ok (PDict (map (\<lambda>(k, l). (k, PDict (for_each_to_dict l))) (run_for_each s)))"
    using assms by (auto simp: sound_def loops_sound_def list_all_iff comp_def case_prod_unfold for_each_to_dict_def intro!: wf_ascii)
  obtain d where d: "to_dict s = Inr d" using cells by (simp add: to_dict_def)
  note d' = d [unfolded to_dict_def cells steps_attr.case sum.inject, symmetric]
  have "distinct (map fst d)"
    unfolding d' by simp
  moreover have "list_all (\<lambda>(k, v). well_formed k \<and> value_ok v) d"
    using assms steps loops unfolding d' by (simp add: sound_def attributes_def ascii_well_formed del: value_ok_simps(8))
  ultimately show ?thesis using that d by simp
qed


lemma reread_fields [simp]:
  "run_for_each (reread s) = run_for_each s" "run_result_persistence_profile (reread s) = run_result_persistence_profile s"
  "run_provider_attempt_allocations (reread s) = run_provider_attempt_allocations s"
  by (simp_all add: reread_def)

lemma sound_reread: "sound \<beta> sha s \<Longrightarrow> sound \<beta> sha (reread s)"
  by (cases "run_steps s")
    (auto simp: sound_def document_ok_def attributes_def steps_sound_def reread_def cell_value_def list_all_iff comp_def
      case_prod_unfold)

lemma sound_from_dict:
  assumes "sound \<beta> sha s" "to_dict s = Inr d"
  shows "from_dict sha d = Inr (reread s)" "value_ok (PDict d)"
  using assms from_to_dict [OF assms(2)] sound_dict [OF assms(1)] by (auto simp: sound_def)

section \<open>The document\<close>

text \<open>The document on disk is a JSON object that loads as \<open>s\<close>.\<close>

definition stored :: "(string \<Rightarrow> string) \<Rightarrow> StateManager \<Rightarrow> RunState \<Rightarrow> bool" where
  "stored sha m s \<longleftrightarrow> (\<exists>d. hread (machine m) (state_file m) = Some (json_dumps_ascii (PDict d)) \<and> value_ok (PDict d)
     \<and> from_dict sha d = Inr s)"

lemma stored_cong:
  "hread (machine m') (state_file m') = hread (machine m) (state_file m) \<Longrightarrow> stored sha m' s = stored sha m s"
  by (simp add: stored_def)

definition readable :: "(string \<Rightarrow> int) \<Rightarrow> (string \<Rightarrow> string) \<Rightarrow> StateManager \<Rightarrow> bool" where
  "readable \<beta> sha m \<longleftrightarrow> (\<exists>s. stored sha m s \<and> sound \<beta> sha s)"

definition held :: "(string \<Rightarrow> int) \<Rightarrow> (string \<Rightarrow> string) \<Rightarrow> StateManager \<Rightarrow> bool" where
  "held \<beta> sha m \<longleftrightarrow> (\<forall>i. well_formed (clock (machine m) i)) \<and> (\<exists>s. state m = Some s \<and> sound \<beta> sha s)"

definition consistent :: "(string \<Rightarrow> int) \<Rightarrow> (string \<Rightarrow> string) \<Rightarrow> StateManager \<Rightarrow> bool" where
  "consistent \<beta> sha m \<longleftrightarrow> held \<beta> sha m \<and> readable \<beta> sha m"

text \<open>Memory and document agree: they have the same dict form.\<close>

definition synced :: "(string \<Rightarrow> int) \<Rightarrow> (string \<Rightarrow> string) \<Rightarrow> StateManager \<Rightarrow> bool" where
  "synced \<beta> sha m \<longleftrightarrow> held \<beta> sha m \<and> (\<exists>s s0. state m = Some s \<and> stored sha m s0 \<and> sound \<beta> sha s0 \<and> to_dict s0 = to_dict s)"

lemma synced_consistent: "synced \<beta> sha m \<Longrightarrow> consistent \<beta> sha m"
  by (auto simp: synced_def consistent_def readable_def)

lemma state_file_tmp:
  obtains tmp where "temporary_path (state_file m) h = Inr tmp" "tmp \<noteq> state_file m"
proof -
  let ?p = "state_file m"
  have "''state.json'' \<in> set (split_on CHR ''/'' ?p)"
    unfolding state_file_def child_path_def using split_on_append [of "CHR ''/''" "manager_run_root m" "''state.json''"]
    by simp
  then have "path_parts (PurePosixPath ?p) \<noteq> []" by (force simp: PurePosixPath_def filter_empty_conv)
  then have 1: "temporary_path ?p h = Inr (rev (dropWhile (\<lambda>c. c \<noteq> CHR ''/'') (rev ?p)) @ ''.orc-tmp-'' @ token h (calls h) @ ''.tmp'')"
    by (simp add: temporary_path_def with_name_def)
  have "rev (dropWhile (\<lambda>c. c \<noteq> CHR ''/'') (rev ?p)) @ ''.orc-tmp-'' @ token h (calls h) @ ''.tmp'' \<noteq> ?p" (is "?t \<noteq> _")
  proof
    assume "?t = ?p"
    then have "last ?t = last ?p" by (rule arg_cong)
    then show False by (simp add: state_file_def child_path_def)
  qed
  with 1 that show ?thesis by blast
qed

lemma state_file_simps [simp]:
  "state_file (m\<lparr>machine := h\<rparr>) = state_file m" "state_file (m\<lparr>state := s\<rparr>) = state_file m"
  by (simp_all add: state_file_def)

text \<open>Replacing the document: it is the old one or the new one, and the new one on return.\<close>

lemma document_write:
  assumes "on_machine (atomic_write_text (state_file m) content) m = (r, m')"
  shows "state m' = state m" "state_file m' = state_file m" "clock (machine m') = clock (machine m)"
    "hread (machine m') (state_file m) = hread (machine m) (state_file m) \<or> hread (machine m') (state_file m) = Some content"
    "r = Inr () \<Longrightarrow> hread (machine m') (state_file m) = Some content"
proof -
  obtain tmp where tmp: "temporary_path (state_file m) (machine m) = Inr tmp" "tmp \<noteq> state_file m" by (rule state_file_tmp)
  obtain h where h: "atomic_write_text (state_file m) content (machine m) = (r, h)" and m': "m' = m\<lparr>machine := h\<rparr>"
    using assms by (auto simp: on_machine_def split: prod.splits)
  show "state m' = state m" "state_file m' = state_file m" by (simp_all add: m')
  show "clock (machine m') = clock (machine m)"
    "hread (machine m') (state_file m) = hread (machine m) (state_file m) \<or> hread (machine m') (state_file m) = Some content"
    "r = Inr () \<Longrightarrow> hread (machine m') (state_file m) = Some content"
    using atomic_text [OF tmp h] by (simp_all add: m')
qed

lemma write_state_runs:
  assumes "state m = Some s" "held \<beta> sha m" "write_state m = (r, m')"
  obtains s' where "state m' = Some s'" "sound \<beta> sha s'" "held \<beta> sha m'" "s' = s\<lparr>run_updated_at := run_updated_at s'\<rparr>"
    "r = Inr () \<Longrightarrow> synced \<beta> sha m'" "r \<noteq> Inr () \<Longrightarrow> readable \<beta> sha m \<Longrightarrow> readable \<beta> sha m'"
proof -
  let ?t = "clock (machine m) (ticks (machine m))"
  let ?s = "s\<lparr>run_updated_at := PStr ?t\<rparr>"
  let ?m = "m\<lparr>machine := (machine m)\<lparr>ticks := Suc (ticks (machine m))\<rparr>, state := Some ?s\<rparr>"
  have sound: "sound \<beta> sha ?s" and clock: "\<And>i. well_formed (clock (machine m) i)"
    using assms(1,2) by (auto simp: held_def sound_def attributes_def document_ok_def)
  obtain d where d: "to_dict ?s = Inr d" "value_ok (PDict d)" by (rule sound_dict [OF sound])
  have run: "on_machine (atomic_write_text (state_file ?m) (json_dumps_ascii (PDict d))) ?m = (r, m')"
    using assms(1,3) d(1)
    by (simp add: write_state_def now_def io_bind_def mutating_def modify_def check_def write_json_atomic_def)
  note written = document_write [OF run]
  have held: "held \<beta> sha m'" using written(1,3) sound clock by (simp add: held_def)
  have stored: "stored sha m' (reread ?s)" if "hread (machine m') (state_file m') = Some (json_dumps_ascii (PDict d))"
    using that sound_from_dict [OF sound d(1)] by (auto simp: stored_def)
  show ?thesis
  proof (rule that [of ?s])
    show "state m' = Some ?s" using written(1) by simp
    show "sound \<beta> sha ?s" by (rule sound)
    show "held \<beta> sha m'" by (rule held)
    show "?s = s\<lparr>run_updated_at := run_updated_at ?s\<rparr>" by simp
    show "r = Inr () \<Longrightarrow> synced \<beta> sha m'"
      using written(1,2,5) held stored sound_reread [OF sound] to_dict_reread [of ?s]
      by (auto simp: synced_def simp del: RunState.simps)
    show "r \<noteq> Inr () \<Longrightarrow> readable \<beta> sha m \<Longrightarrow> readable \<beta> sha m'"
      using written(2,4) stored sound_reread [OF sound] stored_cong [of m' m] by (auto simp: readable_def)
  qed
qed

lemma write_state_returns:
  assumes "state m = Some s" "held \<beta> sha m" "write_state m = (Inr (), m')"
  shows "synced \<beta> sha m'" "\<exists>t. state m' = Some (s\<lparr>run_updated_at := t\<rparr>)"
  using write_state_runs [OF assms] by metis+

section \<open>Operations keep the document readable\<close>

lemma mutating_keeps:
  assumes "triple (sound \<beta> sha) f (\<lambda>_. sound \<beta> sha) (sound \<beta> sha)"
  shows "triple (consistent \<beta> sha) (mutating f) (\<lambda>_. consistent \<beta> sha) (consistent \<beta> sha)"
proof (rule tripleI)
  fix m r m' assume m: "consistent \<beta> sha m" and r: "mutating f m = (r, m')"
  then obtain s where s: "state m = Some s" "sound \<beta> sha s" by (auto simp: consistent_def held_def)
  obtain s' where f: "f s = (r, s')" and m': "m' = m\<lparr>state := Some s'\<rparr>"
    using r s(1) by (auto simp: mutating_def split: prod.splits)
  have "sound \<beta> sha s'"
    using triple_returns [OF assms s(2)] triple_raises [OF assms s(2)] f by (cases r) auto
  then have "consistent \<beta> sha m'"
    using m stored_cong [of m' m] by (auto simp: m' consistent_def held_def readable_def)
  then show "case r of Inr x \<Rightarrow> consistent \<beta> sha m' | Inl e \<Rightarrow> consistent \<beta> sha m'" by (cases r) auto
qed

lemma write_state_keeps: "triple (consistent \<beta> sha) write_state (\<lambda>_. synced \<beta> sha) (consistent \<beta> sha)"
proof (rule tripleI)
  fix m r m' assume m: "consistent \<beta> sha m" and r: "write_state m = (r, m')"
  then obtain s where s: "state m = Some s" by (auto simp: consistent_def held_def)
  from m have h: "held \<beta> sha m" "readable \<beta> sha m" by (simp_all add: consistent_def)
  obtain s' where "held \<beta> sha m'" "r = Inr () \<Longrightarrow> synced \<beta> sha m'" "r \<noteq> Inr () \<Longrightarrow> readable \<beta> sha m \<Longrightarrow> readable \<beta> sha m'"
    by (rule write_state_runs [OF s h(1) r]) blast
  with h(2) show "case r of Inr x \<Rightarrow> synced \<beta> sha m' | Inl e \<Rightarrow> consistent \<beta> sha m'"
    by (cases r) (auto simp: consistent_def)
qed

lemma updating_keeps:
  assumes "triple (sound \<beta> sha) f (\<lambda>_. sound \<beta> sha) (sound \<beta> sha)"
  shows "triple (consistent \<beta> sha) (updating f) (\<lambda>_. synced \<beta> sha) (consistent \<beta> sha)"
  unfolding updating_def
  by (rule triple_bind [OF mutating_keeps [OF assms] triple_bind [OF write_state_keeps]]) auto

lemma read_stored:
  assumes "stored sha m s"
  shows "read_state_from_disk sha m = (Inr s, m)" "load sha m = (Inr (), m\<lparr>state := Some s\<rparr>)" "file_exists m (state_file m)"
proof -
  obtain d where d: "hread (machine m) (state_file m) = Some (json_dumps_ascii (PDict d))" "value_ok (PDict d)"
      "from_dict sha d = Inr s"
    using assms by (auto simp: stored_def)
  have json: "json_loads (json_dumps_ascii (PDict d)) = Inr (PDict d)"
    using d(2) by (intro loads_dumps_ascii) (auto simp: value_ok_def)
  show "read_state_from_disk sha m = (Inr s, m)" "load sha m = (Inr (), m\<lparr>state := Some s\<rparr>)" "file_exists m (state_file m)"
    using d(1,3) json
    by (simp_all add: read_state_from_disk_def load_def load_json_def read_file_def io_bind_def set_state_def modify_def
        file_exists_def)
qed

text \<open>After an exception, reloading makes memory agree with the document.\<close>

lemma reloading_keeps:
  assumes "triple P f Q (consistent \<beta> sha)"
  shows "triple P (reloading sha f) Q (synced \<beta> sha)"
proof (rule tripleI)
  fix m r m' assume P: "P m" and r: "reloading sha f m = (r, m')"
  obtain q u where q: "f m = (q, u)" by fastforce
  show "case r of Inr x \<Rightarrow> Q x m' | Inl e \<Rightarrow> synced \<beta> sha m'"
  proof (cases q)
    case (Inr x)
    with r q triple_returns [OF assms P] show ?thesis by (auto simp: reloading_def)
  next
    case (Inl e)
    with q have u: "consistent \<beta> sha u" using triple_raises [OF assms P] by simp
    then obtain s where s: "stored sha u s" "sound \<beta> sha s" by (auto simp: consistent_def readable_def)
    have m': "r = Inl e" "m' = u\<lparr>state := Some s\<rparr>"
      using r q Inl read_stored [OF s(1)]
      by (auto simp: reloading_def io_bind_def set_state_def modify_def)
    have "synced \<beta> sha m'"
      using u s stored_cong [of m' u] by (auto simp: synced_def consistent_def held_def m'(2))
    with m'(1) show ?thesis by simp
  qed
qed

lemma transaction_keeps:
  assumes "triple (sound \<beta> sha) f (\<lambda>_. sound \<beta> sha) (sound \<beta> sha)"
  shows "triple (consistent \<beta> sha) (state_transaction sha f) (\<lambda>_. synced \<beta> sha) (synced \<beta> sha)"
proof (rule tripleI)
  fix m r m' assume m: "consistent \<beta> sha m" and r: "state_transaction sha f m = (r, m')"
  then have "reloading sha (updating f) m = (r, m')"
    by (auto simp: state_transaction_def consistent_def held_def)
  with triple_returns [OF reloading_keeps [OF updating_keeps [OF assms]] m]
    triple_raises [OF reloading_keeps [OF updating_keeps [OF assms]] m]
  show "case r of Inr x \<Rightarrow> synced \<beta> sha m' | Inl e \<Rightarrow> synced \<beta> sha m'" by (cases r) auto
qed


section \<open>Mutations that keep a state sound\<close>

definition keeps :: "(string \<Rightarrow> int) \<Rightarrow> (string \<Rightarrow> string) \<Rightarrow> (RunState, 'a) act \<Rightarrow> bool" where
  "keeps \<beta> sha f \<longleftrightarrow> triple (sound \<beta> sha) f (\<lambda>_. sound \<beta> sha) (sound \<beta> sha)"

lemma keeps_bind: "keeps \<beta> sha f \<Longrightarrow> (\<And>x. keeps \<beta> sha (g x)) \<Longrightarrow> keeps \<beta> sha (io_bind f g)"
  unfolding keeps_def by (rule triple_bind)

lemma keeps_basic:
  "keeps \<beta> sha (ret x)" "keeps \<beta> sha (throw e)" "keeps \<beta> sha (pure r)" "keeps \<beta> sha (check p)"
  "keeps \<beta> sha f \<Longrightarrow> keeps \<beta> sha g \<Longrightarrow> keeps \<beta> sha (if b then f else g)"
  "(\<And>s. sound \<beta> sha s \<Longrightarrow> sound \<beta> sha (u s)) \<Longrightarrow> keeps \<beta> sha (modify u)"
  by (auto simp: keeps_def triple_def check_def modify_def split: sum.splits)

lemma keeps_put: "(\<And>s s'. sound \<beta> sha s \<Longrightarrow> p s = Inr s' \<Longrightarrow> sound \<beta> sha s') \<Longrightarrow> keeps \<beta> sha (put p)"
  by (auto simp: keeps_def triple_def put_def split: sum.splits)

lemmas keeps_intros = keeps_bind keeps_basic

lemma sound_attribute:
  assumes "sound \<beta> sha s" "value_ok v"
  shows "sound \<beta> sha (s\<lparr>run_status := v\<rparr>)" "sound \<beta> sha (s\<lparr>run_error := v\<rparr>)" "sound \<beta> sha (s\<lparr>run_current_step := v\<rparr>)"
    "sound \<beta> sha (s\<lparr>run_repeat_until := v\<rparr>)" "sound \<beta> sha (s\<lparr>run_call_frames := v\<rparr>)" "sound \<beta> sha (s\<lparr>run_workflow_outputs := v\<rparr>)"
    "sound \<beta> sha (s\<lparr>run_bound_inputs := v\<rparr>)" "sound \<beta> sha (s\<lparr>run_finalization := v\<rparr>)" "sound \<beta> sha (s\<lparr>run_transition_count := v\<rparr>)"
    "sound \<beta> sha (s\<lparr>run_step_visits := v\<rparr>)" "sound \<beta> sha (s\<lparr>run_ref_root := v\<rparr>)" "sound \<beta> sha (s\<lparr>run_artifact_versions := v\<rparr>)"
    "sound \<beta> sha (s\<lparr>run_artifact_consumes := v\<rparr>)" "sound \<beta> sha (s\<lparr>run_private_artifact_versions := v\<rparr>)"
    "sound \<beta> sha (s\<lparr>run_private_artifact_consumes := v\<rparr>)" "sound \<beta> sha (s\<lparr>run_updated_at := v\<rparr>)"
  using assms by (simp_all add: sound_def attributes_def document_ok_def)

lemma sound_values: "sound \<beta> sha s \<Longrightarrow> v \<in> set (attributes s) \<Longrightarrow> value_ok v"
  by (simp add: sound_def list_all_iff)

lemma value_ok_update: "value_ok (PDict kv) \<Longrightarrow> well_formed k \<Longrightarrow> value_ok v \<Longrightarrow> value_ok (PDict (AList.update k v kv))"
  by (auto simp: list_all_iff distinct_update dest!: update_mem)

lemma value_ok_setitem: "py_setitem d k v = Inr d' \<Longrightarrow> value_ok d \<Longrightarrow> well_formed k \<Longrightarrow> value_ok v \<Longrightarrow> value_ok d'"
  by (cases d) (auto simp: py_setitem_def intro: value_ok_update simp del: value_ok_simps)

lemma keeps_assign_step:
  assumes "well_formed name" "value_ok (cell_value c)"
  shows "keeps \<beta> sha (assign_step name c)"
  unfolding assign_step_def
proof (rule keeps_put)
  fix s s' assume s: "sound \<beta> sha s" and "rbind (set_step (run_steps s) name c) (\<lambda>steps. Inr (s\<lparr>run_steps := steps\<rparr>)) = Inr s'"
  then obtain cells where cells: "run_steps s = Steps cells" "s' = s\<lparr>run_steps := Steps (AList.update name c cells)\<rparr>"
    by (cases "run_steps s") (auto simp: set_step_def)
  with s assms show "sound \<beta> sha s'"
    by (auto simp: sound_def attributes_def document_ok_def steps_sound_def distinct_update list_all_iff dest!: update_mem)
qed

lemma setitem_ok:
  "py_setitem a k v = Inr d \<Longrightarrow> sound \<beta> sha s \<Longrightarrow> a \<in> set (attributes s) \<Longrightarrow> well_formed k \<Longrightarrow> value_ok v \<Longrightarrow> value_ok d"
  by (rule value_ok_setitem [OF _ sound_values])

lemma keeps_setitem:
  assumes "well_formed k" "value_ok v"
  shows "keeps \<beta> sha (put (\<lambda>s. rbind (py_setitem (run_repeat_until s) k v) (\<lambda>v. Inr (s\<lparr>run_repeat_until := v\<rparr>))))"
    "keeps \<beta> sha (put (\<lambda>s. rbind (py_setitem (run_call_frames s) k v) (\<lambda>v. Inr (s\<lparr>run_call_frames := v\<rparr>))))"
    "keeps \<beta> sha (put (\<lambda>s. rbind (py_setitem (run_step_visits s) k v) (\<lambda>v. Inr (s\<lparr>run_step_visits := v\<rparr>))))"
    "keeps \<beta> sha (put (\<lambda>s. rbind (py_setitem (run_current_step s) k v) (\<lambda>v. Inr (s\<lparr>run_current_step := v\<rparr>))))"
  by (rule keeps_put; unfold rbind_Inr_iff sum.inject; elim exE conjE; hypsubst; rule sound_attribute, assumption;
      erule setitem_ok [OF _ _ _ assms], assumption; simp add: attributes_def)+

definition result_ok :: "StepResult \<Rightarrow> bool" where
  "result_ok r \<longleftrightarrow> value_ok (PDict (step_result_to_dict r))"

lemma cell_ok: "result_ok r \<Longrightarrow> value_ok (cell_value (Result r))" "value_ok v \<Longrightarrow> value_ok (cell_value (Raw v))"
  by (simp_all add: cell_value_def result_ok_def)

definition for_each_ok :: "ForEachState \<Rightarrow> bool" where
  "for_each_ok l \<longleftrightarrow> value_ok (loop_items l) \<and> value_ok (completed_indices l) \<and> value_ok (current_index l)"

lemma sound_loop: "sound \<beta> sha s \<Longrightarrow> well_formed k \<Longrightarrow> for_each_ok l \<Longrightarrow> sound \<beta> sha (s\<lparr>run_for_each := AList.update k l (run_for_each s)\<rparr>)"
  by (auto simp: sound_def attributes_def document_ok_def loops_sound_def for_each_ok_def distinct_update list_all_iff dest!: update_mem)

lemma sound_clear_step: "sound \<beta> sha s \<Longrightarrow> run_steps s = Steps cells \<Longrightarrow> sound \<beta> sha (s\<lparr>run_steps := Steps (AList.delete k cells)\<rparr>)"
  by (auto simp: sound_def attributes_def document_ok_def steps_sound_def distinct_delete list_all_iff AList.delete_eq distinct_map_filter)

lemma sound_dataflow:
  "sound \<beta> sha s \<Longrightarrow> value_ok a \<Longrightarrow> value_ok b \<Longrightarrow> value_ok c \<Longrightarrow> value_ok d \<Longrightarrow> sound \<beta> sha (set_dataflow a b c d s)"
  by (auto simp: set_dataflow_def keep_or_def sound_def attributes_def document_ok_def)

end
