(* ===== verification/StateRequests.thy ===== *)
theory StateRequests
  imports StatePersistence
begin

text \<open>
  Sequences of operations on one state manager. A request names an operation of the class with
  its arguments; \<open>serve\<close> carries it out. From a run that was initialized or loaded, every
  sequence of requests, with any failing system calls, leaves a document that loads, and the
  document is the state in memory as long as no request has raised.
\<close>

section \<open>Keeping the manager consistent\<close>

text \<open>Neither the state in memory nor the document has moved, only such things as the clock's position or other files.\<close>

definition idle :: "StateManager \<Rightarrow> StateManager \<Rightarrow> bool" where
  "idle m m' \<longleftrightarrow> state m' = state m \<and> state_file m' = state_file m \<and> clock (machine m') = clock (machine m)
     \<and> hread (machine m') (state_file m) = hread (machine m) (state_file m)"

lemma idle_trans: "idle m m1 \<Longrightarrow> idle m1 m' \<Longrightarrow> idle m m'"
  by (simp add: idle_def)

lemma idle_basic [simp]: "idle m m" "idle m (m\<lparr>machine := (machine m)\<lparr>ticks := n\<rparr>\<rparr>)"
  by (simp_all add: idle_def)

lemma frame:
  assumes "idle m m'"
  shows "consistent \<beta> sha m' = consistent \<beta> sha m" "synced \<beta> sha m' = synced \<beta> sha m"
  using assms stored_cong [of m' m] by (simp_all add: idle_def consistent_def synced_def held_def readable_def)

text \<open>
  What is asked of every operation: it keeps the manager consistent, and when it returns, memory and
  document agree unless it did nothing, which an operation that writes (\<open>w\<close>) may not.
\<close>

definition good :: "bool \<Rightarrow> (string \<Rightarrow> int) \<Rightarrow> (string \<Rightarrow> string) \<Rightarrow> 'a sm \<Rightarrow> bool" where
  "good w \<beta> sha f \<longleftrightarrow> (\<forall>m r m'. consistent \<beta> sha m \<longrightarrow> f m = (r, m') \<longrightarrow>
     consistent \<beta> sha m' \<and> (\<forall>x. r = Inr x \<longrightarrow> synced \<beta> sha m' \<or> (\<not> w \<and> idle m m')))"

lemma goodI:
  assumes "\<And>m e m'. consistent \<beta> sha m \<Longrightarrow> f m = (Inl e, m') \<Longrightarrow> consistent \<beta> sha m'"
    and "\<And>m x m'. consistent \<beta> sha m \<Longrightarrow> f m = (Inr x, m') \<Longrightarrow> synced \<beta> sha m' \<or> (\<not> w \<and> idle m m')"
  shows "good w \<beta> sha f"
  unfolding good_def
proof (intro allI impI)
  fix m r m' assume m: "consistent \<beta> sha m" "f m = (r, m')"
  show "consistent \<beta> sha m' \<and> (\<forall>x. r = Inr x \<longrightarrow> synced \<beta> sha m' \<or> (\<not> w \<and> idle m m'))"
    using assms(1) [OF m(1)] assms(2) [OF m(1)] m frame(1) synced_consistent by (cases r) blast+
qed

lemma good_returns:
  assumes "good w \<beta> sha f" "consistent \<beta> sha m" "f m = (r, m')"
  shows "consistent \<beta> sha m'" "r = Inr x \<Longrightarrow> synced \<beta> sha m' \<or> (\<not> w \<and> idle m m')"
  using assms unfolding good_def by blast+

lemma good_from_consistent: "triple (consistent \<beta> sha) f (\<lambda>_. synced \<beta> sha) (consistent \<beta> sha) \<Longrightarrow> good w \<beta> sha f"
  by (rule goodI) (auto dest: triple_returns triple_raises)

lemma good_updating: "keeps \<beta> sha f \<Longrightarrow> good w \<beta> sha (updating f)"
  unfolding keeps_def by (rule good_from_consistent [OF updating_keeps])

lemma good_transaction: "keeps \<beta> sha f \<Longrightarrow> good w \<beta> sha (state_transaction sha f)"
  unfolding keeps_def
  by (rule good_from_consistent [OF triple_mono [OF transaction_keeps]]) (auto intro: synced_consistent)

lemma good_pointwise: "(\<And>m. consistent \<beta> sha m \<Longrightarrow> \<exists>g. good w \<beta> sha g \<and> f m = g m) \<Longrightarrow> good w \<beta> sha f"
  unfolding good_def by metis

lemma good_basic: "good False \<beta> sha (ret x)" "good w \<beta> sha (throw e)" "good False \<beta> sha (pure r)"
  unfolding good_def by auto

lemma good_bind:
  assumes "good v \<beta> sha f" "\<And>x. good u \<beta> sha (g x)" "w \<longrightarrow> v \<or> u"
  shows "good w \<beta> sha (io_bind f g)"
proof (rule goodI)
  fix m e m' assume m: "consistent \<beta> sha m" "io_bind f g m = (Inl e, m')"
  show "consistent \<beta> sha m'" using m good_returns(1) [OF assms(1) m(1)] good_returns(1) [OF assms(2)] by (auto simp: io_bind_cases)
next
  fix m y m' assume m: "consistent \<beta> sha m" "io_bind f g m = (Inr y, m')"
  then obtain x m1 where run: "f m = (Inr x, m1)" "g x m1 = (Inr y, m')" by (auto simp: io_bind_cases)
  note m1 = good_returns [OF assms(1) m(1) run(1)]
  note m' = good_returns [OF assms(2) m1(1) run(2)]
  show "synced \<beta> sha m' \<or> (\<not> w \<and> idle m m')" using m1(2) m'(2) assms(3) frame(2) idle_trans by blast
qed

lemma good_void: "good w \<beta> sha f \<Longrightarrow> good w \<beta> sha (io_bind f (\<lambda>_. ret ()))"
  by (rule good_bind [where v = w, OF _ good_basic(1)]) simp_all

text \<open>An operation that first looks at the state: it runs, at each manager, as one that is good.\<close>

definition good_at :: "bool \<Rightarrow> (string \<Rightarrow> int) \<Rightarrow> (string \<Rightarrow> string) \<Rightarrow> StateManager \<Rightarrow> (exc + 'a) \<times> StateManager \<Rightarrow> bool" where
  "good_at w \<beta> sha m x \<longleftrightarrow> (\<exists>g. good w \<beta> sha g \<and> x = g m)"

lemma good_atI: "good w \<beta> sha g \<Longrightarrow> good_at w \<beta> sha m (g m)" "good_at False \<beta> sha m (r, m)" "good_at w \<beta> sha m (Inl e, m)"
  "(b \<Longrightarrow> good_at w \<beta> sha m x) \<Longrightarrow> (\<not> b \<Longrightarrow> good_at w \<beta> sha m y) \<Longrightarrow> good_at w \<beta> sha m (if b then x else y)"
  unfolding good_at_def by (blast, metis good_basic(3) io_simps(3), metis good_basic(2) io_simps(2), simp)

lemma good_at_case: "(\<And>e. good_at w \<beta> sha m (f e)) \<Longrightarrow> (\<And>y. good_at w \<beta> sha m (g y)) \<Longrightarrow> good_at w \<beta> sha m (case r of Inl e \<Rightarrow> f e | Inr y \<Rightarrow> g y)"
  "good_at w \<beta> sha m x \<Longrightarrow> good_at w \<beta> sha m y \<Longrightarrow> good_at w \<beta> sha m (case b of True \<Rightarrow> x | False \<Rightarrow> y)"
  by (cases r; simp) (cases b; simp)

lemma good_looking: "(\<And>m s. consistent \<beta> sha m \<Longrightarrow> state m = Some s \<Longrightarrow> good_at w \<beta> sha m (f m)) \<Longrightarrow> good w \<beta> sha f"
  by (rule good_pointwise) (fastforce simp: good_at_def consistent_def held_def)

lemma good_frame: "(\<And>m r m'. f m = (r, m') \<Longrightarrow> idle m m') \<Longrightarrow> good False \<beta> sha f"
  unfolding good_def using frame(1) by blast

text \<open>Reading the clock gives a well-formed text.\<close>

lemma tick_frame: "consistent \<beta> sha (m\<lparr>machine := (machine m)\<lparr>ticks := n\<rparr>\<rparr>) = consistent \<beta> sha m"
  by (rule frame) simp

lemma good_now:
  assumes "\<And>t. well_formed t \<Longrightarrow> good w \<beta> sha (f t)"
  shows "good w \<beta> sha (io_bind now f)"
proof -
  have "(consistent \<beta> sha m' \<and> (\<forall>x. r = Inr x \<longrightarrow> synced \<beta> sha m' \<or> (\<not> w \<and> idle m m')))"
    if m: "consistent \<beta> sha m" and r: "io_bind now f m = (r, m')" for m r m'
  proof -
    let ?t = "clock (machine m) (ticks (machine m))" and ?m = "m\<lparr>machine := (machine m)\<lparr>ticks := Suc (ticks (machine m))\<rparr>\<rparr>"
    have t: "well_formed ?t" using m by (simp add: consistent_def held_def)
    have run: "f ?t ?m = (r, m')" using r by (simp add: io_bind_def now_def)
    have c: "consistent \<beta> sha ?m" using m tick_frame by blast
    show ?thesis using good_returns [OF assms [OF t] c run] idle_trans [OF idle_basic(2)] by blast
  qed
  then show ?thesis unfolding good_def by blast
qed

lemma good_stamped: "(\<And>t. well_formed t \<Longrightarrow> keeps \<beta> sha (f t)) \<Longrightarrow> good wr \<beta> sha (stamped f)"
proof (rule good_pointwise)
  fix m assume "consistent \<beta> sha m" and k: "\<And>t. well_formed t \<Longrightarrow> keeps \<beta> sha (f t)"
  then have "stamped f m = io_bind now (\<lambda>t. updating (f t)) m" by (auto simp: stamped_def consistent_def held_def)
  moreover have "good wr \<beta> sha (io_bind now (\<lambda>t. updating (f t)))" by (intro good_now good_updating k)
  ultimately show "\<exists>g. good wr \<beta> sha g \<and> stamped f m = g m" by blast
qed

lemma good_load: "good wr \<beta> sha (load sha)"
proof (rule good_from_consistent, rule tripleI)
  fix m r m' assume m: "consistent \<beta> sha m" and r: "load sha m = (r, m')"
  obtain s where s: "stored sha m s" "sound \<beta> sha s" using m by (auto simp: consistent_def readable_def)
  with r have r': "r = Inr ()" "m' = m\<lparr>state := Some s\<rparr>" using read_stored by auto
  have "synced \<beta> sha m'" using m s stored_cong [of m' m] by (auto simp: synced_def consistent_def held_def r'(2))
  with r'(1) show "case r of Inr x \<Rightarrow> synced \<beta> sha m' | Inl e \<Rightarrow> consistent \<beta> sha m'" by simp
qed


section \<open>Requests\<close>

datatype request =
    UpdateStep string StepResult
  | UpdateLoopStep string int string StepResult
  | ClearLoopStep string int string
  | UpdateLoopResults string "pyval list"
  | UpdateForEach string ForEachState
  | UpdateRepeatUntil string pyval pyval
  | UpdateDataflow pydict pydict pyval pyval
  | FinalizeStep string StepResult pyval pyval pyval pyval commit_guard
  | FinalizeLoopStep string int string StepResult pyval pyval pyval pyval commit_guard
  | UpdateCallFrame string pyval
  | UpdateWorkflowOutputs pyval
  | UpdateBoundInputs pydict
  | UpdateFinalization pyval
  | UpdateRunError pyval
  | UpdateCounters int pydict
  | UpdateStatus string
  | BindRunRefRoot string string
  | BeginPureVisit string int string
  | SettlePureSuccess PureReplayVisitWitness
  | SettlePureFailure PureReplayVisitWitness StepResult
  | StartStep string int string pyval pyval
  | MarkRecovery string pyval string pyval pyval pyval
  | Heartbeat string
  | ClearCurrentStep string bool
  | FailRun pyval bool pyval pyval
  | RecoverVisit string string int string pyval
  | RecordRootFailure pydict
  | BackupState string
  | Reload
  | AllocateAttempt string "NestedManager list" ProviderAttemptScope pyval

abbreviation void :: "'a sm \<Rightarrow> unit sm" where
  "void f \<equiv> io_bind f (\<lambda>_. ret ())"

fun serve :: "(string \<Rightarrow> string) \<Rightarrow> request \<Rightarrow> unit sm" where
  "serve sha (UpdateStep n r) = update_step n r"
| "serve sha (UpdateLoopStep l i n r) = update_loop_step l i n r"
| "serve sha (ClearLoopStep l i n) = clear_loop_step l i n"
| "serve sha (UpdateLoopResults l vs) = update_loop_results l vs"
| "serve sha (UpdateForEach l f) = update_for_each l f"
| "serve sha (UpdateRepeatUntil l p f) = update_repeat_until_state l p f"
| "serve sha (UpdateDataflow a b c d) = update_dataflow_state a b c d"
| "serve sha (FinalizeStep n r a b c d g) = finalize_step_with_dataflow n r a b c d g"
| "serve sha (FinalizeLoopStep l i n r a b c d g) = finalize_loop_step_with_dataflow l i n r a b c d g"
| "serve sha (UpdateCallFrame k v) = update_call_frame k v"
| "serve sha (UpdateWorkflowOutputs v) = update_workflow_outputs v"
| "serve sha (UpdateBoundInputs kv) = update_bound_inputs kv"
| "serve sha (UpdateFinalization v) = update_finalization_state v"
| "serve sha (UpdateRunError v) = update_run_error v"
| "serve sha (UpdateCounters n kv) = update_control_flow_counters n kv"
| "serve sha (UpdateStatus s) = update_status s"
| "serve sha (BindRunRefRoot c r) = void (bind_run_ref_root c r)"
| "serve sha (BeginPureVisit n i sid) = void (begin_eligible_pure_visit sha n i sid)"
| "serve sha (SettlePureSuccess w) = void (settle_eligible_pure_success sha w)"
| "serve sha (SettlePureFailure w r) = settle_eligible_pure_failure sha w r"
| "serve sha (StartStep n i k sid v) = start_step n i k sid v"
| "serve sha (MarkRecovery n i k sid v j) = mark_current_step_recovery n i k sid v j"
| "serve sha (Heartbeat n) = heartbeat_step n"
| "serve sha (ClearCurrentStep n b) = clear_current_step n b"
| "serve sha (FailRun e b i v) = fail_run e b i v"
| "serve sha (RecoverVisit n sid v st lg) = recover_interrupted_provider_visit n sid v st lg"
| "serve sha (RecordRootFailure e) = record_atomic_root_failure sha e"
| "serve sha (BackupState n) = backup_state n"
| "serve sha Reload = load sha"
| "serve sha (AllocateAttempt cwd managers scope version) = void (allocate_provider_attempt sha cwd managers scope version)"

text \<open>
  Four requests may return without a write: a heartbeat and a clearing that find another step, or
  none, under the cursor, the binding of a root that is already bound, and the copying of a backup,
  which is not a change of the document. Every other request writes the document, or reads it.
\<close>

fun writes :: "request \<Rightarrow> bool" where
  "writes (Heartbeat n) \<longleftrightarrow> False"
| "writes (ClearCurrentStep n b) \<longleftrightarrow> False"
| "writes (BindRunRefRoot c r) \<longleftrightarrow> False"
| "writes (BackupState n) \<longleftrightarrow> False"
| "writes _ \<longleftrightarrow> True"

text \<open>The arguments survive JSON.\<close>

fun request_ok :: "request \<Rightarrow> bool" where
  "request_ok (UpdateStep n r) \<longleftrightarrow> well_formed n \<and> result_ok r"
| "request_ok (UpdateLoopStep l i n r) \<longleftrightarrow> well_formed (loop_step_key l i n) \<and> result_ok r"
| "request_ok (ClearLoopStep l i n) \<longleftrightarrow> True"
| "request_ok (UpdateLoopResults l vs) \<longleftrightarrow> well_formed l \<and> value_ok (PList vs)"
| "request_ok (UpdateForEach l f) \<longleftrightarrow> well_formed l \<and> for_each_ok f"
| "request_ok (UpdateRepeatUntil l p f) \<longleftrightarrow> well_formed l \<and> value_ok p \<and> value_ok f"
| "request_ok (UpdateDataflow a b c d) \<longleftrightarrow> value_ok (PDict a) \<and> value_ok (PDict b) \<and> value_ok c \<and> value_ok d"
| "request_ok (FinalizeStep n r a b c d g) \<longleftrightarrow>
     well_formed n \<and> result_ok r \<and> value_ok a \<and> value_ok b \<and> value_ok c \<and> value_ok d"
| "request_ok (FinalizeLoopStep l i n r a b c d g) \<longleftrightarrow>
     well_formed (loop_step_key l i n) \<and> result_ok r \<and> value_ok a \<and> value_ok b \<and> value_ok c \<and> value_ok d"
| "request_ok (UpdateCallFrame k v) \<longleftrightarrow> well_formed k \<and> value_ok v"
| "request_ok (UpdateWorkflowOutputs v) \<longleftrightarrow> value_ok v"
| "request_ok (UpdateBoundInputs kv) \<longleftrightarrow> value_ok (PDict kv)"
| "request_ok (UpdateFinalization v) \<longleftrightarrow> value_ok v"
| "request_ok (UpdateRunError v) \<longleftrightarrow> value_ok v"
| "request_ok (UpdateCounters n kv) \<longleftrightarrow> value_ok (PDict kv)"
| "request_ok (UpdateStatus s) \<longleftrightarrow> well_formed s"
| "request_ok (BindRunRefRoot c r) \<longleftrightarrow> well_formed (path_str (PurePosixPath r))"
| "request_ok (BeginPureVisit n i sid) \<longleftrightarrow> well_formed n \<and> well_formed sid"
| "request_ok (SettlePureSuccess w) \<longleftrightarrow> well_formed (presentation_key w) \<and> well_formed (witness_step_id w)"
| "request_ok (SettlePureFailure w r) \<longleftrightarrow> well_formed (presentation_key w) \<and> result_ok r"
| "request_ok (StartStep n i k sid v) \<longleftrightarrow> well_formed n \<and> well_formed k \<and> value_ok sid \<and> value_ok v"
| "request_ok (MarkRecovery n i k sid v j) \<longleftrightarrow>
     well_formed n \<and> well_formed k \<and> value_ok i \<and> value_ok sid \<and> value_ok v \<and> value_ok j"
| "request_ok (FailRun e b i v) \<longleftrightarrow> value_ok e"
| "request_ok (RecordRootFailure e) \<longleftrightarrow> value_ok (PDict e)"
| "request_ok (AllocateAttempt cwd managers scope version) \<longleftrightarrow> scope_ok scope \<and> value_ok (PDict (scope_to_dict scope))"
| "request_ok _ \<longleftrightarrow> True"

section \<open>Every request is good\<close>

lemma keeps_attribute:
  assumes "value_ok v"
  shows "keeps \<beta> sha (modify (\<lambda>s. s\<lparr>run_status := v\<rparr>))" "keeps \<beta> sha (modify (\<lambda>s. s\<lparr>run_error := v\<rparr>))"
    "keeps \<beta> sha (modify (\<lambda>s. s\<lparr>run_current_step := v\<rparr>))" "keeps \<beta> sha (modify (\<lambda>s. s\<lparr>run_workflow_outputs := v\<rparr>))"
    "keeps \<beta> sha (modify (\<lambda>s. s\<lparr>run_bound_inputs := v\<rparr>))" "keeps \<beta> sha (modify (\<lambda>s. s\<lparr>run_finalization := v\<rparr>))"
    "keeps \<beta> sha (modify (\<lambda>s. s\<lparr>run_ref_root := v\<rparr>))"
  by (intro keeps_basic sound_attribute assms; assumption)+

lemma keeps_clear: "keeps \<beta> sha clear_cursor"
  unfolding clear_cursor_def by (rule keeps_attribute) simp

lemma keeps_dataflow: "value_ok a \<Longrightarrow> value_ok b \<Longrightarrow> value_ok c \<Longrightarrow> value_ok d \<Longrightarrow> keeps \<beta> sha (modify (set_dataflow a b c d))"
  by (intro keeps_basic sound_dataflow; assumption)

lemma keeps_settle_cursor: "keeps \<beta> sha (modify (settle_cursor n g))"
  by (rule keeps_basic) (auto simp: settle_cursor_def intro: sound_attribute split: pyval.splits)

lemma keeps_clear_loop_step:
  "keeps \<beta> sha (put (\<lambda>s. case run_steps s of
      Steps cells \<Rightarrow> Inr (s\<lparr>run_steps := Steps (AList.delete k cells)\<rparr>) | NotADict _ \<Rightarrow> Inl AttributeError))"
  by (rule keeps_put) (auto intro: sound_clear_step split: steps_attr.splits)

lemma keeps_fail_run:
  assumes "well_formed t" "value_ok e"
  shows "keeps \<beta> sha (modify (fail_run_state t e b i v))"
proof (rule keeps_basic)
  fix s assume s: "sound \<beta> sha s"
  let ?s = "s\<lparr>run_status := PStr ''failed'', run_error := e\<rparr>"
  have 1: "sound \<beta> sha ?s" using s assms by (intro sound_attribute) (simp_all add: ascii_well_formed)
  show "sound \<beta> sha (fail_run_state t e b i v s)"
  proof (cases "run_current_step s")
    case (PDict cursor)
    have "value_ok (PDict cursor)" using sound_values [OF s, of "run_current_step s"] PDict by (simp add: attributes_def)
    then have "value_ok (PDict (AList.update ''failed_at'' (PStr t) (AList.update ''status'' (PStr ''failed'') cursor)))"
      using assms by (intro value_ok_update) (simp_all add: ascii_well_formed)
    with PDict 1 show ?thesis by (auto simp: fail_run_state_def Let_def intro: sound_attribute simp del: value_ok_simps(8))
  qed (use 1 in \<open>simp_all add: fail_run_state_def Let_def\<close>)
qed

lemma step_cursor_ok:
  assumes "well_formed t" "well_formed n" "well_formed k" "value_ok i" "value_ok sid" "value_ok v"
    and "extra = [] \<or> (\<exists>j. value_ok j \<and> extra = [(''managed_jobs'', j)])"
  shows "value_ok (PDict (step_cursor t n i k extra sid v))"
  using assms by (auto simp: step_cursor_def ascii_well_formed)

lemma pure_cursor_ok:
  "well_formed t \<Longrightarrow> well_formed (presentation_key w) \<Longrightarrow> well_formed (witness_step_id w) \<Longrightarrow> value_ok (PDict (pure_cursor t w))"
  by (simp add: pure_cursor_def ascii_well_formed)

lemma shell_ok:
  "well_formed (presentation_key w) \<Longrightarrow> well_formed (witness_step_id w) \<Longrightarrow> value_ok (PDict (build_pure_completion_shell w))"
  by (simp add: build_pure_completion_shell_def completed_outcome_def DERIVED_PURE_REPLAY_PROFILE_def ascii_well_formed)


lemmas keeps_steps = keeps_bind keeps_attribute keeps_clear keeps_assign_step keeps_setitem keeps_dataflow
  keeps_settle_cursor keeps_clear_loop_step keeps_basic(1,4,5) cell_ok

lemma good_step_requests:
  "well_formed n \<Longrightarrow> result_ok r \<Longrightarrow> good wr \<beta> sha (update_step n r)"
  "well_formed (loop_step_key l i n) \<Longrightarrow> result_ok r \<Longrightarrow> good wr \<beta> sha (update_loop_step l i n r)"
  "good wr \<beta> sha (clear_loop_step l i n)"
  "well_formed l \<Longrightarrow> value_ok (PList vs) \<Longrightarrow> good wr \<beta> sha (update_loop_results l vs)"
  "well_formed l \<Longrightarrow> value_ok p \<Longrightarrow> value_ok f \<Longrightarrow> good wr \<beta> sha (update_repeat_until_state l p f)"
  unfolding update_step_def update_loop_step_def clear_loop_step_def update_loop_results_def update_repeat_until_state_def
  by (intro good_updating keeps_steps; assumption)+

lemma good_update_for_each: "well_formed l \<Longrightarrow> for_each_ok f \<Longrightarrow> good wr \<beta> sha (update_for_each l f)"
  unfolding update_for_each_def by (intro good_updating keeps_basic(6) sound_loop; assumption)

lemma good_dataflow_requests:
  assumes "value_ok a" "value_ok b" "value_ok c" "value_ok d"
  shows "well_formed n \<Longrightarrow> result_ok r \<Longrightarrow> good wr \<beta> sha (finalize_step_with_dataflow n r a b c d g)"
    "well_formed (loop_step_key l i n) \<Longrightarrow> result_ok r \<Longrightarrow> good wr \<beta> sha (finalize_loop_step_with_dataflow l i n r a b c d g)"
  unfolding finalize_step_with_dataflow_def finalize_loop_step_with_dataflow_def
  by (intro good_updating keeps_steps assms; assumption)+

lemma good_update_dataflow_state:
  "value_ok (PDict a) \<Longrightarrow> value_ok (PDict b) \<Longrightarrow> value_ok c \<Longrightarrow> value_ok d \<Longrightarrow> good wr \<beta> sha (update_dataflow_state a b c d)"
  unfolding update_dataflow_state_def by (intro good_updating keeps_dataflow; assumption)

lemma good_attribute_requests:
  "well_formed k \<Longrightarrow> value_ok v \<Longrightarrow> good wr \<beta> sha (update_call_frame k v)"
  "value_ok v \<Longrightarrow> good wr \<beta> sha (update_workflow_outputs v)"
  "value_ok (PDict kv) \<Longrightarrow> good wr \<beta> sha (update_bound_inputs kv)"
  "value_ok v \<Longrightarrow> good wr \<beta> sha (update_finalization_state v)"
  "value_ok v \<Longrightarrow> good wr \<beta> sha (update_run_error v)"
  unfolding update_call_frame_def update_workflow_outputs_def update_bound_inputs_def update_finalization_state_def
    update_run_error_def by (intro good_updating keeps_steps; assumption)+

lemma good_update_status: "well_formed t \<Longrightarrow> good wr \<beta> sha (update_status t)"
  unfolding update_status_def by (intro good_updating keeps_attribute) simp

lemma good_update_counters: "value_ok (PDict kv) \<Longrightarrow> good wr \<beta> sha (update_control_flow_counters n kv)"
  unfolding update_control_flow_counters_def
  by (intro good_updating keeps_basic(6) sound_attribute(9,10)) (assumption | rule value_ok_simps)+

lemma good_recover: "good wr \<beta> sha (recover_interrupted_provider_visit n sid v st lg)"
  unfolding recover_interrupted_provider_visit_def
  by (intro good_updating keeps_bind keeps_basic(4,6) sound_attribute(1-3)) (simp_all add: ascii_well_formed)

lemma good_fail_run: "value_ok e \<Longrightarrow> good wr \<beta> sha (fail_run e b i v)"
proof (rule good_looking)
  fix m :: StateManager and s assume s: "state m = Some s" and e: "value_ok e"
  let ?f = "\<lambda>t. updating (modify (fail_run_state t e b i v))"
  let ?g = "if \<not> b \<and> is_mapping (run_current_step s) then io_bind now ?f else ?f []"
  have "good wr \<beta> sha ?g" using e by (auto intro!: good_now good_updating keeps_fail_run simp: ascii_well_formed)
  moreover have "fail_run e b i v m = ?g m" by (simp add: fail_run_def s)
  ultimately show "good_at wr \<beta> sha m (fail_run e b i v m)" by (simp only: good_atI)
qed

lemma good_cursor_requests:
  assumes "well_formed n" "well_formed k" "value_ok sid" "value_ok v"
  shows "good wr \<beta> sha (start_step n i k sid v)" "value_ok i' \<Longrightarrow> value_ok j \<Longrightarrow> good wr \<beta> sha (mark_current_step_recovery n i' k sid v j)"
  unfolding start_step_def mark_current_step_recovery_def
  by (intro good_stamped keeps_attribute(3) step_cursor_ok assms; simp)+

lemma good_heartbeat: "good False \<beta> sha (heartbeat_step n)"
proof (rule good_looking)
  fix m :: StateManager and s assume s: "state m = Some s"
  let ?g = "stamped (\<lambda>t. put (\<lambda>s. rbind (py_setitem (run_current_step s) ''last_heartbeat_at'' (PStr t)) (\<lambda>v. Inr (s\<lparr>run_current_step := v\<rparr>))))"
  have "good False \<beta> sha ?g" by (intro good_stamped keeps_setitem) (simp_all add: ascii_well_formed)
  then show "good_at False \<beta> sha m (heartbeat_step n m)"
    unfolding heartbeat_step_def s option.case by (intro good_atI good_at_case)
qed

lemma good_clear_current: "good False \<beta> sha (clear_current_step n b)"
proof (rule good_looking)
  fix m :: StateManager and s assume s: "state m = Some s"
  show "good_at False \<beta> sha m (clear_current_step n b m)"
    unfolding clear_current_step_def s option.case by (intro good_atI good_at_case good_updating keeps_clear)
qed

lemma good_bind_root:
  assumes "well_formed (path_str (PurePosixPath r))"
  shows "good False \<beta> sha (bind_run_ref_root c r)"
proof (rule good_looking)
  fix m :: StateManager and s assume s: "state m = Some s"
  show "good_at False \<beta> sha m (bind_run_ref_root c r m)"
    unfolding bind_run_ref_root_def s option.case Let_def
    by (intro good_atI good_bind [OF _ good_basic(1)] good_updating keeps_attribute) (simp_all add: assms)
qed

lemma keeps_bind_pure: "(\<And>x. r = Inr x \<Longrightarrow> keeps \<beta> sha (g x)) \<Longrightarrow> keeps \<beta> sha (io_bind (pure r) g)"
  by (cases r) (auto simp: keeps_def triple_def)

lemma made_witness: "make_witness (PStr n) i (PStr sid) v = Inr w \<Longrightarrow> presentation_key w = n \<and> witness_step_id w = sid"
  by (auto simp: make_witness_def split: pyval.splits if_splits)

lemma keeps_begin:
  assumes "well_formed n" "well_formed sid" "well_formed t"
  shows "keeps \<beta> sha (begin_eligible_pure_visit_state t n i sid)"
proof -
  let ?w = "make_witness (PStr n) (PInt i) (PStr sid) (PInt 1)"
  have cursor: "value_ok (PDict (pure_cursor t w))" if "?w = Inr w" for w
    using made_witness [OF that] assms by (intro pure_cursor_ok) simp_all
  show ?thesis
    unfolding begin_eligible_pure_visit_state_def
    by (intro keeps_bind [OF keeps_basic(4)] keeps_bind_pure; intro keeps_bind keeps_attribute(3) keeps_setitem(3) keeps_basic(1,4)
        cursor assms value_ok_simps; assumption)
qed

lemma good_begin_visit: "well_formed n \<Longrightarrow> well_formed sid \<Longrightarrow> good wr \<beta> sha (begin_eligible_pure_visit sha n i sid)"
  unfolding begin_eligible_pure_visit_def by (intro good_now good_transaction keeps_begin)

lemma keeps_settle:
  "well_formed (presentation_key w) \<Longrightarrow> well_formed (witness_step_id w) \<Longrightarrow> keeps \<beta> sha (settle_eligible_pure_success_state w)"
  "well_formed (presentation_key w) \<Longrightarrow> result_ok r \<Longrightarrow> keeps \<beta> sha (settle_eligible_pure_failure_state w r)"
  unfolding settle_eligible_pure_success_state_def settle_eligible_pure_failure_state_def
  by (intro keeps_bind keeps_attribute(3) keeps_assign_step keeps_basic(1-4) cell_ok shell_ok; simp)+

lemma good_settle:
  "well_formed (presentation_key w) \<Longrightarrow> well_formed (witness_step_id w) \<Longrightarrow> good wr \<beta> sha (settle_eligible_pure_success sha w)"
  "well_formed (presentation_key w) \<Longrightarrow> result_ok r \<Longrightarrow> good wr \<beta> sha (settle_eligible_pure_failure sha w r)"
  unfolding settle_eligible_pure_success_def settle_eligible_pure_failure_def by (intro good_transaction keeps_settle; assumption)+

text \<open>A failure recorded in the document: only three of its fields change.\<close>

lemma dget_update: "dget (AList.update k v kv) k' = (if k' = k then v else dget kv k')"
  "dget_default (AList.update k v kv) k' d = (if k' = k then v else dget_default kv k' d)"
  by (simp_all add: dget_def dget_default_def update_conv')

lemma py_item_update: "py_item (PDict (AList.update k v kv)) k' = (if k' = k then Inr v else py_item (PDict kv) k')"
  by (simp add: py_item_def update_conv')

lemma from_dict_failed:
  assumes "from_dict sha kv = Inr s"
  shows "from_dict sha (AList.update ''updated_at'' u (AList.update ''error'' e (AList.update ''status'' f kv))) =
    Inr (s\<lparr>run_status := f, run_error := e, run_updated_at := u\<rparr>)"
proof -
  let ?kv = "AList.update ''updated_at'' u (AList.update ''error'' e (AList.update ''status'' f kv))"
  have 1: "for_each_from ?kv = for_each_from kv" "allocations_from sha ?kv = allocations_from sha kv" "steps_from ?kv = steps_from kv"
    by (simp_all add: for_each_from_def allocations_from_def steps_from_def dget_update update_conv')
  show ?thesis
    using assms unfolding from_dict_def 1 rbind_Inr_iff sum.inject
    by (elim exE conjE, hypsubst) (simp add: py_item_update dget_update update_conv')
qed


lemma good_root_failure:
  assumes "value_ok (PDict e)"
  shows "good wr \<beta> sha (record_atomic_root_failure sha e)"
proof (rule good_from_consistent, rule tripleI)
  fix m r m' assume m: "consistent \<beta> sha m" and r: "record_atomic_root_failure sha e m = (r, m')"
  obtain s d where s: "sound \<beta> sha s" "hread (machine m) (state_file m) = Some (json_dumps_ascii (PDict d))" "value_ok (PDict d)"
      "from_dict sha d = Inr s"
    using m by (auto simp: consistent_def readable_def stored_def)
  obtain s1 where s1: "state m = Some s1" "sound \<beta> sha s1" and clock: "\<And>i. well_formed (clock (machine m) i)"
    using m by (auto simp: consistent_def held_def)
  let ?t = "clock (machine m) (ticks (machine m))"
  let ?m = "m\<lparr>machine := (machine m)\<lparr>ticks := Suc (ticks (machine m))\<rparr>\<rparr>"
  let ?d = "AList.update ''updated_at'' (PStr ?t) (AList.update ''error'' (PDict e) (AList.update ''status'' (PStr ''failed'') d))"
  let ?s = "s\<lparr>run_status := PStr ''failed'', run_error := PDict e, run_updated_at := PStr ?t\<rparr>"
  have new: "from_dict sha ?d = Inr ?s" by (rule from_dict_failed [OF s(4)])
  have ok: "value_ok (PDict ?d)" using s(3) assms clock by (intro value_ok_update) (simp_all add: ascii_well_formed del: value_ok_simps(8))
  have sound: "sound \<beta> sha ?s" using s(1) assms clock by (intro sound_attribute) (simp_all add: ascii_well_formed del: value_ok_simps(8))
  have json: "json_loads (json_dumps_ascii (PDict d)) = Inr (PDict d)"
    using s(3) by (intro loads_dumps_ascii) (simp_all add: value_ok_def)
  have "io_bind (write_json_atomic (state_file ?m) ?d) (\<lambda>_. io_bind (pure (from_dict sha ?d)) set_state) ?m = (r, m')"
    using r s1(1) s(2) json
    by (simp add: record_atomic_root_failure_def load_json_def read_file_def now_def Let_def io_bind_def)
  then obtain q u where q: "on_machine (atomic_write_text (state_file ?m) (json_dumps_ascii (PDict ?d))) ?m = (q, u)"
    and m': "case q of Inl x \<Rightarrow> r = Inl x \<and> m' = u | Inr _ \<Rightarrow> r = Inr () \<and> m' = u\<lparr>state := Some ?s\<rparr>"
    unfolding io_bind_cases write_json_atomic_def by (auto simp: new set_state_def modify_def)
  note written = document_write [OF q]
  have stored: "stored sha u ?s" if "hread (machine u) (state_file u) = Some (json_dumps_ascii (PDict ?d))"
    using that new ok by (auto simp: stored_def simp del: value_ok_simps)
  show "case r of Inr x \<Rightarrow> synced \<beta> sha m' | Inl x \<Rightarrow> consistent \<beta> sha m'"
  proof (cases q)
    case (Inl x)
    have "readable \<beta> sha u" using written(2,4) stored sound s(1) stored_cong [of u m] m
      by (auto simp: readable_def consistent_def)
    then show ?thesis using m' Inl written(1,3) s1 clock by (simp add: consistent_def held_def)
  next
    case (Inr x)
    then have "stored sha m' ?s" using m' written(2,5) stored stored_cong [of m' u] by simp
    then show ?thesis using m' Inr written(1,3) sound clock by (auto simp: synced_def held_def)
  qed
qed

text \<open>Backups never touch the document.\<close>

lemma state_file_not_backup: "take n (state_file m) = manager_run_root m @ ''/'' \<Longrightarrow> n = length (manager_run_root m) + 1 \<Longrightarrow> \<not> is_backup_name (drop n (state_file m))"
  by (simp add: state_file_def child_path_def is_backup_name_def)

lemma remove_files_frame:
  "remove_files ps m = (r, m') \<Longrightarrow> state m' = state m \<and> manager_run_root m' = manager_run_root m \<and> clock (machine m') = clock (machine m)
     \<and> (p \<notin> set ps \<longrightarrow> hread (machine m') p = hread (machine m) p)"
proof (induction ps arbitrary: m)
  case (Cons q ps)
  let ?m = "m\<lparr>machine := (machine m)\<lparr>hfiles := AList.delete q (hfiles (machine m))\<rparr>\<rparr>"
  have "remove_files ps ?m = (r, m')" using Cons.prems by (simp add: remove_file_def modify_def)
  from Cons.IH [OF this] show ?case by (auto simp: hread_def delete_conv')
qed simp

lemma good_backup: "good False \<beta> sha (backup_state n)"
proof (rule good_frame)
  fix m r m' assume r: "backup_state n m = (r, m')"
  show "idle m m'"
  proof (cases "m' = m")
    case False
    then obtain t where t: "hread (machine m) (state_file m) = Some t"
        and r': "io_bind (set_content (child_path (manager_run_root m) (backup_name n)) t) (\<lambda>_. rotate_backups) m = (r, m')"
      using r by (auto simp: backup_state_def split: option.splits if_splits)
    let ?p = "child_path (manager_run_root m) (backup_name n)"
    let ?m = "m\<lparr>machine := (machine m)\<lparr>hfiles := AList.update ?p t (hfiles (machine m))\<rparr>\<rparr>"
    have "?p \<noteq> state_file m" by (simp add: state_file_def child_path_def backup_name_def)
    then have 1: "hread (machine ?m) (state_file m) = hread (machine m) (state_file m)" by (simp add: hread_def update_conv')
    have "state_file m \<notin> set (backups ?m)" using state_file_not_backup by (auto simp: backups_def Let_def)
    then have 2: "state_file m \<notin> set (take k (backups ?m))" for k by (meson in_set_takeD)
    have "rotate_backups ?m = (r, m')" using r' by (simp add: set_content_def modify_def)
    then show ?thesis using 1 2 remove_files_frame [of _ ?m r m' "state_file m"]
      by (force simp: idle_def rotate_backups_def state_file_def split: if_splits)
  qed simp
qed

text \<open>Allocating a provider attempt.\<close>

lemma version_value_ok: "version = PNone \<or> schema_version_ok version \<Longrightarrow> value_ok version"
proof (erule disjE)
  assume "schema_version_ok version"
  then obtain v where "version = PStr v" "v \<in> set PROMPT_FRAGMENT_IDENTITY_SCHEMA_VERSIONS"
    by (cases version) (simp_all add: schema_version_ok_def)
  moreover have "list_all well_formed PROMPT_FRAGMENT_IDENTITY_SCHEMA_VERSIONS"
    by (simp add: PROMPT_FRAGMENT_IDENTITY_SCHEMA_VERSIONS_def ascii_well_formed)
  ultimately show ?thesis by (simp add: list_all_iff)
qed simp

lemma entry_value_ok: "value_ok (PDict (scope_to_dict scope)) \<Longrightarrow> value_ok version \<Longrightarrow> value_ok (normalized_entry scope n version)"
  unfolding normalized_entry_def
  by (subst value_ok_simps(8), cases "version = PNone") (simp_all add: ascii_well_formed del: value_ok_simps(8))

lemma entry_scope_ok: "value_ok (normalized_entry scope n version) \<Longrightarrow> value_ok (PDict (scope_to_dict scope))"
  unfolding normalized_entry_def by (subst (asm) value_ok_simps(8)) (simp del: value_ok_simps(8))

lemma sound_allocated:
  assumes "sound \<beta> sha s" "run_provider_attempt_allocations s = PDict kv" "\<forall>t. all_ascii (sha t)"
    and scope: "scope_ok scope" "value_ok (PDict (scope_to_dict scope))" "version = PNone \<or> schema_version_ok version"
    and nxt: "next_allocation sha scope version kv = Inr (n, kv')"
  shows "sound \<beta> sha (s\<lparr>run_provider_attempt_allocations := PDict kv'\<rparr>)"
    "last_ordinal (PDict kv') (scope_key sha scope) = n" "n = last_ordinal (PDict kv) (scope_key sha scope) + 1"
proof -
  have table: "table_ok sha kv" using assms(1,2) by (simp add: sound_def document_ok_def)
  obtain scope' where s': "scope_ok scope'" "scope_key sha scope' = scope_key sha scope"
    and kv': "kv' = AList.update (scope_key sha scope) (normalized_entry scope' n version) kv"
    and n: "n = last_ordinal (PDict kv) (scope_key sha scope) + 1" "1 \<le> n"
    and origin: "scope' = scope \<or> (\<exists>i. map_of kv (scope_key sha scope) = Some (normalized_entry scope' i version))"
    by (rule allocates [OF table scope(1,3) nxt])
  show "n = last_ordinal (PDict kv) (scope_key sha scope) + 1" by (rule n)
  show ordinal: "last_ordinal (PDict kv') (scope_key sha scope) = n" by (simp add: kv' last_ordinal_update)
  have old: "value_ok (PDict kv)" using sound_values [OF assms(1), of "PDict kv"] assms(2) by (simp add: attributes_def)
  have "value_ok (PDict (scope_to_dict scope'))"
    using origin
  proof (rule disjE)
    assume "\<exists>i. map_of kv (scope_key sha scope) = Some (normalized_entry scope' i version)"
    then obtain i where "(scope_key sha scope, normalized_entry scope' i version) \<in> set kv" by (auto dest: map_of_SomeD)
    then have "value_ok (normalized_entry scope' i version)" using old by (auto simp: list_all_iff)
    then show ?thesis by (rule entry_scope_ok)
  next
    assume "scope' = scope"
    then show ?thesis using scope(2) by simp
  qed
  moreover have "value_ok version" using scope(3) by (rule version_value_ok)
  ultimately have "value_ok (normalized_entry scope' n version)" by (rule entry_value_ok)
  moreover have "well_formed (scope_key sha scope)" using assms(3) by (simp add: scope_key_def ascii_well_formed)
  ultimately have "value_ok (PDict kv')" unfolding kv' by (intro value_ok_update old)
  moreover have "table_ok sha kv'" using allocated_table [OF table s'(1) n(2) scope(3)] s'(2) by (simp add: kv')
  moreover have "\<beta> key \<le> last_ordinal (PDict kv') key" for key
  proof -
    have "\<beta> key \<le> last_ordinal (PDict kv) key" using assms(1,2) by (simp add: sound_def)
    then show ?thesis using n(1) unfolding kv' last_ordinal_update by (cases "key = scope_key sha scope") simp_all
  qed
  ultimately show "sound \<beta> sha (s\<lparr>run_provider_attempt_allocations := PDict kv'\<rparr>)"
    using assms(1) by (simp add: sound_def attributes_def document_ok_def del: value_ok_simps)
qed

lemma allocate_state_runs:
  assumes "sound \<beta> sha s" "allocate_state sha cwd m managers scope version s = (r, s')"
  obtains (raised) e where "r = Inl e" "s' = s"
    | (allocated) kv n kv' where "run_provider_attempt_allocations s = PDict kv" "next_allocation sha scope version kv = Inr (n, kv')"
      "r = Inr n" "s' = s\<lparr>run_provider_attempt_allocations := PDict kv'\<rparr>"
proof -
  obtain kv where kv: "run_provider_attempt_allocations s = PDict kv" "table_ok sha kv"
    using assms(1) by (auto simp: sound_def document_ok_def)
  have "validate_provider_attempt_allocations sha (PDict kv) = Inr kv"
    using table_fixed [of sha "[]" kv] kv(2) by (simp add: validate_provider_attempt_allocations_def)
  with assms(2) kv(1) show ?thesis
    by (cases "next_allocation sha scope version kv")
      (auto simp: allocate_state_def io_bind_cases check_def modify_def intro: that)
qed

lemma keeps_allocate:
  assumes "\<forall>t. all_ascii (sha t)" "scope_ok scope" "value_ok (PDict (scope_to_dict scope))" "version = PNone \<or> schema_version_ok version"
  shows "keeps \<beta> sha (allocate_state sha cwd m managers scope version)"
  unfolding keeps_def
proof (rule tripleI)
  fix s r s' assume s: "sound \<beta> sha s" and r: "allocate_state sha cwd m managers scope version s = (r, s')"
  from s r show "case r of Inr x \<Rightarrow> sound \<beta> sha s' | Inl e \<Rightarrow> sound \<beta> sha s'"
    by (rule allocate_state_runs) (simp_all add: s sound_allocated(1) [OF s _ assms])
qed

lemma good_allocate:
  assumes "\<forall>t. all_ascii (sha t)" "scope_ok scope" "value_ok (PDict (scope_to_dict scope))"
  shows "good wr \<beta> sha (allocate_provider_attempt sha cwd managers scope version)"
proof (rule good_looking)
  fix m :: StateManager and s
  have "good wr \<beta> sha (reloading sha (state_transaction sha (allocate_state sha cwd m managers scope version)))"
    if "version = PNone \<or> schema_version_ok version"
  proof (rule good_from_consistent)
    have "triple (consistent \<beta> sha) (state_transaction sha (allocate_state sha cwd m managers scope version)) (\<lambda>_. synced \<beta> sha) (consistent \<beta> sha)"
      using keeps_allocate [OF assms that] unfolding keeps_def
      by (rule triple_mono [OF transaction_keeps]) (auto intro: synced_consistent)
    then show "triple (consistent \<beta> sha) (reloading sha (state_transaction sha (allocate_state sha cwd m managers scope version)))
        (\<lambda>_. synced \<beta> sha) (consistent \<beta> sha)"
      by (rule triple_mono [OF reloading_keeps]) (auto intro: synced_consistent)
  qed
  then show "good_at wr \<beta> sha m (allocate_provider_attempt sha cwd managers scope version m)"
    unfolding allocate_provider_attempt_def by (intro good_atI good_at_case) auto
qed

text \<open>All of them together.\<close>

lemma serve_good: "\<forall>t. all_ascii (sha t) \<Longrightarrow> request_ok q \<Longrightarrow> good (writes q) \<beta> sha (serve sha q)"
  by (cases q) (simp_all only: simp_thms writes.simps good_allocate serve.simps request_ok.simps good_step_requests good_update_for_each good_dataflow_requests
      good_update_dataflow_state good_attribute_requests good_update_status good_update_counters good_recover good_fail_run
      good_cursor_requests good_heartbeat good_clear_current good_bind_root good_begin_visit good_settle good_root_failure
      good_backup good_load good_void)



section \<open>Runs of a manager\<close>

definition start_ok :: "(string \<Rightarrow> string) \<Rightarrow> StateManager \<Rightarrow> string \<Rightarrow> pyval \<Rightarrow> pyval \<Rightarrow> pyval \<Rightarrow> bool" where
  "start_ok sha m workflow_file ctx inputs observability \<longleftrightarrow>
     (\<forall>i. well_formed (clock (machine m) i)) \<and> (\<forall>t. all_ascii (sha t)) \<and> well_formed (manager_run_id m)
     \<and> well_formed (manager_run_root m) \<and> well_formed workflow_file \<and> value_ok ctx \<and> value_ok inputs \<and> value_ok observability"

text \<open>
  What can happen to a manager: it serves requests, with any outcome, and a new process makes a
  manager from the files it left behind. The managers of a run come from one that initialized it.
\<close>

inductive later :: "(string \<Rightarrow> string) \<Rightarrow> StateManager \<Rightarrow> StateManager \<Rightarrow> bool" for sha m where
  now_itself: "later sha m m"
| later_served: "later sha m m1 \<Longrightarrow> request_ok q \<Longrightarrow> serve sha q m1 = (r, m2) \<Longrightarrow> later sha m m2"
| later_restarted: "later sha m m1 \<Longrightarrow> hfiles h = hfiles (machine m1) \<Longrightarrow> \<forall>i. well_formed (clock h i) \<Longrightarrow>
     load sha (m1\<lparr>state := None, machine := h\<rparr>) = (Inr (), m2) \<Longrightarrow> later sha m m2"

definition reachable :: "(string \<Rightarrow> string) \<Rightarrow> StateManager \<Rightarrow> bool" where
  "reachable sha m \<longleftrightarrow> (\<exists>m0 m1 workflow_file ctx inputs observability profile.
     start_ok sha m0 workflow_file ctx inputs observability
     \<and> initialize sha workflow_file ctx inputs observability profile m0 = (Inr (), m1) \<and> later sha m1 m)"

lemma started:
  "initialize sha workflow_file ctx inputs observability profile m = (Inr (), m') \<Longrightarrow>
     start_ok sha m workflow_file ctx inputs observability \<Longrightarrow> reachable sha m'"
  using now_itself [of sha m'] unfolding reachable_def by blast

lemma served: "reachable sha m \<Longrightarrow> request_ok q \<Longrightarrow> serve sha q m = (r, m') \<Longrightarrow> reachable sha m'"
  unfolding reachable_def by (blast intro: later_served)

lemma restarted:
  "reachable sha m \<Longrightarrow> hfiles h = hfiles (machine m) \<Longrightarrow> \<forall>i. well_formed (clock h i) \<Longrightarrow>
     load sha (m\<lparr>state := None, machine := h\<rparr>) = (Inr (), m') \<Longrightarrow> reachable sha m'"
  unfolding reachable_def by (blast intro: later_restarted)

lemma new_state_sound:
  assumes "start_ok sha m f ctx inputs obs" "profile = PNone \<or> profile_ok profile" "well_formed checksum" "well_formed t"
  shows "sound (\<lambda>_. 0) sha (new_state m f checksum t ctx inputs obs profile)"
  using assms
  by (auto simp: last_ordinal_def dget_def dfield_def sound_def attributes_def document_ok_def steps_sound_def loops_sound_def new_state_def start_ok_def or_empty_def
      profile_ok_def ascii_well_formed SCHEMA_VERSION_def DERIVED_PURE_REPLAY_PROFILE_def table_ok_def)

lemma ascii_checksum: "all_ascii t \<Longrightarrow> well_formed (''sha256:'' @ t)"
  by (rule ascii_well_formed) (simp add: all_ascii_def)

lemma initialize_synced:
  assumes run: "initialize sha f ctx inputs obs profile m = (Inr (), m')" and ok: "start_ok sha m f ctx inputs obs"
  shows "synced (\<lambda>_. 0) sha m'"
proof -
  let ?t = "clock (machine m) (ticks (machine m))"
  obtain content where p: "profile = PNone \<or> profile_ok profile"
    and w: "write_state (m\<lparr>machine := (machine m)\<lparr>ticks := Suc (ticks (machine m))\<rparr>,
        state := Some (new_state m f (''sha256:'' @ sha content) ?t ctx inputs obs profile)\<rparr>) = (Inr (), m')" (is "write_state ?m = _")
    using run
    by (auto simp: initialize_def io_bind_cases calculate_checksum_def read_file_def now_def set_state_def modify_def
        require_iff split: option.splits)
  have c: "well_formed (''sha256:'' @ sha content)" using ok by (intro ascii_checksum) (simp add: start_ok_def)
  have s: "sound (\<lambda>_. 0) sha (new_state m f (''sha256:'' @ sha content) ?t ctx inputs obs profile)"
    using ok by (intro new_state_sound p c) (simp_all add: start_ok_def)
  then have "held (\<lambda>_. 0) sha ?m" using ok by (simp add: held_def start_ok_def)
  moreover have "state ?m = Some (new_state m f (''sha256:'' @ sha content) ?t ctx inputs obs profile)" by simp
  ultimately show ?thesis using write_state_returns(1) w by blast
qed


lemma restarted_synced:
  assumes "consistent \<beta> sha m" "hfiles h = hfiles (machine m)" "\<forall>i. well_formed (clock h i)"
  obtains s where "stored sha m s" "sound \<beta> sha s" "load sha (m\<lparr>state := None, machine := h\<rparr>) = (Inr (), m\<lparr>state := Some s, machine := h\<rparr>)"
    "synced \<beta> sha (m\<lparr>state := Some s, machine := h\<rparr>)"
proof -
  obtain s where s: "stored sha m s" "sound \<beta> sha s" using assms(1) by (auto simp: consistent_def readable_def)
  let ?m = "m\<lparr>state := None, machine := h\<rparr>" and ?m' = "m\<lparr>state := Some s, machine := h\<rparr>"
  have same: "hread h = hread (machine m)" using assms(2) by (simp add: hread_def fun_eq_iff)
  have st: "stored sha ?m s" "stored sha ?m' s" using s(1) same by (simp_all add: stored_def)
  show ?thesis
    using that [OF s] read_stored(2) [OF st(1)] st(2) s(2) assms(3) by (auto simp: synced_def held_def)
qed

lemma later_consistent:
  assumes "later sha m m'" "\<forall>t. all_ascii (sha t)" "consistent \<beta> sha m"
  shows "consistent \<beta> sha m'"
  using assms(1)
proof induction
  case now_itself
  show ?case by (rule assms(3))
next
  case (later_served m1 q r m2)
  then show ?case using good_returns(1) serve_good assms(2) by blast
next
  case (later_restarted m1 h m2)
  then obtain s where "load sha (m1\<lparr>state := None, machine := h\<rparr>) = (Inr (), m1\<lparr>state := Some s, machine := h\<rparr>)"
    "synced \<beta> sha (m1\<lparr>state := Some s, machine := h\<rparr>)" by (metis restarted_synced)
  then show ?case using later_restarted.hyps(4) synced_consistent by simp
qed

lemma reachable_sha: "reachable sha m \<Longrightarrow> \<forall>t. all_ascii (sha t)"
  by (auto simp: reachable_def start_ok_def)

lemma reachable_consistent: "reachable sha m \<Longrightarrow> consistent (\<lambda>_. 0) sha m"
  using reachable_sha [of sha m] later_consistent synced_consistent initialize_synced unfolding reachable_def by metis

text \<open>Memory agrees with the document: loading it gives a state with the same dict form.\<close>

definition agrees :: "(string \<Rightarrow> string) \<Rightarrow> StateManager \<Rightarrow> bool" where
  "agrees sha m = (case load sha m of
      (Inr _, m') \<Rightarrow> map_option to_dict (state m') = map_option to_dict (state m) | _ \<Rightarrow> False)"

lemma agrees_synced: "consistent \<beta> sha m \<Longrightarrow> agrees sha m \<longleftrightarrow> synced \<beta> sha m"
proof
  assume m: "consistent \<beta> sha m"
  then obtain s where s: "stored sha m s" "sound \<beta> sha s" by (auto simp: consistent_def readable_def)
  { assume "agrees sha m" with m s read_stored(2) [OF s(1)] show "synced \<beta> sha m"
      by (auto simp: agrees_def synced_def consistent_def held_def) }
  { assume "synced \<beta> sha m"
    then obtain s s0 where "state m = Some s" "stored sha m s0" "to_dict s0 = to_dict s" by (auto simp: synced_def)
    then show "agrees sha m" using read_stored(2) by (simp add: agrees_def) }
qed

lemma row_of_dict: "to_dict s0 = to_dict s \<Longrightarrow> to_dict s = Inr d \<Longrightarrow> step_row s0 n = step_row s n"
proof -
  assume eq: "to_dict s0 = to_dict s" and d: "to_dict s = Inr d"
  have "step_row s n = (case dget d ''steps'' of PDict kv \<Rightarrow> dget kv n | _ \<Rightarrow> PNone)" if form: "to_dict s = Inr d" for s
  proof -
    obtain cells where cells: "run_steps s = Steps cells" using form by (auto simp: to_dict_def split: steps_attr.splits)
    note d' = form [unfolded to_dict_def cells steps_attr.case sum.inject, symmetric]
    have "dget d ''steps'' = PDict (map (\<lambda>(k, c). (k, cell_value c)) cells)" by (simp add: d' dget_def del: map_of_append)
    then show ?thesis by (simp add: step_row_def cells dget_def map_of_map_snd split: option.splits)
  qed
  with eq d show "step_row s0 n = step_row s n" by metis
qed


lemma update_step_row:
  assumes "consistent \<beta> sha m" "well_formed name" "result_ok r" "update_step name r m = (Inr (), m')"
  obtains s where "state m' = Some s" "step_row s name = PDict (step_result_to_dict r)" "synced \<beta> sha m'"
proof -
  obtain s where s0: "state m = Some s" "sound \<beta> sha s" using assms(1) by (auto simp: consistent_def held_def)
  obtain cells where s: "state m = Some s" "sound \<beta> sha s" "run_steps s = Steps cells" using s0 sound_steps by metis
  let ?f = "io_bind (assign_step name (Result r)) (\<lambda>_. io_bind (check (\<lambda>s. cursor_named s name)) (\<lambda>named. if named then clear_cursor else ret ()))"
  let ?s = "s\<lparr>run_steps := Steps (AList.update name (Result r) cells)\<rparr>"
  have k: "keeps \<beta> sha ?f" by (intro keeps_steps assms)
  have cursor: "cursor_named ?s name = cursor_named s name" by (simp add: cursor_named_def)
  have run: "updating ?f m = (Inr (), m')" using assms(4) by (simp add: update_step_def)
  then obtain s1 where s1: "?f s = (Inr (), s1)" and w: "write_state (m\<lparr>state := Some s1\<rparr>) = (Inr (), m')"
    by (auto simp: updating_def mutating_def io_bind_cases s(1) split: prod.splits)
  have row: "step_row s1 name = PDict (step_result_to_dict r)"
    using s1 s(3) by (cases "cursor_named s name")
      (auto simp: assign_step_def put_def set_step_def check_def io_bind_def cursor clear_cursor_def modify_def step_row_def
        update_conv' cell_value_def split: if_splits)
  have "sound \<beta> sha s1" using k s1 s(2) triple_returns unfolding keeps_def by fastforce
  then have "held \<beta> sha (m\<lparr>state := Some s1\<rparr>)" using assms(1) by (simp add: consistent_def held_def)
  from write_state_returns [OF _ this w] obtain t where "state m' = Some (s1\<lparr>run_updated_at := t\<rparr>)" "synced \<beta> sha m'" by auto
  then show ?thesis using that row by (simp add: step_row_def)
qed


section \<open>Requests that are let through\<close>

text \<open>The system calls proceed and the temporary name of the document is free.\<close>

definition smooth :: "StateManager \<Rightarrow> bool" where
  "smooth m \<longleftrightarrow> willing (machine m) \<and> (\<forall>n. token (machine m) n = token (machine m) 0)
     \<and> (\<exists>tmp. temporary_path (state_file m) (machine m) = Inr tmp \<and> hread (machine m) tmp = None)"

lemma temporary_same: "token h' (calls h') = token h (calls h) \<Longrightarrow> temporary_path p h' = temporary_path p h"
  by (simp add: temporary_path_def)

lemma write_state_smooth:
  assumes "state m = Some s" "held \<beta> sha m" "smooth m"
  obtains m' where "write_state m = (Inr (), m')" "smooth m'" "\<exists>h t. m' = m\<lparr>machine := h, state := Some (s\<lparr>run_updated_at := t\<rparr>)\<rparr>"
proof -
  let ?t = "clock (machine m) (ticks (machine m))"
  let ?s = "s\<lparr>run_updated_at := PStr ?t\<rparr>" and ?h = "(machine m)\<lparr>ticks := Suc (ticks (machine m))\<rparr>"
  have "sound \<beta> sha ?s" using assms(1,2) by (auto simp: held_def intro: sound_attribute)
  then obtain d where d: "to_dict ?s = Inr d" by (rule sound_dict)
  obtain tmp where tmp: "temporary_path (state_file m) ?h = Inr tmp" "hread ?h tmp = None" and w: "willing ?h"
    and same: "\<And>n. token (machine m) n = token (machine m) 0"
    using assms(3) by (auto simp: smooth_def willing_def temporary_path_def)
  have "tmp \<noteq> state_file m" using tmp(1) state_file_tmp [of m ?h] by (metis Inr_inject)
  from willing_replaces [OF w tmp(1) this tmp(2), of False "json_dumps_ascii (PDict d)"]
  obtain h' where h': "atomic_write_text (state_file m) (json_dumps_ascii (PDict d)) ?h = (Inr (), h')"
    "replaced ?h tmp (state_file m) (json_dumps_ascii (PDict d)) h'" "plan h' = plan (machine m)" "token h' = token (machine m)"
    by (auto simp: atomic_write_text_def atomic_write_bytes_def)
  let ?m' = "m\<lparr>machine := h', state := Some ?s\<rparr>"
  have "write_state m = (Inr (), ?m')"
    using assms(1) d h'(1)
    by (simp add: write_state_def now_def io_bind_def mutating_def modify_def check_def write_json_atomic_def on_machine_def)
  moreover have "temporary_path (state_file m) h' = temporary_path (state_file m) ?h"
    using h'(4) same by (intro temporary_same) (metis os_host.select_convs(6) os_host.surjective os_host.update_convs(5))
  then have "smooth ?m'" using h'(2-4) w tmp same by (simp add: smooth_def willing_def replaced_def)
  ultimately show ?thesis using that by blast
qed

lemma updating_smooth:
  assumes "consistent \<beta> sha m" "smooth m" "keeps \<beta> sha f" "state m = Some s" "f s = (Inr x, s')"
  obtains m' where "updating f m = (Inr x, m')" "smooth m'" "\<exists>h t. m' = m\<lparr>machine := h, state := Some (s'\<lparr>run_updated_at := t\<rparr>)\<rparr>"
proof -
  let ?m = "m\<lparr>state := Some s'\<rparr>"
  have "sound \<beta> sha s" using assms(1,4) by (simp add: consistent_def held_def)
  then have "sound \<beta> sha s'" using assms(3,5) triple_returns unfolding keeps_def by fastforce
  then have "held \<beta> sha ?m" using assms(1) by (simp add: consistent_def held_def)
  moreover have "smooth ?m" using assms(2) by (simp add: smooth_def)
  moreover have "state ?m = Some s'" by simp
  ultimately obtain m' where "write_state ?m = (Inr (), m')" "smooth m'"
      "\<exists>h t. m' = ?m\<lparr>machine := h, state := Some (s'\<lparr>run_updated_at := t\<rparr>)\<rparr>" using write_state_smooth by blast
  then show ?thesis using that [of m'] assms(4,5) by (simp add: updating_def mutating_def io_bind_def)
qed

text \<open>A run in the workspace \<open>w\<close>.\<close>

definition demo_machine :: os_host where
  "demo_machine = \<lparr>hfiles = [(''w/flow.yaml'', ''steps'')], plan = (\<lambda>_. Proceed 512), calls = 0,
     clock = (\<lambda>_. ''now''), ticks = 0, token = (\<lambda>_. ''1-ab'')\<rparr>"

definition demo_manager :: StateManager where
  "demo_manager = make_manager ''w'' ''r1'' False False None demo_machine"

abbreviation demo_start :: "unit sm" where
  "demo_start \<equiv> initialize (\<lambda>_. ''0'') ''flow.yaml'' PNone PNone PNone (PStr DERIVED_PURE_REPLAY_PROFILE)"

lemma demo_run_paths: "workflow_path demo_manager ''flow.yaml'' = ''w/flow.yaml''"
  "temporary_path (state_file demo_manager) demo_machine = Inr ''w/.orchestrate/runs/r1/.orc-tmp-1-ab.tmp''"
  by code_simp+

lemma demo_start_ok: "start_ok (\<lambda>_. ''0'') demo_manager ''flow.yaml'' PNone PNone PNone"
  by (simp add: start_ok_def demo_manager_def demo_machine_def make_manager_def child_path_def ascii_well_formed)

lemma demo_smooth: "smooth demo_manager"
  using demo_run_paths(2) by (simp add: smooth_def demo_manager_def make_manager_def demo_machine_def willing_def hread_def state_file_def)

lemma demo_started:
  obtains m s where "demo_start demo_manager = (Inr (), m)" "reachable (\<lambda>_. ''0'') m" "smooth m" "agrees (\<lambda>_. ''0'') m"
    "state m = Some s" "run_current_step s = PNone" "manager_run_root m = manager_run_root demo_manager" "manager_run_id m = ''r1''"
    "run_id s = PStr ''r1''" "run_root s = PStr (manager_run_root demo_manager)" "run_workflow_file s = PStr ''flow.yaml''"
    "run_provider_attempt_allocations s = PDict []"
proof -
  let ?s = "new_state demo_manager ''flow.yaml'' (''sha256:'' @ ''0'') ''now'' PNone PNone PNone (PStr DERIVED_PURE_REPLAY_PROFILE)"
  let ?m = "demo_manager\<lparr>machine := demo_machine\<lparr>ticks := 1\<rparr>, state := Some ?s\<rparr>"
  have m: "machine demo_manager = demo_machine" by (simp add: demo_manager_def make_manager_def)
  have "sound (\<lambda>_. 0) (\<lambda>_. ''0'') ?s" by (intro new_state_sound demo_start_ok) (simp_all add: profile_ok_def ascii_well_formed)
  then have h: "held (\<lambda>_. 0) (\<lambda>_. ''0'') ?m" by (simp add: held_def demo_machine_def ascii_well_formed)
  have sm: "smooth ?m" using demo_smooth by (simp add: smooth_def m willing_def temporary_path_def)
  have st: "state ?m = Some ?s" by simp
  obtain m' where w: "write_state ?m = (Inr (), m')" "smooth m'" "\<exists>h t. m' = ?m\<lparr>machine := h, state := Some (?s\<lparr>run_updated_at := t\<rparr>)\<rparr>"
    by (rule write_state_smooth [OF st h sm])
  have run: "demo_start demo_manager = (Inr (), m')"
    using w(1) by (simp add: initialize_def calculate_checksum_def read_file_def demo_run_paths m hread_def now_def set_state_def modify_def
        profile_ok_def demo_machine_def)
  note r = started [OF run demo_start_ok]
  have c: "consistent (\<lambda>_. 0) (\<lambda>_. ''0'') m'" by (rule reachable_consistent [OF r])
  have agrees: "agrees (\<lambda>_. ''0'') m'" using agrees_synced [OF c] initialize_synced [OF run demo_start_ok] by simp
  obtain h' t where m': "m' = ?m\<lparr>machine := h', state := Some (?s\<lparr>run_updated_at := t\<rparr>)\<rparr>" using w(3) by (elim exE)
  show ?thesis
    by (rule that [OF run r w(2) agrees, of "?s\<lparr>run_updated_at := t\<rparr>"]) (simp_all add: m' new_state_def demo_manager_def make_manager_def)
qed

definition demo_build :: StepResult where
  "demo_build = \<lparr>res_status = PStr ''completed'', res_name = PNone, res_step_id = PNone, res_exit_code = PInt 0,
     res_started_at = PNone, res_completed_at = PNone, res_duration_ms = PNone, res_output = PNone,
     res_truncated = PBool False, res_lines = PNone, res_json = PNone, res_text = PNone,
     res_error = PNone, res_debug = PNone, res_artifacts = PNone, res_snapshots = PNone,
     res_adjudication = PNone, res_managed_jobs = PNone, res_skipped = PBool False, res_files = PNone,
     res_wait_duration_ms = PNone, res_poll_count = PNone, res_timed_out = PNone, res_outcome = PNone,
     res_visit_count = PNone, res_run_ref = PNone, res_trial = PNone\<rparr>"

lemma demo_build_dict: "step_result_to_dict demo_build =
    [(''status'', PStr ''completed''), (''exit_code'', PInt 0), (''truncated'', PBool False), (''skipped'', PBool False)]"
  by code_simp

lemma demo_build_ok: "result_ok demo_build"
  by (simp add: result_ok_def demo_build_dict ascii_well_formed)

lemma update_step_smooth:
  assumes "consistent \<beta> sha m" "smooth m" "state m = Some s" "well_formed n" "result_ok r" "run_current_step s = PNone"
  shows "\<exists>m'. update_step n r m = (Inr (), m')"
proof -
  have "sound \<beta> sha s" using assms(1,3) by (simp add: consistent_def held_def)
  then obtain cells where cells: "run_steps s = Steps cells" using sound_steps by blast
  let ?f = "io_bind (assign_step n (Result r)) (\<lambda>_. io_bind (check (\<lambda>s. cursor_named s n)) (\<lambda>named. if named then clear_cursor else ret ()))"
  have run: "?f s = (Inr (), s\<lparr>run_steps := Steps (AList.update n (Result r) cells)\<rparr>)"
    using assms(6) by (simp add: assign_step_def put_def set_step_def check_def io_bind_def cursor_named_def cells)
  have "keeps \<beta> sha ?f" by (intro keeps_steps assms)
  from updating_smooth [OF assms(1,2) this assms(3) run] show ?thesis unfolding update_step_def by metis
qed

section \<open>What a run can rely on\<close>

definition transactional :: "request \<Rightarrow> bool" where
  "transactional q = (case q of BeginPureVisit _ _ _ \<Rightarrow> True | SettlePureSuccess _ \<Rightarrow> True | SettlePureFailure _ _ \<Rightarrow> True | _ \<Rightarrow> False)"

lemma transaction_always_synced:
  assumes "keeps \<beta> sha f" "consistent \<beta> sha m" "state_transaction sha f m = (r, m')"
  shows "synced \<beta> sha m'"
proof -
  have t: "triple (consistent \<beta> sha) (state_transaction sha f) (\<lambda>_. synced \<beta> sha) (synced \<beta> sha)"
    using assms(1) unfolding keeps_def by (rule transaction_keeps)
  show ?thesis using triple_returns [OF t assms(2)] triple_raises [OF t assms(2)] assms(3) by (cases r) auto
qed

lemma void_cases: "void f m = (r, m') \<Longrightarrow> \<exists>r'. f m = (r', m')"
  by (auto simp: io_bind_cases)

lemma transactions_synced:
  assumes "request_ok q" "transactional q" "consistent \<beta> sha m" "serve sha q m = (r, m')"
  shows "synced \<beta> sha m'"
proof (cases q)
  case (BeginPureVisit n i sid)
  let ?m = "m\<lparr>machine := (machine m)\<lparr>ticks := Suc (ticks (machine m))\<rparr>\<rparr>" and ?t = "clock (machine m) (ticks (machine m))"
  obtain r' where "state_transaction sha (begin_eligible_pure_visit_state ?t n i sid) ?m = (r', m')"
    using assms(4) void_cases unfolding BeginPureVisit serve.simps begin_eligible_pure_visit_def
    by (fastforce simp: now_def io_bind_def)
  moreover have "keeps \<beta> sha (begin_eligible_pure_visit_state ?t n i sid)"
    using assms(1,3) by (intro keeps_begin) (simp_all add: BeginPureVisit consistent_def held_def)
  ultimately show ?thesis using transaction_always_synced tick_frame assms(3) by metis
next
  case (SettlePureSuccess w)
  then obtain r' where "state_transaction sha (settle_eligible_pure_success_state w) m = (r', m')"
    using assms(4) void_cases unfolding SettlePureSuccess serve.simps settle_eligible_pure_success_def by blast
  moreover have "keeps \<beta> sha (settle_eligible_pure_success_state w)"
    using assms(1) by (intro keeps_settle) (simp_all add: SettlePureSuccess)
  ultimately show ?thesis using transaction_always_synced assms(3) by blast
next
  case (SettlePureFailure w s)
  then have "keeps \<beta> sha (settle_eligible_pure_failure_state w s)" using assms(1) by (intro keeps_settle) simp_all
  moreover have "state_transaction sha (settle_eligible_pure_failure_state w s) m = (r, m')"
    using assms(4) SettlePureFailure by (simp add: settle_eligible_pure_failure_def)
  ultimately show ?thesis using transaction_always_synced assms(3) by blast
qed (use assms(2) in \<open>simp_all add: transactional_def\<close>)

lemma synced_row: "synced \<beta> sha m \<Longrightarrow> state m = Some s \<Longrightarrow> stored sha m s0 \<Longrightarrow> step_row s0 n = step_row s n"
proof -
  assume m: "synced \<beta> sha m" "state m = Some s" and s0: "stored sha m s0"
  then obtain s1 where s1: "stored sha m s1" "sound \<beta> sha s1" "to_dict s1 = to_dict s" by (auto simp: synced_def)
  obtain d where "to_dict s1 = Inr d" by (rule sound_dict [OF s1(2)])
  moreover have "s0 = s1" using read_stored(1) [OF s0] read_stored(1) [OF s1(1)] by simp
  ultimately show "step_row s0 n = step_row s n" using row_of_dict s1(3) by metis
qed

text \<open>
  C6: the run document is never torn. Whatever requests a manager has served, whatever system
  calls failed on the way and however often the process was restarted, a new process finds a
  document that loads, and the state it loads can be written again.
\<close>

theorem document_always_loads:
  assumes "reachable sha m" "hfiles h = hfiles (machine m)" "\<forall>i. well_formed (clock h i)"
  shows "\<exists>s d. load sha (m\<lparr>state := None, machine := h\<rparr>) = (Inr (), m\<lparr>state := Some s, machine := h\<rparr>) \<and> to_dict s = Inr d"
  using restarted_synced [OF reachable_consistent [OF assms(1)] assms(2,3)] sound_dict by metis

theorem document_always_loads_witness:
  "\<exists>m u r m' s d. demo_start demo_manager = (Inr (), m)
     \<and> load (\<lambda>_. ''0'') (m\<lparr>state := None, machine := (machine m)\<lparr>plan := \<lambda>_. Refuse\<rparr>\<rparr>) = (Inr (), u)
     \<and> serve (\<lambda>_. ''0'') (UpdateStatus ''failed'') u = (r, m')
     \<and> load (\<lambda>_. ''0'') (m'\<lparr>state := None, machine := machine m'\<rparr>) = (Inr (), m'\<lparr>state := Some s, machine := machine m'\<rparr>)
     \<and> to_dict s = Inr d"
proof -
  obtain m s where m: "demo_start demo_manager = (Inr (), m)" "reachable (\<lambda>_. ''0'') m" by (rule demo_started)
  let ?h = "(machine m)\<lparr>plan := \<lambda>_. Refuse\<rparr>"
  have c: "\<forall>i. well_formed (clock ?h i)"
    using reachable_consistent [OF m(2)] by (simp add: consistent_def held_def)
  obtain v where v: "load (\<lambda>_. ''0'') (m\<lparr>state := None, machine := ?h\<rparr>) = (Inr (), m\<lparr>state := Some v, machine := ?h\<rparr>)" (is "_ = (_, ?u)")
    using document_always_loads [OF m(2) _ c] by auto
  obtain r m' where r: "serve (\<lambda>_. ''0'') (UpdateStatus ''failed'') ?u = (r, m')" by fastforce
  have u: "reachable (\<lambda>_. ''0'') ?u" by (rule restarted [OF m(2) _ c v]) simp
  have m': "reachable (\<lambda>_. ''0'') m'" by (rule served [OF u _ r]) (simp add: ascii_well_formed)
  then have c': "\<forall>i. well_formed (clock (machine m') i)"
    using reachable_consistent [OF m'] by (simp add: consistent_def held_def)
  from document_always_loads [OF m' refl c'] m(1) v r show ?thesis by blast
qed

text \<open>
  C7: a request that returns is durable. From any reachable manager, also one whose memory had moved
  away from the document when an earlier write failed, a request that returns leaves memory and
  document in agreement, so the document holds the effect of the request. The exceptions are a
  heartbeat, a clearing of the cursor, a binding of the root and a backup: they may find nothing to do,
  and then they have touched neither the state in memory nor the document.
\<close>

theorem returned_request_is_durable:
  assumes "reachable sha m" "request_ok q" "serve sha q m = (Inr (), m')"
  shows "agrees sha m' \<or> (\<not> writes q \<and> state m' = state m \<and> state_file m' = state_file m
    \<and> hread (machine m') (state_file m) = hread (machine m) (state_file m))"
proof -
  note m = reachable_consistent [OF assms(1)]
  note after = good_returns [OF serve_good [OF reachable_sha [OF assms(1)] assms(2)] m assms(3)]
  show ?thesis using after(2) [OF refl] agrees_synced [OF after(1)] by (auto simp: idle_def)
qed

theorem returned_request_is_durable_witness:
  "\<exists>m m'. demo_start demo_manager = (Inr (), m)
     \<and> serve (\<lambda>_. ''0'') (UpdateStatus ''completed'') m = (Inr (), m') \<and> agrees (\<lambda>_. ''0'') m'"
proof -
  obtain m s where m: "demo_start demo_manager = (Inr (), m)" "reachable (\<lambda>_. ''0'') m" "smooth m" "agrees (\<lambda>_. ''0'') m"
    "state m = Some s" by (rule demo_started)
  have ok: "request_ok (UpdateStatus ''completed'')" by (simp add: ascii_well_formed)
  let ?f = "modify (\<lambda>s. s\<lparr>run_status := PStr ''completed''\<rparr>)"
  have k: "keeps (\<lambda>_. 0) (\<lambda>_. ''0'') ?f" by (rule keeps_attribute) (simp add: ascii_well_formed)
  have f: "?f s = (Inr (), s\<lparr>run_status := PStr ''completed''\<rparr>)" by (simp add: modify_def)
  obtain m' where r: "serve (\<lambda>_. ''0'') (UpdateStatus ''completed'') m = (Inr (), m')"
    unfolding serve.simps update_status_def by (rule updating_smooth [OF reachable_consistent [OF m(2)] m(3) k m(5) f])
  have "agrees (\<lambda>_. ''0'') m'" using returned_request_is_durable [OF m(2) ok r] by simp
  with m(1) r show ?thesis by blast
qed

text \<open>
  C8: a pure visit transaction that raises is rolled back. Whether beginning or settling a visit
  returns or raises, and even if memory had moved away from the document before, the state in
  memory afterwards is the one the document holds.
\<close>

theorem visit_transaction_agrees:
  assumes "reachable sha m" "request_ok q" "transactional q" "serve sha q m = (r, m')"
  shows "agrees sha m'"
  using transactions_synced [OF assms(2,3) reachable_consistent [OF assms(1)] assms(4)] agrees_synced synced_consistent by blast

theorem visit_transaction_agrees_witness:
  "\<exists>m r m'. demo_start demo_manager = (Inr (), m)
     \<and> serve (\<lambda>_. ''0'') (BeginPureVisit ''total'' 0 ''root.total'') m = (r, m') \<and> agrees (\<lambda>_. ''0'') m'"
proof -
  obtain m s where m: "demo_start demo_manager = (Inr (), m)" "reachable (\<lambda>_. ''0'') m" by (rule demo_started)
  obtain r m' where r: "serve (\<lambda>_. ''0'') (BeginPureVisit ''total'' 0 ''root.total'') m = (r, m')" by fastforce
  have "request_ok (BeginPureVisit ''total'' 0 ''root.total'')" "transactional (BeginPureVisit ''total'' 0 ''root.total'')"
    by (simp_all add: ascii_well_formed transactional_def)
  from visit_transaction_agrees [OF m(2) this r] m(1) r show ?thesis by blast
qed

text \<open>
  C9: a recorded step result survives a restart: after \<open>update_step\<close> returns, a new process that
  loads the run finds exactly that result in the row of the step. The values of the result are those
  that JSON gives back as they are: None, bools, ints, well-formed texts, and lists and dicts of
  these. A tuple would come back as a list, and floats are outside the model of the document.
\<close>

theorem recorded_step_survives_restart:
  assumes "reachable sha m" "well_formed name" "result_ok r" "update_step name r m = (Inr (), m')"
    and "hfiles h = hfiles (machine m')" "\<forall>i. well_formed (clock h i)"
  shows "\<exists>s. load sha (m'\<lparr>state := None, machine := h\<rparr>) = (Inr (), m'\<lparr>state := Some s, machine := h\<rparr>)
    \<and> step_row s name = PDict (step_result_to_dict r)"
proof -
  obtain s where s: "state m' = Some s" "step_row s name = PDict (step_result_to_dict r)" "synced (\<lambda>_. 0) sha m'"
    by (rule update_step_row [OF reachable_consistent [OF assms(1)] assms(2-4)])
  obtain s0 where s0: "stored sha m' s0" "load sha (m'\<lparr>state := None, machine := h\<rparr>) = (Inr (), m'\<lparr>state := Some s0, machine := h\<rparr>)"
    by (rule restarted_synced [OF synced_consistent [OF s(3)] assms(5,6)])
  have "step_row s0 name = step_row s name" using synced_row [OF s(3,1) s0(1)] .
  with s(2) s0(2) show ?thesis by auto
qed

theorem recorded_step_survives_restart_witness:
  "\<exists>m m' s. demo_start demo_manager = (Inr (), m) \<and> update_step ''build'' demo_build m = (Inr (), m')
     \<and> load (\<lambda>_. ''0'') (m'\<lparr>state := None, machine := machine m'\<rparr>) = (Inr (), m'\<lparr>state := Some s, machine := machine m'\<rparr>)
     \<and> step_row s ''build'' = PDict (step_result_to_dict demo_build)"
proof -
  obtain m s where m: "demo_start demo_manager = (Inr (), m)" "reachable (\<lambda>_. ''0'') m" "smooth m" "agrees (\<lambda>_. ''0'') m"
    "state m = Some s" "run_current_step s = PNone" by (rule demo_started)
  have ok: "well_formed ''build''" "result_ok demo_build" using demo_build_ok by (simp_all add: ascii_well_formed)
  obtain m' where m': "update_step ''build'' demo_build m = (Inr (), m')"
    using update_step_smooth [OF reachable_consistent [OF m(2)] m(3,5) ok m(6)] by blast
  have "reachable (\<lambda>_. ''0'') m'" by (rule served [of _ m "UpdateStep ''build'' demo_build"]) (use m(2) m' ok in simp_all)
  then have c: "\<forall>i. well_formed (clock (machine m') i)"
    using reachable_consistent by (simp add: consistent_def held_def)
  from recorded_step_survives_restart [OF m(2) ok m' refl c] m(1) m' show ?thesis by blast
qed

end
