(* ===== verification/StateBackups.thy ===== *)
theory StateBackups
  imports StateRequests
begin

text \<open>
  Backups of the run document. A repair installs a backup that loads, and none of the readable
  backups records a provider attempt. Rotation keeps three backups by the order of their names,
  not of their age: the backup that was just made is the one that goes when its name sorts first.
\<close>

section \<open>Repair\<close>

lemma valid_backups_all:
  "valid_backups doc ps = Inr (Some vs) \<Longrightarrow>
     (\<forall>(p, s) \<in> set vs. p \<in> set ps \<and> doc p = Inr s) \<and> (\<forall>p \<in> set ps. \<forall>s. doc p = Inr s \<longrightarrow> \<not> py_bool (run_provider_attempt_allocations s))"
  by (induction ps arbitrary: vs) (auto simp: rbind_Inr_iff split: sum.splits if_splits)

lemma hread_update: "hread (h\<lparr>hfiles := AList.update p t (hfiles h)\<rparr>) q = (if q = p then Some t else hread h q)"
  by (simp add: hread_def update_conv')

lemma valid_backups_first:
  "valid_backups doc ps = Inr (Some ((p, s) # vs)) \<Longrightarrow>
     \<exists>us ws. ps = us @ p # ws \<and> (\<forall>u \<in> set us. \<forall>s. doc u \<noteq> Inr s)"
proof (induction ps)
  case (Cons q qs)
  show ?case
  proof (cases "doc q")
    case (Inl e)
    with Cons obtain us ws where "qs = us @ p # ws" "\<forall>u \<in> set us. \<forall>s. doc u \<noteq> Inr s" by (auto split: if_splits)
    with Inl show ?thesis by (intro exI [of _ "q # us"] exI [of _ ws]) auto
  next
    case (Inr x)
    with Cons.prems have "q = p" by (auto simp: rbind_Inr_iff split: if_splits)
    then show ?thesis by (intro exI [of _ "[]"] exI [of _ qs]) simp
  qed
qed simp

lemma sorted_backups: "sorted (backups m)"
  by (simp add: backups_def Let_def)

lemma repaired:
  assumes "attempt_repair sha m = (Inr True, m')"
  obtains p s t where "p \<in> set (backups m)" "hread (machine m) p = Some t" "backup_document sha m p = Inr s"
    "m' = m\<lparr>machine := (machine m)\<lparr>hfiles := AList.update (state_file m) t (hfiles (machine m))\<rparr>, state := Some s\<rparr>"
    "\<forall>q \<in> set (backups m). \<forall>s. backup_document sha m q = Inr s \<longrightarrow> \<not> py_bool (run_provider_attempt_allocations s) \<and> q \<le> p"
proof -
  obtain p s vs where v: "valid_backups (backup_document sha m) (rev (backups m)) = Inr (Some ((p, s) # vs))"
    using assms by (auto simp: attempt_repair_def split: sum.splits option.splits list.splits)
  have p: "p \<in> set (backups m)" "backup_document sha m p = Inr s" using valid_backups_all [OF v] by auto
  obtain t where t: "hread (machine m) p = Some t" using p(2) by (auto simp: backup_document_def split: option.splits)
  have m': "m' = m\<lparr>machine := (machine m)\<lparr>hfiles := AList.update (state_file m) t (hfiles (machine m))\<rparr>, state := Some s\<rparr>"
    using assms v t by (simp add: attempt_repair_def read_file_def set_content_def set_state_def modify_def io_bind_def)
  obtain us ws where us: "rev (backups m) = us @ p # ws" "\<forall>u \<in> set us. \<forall>s. backup_document sha m u \<noteq> Inr s"
    using valid_backups_first [OF v] by blast
  have le: "q \<le> p" if "q \<in> set (backups m)" "backup_document sha m q = Inr x" for q x
  proof -
    have "sorted (rev (us @ p # ws))" using sorted_backups [of m] us(1) by (metis rev_rev_ident)
    moreover have "q \<in> set (us @ p # ws)" "q \<notin> set us" using that us by (metis set_rev, blast)
    ultimately show ?thesis by (auto simp: sorted_append)
  qed
  have "\<forall>q \<in> set (backups m). \<forall>s. backup_document sha m q = Inr s \<longrightarrow> \<not> py_bool (run_provider_attempt_allocations s) \<and> q \<le> p"
    using valid_backups_all [OF v] le by auto
  then show ?thesis by (rule that [OF p(1) t p(2) m'])
qed

text \<open>
  C16: a repair that succeeds installs a run that loads. The document is that of the backup with the greatest name among the
  readable ones, the state in memory is the one the document says, and no readable backup, not only the one installed, records a
  provider attempt.
\<close>

theorem repair_installs_loadable_run:
  assumes "attempt_repair sha m = (Inr True, m')"
  shows "\<exists>s p. state m' = Some s \<and> load sha m' = (Inr (), m')
    \<and> p \<in> set (backups m) \<and> backup_document sha m p = Inr s \<and> hread (machine m') (state_file m) = hread (machine m) p
    \<and> (\<forall>q \<in> set (backups m). \<forall>s'. backup_document sha m q = Inr s' \<longrightarrow>
         \<not> py_bool (run_provider_attempt_allocations s') \<and> q \<le> p)"
proof -
  obtain p s t where p: "p \<in> set (backups m)" "hread (machine m) p = Some t" "backup_document sha m p = Inr s"
    and m': "m' = m\<lparr>machine := (machine m)\<lparr>hfiles := AList.update (state_file m) t (hfiles (machine m))\<rparr>, state := Some s\<rparr>"
    and fresh: "\<forall>q \<in> set (backups m). \<forall>s. backup_document sha m q = Inr s \<longrightarrow> \<not> py_bool (run_provider_attempt_allocations s) \<and> q \<le> p"
    by (rule repaired [OF assms])
  obtain x where x: "json_loads t = Inr x" "(case x of PDict kv \<Rightarrow> from_dict sha kv | _ \<Rightarrow> Inl AttributeError) = Inr s"
    using p(2,3) by (auto simp: backup_document_def rbind_Inr_iff)
  then obtain kv where kv: "json_loads t = Inr (PDict kv)" "from_dict sha kv = Inr s" by (cases x) auto
  have doc: "hread (machine m') (state_file m') = Some t" by (simp add: m' hread_update)
  have "load sha m' = (Inr (), m'\<lparr>state := Some s\<rparr>)"
    using doc kv by (simp add: load_def load_json_def read_file_def set_state_def modify_def io_bind_def)
  moreover have "hread (machine m') (state_file m) = hread (machine m) p" using p(2) doc by (simp add: m')
  moreover have "state m' = Some s" "m'\<lparr>state := Some s\<rparr> = m'" by (simp_all add: m')
  ultimately show ?thesis using p(1,3) fresh by (intro exI [of _ s] exI [of _ p]) simp
qed

text \<open>A run directory with the backup of one step and no readable document.\<close>

definition damaged :: "string \<Rightarrow> StateManager" where
  "damaged t = demo_manager\<lparr>manager_run_root := ''r'',
     machine := demo_machine\<lparr>hfiles := [(''r/state.json'', ''torn''), (''r/state.json.step_build.bak'', t)]\<rparr>\<rparr>"

lemma damaged_backups: "backups (damaged t) = [''r/state.json.step_build.bak'']"
  by (simp add: damaged_def backups_def is_backup_name_def Let_def)

theorem repair_installs_loadable_run_witness:
  "\<exists>t m' s. attempt_repair (\<lambda>_. ''0'') (damaged t) = (Inr True, m') \<and> load (\<lambda>_. ''0'') m' = (Inr (), m') \<and> state m' = Some s"
proof -
  let ?s = "new_state demo_manager ''flow.yaml'' (''sha256:'' @ ''0'') ''now'' PNone PNone PNone (PStr DERIVED_PURE_REPLAY_PROFILE)"
  have sound: "sound (\<lambda>_. 0) (\<lambda>_. ''0'') ?s" by (intro new_state_sound demo_start_ok) (simp_all add: profile_ok_def ascii_well_formed)
  obtain d where d: "to_dict ?s = Inr d" "value_ok (PDict d)" by (rule sound_dict [OF sound])
  let ?t = "json_dumps_ascii (PDict d)"
  have json: "json_loads ?t = Inr (PDict d)" using d(2) by (intro loads_dumps_ascii) (simp_all add: value_ok_def)
  have t: "hread (machine (damaged ?t)) ''r/state.json.step_build.bak'' = Some ?t" by (simp add: damaged_def hread_def)
  have doc: "backup_document (\<lambda>_. ''0'') (damaged ?t) ''r/state.json.step_build.bak'' = Inr (reread ?s)"
    using json sound_from_dict(1) [OF sound d(1)] t by (simp add: backup_document_def)
  have "run_provider_attempt_allocations (reread ?s) = PDict []" by (simp add: new_state_def)
  then obtain m' where m': "attempt_repair (\<lambda>_. ''0'') (damaged ?t) = (Inr True, m')"
    using doc t by (simp add: attempt_repair_def damaged_backups read_file_def set_content_def set_state_def modify_def io_bind_def)
  with repair_installs_loadable_run [OF m'] show ?thesis by blast
qed

section \<open>Rotation\<close>

lemma sorted_distinct_backups: "sorted (backups m)" "distinct (backups m)"
  by (simp_all add: backups_def Let_def)

lemma backup_path_listed:
  assumes "CHR ''/'' \<notin> set step"
  shows "set (backups (m\<lparr>machine := (machine m)\<lparr>hfiles := AList.update (child_path (manager_run_root m) (backup_name step)) t (hfiles (machine m))\<rparr>\<rparr>))
    = insert (child_path (manager_run_root m) (backup_name step)) (set (backups m))"
proof -
  let ?p = "child_path (manager_run_root m) (backup_name step)"
  have "is_backup_name (backup_name step)" using assms by (simp add: is_backup_name_def backup_name_def)
  then have "take (length (manager_run_root m) + 1) ?p = manager_run_root m @ ''/''
      \<and> is_backup_name (drop (length (manager_run_root m) + 1) ?p)"
    by (simp add: child_path_def)
  then show ?thesis by (auto simp: backups_def Let_def update_keys)
qed

text \<open>
  Backups are rotated by name. With three backups in place, a new one whose name sorts before
  them is removed by the very operation that made it, and the three older ones stay.
\<close>

theorem backup_sorting_first_is_lost:
  assumes "backup_enabled m" "hread (machine m) (state_file m) = Some t" "CHR ''/'' \<notin> set step" "length (backups m) = MAX_BACKUPS"
    and "\<forall>p \<in> set (backups m). child_path (manager_run_root m) (backup_name step) < p"
  shows "\<exists>m'. backup_state step m = (Inr (), m') \<and> hread (machine m') (child_path (manager_run_root m) (backup_name step)) = None
    \<and> (\<forall>p \<in> set (backups m). hread (machine m') p = hread (machine m) p)"
proof -
  let ?p = "child_path (manager_run_root m) (backup_name step)"
  let ?m = "m\<lparr>machine := (machine m)\<lparr>hfiles := AList.update ?p t (hfiles (machine m))\<rparr>\<rparr>"
  let ?m' = "?m\<lparr>machine := (machine ?m)\<lparr>hfiles := AList.delete ?p (hfiles (machine ?m))\<rparr>\<rparr>"
  have "sorted (?p # backups m)" "distinct (?p # backups m)" using assms(5) sorted_distinct_backups [of m] by fastforce+
  then have b: "backups ?m = ?p # backups m"
    using sorted_distinct_backups [of ?m] backup_path_listed [OF assms(3), of m t] by (intro sorted_distinct_set_unique) auto
  have "backup_state step m = (Inr (), ?m')"
    using assms(1-4) by (simp add: backup_state_def set_content_def remove_file_def modify_def io_bind_def rotate_backups_def b)
  moreover have "\<forall>p \<in> set (backups m). p \<noteq> ?p" using assms(5) by auto
  ultimately show ?thesis by (auto simp: hread_def delete_conv' update_conv')
qed

definition demo_backups :: StateManager where
  "demo_backups = demo_manager\<lparr>manager_run_root := ''r'', backup_enabled := True,
     machine := demo_machine\<lparr>hfiles := [(''r/state.json'', ''now''), (''r/state.json.step_Build.bak'', ''1''),
       (''r/state.json.step_Check.bak'', ''2''), (''r/state.json.step_Plan.bak'', ''0'')]\<rparr>\<rparr>"

theorem backup_sorting_first_is_lost_witness:
  "\<exists>m'. backup_state ''Archive'' demo_backups = (Inr (), m')
    \<and> hread (machine m') (child_path (manager_run_root demo_backups) (backup_name ''Archive'')) = None"
proof -
  have 1: "backup_enabled demo_backups" "hread (machine demo_backups) (state_file demo_backups) = Some ''now''"
    "CHR ''/'' \<notin> set ''Archive''" by (simp_all add: demo_backups_def state_file_def child_path_def hread_def)
  have 2: "length (backups demo_backups) = MAX_BACKUPS"
    "\<forall>p \<in> set (backups demo_backups). child_path (manager_run_root demo_backups) (backup_name ''Archive'') < p" by code_simp+
  from backup_sorting_first_is_lost [OF 1 2] show ?thesis by blast
qed


section \<open>Rows that are not results\<close>

text \<open>
  C17: the completion row of a pure visit cannot be read back as a step result: its key
  \<open>result_storage\<close> is not a field of \<open>StepResult\<close>, so asking for the result of a settled pure step
  raises \<open>TypeError\<close>.
\<close>

theorem settled_pure_step_has_no_result:
  assumes "settle_eligible_pure_success_state w s = (Inr shell, s')" "state m = Some s'"
  shows "get_step_result (presentation_key w) m = Inl TypeError"
proof -
  obtain cells where s': "run_steps s' = Steps (AList.update (presentation_key w) (Raw (PDict (build_pure_completion_shell w))) cells)"
    using assms(1) by (cases "run_steps s")
      (auto simp: settle_eligible_pure_success_state_def io_bind_cases check_def assign_step_def put_def set_step_def modify_def
        split: sum.splits)
  have "make_step_result (build_pure_completion_shell w) = Inl TypeError"
    by (simp add: make_step_result_def build_pure_completion_shell_def STEP_RESULT_FIELDS_def)
  then show ?thesis using assms(2) by (simp add: get_step_result_def s' update_conv')
qed

theorem settled_pure_step_has_no_result_witness:
  "\<exists>s1 w s2. begin_eligible_pure_visit_state ''t1'' ''total'' 0 ''root.total'' demo_run = (Inr 1, s1)
     \<and> settle_eligible_pure_success_state w s1 = (Inr (build_pure_completion_shell w), s2)
     \<and> get_step_result (presentation_key w) (demo_manager\<lparr>state := Some s2\<rparr>) = Inl TypeError"
proof -
  obtain s1 w s2 where "begin_eligible_pure_visit_state ''t1'' ''total'' 0 ''root.total'' demo_run = (Inr 1, s1)"
    and s2: "settle_eligible_pure_success_state w s1 = (Inr (build_pure_completion_shell w), s2)" by (rule demo_visit)
  moreover have "get_step_result (presentation_key w) (demo_manager\<lparr>state := Some s2\<rparr>) = Inl TypeError"
    by (rule settled_pure_step_has_no_result [OF s2]) simp
  ultimately show ?thesis by blast
qed

end
