(* ===== verification/AttemptOrdinals.thy ===== *)
theory AttemptOrdinals
  imports StateRequests
begin

text \<open>
  Ordinals of provider attempts. An ordinal that has been handed out is recorded in the document
  before the caller sees it, so that neither later requests nor restarts lead to the same ordinal
  for the same scope, whatever system calls fail in between.
\<close>

lemma reloading_returns: "reloading sha f m = (Inr x, m') \<Longrightarrow> f m = (Inr x, m')"
  by (auto simp: reloading_def io_bind_cases split: prod.splits sum.splits if_splits)

lemma transaction_returns:
  assumes "state_transaction sha f m = (Inr x, m')"
  obtains s s' where "state m = Some s" "f s = (Inr x, s')" "write_state (m\<lparr>state := Some s'\<rparr>) = (Inr (), m')"
proof -
  obtain s where s: "state m = Some s" using assms by (auto simp: state_transaction_def split: option.splits)
  with assms have "updating f m = (Inr x, m')" using reloading_returns by (auto simp: state_transaction_def)
  then show ?thesis using that s by (auto simp: updating_def mutating_def io_bind_cases split: prod.splits)
qed

lemma allocation_returns:
  assumes "allocate_provider_attempt sha cwd managers scope version m = (Inr n, m')"
  shows "version = PNone \<or> schema_version_ok version"
    "state_transaction sha (allocate_state sha cwd m managers scope version) m = (Inr n, m')"
  using assms reloading_returns by (auto simp: allocate_provider_attempt_def split: if_splits sum.splits)

text \<open>What a returned allocation has done to memory and document.\<close>

lemma allocated:
  assumes "consistent \<beta> sha m" "\<forall>t. all_ascii (sha t)" "scope_ok scope" "value_ok (PDict (scope_to_dict scope))"
    and run: "allocate_provider_attempt sha cwd managers scope version m = (Inr n, m')"
  shows "\<beta> (scope_key sha scope) < n" "consistent (\<beta>(scope_key sha scope := n)) sha m'"
proof -
  note v = allocation_returns [OF run]
  obtain s s' where s: "state m = Some s" "allocate_state sha cwd m managers scope version s = (Inr n, s')"
    and w: "write_state (m\<lparr>state := Some s'\<rparr>) = (Inr (), m')" by (rule transaction_returns [OF v(2)])
  have sound: "sound \<beta> sha s" using assms(1) s(1) by (simp add: consistent_def held_def)
  obtain kv kv' where kv: "run_provider_attempt_allocations s = PDict kv" "next_allocation sha scope version kv = Inr (n, kv')"
      "s' = s\<lparr>run_provider_attempt_allocations := PDict kv'\<rparr>"
    using sound s(2) by (rule allocate_state_runs) auto
  note new = sound_allocated [OF sound kv(1) assms(2-4) v(1) kv(2)]
  have "\<beta> (scope_key sha scope) \<le> last_ordinal (PDict kv) (scope_key sha scope)" using sound kv(1) by (simp add: sound_def)
  then show "\<beta> (scope_key sha scope) < n" using new(3) by simp
  have "sound (\<beta>(scope_key sha scope := n)) sha s'" using new(1,2) by (auto simp: sound_def kv(3))
  then have "held (\<beta>(scope_key sha scope := n)) sha (m\<lparr>state := Some s'\<rparr>)" using assms(1) by (simp add: consistent_def held_def)
  then show "consistent (\<beta>(scope_key sha scope := n)) sha m'"
    using write_state_returns(1) [OF _ _ w] by (auto intro: synced_consistent)
qed

text \<open>
  C12: an ordinal is never handed out twice. When an allocation has returned \<open>n\<close>, any later allocation
  for the same key returns a larger ordinal: after any requests with any failing system calls, from
  any process that was restarted on the files in between.
\<close>

theorem attempt_ordinals_never_repeat:
  assumes "reachable sha m" "scope_ok scope" "value_ok (PDict (scope_to_dict scope))"
    and "allocate_provider_attempt sha cwd managers scope version m = (Inr n, m1)" "later sha m1 m2"
    and "allocate_provider_attempt sha cwd' managers' scope version' m2 = (Inr k, m3)"
  shows "0 < n \<and> n < k"
proof -
  note sha = reachable_sha [OF assms(1)]
  note first = allocated [OF reachable_consistent [OF assms(1)] sha assms(2-4)]
  have "consistent ((\<lambda>_. 0)(scope_key sha scope := n)) sha m2" by (rule later_consistent [OF assms(5) sha first(2)])
  from allocated(1) [OF this sha assms(2,3,6)] first(1) show ?thesis by simp
qed

text \<open>Two attempts of one step in the example run.\<close>

definition demo_attempt :: ProviderAttemptScope where
  "demo_attempt = demo_scope\<lparr>resume_scope := \<lparr>root_workflow_file = ''flow.yaml'', call_frame_ids = []\<rparr>\<rparr>"

abbreviation demo_key :: string where
  "demo_key \<equiv> scope_key (\<lambda>_. ''0'') demo_attempt"

abbreviation demo_allocate :: "int sm" where
  "demo_allocate \<equiv> allocate_provider_attempt (\<lambda>_. ''0'') ''/'' [] demo_attempt PNone"

lemma demo_attempt_ok: "scope_ok demo_attempt" "value_ok (PDict (scope_to_dict demo_attempt))"
  using demo_scope_ok
  by (simp_all add: scope_ok_def demo_attempt_def demo_scope_def path_ok_def scope_to_dict_def enclosing_step_to_dict_def optional_to_def
      ascii_well_formed)

definition ready :: "StateManager \<Rightarrow> RunState \<Rightarrow> bool" where
  "ready m s \<longleftrightarrow> state m = Some s \<and> run_id s = PStr ''r1'' \<and> manager_run_id m = ''r1'' \<and> run_root s = PStr (manager_run_root m)
     \<and> run_workflow_file s = PStr ''flow.yaml'' \<and> run_step_visits s = PDict [(''plan'', PInt 1)] \<and> run_current_step s = PNone
     \<and> (run_provider_attempt_allocations s = PDict []
       \<or> (\<exists>n. run_provider_attempt_allocations s = PDict [(demo_key, normalized_entry demo_attempt n PNone)]))"

lemma ready_owner:
  assumes "ready m s"
  obtains owner where "resolve_aggregate_run_owner sha ''/'' m [] = Inr owner" "validate_provider_attempt_scope m owner demo_attempt = Inr ()"
proof -
  have "member_turn_fields ''root.plan'' = None"
    by (simp add: member_turn_fields_def MEMBER_TURN_RUNTIME_STEP_PREFIX_def)
  then show ?thesis using assms
    by (intro that [of "\<lparr>owner_scope_path = \<lparr>root_workflow_file = ''flow.yaml'', call_frame_ids = []\<rparr>, leaf_state = s,
          aggregate_root = ordinary_absolute ''/'' (manager_run_root m)\<rparr>"])
      (simp_all add: ready_def resolve_aggregate_run_owner_def discover_aggregate_run_chain_def
        resolve_aggregate_run_owner_locked_def absolute_is_def scope_path_of_def make_resume_scope_path_def Let_def
        validate_provider_attempt_scope_def demo_attempt_def demo_scope_def visit_matches_def decode_plain)
qed

lemma ready_next:
  assumes "ready m s"
  obtains kv n where "run_provider_attempt_allocations s = PDict kv"
    "next_allocation (\<lambda>_. ''0'') demo_attempt PNone kv = Inr (n, [(demo_key, normalized_entry demo_attempt n PNone)])"
  using assms unfolding ready_def
  by (auto simp: next_allocation_def Let_def normalized_entry_def dget_normalized py_item_def intro: that)

lemma ready_allocates:
  assumes "consistent \<beta> (\<lambda>_. ''0'') m" "smooth m" "ready m s"
  obtains n m' s' where "demo_allocate m = (Inr n, m')" "smooth m'" "ready m' s'"
proof -
  let ?sha = "\<lambda>_. ''0''"
  obtain owner where owner: "resolve_aggregate_run_owner ?sha ''/'' m [] = Inr owner"
    "validate_provider_attempt_scope m owner demo_attempt = Inr ()" by (rule ready_owner [OF assms(3)])
  obtain kv n where kv: "run_provider_attempt_allocations s = PDict kv"
    "next_allocation ?sha demo_attempt PNone kv = Inr (n, [(demo_key, normalized_entry demo_attempt n PNone)])"
    by (rule ready_next [OF assms(3)])
  let ?s = "s\<lparr>run_provider_attempt_allocations := PDict [(demo_key, normalized_entry demo_attempt n PNone)]\<rparr>"
  let ?f = "allocate_state ?sha ''/'' m [] demo_attempt PNone"
  have s: "state m = Some s" using assms(3) by (simp add: ready_def)
  then have "sound \<beta> ?sha s" using assms(1) by (simp add: consistent_def held_def)
  then have "table_ok ?sha kv" using kv(1) by (simp add: sound_def document_ok_def)
  then have "validate_provider_attempt_allocations ?sha (PDict kv) = Inr kv"
    using table_fixed [of ?sha "[]" kv] by (simp add: validate_provider_attempt_allocations_def)
  moreover have "m\<lparr>state := Some s\<rparr> = m" using s by (cases m) simp
  ultimately have f: "?f s = (Inr n, ?s)"
    using owner kv by (simp add: allocate_state_def io_bind_def check_def modify_def)
  have k: "keeps \<beta> ?sha ?f" using demo_attempt_ok by (intro keeps_allocate) simp_all
  obtain m' where m': "updating ?f m = (Inr n, m')" "smooth m'" "\<exists>h t. m' = m\<lparr>machine := h, state := Some (?s\<lparr>run_updated_at := t\<rparr>)\<rparr>"
    by (rule updating_smooth [OF assms(1,2) k s f])
  have "demo_allocate m = (Inr n, m')"
    using m'(1) owner(1) s by (simp add: allocate_provider_attempt_def state_transaction_def reloading_def)
  moreover have "\<exists>s'. ready m' s'" using m'(3) assms(3) by (auto simp: ready_def)
  ultimately show ?thesis using that m'(2) by blast
qed

theorem attempt_ordinals_never_repeat_witness:
  "\<exists>m0 m n m1 k m2. demo_start demo_manager = (Inr (), m0)
     \<and> serve (\<lambda>_. ''0'') (UpdateCounters 1 [(''plan'', PInt 1)]) m0 = (Inr (), m)
     \<and> demo_allocate m = (Inr n, m1) \<and> demo_allocate m1 = (Inr k, m2) \<and> n < k"
proof -
  let ?sha = "\<lambda>_. ''0''" and ?q = "UpdateCounters 1 [(''plan'', PInt 1)]"
  let ?f = "modify (\<lambda>s. s\<lparr>run_transition_count := PInt 1, run_step_visits := PDict [(''plan'', PInt 1)]\<rparr>)"
  obtain m0 s where m0: "demo_start demo_manager = (Inr (), m0)" "reachable ?sha m0" "smooth m0" "agrees ?sha m0"
    "state m0 = Some s" "run_current_step s = PNone" "manager_run_root m0 = manager_run_root demo_manager" "manager_run_id m0 = ''r1''"
    "run_id s = PStr ''r1''" "run_root s = PStr (manager_run_root demo_manager)" "run_workflow_file s = PStr ''flow.yaml''"
    "run_provider_attempt_allocations s = PDict []" by (rule demo_started)
  have ok: "request_ok ?q" by (simp add: ascii_well_formed)
  have k: "keeps (\<lambda>_. 0) ?sha ?f"
    by (intro keeps_basic(6) sound_attribute(9,10)) (simp_all add: ascii_well_formed)
  have f: "?f s = (Inr (), s\<lparr>run_transition_count := PInt 1, run_step_visits := PDict [(''plan'', PInt 1)]\<rparr>)" (is "_ = (_, ?s)")
    by (simp add: modify_def)
  obtain m where m: "updating ?f m0 = (Inr (), m)" "smooth m" "\<exists>h t. m = m0\<lparr>machine := h, state := Some (?s\<lparr>run_updated_at := t\<rparr>)\<rparr>"
    by (rule updating_smooth [OF reachable_consistent [OF m0(2)] m0(3) k m0(5) f])
  have serve: "serve ?sha ?q m0 = (Inr (), m)" using m(1) by (simp add: update_control_flow_counters_def)
  have r: "reachable ?sha m" by (rule served [OF m0(2) ok serve])
  have "\<exists>s'. ready m s'" using m(3) m0 by (auto simp: ready_def)
  then obtain s' where "ready m s'" ..
  then obtain n m1 s1 where n: "demo_allocate m = (Inr n, m1)" "smooth m1" "ready m1 s1"
    by (rule ready_allocates [OF reachable_consistent [OF r] m(2)])
  have ascii: "\<forall>t. all_ascii (?sha t)" by simp
  obtain k' m2 s2 where k': "demo_allocate m1 = (Inr k', m2)"
    by (rule ready_allocates [OF allocated(2) [OF reachable_consistent [OF r] ascii demo_attempt_ok n(1)] n(2,3)])
  from attempt_ordinals_never_repeat [OF r demo_attempt_ok n(1) now_itself k'] m0(1) serve n(1) k' show ?thesis by blast
qed

end
