(* ===== verification/Secrets.thy ===== *)
theory Secrets
  imports JsonAscii "HOL-Library.Sublist"
begin

text \<open>
  Secrets of a step, \<open>security/secrets.py\<close>: which values the child process gets, which are missing,
  and the masking of the values in texts and dicts. The environment of the process is an
  argument. The state of the manager is the set of the values it masks, as the list in which the
  set yields them: values of one length are replaced in that order, and the theorems hold for every order.
\<close>

section \<open>Resolution\<close>

type_synonym env = "(string \<times> string) list"

record SecretsContext =
  declared_secrets :: "string list"
  missing_secrets :: "string list"
  secret_values :: env
  child_env :: env

definition overlay_secret :: "env \<Rightarrow> string \<Rightarrow> SecretsContext \<Rightarrow> SecretsContext" where
  "overlay_secret environ name ctx = (case map_of environ name of
      Some v \<Rightarrow> ctx\<lparr>child_env := AList.update name v (child_env ctx), secret_values := AList.update name v (secret_values ctx)\<rparr>
    | None \<Rightarrow> ctx\<lparr>missing_secrets := missing_secrets ctx @ [name]\<rparr>)"

definition override_env :: "string \<times> string \<Rightarrow> SecretsContext \<Rightarrow> SecretsContext" where
  "override_env kv ctx = (case kv of (key, v) \<Rightarrow>
     ctx\<lparr>child_env := AList.update key v (child_env ctx),
       secret_values := (if key \<in> set (declared_secrets ctx) then AList.update key v (secret_values ctx) else secret_values ctx)\<rparr>)"

definition track_values :: "env \<Rightarrow> string list \<Rightarrow> string list" where
  "track_values values masked = fold (\<lambda>(_, v) acc. if v = [] then acc else List.insert v acc) values masked"

definition resolve_secrets :: "env \<Rightarrow> string list \<Rightarrow> env \<Rightarrow> string list \<Rightarrow> SecretsContext \<times> string list" where
  "resolve_secrets environ declared step_env masked =
     (let ctx = fold override_env step_env (fold (overlay_secret environ) declared
        \<lparr>declared_secrets = declared, missing_secrets = [], secret_values = [], child_env = environ\<rparr>)
      in (ctx, track_values (secret_values ctx) masked))"

section \<open>Masking\<close>

definition MASK :: string where
  "MASK = ''***''"

text \<open>\<open>re.sub(re.escape(v), '***', text)\<close> for a value that is not empty: leftmost, not overlapping.\<close>

function replace_all :: "string \<Rightarrow> string \<Rightarrow> string" where
  "replace_all v [] = []"
| "replace_all v (c # s) =
     (if v \<noteq> [] \<and> take (length v) (c # s) = v then MASK @ replace_all v (drop (length v) (c # s)) else c # replace_all v s)"
  by pat_completeness auto
termination
  by (relation "measure (\<lambda>(v, s). length s)") auto

text \<open>\<open>sorted(values, key=len, reverse=True)\<close>; the length counts code points.\<close>

definition by_length :: "string list \<Rightarrow> string list" where
  "by_length vs = rev (sort_key (\<lambda>v. length (json_points v)) (rev vs))"

definition mask_text :: "string list \<Rightarrow> string \<Rightarrow> string" where
  "mask_text masked text =
     (if text = [] \<or> masked = [] then text
      else fold (\<lambda>v t. if sublist v t then replace_all v t else t) (by_length masked) text)"

definition mask_item :: "string list \<Rightarrow> pyval \<Rightarrow> pyval" where
  "mask_item masked v = (case v of PStr s \<Rightarrow> PStr (mask_text masked s) | _ \<Rightarrow> v)"

function mask_dict :: "string list \<Rightarrow> pydict \<Rightarrow> pydict" where
  "mask_dict masked data =
     (if masked = [] then data
      else map (\<lambda>(k, v). (k, case v of
          PStr s \<Rightarrow> PStr (mask_text masked s)
        | PDict kv \<Rightarrow> PDict (mask_dict masked kv)
        | PList xs \<Rightarrow> PList (map (mask_item masked) xs)
        | _ \<Rightarrow> v)) data)"
  by pat_completeness auto
termination
  by (relation "measure (\<lambda>(m, kv). size (PDict kv))") (auto dest: size_dict_mem simp del: pyval.size)

declare mask_dict.simps [simp del]

definition clear_masked_values :: "string list \<Rightarrow> string list" where
  "clear_masked_values masked = []"

text \<open>The logging filter on a record whose message is a string.\<close>

definition filter_record :: "string list \<Rightarrow> string \<Rightarrow> pyval \<Rightarrow> string \<times> pyval" where
  "filter_record masked msg args = (mask_text masked msg, case args of
      PDict kv \<Rightarrow> PDict (mask_dict masked kv)
    | PTuple xs \<Rightarrow> PTuple (map (mask_item masked) xs)
    | _ \<Rightarrow> args)"

section \<open>What the child sees\<close>

lemma overlay_fields:
  "declared_secrets (fold (overlay_secret environ) names ctx) = declared_secrets ctx"
  "missing_secrets (fold (overlay_secret environ) names ctx) = missing_secrets ctx @ filter (\<lambda>n. map_of environ n = None) names"
  "map_of (secret_values (fold (overlay_secret environ) names ctx)) k =
     (if k \<in> set names \<and> map_of environ k \<noteq> None then map_of environ k else map_of (secret_values ctx) k)"
  "map_of (child_env (fold (overlay_secret environ) names ctx)) k =
     (if k \<in> set names \<and> map_of environ k \<noteq> None then map_of environ k else map_of (child_env ctx) k)"
  by (induction names arbitrary: ctx) (auto simp: overlay_secret_def update_conv' split: option.splits)

lemma override_fields:
  "declared_secrets (fold override_env kvs ctx) = declared_secrets ctx"
  "missing_secrets (fold override_env kvs ctx) = missing_secrets ctx"
  by (induction kvs arbitrary: ctx) (auto simp: override_env_def)

text \<open>The last binding of a key in a list of overrides, as in a dict built from it.\<close>

lemma override_env_lookup:
  "distinct (map fst kvs) \<Longrightarrow> map_of (child_env (fold override_env kvs ctx)) k =
     (case map_of kvs k of Some v \<Rightarrow> Some v | None \<Rightarrow> map_of (child_env ctx) k)"
  "distinct (map fst kvs) \<Longrightarrow> map_of (secret_values (fold override_env kvs ctx)) k =
     (case map_of kvs k of Some v \<Rightarrow> if k \<in> set (declared_secrets ctx) then Some v else map_of (secret_values ctx) k
      | None \<Rightarrow> map_of (secret_values ctx) k)"
  by (induction kvs arbitrary: ctx)
    (auto simp: override_env_def update_conv' split: option.splits dest!: map_of_SomeD, force+)

lemma tracked: "set (track_values kvs masked) = set masked \<union> {v \<in> snd ` set kvs. v \<noteq> []}"
  unfolding track_values_def by (induction kvs arbitrary: masked) (auto split: prod.splits)

text \<open>
  Precedence of secrets. The child gets the environment with the overrides of the step on top;
  the missing secrets are the declared names that the environment lacks; and every value that the
  child sees under a declared name is masked from then on, unless it is empty.
\<close>

theorem secrets_resolved:
  assumes "resolve_secrets environ declared step_env masked = (ctx, masked')" "distinct (map fst step_env)"
  shows "map_of (child_env ctx) k = (case map_of step_env k of Some v \<Rightarrow> Some v | None \<Rightarrow> map_of environ k)
    \<and> missing_secrets ctx = filter (\<lambda>n. map_of environ n = None) declared
    \<and> (k \<in> set declared \<and> map_of (child_env ctx) k = Some v \<and> v \<noteq> [] \<longrightarrow> v \<in> set masked')"
proof -
  let ?base = "fold (overlay_secret environ) declared \<lparr>declared_secrets = declared, missing_secrets = [], secret_values = [], child_env = environ\<rparr>"
  have ctx: "ctx = fold override_env step_env ?base" and masked': "masked' = track_values (secret_values ctx) masked"
    using assms(1) by (auto simp: resolve_secrets_def Let_def)
  have child: "map_of (child_env ctx) k = (case map_of step_env k of Some v \<Rightarrow> Some v | None \<Rightarrow> map_of environ k)"
    by (simp add: ctx override_env_lookup [OF assms(2)] overlay_fields split: option.splits)
  have "v \<in> set masked'" if v: "k \<in> set declared" "map_of (child_env ctx) k = Some v" "v \<noteq> []"
  proof -
    have "map_of (secret_values ctx) k = Some v"
      using v(1,2) child by (auto simp: ctx override_env_lookup [OF assms(2)] overlay_fields split: option.splits)
    then have "v \<in> snd ` set (secret_values ctx)" by (force dest: map_of_SomeD)
    with v(3) show ?thesis by (simp add: masked' tracked)
  qed
  with child show ?thesis by (simp add: ctx override_fields overlay_fields)
qed

theorem secrets_resolved_witness:
  "case resolve_secrets [(''PATH'', ''/bin''), (''TOKEN'', ''t0p'')] [''TOKEN'', ''KEY''] [(''TOKEN'', ''s3cret'')] [] of (ctx, masked') \<Rightarrow>
     map_of (child_env ctx) ''TOKEN'' = Some ''s3cret'' \<and> missing_secrets ctx = [''KEY''] \<and> ''s3cret'' \<in> set masked'"
proof -
  obtain ctx masked' where r: "resolve_secrets [(''PATH'', ''/bin''), (''TOKEN'', ''t0p'')] [''TOKEN'', ''KEY''] [(''TOKEN'', ''s3cret'')] [] = (ctx, masked')"
    by fastforce
  have "distinct (map fst [(''TOKEN'', ''s3cret'')])" by simp
  from secrets_resolved [OF r this, of "''TOKEN''" "''s3cret''"] r show ?thesis by simp
qed

section \<open>What masking hides\<close>

lemma replace_prefix: "prefix v (replace_all u t) \<Longrightarrow> CHR ''*'' \<notin> set v \<Longrightarrow> prefix v t"
proof (induction u t arbitrary: v rule: replace_all.induct)
  case (2 u c s)
  show ?case
  proof (cases v)
    case (Cons d w)
    have no: "\<not> (u \<noteq> [] \<and> take (length u) (c # s) = u)" using 2(3,4) Cons by (auto simp: MASK_def)
    then have "prefix w (replace_all u s)" "d = c" using 2(3) Cons by auto
    moreover have "CHR ''*'' \<notin> set w" using 2(4) Cons by simp
    ultimately show ?thesis using 2(2) [OF no] Cons by simp
  qed simp
qed simp

lemma masked_gap: "CHR ''*'' \<notin> set v \<Longrightarrow> v \<noteq> [] \<Longrightarrow> sublist v (MASK @ s) \<Longrightarrow> sublist v s"
  by (cases v) (auto simp: MASK_def sublist_Cons_right)

lemma replace_sublist:
  "sublist v (replace_all u t) \<Longrightarrow> CHR ''*'' \<notin> set v \<Longrightarrow> v \<noteq> [] \<Longrightarrow> sublist v t \<and> v \<noteq> u"
proof (induction u t rule: replace_all.induct)
  case (2 u c s)
  show ?case
  proof (cases "u \<noteq> [] \<and> take (length u) (c # s) = u")
    case True
    then have "sublist v (replace_all u (drop (length u) (c # s)))" using 2(3-5) masked_gap by simp
    from 2(1) [OF True this 2(4,5)] show ?thesis using sublist_drop sublist_order.order_trans by blast
  next
    case False
    then have "prefix v (c # replace_all u s) \<or> sublist v (replace_all u s)" using 2(3) by (auto simp: sublist_Cons_right)
    then show ?thesis
    proof
      assume "prefix v (c # replace_all u s)"
      with False replace_prefix [of v u "c # s"] 2(4) have p: "prefix v (c # s)" by auto
      then have "take (length v) (c # s) = v" by (metis append_eq_conv_conj prefix_def)
      with False 2(5) p show ?thesis by auto
    next
      assume "sublist v (replace_all u s)"
      from 2(2) [OF False this 2(4,5)] show ?thesis by (auto simp: sublist_Cons_right)
    qed
  qed
qed simp

lemma masked_fold:
  assumes "CHR ''*'' \<notin> set v" "v \<noteq> []" "sublist v (fold (\<lambda>u t. if sublist u t then replace_all u t else t) us t)"
  shows "sublist v t \<and> v \<notin> set us"
  using assms(3)
proof (induction us arbitrary: t)
  case (Cons u us)
  have rest: "sublist v (if sublist u t then replace_all u t else t) \<and> v \<notin> set us"
    using Cons.prems by (intro Cons.IH) (simp only: fold_simps)
  show ?case
  proof (cases "sublist u t")
    case True
    then have "sublist v t" "v \<noteq> u" using replace_sublist [of v u t, OF _ assms(1,2)] rest by simp_all
    with rest show ?thesis by simp
  next
    case False
    then have "sublist v t" "v \<noteq> u" using rest by auto
    with rest show ?thesis by simp
  qed
qed simp

lemma by_length_set [simp]: "set (by_length vs) = set vs"
  by (simp add: by_length_def)

lemma unmasked_fold: "\<forall>u \<in> set us. \<not> sublist u t \<Longrightarrow> fold (\<lambda>u t. if sublist u t then replace_all u t else t) us t = t"
  by (induction us) simp_all

text \<open>
  C25: a masked text shows no secret. None of the masked values occurs in it, not even overlapping
  a replaced one and not even inside a longer word, provided the value is not empty and has no
  asterisk of its own; and a text in which no masked value occurs is left as it is. A comment in the
  code speaks of word boundaries, but the code has none.
\<close>

theorem masked_text_hides:
  assumes "v \<in> set masked" "v \<noteq> []" "CHR ''*'' \<notin> set v"
  shows "\<not> sublist v (mask_text masked t)
    \<and> ((\<forall>u \<in> set masked. \<not> sublist u t) \<longrightarrow> mask_text masked t = t)"
proof -
  have "\<not> sublist v (mask_text masked t)"
    using masked_fold [OF assms(3,2), of "by_length masked" t] assms(1,2) by (auto simp: mask_text_def)
  then show ?thesis by (auto simp: mask_text_def unmasked_fold)
qed

theorem masked_text_hides_witness:
  "mask_text [''bc'', ''abcd''] ''xabcdbcy'' = ''x******y'' \<and> \<not> sublist ''bc'' (mask_text [''bc'', ''abcd''] ''xabcdbcy'')"
proof -
  have "mask_text [''bc'', ''abcd''] ''xabcdbcy'' = ''x******y''" by code_simp
  moreover have "''bc'' \<in> set [''bc'', ''abcd'']" "''bc'' \<noteq> []" "CHR ''*'' \<notin> set ''bc''" by simp_all
  note masked_text_hides [OF this, of "''xabcdbcy''"]
  ultimately show ?thesis by blast
qed

text \<open>Every occurrence is replaced, parts of other words included.\<close>

lemma masks_inside_words: "mask_text [''cat''] ''concatenate'' = ''con***enate''"
  by code_simp

text \<open>
  Masking does not reach dicts inside lists: a secret in a dict that is an item of a list is left
  in place, whatever is masked.
\<close>

theorem mask_dict_stops_at_lists:
  "mask_dict masked [(k, PList [PDict kv])] = [(k, PList [PDict kv])]"
  by (simp add: mask_dict.simps [of masked "[(k, PList [PDict kv])]"] mask_item_def)

end
