(* ===== verification/ReplayOrder.thy ===== *)
theory ReplayOrder
  imports Prelude "HOL-Library.Multiset" "HOL-Library.List_Lexorder" "HOL-Library.Char_ord"
begin

text \<open>
  The orders and closures of the pure replay index in \<open>workflow/pure_result_replay.py\<close>: the topological order
  of pure nodes, the propagation of ineligibility along dependencies, and the closure of nodes that a
  consumer requires. Sets are lists without duplicates whose order is not used, and an error carries its
  reason code. The runtime plan and the dependencies are arguments; their derivation from a bundle is not here.
\<close>

datatype index_error = IndexError string | MissingKey

type_synonym 'a indexed = "index_error + 'a"

section \<open>Topological order\<close>

text \<open>\<open>{node_id: index for index, node_id in enumerate(ordered)}\<close>: the last position counts.\<close>

fun program_position :: "string list \<Rightarrow> nat \<Rightarrow> string \<Rightarrow> nat option" where
  "program_position [] i n = None"
| "program_position (m # ms) i n = (case program_position ms (Suc i) n of Some j \<Rightarrow> Some j | None \<Rightarrow> if m = n then Some i else None)"

definition program_index :: "string list \<Rightarrow> string \<Rightarrow> nat" where
  "program_index ordered n = (case program_position ordered 0 n of Some i \<Rightarrow> i | None \<Rightarrow> length (remdups ordered))"

text \<open>\<open>sorted(..., key=lambda n: (order.get(n, len(order)), n))\<close> as two stable sorts.\<close>

definition program_sorted :: "string list \<Rightarrow> string list \<Rightarrow> string list" where
  "program_sorted ordered ns = sort_key (program_index ordered) (sort ns)"

definition unique_in_program_order :: "string list \<Rightarrow> string list \<Rightarrow> string list" where
  "unique_in_program_order ordered ns = program_sorted ordered (remdups ns)"

definition ready_nodes :: "(string \<times> string list) list \<Rightarrow> string list \<Rightarrow> string list \<Rightarrow> string list" where
  "ready_nodes deps ordered remaining = program_sorted ordered
     (filter (\<lambda>n. \<forall>d \<in> set (the (map_of deps n)). d \<notin> set remaining) remaining)"

function topological_rounds ::
    "(string \<times> string list) list \<Rightarrow> string list \<Rightarrow> string list \<Rightarrow> string list \<Rightarrow> string list indexed" where
  "topological_rounds deps ordered remaining emitted =
     (if remaining = [] then Inr emitted
      else if \<not> list_all (\<lambda>n. map_of deps n \<noteq> None) remaining then Inl MissingKey
      else (let ready = ready_nodes deps ordered remaining in
        if ready = [] then Inl (IndexError ''dependency_index_invalid'')
        else topological_rounds deps ordered (filter (\<lambda>n. n \<notin> set ready) remaining) (emitted @ ready)))"
  by pat_completeness auto
termination
proof (relation "measure (\<lambda>(deps, ordered, remaining, emitted). length remaining)", goal_cases)
  case (2 deps ordered remaining emitted ready)
  then have "ready \<noteq> []" by simp
  then obtain n where n: "n \<in> set ready" using hd_in_set by blast
  then have "n \<in> set remaining" using 2 by (auto simp: ready_nodes_def program_sorted_def)
  with n have "length (filter (\<lambda>n. n \<notin> set ready) remaining) < length remaining" by (intro length_filter_less) auto
  then show ?case by simp
qed simp

declare topological_rounds.simps [simp del]

definition topological_pure_order :: "string list \<Rightarrow> (string \<times> string list) list \<Rightarrow> string list \<Rightarrow> string list indexed" where
  "topological_pure_order ns deps ordered = topological_rounds deps ordered ns []"

lemma program_sorted_mset [simp]: "mset (program_sorted ordered ns) = mset ns" "set (program_sorted ordered ns) = set ns"
  by (simp_all add: program_sorted_def)

text \<open>A list in which every node comes after those of its dependencies that are in the set.\<close>

definition dependencies_first :: "(string \<times> string list) list \<Rightarrow> string set \<Rightarrow> string list \<Rightarrow> bool" where
  "dependencies_first deps nodes out \<longleftrightarrow> (\<forall>i < length out. \<forall>d \<in> set (the (map_of deps (out ! i))) \<inter> nodes. d \<in> set (take i out))"

text \<open>A set of nodes each of which depends on another one of the set: a cycle runs through it.\<close>

definition stuck :: "(string \<times> string list) list \<Rightarrow> string set \<Rightarrow> bool" where
  "stuck deps nodes \<longleftrightarrow> nodes \<noteq> {} \<and> (\<forall>n \<in> nodes. \<exists>d \<in> set (the (map_of deps n)). d \<in> nodes)"

lemma first_append:
  assumes "dependencies_first deps nodes out" "\<forall>n \<in> set ready. \<forall>d \<in> set (the (map_of deps n)) \<inter> nodes. d \<in> set out"
  shows "dependencies_first deps nodes (out @ ready)"
  unfolding dependencies_first_def
proof (intro allI impI ballI)
  fix i d assume i: "i < length (out @ ready)" and d: "d \<in> set (the (map_of deps ((out @ ready) ! i))) \<inter> nodes"
  show "d \<in> set (take i (out @ ready))"
  proof (cases "i < length out")
    case True
    with assms(1) d show ?thesis by (auto simp: dependencies_first_def nth_append)
  next
    case False
    with i have "(out @ ready) ! i \<in> set ready" by (simp add: nth_append)
    with assms(2) d False show ?thesis by auto
  qed
qed

lemma rounds_correct:
  assumes "list_all (\<lambda>n. map_of deps n \<noteq> None) remaining" "distinct (emitted @ remaining)"
    and "dependencies_first deps (set (emitted @ remaining)) emitted"
  shows "case topological_rounds deps ordered remaining emitted of
      Inr out \<Rightarrow> mset out = mset (emitted @ remaining) \<and> dependencies_first deps (set (emitted @ remaining)) out
    | Inl e \<Rightarrow> e = IndexError ''dependency_index_invalid'' \<and> (\<exists>R \<subseteq> set remaining. stuck deps R)"
  using assms
proof (induction deps ordered remaining emitted rule: topological_rounds.induct)
  case (1 deps ordered remaining emitted)
  let ?ready = "ready_nodes deps ordered remaining" and ?rest = "filter (\<lambda>n. n \<notin> set (ready_nodes deps ordered remaining)) remaining"
  have ready: "set ?ready = {n \<in> set remaining. \<forall>d \<in> set (the (map_of deps n)). d \<notin> set remaining}"
    by (auto simp: ready_nodes_def)
  consider (finished) "remaining = []" | (blocked) "remaining \<noteq> []" "?ready = []" | (go) "remaining \<noteq> []" "?ready \<noteq> []" by blast
  then show ?case
  proof cases
    case finished
    with "1.prems" show ?thesis by (simp add: topological_rounds.simps)
  next
    case blocked
    then have "stuck deps (set remaining)" using ready by (auto simp: stuck_def)
    with blocked "1.prems"(1) show ?thesis by (auto simp: topological_rounds.simps [of deps ordered remaining] Let_def)
  next
    case go
    have d: "distinct ?ready" using "1.prems"(2) by (simp add: ready_nodes_def program_sorted_def)
    let ?P = "\<lambda>n. \<forall>d \<in> set (the (map_of deps n)). d \<notin> set remaining"
    have rest: "?rest = filter (\<lambda>n. \<not> ?P n) remaining" using ready by (intro filter_cong) auto
    have m: "mset ?ready + mset ?rest = mset remaining"
      unfolding rest using multiset_partition [of "mset remaining" ?P] by (simp add: ready_nodes_def)
    then have same: "mset ((emitted @ ?ready) @ ?rest) = mset (emitted @ remaining)" by (simp add: add.assoc)
    then have sets: "set ((emitted @ ?ready) @ ?rest) = set (emitted @ remaining)" by (rule mset_eq_setD)
    have "list_all (\<lambda>n. map_of deps n \<noteq> None) ?rest" using "1.prems"(1) by (auto simp: list_all_iff)
    moreover have "distinct ((emitted @ ?ready) @ ?rest)"
      using "1.prems"(2) same by (metis distinct_count_atmost_1 mset_eq_imp_distinct_iff)
    moreover have "dependencies_first deps (set (emitted @ remaining)) (emitted @ ?ready)"
      using "1.prems"(3) ready by (intro first_append) auto
    ultimately have "case topological_rounds deps ordered ?rest (emitted @ ?ready) of
        Inr out \<Rightarrow> mset out = mset ((emitted @ ?ready) @ ?rest) \<and> dependencies_first deps (set ((emitted @ ?ready) @ ?rest)) out
      | Inl e \<Rightarrow> e = IndexError ''dependency_index_invalid'' \<and> (\<exists>R \<subseteq> set ?rest. stuck deps R)"
      using "1.IH" [OF go(1) _ refl go(2)] "1.prems"(1) unfolding sets by simp
    then show ?thesis
      using go "1.prems"(1) same unfolding sets
      by (auto simp: topological_rounds.simps [of deps ordered remaining] Let_def split: sum.splits)
  qed
qed

lemma first_not_stuck:
  assumes "dependencies_first deps (set out) out" "R \<subseteq> set out"
  shows "\<not> stuck deps R"
proof
  assume "stuck deps R"
  then have R: "R \<noteq> {}" "\<And>n. n \<in> R \<Longrightarrow> \<exists>d \<in> set (the (map_of deps n)). d \<in> R" by (auto simp: stuck_def)
  define P where "P i \<longleftrightarrow> i < length out \<and> out ! i \<in> R" for i
  have "\<exists>i. P i" using R(1) assms(2) unfolding P_def by (metis equals0I in_set_conv_nth subsetD)
  then have i: "P (LEAST i. P i)" by (rule LeastI_ex)
  let ?i = "LEAST i. P i"
  obtain d where d: "d \<in> set (the (map_of deps (out ! ?i)))" "d \<in> R" using R(2) i unfolding P_def by blast
  then have "d \<in> set (take ?i out)" using assms i unfolding dependencies_first_def P_def by blast
  then obtain j where "j < ?i" "out ! j = d" by (auto simp: in_set_conv_nth)
  with d(2) i have "P j" "j < ?i" unfolding P_def by auto
  then show False using not_less_Least by blast
qed

text \<open>
  C20: the topological order. For a set of nodes whose dependencies are known, the loop returns every node
  once, each after its dependencies in the set, exactly when no subset of the nodes is closed under
  having a dependency, which is to say that there is no cycle; otherwise it reports the cycle.
\<close>

theorem topological_order_correct:
  assumes "distinct ns" "list_all (\<lambda>n. map_of deps n \<noteq> None) ns"
  shows "case topological_pure_order ns deps ordered of
      Inr out \<Rightarrow> mset out = mset ns \<and> dependencies_first deps (set ns) out \<and> (\<forall>R \<subseteq> set ns. \<not> stuck deps R)
    | Inl e \<Rightarrow> e = IndexError ''dependency_index_invalid'' \<and> (\<exists>R \<subseteq> set ns. stuck deps R)"
proof -
  have "case topological_pure_order ns deps ordered of
      Inr out \<Rightarrow> mset out = mset ns \<and> dependencies_first deps (set ns) out
    | Inl e \<Rightarrow> e = IndexError ''dependency_index_invalid'' \<and> (\<exists>R \<subseteq> set ns. stuck deps R)"
    using rounds_correct [of deps ns "[]" ordered] assms
    by (simp add: topological_pure_order_def dependencies_first_def [of _ _ "[]"] split: sum.splits)
  then show ?thesis
    using first_not_stuck by (auto split: sum.splits) (metis mset_eq_setD)+
qed

theorem topological_order_correct_witness:
  "mset [''b'', ''c'', ''a''] = mset [''a'', ''b'', ''c'']
    \<and> dependencies_first [(''a'', [''b'', ''c'']), (''b'', []), (''c'', [''b'', ''x''])] (set [''a'', ''b'', ''c'']) [''b'', ''c'', ''a'']"
proof -
  let ?ns = "[''a'', ''b'', ''c'']" and ?deps = "[(''a'', [''b'', ''c'']), (''b'', []), (''c'', [''b'', ''x''])]"
  have "distinct ?ns" "list_all (\<lambda>n. map_of ?deps n \<noteq> None) ?ns" by simp_all
  note ok = topological_order_correct [OF this, of "[''a'', ''c'']"]
  have "topological_pure_order ?ns ?deps [''a'', ''c''] = Inr [''b'', ''c'', ''a'']" by code_simp
  with ok show ?thesis by (simp only: sum.case)
qed

section \<open>Propagation of ineligibility\<close>

text \<open>The first dependency of a node that is pure and not eligible; of an address only the node id is read.\<close>

definition blocker :: "(string \<times> string list) list \<Rightarrow> string list \<Rightarrow> string list \<Rightarrow> string \<Rightarrow> string option" where
  "blocker addresses pure eligible n = List.find (\<lambda>a. a \<in> set pure \<and> a \<notin> set eligible)
     (case map_of addresses n of Some ds \<Rightarrow> ds | None \<Rightarrow> [])"

text \<open>The reason recorded for a rejected node is that of its first blocking dependency.\<close>

definition inherited :: "(string \<times> string) list \<Rightarrow> string \<Rightarrow> string" where
  "inherited reasons a = (case map_of reasons a of Some r \<Rightarrow> r | None \<Rightarrow> ''dependency_index_invalid'')"

definition rejection ::
    "(string \<times> string list) list \<Rightarrow> string list \<Rightarrow> string list \<Rightarrow> (string \<times> string) list \<Rightarrow> string \<Rightarrow> (string \<times> string) list" where
  "rejection addresses pure eligible reasons n =
     (if n \<notin> set eligible then []
      else (case blocker addresses pure eligible n of None \<Rightarrow> [] | Some a \<Rightarrow> [(n, inherited reasons a)]))"

definition rejected_nodes ::
    "(string \<times> string list) list \<Rightarrow> string list \<Rightarrow> string list \<Rightarrow> string list \<Rightarrow> (string \<times> string) list \<Rightarrow> (string \<times> string) list" where
  "rejected_nodes addresses pure ordered eligible reasons = concat (map (rejection addresses pure eligible reasons) ordered)"

text \<open>\<open>eligible.remove(n)\<close> raises for a node that is not there.\<close>

fun reject_all :: "(string \<times> string) list \<Rightarrow> string list \<Rightarrow> (string \<times> string) list \<Rightarrow> (string list \<times> (string \<times> string) list) indexed" where
  "reject_all [] eligible reasons = Inr (eligible, reasons)"
| "reject_all ((n, r) # rs) eligible reasons =
     (if n \<notin> set eligible then Inl MissingKey
      else reject_all rs (filter (\<lambda>m. m \<noteq> n) eligible) (AList.update n r reasons))"

lemma reject_all_length: "reject_all rs eligible reasons = Inr (e, r) \<Longrightarrow> rs \<noteq> [] \<Longrightarrow> length e < length eligible"
proof (induction rs arbitrary: eligible reasons)
  case (Cons p rs)
  obtain n v where p: "p = (n, v)" by fastforce
  with Cons.prems have n: "n \<in> set eligible" and rest: "reject_all rs (filter (\<lambda>m. m \<noteq> n) eligible) (AList.update n v reasons) = Inr (e, r)"
    by (auto split: if_splits)
  have "length (filter (\<lambda>m. m \<noteq> n) eligible) < length eligible" using n by (intro length_filter_less) auto
  then show ?case using Cons.IH [OF rest] rest by (cases rs) auto
qed simp

function propagate_rounds ::
    "(string \<times> string list) list \<Rightarrow> string list \<Rightarrow> string list \<Rightarrow> string list \<Rightarrow> (string \<times> string) list
     \<Rightarrow> (string list \<times> (string \<times> string) list) indexed" where
  "propagate_rounds addresses pure ordered eligible reasons =
     (let rejected = rejected_nodes addresses pure ordered eligible reasons in
      if rejected = [] then Inr (eligible, reasons)
      else (case reject_all rejected eligible reasons of
          Inl e \<Rightarrow> Inl e
        | Inr er \<Rightarrow> propagate_rounds addresses pure ordered (fst er) (snd er)))"
  by pat_completeness auto
termination
  by (relation "measure (\<lambda>(addresses, pure, ordered, eligible, reasons). length eligible)")
    (auto dest!: sym [of _ "reject_all _ _ _"] dest: reject_all_length)

declare propagate_rounds.simps [simp del]

definition propagate_pure_ineligibility ::
    "string list \<Rightarrow> string list \<Rightarrow> (string \<times> string list) list \<Rightarrow> (string \<times> string) list \<Rightarrow> string list
     \<Rightarrow> (string list \<times> (string \<times> string) list) indexed" where
  "propagate_pure_ineligibility eligible pure addresses reasons ordered =
     (if \<not> set eligible \<subseteq> set ordered then Inl (IndexError ''dependency_index_invalid'')
      else propagate_rounds addresses pure ordered eligible reasons)"

text \<open>Every pure dependency of a node of the set is in the set.\<close>

definition supported :: "(string \<times> string list) list \<Rightarrow> string list \<Rightarrow> string set \<Rightarrow> bool" where
  "supported addresses pure S \<longleftrightarrow>
     (\<forall>n \<in> S. \<forall>a \<in> set (case map_of addresses n of Some ds \<Rightarrow> ds | None \<Rightarrow> []). a \<in> set pure \<longrightarrow> a \<in> S)"

lemma find_blocking:
  "List.find P ds = None \<longleftrightarrow> (\<forall>a \<in> set ds. \<not> P a)"
  "List.find P ds = Some a \<Longrightarrow> a \<in> set ds \<and> P a"
  by (induction ds) (auto split: if_splits)

lemma blocker_iff:
  "blocker addresses pure eligible n = None \<longleftrightarrow>
     (\<forall>a \<in> set (case map_of addresses n of Some ds \<Rightarrow> ds | None \<Rightarrow> []). a \<in> set pure \<longrightarrow> a \<in> set eligible)"
  unfolding blocker_def find_blocking(1) by blast

lemma reject_all_result:
  "distinct (map fst rs) \<Longrightarrow> fst ` set rs \<subseteq> set eligible \<Longrightarrow>
     \<exists>reasons'. reject_all rs eligible reasons = Inr (filter (\<lambda>m. m \<notin> fst ` set rs) eligible, reasons')
       \<and> map_of reasons' = map_of reasons ++ map_of rs"
proof (induction rs arbitrary: eligible reasons)
  case (Cons p rs)
  obtain n v where p: "p = (n, v)" by fastforce
  let ?e = "filter (\<lambda>m. m \<noteq> n) eligible" and ?r = "AList.update n v reasons"
  have n: "n \<notin> fst ` set rs" "n \<in> set eligible" using Cons.prems p by auto
  have "distinct (map fst rs)" "fst ` set rs \<subseteq> set ?e" using Cons.prems p by auto
  from Cons.IH [OF this, of ?r] obtain r' where r': "reject_all rs ?e ?r = Inr (filter (\<lambda>m. m \<notin> fst ` set rs) ?e, r')"
    "map_of r' = map_of ?r ++ map_of rs" by blast
  have e: "filter (\<lambda>m. m \<notin> fst ` set rs) ?e = filter (\<lambda>m. m \<notin> fst ` set (p # rs)) eligible"
    by (auto simp: p intro!: filter_cong)
  have "map_of ?r ++ map_of rs = map_of reasons ++ map_of (p # rs)"
    using n(1) by (intro ext) (auto simp: p update_conv' map_add_def map_of_eq_None_iff [symmetric] split: option.splits)
  then have "map_of r' = map_of reasons ++ map_of (p # rs)" using r'(2) by simp
  moreover have "reject_all (p # rs) eligible reasons = Inr (filter (\<lambda>m. m \<notin> fst ` set (p # rs)) eligible, r')"
    using r'(1) n(2) unfolding e [symmetric] by (simp add: p)
  ultimately show ?case by blast
qed simp

lemma rejection_fst:
  "fst ` set (rejection addresses pure eligible reasons n) =
     (if n \<in> set eligible \<and> blocker addresses pure eligible n \<noteq> None then {n} else {})"
  by (cases "blocker addresses pure eligible n") (auto simp: rejection_def)

lemma rejected_fst:
  "fst ` set (rejected_nodes addresses pure ordered eligible reasons) = {n \<in> set ordered \<inter> set eligible. blocker addresses pure eligible n \<noteq> None}"
  unfolding rejected_nodes_def set_concat set_map image_UN image_image rejection_fst by auto

lemma rejected_distinct: "distinct ordered \<Longrightarrow> distinct (map fst (rejected_nodes addresses pure ordered eligible reasons))"
proof (induction ordered)
  case (Cons n ns)
  have "n \<notin> fst ` set (rejected_nodes addresses pure ns eligible reasons)" using Cons.prems by (auto simp: rejected_fst)
  with Cons show ?case
    by (cases "blocker addresses pure eligible n") (auto simp: rejected_nodes_def rejection_def)
qed (simp add: rejected_nodes_def)

lemma rejected_reason:
  assumes "(n, r) \<in> set (rejected_nodes addresses pure ordered eligible reasons)"
  shows "\<exists>a \<in> set (case map_of addresses n of Some ds \<Rightarrow> ds | None \<Rightarrow> []). a \<in> set pure \<and> a \<notin> set eligible \<and> r = inherited reasons a"
proof -
  obtain m where m: "(n, r) \<in> set (rejection addresses pure eligible reasons m)"
    using assms by (auto simp: rejected_nodes_def)
  then obtain a where "blocker addresses pure eligible n = Some a" "r = inherited reasons a"
    by (cases "blocker addresses pure eligible m") (auto simp: rejection_def split: if_splits)
  then show ?thesis unfolding blocker_def by (blast dest: find_blocking(2))
qed

lemma propagate_result:
  assumes "distinct ordered" "set eligible \<subseteq> set ordered"
  shows "\<exists>e r. propagate_rounds addresses pure ordered eligible reasons = Inr (e, r)
    \<and> set e \<subseteq> set eligible \<and> supported addresses pure (set e)
    \<and> (\<forall>S \<subseteq> set eligible. supported addresses pure S \<longrightarrow> S \<subseteq> set e)
    \<and> (\<forall>n. n \<notin> set eligible - set e \<longrightarrow> map_of r n = map_of reasons n)
    \<and> (\<forall>n \<in> set eligible - set e. \<exists>a \<in> set (case map_of addresses n of Some ds \<Rightarrow> ds | None \<Rightarrow> []).
          a \<in> set pure \<and> a \<notin> set e \<and> map_of r n = Some (inherited r a))"
  using assms
proof (induction addresses pure ordered eligible reasons rule: propagate_rounds.induct)
  case (1 addresses pure ordered eligible reasons)
  let ?rej = "rejected_nodes addresses pure ordered eligible reasons"
  show ?case
  proof (cases "?rej = []")
    case True
    then have "{n \<in> set ordered \<inter> set eligible. blocker addresses pure eligible n \<noteq> None} = {}"
      using rejected_fst [of addresses pure ordered eligible reasons] by simp
    then have "supported addresses pure (set eligible)" using "1.prems"(2) by (auto simp: supported_def blocker_iff)
    with True show ?thesis by (simp add: propagate_rounds.simps [of addresses pure ordered eligible])
  next
    case False
    let ?e = "filter (\<lambda>m. m \<notin> fst ` set ?rej) eligible"
    note rejected_distinct [OF "1.prems"(1), of addresses pure eligible reasons]
    moreover have "fst ` set ?rej \<subseteq> set eligible" by (auto simp: rejected_fst)
    ultimately obtain r' where r': "reject_all ?rej eligible reasons = Inr (?e, r')" "map_of r' = map_of reasons ++ map_of ?rej"
      using reject_all_result by blast
    have "set ?e \<subseteq> set ordered" using "1.prems"(2) by auto
    with "1.IH" [OF refl False r'(1)] "1.prems"(1) obtain e r where
      run: "propagate_rounds addresses pure ordered ?e r' = Inr (e, r)" and sub: "set e \<subseteq> set ?e"
      and sup: "supported addresses pure (set e)" and greatest: "\<forall>S \<subseteq> set ?e. supported addresses pure S \<longrightarrow> S \<subseteq> set e"
      and kept: "\<forall>n. n \<notin> set ?e - set e \<longrightarrow> map_of r n = map_of r' n"
      and why: "\<forall>n \<in> set ?e - set e. \<exists>a \<in> set (case map_of addresses n of Some ds \<Rightarrow> ds | None \<Rightarrow> []).
          a \<in> set pure \<and> a \<notin> set e \<and> map_of r n = Some (inherited r a)"
      by auto
    have old: "map_of r' n = map_of reasons n" if "n \<notin> fst ` set ?rej" for n
      using that unfolding r'(2) map_of_eq_None_iff [symmetric] by (simp add: map_add_def)
    have "S \<subseteq> set e" if S: "S \<subseteq> set eligible" "supported addresses pure S" for S
    proof -
      have "n \<notin> fst ` set ?rej" if n: "n \<in> S" for n
      proof -
        have "blocker addresses pure eligible n = None" using S n by (auto simp: supported_def blocker_iff)
        then show ?thesis by (simp add: rejected_fst)
      qed
      then have "S \<subseteq> set ?e" using S(1) by auto
      with greatest S(2) show ?thesis by blast
    qed
    moreover have "map_of r n = map_of reasons n" if n: "n \<notin> set eligible - set e" for n
    proof -
      have "n \<notin> fst ` set ?rej" using n sub by (auto simp: rejected_fst)
      then show ?thesis using old kept n by simp
    qed
    moreover have "\<exists>a \<in> set (case map_of addresses n of Some ds \<Rightarrow> ds | None \<Rightarrow> []).
        a \<in> set pure \<and> a \<notin> set e \<and> map_of r n = Some (inherited r a)" if n: "n \<in> set eligible - set e" for n
    proof (cases "n \<in> fst ` set ?rej")
      case True
      then obtain v where v: "map_of ?rej n = Some v" by (metis map_of_eq_None_iff not_None_eq)
      then obtain a where a: "a \<in> set (case map_of addresses n of Some ds \<Rightarrow> ds | None \<Rightarrow> [])" "a \<in> set pure" "a \<notin> set eligible"
        "v = inherited reasons a" using rejected_reason [OF map_of_SomeD] by blast
      have "map_of r n = Some v" using kept True v unfolding r'(2) by simp
      moreover have "map_of r a = map_of reasons a" using kept old a(3) by (simp add: rejected_fst)
      then have "inherited r a = v" by (simp add: inherited_def a(4))
      ultimately show ?thesis using a sub by auto
    next
      case False
      with n why show ?thesis by simp
    qed
    moreover have "propagate_rounds addresses pure ordered eligible reasons = Inr (e, r)"
      using False r'(1) run by (simp add: propagate_rounds.simps [of addresses pure ordered eligible] Let_def)
    moreover have "set e \<subseteq> set eligible" using sub by auto
    ultimately show ?thesis using sup by blast
  qed
qed

text \<open>
  C19: propagation of ineligibility. When every eligible node is in the program order, the rounds end, and
  what stays eligible is the largest set of eligible nodes whose pure dependencies are all in the
  set. A node that is dropped gets the reason of a pure dependency of its own that is not eligible, and no other
  reason changes. An eligible node outside the program order is an error.
\<close>

theorem propagation_is_greatest:
  assumes "distinct ordered"
  shows "case propagate_pure_ineligibility eligible pure addresses reasons ordered of
      Inl err \<Rightarrow> err = IndexError ''dependency_index_invalid'' \<and> \<not> set eligible \<subseteq> set ordered
    | Inr (e, r) \<Rightarrow> set eligible \<subseteq> set ordered \<and> set e \<subseteq> set eligible \<and> supported addresses pure (set e)
        \<and> (\<forall>S \<subseteq> set eligible. supported addresses pure S \<longrightarrow> S \<subseteq> set e)
        \<and> (\<forall>n. n \<notin> set eligible - set e \<longrightarrow> map_of r n = map_of reasons n)
        \<and> (\<forall>n \<in> set eligible - set e. \<exists>a \<in> set (case map_of addresses n of Some ds \<Rightarrow> ds | None \<Rightarrow> []).
              a \<in> set pure \<and> a \<notin> set e \<and> map_of r n = Some (inherited r a))"
proof (cases "set eligible \<subseteq> set ordered")
  case True
  with propagate_result [OF assms True, of addresses pure reasons] show ?thesis
    by (elim exE) (simp add: propagate_pure_ineligibility_def)
next
  case False
  then show ?thesis by (simp add: propagate_pure_ineligibility_def)
qed

theorem propagation_is_greatest_witness:
  "supported [(''a'', [''b'']), (''b'', [''p''])] [''a'', ''b'', ''c'', ''p''] (set [''c''])
    \<and> \<not> supported [(''a'', [''b'']), (''b'', [''p''])] [''a'', ''b'', ''c'', ''p''] (set [''a''])"
proof -
  let ?ad = "[(''a'', [''b'']), (''b'', [''p''])]" and ?pure = "[''a'', ''b'', ''c'', ''p'']"
  have "distinct [''p'', ''a'', ''b'', ''c'']" by simp
  note ok = propagation_is_greatest [OF this, of "[''a'', ''b'', ''c'']" ?ad ?pure "[(''p'', ''why'')]"]
  have run: "propagate_pure_ineligibility [''a'', ''b'', ''c''] ?pure ?ad [(''p'', ''why'')] [''p'', ''a'', ''b'', ''c'']
      = Inr ([''c''], [(''p'', ''why''), (''b'', ''why''), (''a'', ''why'')])" by code_simp
  note all = ok [unfolded run sum.case prod.case]
  have "set [''a''] \<subseteq> set [''a'', ''b'', ''c'']" "\<not> set [''a''] \<subseteq> set [''c'']" by simp_all
  with all show ?thesis by blast
qed

section \<open>The nodes a consumer requires\<close>

record NodeResultAddress =
  address_node_id :: string
  address_field :: string
  address_member :: "string option"

text \<open>Of a replay node, what the index reads: its output addresses and its pure dependencies.\<close>

record PureReplayNode =
  output_addresses :: "NodeResultAddress list"
  pure_dependency_node_ids :: "string list"

record PureResultReplayIndex =
  replay_nodes :: "(string \<times> PureReplayNode) list"
  topological_node_ids :: "string list"
  ineligible_pure_reasons :: "(string \<times> string) list"
  pure_node_ids :: "string list"

text \<open>
  The nested \<open>include\<close>, its call stack as a list of pending nodes: a node that is added puts its
  dependencies in front, so that the nodes are visited, and the first error found, in the order
  of the recursion.
\<close>

function include_all :: "PureResultReplayIndex \<Rightarrow> string list \<Rightarrow> string list \<Rightarrow> string list \<Rightarrow> string list indexed" where
  "include_all index reached [] required = Inr required"
| "include_all index reached (n # pending) required =
     (if n \<in> set required then include_all index reached pending required
      else (case map_of (ineligible_pure_reasons index) n of
          Some reason \<Rightarrow> Inl (IndexError reason)
        | None \<Rightarrow> (case map_of (replay_nodes index) n of
            None \<Rightarrow> (if n \<in> set (pure_node_ids index) then Inl (IndexError ''dependency_index_invalid'')
                     else include_all index reached pending required)
          | Some node \<Rightarrow> (if n \<notin> set reached then Inl (IndexError ''reachability_ambiguous'')
                           else include_all index reached (pure_dependency_node_ids node @ pending) (n # required)))))"
  by pat_completeness auto
termination
proof (relation "measures [\<lambda>(index, reached, pending, required). card (fst ` set (replay_nodes index) - set required),
    \<lambda>(index, reached, pending, required). length pending]", goal_cases)
  case (4 index reached n pending required node)
  then have n: "n \<in> fst ` set (replay_nodes index) - set required" by (force dest: map_of_SomeD)
  then have "fst ` set (replay_nodes index) - set (n # required) \<subset> fst ` set (replay_nodes index) - set required" by auto
  then have "card (fst ` set (replay_nodes index) - set (n # required)) < card (fst ` set (replay_nodes index) - set required)"
    by (intro psubset_card_mono) auto
  then show ?case by simp
qed simp_all

text \<open>A seed is \<open>None\<close> when it is not a node result address.\<close>

fun include_seeds :: "PureResultReplayIndex \<Rightarrow> string list \<Rightarrow> NodeResultAddress option list \<Rightarrow> string list \<Rightarrow> string list indexed" where
  "include_seeds index reached [] required = Inr required"
| "include_seeds index reached (None # seeds) required = Inl (IndexError ''dependency_index_invalid'')"
| "include_seeds index reached (Some address # seeds) required =
     (if (case map_of (replay_nodes index) (address_node_id address) of
          Some node \<Rightarrow> address \<notin> set (output_addresses node) | None \<Rightarrow> False)
      then Inl (IndexError ''dependency_index_invalid'')
      else (case include_all index reached [address_node_id address] required of
          Inl e \<Rightarrow> Inl e
        | Inr required' \<Rightarrow> include_seeds index reached seeds required'))"

definition required_pure_node_ids :: "PureResultReplayIndex \<Rightarrow> NodeResultAddress option list \<Rightarrow> string list \<Rightarrow> string list indexed" where
  "required_pure_node_ids index seeds reached = (case include_seeds index reached seeds [] of
      Inl e \<Rightarrow> Inl e
    | Inr required \<Rightarrow> Inr (filter (\<lambda>n. n \<in> set required) (topological_node_ids index)))"

text \<open>The specification: the nodes that a node depends on, through indexed nodes, and when one is acceptable.\<close>

definition depends :: "PureResultReplayIndex \<Rightarrow> (string \<times> string) set" where
  "depends index = {(n, d). \<exists>node. map_of (replay_nodes index) n = Some node \<and> d \<in> set (pure_dependency_node_ids node)}"

definition indexed_node :: "PureResultReplayIndex \<Rightarrow> string \<Rightarrow> bool" where
  "indexed_node index n \<longleftrightarrow> map_of (replay_nodes index) n \<noteq> None"

definition acceptable :: "PureResultReplayIndex \<Rightarrow> string list \<Rightarrow> string \<Rightarrow> bool" where
  "acceptable index reached n \<longleftrightarrow> map_of (ineligible_pure_reasons index) n = None
     \<and> (if indexed_node index n then n \<in> set reached else n \<notin> set (pure_node_ids index))"

definition declared_seed :: "PureResultReplayIndex \<Rightarrow> NodeResultAddress option \<Rightarrow> bool" where
  "declared_seed index seed \<longleftrightarrow> (case seed of None \<Rightarrow> False
     | Some address \<Rightarrow> (case map_of (replay_nodes index) (address_node_id address) of
          Some node \<Rightarrow> address \<in> set (output_addresses node) | None \<Rightarrow> True))"

definition seed_closure :: "PureResultReplayIndex \<Rightarrow> NodeResultAddress option list \<Rightarrow> string set" where
  "seed_closure index seeds = (depends index)\<^sup>* `` {address_node_id a |a. Some a \<in> set seeds}"

text \<open>A node is taken care of by a set when it is acceptable and, if indexed, in the set.\<close>

definition included :: "PureResultReplayIndex \<Rightarrow> string list \<Rightarrow> string set \<Rightarrow> string \<Rightarrow> bool" where
  "included index reached R n \<longleftrightarrow> acceptable index reached n \<and> (indexed_node index n \<longrightarrow> n \<in> R)"

definition pending_closed :: "PureResultReplayIndex \<Rightarrow> string list \<Rightarrow> string list \<Rightarrow> string set \<Rightarrow> bool" where
  "pending_closed index reached pending R \<longleftrightarrow>
     (\<forall>n \<in> R. acceptable index reached n \<and> indexed_node index n
        \<and> (\<forall>d. (n, d) \<in> depends index \<longrightarrow> d \<in> set pending \<or> included index reached R d))"

lemma included_mono: "included index reached R n \<Longrightarrow> R \<subseteq> S \<Longrightarrow> included index reached S n"
  by (auto simp: included_def)

lemma include_all_correct:
  assumes "pending_closed index reached pending (set required)"
  shows "case include_all index reached pending required of
      Inr R \<Rightarrow> pending_closed index reached [] (set R) \<and> set required \<subseteq> set R
        \<and> (\<forall>n \<in> set pending. included index reached (set R) n) \<and> set R \<subseteq> set required \<union> (depends index)\<^sup>* `` set pending
    | Inl e \<Rightarrow> \<exists>m \<in> (depends index)\<^sup>* `` set pending. \<not> acceptable index reached m"
  using assms
proof (induction index reached pending required rule: include_all.induct)
  case (2 index reached n pending required)
  have later: "(depends index)\<^sup>* `` set pending \<subseteq> (depends index)\<^sup>* `` set (n # pending)" by auto
  consider (seen) "n \<in> set required"
    | (bad) "n \<notin> set required" "\<not> acceptable index reached n"
    | (skip) "n \<notin> set required" "acceptable index reached n" "\<not> indexed_node index n"
    | (add) node where "n \<notin> set required" "acceptable index reached n" "map_of (replay_nodes index) n = Some node"
    by (auto simp: indexed_node_def)
  then show ?case
  proof cases
    case seen
    then have n: "included index reached (set required) n" using 2(4) by (auto simp: pending_closed_def included_def)
    then have "pending_closed index reached pending (set required)" using 2(4) by (auto simp: pending_closed_def)
    from 2(1) [OF seen this] seen n later included_mono [OF n] show ?thesis by (auto split: sum.splits)
  next
    case bad
    then have "\<exists>e. include_all index reached (n # pending) required = Inl e"
      by (auto simp: acceptable_def indexed_node_def split: if_splits option.splits)
    then obtain e where e: "include_all index reached (n # pending) required = Inl e" by blast
    show ?thesis unfolding e sum.case using bad by auto
  next
    case skip
    then have n: "included index reached (set required) n" by (simp add: included_def)
    then have "pending_closed index reached pending (set required)" using 2(4) by (auto simp: pending_closed_def)
    moreover have f: "map_of (ineligible_pure_reasons index) n = None" "map_of (replay_nodes index) n = None" "n \<notin> set (pure_node_ids index)"
      using skip by (auto simp: acceptable_def indexed_node_def split: if_splits)
    moreover have e: "include_all index reached (n # pending) required = include_all index reached pending required"
      using skip(1) f by simp
    ultimately show ?thesis
      using 2(2) [OF skip(1) f] later included_mono [OF n] unfolding e by (auto split: sum.splits)
  next
    case add
    let ?p = "pure_dependency_node_ids node @ pending"
    have f: "map_of (ineligible_pure_reasons index) n = None" "n \<in> set reached"
      using add by (auto simp: acceptable_def indexed_node_def split: if_splits)
    then have r: "\<not> n \<notin> set reached" by simp
    note IH = 2(3) [OF add(1) f(1) add(3) r]
    have deps: "(n, d) \<in> depends index \<longleftrightarrow> d \<in> set (pure_dependency_node_ids node)" for d
      using add(3) by (simp add: depends_def)
    have "included index reached (insert n (set required)) n" using add by (simp add: included_def)
    then have "pending_closed index reached ?p (set (n # required))"
      using 2(4) add included_mono [of index reached "set required" _ "insert n (set required)"] unfolding pending_closed_def
      by (auto simp: deps indexed_node_def)
    moreover have e: "include_all index reached (n # pending) required = include_all index reached ?p (n # required)"
      using add f by simp
    moreover define C where "C = (depends index)\<^sup>* `` set (n # pending)"
    moreover define D where "D = (depends index)\<^sup>* `` set ?p"
    moreover have "insert n D \<subseteq> C" unfolding C_def D_def using deps by (auto intro: converse_rtrancl_into_rtrancl)
    ultimately show ?thesis
      using IH add(2) unfolding e C_def [symmetric] D_def [symmetric] by (auto simp: included_def split: sum.splits)
  qed
qed simp

lemma include_seeds_correct:
  assumes "pending_closed index reached [] (set required)"
  shows "case include_seeds index reached seeds required of
      Inr R \<Rightarrow> pending_closed index reached [] (set R) \<and> set required \<subseteq> set R
        \<and> (\<forall>seed \<in> set seeds. declared_seed index seed)
        \<and> (\<forall>a. Some a \<in> set seeds \<longrightarrow> included index reached (set R) (address_node_id a)) \<and> set R \<subseteq> set required \<union> seed_closure index seeds
    | Inl e \<Rightarrow> (\<exists>seed \<in> set seeds. \<not> declared_seed index seed) \<or> (\<exists>m \<in> seed_closure index seeds. \<not> acceptable index reached m)"
  using assms
proof (induction index reached seeds required rule: include_seeds.induct)
  case (3 index reached address seeds required)
  let ?n = "address_node_id address"
  have seeds: "seed_closure index (Some address # seeds) = (depends index)\<^sup>* `` {?n} \<union> seed_closure index seeds"
    by (auto simp: seed_closure_def)
  show ?case
  proof (cases "declared_seed index (Some address)")
    case False
    then have "include_seeds index reached (Some address # seeds) required = Inl (IndexError ''dependency_index_invalid'')"
      by (auto simp: declared_seed_def split: option.splits)
    with False show ?thesis by (simp del: include_seeds.simps)
  next
    case True
    then have ok: "\<not> (case map_of (replay_nodes index) ?n of Some node \<Rightarrow> address \<notin> set (output_addresses node) | None \<Rightarrow> False)"
      by (auto simp: declared_seed_def split: option.splits)
    have "pending_closed index reached [?n] (set required)" using "3.prems" by (auto simp: pending_closed_def)
    note one = include_all_correct [OF this]
    show ?thesis
    proof (cases "include_all index reached [?n] required")
      case (Inl e)
      with ok have e: "include_seeds index reached (Some address # seeds) required = Inl e" by simp
      from Inl one show ?thesis unfolding e seeds by auto
    next
      case (Inr R)
      with ok have e: "include_seeds index reached (Some address # seeds) required = include_seeds index reached seeds R" by simp
      have R: "pending_closed index reached [] (set R)" "set required \<subseteq> set R" "included index reached (set R) ?n"
        "set R \<subseteq> set required \<union> (depends index)\<^sup>* `` {?n}"
        using one Inr by simp_all
      from "3.IH" [OF ok Inr R(1)] R(2,4) True show ?thesis unfolding e seeds
        by (auto split: sum.splits intro: included_mono [OF R(3)])
    qed
  qed
qed (simp_all add: declared_seed_def)

lemma closed_reaches:
  assumes "pending_closed index reached [] R" "included index reached R n" "(n, m) \<in> (depends index)\<^sup>*"
  shows "included index reached R m"
  using assms(3)
proof (induction rule: rtrancl_induct)
  case (step k m)
  then have "indexed_node index k" by (auto simp: depends_def indexed_node_def)
  with step assms(1) show ?case by (auto simp: included_def pending_closed_def)
qed (rule assms(2))

text \<open>
  C18: the nodes a consumer requires. The search returns exactly when every seed is a declared address and every
  node that the seeds depend on, directly or not, is eligible, known and reached; it then lists the indexed
  nodes of that closure, and no others, in the topological order of the index.
\<close>

theorem required_nodes_are_closure:
  "required_pure_node_ids index seeds reached = Inr out \<longleftrightarrow>
     (\<forall>seed \<in> set seeds. declared_seed index seed)
     \<and> (\<forall>n \<in> seed_closure index seeds. acceptable index reached n)
     \<and> out = filter (\<lambda>n. n \<in> seed_closure index seeds \<and> indexed_node index n) (topological_node_ids index)"
proof (cases "include_seeds index reached seeds []")
  case (Inl e)
  with include_seeds_correct [of index reached "[]" seeds] show ?thesis
    by (auto simp: required_pure_node_ids_def pending_closed_def)
next
  case (Inr R)
  then have R: "pending_closed index reached [] (set R)" "\<forall>seed \<in> set seeds. declared_seed index seed"
    "\<forall>a. Some a \<in> set seeds \<longrightarrow> included index reached (set R) (address_node_id a)" "set R \<subseteq> seed_closure index seeds"
    using include_seeds_correct [of index reached "[]" seeds] by (simp_all add: pending_closed_def)
  have all: "included index reached (set R) n" if "n \<in> seed_closure index seeds" for n
    using that R(3) closed_reaches [OF R(1)] by (auto simp: seed_closure_def)
  have "n \<in> set R \<longleftrightarrow> n \<in> seed_closure index seeds \<and> indexed_node index n" for n
    using all R(1,4) by (auto simp: included_def pending_closed_def)
  moreover have "\<forall>n \<in> seed_closure index seeds. acceptable index reached n" using all by (simp add: included_def)
  ultimately show ?thesis using R(2) Inr by (auto simp: required_pure_node_ids_def)
qed

theorem required_nodes_are_closure_witness:
  "filter (\<lambda>n. n \<in> seed_closure \<lparr>replay_nodes = [(''a'', \<lparr>output_addresses = [\<lparr>address_node_id = ''a'', address_field = ''f'', address_member = None\<rparr>],
         pure_dependency_node_ids = [''b'']\<rparr>), (''b'', \<lparr>output_addresses = [], pure_dependency_node_ids = []\<rparr>),
         (''c'', \<lparr>output_addresses = [], pure_dependency_node_ids = []\<rparr>)],
       topological_node_ids = [''b'', ''c'', ''a''], ineligible_pure_reasons = [(''d'', ''why'')], pure_node_ids = [''a'', ''b'', ''c'', ''d'']\<rparr>
       [Some \<lparr>address_node_id = ''a'', address_field = ''f'', address_member = None\<rparr>]
     \<and> n \<in> {''a'', ''b'', ''c''}) [''b'', ''c'', ''a''] = [''b'', ''a'']"
proof -
  let ?address = "\<lparr>address_node_id = ''a'', address_field = ''f'', address_member = None\<rparr>"
  let ?index = "\<lparr>replay_nodes = [(''a'', \<lparr>output_addresses = [?address], pure_dependency_node_ids = [''b'']\<rparr>),
       (''b'', \<lparr>output_addresses = [], pure_dependency_node_ids = []\<rparr>), (''c'', \<lparr>output_addresses = [], pure_dependency_node_ids = []\<rparr>)],
     topological_node_ids = [''b'', ''c'', ''a''], ineligible_pure_reasons = [(''d'', ''why'')], pure_node_ids = [''a'', ''b'', ''c'', ''d'']\<rparr>"
  have "required_pure_node_ids ?index [Some ?address] [''a'', ''b''] = Inr [''b'', ''a'']" by (simp add: required_pure_node_ids_def)
  then have "[''b'', ''a''] = filter (\<lambda>n. n \<in> seed_closure ?index [Some ?address] \<and> indexed_node ?index n) (topological_node_ids ?index)"
    using required_nodes_are_closure by blast
  moreover have "indexed_node ?index n \<longleftrightarrow> n \<in> {''a'', ''b'', ''c''}" for n by (simp add: indexed_node_def)
  ultimately show ?thesis by simp
qed

end
