(* ===== verification/Finalization.thy ===== *)
theory Finalization
  imports StateManager "HOL-Library.Multiset"
begin

text \<open>
  The bookkeeping of cleanup steps, \<open>workflow/finalization.py\<close>, with the callbacks that
  \<open>workflow/executor.py\<close> passes to it. The world of an operation is the state dict of the run (\<open>doc\<close>) and
  whatever the persisting action works on; that action is an argument, the one of the executor
  being \<open>update_finalization_state\<close> of the state manager. The nested dict \<open>state['finalization']\<close> is
  changed in place, so it is written back under its key.
\<close>

section \<open>The controller\<close>

record StateProjectionView =
  presentation_key_by_node_id :: "(string \<times> string) list"
  finalization_index_by_node_id :: "(string \<times> int) list"

record FinalizationController =
  finalization_block :: pyval
  finalization_start_index :: int
  finalization_node_ids :: "string list"
  finalization_step_count :: int
  finalization_entry_node_id :: "string option"
  projection_view :: "StateProjectionView option"
  has_workflow_outputs :: bool

definition make_controller ::
    "pyval \<Rightarrow> int \<Rightarrow> int option \<Rightarrow> string list \<Rightarrow> string option \<Rightarrow> StateProjectionView option \<Rightarrow> bool \<Rightarrow> FinalizationController" where
  "make_controller block start given node_ids entry_id view outputs =
     \<lparr>finalization_block = block, finalization_start_index = start, finalization_node_ids = node_ids,
      finalization_step_count = (case given of Some n \<Rightarrow> n | None \<Rightarrow> int (length node_ids)),
      finalization_entry_node_id = entry_id, projection_view = view, has_workflow_outputs = outputs\<rparr>"

definition block_id :: "FinalizationController \<Rightarrow> string" where
  "block_id c = (case finalization_block c of
      PDict kv \<Rightarrow> (if nonempty_str (dget kv ''token'') then str_of (dget kv ''token'')
        else if nonempty_str (dget kv ''id'') then str_of (dget kv ''id'') else ''finally'')
    | _ \<Rightarrow> ''finally'')"

definition configured_step_names :: "FinalizationController \<Rightarrow> string list" where
  "configured_step_names c = (case projection_view c of
      None \<Rightarrow> []
    | Some view \<Rightarrow> List.map_filter (map_of (presentation_key_by_node_id view)) (finalization_node_ids c))"

definition is_finalization_step :: "FinalizationController \<Rightarrow> int option \<Rightarrow> string option \<Rightarrow> bool" where
  "is_finalization_step c step_at step_node =
     (if step_node \<noteq> None \<and> finalization_node_ids c \<noteq> [] then the step_node \<in> set (finalization_node_ids c)
      else 0 < finalization_step_count c \<and> (case step_at of Some i \<Rightarrow> finalization_start_index c \<le> i | None \<Rightarrow> False))"

definition finalization_index_for :: "FinalizationController \<Rightarrow> int option \<Rightarrow> string option \<Rightarrow> int option" where
  "finalization_index_for c step_at step_node =
     (let projected = (case (step_node, projection_view c) of
          (Some n, Some view) \<Rightarrow> map_of (finalization_index_by_node_id view) n | _ \<Rightarrow> None)
      in case projected of
          Some i \<Rightarrow> Some i
        | None \<Rightarrow> (case step_at of
            Some i \<Rightarrow> (if is_finalization_step c (Some i) None then Some (i - finalization_start_index c) else None)
          | None \<Rightarrow> None))"

definition outputs_status :: "FinalizationController \<Rightarrow> pyval" where
  "outputs_status c = PStr (if has_workflow_outputs c then ''pending'' else ''not_configured'')"

definition step_names_value :: "FinalizationController \<Rightarrow> pyval" where
  "step_names_value c = PList (map PStr (configured_step_names c))"

definition initial_state :: "FinalizationController \<Rightarrow> pydict option" where
  "initial_state c =
     (if finalization_step_count c \<le> 0 then None
      else Some [(''block_id'', PStr (block_id c)), (''status'', PStr ''pending''), (''body_status'', PNone),
        (''current_index'', PNone), (''completed_indices'', PList []), (''step_names'', step_names_value c),
        (''workflow_outputs_status'', outputs_status c)])"

definition set_default :: "string \<Rightarrow> pyval \<Rightarrow> pydict \<Rightarrow> pydict" where
  "set_default k v kv = (case map_of kv k of None \<Rightarrow> AList.update k v kv | Some _ \<Rightarrow> kv)"

definition with_defaults :: "FinalizationController \<Rightarrow> pydict \<Rightarrow> pydict" where
  "with_defaults c = set_default ''workflow_outputs_status'' (outputs_status c) \<circ> set_default ''step_names'' (step_names_value c)
     \<circ> set_default ''completed_indices'' (PList []) \<circ> set_default ''current_index'' PNone \<circ> set_default ''body_status'' PNone
     \<circ> set_default ''status'' (PStr ''pending'') \<circ> set_default ''block_id'' (PStr (block_id c))"

definition ensure_state :: "FinalizationController \<Rightarrow> pydict \<Rightarrow> pydict option" where
  "ensure_state c doc =
     (if finalization_step_count c \<le> 0 then None
      else Some (with_defaults c (case dget doc ''finalization'' of
          PDict kv \<Rightarrow> kv
        | _ \<Rightarrow> (case initial_state c of Some kv \<Rightarrow> kv | None \<Rightarrow> []))))"

section \<open>Operations\<close>

type_synonym ('m, 'a) fin = "(pydict \<times> 'm, 'a) act"

definition set_key :: "string \<Rightarrow> pyval \<Rightarrow> ('m, unit) fin" where
  "set_key k v = modify (\<lambda>(doc, m). (AList.update k v doc, m))"

text \<open>The callback \<open>_persist_finalization_state\<close>.\<close>

definition persist_finalization_state :: "(pyval \<Rightarrow> ('m, unit) act) \<Rightarrow> ('m, unit) fin" where
  "persist_finalization_state persist = (\<lambda>(doc, m). case dget doc ''finalization'' of
      PDict kv \<Rightarrow> (case persist (PDict kv) m of (r, m') \<Rightarrow> (r, (doc, m')))
    | _ \<Rightarrow> (Inr (), (doc, m)))"

text \<open>Ensures the bookkeeping, runs the rest on the nested dict, and stops when none is configured.\<close>

definition ensured :: "FinalizationController \<Rightarrow> (pydict \<Rightarrow> ('m, unit) fin) \<Rightarrow> ('m, unit) fin" where
  "ensured c f = (\<lambda>(doc, m). case ensure_state c doc of
      None \<Rightarrow> (Inr (), (doc, m))
    | Some kv \<Rightarrow> f kv (AList.update ''finalization'' (PDict kv) doc, m))"

definition activate :: "FinalizationController \<Rightarrow> (pyval \<Rightarrow> ('m, unit) act) \<Rightarrow> string \<Rightarrow> ('m, unit) fin" where
  "activate c persist body_status = ensured c (\<lambda>kv.
     let kv = AList.update ''body_status'' (PStr body_status) kv;
         kv = (if py_eq (dget kv ''status'') (PStr ''pending'') then AList.update ''status'' (PStr ''running'') kv else kv)
     in io_bind (set_key ''finalization'' (PDict kv)) (\<lambda>_. persist_finalization_state persist))"

definition record_step_start :: "FinalizationController \<Rightarrow> (pyval \<Rightarrow> ('m, unit) act) \<Rightarrow> int \<Rightarrow> string \<Rightarrow> ('m, unit) fin" where
  "record_step_start c persist final_index body_status = ensured c (\<lambda>kv.
     let kv = AList.update ''current_index'' (PInt final_index)
       (AList.update ''status'' (PStr ''running'') (AList.update ''body_status'' (PStr body_status) kv))
     in io_bind (set_key ''finalization'' (PDict kv)) (\<lambda>_. persist_finalization_state persist))"

text \<open>
  \<open>list.sort()\<close> on a list with a number in it: another kind of item cannot be compared with the number. What a
  failed sort leaves in the list is not specified by the language; here it is the unsorted list.
\<close>

definition number_less :: "pyval \<Rightarrow> pyval \<Rightarrow> bool" where
  "number_less v w = (case py_less v w of Inr b \<Rightarrow> b | Inl _ \<Rightarrow> False)"

fun insert_number :: "pyval \<Rightarrow> pyval list \<Rightarrow> pyval list" where
  "insert_number v [] = [v]"
| "insert_number v (w # ws) = (if number_less v w then v # w # ws else w # insert_number v ws)"

definition sort_numbers :: "pyval list \<Rightarrow> exc + pyval list" where
  "sort_numbers xs = (if list_all (\<lambda>v. py_num v \<noteq> None) xs then Inr (fold insert_number xs []) else Inl TypeError)"

text \<open>The list of completed steps with one more: the value to store, and whether storing it raised.\<close>

definition add_completed :: "int \<Rightarrow> pyval \<Rightarrow> (exc + unit) \<times> pyval" where
  "add_completed i completed = (case py_in (PInt i) completed of
      Inl e \<Rightarrow> (Inl e, completed)
    | Inr True \<Rightarrow> (Inr (), completed)
    | Inr False \<Rightarrow> (case completed of
        PList xs \<Rightarrow> (case sort_numbers (xs @ [PInt i]) of
            Inl e \<Rightarrow> (Inl e, PList (xs @ [PInt i])) | Inr ys \<Rightarrow> (Inr (), PList ys))
      | _ \<Rightarrow> (Inl AttributeError, completed)))"

definition failure_row :: "string \<Rightarrow> pyval \<Rightarrow> pyval" where
  "failure_row step result = PDict [(''step'', PStr step), (''step_id'', dfield result ''step_id''), (''error'', dfield result ''error'')]"

definition result_fields :: "FinalizationController \<Rightarrow> int \<Rightarrow> string \<Rightarrow> bool \<Rightarrow> pyval \<Rightarrow> string \<Rightarrow> pydict \<Rightarrow> exc + pydict" where
  "result_fields c final_index step failed result body_status kv =
     (let kv = AList.update ''current_index'' (if failed then PInt final_index else PNone)
        (AList.update ''body_status'' (PStr body_status) kv)
      in if failed then Inr (AList.update ''failure'' (failure_row step result) (AList.update ''status'' (PStr ''failed'') kv))
      else rbind (py_iter (dget kv ''completed_indices'')) (\<lambda>xs.
        if int (length xs) = finalization_step_count c
        then Inr (AList.delete ''failure'' (AList.update ''status'' (PStr ''completed'') kv))
        else Inr (AList.update ''status'' (PStr ''running'') kv)))"

definition write_result ::
    "FinalizationController \<Rightarrow> (pyval \<Rightarrow> ('m, unit) act) \<Rightarrow> int \<Rightarrow> string \<Rightarrow> bool \<Rightarrow> pyval \<Rightarrow> string \<Rightarrow> pydict \<Rightarrow> ('m, unit) fin" where
  "write_result c persist final_index step failed result body_status kv =
     (let (r, completed) = (if failed then (Inr (), dget kv ''completed_indices'') else add_completed final_index (dget kv ''completed_indices''));
         kv = AList.update ''completed_indices'' completed kv
     in io_bind (set_key ''finalization'' (PDict kv)) (\<lambda>_.
        io_bind (pure (rbind r (\<lambda>_. result_fields c final_index step failed result body_status kv))) (\<lambda>kv.
        io_bind (set_key ''finalization'' (PDict kv)) (\<lambda>_. persist_finalization_state persist))))"

definition record_step_result ::
    "FinalizationController \<Rightarrow> (pyval \<Rightarrow> ('m, unit) act) \<Rightarrow> int \<Rightarrow> string \<Rightarrow> bool \<Rightarrow> pyval \<Rightarrow> string \<Rightarrow> ('m, unit) fin" where
  "record_step_result c persist final_index step failed result body_status =
     ensured c (write_result c persist final_index step failed result body_status)"

definition sticky_projection_failure :: "pyval \<Rightarrow> bool" where
  "sticky_projection_failure result = (is_mapping (dfield result ''error'')
     \<and> py_eq (dfield (dfield result ''error'') ''type'') (PStr ''resume_projection_integrity_error''))"

definition finalization_failure_error :: "pyval \<Rightarrow> string \<Rightarrow> pyval" where
  "finalization_failure_error result step = PDict [(''type'', PStr ''finalization_failed''), (''message'', PStr ''Workflow finalization failed''),
     (''context'', PDict [(''scope'', PStr ''workflow_finalization''), (''step'', PStr step),
        (''step_id'', dfield result ''step_id''), (''error'', dfield result ''error'')])]"

text \<open>The run-level error after a failed cleanup step; the first sticky error stays.\<close>

definition failed_run_error :: "string \<Rightarrow> pyval \<Rightarrow> string \<Rightarrow> pydict \<Rightarrow> pydict" where
  "failed_run_error step result body_status doc =
     (if sticky_projection_failure result then
        (if \<not> sticky_projection_failure (PDict doc) \<and> is_mapping (dfield result ''error'')
         then AList.update ''error'' (dfield result ''error'') doc else doc)
      else if body_status = ''completed'' \<and> is_mapping result
        then AList.update ''error'' (finalization_failure_error result step) doc
      else doc)"

definition suppress_outputs :: "FinalizationController \<Rightarrow> (pyval \<Rightarrow> ('m, unit) act) \<Rightarrow> pydict option \<Rightarrow> ('m, unit) fin" where
  "suppress_outputs c persist fin = (case fin of
      None \<Rightarrow> ret ()
    | Some kv \<Rightarrow> io_bind (set_key ''finalization'' (PDict (AList.update ''workflow_outputs_status'' (PStr ''suppressed'') kv)))
        (\<lambda>_. persist_finalization_state persist))"

definition record_settled_result ::
    "FinalizationController \<Rightarrow> (pyval \<Rightarrow> ('m, unit) act) \<Rightarrow> int option \<Rightarrow> string \<Rightarrow> string \<Rightarrow> string option \<Rightarrow> ('m, unit) fin" where
  "record_settled_result c persist step_at step body_status step_node =
     (case finalization_index_for c step_at step_node of
        None \<Rightarrow> ret ()
      | Some final_index \<Rightarrow> io_bind (check (\<lambda>(doc, m). py_get (dget_default doc ''steps'' (PDict [])) step)) (\<lambda>result.
          let failed = (is_mapping result \<and> py_eq (dfield result ''status'') (PStr ''failed'')) in
          io_bind (record_step_result c persist final_index step failed result body_status) (\<lambda>_.
          io_bind (ensured c (\<lambda>kv. ret ())) (\<lambda>_.
          if failed then (\<lambda>(doc, m). suppress_outputs c persist (ensure_state c doc) (failed_run_error step result body_status doc, m))
          else ret ()))))"

record RoutingDecision =
  next_step_index :: "int option"
  next_node_id :: "string option"
  terminal_status :: string
  should_break :: bool

definition continue_into_finalization ::
    "FinalizationController \<Rightarrow> (pyval \<Rightarrow> ('m, unit) act) \<Rightarrow> string option \<Rightarrow> int option \<Rightarrow> string \<Rightarrow> string option \<Rightarrow> ('m, RoutingDecision) fin" where
  "continue_into_finalization c persist next_step step_at status step_node =
     (if next_step \<notin> {Some ''_end'', Some ''_stop''}
      then ret \<lparr>next_step_index = None, next_node_id = None, terminal_status = status, should_break = False\<rparr>
      else (let status = (if next_step = Some ''_stop'' then ''failed'' else status) in
        if 0 < finalization_step_count c \<and> \<not> is_finalization_step c step_at step_node
        then io_bind (activate c persist status) (\<lambda>_. ret (case finalization_entry_node_id c of
            Some entry_id \<Rightarrow> (if entry_id \<noteq> [] then \<lparr>next_step_index = None, next_node_id = Some entry_id, terminal_status = status, should_break = False\<rparr>
              else \<lparr>next_step_index = Some (finalization_start_index c), next_node_id = None, terminal_status = status, should_break = False\<rparr>)
          | None \<Rightarrow> \<lparr>next_step_index = Some (finalization_start_index c), next_node_id = None, terminal_status = status, should_break = False\<rparr>))
        else ret \<lparr>next_step_index = None, next_node_id = None, terminal_status = status, should_break = True\<rparr>))"

section \<open>Completed steps\<close>

lemma number_less_int [simp]: "number_less (PInt i) (PInt j) = (i < j)"
  by (auto simp: number_less_def py_less_def fin_scaled_def)

lemma int_in_list: "py_in (PInt i) (PList (map PInt xs)) = Inr (i \<in> set xs)"
  by (induction xs) (auto simp: py_in_def py_iter_def py_eq.simps [of "PInt i" "PInt _"] fin_scaled_def)

lemma insert_number_int:
  "sorted xs \<Longrightarrow> \<exists>ys. insert_number (PInt i) (map PInt xs) = map PInt ys \<and> sorted ys \<and> mset ys = add_mset i (mset xs)"
proof (induction xs)
  case Nil
  show ?case by (intro exI [of _ "[i]"]) simp
next
  case (Cons x xs)
  show ?case
  proof (cases "i < x")
    case True
    with Cons.prems show ?thesis by (intro exI [of _ "i # x # xs"]) auto
  next
    case False
    from Cons obtain ys where ys: "insert_number (PInt i) (map PInt xs) = map PInt ys" "sorted ys" "mset ys = add_mset i (mset xs)" by auto
    then have "set ys = insert i (set xs)" by (metis set_mset_add_mset_insert set_mset_mset)
    with False Cons.prems ys show ?thesis by (intro exI [of _ "x # ys"]) auto
  qed
qed

lemma fold_insert_number:
  "sorted acc \<Longrightarrow> \<exists>ys. fold insert_number (map PInt xs) (map PInt acc) = map PInt ys \<and> sorted ys \<and> mset ys = mset acc + mset xs"
proof (induction xs arbitrary: acc)
  case (Cons x xs)
  obtain bs where "insert_number (PInt x) (map PInt acc) = map PInt bs" "sorted bs" "mset bs = add_mset x (mset acc)"
    using insert_number_int [OF Cons.prems] by blast
  with Cons.IH [of bs] show ?case by auto
qed auto

lemma add_completed_int:
  assumes "sorted xs" "distinct xs"
  shows "\<exists>ys. add_completed i (PList (map PInt xs)) = (Inr (), PList (map PInt ys)) \<and> sorted ys \<and> distinct ys \<and> set ys = insert i (set xs)"
proof (cases "i \<in> set xs")
  case True
  with assms show ?thesis by (auto simp: add_completed_def int_in_list)
next
  case False
  obtain ys where ys: "fold insert_number (map PInt (xs @ [i])) (map PInt []) = map PInt ys" "sorted ys" "mset ys = mset (xs @ [i])"
    using fold_insert_number [of "[]" "xs @ [i]"] by auto
  then have "distinct ys" "set ys = insert i (set xs)"
    using assms(2) False mset_eq_imp_distinct_iff [OF ys(3)] mset_eq_setD [OF ys(3)] by auto
  moreover have "sort_numbers (map PInt xs @ [PInt i]) = Inr (map PInt ys)"
    using ys(1) by (auto simp: sort_numbers_def list_all_iff)
  ultimately show ?thesis using ys(2) False by (auto simp: add_completed_def int_in_list)
qed

section \<open>The invariant\<close>

text \<open>What the three fields of the bookkeeping that the controller decides on mean together.\<close>

definition tidy :: "FinalizationController \<Rightarrow> pydict \<Rightarrow> bool" where
  "tidy c kv \<longleftrightarrow> (\<exists>xs. dget kv ''completed_indices'' = PList (map PInt xs) \<and> sorted xs \<and> distinct xs
     \<and> set xs \<subseteq> {0..<finalization_step_count c}
     \<and> (dget kv ''status'' = PStr ''pending'' \<and> xs = [] \<or> dget kv ''status'' = PStr ''running''
        \<or> dget kv ''status'' = PStr ''failed'' \<and> map_of kv ''failure'' \<noteq> None
        \<or> dget kv ''status'' = PStr ''completed'' \<and> xs = [0..finalization_step_count c - 1] \<and> map_of kv ''failure'' = None))"

definition kept :: "FinalizationController \<Rightarrow> pydict \<times> 'm \<Rightarrow> bool" where
  "kept c w = (case ensure_state c (fst w) of None \<Rightarrow> True | Some kv \<Rightarrow> tidy c kv)"

lemma set_default_lookup: "map_of (set_default k v kv) = (map_of kv)(k := Some (case map_of kv k of Some w \<Rightarrow> w | None \<Rightarrow> v))"
  by (auto simp: set_default_def update_conv' fun_eq_iff split: option.splits)

lemma with_defaults_lookup:
  "map_of (with_defaults c kv) ''completed_indices'' = Some (case map_of kv ''completed_indices'' of Some w \<Rightarrow> w | None \<Rightarrow> PList [])"
  "map_of (with_defaults c kv) ''status'' = Some (case map_of kv ''status'' of Some w \<Rightarrow> w | None \<Rightarrow> PStr ''pending'')"
  "map_of (with_defaults c kv) ''failure'' = map_of kv ''failure''"
  by (simp_all add: with_defaults_def set_default_lookup)

lemma tidy_defaults: "tidy c kv \<Longrightarrow> tidy c (with_defaults c kv)"
  by (auto simp: tidy_def dget_def with_defaults_lookup split: option.splits)

lemma kept_update: "tidy c kv \<Longrightarrow> kept c (AList.update ''finalization'' (PDict kv) doc, m)"
  by (simp add: kept_def ensure_state_def dget_def update_conv' tidy_defaults)

lemma sorted_range:
  fixes n :: int
  assumes "sorted xs" "distinct xs" "set xs = {0..<n}"
  shows "xs = [0..n - 1]"
proof -
  have "set [0..n - 1] = {0..<n}" by (simp add: set_upto) auto
  with assms show ?thesis using sorted_distinct_set_unique [of xs "[0..n - 1]"] sorted_upto distinct_upto by metis
qed

lemma range_by_length:
  assumes "sorted xs" "distinct xs" "set xs \<subseteq> {0..<n}" "int (length xs) = n"
  shows "xs = [0..n - 1]"
proof -
  have "card (set xs) = card {0..<n}" using assms(2,4) by (simp add: distinct_card)
  then have "set xs = {0..<n}" using assms(3) by (intro card_subset_eq) auto
  with assms show ?thesis by (intro sorted_range)
qed

lemma triple_set: "tidy c kv \<Longrightarrow> triple P (set_key ''finalization'' (PDict kv)) (\<lambda>_. kept c) E"
  unfolding set_key_def by (rule triple_modify) (auto simp: kept_update split: prod.splits)

lemma triple_persist: "triple (kept c) (persist_finalization_state persist) (\<lambda>_. kept c) (kept c)"
proof (rule tripleI)
  fix w r w' assume w: "kept c w" and run: "persist_finalization_state persist w = (r, w')"
  have "fst w' = fst w"
    using run by (cases w; cases "dget (fst w) ''finalization''") (auto simp: persist_finalization_state_def split: prod.splits)
  with w show "case r of Inr x \<Rightarrow> kept c w' | Inl e \<Rightarrow> kept c w'" by (simp add: kept_def split: sum.splits)
qed

lemma triple_ensured:
  assumes f: "\<And>kv. tidy c kv \<Longrightarrow> triple (kept c) (f kv) (\<lambda>_. kept c) (kept c)"
  shows "triple (kept c) (ensured c f) (\<lambda>_. kept c) (kept c)"
proof (rule tripleI)
  fix w r w' assume w: "kept c w" and run: "ensured c f w = (r, w')"
  obtain doc m where dm: "w = (doc, m)" by (cases w)
  show "case r of Inr x \<Rightarrow> kept c w' | Inl e \<Rightarrow> kept c w'"
  proof (cases "ensure_state c doc")
    case None
    with run dm have "w' = w" by (simp add: ensured_def)
    with w show ?thesis by (simp split: sum.splits)
  next
    case (Some kv)
    with w dm have kv: "tidy c kv" by (simp add: kept_def)
    have run': "f kv (AList.update ''finalization'' (PDict kv) doc, m) = (r, w')" using Some run unfolding dm ensured_def by simp
    show ?thesis
    proof (cases r)
      case (Inl e)
      have "kept c w'" by (rule triple_raises [OF f [OF kv] kept_update [OF kv] run' [unfolded Inl]])
      then show ?thesis unfolding Inl by simp
    next
      case (Inr x)
      have "kept c w'" by (rule triple_returns [OF f [OF kv] kept_update [OF kv] run' [unfolded Inr]])
      then show ?thesis unfolding Inr by simp
    qed
  qed
qed

lemmas fin_triples = triple_bind [OF triple_set triple_persist]

lemma tidy_same:
  "tidy c kv \<Longrightarrow> dget kv' ''completed_indices'' = dget kv ''completed_indices'' \<Longrightarrow> dget kv' ''status'' = dget kv ''status''
     \<Longrightarrow> map_of kv' ''failure'' = map_of kv ''failure'' \<Longrightarrow> tidy c kv'"
  by (simp add: tidy_def)

lemma tidy_running:
  "tidy c kv \<Longrightarrow> dget kv' ''completed_indices'' = dget kv ''completed_indices'' \<Longrightarrow> dget kv' ''status'' = PStr ''running'' \<Longrightarrow> tidy c kv'"
  by (auto simp: tidy_def)

lemma dget_updated [simp]: "dget (AList.update k v kv) k' = (if k' = k then v else dget kv k')"
  by (simp add: dget_def update_conv')

lemma activate_kept: "triple (kept c) (activate c persist body) (\<lambda>_. kept c) (kept c)"
  unfolding activate_def Let_def
proof (rule triple_ensured, rule fin_triples, goal_cases)
  case (1 kv)
  then show ?case
  proof (cases "py_eq (dget (AList.update ''body_status'' (PStr body) kv) ''status'') (PStr ''pending'')")
    case True
    with 1 show ?thesis by (simp only: if_True) (rule tidy_running, simp_all)
  next
    case False
    with 1 show ?thesis by (simp only: if_False) (rule tidy_same, simp_all add: update_conv')
  qed
qed

lemma start_kept: "triple (kept c) (record_step_start c persist i body) (\<lambda>_. kept c) (kept c)"
  unfolding record_step_start_def Let_def by (rule triple_ensured, rule fin_triples, rule tidy_running) simp_all

lemma result_fields_tidy:
  assumes "sorted ys" "distinct ys" "set ys \<subseteq> {0..<finalization_step_count c}"
    and "dget kv ''completed_indices'' = PList (map PInt ys)"
  shows "\<exists>kv'. result_fields c i step failed result body kv = Inr kv' \<and> tidy c kv'
    \<and> dget kv' ''completed_indices'' = PList (map PInt ys)
    \<and> dget kv' ''status'' = PStr (if failed then ''failed'' else if int (length ys) = finalization_step_count c then ''completed'' else ''running'')"
proof -
  have gone: "map_of (AList.delete ''failure'' kw) k = (if k = ''failure'' then None else map_of kw k)" for kw :: pydict and k
    by (simp add: delete_conv')
  show ?thesis
    using assms range_by_length [OF assms(1,2,3)]
    by (auto simp: result_fields_def Let_def py_iter_def tidy_def dget_def gone update_conv')
qed

text \<open>The effect of recording a result: two writes of the nested dict, then the callback.\<close>

lemma recorded:
  assumes "tidy c kv" "0 \<le> i" "i < finalization_step_count c"
  obtains ys kw kv' where "sorted ys" "distinct ys" "dget kv' ''completed_indices'' = PList (map PInt ys)"
    and "\<And>xs. dget kv ''completed_indices'' = PList (map PInt xs) \<Longrightarrow> set ys = (if failed then set xs else insert i (set xs))"
    and "tidy c kv'" "dget kv' ''status'' = PStr (if failed then ''failed'' else if int (length ys) = finalization_step_count c then ''completed'' else ''running'')"
    and "write_result c persist i step failed result body kv
     = io_bind (set_key ''finalization'' (PDict kw)) (\<lambda>_. io_bind (set_key ''finalization'' (PDict kv')) (\<lambda>_. persist_finalization_state persist))"
proof -
  obtain xs where xs: "dget kv ''completed_indices'' = PList (map PInt xs)" "sorted xs" "distinct xs" "set xs \<subseteq> {0..<finalization_step_count c}"
    using assms(1) by (auto simp: tidy_def)
  obtain ys where ys: "(if failed then (Inr (), dget kv ''completed_indices'') else add_completed i (dget kv ''completed_indices''))
      = (Inr (), PList (map PInt ys))" "sorted ys" "distinct ys" "set ys = (if failed then set xs else insert i (set xs))"
    using xs add_completed_int [OF xs(2,3), of i] by (cases failed) auto
  let ?kw = "AList.update ''completed_indices'' (PList (map PInt ys)) kv"
  have "set ys \<subseteq> {0..<finalization_step_count c}" using ys(4) xs(4) assms(2,3) by (auto split: if_splits)
  from result_fields_tidy [OF ys(2,3) this, of ?kw i step failed result body] obtain kv' where
    kv': "result_fields c i step failed result body ?kw = Inr kv'" "tidy c kv'" "dget kv' ''completed_indices'' = PList (map PInt ys)"
      "dget kv' ''status'' = PStr (if failed then ''failed'' else if int (length ys) = finalization_step_count c then ''completed'' else ''running'')"
    by auto
  have unit: "io_bind (pure (Inr x)) f = f x" for x :: pydict and f :: "pydict \<Rightarrow> ('m, unit) fin" by (rule ext) simp
  have same: "inj PInt" by (simp add: inj_def)
  show ?thesis
  proof (rule that [OF ys(2,3) kv'(3) _ kv'(2,4), of ?kw])
    show "set ys = (if failed then set zs else insert i (set zs))" if "dget kv ''completed_indices'' = PList (map PInt zs)" for zs
      using that xs(1) ys(4) inj_map_eq_map [OF same, of zs xs] by simp
  qed (simp add: write_result_def ys(1) kv'(1) unit)
qed

lemma result_kept:
  assumes "0 \<le> i" "i < finalization_step_count c"
  shows "triple (kept c) (record_step_result c persist i step failed result body) (\<lambda>_. kept c) (kept c)"
  unfolding record_step_result_def
proof (rule triple_ensured)
  fix kv assume kv: "tidy c kv"
  show "triple (kept c) (write_result c persist i step failed result body kv) (\<lambda>_. kept c) (kept c)"
  proof (rule recorded [OF kv assms, where failed = failed and step = step and result = result and body = body and persist = persist], goal_cases)
    case (1 ys kw kv')
    have "triple (kept c) (set_key ''finalization'' (PDict kw)) (\<lambda>_ _. True) (kept c)" by (auto simp: set_key_def intro: triple_modify)
    from triple_bind [OF this fin_triples [OF 1(5)]] show ?case unfolding 1(7) .
  qed
qed

lemma kept_unchanged: "ensure_state c (fst w') = ensure_state c (fst w) \<Longrightarrow> kept c w \<Longrightarrow> kept c w'"
  by (simp add: kept_def)

lemma ensure_other: "k \<noteq> ''finalization'' \<Longrightarrow> ensure_state c (AList.update k v doc) = ensure_state c doc"
  by (simp add: ensure_state_def)

lemma failed_error_kept: "ensure_state c (failed_run_error step result body doc) = ensure_state c doc"
  by (simp add: failed_run_error_def ensure_other)

lemma suppress_kept:
  "triple (kept c) (\<lambda>(doc, m). suppress_outputs c persist (ensure_state c doc) (failed_run_error step result body doc, m)) (\<lambda>_. kept c) (kept c)"
proof (rule tripleI)
  fix w r w'
  assume w: "kept c w" and run: "(\<lambda>(doc, m). suppress_outputs c persist (ensure_state c doc) (failed_run_error step result body doc, m)) w = (r, w')"
  obtain doc m where dm: "w = (doc, m)" by (cases w)
  let ?e = "(failed_run_error step result body doc, m)"
  have e: "kept c ?e" using w unfolding dm kept_def by (simp add: failed_error_kept)
  have "triple (kept c) (suppress_outputs c persist (ensure_state c doc)) (\<lambda>_. kept c) (kept c)"
  proof (cases "ensure_state c doc")
    case (Some kv)
    with w dm have "tidy c kv" by (simp add: kept_def)
    then have "tidy c (AList.update ''workflow_outputs_status'' (PStr ''suppressed'') kv)" by (rule tidy_same) (simp_all add: update_conv')
    with Some show ?thesis unfolding suppress_outputs_def by (simp add: fin_triples)
  qed (auto simp: suppress_outputs_def)
  note t = this
  have run': "suppress_outputs c persist (ensure_state c doc) ?e = (r, w')" using run unfolding dm by simp
  show "case r of Inr x \<Rightarrow> kept c w' | Inl e \<Rightarrow> kept c w'"
  proof (cases r)
    case (Inl e)
    from triple_raises [OF t \<open>kept c ?e\<close> run' [unfolded Inl]] show ?thesis unfolding Inl by simp
  next
    case (Inr x)
    from triple_returns [OF t \<open>kept c ?e\<close> run' [unfolded Inr]] show ?thesis unfolding Inr by simp
  qed
qed

lemma settled_kept:
  assumes "\<And>i. finalization_index_for c at_index node = Some i \<Longrightarrow> 0 \<le> i \<and> i < finalization_step_count c"
  shows "triple (kept c) (record_settled_result c persist at_index step body node) (\<lambda>_. kept c) (kept c)"
proof (cases "finalization_index_for c at_index node")
  case (Some i)
  with assms have i: "0 \<le> i" "i < finalization_step_count c" by auto
  have first: "triple (kept c) (check (\<lambda>(doc, m). py_get (dget_default doc ''steps'' (PDict [])) step)) (\<lambda>_. kept c) (kept c)"
    by (rule triple_check) auto
  have again: "triple (kept c) (ensured c (\<lambda>kv. ret ())) (\<lambda>_. kept c) (kept c)" by (rule triple_ensured) auto
  show ?thesis
    unfolding record_settled_result_def Let_def Some option.case
    by (rule triple_bind [OF first], rule triple_bind [OF result_kept [OF i]], rule triple_bind [OF again], rule triple_if, rule suppress_kept, auto)
qed (auto simp: record_settled_result_def)

lemma continue_kept: "triple (kept c) (continue_into_finalization c persist next_step at_index status node) (\<lambda>_. kept c) (kept c)"
  unfolding continue_into_finalization_def Let_def
  by (intro triple_if triple_bind [OF activate_kept] triple_ret) auto

section \<open>Runs of the controller\<close>

text \<open>
  What the executor does between the start and the end of a run: calls of the controller, whether
  they return or raise, and changes of other parts of the state dict and of the manager.
\<close>

inductive fin_step :: "FinalizationController \<Rightarrow> (pyval \<Rightarrow> ('m, unit) act) \<Rightarrow> pydict \<times> 'm \<Rightarrow> pydict \<times> 'm \<Rightarrow> bool"
  for c persist where
  activating: "activate c persist body w = (r, w') \<Longrightarrow> fin_step c persist w w'"
| starting: "record_step_start c persist i body w = (r, w') \<Longrightarrow> fin_step c persist w w'"
| settling: "(\<And>i. finalization_index_for c at_index node = Some i \<Longrightarrow> 0 \<le> i \<and> i < finalization_step_count c) \<Longrightarrow>
    record_settled_result c persist at_index step body node w = (r, w') \<Longrightarrow> fin_step c persist w w'"
| routing: "continue_into_finalization c persist next_step at_index status node w = (d, w') \<Longrightarrow> fin_step c persist w w'"
| elsewhere: "dget (fst w') ''finalization'' = dget (fst w) ''finalization'' \<Longrightarrow> fin_step c persist w w'"

lemma triple_step: "triple (kept c) f (\<lambda>_. kept c) (kept c) \<Longrightarrow> kept c w \<Longrightarrow> f w = (r, w') \<Longrightarrow> kept c w'"
  by (cases r) (auto dest: triple_returns triple_raises)

lemma fin_step_kept: "fin_step c persist w w' \<Longrightarrow> kept c w \<Longrightarrow> kept c w'"
proof (induction rule: fin_step.induct)
  case (settling at_index node step body w r w')
  from triple_step [OF settled_kept [OF settling(1)] settling(3,2)] show ?case .
next
  case (elsewhere w' w)
  then have "ensure_state c (fst w') = ensure_state c (fst w)" by (simp add: ensure_state_def)
  then show ?case using elsewhere(2) by (rule kept_unchanged)
qed (rule triple_step [OF activate_kept] triple_step [OF start_kept] triple_step [OF continue_kept]; assumption)+

lemma fresh_kept:
  assumes "dget doc ''finalization'' \<in> {PNone, PDict []}"
  shows "kept c (doc, m)"
proof -
  have "tidy c (with_defaults c kv)" if "kv = [] \<or> Some kv = initial_state c" for kv
    using that unfolding tidy_def dget_def with_defaults_lookup by (auto simp: initial_state_def split: if_splits)
  moreover have "\<exists>kv. ensure_state c doc = Some (with_defaults c kv) \<and> (kv = [] \<or> Some kv = initial_state c)" if "0 < finalization_step_count c"
    using assms that by (auto simp: ensure_state_def initial_state_def)
  ultimately show ?thesis by (cases "0 < finalization_step_count c") (auto simp: kept_def ensure_state_def)
qed

text \<open>
  C21: the bookkeeping of cleanup steps. From a run that has none, after any calls of the controller with steps in range
  and whatever the callback does, the completed indices are sorted, distinct and in range, and the
  status says what it should: pending before any step is done, completed only when every cleanup step
  is done and no failure is on record, failed only with one on record.
\<close>

theorem bookkeeping_invariant:
  assumes "dget doc ''finalization'' \<in> {PNone, PDict []}" "(fin_step c persist)\<^sup>*\<^sup>* (doc, m) w" "ensure_state c (fst w) = Some kv"
  shows "tidy c kv"
proof -
  have "kept c w"
    using assms(2)
  proof (induction rule: rtranclp_induct)
    case base
    show ?case by (rule fresh_kept [OF assms(1)])
  qed (rule fin_step_kept)
  with assms(3) show ?thesis by (simp add: kept_def)
qed

definition cleanup :: FinalizationController where
  "cleanup = make_controller (PDict [(''id'', PStr ''cleanup'')]) 3 None [''n1'', ''n2''] (Some ''n1'') None True"

theorem bookkeeping_invariant_witness:
  "tidy cleanup [(''block_id'', PStr ''cleanup''), (''status'', PStr ''running''), (''body_status'', PStr ''completed''), (''current_index'', PNone),
     (''completed_indices'', PList []), (''step_names'', PList []), (''workflow_outputs_status'', PStr ''pending'')]"
proof -
  let ?w = "([(''steps'', PDict [])], ())" and ?run = "activate cleanup (\<lambda>_. ret ()) ''completed'' ([(''steps'', PDict [])], ())"
  have fresh: "dget [(''steps'', PDict [])] ''finalization'' \<in> {PNone, PDict []}" by simp
  have "fin_step cleanup (\<lambda>_. ret ()) ?w (snd ?run)" by (rule fin_step.activating [of _ _ _ _ "fst ?run"]) (rule prod.collapse [symmetric])
  then have reach: "(fin_step cleanup (\<lambda>_. ret ()))\<^sup>*\<^sup>* ?w (snd ?run)" by (rule r_into_rtranclp)
  have "ensure_state cleanup (fst (snd ?run)) = Some [(''block_id'', PStr ''cleanup''), (''status'', PStr ''running''),
     (''body_status'', PStr ''completed''), (''current_index'', PNone), (''completed_indices'', PList []), (''step_names'', PList []),
     (''workflow_outputs_status'', PStr ''pending'')]" by code_simp
  from bookkeeping_invariant [OF fresh reach this] show ?thesis .
qed

section \<open>Completion\<close>

lemma set_key_run: "set_key k v (doc, m) = (Inr (), (AList.update k v doc, m))"
  by (simp add: set_key_def modify_def)

lemma persist_doc: "fst (snd (persist_finalization_state persist w)) = fst w"
  by (cases w; cases "dget (fst w) ''finalization''") (auto simp: persist_finalization_state_def split: prod.splits)

lemma success_recorded:
  assumes "kept c w" "0 \<le> i" "i < finalization_step_count c"
    and "ensure_state c (fst w) = Some kv" "dget kv ''completed_indices'' = PList (map PInt xs)"
  obtains kv' ys where "ensure_state c (fst (snd (record_step_result c persist i step False result body w))) = Some kv'"
    "dget kv' ''completed_indices'' = PList (map PInt ys)" "sorted ys" "distinct ys" "set ys = insert i (set xs)"
    "dget kv' ''status'' = PStr (if int (length ys) = finalization_step_count c then ''completed'' else ''running'')"
proof -
  obtain doc m where dm: "w = (doc, m)" by (cases w)
  have kv: "tidy c kv" using assms(1,4) by (simp add: kept_def)
  show ?thesis
  proof (rule recorded [OF kv assms(2,3), where failed = False and step = step and result = result and body = body and persist = persist], goal_cases)
    case (1 ys kw kv')
    let ?doc = "AList.update ''finalization'' (PDict kv') (AList.update ''finalization'' (PDict kw) (AList.update ''finalization'' (PDict kv) doc))"
    have "record_step_result c persist i step False result body w = persist_finalization_state persist (?doc, m)"
      using assms(4) dm by (simp add: record_step_result_def ensured_def 1(7) io_bind_def set_key_run)
    then have "ensure_state c (fst (snd (record_step_result c persist i step False result body w))) = Some (with_defaults c kv')"
      using assms(2,3) by (simp add: persist_doc ensure_state_def)
    moreover have "map_of kv' ''completed_indices'' = Some (PList (map PInt ys))"
      using 1(3) by (simp add: dget_def split: option.splits)
    moreover have "map_of kv' ''status'' = Some (PStr (if int (length ys) = finalization_step_count c then ''completed'' else ''running''))"
      using 1(6) by (simp add: dget_def split: option.splits)
    ultimately show ?case
      using 1(1,2) 1(4) [OF assms(5)] by (intro that [of "with_defaults c kv'" ys]) (simp_all only: dget_def with_defaults_lookup option.case if_False)
  qed
qed

definition record_successes ::
    "FinalizationController \<Rightarrow> (pyval \<Rightarrow> ('m, unit) act) \<Rightarrow> string \<Rightarrow> (int \<Rightarrow> string) \<Rightarrow> (int \<Rightarrow> pyval) \<Rightarrow> int list \<Rightarrow> pydict \<times> 'm \<Rightarrow> pydict \<times> 'm" where
  "record_successes c persist body step result = fold (\<lambda>i w. snd (record_step_result c persist i (step i) False (result i) body w))"

lemma successes_recorded:
  assumes "kept c w" "ensure_state c (fst w) = Some kv" "dget kv ''completed_indices'' = PList (map PInt xs)"
    and "set is \<subseteq> {0..<finalization_step_count c}" "is \<noteq> []"
  shows "\<exists>kv' ys. ensure_state c (fst (record_successes c persist body step result is w)) = Some kv'
    \<and> dget kv' ''completed_indices'' = PList (map PInt ys) \<and> sorted ys \<and> distinct ys \<and> set ys = set xs \<union> set is
    \<and> dget kv' ''status'' = PStr (if int (length ys) = finalization_step_count c then ''completed'' else ''running'')"
  using assms
proof (induction "is" arbitrary: w kv xs)
  case (Cons i "is")
  have i: "0 \<le> i" "i < finalization_step_count c" using Cons.prems(4) by auto
  let ?w = "snd (record_step_result c persist i (step i) False (result i) body w)"
  obtain kv' ys where one: "ensure_state c (fst ?w) = Some kv'"
    "dget kv' ''completed_indices'' = PList (map PInt ys)" "sorted ys" "distinct ys" "set ys = insert i (set xs)"
    "dget kv' ''status'' = PStr (if int (length ys) = finalization_step_count c then ''completed'' else ''running'')"
    by (rule success_recorded [OF Cons.prems(1) i Cons.prems(2,3)])
  have kept: "kept c ?w" using triple_step [OF result_kept [OF i] Cons.prems(1)] by (metis prod.collapse)
  have run: "record_successes c persist body step result (i # is) w = record_successes c persist body step result is ?w"
    by (simp add: record_successes_def)
  show ?case
  proof (cases "is = []")
    case True
    have "record_successes c persist body step result (i # is) w = ?w" unfolding True by (simp add: record_successes_def)
    with one True show ?thesis by auto
  next
    case False
    have "set is \<subseteq> {0..<finalization_step_count c}" using Cons.prems(4) by auto
    from Cons.IH [OF kept one(1,2) this False] one(5) show ?thesis unfolding run by auto
  qed
qed simp

text \<open>
  C22: cleanup completes. When a success is recorded for every cleanup step, in any order and with any repetition, the
  bookkeeping ends as completed with every index in it, whatever the callback does.
\<close>

theorem cleanup_completes:
  assumes "dget doc ''finalization'' \<in> {PNone, PDict []}" "0 < finalization_step_count c" "set is = {0..<finalization_step_count c}"
  shows "\<exists>kv. ensure_state c (fst (record_successes c persist body step result is (doc, m))) = Some kv
    \<and> dget kv ''status'' = PStr ''completed'' \<and> dget kv ''completed_indices'' = PList (map PInt [0..finalization_step_count c - 1])"
proof -
  obtain kv xs where kv: "ensure_state c doc = Some kv" "dget kv ''completed_indices'' = PList (map PInt xs)"
      "set xs \<subseteq> {0..<finalization_step_count c}"
    using fresh_kept [OF assms(1), of c m] assms(2) by (auto simp: kept_def tidy_def split: option.splits) (simp add: ensure_state_def)
  have "is \<noteq> []" using assms(2,3) by auto
  with successes_recorded [OF fresh_kept [OF assms(1), of c m], of kv xs "is" persist body step result] kv assms(3)
  obtain kv' ys where kv': "ensure_state c (fst (record_successes c persist body step result is (doc, m))) = Some kv'"
    "dget kv' ''completed_indices'' = PList (map PInt ys)" "sorted ys" "distinct ys" "set ys = set xs \<union> set is"
    "dget kv' ''status'' = PStr (if int (length ys) = finalization_step_count c then ''completed'' else ''running'')"
    by auto
  have "set ys = {0..<finalization_step_count c}" using kv'(5) kv(3) assms(3) by auto
  then have "ys = [0..finalization_step_count c - 1]" by (rule sorted_range [OF kv'(3,4)])
  moreover from this have "int (length ys) = finalization_step_count c" using assms(2) by simp
  ultimately show ?thesis using kv'(1,2,6) by auto
qed

theorem cleanup_completes_witness:
  "\<exists>kv. ensure_state cleanup (fst (record_successes cleanup (\<lambda>_. ret ()) ''completed'' (\<lambda>i. ''tidy'') (\<lambda>i. PNone) [1, 0, 1] ([], ()))) = Some kv
     \<and> dget kv ''status'' = PStr ''completed'' \<and> dget kv ''completed_indices'' = PList [PInt 0, PInt 1]"
proof -
  have "dget [] ''finalization'' \<in> {PNone, PDict []}" "0 < finalization_step_count cleanup"
    "set [1, 0, 1] = {0..<finalization_step_count cleanup}" by (auto simp: cleanup_def make_controller_def)
  from cleanup_completes [OF this, of "\<lambda>_. ret ()" "''completed''" "\<lambda>i. ''tidy''" "\<lambda>i. PNone" "()"]
  show ?thesis by (simp add: cleanup_def make_controller_def upto_rec1)
qed

end
