(* ===== verification/OutputCapture.thy ===== *)
theory OutputCapture
  imports JsonAscii PathJoin "HOL-Library.Sublist"
begin

text \<open>
  Capture of the output of a step, \<open>exec/output_capture.py\<close>: decoding, the three modes with their
  limits, the spill of full output into log files, and the dict stored in the run state. Decoded
  text is the list of its code points. The files are a map from paths to bytes; writing succeeds and
  directories exist. SHA-256 and the text of a JSON parse error are arguments.
\<close>

section \<open>Decoding\<close>

text \<open>
  \<open>bytes.decode('utf-8', errors='replace')\<close>: the longest start of a sequence that could still become
  well-formed, or a single byte that starts none, becomes one \<open>U+FFFD\<close>.
\<close>

definition second_ok :: "nat \<Rightarrow> nat \<Rightarrow> bool" where
  "second_ok a b \<longleftrightarrow> (if a = 224 then 160 \<le> b \<and> b \<le> 191 else if a = 237 then 128 \<le> b \<and> b \<le> 159
     else if a = 240 then 144 \<le> b \<and> b \<le> 191 else if a = 244 then 128 \<le> b \<and> b \<le> 143 else 128 \<le> b \<and> b \<le> 191)"

definition trail_ok :: "nat \<Rightarrow> bool" where
  "trail_ok b \<longleftrightarrow> 128 \<le> b \<and> b \<le> 191"

text \<open>How many bytes follow a leading byte; none for a byte that cannot lead.\<close>

definition lead_length :: "nat \<Rightarrow> nat" where
  "lead_length a = (if 194 \<le> a \<and> a \<le> 223 then 1 else if 224 \<le> a \<and> a \<le> 239 then 2 else if 240 \<le> a \<and> a \<le> 244 then 3 else 0)"

definition good_trail :: "nat \<Rightarrow> nat list \<Rightarrow> nat list" where
  "good_trail a bs = (case bs of [] \<Rightarrow> []
     | b # cs \<Rightarrow> (if second_ok a b then b # takeWhile trail_ok cs else []))"

definition point_of :: "nat \<Rightarrow> nat list \<Rightarrow> nat" where
  "point_of a bs = fold (\<lambda>b n. n * 64 + (b - 128)) bs (if a < 224 then a - 192 else if a < 240 then a - 224 else a - 240)"

function decode_replace :: "nat list \<Rightarrow> nat list" where
  "decode_replace [] = []"
| "decode_replace (a # s) =
     (if a < 128 then a # decode_replace s
      else (let n = lead_length a; t = good_trail a (take n s) in
        if 0 < n \<and> length t = n then point_of a t # decode_replace (drop n s)
        else 65533 # decode_replace (drop (length t) s)))"
  by pat_completeness auto
termination
  by (relation "measure length") auto

declare decode_replace.simps(2) [simp del]

definition decode_stdout :: "string \<Rightarrow> nat list" where
  "decode_stdout raw = decode_replace (map of_char raw)"

definition encode :: "nat list \<Rightarrow> string" where
  "encode ps = concat (map utf8 ps)"

section \<open>Results\<close>

datatype CaptureMode = Text | Lines | JSON

record CaptureResult =
  capture_mode :: CaptureMode
  cap_output :: "string option"
  cap_lines :: "string list option"
  cap_json :: pyval
  cap_truncated :: bool
  cap_exit_code :: int
  cap_error :: pydict
  cap_debug :: pydict

definition blank_result :: "CaptureMode \<Rightarrow> int \<Rightarrow> CaptureResult" where
  "blank_result mode code = \<lparr>capture_mode = mode, cap_output = None, cap_lines = None, cap_json = PNone,
     cap_truncated = False, cap_exit_code = code, cap_error = [], cap_debug = []\<rparr>"

definition to_state_dict :: "CaptureResult \<Rightarrow> pydict" where
  "to_state_dict r = [(''exit_code'', PInt (cap_exit_code r)), (''truncated'', PBool (cap_truncated r))]
     @ (if capture_mode r = Text \<or> capture_mode r = JSON \<and> cap_json r = PNone
        then (case cap_output r of Some s \<Rightarrow> [(''output'', PStr s)] | None \<Rightarrow> []) else [])
     @ (if capture_mode r = Lines then (case cap_lines r of Some ls \<Rightarrow> [(''lines'', PList (map PStr ls))] | None \<Rightarrow> []) else [])
     @ (if capture_mode r = JSON \<and> cap_json r \<noteq> PNone then [(''json'', cap_json r)] else [])
     @ (if cap_error r \<noteq> [] then [(''error'', PDict (cap_error r))] else [])
     @ (if cap_debug r \<noteq> [] then [(''debug'', PDict (cap_debug r))] else [])"

section \<open>Limits and log files\<close>

definition TEXT_LIMIT_BYTES :: nat where "TEXT_LIMIT_BYTES = 8 * 1024"
definition LINES_LIMIT :: nat where "LINES_LIMIT = 10000"
definition JSON_BUFFER_LIMIT :: nat where "JSON_BUFFER_LIMIT = 1024 * 1024"
definition LOG_FILENAME_LIMIT_BYTES :: nat where "LOG_FILENAME_LIMIT_BYTES = 240"

definition filename_char :: "char \<Rightarrow> bool" where
  "filename_char c \<longleftrightarrow> c \<in> set ''ABCDEFGHIJKLMNOPQRSTUVWXYZabcdefghijklmnopqrstuvwxyz0123456789_.%-''"

text \<open>\<open>re.sub(r"[^A-Za-z0-9_.%-]+", "_", name)\<close>: a run of other characters becomes one underscore.\<close>

fun safe_prefix :: "bool \<Rightarrow> string \<Rightarrow> string" where
  "safe_prefix run [] = []"
| "safe_prefix run (c # s) = (if filename_char c then c # safe_prefix False s else if run then safe_prefix True s else CHR ''_'' # safe_prefix True s)"

text \<open>\<open>while len(prefix) > budget: prefix = prefix[:-1]\<close>; the budget of the two endings in use is positive.\<close>

function trim_to :: "nat \<Rightarrow> 'a list \<Rightarrow> 'a list" where
  "trim_to budget p = (if budget < length p then trim_to budget (butlast p) else p)"
  by pat_completeness auto
termination
  by (relation "measure (\<lambda>(b, p). length p)") auto

declare trim_to.simps [simp del]

definition log_name :: "(string \<Rightarrow> string) \<Rightarrow> string \<Rightarrow> string \<Rightarrow> string" where
  "log_name sha step ending =
     (let filename = step @ ''.'' @ ending in
      if length filename \<le> LOG_FILENAME_LIMIT_BYTES then filename
      else (let digest = take 16 (sha step); reserved = length (''__'' @ digest @ ''.'' @ ending);
          budget = LOG_FILENAME_LIMIT_BYTES - reserved
        in trim_to budget (safe_prefix False step) @ ''__'' @ digest @ ''.'' @ ending))"

type_synonym files = "(string \<times> string) list"

definition log_file :: "(string \<Rightarrow> string) \<Rightarrow> string \<Rightarrow> string \<Rightarrow> string \<Rightarrow> string" where
  "log_file sha logs_dir step ending = path_str (joinpath (PurePosixPath logs_dir) (PurePosixPath (log_name sha step ending)))"

definition spill :: "(string \<Rightarrow> string) \<Rightarrow> string \<Rightarrow> string \<Rightarrow> string \<Rightarrow> files \<Rightarrow> files" where
  "spill sha logs_dir step raw fs = AList.update (log_file sha logs_dir step ''stdout'') raw fs"

section \<open>The modes\<close>

text \<open>\<open>while len(output.encode('utf-8')) > limit: output = output[:-1]\<close>.\<close>

function fit_bytes :: "nat list \<Rightarrow> nat list" where
  "fit_bytes ps = (if TEXT_LIMIT_BYTES < length (encode ps) then fit_bytes (butlast ps) else ps)"
  by pat_completeness auto
termination
proof (relation "measure length", goal_cases)
  case (2 ps)
  then have "ps \<noteq> []" by (auto simp: encode_def)
  then show ?case by simp
qed simp

declare fit_bytes.simps [simp del]

definition clip_text :: "nat list \<Rightarrow> nat list" where
  "clip_text ps = fit_bytes (take TEXT_LIMIT_BYTES ps)"

definition capture_text :: "(string \<Rightarrow> string) \<Rightarrow> string \<Rightarrow> nat list \<Rightarrow> string \<Rightarrow> string \<Rightarrow> int \<Rightarrow> files \<Rightarrow> CaptureResult \<times> files" where
  "capture_text sha logs_dir txt raw step code fs =
     (if TEXT_LIMIT_BYTES < length (encode txt)
      then ((blank_result Text code)\<lparr>cap_output := Some (encode (clip_text txt)), cap_truncated := True\<rparr>, spill sha logs_dir step raw fs)
      else ((blank_result Text code)\<lparr>cap_output := Some (encode txt)\<rparr>, fs))"

fun replace_crlf_points :: "nat list \<Rightarrow> nat list" where
  "replace_crlf_points (a # b # s) = (if a = 13 \<and> b = 10 then 10 # replace_crlf_points s else a # replace_crlf_points (b # s))"
| "replace_crlf_points s = s"

fun split_points :: "nat list \<Rightarrow> nat list list" where
  "split_points [] = [[]]"
| "split_points (p # ps) = (if p = 10 then [] # split_points ps
     else (case split_points ps of [] \<Rightarrow> [[p]] | l # ls \<Rightarrow> (p # l) # ls))"

definition text_lines :: "nat list \<Rightarrow> nat list list" where
  "text_lines txt = (let ls = split_points (replace_crlf_points txt) in if ls \<noteq> [] \<and> last ls = [] then butlast ls else ls)"

definition capture_lines :: "(string \<Rightarrow> string) \<Rightarrow> string \<Rightarrow> nat list \<Rightarrow> string \<Rightarrow> string \<Rightarrow> int \<Rightarrow> files \<Rightarrow> CaptureResult \<times> files" where
  "capture_lines sha logs_dir txt raw step code fs =
     (let ls = text_lines txt in
      if LINES_LIMIT < length ls
      then ((blank_result Lines code)\<lparr>cap_lines := Some (map encode (take LINES_LIMIT ls)), cap_truncated := True\<rparr>, spill sha logs_dir step raw fs)
      else ((blank_result Lines code)\<lparr>cap_lines := Some (map encode ls)\<rparr>, fs))"

definition overflow_message :: "nat \<Rightarrow> string" where
  "overflow_message n = ''JSON buffer overflow: '' @ nat_repr n @ '' bytes exceeds 1 MiB limit''"

definition capture_json ::
    "(string \<Rightarrow> string) \<Rightarrow> (string \<Rightarrow> string) \<Rightarrow> string \<Rightarrow> nat list \<Rightarrow> string \<Rightarrow> string \<Rightarrow> bool \<Rightarrow> int \<Rightarrow> files \<Rightarrow> CaptureResult \<times> files" where
  "capture_json sha explain logs_dir txt raw step allow code fs =
     (if JSON_BUFFER_LIMIT < length raw then
        (if allow then
           ((blank_result JSON 0)\<lparr>cap_output := Some (encode (clip_text txt)), cap_truncated := True,
              cap_debug := [(''json_parse_error'', PStr (overflow_message (length raw)))]\<rparr>, spill sha logs_dir step raw fs)
         else ((blank_result JSON 2)\<lparr>cap_error := [(''type'', PStr ''json_overflow''), (''message'', PStr (overflow_message (length raw))),
              (''context'', PDict [(''buffer_size'', PInt (int (length raw))), (''limit'', PInt (int JSON_BUFFER_LIMIT))])]\<rparr>, fs))
      else (case json_loads (encode txt) of
          Inr v \<Rightarrow> ((blank_result JSON code)\<lparr>cap_json := v\<rparr>, fs)
        | Inl _ \<Rightarrow> (if allow then
             (let long = TEXT_LIMIT_BYTES < length (encode txt) in
              ((blank_result JSON 0)\<lparr>cap_output := Some (encode (if long then clip_text txt else txt)), cap_truncated := long,
                 cap_debug := [(''json_parse_error'', PStr (explain (encode txt)))]\<rparr>, if long then spill sha logs_dir step raw fs else fs))
           else ((blank_result JSON 2)\<lparr>cap_error := [(''type'', PStr ''json_parse_error''),
                 (''message'', PStr (''Failed to parse JSON: '' @ explain (encode txt))), (''context'', PDict [])]\<rparr>, fs))))"

definition capture ::
    "(string \<Rightarrow> string) \<Rightarrow> (string \<Rightarrow> string) \<Rightarrow> string \<Rightarrow> string \<Rightarrow> string \<Rightarrow> string \<Rightarrow> CaptureMode \<Rightarrow> string option \<Rightarrow> bool \<Rightarrow> int
     \<Rightarrow> files \<Rightarrow> CaptureResult \<times> files" where
  "capture sha explain logs_dir stdout stderr step mode output_file allow code fs =
     (let fs = (if stderr \<noteq> [] then AList.update (log_file sha logs_dir step ''stderr'') stderr fs else fs);
          fs = (case output_file of Some path \<Rightarrow> AList.update path stdout fs | None \<Rightarrow> fs);
          txt = decode_stdout stdout
      in case mode of
          Text \<Rightarrow> capture_text sha logs_dir txt stdout step code fs
        | Lines \<Rightarrow> capture_lines sha logs_dir txt stdout step code fs
        | JSON \<Rightarrow> capture_json sha explain logs_dir txt stdout step allow code fs)"

section \<open>What text mode keeps\<close>

lemma encode_append [simp]: "encode (ps @ qs) = encode ps @ encode qs"
  by (simp add: encode_def)

lemma encode_length: "length ps \<le> length (encode ps)"
proof (induction ps)
  case (Cons p ps)
  have "0 < length (utf8 p)" by simp
  with Cons show ?case unfolding encode_def by (simp only: list.map concat.simps length_append list.size)
qed (simp add: encode_def)

lemma encode_take: "j \<le> k \<Longrightarrow> length (encode (take j ps)) \<le> length (encode (take k ps))"
proof -
  assume "j \<le> k"
  then have "take k ps = take j ps @ take (k - j) (drop j ps)" by (metis le_add_diff_inverse take_add)
  then show ?thesis by simp
qed

lemma fit_bytes_longest:
  "\<exists>k \<le> length ps. fit_bytes ps = take k ps \<and> length (encode (take k ps)) \<le> TEXT_LIMIT_BYTES
     \<and> (\<forall>j \<le> length ps. length (encode (take j ps)) \<le> TEXT_LIMIT_BYTES \<longrightarrow> j \<le> k)"
proof (induction ps rule: fit_bytes.induct)
  case (1 ps)
  show ?case
  proof (cases "TEXT_LIMIT_BYTES < length (encode ps)")
    case False
    then show ?thesis by (intro exI [of _ "length ps"]) (simp add: fit_bytes.simps [of ps])
  next
    case True
    with 1 obtain k where k: "k \<le> length (butlast ps)" "fit_bytes (butlast ps) = take k (butlast ps)"
      "length (encode (take k (butlast ps))) \<le> TEXT_LIMIT_BYTES"
      "\<forall>j \<le> length (butlast ps). length (encode (take j (butlast ps))) \<le> TEXT_LIMIT_BYTES \<longrightarrow> j \<le> k" by blast
    have less: "take j (butlast ps) = take j ps" if "j \<le> length ps - 1" for j using that by (simp add: butlast_conv_take min_absorb1)
    have "j \<le> k" if j: "j \<le> length ps" "length (encode (take j ps)) \<le> TEXT_LIMIT_BYTES" for j
    proof (cases "j = length ps")
      case True
      with j(2) \<open>TEXT_LIMIT_BYTES < length (encode ps)\<close> show ?thesis by simp
    next
      case False
      with j have "j \<le> length ps - 1" by simp
      with k(4) j(2) less show ?thesis by simp
    qed
    with k(1-3) True show ?thesis using less [of k] by (intro exI [of _ k]) (simp add: fit_bytes.simps [of ps])
  qed
qed

lemma clip_longest:
  "\<exists>k \<le> length ps. clip_text ps = take k ps \<and> length (encode (take k ps)) \<le> TEXT_LIMIT_BYTES
     \<and> (\<forall>j \<le> length ps. length (encode (take j ps)) \<le> TEXT_LIMIT_BYTES \<longrightarrow> j \<le> k)"
proof -
  let ?qs = "take TEXT_LIMIT_BYTES ps"
  obtain k where k: "k \<le> length ?qs" "fit_bytes ?qs = take k ?qs" "length (encode (take k ?qs)) \<le> TEXT_LIMIT_BYTES"
    "\<forall>j \<le> length ?qs. length (encode (take j ?qs)) \<le> TEXT_LIMIT_BYTES \<longrightarrow> j \<le> k" using fit_bytes_longest by blast
  have "j \<le> k" if j: "j \<le> length ps" "length (encode (take j ps)) \<le> TEXT_LIMIT_BYTES" for j
  proof -
    have "j \<le> TEXT_LIMIT_BYTES" using encode_length [of "take j ps"] j by simp
    with k(4) j show ?thesis by (simp add: min_absorb1)
  qed
  with k show ?thesis by (intro exI [of _ k]) (simp add: clip_text_def min_absorb1)
qed

text \<open>
  C23: text capture. The output kept is the longest run of whole characters from the start of the decoded output that
  fits the limit in UTF-8; it is marked truncated exactly when something is missing, and then the log file of the step
  holds the output byte for byte.
\<close>

theorem captured_text_is_longest_prefix:
  assumes "capture sha explain logs_dir stdout stderr step Text output_file allow code fs = (r, fs')"
  shows "\<exists>k \<le> length (decode_stdout stdout).
      cap_output r = Some (encode (take k (decode_stdout stdout))) \<and> length (encode (take k (decode_stdout stdout))) \<le> TEXT_LIMIT_BYTES
    \<and> (\<forall>j \<le> length (decode_stdout stdout). length (encode (take j (decode_stdout stdout))) \<le> TEXT_LIMIT_BYTES \<longrightarrow> j \<le> k)
    \<and> (cap_truncated r \<longleftrightarrow> k < length (decode_stdout stdout))
    \<and> (cap_truncated r \<longrightarrow> map_of fs' (log_file sha logs_dir step ''stdout'') = Some stdout)
    \<and> cap_exit_code r = code"
proof -
  let ?ps = "decode_stdout stdout"
  obtain fs0 where run: "capture_text sha logs_dir ?ps stdout step code fs0 = (r, fs')"
    using assms by (auto simp: capture_def Let_def)
  show ?thesis
  proof (cases "TEXT_LIMIT_BYTES < length (encode ?ps)")
    case True
    obtain k where k: "k \<le> length ?ps" "clip_text ?ps = take k ?ps" "length (encode (take k ?ps)) \<le> TEXT_LIMIT_BYTES"
      "\<forall>j \<le> length ?ps. length (encode (take j ?ps)) \<le> TEXT_LIMIT_BYTES \<longrightarrow> j \<le> k" using clip_longest by blast
    have "k \<noteq> length ?ps" using True k(3) by auto
    with k True run show ?thesis by (intro exI [of _ k]) (auto simp: capture_text_def blank_result_def spill_def update_conv')
  next
    case False
    with run show ?thesis by (intro exI [of _ "length ?ps"]) (auto simp: capture_text_def blank_result_def)
  qed
qed

theorem captured_text_is_longest_prefix_witness:
  "cap_output (fst (capture (\<lambda>s. s) (\<lambda>s. s) ''/w/logs'' [CHR ''h'', CHR 0xC3, CHR 0xA9, CHR 0xFF] [] ''s'' Text None False 0 [])) =
     Some [CHR ''h'', CHR 0xC3, CHR 0xA9, CHR 0xEF, CHR 0xBF, CHR 0xBD]"
proof -
  let ?out = "[CHR ''h'', CHR 0xC3, CHR 0xA9, CHR 0xFF]"
  define c where "c = capture (\<lambda>s. s) (\<lambda>s. s) ''/w/logs'' ?out [] ''s'' Text None False 0 []"
  have run: "capture (\<lambda>s. s) (\<lambda>s. s) ''/w/logs'' ?out [] ''s'' Text None False 0 [] = (fst c, snd c)" by (simp add: c_def)
  have d: "decode_stdout ?out = [104, 233, 65533]"
    by (simp add: decode_stdout_def decode_replace.simps lead_length_def good_trail_def second_ok_def trail_ok_def point_of_def)
  have three: "length [104, 233, 65533 :: nat] = 3" by simp
  obtain k where k: "k \<le> 3" "cap_output (fst c) = Some (encode (take k [104, 233, 65533]))"
    "\<forall>j \<le> 3. length (encode (take j [104, 233, 65533])) \<le> TEXT_LIMIT_BYTES \<longrightarrow> j \<le> k"
    using captured_text_is_longest_prefix [OF run] unfolding d three by blast
  have "length (encode (take 3 [104, 233, 65533])) \<le> TEXT_LIMIT_BYTES" by (simp add: encode_def utf8_def TEXT_LIMIT_BYTES_def)
  with k(3) have "3 \<le> k" by blast
  with k(1) have "k = 3" by simp
  moreover have "encode (take 3 [104, 233, 65533]) = [CHR ''h'', CHR 0xC3, CHR 0xA9, CHR 0xEF, CHR 0xBF, CHR 0xBD]" by (simp add: encode_def utf8_def char_of_def bit_Suc_0_iff)
  ultimately show ?thesis using k(2) unfolding c_def by simp
qed

section \<open>Log file names\<close>

lemma trim_to_length: "length (trim_to budget p) \<le> budget"
  by (induction budget p rule: trim_to.induct) (subst trim_to.simps, simp)

text \<open>The name of a log file fits the limit of common file systems.\<close>

lemma log_name_fits: "ending \<in> {''stdout'', ''stderr''} \<Longrightarrow> length (log_name sha step ending) \<le> 240"
  using trim_to_length [of "LOG_FILENAME_LIMIT_BYTES - (length (take 16 (sha step)) + 9)" "safe_prefix False step"]
  by (auto simp: log_name_def Let_def LOG_FILENAME_LIMIT_BYTES_def)

section \<open>Decoding what was encoded\<close>

lemma byte_of_char [simp]: "n < 256 \<Longrightarrow> of_char (char_of n) = (n :: nat)"
  by simp

lemma second_okI:
  "128 \<le> b \<Longrightarrow> b \<le> 191 \<Longrightarrow> (a = 224 \<Longrightarrow> 160 \<le> b) \<Longrightarrow> (a = 237 \<Longrightarrow> b \<le> 159) \<Longrightarrow> (a = 240 \<Longrightarrow> 144 \<le> b)
     \<Longrightarrow> (a = 244 \<Longrightarrow> b \<le> 143) \<Longrightarrow> second_ok a b"
  by (auto simp: second_ok_def)

lemma decode_utf8:
  assumes "scalar p"
  shows "decode_replace (map of_char (utf8 p) @ s) = p # decode_replace s"
proof -
  consider "p < 128" | (two) "128 \<le> p" "p < 2048" | (three) "2048 \<le> p" "p < 65536" | (four) "65536 \<le> p" by linarith
  then show ?thesis
  proof cases
    case 1
    then show ?thesis by (simp add: utf8_def decode_replace.simps)
  next
    case two
    let ?a = "192 + p div 64" and ?b = "128 + p mod 64"
    have r: "194 \<le> ?a" "?a \<le> 223" "128 \<le> ?b" "?b \<le> 191" using two by linarith+
    then have u: "map of_char (utf8 p) = [?a, ?b]" using two by (simp add: utf8_def)
    have "lead_length ?a = 1" "good_trail ?a [?b] = [?b]" using r by (simp_all add: lead_length_def good_trail_def second_ok_def)
    moreover have "point_of ?a [?b] = p" using r(2) by (simp add: point_of_def)
    ultimately show ?thesis using r unfolding u by (simp add: decode_replace.simps(2) [of ?a] Let_def)
  next
    case three
    let ?a = "224 + p div 4096" and ?b = "128 + p div 64 mod 64" and ?c = "128 + p mod 64"
    have r: "224 \<le> ?a" "?a \<le> 239" "128 \<le> ?b" "?b \<le> 191" "128 \<le> ?c" "?c \<le> 191" using three by linarith+
    then have u: "map of_char (utf8 p) = [?a, ?b, ?c]" using three by (simp add: utf8_def)
    have q: "p div 4096 = p div 64 div 64" by (simp flip: div_mult2_eq)
    have m: "p = 64 * (p div 64) + p mod 64" "p div 64 = 64 * (p div 64 div 64) + p div 64 mod 64" by simp_all
    have "?a = 224 \<Longrightarrow> 160 \<le> ?b" using three m unfolding q by linarith
    moreover have "?a = 237 \<Longrightarrow> ?b \<le> 159" using assms m unfolding q scalar_def by linarith
    ultimately have "second_ok ?a ?b" using r by (intro second_okI) linarith+
    then have t: "lead_length ?a = 2" "good_trail ?a [?b, ?c] = [?b, ?c]" using r by (simp_all add: lead_length_def good_trail_def trail_ok_def)
    have "(p div 4096 * 64 + p div 64 mod 64) * 64 + p mod 64 = p" unfolding q by (simp only: div_mult_mod_eq)
    then have "point_of ?a [?b, ?c] = p" using r(2) by (simp add: point_of_def)
    with t show ?thesis using r unfolding u by (simp add: decode_replace.simps(2) [of ?a] Let_def)
  next
    case four
    let ?a = "240 + p div 262144" and ?b = "128 + p div 4096 mod 64" and ?c = "128 + p div 64 mod 64" and ?d = "128 + p mod 64"
    have p: "p < 1114112" using assms by (simp add: scalar_def)
    have r: "240 \<le> ?a" "?a \<le> 244" "128 \<le> ?b" "?b \<le> 191" "128 \<le> ?c" "?c \<le> 191" "128 \<le> ?d" "?d \<le> 191" using four p by linarith+
    then have u: "map of_char (utf8 p) = [?a, ?b, ?c, ?d]" using four by (simp add: utf8_def)
    have q: "p div 4096 = p div 64 div 64" "p div 262144 = p div 64 div 64 div 64" by (simp_all flip: div_mult2_eq)
    have m: "p = 64 * (p div 64) + p mod 64" "p div 64 = 64 * (p div 64 div 64) + p div 64 mod 64"
      "p div 64 div 64 = 64 * (p div 64 div 64 div 64) + p div 64 div 64 mod 64" by simp_all
    have "?a = 240 \<Longrightarrow> 144 \<le> ?b" using four m unfolding q by linarith
    moreover have "?a = 244 \<Longrightarrow> ?b \<le> 143" using p m unfolding q by linarith
    ultimately have "second_ok ?a ?b" using r by (intro second_okI) linarith+
    then have t: "lead_length ?a = 3" "good_trail ?a [?b, ?c, ?d] = [?b, ?c, ?d]" using r by (simp_all add: lead_length_def good_trail_def trail_ok_def)
    have "((p div 262144 * 64 + p div 4096 mod 64) * 64 + p div 64 mod 64) * 64 + p mod 64 = p" unfolding q by (simp only: div_mult_mod_eq)
    then have "point_of ?a [?b, ?c, ?d] = p" using r(1) by (simp add: point_of_def)
    with t show ?thesis using r unfolding u by (simp add: decode_replace.simps(2) [of ?a] Let_def numeral_3_eq_3)
  qed
qed

lemma decode_encode: "list_all scalar ps \<Longrightarrow> decode_stdout (encode ps) = ps"
  unfolding decode_stdout_def encode_def by (induction ps) (simp_all add: decode_utf8)

lemma decode_well_formed: "well_formed s \<Longrightarrow> encode (decode_stdout s) = s"
proof -
  assume "well_formed s"
  then have "list_all scalar (json_points s)" "s = encode (json_points s)" by (simp_all add: well_formed_def encode_def)
  then show ?thesis using decode_encode by metis
qed

text \<open>
  Output that is well-formed UTF-8 is captured as it is: in text mode when it fits the limit, and in JSON mode the value is
  the one that it denotes, with the exit code of the process, when it is a JSON text that fits the buffer.
\<close>

theorem well_formed_output_is_exact:
  assumes "well_formed stdout"
  shows "(length stdout \<le> TEXT_LIMIT_BYTES \<longrightarrow>
      fst (capture sha explain logs_dir stdout stderr step Text output_file allow code fs) = (blank_result Text code)\<lparr>cap_output := Some stdout\<rparr>)
    \<and> (length stdout \<le> JSON_BUFFER_LIMIT \<and> json_loads stdout = Inr v \<longrightarrow>
      fst (capture sha explain logs_dir stdout stderr step JSON output_file allow code fs) = (blank_result JSON code)\<lparr>cap_json := v\<rparr>)"
  using decode_well_formed [OF assms] by (auto simp: capture_def Let_def capture_text_def capture_json_def)

theorem well_formed_output_is_exact_witness:
  "fst (capture (\<lambda>s. s) (\<lambda>s. s) ''/w/logs'' ''[1]'' [] ''s'' JSON None False 3 []) = (blank_result JSON 3)\<lparr>cap_json := PList [PInt 1]\<rparr>"
proof -
  have "well_formed ''[1]''" by (rule ascii_well_formed) (simp add: all_ascii_def)
  moreover have "length ''[1]'' \<le> JSON_BUFFER_LIMIT" by (simp add: JSON_BUFFER_LIMIT_def)
  moreover have "json_loads ''[1]'' = Inr (PList [PInt 1])" by code_simp
  ultimately show ?thesis using well_formed_output_is_exact by blast
qed

text \<open>The JSON text \<open>null\<close> is the value that stands for no value: the state gets no field for it.\<close>

lemma null_json_leaves_no_field:
  "to_state_dict ((blank_result JSON code)\<lparr>cap_json := PNone\<rparr>) = [(''exit_code'', PInt code), (''truncated'', PBool False)]"
  by (simp add: to_state_dict_def blank_result_def)

section \<open>What lines mode keeps\<close>

fun join_lines :: "nat list list \<Rightarrow> nat list" where
  "join_lines [] = []"
| "join_lines [l] = l"
| "join_lines (l # m # ls) = l @ 10 # join_lines (m # ls)"

lemma split_points_join: "split_points ps \<noteq> [] \<and> join_lines (split_points ps) = ps \<and> (\<forall>l \<in> set (split_points ps). 10 \<notin> set l)"
proof (induction ps)
  case (Cons p ps)
  then obtain l ls where l: "split_points ps = l # ls" by (cases "split_points ps") auto
  with Cons show ?case by (cases ls) auto
qed simp

lemma join_snoc: "ls \<noteq> [] \<Longrightarrow> join_lines (ls @ [[]]) = join_lines ls @ [10]"
  by (induction ls rule: join_lines.induct) auto

lemma text_lines_join:
  "\<exists>rest \<in> {[], [10]}. replace_crlf_points ps = join_lines (text_lines ps) @ rest"
  "\<forall>l \<in> set (text_lines ps). 10 \<notin> set l"
proof -
  let ?ls = "split_points (replace_crlf_points ps)"
  have ls: "?ls \<noteq> []" "join_lines ?ls = replace_crlf_points ps" "\<forall>l \<in> set ?ls. 10 \<notin> set l"
    using split_points_join [of "replace_crlf_points ps"] by auto
  then show "\<forall>l \<in> set (text_lines ps). 10 \<notin> set l" by (auto simp: text_lines_def Let_def dest: in_set_butlastD)
  show "\<exists>rest \<in> {[], [10]}. replace_crlf_points ps = join_lines (text_lines ps) @ rest"
  proof (cases "last ?ls = []")
    case False
    with ls show ?thesis by (simp add: text_lines_def)
  next
    case True
    then have e: "text_lines ps = butlast ?ls" "?ls = butlast ?ls @ [[]]" using ls(1) append_butlast_last_id [OF ls(1)] by (simp_all add: text_lines_def)
    show ?thesis
    proof (cases "butlast ?ls = []")
      case True
      then show ?thesis using ls(2) e by simp
    next
      case False
      then have "replace_crlf_points ps = join_lines (butlast ?ls) @ [10]" using join_snoc [OF False] e(2) ls(2) by metis
      with e(1) show ?thesis by simp
    qed
  qed
qed

text \<open>
  C24: lines capture. The lines kept are the first ten thousand of the lines whose join by newlines is the decoded output with CRLF
  made LF, but for one final newline; no line has a newline in it; and when some are missing the result is marked
  truncated and the log file of the step holds the output byte for byte.
\<close>

theorem captured_lines_are_the_text:
  assumes "capture sha explain logs_dir stdout stderr step Lines output_file allow code fs = (r, fs')"
  shows "\<exists>ls. cap_lines r = Some (map encode (take LINES_LIMIT ls))
    \<and> (\<exists>rest \<in> {[], [10]}. replace_crlf_points (decode_stdout stdout) = join_lines ls @ rest)
    \<and> (\<forall>l \<in> set ls. 10 \<notin> set l)
    \<and> (cap_truncated r \<longleftrightarrow> LINES_LIMIT < length ls)
    \<and> (cap_truncated r \<longrightarrow> map_of fs' (log_file sha logs_dir step ''stdout'') = Some stdout)"
proof -
  let ?ls = "text_lines (decode_stdout stdout)"
  obtain fs0 where "capture_lines sha logs_dir (decode_stdout stdout) stdout step code fs0 = (r, fs')"
    using assms by (auto simp: capture_def Let_def)
  then have "cap_lines r = Some (map encode (take LINES_LIMIT ?ls))" "cap_truncated r \<longleftrightarrow> LINES_LIMIT < length ?ls"
    "cap_truncated r \<longrightarrow> map_of fs' (log_file sha logs_dir step ''stdout'') = Some stdout"
    by (auto simp: capture_lines_def Let_def blank_result_def spill_def update_conv' split: if_splits)
  then show ?thesis using text_lines_join by blast
qed

theorem captured_lines_are_the_text_witness:
  "\<exists>ls. cap_lines (fst (capture (\<lambda>s. s) (\<lambda>s. s) ''/w/logs'' [CHR ''a'', CHR 0x0D, CHR 0x0A, CHR ''b'', CHR 0x0A] [] ''s'' Lines None False 0 [])) =
     Some (map encode (take LINES_LIMIT ls)) \<and> (\<exists>rest \<in> {[], [10]}. [97, 10, 98, 10] = join_lines ls @ rest)"
proof -
  let ?out = "[CHR ''a'', CHR 0x0D, CHR 0x0A, CHR ''b'', CHR 0x0A]"
  define c where "c = capture (\<lambda>s. s) (\<lambda>s. s) ''/w/logs'' ?out [] ''s'' Lines None False 0 []"
  have run: "capture (\<lambda>s. s) (\<lambda>s. s) ''/w/logs'' ?out [] ''s'' Lines None False 0 [] = (fst c, snd c)" by (simp add: c_def)
  have d: "replace_crlf_points (decode_stdout ?out) = [97, 10, 98, 10]" by (simp add: decode_stdout_def decode_replace.simps)
  from captured_lines_are_the_text [OF run] show ?thesis unfolding d c_def by blast
qed

end
