(* ===== verification/Spec2Isabelle.thy ===== *)
theory Spec2Isabelle
  imports PureExprPayload TransitionReplay Conditions LispRoundtrip SourceTrace StateBackups AttemptOrdinals Secrets ReplayOrder Finalization OutputCapture
begin

text \<open>
  \<^bold>\<open>Verification of the workflow core of agent-orchestration.\<close>

  \<^bold>\<open>The program.\<close> An orchestrator runs workflows: documents of steps that call providers and
  commands, branch on conditions, compute values and update resources on disk. The code under
  \<open>src/orchestrator\<close> that decides what a step sees and what a run leaves behind is pure Python
  over JSON-like data, and that code is modelled here:

    \<^item> \<open>workflow/pure_expr.py\<close>: a small typed expression language. A payload (bindings, result type,
      expression) is validated structurally, typed statically, then evaluated; evaluation coerces
      every result against its declared type descriptor.
    \<^item> \<open>workflow/transition_contract.py\<close>: declarations of resource transitions. Preconditions,
      updates and results are pure expression payloads; requests are coerced against the declared
      type and digested into an idempotency key.
    \<^item> \<open>workflow/transition_executor.py\<close>: execution of a declared transition against files: load,
      version check, replay of a committed request, preconditions, commit, audit row, and recovery
      through a pending sidecar when the audit row could not be written.
    \<^item> \<open>workflow/references.py\<close>, \<open>workflow/predicates.py\<close>: structured references to step results
      and the typed predicates that compare them.
    \<^item> \<open>variables/substitution.py\<close>, \<open>workflow/conditions.py\<close>: \<open>${...}\<close> substitution, and the \<open>when\<close>
      conditions of a step, which substitute, test files in the workspace or evaluate a predicate.
    \<^item> \<open>workflow_lisp/reader.py\<close> with \<open>sexpr.py\<close> and \<open>spans.py\<close>: the reader of the workflow language,
      and the trace of the files a compilation has read.
    \<^item> \<open>state.py\<close> with \<open>_common/io_atomic.py\<close>: the state of a run, its document \<open>state.json\<close> and the
      manager whose operations the executor calls: each changes the state in memory and replaces the
      document atomically.
    \<^item> \<open>workflow/provider_attempts.py\<close> and the progress part of \<open>workflow/pure_result_replay.py\<close>:
      identities and ordinals of provider attempts, and the visits of pure steps, both kept in the
      run state; of its replay index, the order, the propagation of ineligibility and the closure of
      the nodes that a consumer requires.
    \<^item> \<open>workflow/finalization.py\<close>: the bookkeeping of cleanup steps in the run state.
      \<open>exec/output_capture.py\<close>: decoding of a step's output, its limits, and the spill into log files.
    \<^item> \<open>security/secrets.py\<close>: the environment of a step's process and the masking of secret values.

  \<^bold>\<open>Conventions.\<close> Theory \<^verbatim>\<open>Prelude\<close> has the error monad: a Python function that may raise
  returns \<open>exc + 'a\<close>, every \<open>raise\<close> is an \<open>Inl\<close>. Theory \<^verbatim>\<open>PyValue\<close> has the values (\<open>pyval\<close>) with the
  language's own truth value, equality, ordering and subscription. Exceptions keep their class
  and their error code; message texts are left out. \<open>str\<close> is the list of its UTF-8 bytes, a
  \<open>dict\<close> the list of its items in insertion order, a finite \<open>float\<close> its shortest decimal.

  \<^bold>\<open>Theories and sources.\<close>

    \<^item> \<^verbatim>\<open>CanonicalJson\<close>: \<open>canonical_json_for_pure_value\<close> and the payload digest. The locale
      \<open>canonical_encoding\<close> states what the digests rely on (equal texts come from equal JSON
      values); it is interpreted for the encoder of pure expressions and, in
      \<^verbatim>\<open>TransitionDeclaration\<close>, for the one of transitions.
    \<^item> \<^verbatim>\<open>TypeDescriptor\<close>: validation, matching and coercion of type descriptors.
      \<^verbatim>\<open>DescriptorTypes\<close> gives descriptors a meaning: an inductive relation \<open>desc_ty\<close> to a datatype of
      types, with an abstract coercion on it. \<^verbatim>\<open>DescriptorCoercion\<close> and \<^verbatim>\<open>DescriptorMatch\<close> prove that the
      code implements it: validation accepts exactly the descriptors with a meaning (if unions are named,
      declare no field \<open>variant\<close> and floats are finite, the predicate \<open>sane\<close>), matching is equality
      of meaning up to labels, coercion depends on the meaning only and is idempotent.
    \<^item> \<^verbatim>\<open>PathJoin\<close>: \<open>path-join-under\<close> over a model of \<open>PurePosixPath\<close>: a result stays under its root.
    \<^item> \<^verbatim>\<open>PureExpr\<close>, \<^verbatim>\<open>PureExprEval\<close>: validation, static typing and evaluation of every node and
      operator. \<^verbatim>\<open>PureExprTypes\<close>, \<^verbatim>\<open>OperatorSound\<close>, \<^verbatim>\<open>PureExprSound\<close> prove type soundness construct by
      construct; \<^verbatim>\<open>PureExprPayload\<close> states it for payloads, and the integer bounds of arithmetic.
    \<^item> \<^verbatim>\<open>TransitionContract\<close>, \<^verbatim>\<open>TransitionCoercion\<close>, \<^verbatim>\<open>TransitionDeclaration\<close>, \<^verbatim>\<open>TransitionDemo\<close>:
      declarations, coercion (locale \<open>stable_coercion\<close>, interpreted for both coercions), keys, and a
      concrete declaration the witnesses use.
    \<^item> \<^verbatim>\<open>JsonText\<close>, \<^verbatim>\<open>TextLines\<close>, \<^verbatim>\<open>FileSystem\<close>: \<open>json.loads\<close>, \<open>json.dumps\<close> in two layouts (locale
      \<open>layout\<close>), \<open>splitlines\<close>, and a world of files with the state-passing form of Python I/O.
      \<^verbatim>\<open>TransitionExecutor\<close> is the executor over it. \<^verbatim>\<open>AuditLog\<close> proves that the audit file behaves as
      an append-only list of rows (locale \<open>append_log\<close>); \<^verbatim>\<open>TransitionReplay\<close> that a committed request is
      answered from the log without a second commit, and that a commit whose audit append failed
      is recovered by the next attempt, both for native resources and rows that fit one line of the log.
    \<^item> \<^verbatim>\<open>Actions\<close>: stateful code as state passing, with triples for its proofs. \<^verbatim>\<open>JsonAscii\<close>: the
      layout of the run document. \<^verbatim>\<open>AtomicWrite\<close>: \<open>io_atomic.py\<close> over a host whose system calls may be
      refused at any point and whose writes may be partial; a replacement is atomic and, if let
      through, returns.
    \<^item> \<^verbatim>\<open>ProviderAttempts\<close>: scopes, member-turn ids and the allocator table. \<^verbatim>\<open>PureReplay\<close>: the
      classification of a pure visit. \<^verbatim>\<open>RunState\<close>: the records of \<open>state.py\<close>, their dict forms, and the
      life of a pure visit. \<^verbatim>\<open>StateManager\<close>: every operation of the class. \<^verbatim>\<open>ProviderAllocation\<close>: the owner
      of a nested run and the allocation of ordinals.
    \<^item> \<^verbatim>\<open>StatePersistence\<close>: what survives JSON and what each mutation keeps. \<^verbatim>\<open>StateRequests\<close>: requests as
      a datatype, sequences of them with restarts as a step relation; the document always loads, and
      what a request returned is in it, for values that JSON gives back unchanged (\<open>value_ok\<close>: no floats
      and no tuples). \<^verbatim>\<open>StateBackups\<close>: backups and repair. \<^verbatim>\<open>AttemptOrdinals\<close>: an ordinal
      is never handed out twice.
    \<^item> \<^verbatim>\<open>ReplayOrder\<close>: graph algorithms of the replay index against declarative specifications (greatest
      supported set, closure, absence of cycles). \<^verbatim>\<open>Secrets\<close>: resolution and masking; a masked value does not
      occur in a masked text. \<^verbatim>\<open>Finalization\<close>: the controller as actions on the state dict, with a step relation and
      its invariant. \<^verbatim>\<open>OutputCapture\<close>: what each mode keeps of the output, and that decoding inverts encoding.
    \<^item> \<^verbatim>\<open>References\<close>, \<^verbatim>\<open>Predicates\<close>, \<^verbatim>\<open>Substitution\<close>, \<^verbatim>\<open>Conditions\<close>: one theory per module; the locale
      \<open>text_substitution\<close> is what conditions rely on of the substituter.
    \<^item> \<^verbatim>\<open>LispReader\<close>: the reader over code points, in which every read of a character may be out of range.
      \<^verbatim>\<open>LispScan\<close>: a total reference reader, and that the code's reader refines it: its guards keep every
      index in range. \<^verbatim>\<open>LispSpans\<close>: the reader always returns and the spans of its nodes are the text they
      were read from. \<^verbatim>\<open>LispRoundtrip\<close>: printed trees read back.
      \<^verbatim>\<open>SourceTrace\<close>: the read trace as a step relation with its invariant.

  \<^bold>\<open>Fuel.\<close> Most recursions are structural or have a measure. \<open>json_loads\<close> runs its parser with one
  more than the length of the text, since every nested call has consumed a character; the
  round-trip lemmas of \<^verbatim>\<open>JsonText\<close> show this is enough. The Lisp reader runs with
  \<open>read_fuel = 2 * length + 3\<close>; \<^verbatim>\<open>LispSpans\<close> proves it never runs out.

  \<^bold>\<open>Parameters.\<close> SHA-256, the adapter process of a transition, globbing and symbolic link
  resolution, \<open>str()\<close> of a container, the bytes of source files, the process environment, the clock, the random part of
  temporary names, the outcome of each system call and the working directory are arguments of the
  definitions that use them or fields of the host. Where a property needs one of them to behave (distinct digests for
  distinct texts), that is a hypothesis of the property.

  \<^bold>\<open>Not modelled.\<close> The step executor (\<open>workflow/executor.py\<close>) and everything that drives
  processes, sockets, sandboxes, terminals or HTTP: providers, supervision, phased delivery, run
  references, managed jobs, monitor, dashboard, language server, command line. The workflow
  schema checks (\<open>workflow/validation.py\<close>), the intermediate representations and the Workflow Lisp
  passes after the reader are pure, but form one dependency cluster of more than a hundred
  thousand lines; the derivation of the replay index and the replay runtime read those representations
  and are left out with them. Experiment and demo scripts are not part of the program. Within the modelled
  modules, exception messages, Python's recursion limit and the rounding of float literals are left
  out. The transition executor meets no I/O error but a missing file or a refused append; the state
  manager meets refused system calls in every atomic write, while directories exist and plain reads
  and the copies of backups succeed. Sequences of requests leave out \<open>attempt_repair\<close>, which runs on a
  document that does not load, and \<open>_mutate_scoped_state\<close>, which nested managers call. Locks are left out: the operations of a manager are taken one after the other.
\<close>

end
